(* ===== verification/Py_Base.thy ===== *)
theory Py_Base
  imports Main "HOL-Library.AList" "HOL-Library.Multiset" "HOL-Library.Char_ord" "HOL-Library.List_Lexorder"
    "HOL-Library.Product_Lexorder"
begin

text \<open>
  The prelude: the Python values the modelled code computes with, and the lemmas every component
  shares.

  \<^item> A Python \<open>str\<close> is a \<^typ>\<open>string\<close>, read as its UTF-8 encoding. Operations that look at
    single characters (\<open>strip\<close>, \<open>lower\<close>, \<open>split\<close>) treat the ASCII range; other bytes pass
    through unchanged.
  \<^item> The values of JSON shape that travel through events, records and state files
    (\<open>None\<close>, \<open>bool\<close>, \<open>int\<close>, \<open>str\<close>, \<open>list\<close>, \<open>dict\<close>) are the datatype \<open>json\<close>. Fractional numbers are
    not part of it.
  \<^item> A \<open>dict\<close> is an association list in insertion order: \<open>d[k] = v\<close> overwrites in place or
    appends (\<^term>\<open>AList.update\<close>), \<open>d.get(k)\<close> is \<^term>\<open>map_of\<close>.
  \<^item> An operation that may raise returns a sum, \<open>Inl\<close> the exception.
\<close>

named_theorems py_defs \<open>definitions of Python primitives, unfolded on demand\<close>
named_theorems dict_simps \<open>lookups after dictionary updates\<close>

section \<open>Values\<close>

datatype json =
    JNull
  | JBool bool
  | JInt int
  | JStr string
  | JList "json list"
  | JObj "(string \<times> json) list"

type_synonym pydict = "(string \<times> json) list"

text \<open>The exceptions the modelled code raises, with their message where it is fixed text.\<close>

datatype py_error =
    ValueError string
  | TypeError string
  | KeyError string
  | AttributeError string
  | RuntimeError string
  | OSError string
  | InvalidTransition string

type_synonym 'a res = "py_error + 'a"

fun is_dict :: "json \<Rightarrow> bool" where
  "is_dict (JObj _) = True"
| "is_dict _ = False"

fun is_str :: "json \<Rightarrow> bool" where
  "is_str (JStr _) = True"
| "is_str _ = False"

fun is_list :: "json \<Rightarrow> bool" where
  "is_list (JList _) = True"
| "is_list _ = False"

text \<open>\<open>x if isinstance(x, dict) else {}\<close>\<close>

fun as_dict :: "json \<Rightarrow> pydict" where
  "as_dict (JObj d) = d"
| "as_dict _ = []"

fun as_list :: "json \<Rightarrow> json list" where
  "as_list (JList xs) = xs"
| "as_list _ = []"

text \<open>Truthiness, as \<open>bool(x)\<close>.\<close>

fun truthy :: "json \<Rightarrow> bool" where
  "truthy JNull = False"
| "truthy (JBool b) = b"
| "truthy (JInt i) = (i \<noteq> 0)"
| "truthy (JStr s) = (s \<noteq> [])"
| "truthy (JList xs) = (xs \<noteq> [])"
| "truthy (JObj d) = (d \<noteq> [])"

text \<open>\<open>a or b\<close>\<close>

definition py_or :: "json \<Rightarrow> json \<Rightarrow> json" where
  "py_or a b = (if truthy a then a else b)"

text \<open>\<open>s or t\<close> on strings\<close>

definition str_or :: "string \<Rightarrow> string \<Rightarrow> string" where
  "str_or s t = (if s \<noteq> [] then s else t)"

section \<open>Strings\<close>

definition is_space :: "char \<Rightarrow> bool" where
  "is_space c = (let n = (of_char c :: nat) in n = 32 \<or> (9 \<le> n \<and> n \<le> 13) \<or> (28 \<le> n \<and> n \<le> 31))"

definition lstrip :: "string \<Rightarrow> string" where
  "lstrip s = dropWhile is_space s"

definition strip :: "string \<Rightarrow> string" where
  "strip s = rev (lstrip (rev (lstrip s)))"

definition lower_char :: "char \<Rightarrow> char" where
  "lower_char c = (let n = (of_char c :: nat) in if 65 \<le> n \<and> n \<le> 90 then char_of (n + 32) else c)"

definition lower :: "string \<Rightarrow> string" where
  "lower s = map lower_char s"

definition startswith :: "string \<Rightarrow> string \<Rightarrow> bool" where
  "startswith s p \<longleftrightarrow> take (length p) s = p"

definition endswith :: "string \<Rightarrow> string \<Rightarrow> bool" where
  "endswith s p \<longleftrightarrow> length p \<le> length s \<and> drop (length s - length p) s = p"

text \<open>\<open>p in s\<close>\<close>

fun contains :: "string \<Rightarrow> string \<Rightarrow> bool" where
  "contains [] p = (p = [])"
| "contains (c # s) p = (startswith (c # s) p \<or> contains s p)"

text \<open>\<open>s.split(c)\<close> for a one-character separator\<close>

fun split_on :: "char \<Rightarrow> string \<Rightarrow> string list" where
  "split_on c [] = [[]]"
| "split_on c (x # s) =
     (if x = c then [] # split_on c s
      else (case split_on c s of [] \<Rightarrow> [[x]] | l # ls \<Rightarrow> (x # l) # ls))"

fun join :: "string \<Rightarrow> string list \<Rightarrow> string" where
  "join sep [] = []"
| "join sep [x] = x"
| "join sep (x # y # xs) = x @ sep @ join sep (y # xs)"

definition digit_char :: "nat \<Rightarrow> char" where
  "digit_char n = char_of (48 + n)"

fun show_nat :: "nat \<Rightarrow> string" where
  "show_nat n = (if n < 10 then [digit_char n] else show_nat (n div 10) @ [digit_char (n mod 10)])"

declare show_nat.simps [simp del]

definition show_int :: "int \<Rightarrow> string" where
  "show_int i = (if i < 0 then CHR ''-'' # show_nat (nat (- i)) else show_nat (nat i))"

definition is_digit :: "char \<Rightarrow> bool" where
  "is_digit c = (let n = (of_char c :: nat) in 48 \<le> n \<and> n \<le> 57)"

definition digit_val :: "char \<Rightarrow> nat" where
  "digit_val c = of_char c - 48"

definition hex_char :: "nat \<Rightarrow> char" where
  "hex_char n = (if n < 10 then char_of (48 + n) else char_of (87 + n))"

text \<open>\<open>int(s)\<close> on a string: surrounding white space, one sign, digits with single underscores
  between them.\<close>

fun parse_digits :: "nat \<Rightarrow> string \<Rightarrow> nat option" where
  "parse_digits acc [] = Some acc"
| "parse_digits acc [c] = (if is_digit c then Some (10 * acc + digit_val c) else None)"
| "parse_digits acc (c # d # s) =
     (if is_digit c then
        (if d = CHR ''_'' then (if s = [] then None else parse_digits (10 * acc + digit_val c) s)
         else parse_digits (10 * acc + digit_val c) (d # s))
      else None)"

definition parse_int :: "string \<Rightarrow> int option" where
  "parse_int s =
     (case strip s of
        [] \<Rightarrow> None
      | c # t \<Rightarrow>
          (if c = CHR ''-'' then (if t = [] then None else map_option (\<lambda>n. - int n) (parse_digits 0 t))
           else if c = CHR ''+'' then (if t = [] then None else map_option int (parse_digits 0 t))
           else map_option int (parse_digits 0 (c # t))))"

text \<open>\<open>int(x)\<close>: \<open>None\<close> stands for the \<open>TypeError\<close> or \<open>ValueError\<close> it raises.\<close>

fun py_int :: "json \<Rightarrow> int option" where
  "py_int (JInt i) = Some i"
| "py_int (JBool b) = Some (if b then 1 else 0)"
| "py_int (JStr s) = parse_int s"
| "py_int _ = None"

text \<open>\<open>repr\<close> and \<open>str\<close>.\<close>

definition quote_char :: "string \<Rightarrow> char" where
  "quote_char s = (if CHR 39 \<in> set s \<and> CHR 34 \<notin> set s then CHR 34 else CHR 39)"

definition repr_char :: "char \<Rightarrow> char \<Rightarrow> string" where
  "repr_char q c =
     (let n = (of_char c :: nat) in
      if c = q \<or> n = 92 then [CHR 92, c]
      else if n = 9 then [CHR 92, CHR ''t'']
      else if n = 10 then [CHR 92, CHR ''n'']
      else if n = 13 then [CHR 92, CHR ''r'']
      else if n < 32 \<or> n = 127 then [CHR 92, CHR ''x'', hex_char (n div 16), hex_char (n mod 16)]
      else [c])"

definition repr_str :: "string \<Rightarrow> string" where
  "repr_str s = (let q = quote_char s in q # concat (map (repr_char q) s) @ [q])"

fun py_repr :: "json \<Rightarrow> string" where
  "py_repr JNull = ''None''"
| "py_repr (JBool b) = (if b then ''True'' else ''False'')"
| "py_repr (JInt i) = show_int i"
| "py_repr (JStr s) = repr_str s"
| "py_repr (JList xs) = ''['' @ join '', '' (map py_repr xs) @ '']''"
| "py_repr (JObj d) = ''{'' @ join '', '' (map (\<lambda>kv. repr_str (fst kv) @ '': '' @ py_repr (snd kv)) d) @ ''}''"

fun py_str :: "json \<Rightarrow> string" where
  "py_str (JStr s) = s"
| "py_str v = py_repr v"

section \<open>Results\<close>

text \<open>\<open>list(v)\<close>\<close>

definition py_list :: "json \<Rightarrow> json list res" where
  "py_list v =
     (case v of
        JList xs \<Rightarrow> Inr xs
      | JStr s \<Rightarrow> Inr (map (\<lambda>c. JStr [c]) s)
      | JObj d \<Rightarrow> Inr (map (\<lambda>kv. JStr (fst kv)) d)
      | _ \<Rightarrow> Inl (TypeError ''object is not iterable''))"

text \<open>Sequencing: the first exception ends the computation.\<close>

fun res_map :: "('a \<Rightarrow> 'b res) \<Rightarrow> 'a list \<Rightarrow> 'b list res" where
  "res_map f [] = Inr []"
| "res_map f (x # xs) =
     (case f x of
        Inl e \<Rightarrow> Inl e
      | Inr y \<Rightarrow> (case res_map f xs of Inl e \<Rightarrow> Inl e | Inr ys \<Rightarrow> Inr (y # ys)))"

definition res_bind :: "'a res \<Rightarrow> ('a \<Rightarrow> 'b res) \<Rightarrow> 'b res" where
  "res_bind x f = (case x of Inl e \<Rightarrow> Inl e | Inr y \<Rightarrow> f y)"

lemma res_bind_simps [simp]: "res_bind (Inl e) f = Inl e" "res_bind (Inr y) f = f y"
  by (simp_all add: res_bind_def)

lemma res_bind_cong [fundef_cong]:
  "x = x' \<Longrightarrow> (\<And>y. x' = Inr y \<Longrightarrow> f y = f' y) \<Longrightarrow> res_bind x f = res_bind x' f'"
  by (cases x') simp_all

lemma res_bind_Inr: "res_bind x f = Inr z \<longleftrightarrow> (\<exists>y. x = Inr y \<and> f y = Inr z)"
  by (cases x) simp_all

section \<open>Dictionaries\<close>

definition dict_get :: "pydict \<Rightarrow> string \<Rightarrow> json" where
  "dict_get d k = (case map_of d k of None \<Rightarrow> JNull | Some v \<Rightarrow> v)"

definition dict_set :: "pydict \<Rightarrow> string \<Rightarrow> json \<Rightarrow> pydict" where
  "dict_set d k v = AList.update k v d"

definition dict_pop :: "pydict \<Rightarrow> string \<Rightarrow> pydict" where
  "dict_pop d k = filter (\<lambda>kv. fst kv \<noteq> k) d"

text \<open>\<open>{**d, **e}\<close> and \<open>d.update(e)\<close>\<close>

definition dict_update :: "pydict \<Rightarrow> pydict \<Rightarrow> pydict" where
  "dict_update d e = fold (\<lambda>kv acc. dict_set acc (fst kv) (snd kv)) e d"

text \<open>\<open>k in d\<close>\<close>

definition has_key :: "pydict \<Rightarrow> string \<Rightarrow> bool" where
  "has_key d k \<longleftrightarrow> map_of d k \<noteq> None"

text \<open>\<open>str(v or "")\<close>\<close>

definition text_of :: "json \<Rightarrow> string" where
  "text_of v = (if truthy v then py_str v else [])"

text \<open>\<open>v in (None, "", [], {})\<close>\<close>

definition is_blank :: "json \<Rightarrow> bool" where
  "is_blank v \<longleftrightarrow> v \<in> {JNull, JStr [], JList [], JObj []}"

text \<open>\<open>str(d.get(k) or "")\<close>, the idiom the code reads text fields with.\<close>

definition sget :: "pydict \<Rightarrow> string \<Rightarrow> string" where
  "sget d k = (let v = dict_get d k in if truthy v then py_str v else [])"

text \<open>\<open>str(d.get(k1) or d.get(k2) or ... or "")\<close>\<close>

fun sget_first :: "pydict \<Rightarrow> string list \<Rightarrow> string" where
  "sget_first d [] = []"
| "sget_first d (k # ks) =
     (let v = dict_get d k in if truthy v then py_str v else sget_first d ks)"

text \<open>\<open>str(d.get(k) or default)\<close> and \<open>int(d.get(k) or default)\<close>\<close>

definition sget_or :: "pydict \<Rightarrow> string \<Rightarrow> string \<Rightarrow> string" where
  "sget_or d k dflt = (let v = dict_get d k in if truthy v then py_str v else dflt)"

definition iget_or :: "pydict \<Rightarrow> string \<Rightarrow> int \<Rightarrow> int option" where
  "iget_or d k dflt = py_int (py_or (dict_get d k) (JInt dflt))"

definition sort_dict :: "(string \<times> 'a) list \<Rightarrow> (string \<times> 'a) list" where
  "sort_dict d = sort_key fst d"

text \<open>\<open>list(dict.fromkeys(xs))\<close>: first occurrences, in order.\<close>

fun dedup_acc :: "'a list \<Rightarrow> 'a list \<Rightarrow> 'a list" where
  "dedup_acc seen [] = []"
| "dedup_acc seen (x # xs) =
     (if x \<in> set seen then dedup_acc seen xs else x # dedup_acc (x # seen) xs)"

definition fromkeys :: "'a list \<Rightarrow> 'a list" where
  "fromkeys xs = dedup_acc [] xs"

text \<open>\<open>max(xs, key=f, default=None)\<close>: the first element with the greatest key.\<close>

fun max_by :: "('a \<Rightarrow> 'b::linorder) \<Rightarrow> 'a list \<Rightarrow> 'a option" where
  "max_by f [] = None"
| "max_by f (x # xs) =
     Some (fold (\<lambda>y m. if f m < f y then y else m) xs x)"

section \<open>Shared lemmas\<close>

lemma map_of_dict_set [dict_simps, simp]: "map_of (dict_set d k v) = (map_of d)(k \<mapsto> v)"
  by (simp add: dict_set_def update_conv')

lemma dict_get_set [dict_simps, simp]:
  "dict_get (dict_set d k v) k' = (if k' = k then v else dict_get d k')"
  by (simp add: dict_get_def)

lemma sget_set [dict_simps, simp]:
  "sget (dict_set d k v) k' = (if k' = k then (if truthy v then py_str v else []) else sget d k')"
  by (simp add: sget_def Let_def)

lemma has_key_set [dict_simps, simp]: "has_key (dict_set d k v) k' \<longleftrightarrow> k' = k \<or> has_key d k'"
  by (auto simp: has_key_def)

lemma keys_dict_set: "fst ` set (dict_set d k v) = insert k (fst ` set d)"
  unfolding dict_set_def by (induction d) (auto split: if_splits)

lemma distinct_dict_set [simp]: "distinct (map fst d) \<Longrightarrow> distinct (map fst (dict_set d k v))"
  by (simp add: dict_set_def distinct_update)

lemma dict_set_subset: "set (dict_set d k v) \<subseteq> insert (k, v) (set d)"
  unfolding dict_set_def by (induction d) auto

lemma dict_set_fresh: "k \<notin> fst ` set d \<Longrightarrow> dict_set d k v = d @ [(k, v)]"
  unfolding dict_set_def by (induction d) auto

lemma size_map_of: "map_of d k = Some v \<Longrightarrow> size v < size (JObj d)"
  by (induction d) (auto split: if_splits)

lemma size_dict_get: "dict_get d k = JObj e \<Longrightarrow> size (JObj e) < size (JObj d)"
  using size_map_of [of d k "JObj e"] by (auto simp: dict_get_def split: option.splits)

lemma map_of_dict_pop [dict_simps, simp]: "map_of (dict_pop d k) = (map_of d)(k := None)"
  unfolding dict_pop_def by (induction d) (auto simp: fun_eq_iff)

lemma distinct_dict_pop [simp]: "distinct (map fst d) \<Longrightarrow> distinct (map fst (dict_pop d k))"
  unfolding dict_pop_def by (rule distinct_map_filter)

lemma dict_get_Nil [simp]: "dict_get [] k = JNull"
  by (simp add: dict_get_def)

lemma dict_get_Cons [simp]: "dict_get ((k, v) # d) k' = (if k' = k then v else dict_get d k')"
  by (simp add: dict_get_def)

lemma sget_Nil [simp]: "sget [] k = []"
  by (simp add: sget_def)

lemma sget_Cons [simp]:
  "sget ((k, v) # d) k' = (if k' = k then (if truthy v then py_str v else []) else sget d k')"
  by (simp add: sget_def Let_def)

lemma set_sort_dict [simp]: "set (sort_dict d) = set d"
  by (simp add: sort_dict_def)

lemma distinct_sort_dict [simp]: "distinct (map fst (sort_dict d)) = distinct (map fst d)"
proof -
  have "mset (map fst (sort_dict d)) = mset (map fst d)"
    by (simp add: sort_dict_def)
  then show ?thesis by (rule mset_eq_imp_distinct_iff)
qed

lemma map_of_sort_dict [simp]: "distinct (map fst d) \<Longrightarrow> map_of (sort_dict d) = map_of d"
  by (simp add: map_of_inject_set)

lemma set_fold_max: "fold (\<lambda>y m. if f m < f y then y else m) xs x \<in> insert x (set xs)"
  by (induction xs arbitrary: x) auto

lemma max_by_mem: "max_by f xs = Some m \<Longrightarrow> m \<in> set xs"
  using set_fold_max [of f] by (cases xs) force+

lemma fold_max_ge:
  fixes f :: "'a \<Rightarrow> 'b::linorder"
  shows "y \<in> insert x (set xs) \<Longrightarrow> f y \<le> f (fold (\<lambda>y m. if f m < f y then y else m) xs x)"
proof (induction xs arbitrary: x y)
  case Nil
  then show ?case by simp
next
  case (Cons z zs)
  let ?m = "if f x < f z then z else x"
  have "f ?m \<le> f (fold (\<lambda>y m. if f m < f y then y else m) zs ?m)"
    by (rule Cons.IH) simp
  moreover have "f x \<le> f ?m" "f z \<le> f ?m" by auto
  ultimately show ?case using Cons.prems Cons.IH [of y ?m] by fastforce
qed

lemma max_by_ge: "max_by f xs = Some m \<Longrightarrow> y \<in> set xs \<Longrightarrow> f y \<le> f m"
  using fold_max_ge [of y _ _ f] by (cases xs) force+

lemma max_by_None [simp]: "max_by f xs = None \<longleftrightarrow> xs = []"
  by (cases xs) auto

lemma set_dedup_acc: "set (dedup_acc seen xs) = set xs - set seen"
  by (induction xs arbitrary: seen) auto

lemma distinct_dedup_acc: "distinct (dedup_acc seen xs)"
  by (induction xs arbitrary: seen) (auto simp: set_dedup_acc)

lemma set_fromkeys [simp]: "set (fromkeys xs) = set xs"
  by (simp add: fromkeys_def set_dedup_acc)

lemma distinct_fromkeys [simp]: "distinct (fromkeys xs)"
  by (simp add: fromkeys_def distinct_dedup_acc)

lemma length_fromkeys: "length (fromkeys xs) \<le> length xs"
proof -
  have "length (dedup_acc seen xs) \<le> length xs" for seen
    by (induction xs arbitrary: seen) (auto intro: le_SucI)
  then show ?thesis by (simp add: fromkeys_def)
qed

lemma dedup_acc_id: "distinct xs \<Longrightarrow> set xs \<inter> set seen = {} \<Longrightarrow> dedup_acc seen xs = xs"
  by (induction xs arbitrary: seen) auto

lemma fromkeys_id [simp]: "distinct xs \<Longrightarrow> fromkeys xs = xs"
  by (simp add: fromkeys_def dedup_acc_id)

lemma lstrip_strip: "lstrip (strip s) = strip s"
proof (cases "lstrip s")
  case Nil
  then show ?thesis by (simp only: strip_def) (simp add: lstrip_def)
next
  case (Cons c t)
  then have c: "\<not> is_space c"
    unfolding lstrip_def by (metis dropWhile_eq_Cons_conv)
  have "\<exists>u. strip s = c # u"
    using c by (auto simp: strip_def Cons) (auto simp: lstrip_def dropWhile_append intro: exI [of _ "rev _"])
  with c show ?thesis by (auto simp: lstrip_def)
qed

lemma strip_idem [simp]: "strip (strip s) = strip s"
proof -
  have "strip (strip s) = rev (lstrip (rev (strip s)))"
    by (simp add: strip_def [of "strip s"] lstrip_strip)
  also have "rev (strip s) = lstrip (rev (lstrip s))"
    by (simp add: strip_def)
  also have "lstrip (lstrip (rev (lstrip s))) = lstrip (rev (lstrip s))"
    by (simp add: lstrip_def)
  finally show ?thesis by (simp add: strip_def)
qed

lemma strip_Nil [simp]: "strip [] = []"
  by (simp add: strip_def lstrip_def)

lemma strip_id: "\<forall>c \<in> set s. \<not> is_space c \<Longrightarrow> strip s = s"
proof -
  assume s: "\<forall>c \<in> set s. \<not> is_space c"
  have drop: "dropWhile is_space t = t" if "\<forall>c \<in> set t. \<not> is_space c" for t using that by (cases t) auto
  have "dropWhile is_space s = s" "dropWhile is_space (rev s) = rev s" by (rule drop, use s in simp)+
  then show ?thesis by (simp add: strip_def lstrip_def)
qed

lemma strip_Cons_nonspace: "\<not> is_space c \<Longrightarrow> strip (c # s) \<noteq> []"
  by (simp add: strip_def lstrip_def dropWhile_append)

end
