(* ===== verification/Py_Hash.thy ===== *)
theory Py_Hash
  imports Py_Base "HOL-Library.Word"
begin

text \<open>
  The digests of Python's \<open>hashlib\<close> and \<open>hmac\<close> that the code names its objects and signs its
  events with: SHA-256, SHA-1 and HMAC-SHA-256, as executable functions on byte strings. A
  Python \<open>str\<close> is already its UTF-8 encoding here, so \<open>.encode("utf-8")\<close> is the identity.
\<close>

unbundle bit_operations_syntax

type_synonym w32 = "32 word"
type_synonym byte = "8 word"

section \<open>Shared: padding and big-endian words\<close>

definition rotr :: "nat \<Rightarrow> w32 \<Rightarrow> w32" where
  "rotr n x = drop_bit n x OR push_bit (32 - n) x"

definition rotl :: "nat \<Rightarrow> w32 \<Rightarrow> w32" where
  "rotl n x = push_bit n x OR drop_bit (32 - n) x"

definition be_bytes32 :: "w32 \<Rightarrow> byte list" where
  "be_bytes32 w = [ucast (drop_bit 24 w), ucast (drop_bit 16 w), ucast (drop_bit 8 w), ucast w]"

text \<open>The message, a one bit, zeros up to 56 modulo 64, and the bit length in eight bytes.\<close>

definition md_pad :: "byte list \<Rightarrow> byte list" where
  "md_pad bs =
     (let n = length bs; bits = 8 * of_nat n :: 64 word
      in bs @ [128] @ replicate ((119 - n mod 64) mod 64) 0
         @ be_bytes32 (ucast (drop_bit 32 bits)) @ be_bytes32 (ucast bits))"

fun be_words :: "byte list \<Rightarrow> w32 list" where
  "be_words (a # b # c # d # bs) =
     (push_bit 24 (ucast a) OR push_bit 16 (ucast b) OR push_bit 8 (ucast c) OR ucast d) # be_words bs"
| "be_words _ = []"

function blocks :: "w32 list \<Rightarrow> w32 list list" where
  "blocks ws = (if length ws < 16 then [] else take 16 ws # blocks (drop 16 ws))"
  by pat_completeness auto
termination
  by (relation "measure length") auto

declare blocks.simps [simp del]

definition hex_byte :: "byte \<Rightarrow> string" where
  "hex_byte b = [hex_char (unat (drop_bit 4 b)), hex_char (unat (b AND 15))]"

definition hexdigest_words :: "w32 list \<Rightarrow> string" where
  "hexdigest_words ws = concat (map (\<lambda>w. concat (map hex_byte (be_bytes32 w))) ws)"

definition bytes_of :: "string \<Rightarrow> byte list" where
  "bytes_of s = map of_char s"

section \<open>SHA-256\<close>

definition sha256_k :: "w32 list" where
  "sha256_k =
    [1116352408, 1899447441, 3049323471, 3921009573,
     961987163, 1508970993, 2453635748, 2870763221,
     3624381080, 310598401, 607225278, 1426881987,
     1925078388, 2162078206, 2614888103, 3248222580,
     3835390401, 4022224774, 264347078, 604807628,
     770255983, 1249150122, 1555081692, 1996064986,
     2554220882, 2821834349, 2952996808, 3210313671,
     3336571891, 3584528711, 113926993, 338241895,
     666307205, 773529912, 1294757372, 1396182291,
     1695183700, 1986661051, 2177026350, 2456956037,
     2730485921, 2820302411, 3259730800, 3345764771,
     3516065817, 3600352804, 4094571909, 275423344,
     430227734, 506948616, 659060556, 883997877,
     958139571, 1322822218, 1537002063, 1747873779,
     1955562222, 2024104815, 2227730452, 2361852424,
     2428436474, 2756734187, 3204031479, 3329325298]"

definition sha256_h0 :: "w32 list" where
  "sha256_h0 =
    [1779033703, 3144134277, 1013904242, 2773480762,
     1359893119, 2600822924, 528734635, 1541459225]"

text \<open>The message schedule, kept with its latest word first.\<close>

fun sha256_expand :: "nat \<Rightarrow> w32 list \<Rightarrow> w32 list" where
  "sha256_expand 0 ws = ws"
| "sha256_expand (Suc k) ws =
     (let w2 = ws ! 1; w15 = ws ! 14;
          s1 = rotr 17 w2 XOR rotr 19 w2 XOR drop_bit 10 w2;
          s0 = rotr 7 w15 XOR rotr 18 w15 XOR drop_bit 3 w15
      in sha256_expand k ((ws ! 15 + s0 + ws ! 6 + s1) # ws))"

fun sha256_round :: "w32 \<times> w32 \<Rightarrow> w32 list \<Rightarrow> w32 list" where
  "sha256_round (k, w) [a, b, c, d, e, f, g, h] =
     (let s1 = rotr 6 e XOR rotr 11 e XOR rotr 25 e;
          ch = (e AND f) XOR (NOT e AND g);
          t1 = h + s1 + ch + k + w;
          s0 = rotr 2 a XOR rotr 13 a XOR rotr 22 a;
          mj = (a AND b) XOR (a AND c) XOR (b AND c)
      in [t1 + (s0 + mj), a, b, c, d + t1, e, f, g])"
| "sha256_round _ st = st"

definition sha256_block :: "w32 list \<Rightarrow> w32 list \<Rightarrow> w32 list" where
  "sha256_block blk h = map2 (+) h (fold sha256_round (zip sha256_k (rev (sha256_expand 48 (rev blk)))) h)"

definition sha256_words :: "byte list \<Rightarrow> w32 list" where
  "sha256_words bs = fold sha256_block (blocks (be_words (md_pad bs))) sha256_h0"

definition sha256_bytes :: "byte list \<Rightarrow> byte list" where
  "sha256_bytes bs = concat (map be_bytes32 (sha256_words bs))"

text \<open>\<open>hashlib.sha256(s.encode("utf-8")).hexdigest()\<close>\<close>

definition sha256_hex :: "string \<Rightarrow> string" where
  "sha256_hex s = hexdigest_words (sha256_words (bytes_of s))"

section \<open>SHA-1\<close>

fun sha1_expand :: "nat \<Rightarrow> w32 list \<Rightarrow> w32 list" where
  "sha1_expand 0 ws = ws"
| "sha1_expand (Suc k) ws = sha1_expand k (rotl 1 (ws ! 2 XOR ws ! 7 XOR ws ! 13 XOR ws ! 15) # ws)"

fun sha1_round :: "nat \<times> w32 \<Rightarrow> w32 list \<Rightarrow> w32 list" where
  "sha1_round (t, w) [a, b, c, d, e] =
     (let (f, k) =
        (if t < 20 then ((b AND c) OR (NOT b AND d), 1518500249)
         else if t < 40 then (b XOR c XOR d, 1859775393)
         else if t < 60 then ((b AND c) OR (b AND d) OR (c AND d), 2400959708)
         else (b XOR c XOR d, 3395469782))
      in [rotl 5 a + f + e + k + w, a, rotl 30 b, c, d])"
| "sha1_round _ st = st"

definition sha1_block :: "w32 list \<Rightarrow> w32 list \<Rightarrow> w32 list" where
  "sha1_block blk h = map2 (+) h (fold sha1_round (zip [0..<80] (rev (sha1_expand 64 (rev blk)))) h)"

definition sha1_words :: "byte list \<Rightarrow> w32 list" where
  "sha1_words bs = fold sha1_block (blocks (be_words (md_pad bs)))
     [1732584193, 4023233417, 2562383102, 271733878, 3285377520]"

definition sha1_hex :: "string \<Rightarrow> string" where
  "sha1_hex s = hexdigest_words (sha1_words (bytes_of s))"

section \<open>HMAC-SHA-256\<close>

definition hmac_key :: "byte list \<Rightarrow> byte list" where
  "hmac_key key = (let k = (if 64 < length key then sha256_bytes key else key) in k @ replicate (64 - length k) 0)"

definition hmac_sha256_hex :: "byte list \<Rightarrow> string \<Rightarrow> string" where
  "hmac_sha256_hex key msg =
     (let k = hmac_key key;
          inner = sha256_bytes (map ((XOR) 0x36) k @ bytes_of msg)
      in hexdigest_words (sha256_words (map ((XOR) 0x5c) k @ inner)))"

section \<open>Digest lengths\<close>

lemma length_sha256_round [simp]: "length (sha256_round kw st) = length st"
  by (induction kw st rule: sha256_round.induct) (simp_all add: Let_def)

lemma length_fold_sha256_round [simp]: "length (fold sha256_round kws st) = length st"
  by (induction kws arbitrary: st) simp_all

lemma length_sha256_block [simp]: "length (sha256_block blk h) = length h"
  by (simp add: sha256_block_def)

lemma length_sha256_words [simp]: "length (sha256_words bs) = 8"
proof -
  have "length (fold sha256_block blks h) = length h" for blks h
    by (induction blks arbitrary: h) simp_all
  then show ?thesis by (simp add: sha256_words_def sha256_h0_def)
qed

lemma length_hexdigest_words: "length (hexdigest_words ws) = 8 * length ws"
  by (induction ws) (simp_all add: hexdigest_words_def be_bytes32_def hex_byte_def)

text \<open>A digest is text without white space.\<close>

lemma hex_char_nonspace: "n < 16 \<Longrightarrow> \<not> is_space (hex_char n)"
  by (auto simp: hex_char_def is_space_def Let_def of_char_of)

lemma nibble: "unat (drop_bit 4 (b :: 8 word)) < 16" "unat ((b :: 8 word) AND 15) < 16"
proof -
  have "unat b < 256" using unsigned_less [of b, where ?'a = nat] by simp
  then show "unat (drop_bit 4 b) < 16" by (simp add: drop_bit_eq_div unat_div_distrib)
  have "(15 :: 8 word) = mask 4" by (simp add: mask_eq_exp_minus_1)
  then have "b AND 15 = take_bit 4 b" by (simp only: take_bit_eq_mask)
  then show "unat (b AND 15) < 16"
    using take_bit_nat_less_exp [of 4 "unat b"] by (simp add: unsigned_take_bit_eq)
qed

lemma hexdigest_nonspace: "c \<in> set (hexdigest_words ws) \<Longrightarrow> \<not> is_space c"
  by (auto simp: hexdigest_words_def hex_byte_def hex_char_nonspace nibble)

lemma strip_hexdigest [simp]: "strip (hexdigest_words ws) = hexdigest_words ws"
  by (rule strip_id) (auto dest: hexdigest_nonspace)

lemma length_sha256_hex [simp]: "length (sha256_hex s) = 64"
  by (simp add: sha256_hex_def length_hexdigest_words)

end
