(* ===== verification/State_File.thy ===== *)
theory State_File
  imports Py_Base
begin

text \<open>
  State files under \<open>.zf/\<close>: how every store reads, changes and rewrites its JSON file.

  Each mutating method of a store runs \<open>with locked_path(path): data = load(); ...; save(data)\<close>
  (\<open>core/state/locks.py\<close>, \<open>core/state/atomic_io.py\<close>). The advisory lock serialises these blocks and
  the write replaces the file in one rename, so a block is one step from file contents to file
  contents: \<open>locked_rmw\<close>. A body that returns no new data leaves the file as it was.

  The locale \<open>locked_store\<close> is the contract between such a store and its file: what a load returns
  after a save. Its lemmas lift what one body keeps to what the file keeps over any run.
\<close>

section \<open>Files as the readers see them\<close>

text \<open>The outcomes of \<open>json.loads(path.read_text())\<close> that the stores tell apart.\<close>

datatype file_read =
    NotFound
  | BadJson
  | ReadError
  | Parsed json

section \<open>Locked read-modify-write\<close>

definition locked_rmw ::
  "('f \<Rightarrow> 'e + 'd) \<Rightarrow> ('d \<Rightarrow> 'f) \<Rightarrow> ('d \<Rightarrow> 'e + ('r \<times> 'd option)) \<Rightarrow> 'f \<Rightarrow> 'e + ('r \<times> 'f)" where
  "locked_rmw load save body f =
     (case load f of
        Inl e \<Rightarrow> Inl e
      | Inr d \<Rightarrow>
          (case body d of
             Inl e \<Rightarrow> Inl e
           | Inr (r, None) \<Rightarrow> Inr (r, f)
           | Inr (r, Some d') \<Rightarrow> Inr (r, save d')))"

lemma locked_rmw_Inr:
  "locked_rmw load save body f = Inr (r, f') \<longleftrightarrow>
     (\<exists>d. load f = Inr d \<and>
        (body d = Inr (r, None) \<and> f' = f \<or> (\<exists>d'. body d = Inr (r, Some d') \<and> f' = save d')))"
  unfolding locked_rmw_def by (cases "load f") (auto split: sum.splits option.splits prod.splits)

text \<open>One step of a run: an operation that raises leaves the file unchanged.\<close>

definition attempt_step :: "('f \<Rightarrow> 'e + ('r \<times> 'f)) \<Rightarrow> 'f \<Rightarrow> ('e + 'r) \<times> 'f" where
  "attempt_step op f = (case op f of Inl e \<Rightarrow> (Inl e, f) | Inr (r, f') \<Rightarrow> (Inr r, f'))"

fun run_steps :: "('o \<Rightarrow> 'f \<Rightarrow> 'e + ('r \<times> 'f)) \<Rightarrow> 'o list \<Rightarrow> 'f \<Rightarrow> ('o \<times> ('e + 'r)) list \<times> 'f" where
  "run_steps exec [] f = ([], f)"
| "run_steps exec (x # xs) f =
     (let (out, f') = attempt_step (exec x) f; (tr, f'') = run_steps exec xs f'
      in ((x, out) # tr, f''))"

section \<open>The contract of a store with its file\<close>

text \<open>
  \<open>inv\<close> is what the loader checks plus what JSON guarantees; \<open>view\<close> forgets what a rewrite may
  change (key order, the revision counter).
\<close>

locale locked_store =
  fixes load :: "'f \<Rightarrow> 'e + 'd"
    and save :: "'d \<Rightarrow> 'f"
    and inv :: "'d \<Rightarrow> bool"
    and view :: "'d \<Rightarrow> 'v"
  assumes load_save: "inv d \<Longrightarrow> \<exists>d'. load (save d) = Inr d' \<and> inv d' \<and> view d' = view d"
begin

definition holds :: "('v \<Rightarrow> bool) \<Rightarrow> 'f \<Rightarrow> bool" where
  "holds P f \<longleftrightarrow> (\<exists>d. load f = Inr d \<and> inv d \<and> P (view d))"

lemma holdsE:
  assumes "holds P f" and "load f = Inr d"
  shows "inv d" and "P (view d)"
  using assms by (auto simp: holds_def)

lemma holds_weaken: "holds P f \<Longrightarrow> (\<And>v. P v \<Longrightarrow> Q v) \<Longrightarrow> holds Q f"
  by (auto simp: holds_def)

lemma rmw_holds:
  assumes start: "holds P f"
    and run: "locked_rmw load save body f = Inr (r, f')"
    and body: "\<And>d d'. inv d \<Longrightarrow> P (view d) \<Longrightarrow> body d = Inr (r, Some d') \<Longrightarrow> inv d' \<and> Q (view d')"
    and stay: "\<And>d. inv d \<Longrightarrow> P (view d) \<Longrightarrow> body d = Inr (r, None) \<Longrightarrow> Q (view d)"
  shows "holds Q f'"
proof -
  from start obtain d where d: "load f = Inr d" "inv d" "P (view d)"
    by (auto simp: holds_def)
  with run consider "body d = Inr (r, None)" "f' = f"
    | d' where "body d = Inr (r, Some d')" "f' = save d'"
    by (auto simp: locked_rmw_Inr)
  then show ?thesis
  proof cases
    case 1
    with d stay show ?thesis by (auto simp: holds_def)
  next
    case 2
    with d body have "inv d'" "Q (view d')" by blast+
    with load_save [of d'] 2 show ?thesis by (auto simp: holds_def)
  qed
qed

text \<open>An invariant of every operation is an invariant of every run.\<close>

lemma run_holds:
  assumes step: "\<And>x f r f'. x \<in> set xs \<Longrightarrow> holds P f \<Longrightarrow> exec x f = Inr (r, f') \<Longrightarrow> holds P f'"
    and "holds P f"
  shows "holds P (snd (run_steps exec xs f))"
  using assms
proof (induction xs arbitrary: f)
  case Nil
  then show ?case by simp
next
  case (Cons x xs)
  obtain out f' where s: "attempt_step (exec x) f = (out, f')" by fastforce
  have "holds P f'"
  proof (cases "exec x f")
    case (Inl e)
    with s Cons.prems(2) show ?thesis by (simp add: attempt_step_def)
  next
    case (Inr p)
    with s obtain r where "exec x f = Inr (r, f')"
      by (cases p) (auto simp: attempt_step_def)
    with Cons.prems show ?thesis by (meson list.set_intros(1))
  qed
  moreover have "\<And>y f r f'. y \<in> set xs \<Longrightarrow> holds P f \<Longrightarrow> exec y f = Inr (r, f') \<Longrightarrow> holds P f'"
    using Cons.prems(1) by (meson list.set_intros(2))
  ultimately have "holds P (snd (run_steps exec xs f'))" by (rule Cons.IH [rotated])
  with s show ?case by (simp split: prod.splits) (metis snd_conv)
qed

end

end
