(* ===== verification/Task_Attempts.thy ===== *)
theory Task_Attempts
  imports Py_Hash State_File
begin

text \<open>
  \<open>core/state/task_attempts.py\<close>: the scheduler's record of which attempt of a task is current, who
  holds it and how it ended.

  The file \<open>task_attempts.json\<close> is a \<^typ>\<open>file_read\<close>; a loaded store is an \<open>attempt_data\<close>; every method
  of \<open>TaskAttemptStore\<close> is a function from the file to its result and the new file. Rows stay
  dictionaries, as in the code, because the loader has to judge arbitrary rows. Error messages
  leave out the file path. The key order inside one row is never observed, so only the two
  tables are sorted on save.
\<close>

section \<open>Constants and errors\<close>

definition STORE_SCHEMA_VERSION :: string where
  "STORE_SCHEMA_VERSION = ''task-attempt-store.v1''"

definition IDENTITY_ROLE_V1 :: string where
  "IDENTITY_ROLE_V1 = ''role-v1''"

definition IDENTITY_OPERATION_V2 :: string where
  "IDENTITY_OPERATION_V2 = ''operation-v2''"

definition identity_versions :: "string list" where
  "identity_versions = [IDENTITY_ROLE_V1, IDENTITY_OPERATION_V2]"

definition active_statuses :: "string list" where
  "active_statuses = [''prepared'', ''delivering'', ''sent'']"

definition attempt_statuses :: "string list" where
  "attempt_statuses =
     active_statuses @ [''succeeded'', ''failed'', ''expired'', ''superseded'', ''deadlettered'']"

datatype attempt_error =
    TaskAttemptLimitError string
  | TaskAttemptStoreError string
  | AttemptValueError string

record attempt_data =
  revision :: int
  attempts :: pydict
  current :: pydict

record ensure_result =
  er_attempt :: pydict
  er_created :: bool
  er_superseded_attempt_id :: string

section \<open>Identities\<close>

definition task_attempt_id :: "string \<Rightarrow> string \<Rightarrow> string \<Rightarrow> string" where
  "task_attempt_id run_id task_id dispatch_id =
     ''ta-'' @ take 20 (sha256_hex (run_id @ ''|'' @ task_id @ ''|'' @ dispatch_id))"

definition attempt_key :: "string \<Rightarrow> string \<Rightarrow> string \<Rightarrow> string \<Rightarrow> string \<Rightarrow> string" where
  "attempt_key run_id task_id operation_id role identity_version =
     (let identity_parts = [run_id, task_id, operation_id]
            @ (if identity_version = IDENTITY_ROLE_V1 then [role] else [])
      in ''tak-'' @ take 20 (sha256_hex (join ''|'' identity_parts)))"

definition task_attempt_lease_id :: "string \<Rightarrow> string" where
  "task_attempt_lease_id attempt_id = ''lease-'' @ take 20 (sha256_hex (''lease|'' @ attempt_id))"

definition scope_key :: "string \<Rightarrow> string \<Rightarrow> string \<Rightarrow> string" where
  "scope_key run_id task_id key = run_id @ ''::'' @ task_id @ ''::'' @ key"

text \<open>The lane a row belongs to, read from the row.\<close>

definition row_scope :: "pydict \<Rightarrow> string" where
  "row_scope row = scope_key (sget row ''run_id'') (sget row ''task_id'') (sget row ''attempt_key'')"

section \<open>Loading: every check of the loader\<close>

definition required_row_keys :: "string list" where
  "required_row_keys =
     [''attempt_id'', ''lease_id'', ''run_id'', ''task_id'', ''operation_id'', ''attempt_key'',
      ''dispatch_id'', ''status'']"

definition attempt_row_error :: "string \<Rightarrow> pydict \<Rightarrow> string" where
  "attempt_row_error attempt_id row =
     (let missing = filter (\<lambda>key. strip (sget row key) = []) required_row_keys in
      if missing \<noteq> [] then attempt_id @ '' missing '' @ join '', '' missing
      else if sget row ''schema_version'' \<noteq> ''task-attempt.v1''
      then attempt_id @ '' has unsupported schema''
      else if sget row ''attempt_id'' \<noteq> attempt_id
      then attempt_id @ '' identity does not match its key''
      else
        let identity_version = sget_or row ''identity_version'' IDENTITY_ROLE_V1 in
        if identity_version \<notin> set identity_versions
        then attempt_id @ '' has unsupported identity_version '' @ repr_str identity_version
        else if sget row ''attempt_key'' \<noteq>
          attempt_key (sget row ''run_id'') (sget row ''task_id'') (sget row ''operation_id'')
            (sget_first row [''role'', ''instance_id'']) identity_version
        then attempt_id @ '' attempt_key does not match its identity''
        else if sget row ''status'' \<notin> set attempt_statuses
        then attempt_id @ '' has unsupported status '' @ repr_str (sget row ''status'')
        else
          (case (py_int (dict_get row ''ordinal''), py_int (dict_get row ''series'')) of
             (Some ordinal, Some series) \<Rightarrow>
               if ordinal < 1 \<or> series < 1 then attempt_id @ '' ordinal/series must be positive''
               else
                 (case iget_or row ''placement_epoch'' 0 of
                    None \<Rightarrow> attempt_id @ '' placement_epoch must be an integer''
                  | Some placement_epoch \<Rightarrow>
                      if placement_epoch < 0 then attempt_id @ '' placement_epoch must be >= 0''
                      else if identity_version = IDENTITY_OPERATION_V2 \<and> placement_epoch < 1
                      then attempt_id @ '' operation-v2 placement_epoch must be >= 1''
                      else [])
           | _ \<Rightarrow> attempt_id @ '' ordinal/series must be integers''))"

text \<open>The first row the loader rejects, with its reason.\<close>

fun first_row_error :: "pydict \<Rightarrow> string" where
  "first_row_error [] = []"
| "first_row_error ((k, row) # rest) =
     (let reason = attempt_row_error k (as_dict row) in
      if reason \<noteq> [] then reason else first_row_error rest)"

definition dangling_pointer :: "pydict \<Rightarrow> string \<times> json \<Rightarrow> bool" where
  "dangling_pointer atts p = (case snd p of JStr a \<Rightarrow> \<not> has_key atts a | _ \<Rightarrow> True)"

definition mismatched_pointer :: "pydict \<Rightarrow> string \<times> json \<Rightarrow> bool" where
  "mismatched_pointer atts p = (fst p \<noteq> row_scope (as_dict (dict_get atts (py_str (snd p)))))"

definition load_root :: "json \<Rightarrow> attempt_error + attempt_data" where
  "load_root root =
     (case root of
        JObj raw \<Rightarrow>
          (let schema_version = sget raw ''schema_version'' in
           if schema_version \<noteq> [] \<and> schema_version \<noteq> STORE_SCHEMA_VERSION
           then Inl (TaskAttemptStoreError
                  (''Unsupported TaskAttempt store schema '' @ repr_str schema_version))
           else
             let a = dict_get raw ''attempts''; c = dict_get raw ''current'' in
             if a \<noteq> JNull \<and> \<not> is_dict a
             then Inl (TaskAttemptStoreError ''TaskAttempt store attempts must be an object'')
             else if c \<noteq> JNull \<and> \<not> is_dict c
             then Inl (TaskAttemptStoreError ''TaskAttempt store current must be an object'')
             else
               (case iget_or raw ''revision'' 0 of
                  None \<Rightarrow> Inl (TaskAttemptStoreError ''TaskAttempt store revision must be an integer'')
                | Some rev_no \<Rightarrow>
                    let atts = as_dict a; cur = as_dict c in
                    (case find (\<lambda>p. \<not> is_dict (snd p)) atts of
                       Some p \<Rightarrow> Inl (TaskAttemptStoreError
                          (''TaskAttempt store row must be an object: '' @ fst p))
                     | None \<Rightarrow>
                         (if first_row_error atts \<noteq> []
                          then Inl (TaskAttemptStoreError
                                 (''TaskAttempt store row is invalid: '' @ first_row_error atts))
                          else
                            (case find (dangling_pointer atts) cur of
                               Some p \<Rightarrow> Inl (TaskAttemptStoreError
                                  (''TaskAttempt store current pointer is invalid: '' @ fst p))
                             | None \<Rightarrow>
                                 (case find (mismatched_pointer atts) cur of
                                    Some p \<Rightarrow> Inl (TaskAttemptStoreError
                                       (''TaskAttempt store current scope is invalid: '' @ fst p))
                                  | None \<Rightarrow>
                                      Inr \<lparr>revision = rev_no, attempts = atts, current = cur\<rparr>))))))
      | _ \<Rightarrow> Inl (TaskAttemptStoreError ''TaskAttempt store root must be an object''))"

definition load_unlocked :: "file_read \<Rightarrow> attempt_error + attempt_data" where
  "load_unlocked f =
     (case f of
        NotFound \<Rightarrow> load_root (JObj [])
      | BadJson \<Rightarrow> Inl (TaskAttemptStoreError ''TaskAttempt store is not valid JSON'')
      | ReadError \<Rightarrow> Inl (TaskAttemptStoreError ''TaskAttempt store cannot be read'')
      | Parsed root \<Rightarrow> load_root root)"

definition save_unlocked :: "attempt_data \<Rightarrow> file_read" where
  "save_unlocked d = Parsed (JObj
     [(''attempts'', JObj (sort_dict (attempts d))),
      (''current'', JObj (sort_dict (current d))),
      (''revision'', JInt (revision d + 1)),
      (''schema_version'', JStr STORE_SCHEMA_VERSION)])"

section \<open>Creating attempts\<close>

record dispatch_request =
  dr_run_id :: string
  dr_task_id :: string
  dr_dispatch_id :: string
  dr_role :: string
  dr_instance_id :: string
  dr_operation_id :: string
  dr_briefing_ref :: string
  dr_created_at :: string
  dr_lease_expires_at :: string
  dr_max_attempts :: int
  dr_parent_task_id :: string
  dr_identity_version :: string
  dr_placement_epoch :: int

text \<open>The argument checks; the caller passes integers, so \<open>int(placement_epoch)\<close> cannot raise.\<close>

definition check_dispatch :: "dispatch_request \<Rightarrow> attempt_error + (string \<times> string \<times> string \<times> string)" where
  "check_dispatch r =
     (let run_id = strip (dr_run_id r); task_id = strip (dr_task_id r);
          dispatch_id = strip (dr_dispatch_id r);
          identity_version = strip (dr_identity_version r) in
      if task_id = [] \<or> dispatch_id = []
      then Inl (AttemptValueError ''TaskAttempt requires task_id and dispatch_id'')
      else if identity_version \<notin> set identity_versions
      then Inl (AttemptValueError
             (''unsupported TaskAttempt identity_version '' @ repr_str identity_version))
      else if dr_placement_epoch r < 0
      then Inl (AttemptValueError ''TaskAttempt placement_epoch must be >= 0'')
      else if identity_version = IDENTITY_OPERATION_V2 \<and> dr_placement_epoch r < 1
      then Inl (AttemptValueError ''operation-v2 TaskAttempt placement_epoch must be >= 1'')
      else Inr (str_or run_id ''legacy'', task_id, dispatch_id, identity_version))"

text \<open>
  \<open>_attempt_order\<close>. The loader has checked that both numbers convert, so the fall-back of the two
  conversions is never taken on a loaded row.
\<close>

definition row_int :: "pydict \<Rightarrow> string \<Rightarrow> int \<Rightarrow> int" where
  "row_int row k dflt = (case iget_or row k dflt of Some i \<Rightarrow> i | None \<Rightarrow> dflt)"

definition attempt_order :: "pydict \<Rightarrow> int \<times> int \<times> string \<times> string" where
  "attempt_order row =
     (row_int row ''series'' 1, row_int row ''ordinal'' 0, sget row ''created_at'', sget row ''attempt_id'')"

definition operation_rows :: "pydict \<Rightarrow> string \<Rightarrow> string \<Rightarrow> string \<Rightarrow> pydict list" where
  "operation_rows atts run_id task_id key =
     map as_dict (filter (\<lambda>row. is_dict row \<and> sget (as_dict row) ''run_id'' = run_id
         \<and> sget (as_dict row) ''task_id'' = task_id \<and> sget (as_dict row) ''attempt_key'' = key)
       (map snd atts))"

definition next_series_ordinal :: "pydict option \<Rightarrow> int \<times> int" where
  "next_series_ordinal latest =
     (case latest of
        None \<Rightarrow> (1, 1)
      | Some row \<Rightarrow>
          if sget row ''status'' = ''succeeded'' then (row_int row ''series'' 1 + 1, 1)
          else (row_int row ''series'' 1, row_int row ''ordinal'' 0 + 1))"

definition supersedes :: "string \<Rightarrow> string \<Rightarrow> string \<Rightarrow> json option \<Rightarrow> bool" where
  "supersedes attempt_id operation_id prior_id prior =
     (case prior of
        Some (JObj row) \<Rightarrow>
          prior_id \<noteq> attempt_id \<and>
          (sget row ''status'' \<in> set active_statuses \<or>
           (sget row ''operation_id'' = operation_id \<and>
            sget row ''status'' \<notin> {''succeeded'', ''deadlettered''}))
      | _ \<Rightarrow> False)"

definition supersede_row :: "string \<Rightarrow> string \<Rightarrow> pydict \<Rightarrow> pydict" where
  "supersede_row attempt_id created_at row =
     dict_set (dict_set (dict_set (dict_set row
       ''superseded_from_status'' (JStr (sget row ''status'')))
       ''status'' (JStr ''superseded''))
       ''superseded_by'' (JStr attempt_id))
       ''updated_at'' (JStr created_at)"

definition new_attempt_row ::
  "dispatch_request \<Rightarrow> string \<Rightarrow> string \<Rightarrow> string \<Rightarrow> string \<Rightarrow> string \<Rightarrow> int \<Rightarrow> int \<Rightarrow> pydict" where
  "new_attempt_row r attempt_id run_id task_id dispatch_id identity_version series ordinal =
     [(''schema_version'', JStr ''task-attempt.v1''),
      (''attempt_id'', JStr attempt_id),
      (''lease_id'', JStr (task_attempt_lease_id attempt_id)),
      (''run_id'', JStr run_id),
      (''task_id'', JStr task_id),
      (''parent_task_id'', JStr (dr_parent_task_id r)),
      (''operation_id'', JStr (dr_operation_id r)),
      (''attempt_key'', JStr (attempt_key run_id task_id (dr_operation_id r)
          (str_or (dr_role r) (dr_instance_id r)) identity_version)),
      (''identity_version'', JStr identity_version),
      (''dispatch_id'', JStr dispatch_id),
      (''role'', JStr (dr_role r)),
      (''instance_id'', JStr (dr_instance_id r)),
      (''placement_epoch'', JInt (dr_placement_epoch r)),
      (''briefing_ref'', JStr (dr_briefing_ref r)),
      (''ordinal'', JInt ordinal),
      (''series'', JInt series),
      (''status'', JStr ''prepared''),
      (''created_at'', JStr (dr_created_at r)),
      (''updated_at'', JStr (dr_created_at r)),
      (''lease_expires_at'', JStr (dr_lease_expires_at r)),
      (''delivery_claimed_at'', JStr ''''),
      (''sent_at'', JStr ''''),
      (''superseded_by'', JStr ''''),
      (''terminal_event_id'', JStr ''''),
      (''failure_reason'', JStr ''''),
      (''failure_class'', JStr ''''),
      (''retryable'', JNull),
      (''recovery_owner'', JStr '''')]"

definition ensure_body ::
  "dispatch_request \<Rightarrow> string \<Rightarrow> string \<Rightarrow> string \<Rightarrow> string \<Rightarrow> attempt_data
     \<Rightarrow> attempt_error + (ensure_result \<times> attempt_data option)" where
  "ensure_body r run_id task_id dispatch_id identity_version d =
     (let attempt_id = task_attempt_id run_id task_id dispatch_id;
          key = attempt_key run_id task_id (dr_operation_id r)
                  (str_or (dr_role r) (dr_instance_id r)) identity_version;
          atts = attempts d in
      (case map_of atts attempt_id of
         Some (JObj existing) \<Rightarrow>
           Inr (\<lparr>er_attempt = existing, er_created = False, er_superseded_attempt_id = ''''\<rparr>, None)
       | _ \<Rightarrow>
           (let scope = scope_key run_id task_id key;
                prior_id = sget (current d) scope;
                prior = map_of atts prior_id;
                latest = max_by attempt_order (operation_rows atts run_id task_id key);
                (series, ordinal) = next_series_ordinal latest in
            if 0 < dr_max_attempts r \<and> dr_max_attempts r < ordinal
            then Inl (TaskAttemptLimitError (''TaskAttempt budget exhausted for '' @ run_id @ ''/''
                   @ task_id @ ''/'' @ dr_operation_id r @ '': '' @ show_int (ordinal - 1)
                   @ ''/'' @ show_int (dr_max_attempts r)))
            else
              let sup = supersedes attempt_id (dr_operation_id r) prior_id prior;
                  atts1 = (if sup then dict_set atts prior_id
                             (JObj (supersede_row attempt_id (dr_created_at r) (as_dict (the prior))))
                           else atts);
                  row = new_attempt_row r attempt_id run_id task_id dispatch_id identity_version
                          series ordinal in
              Inr (\<lparr>er_attempt = row, er_created = True,
                    er_superseded_attempt_id = (if sup then prior_id else '''')\<rparr>,
                   Some (d\<lparr>attempts := dict_set atts1 attempt_id (JObj row),
                           current := dict_set (current d) scope (JStr attempt_id)\<rparr>)))))"

text \<open>The checks run before the file is read: a bad request raises whatever the file holds.\<close>

definition ensure_for_dispatch ::
  "dispatch_request \<Rightarrow> file_read \<Rightarrow> attempt_error + (ensure_result \<times> file_read)" where
  "ensure_for_dispatch r f =
     (case check_dispatch r of
        Inl e \<Rightarrow> Inl e
      | Inr (run_id, task_id, dispatch_id, identity_version) \<Rightarrow>
          locked_rmw load_unlocked save_unlocked
            (ensure_body r run_id task_id dispatch_id identity_version) f)"

section \<open>Changing attempts\<close>

text \<open>Replace one row and keep the rest of the store.\<close>

definition put_row :: "attempt_data \<Rightarrow> string \<Rightarrow> pydict \<Rightarrow> attempt_data" where
  "put_row d attempt_id row = d\<lparr>attempts := dict_set (attempts d) attempt_id (JObj row)\<rparr>"

definition claim_row :: "string \<Rightarrow> pydict \<Rightarrow> pydict" where
  "claim_row updated_at row =
     dict_set (dict_set (dict_set row
       ''status'' (JStr ''delivering''))
       ''updated_at'' (JStr updated_at))
       ''delivery_claimed_at'' (JStr updated_at)"

definition claim_body ::
  "string \<Rightarrow> string \<Rightarrow> attempt_data \<Rightarrow> attempt_error + ((pydict option \<times> bool) \<times> attempt_data option)" where
  "claim_body attempt_id updated_at d =
     (case map_of (attempts d) attempt_id of
        Some (JObj row) \<Rightarrow>
          if dict_get row ''status'' \<noteq> JStr ''prepared'' then Inr ((Some row, False), None)
          else Inr ((Some (claim_row updated_at row), True),
                    Some (put_row d attempt_id (claim_row updated_at row)))
      | _ \<Rightarrow> Inr ((None, False), None))"

definition claim_delivery ::
  "string \<Rightarrow> string \<Rightarrow> file_read \<Rightarrow> attempt_error + ((pydict option \<times> bool) \<times> file_read)" where
  "claim_delivery attempt_id updated_at =
     locked_rmw load_unlocked save_unlocked (claim_body attempt_id updated_at)"

definition sent_row :: "string \<Rightarrow> pydict \<Rightarrow> pydict" where
  "sent_row updated_at row =
     (let row1 = dict_set (dict_set row ''status'' (JStr ''sent'')) ''updated_at'' (JStr updated_at)
      in dict_set row1 ''sent_at'' (JStr (sget_or row1 ''sent_at'' updated_at)))"

definition mark_sent_body ::
  "string \<Rightarrow> string \<Rightarrow> attempt_data \<Rightarrow> attempt_error + (pydict option \<times> attempt_data option)" where
  "mark_sent_body attempt_id updated_at d =
     (case map_of (attempts d) attempt_id of
        Some (JObj row) \<Rightarrow>
          if dict_get row ''status'' \<notin> {JStr ''delivering'', JStr ''sent''} then Inr (Some row, None)
          else Inr (Some (sent_row updated_at row),
                    Some (put_row d attempt_id (sent_row updated_at row)))
      | _ \<Rightarrow> Inr (None, None))"

definition mark_sent :: "string \<Rightarrow> string \<Rightarrow> file_read \<Rightarrow> attempt_error + (pydict option \<times> file_read)" where
  "mark_sent attempt_id updated_at =
     locked_rmw load_unlocked save_unlocked (mark_sent_body attempt_id updated_at)"

definition renew_row :: "string \<Rightarrow> string \<Rightarrow> pydict \<Rightarrow> pydict" where
  "renew_row updated_at lease_expires_at row =
     dict_set (dict_set row ''updated_at'' (JStr updated_at))
       ''lease_expires_at'' (JStr lease_expires_at)"

definition renew_lease_body ::
  "string \<Rightarrow> string \<Rightarrow> string \<Rightarrow> attempt_data \<Rightarrow> attempt_error + (pydict option \<times> attempt_data option)" where
  "renew_lease_body attempt_id updated_at lease_expires_at d =
     (case map_of (attempts d) attempt_id of
        Some (JObj row) \<Rightarrow>
          if dict_get row ''status'' \<notin> JStr ` set active_statuses then Inr (Some row, None)
          else Inr (Some (renew_row updated_at lease_expires_at row),
                    Some (put_row d attempt_id (renew_row updated_at lease_expires_at row)))
      | _ \<Rightarrow> Inr (None, None))"

definition renew_lease ::
  "string \<Rightarrow> string \<Rightarrow> string \<Rightarrow> file_read \<Rightarrow> attempt_error + (pydict option \<times> file_read)" where
  "renew_lease attempt_id updated_at lease_expires_at =
     locked_rmw load_unlocked save_unlocked (renew_lease_body attempt_id updated_at lease_expires_at)"

record attempt_update =
  au_status :: string
  au_updated_at :: string
  au_terminal_event_id :: string
  au_failure_reason :: string
  au_failure_class :: string
  au_retryable :: "bool option"
  au_recovery_owner :: string

text \<open>\<open>if value: row[key] = value\<close>\<close>

definition set_if :: "string \<Rightarrow> string \<Rightarrow> pydict \<Rightarrow> pydict" where
  "set_if k v row = (if v \<noteq> [] then dict_set row k (JStr v) else row)"

definition updated_row :: "attempt_update \<Rightarrow> pydict \<Rightarrow> pydict" where
  "updated_row u row =
     (let row1 = dict_set (dict_set row ''status'' (JStr (au_status u)))
                   ''updated_at'' (JStr (au_updated_at u));
          row2 = set_if ''failure_class'' (au_failure_class u)
                   (set_if ''failure_reason'' (au_failure_reason u)
                     (set_if ''terminal_event_id'' (au_terminal_event_id u) row1));
          row3 = (case au_retryable u of None \<Rightarrow> row2 | Some b \<Rightarrow> dict_set row2 ''retryable'' (JBool b))
      in set_if ''recovery_owner'' (au_recovery_owner u) row3)"

definition update_body ::
  "string \<Rightarrow> attempt_update \<Rightarrow> attempt_data \<Rightarrow> attempt_error + (pydict option \<times> attempt_data option)" where
  "update_body attempt_id u d =
     (case map_of (attempts d) attempt_id of
        Some (JObj row) \<Rightarrow>
          Inr (Some (updated_row u row), Some (put_row d attempt_id (updated_row u row)))
      | _ \<Rightarrow> Inr (None, None))"

definition update_attempt ::
  "string \<Rightarrow> attempt_update \<Rightarrow> file_read \<Rightarrow> attempt_error + (pydict option \<times> file_read)" where
  "update_attempt attempt_id u = locked_rmw load_unlocked save_unlocked (update_body attempt_id u)"

text \<open>\<open>is_expired\<close> is the caller's test on the lease time stamp.\<close>

definition expires :: "(string \<Rightarrow> bool) \<Rightarrow> json \<Rightarrow> bool" where
  "expires is_expired row =
     (case row of
        JObj r \<Rightarrow> sget r ''status'' \<in> set active_statuses \<and> is_expired (sget r ''lease_expires_at'')
      | _ \<Rightarrow> False)"

definition expired_row :: "string \<Rightarrow> pydict \<Rightarrow> pydict" where
  "expired_row now_iso row =
     dict_set (dict_set (dict_set (dict_set (dict_set (dict_set row
       ''status'' (JStr ''expired''))
       ''updated_at'' (JStr now_iso))
       ''failure_reason'' (JStr ''lease_expired''))
       ''failure_class'' (JStr ''lease_expired''))
       ''retryable'' (JBool True))
       ''recovery_owner'' (JStr ''scheduler'')"

definition expire_body ::
  "string \<Rightarrow> (string \<Rightarrow> bool) \<Rightarrow> attempt_data \<Rightarrow> attempt_error + (pydict list \<times> attempt_data option)" where
  "expire_body now_iso is_expired d =
     (let expired = map (\<lambda>p. expired_row now_iso (as_dict (snd p)))
                      (filter (\<lambda>p. expires is_expired (snd p)) (attempts d));
          atts = map (\<lambda>p. if expires is_expired (snd p)
                      then (fst p, JObj (expired_row now_iso (as_dict (snd p)))) else p) (attempts d)
      in Inr (expired, if expired \<noteq> [] then Some (d\<lparr>attempts := atts\<rparr>) else None))"

definition expire :: "string \<Rightarrow> (string \<Rightarrow> bool) \<Rightarrow> file_read \<Rightarrow> attempt_error + (pydict list \<times> file_read)" where
  "expire now_iso is_expired = locked_rmw load_unlocked save_unlocked (expire_body now_iso is_expired)"

section \<open>Reading attempts\<close>

text \<open>The rows the \<open>current\<close> table points to, filtered by the non-empty criteria.\<close>

definition current_rows_of :: "attempt_data \<Rightarrow> string \<Rightarrow> string \<Rightarrow> string \<Rightarrow> pydict list" where
  "current_rows_of d run_id task_id dispatch_id =
     filter (\<lambda>row. (run_id = [] \<or> sget row ''run_id'' = run_id)
        \<and> (task_id = [] \<or> sget row ''task_id'' = task_id)
        \<and> (dispatch_id = [] \<or> sget row ''dispatch_id'' = dispatch_id))
      (map as_dict (filter is_dict
        (map (\<lambda>v. dict_get (attempts d) (if truthy v then py_str v else []))
          (fromkeys (map snd (current d))))))"

definition select_unambiguous :: "pydict list \<Rightarrow> pydict option" where
  "select_unambiguous matches =
     (let active = filter (\<lambda>row. sget row ''status'' \<in> set active_statuses) matches in
      if length active = 1 then Some (hd active)
      else if active \<noteq> [] then None
      else if length matches = 1 then Some (hd matches) else None)"

definition get_attempt :: "string \<Rightarrow> file_read \<Rightarrow> attempt_error + pydict option" where
  "get_attempt attempt_id f =
     map_sum id (\<lambda>d. case map_of (attempts d) attempt_id of Some (JObj row) \<Rightarrow> Some row | _ \<Rightarrow> None)
       (load_unlocked f)"

definition current_attempt :: "string \<Rightarrow> string \<Rightarrow> file_read \<Rightarrow> attempt_error + pydict option" where
  "current_attempt run_id task_id f =
     map_sum id (\<lambda>d. select_unambiguous (current_rows_of d run_id task_id [])) (load_unlocked f)"

definition current_for_task :: "string \<Rightarrow> string \<Rightarrow> file_read \<Rightarrow> attempt_error + pydict option" where
  "current_for_task task_id dispatch_id f =
     (if strip task_id = [] then Inr None
      else map_sum id (\<lambda>d. select_unambiguous (current_rows_of d [] (strip task_id) (strip dispatch_id)))
             (load_unlocked f))"

definition current_for_attempt :: "string \<Rightarrow> string \<Rightarrow> file_read \<Rightarrow> attempt_error + pydict option" where
  "current_for_attempt task_id attempt_id f =
     (let task_id = strip task_id; attempt_id = strip attempt_id in
      if task_id = [] \<or> attempt_id = [] then Inr None
      else map_sum id (\<lambda>d.
        (case map_of (attempts d) attempt_id of
           Some (JObj supplied) \<Rightarrow>
             if sget supplied ''task_id'' \<noteq> task_id then None
             else
               (case map_of (attempts d) (sget (current d)
                   (scope_key (sget supplied ''run_id'') task_id (sget supplied ''attempt_key''))) of
                  Some (JObj row) \<Rightarrow> Some row
                | _ \<Rightarrow> None)
         | _ \<Rightarrow> None)) (load_unlocked f))"

definition attempt_rows :: "file_read \<Rightarrow> attempt_error + pydict list" where
  "attempt_rows f = map_sum id (\<lambda>d. map as_dict (filter is_dict (map snd (attempts d)))) (load_unlocked f)"

definition current_rows :: "file_read \<Rightarrow> attempt_error + pydict list" where
  "current_rows f = map_sum id (\<lambda>d. current_rows_of d [] [] []) (load_unlocked f)"

section \<open>A loaded store\<close>

text \<open>
  What the loader accepts, said of the two tables: every row passes \<open>_attempt_row_error\<close>, every
  \<open>current\<close> entry names an existing row of the lane it is filed under.
\<close>

type_synonym attempt_view = "(string \<rightharpoonup> json) \<times> (string \<rightharpoonup> json)"

definition store_view :: "attempt_data \<Rightarrow> attempt_view" where
  "store_view d = (map_of (attempts d), map_of (current d))"

definition row_ok :: "string \<Rightarrow> json \<Rightarrow> bool" where
  "row_ok a v \<longleftrightarrow> is_dict v \<and> attempt_row_error a (as_dict v) = []"

definition pointer_ok :: "(string \<rightharpoonup> json) \<Rightarrow> string \<Rightarrow> json \<Rightarrow> bool" where
  "pointer_ok att s v \<longleftrightarrow> (\<exists>a row. v = JStr a \<and> att a = Some (JObj row) \<and> s = row_scope row)"

definition view_ok :: "attempt_view \<Rightarrow> bool" where
  "view_ok v \<longleftrightarrow>
     (\<forall>a x. fst v a = Some x \<longrightarrow> row_ok a x) \<and> (\<forall>s x. snd v s = Some x \<longrightarrow> pointer_ok (fst v) s x)"

definition store_inv :: "attempt_data \<Rightarrow> bool" where
  "store_inv d \<longleftrightarrow> distinct (map fst (attempts d)) \<and> distinct (map fst (current d)) \<and> view_ok (store_view d)"

lemma first_row_error_Nil:
  "first_row_error d = [] \<longleftrightarrow> (\<forall>(k, v) \<in> set d. attempt_row_error k (as_dict v) = [])"
  by (induction d rule: first_row_error.induct) (auto simp: Let_def)

lemma is_dict_iff: "is_dict v \<longleftrightarrow> (\<exists>r. v = JObj r)"
  by (cases v) auto

lemma load_rows_ok:
  assumes "distinct (map fst d)" and "\<forall>a x. map_of d a = Some x \<longrightarrow> row_ok a x"
  shows "find (\<lambda>p. \<not> is_dict (snd p)) d = None" and "first_row_error d = []"
proof -
  have ok: "row_ok a x" if "(a, x) \<in> set d" for a x
    using assms that by simp
  then show "find (\<lambda>p. \<not> is_dict (snd p)) d = None"
    by (auto simp: find_None_iff row_ok_def)
  from ok show "first_row_error d = []"
    by (auto simp: first_row_error_Nil row_ok_def)
qed

lemma pointer_checks:
  assumes "distinct (map fst cur)" and "\<forall>s x. map_of cur s = Some x \<longrightarrow> pointer_ok (map_of att) s x"
  shows "find (dangling_pointer att) cur = None" and "find (mismatched_pointer att) cur = None"
proof -
  have ok: "pointer_ok (map_of att) s x" if "(s, x) \<in> set cur" for s x
    using assms that by simp
  then show "find (dangling_pointer att) cur = None"
    by (fastforce simp: find_None_iff dangling_pointer_def pointer_ok_def has_key_def)
  from ok show "find (mismatched_pointer att) cur = None"
    by (fastforce simp: find_None_iff mismatched_pointer_def pointer_ok_def dict_get_def)
qed

lemma load_saved:
  assumes "store_inv d"
  shows "load_unlocked (save_unlocked d) =
    Inr \<lparr>revision = revision d + 1, attempts = sort_dict (attempts d), current = sort_dict (current d)\<rparr>"
proof -
  from assms have att: "distinct (map fst (attempts d))" and cur: "distinct (map fst (current d))"
    and rows: "\<forall>a x. map_of (attempts d) a = Some x \<longrightarrow> row_ok a x"
    and ptrs: "\<forall>s x. map_of (current d) s = Some x \<longrightarrow> pointer_ok (map_of (attempts d)) s x"
    by (simp_all add: store_inv_def view_ok_def store_view_def)
  have r: "find (\<lambda>p. \<not> is_dict (snd p)) (sort_dict (attempts d)) = None"
      "first_row_error (sort_dict (attempts d)) = []"
    using load_rows_ok [of "sort_dict (attempts d)"] att rows by simp_all
  have p: "find (dangling_pointer (sort_dict (attempts d))) (sort_dict (current d)) = None"
      "find (mismatched_pointer (sort_dict (attempts d))) (sort_dict (current d)) = None"
    using pointer_checks [of "sort_dict (current d)" "sort_dict (attempts d)"] att cur ptrs by simp_all
  show ?thesis
    by (simp add: save_unlocked_def load_unlocked_def load_root_def r p iget_or_def py_or_def
        STORE_SCHEMA_VERSION_def)
qed

lemma load_NotFound: "load_unlocked NotFound = Inr \<lparr>revision = 0, attempts = [], current = []\<rparr>"
  by (simp add: load_unlocked_def load_root_def iget_or_def py_or_def)

lemma store_inv_empty: "store_inv \<lparr>revision = 0, attempts = [], current = []\<rparr>"
  by (simp add: store_inv_def view_ok_def store_view_def)

interpretation attempt_file: locked_store load_unlocked save_unlocked store_inv store_view
proof
  fix d assume "store_inv d"
  then show "\<exists>d'. load_unlocked (save_unlocked d) = Inr d' \<and> store_inv d' \<and> store_view d' = store_view d"
    by (simp add: load_saved) (simp add: store_inv_def store_view_def)
qed

section \<open>What each operation does to the two tables\<close>

text \<open>
  Apart from \<open>ensure_for_dispatch\<close>, every operation rewrites rows in place. The loader's verdict on a
  row depends on the fields below and on the status, so a rewrite that leaves those fields alone and
  ends in a known status keeps the row loadable.
\<close>

definition identity_keys :: "string list" where
  "identity_keys =
     [''schema_version'', ''attempt_id'', ''lease_id'', ''run_id'', ''task_id'', ''operation_id'', ''attempt_key'',
      ''dispatch_id'', ''identity_version'', ''role'', ''instance_id'', ''ordinal'', ''series'', ''placement_epoch'']"

definition same_identity :: "pydict \<Rightarrow> pydict \<Rightarrow> bool" where
  "same_identity row' row \<longleftrightarrow> (\<forall>k \<in> set identity_keys. dict_get row' k = dict_get row k)"

definition row_status :: "pydict \<Rightarrow> string" where
  "row_status row = sget row ''status''"

definition row_active :: "pydict \<Rightarrow> bool" where
  "row_active row \<longleftrightarrow> row_status row \<in> set active_statuses"

lemma status_nonblank: "s \<in> set attempt_statuses \<Longrightarrow> strip s \<noteq> []"
  by (auto simp: attempt_statuses_def active_statuses_def strip_Cons_nonspace is_space_def)

lemma active_known: "s \<in> set active_statuses \<Longrightarrow> s \<in> set attempt_statuses"
  by (simp add: attempt_statuses_def)

lemma same_identity_refl [simp]: "same_identity row row"
  by (simp add: same_identity_def)

lemma same_identity_set:
  "k \<notin> set identity_keys \<Longrightarrow> same_identity (dict_set row' k v) row = same_identity row' row"
  by (auto simp: same_identity_def)

lemma same_identity_scope: "same_identity row' row \<Longrightarrow> row_scope row' = row_scope row"
  by (simp add: same_identity_def row_scope_def sget_def identity_keys_def)

lemma row_ok_known: "row_ok a (JObj row) \<Longrightarrow> row_status row \<in> set attempt_statuses"
  by (auto simp: row_ok_def attempt_row_error_def row_status_def Let_def split: if_splits)

text \<open>The loader's row check as one condition.\<close>

lemma attempt_row_error_Nil:
  "attempt_row_error a row = [] \<longleftrightarrow>
     (\<forall>key \<in> set required_row_keys. strip (sget row key) \<noteq> [])
     \<and> sget row ''schema_version'' = ''task-attempt.v1'' \<and> sget row ''attempt_id'' = a
     \<and> sget_or row ''identity_version'' IDENTITY_ROLE_V1 \<in> set identity_versions
     \<and> sget row ''attempt_key'' = attempt_key (sget row ''run_id'') (sget row ''task_id'')
         (sget row ''operation_id'') (sget_first row [''role'', ''instance_id''])
         (sget_or row ''identity_version'' IDENTITY_ROLE_V1)
     \<and> row_status row \<in> set attempt_statuses
     \<and> (\<exists>ordinal series epoch. py_int (dict_get row ''ordinal'') = Some ordinal
          \<and> py_int (dict_get row ''series'') = Some series \<and> 1 \<le> ordinal \<and> 1 \<le> series
          \<and> iget_or row ''placement_epoch'' 0 = Some epoch \<and> 0 \<le> epoch
          \<and> (sget_or row ''identity_version'' IDENTITY_ROLE_V1 = IDENTITY_OPERATION_V2 \<longrightarrow> 1 \<le> epoch))"
  unfolding attempt_row_error_def row_status_def Let_def
  by (auto simp: filter_empty_conv not_less simp del: sget_first.simps split: option.splits prod.splits)

lemma row_ok_rewrite:
  assumes "row_ok a (JObj row)" and "same_identity row' row" and "row_status row' \<in> set attempt_statuses"
  shows "row_ok a (JObj row')"
proof -
  have g: "dict_get row' k = dict_get row k" if "k \<in> set identity_keys" for k
    using assms(2) that by (simp add: same_identity_def)
  have s: "sget row' k = sget row k" if "k \<in> set identity_keys" for k
    using g [OF that] by (simp add: sget_def)
  have "\<forall>key \<in> set required_row_keys. strip (sget row' key) \<noteq> []"
  proof
    fix key assume "key \<in> set required_row_keys"
    then have "key \<in> set identity_keys \<or> key = ''status''"
      by (auto simp: required_row_keys_def identity_keys_def)
    moreover have "strip (sget row' ''status'') \<noteq> []"
      using status_nonblank [OF assms(3)] by (simp add: row_status_def)
    moreover have "strip (sget row key) \<noteq> []"
      using assms(1) \<open>key \<in> set required_row_keys\<close> by (simp add: row_ok_def attempt_row_error_Nil)
    ultimately show "strip (sget row' key) \<noteq> []" using s by auto
  qed
  moreover have "sget row' ''schema_version'' = sget row ''schema_version''"
    "sget row' ''attempt_id'' = sget row ''attempt_id''" "sget row' ''run_id'' = sget row ''run_id''"
    "sget row' ''task_id'' = sget row ''task_id''" "sget row' ''operation_id'' = sget row ''operation_id''"
    "sget row' ''attempt_key'' = sget row ''attempt_key''"
    by (rule s; simp add: identity_keys_def)+
  moreover have "dict_get row' ''ordinal'' = dict_get row ''ordinal''"
    "dict_get row' ''series'' = dict_get row ''series''"
    "dict_get row' ''placement_epoch'' = dict_get row ''placement_epoch''"
    "dict_get row' ''identity_version'' = dict_get row ''identity_version''"
    "dict_get row' ''role'' = dict_get row ''role''"
    "dict_get row' ''instance_id'' = dict_get row ''instance_id''"
    by (rule g; simp add: identity_keys_def)+
  ultimately show ?thesis
    using assms(1,3) unfolding row_ok_def attempt_row_error_Nil is_dict.simps as_dict.simps
    by (simp only: sget_or_def iget_or_def sget_first.simps simp_thms)
qed

lemma as_dict_inv: "is_dict v \<Longrightarrow> JObj (as_dict v) = v"
  by (cases v) auto

text \<open>Rewriting every row by \<open>g\<close>, and the rewrites that keep what the loader checks.\<close>

definition rewrite_rows :: "(string \<Rightarrow> pydict \<Rightarrow> pydict) \<Rightarrow> (string \<rightharpoonup> json) \<Rightarrow> (string \<rightharpoonup> json)" where
  "rewrite_rows g att = (\<lambda>a. map_option (\<lambda>v. JObj (g a (as_dict v))) (att a))"

definition safe_rewrite :: "(string \<Rightarrow> pydict \<Rightarrow> pydict) \<Rightarrow> (string \<rightharpoonup> json) \<Rightarrow> bool" where
  "safe_rewrite g att \<longleftrightarrow> (\<forall>a row. att a = Some (JObj row) \<longrightarrow>
     same_identity (g a row) row \<and> row_status (g a row) \<in> set attempt_statuses)"

lemma view_ok_rewrite:
  assumes ok: "view_ok (att, cur)" and safe: "safe_rewrite g att"
  shows "view_ok (rewrite_rows g att, cur)"
proof -
  have rows: "row_ok a (JObj (g a (as_dict x)))" if "att a = Some x" for a x
  proof -
    from ok that have r: "row_ok a x" by (simp add: view_ok_def)
    then obtain row where "x = JObj row" by (auto simp: row_ok_def is_dict_iff)
    with r safe that show ?thesis by (auto simp: safe_rewrite_def intro: row_ok_rewrite)
  qed
  have ptrs: "pointer_ok (rewrite_rows g att) s x" if cs: "cur s = Some x" for s x
  proof -
    from ok cs obtain a row where a: "x = JStr a" "att a = Some (JObj row)" "s = row_scope row"
      by (fastforce simp: view_ok_def pointer_ok_def)
    with safe have "same_identity (g a row) row" by (simp add: safe_rewrite_def)
    with a have "s = row_scope (g a row)" by (simp add: same_identity_scope)
    with a show ?thesis by (simp add: pointer_ok_def rewrite_rows_def)
  qed
  from rows ptrs show ?thesis by (auto simp: view_ok_def rewrite_rows_def)
qed

lemma put_row_view:
  assumes "view_ok (store_view d)" and "map_of (attempts d) a = Some (JObj row)"
  shows "store_view (put_row d a row') =
    (rewrite_rows (\<lambda>b r. if b = a then row' else r) (map_of (attempts d)), map_of (current d))"
proof -
  have "rewrite_rows (\<lambda>b r. if b = a then row' else r) (map_of (attempts d)) b =
      ((map_of (attempts d))(a \<mapsto> JObj row')) b" for b
    using assms by (cases "map_of (attempts d) b") (auto simp: rewrite_rows_def view_ok_def store_view_def
        row_ok_def as_dict_inv)
  then show ?thesis by (auto simp: store_view_def put_row_def)
qed

lemma rewritten_rows:
  "same_identity (claim_row t row) row" "row_status (claim_row t row) = ''delivering''"
  "same_identity (sent_row t row) row" "row_status (sent_row t row) = ''sent''"
  "same_identity (renew_row t e row) row" "row_status (renew_row t e row) = row_status row"
  "same_identity (expired_row t row) row" "row_status (expired_row t row) = ''expired''"
  "same_identity (supersede_row b t row) row" "row_status (supersede_row b t row) = ''superseded''"
  by (simp_all add: claim_row_def sent_row_def renew_row_def expired_row_def supersede_row_def Let_def
      same_identity_set identity_keys_def row_status_def)

lemma updated_row_simps:
  "same_identity (updated_row u row) row" "row_status (updated_row u row) = au_status u"
  by (auto simp: updated_row_def set_if_def Let_def same_identity_set identity_keys_def row_status_def
      split: option.splits)

text \<open>
  \<open>rewritten P d d'\<close>: the store \<open>d'\<close> is \<open>d\<close> with rows rewritten, each to a row of the same
  identity and a known status that \<open>P\<close> relates to the old status.
\<close>

definition rewritten :: "(string \<Rightarrow> string \<Rightarrow> string \<Rightarrow> bool) \<Rightarrow> attempt_data \<Rightarrow> attempt_data \<Rightarrow> bool" where
  "rewritten P d d' \<longleftrightarrow>
     (\<exists>g. store_view d' = (rewrite_rows g (map_of (attempts d)), map_of (current d))
        \<and> map fst (attempts d') = map fst (attempts d) \<and> map fst (current d') = map fst (current d)
        \<and> safe_rewrite g (map_of (attempts d))
        \<and> (\<forall>a row. map_of (attempts d) a = Some (JObj row) \<longrightarrow> P a (row_status row) (row_status (g a row))))"

lemma rewritten_inv: "store_inv d \<Longrightarrow> rewritten P d d' \<Longrightarrow> store_inv d'"
  by (auto simp: rewritten_def store_inv_def store_view_def intro: view_ok_rewrite)

lemma rewritten_mono: "rewritten P d d' \<Longrightarrow> (\<And>a s s'. P a s s' \<Longrightarrow> Q a s s') \<Longrightarrow> rewritten Q d d'"
  unfolding rewritten_def by meson

lemma keys_put: "map_of d k = Some v \<Longrightarrow> map fst (dict_set d k w) = map fst d"
  unfolding dict_set_def by (induction d) (auto split: if_splits)

lemma rewritten_put_row:
  assumes inv: "store_inv d" and row: "map_of (attempts d) a = Some (JObj row)"
    and new: "same_identity row' row" "row_status row' \<in> set attempt_statuses"
    and rel: "P a (row_status row) (row_status row')" "\<And>b s. b \<noteq> a \<Longrightarrow> P b s s"
  shows "rewritten P d (put_row d a row')"
proof -
  let ?g = "\<lambda>b r. if b = a then row' else r"
  have ok: "row_ok b x" if "map_of (attempts d) b = Some x" for b x
    using inv that by (simp add: store_inv_def view_ok_def store_view_def)
  have "store_view (put_row d a row') = (rewrite_rows ?g (map_of (attempts d)), map_of (current d))"
    using inv row by (simp add: put_row_view store_inv_def)
  moreover have "safe_rewrite ?g (map_of (attempts d))"
    using row new ok row_ok_known by (auto simp: safe_rewrite_def)
  moreover have "map fst (attempts (put_row d a row')) = map fst (attempts d)"
    using row by (simp add: put_row_def keys_put)
  ultimately show ?thesis using row rel
    unfolding rewritten_def by (intro exI [of _ ?g]) (auto simp: put_row_def)
qed

lemma row_known:
  "store_inv d \<Longrightarrow> map_of (attempts d) a = Some (JObj row) \<Longrightarrow> row_status row \<in> set attempt_statuses"
  by (auto simp: store_inv_def view_ok_def store_view_def simp del: map_of_eq_Some_iff intro: row_ok_known)

lemma claim_rewritten:
  assumes "store_inv d" and "claim_body a t d = Inr (r, Some d')"
  shows "rewritten (\<lambda>b s s'. if b = a then s = ''prepared'' \<and> s' = ''delivering'' else s' = s) d d'"
proof -
  from assms(2) obtain row where row: "map_of (attempts d) a = Some (JObj row)"
    "dict_get row ''status'' = JStr ''prepared''" "d' = put_row d a (claim_row t row)"
    by (auto simp: claim_body_def split: option.splits json.splits if_splits)
  then have "row_status row = ''prepared''" by (simp add: row_status_def sget_def)
  with assms(1) row show ?thesis
    by (auto intro!: rewritten_put_row simp: rewritten_rows attempt_statuses_def active_statuses_def)
qed

lemma sent_rewritten:
  assumes "store_inv d" and "mark_sent_body a t d = Inr (r, Some d')"
  shows "rewritten (\<lambda>b s s'. if b = a then s \<in> {''delivering'', ''sent''} \<and> s' = ''sent'' else s' = s) d d'"
proof -
  from assms(2) obtain row where row: "map_of (attempts d) a = Some (JObj row)"
    "dict_get row ''status'' \<in> {JStr ''delivering'', JStr ''sent''}" "d' = put_row d a (sent_row t row)"
    by (auto simp: mark_sent_body_def split: option.splits json.splits if_splits)
  then have "row_status row \<in> {''delivering'', ''sent''}" by (auto simp: row_status_def sget_def)
  with assms(1) row show ?thesis
    by (auto intro!: rewritten_put_row simp: rewritten_rows attempt_statuses_def active_statuses_def)
qed

lemma renew_rewritten:
  assumes "store_inv d" and "renew_lease_body a t e d = Inr (r, Some d')"
  shows "rewritten (\<lambda>b s s'. s' = s) d d'"
proof -
  from assms(2) obtain row where "map_of (attempts d) a = Some (JObj row)"
    "d' = put_row d a (renew_row t e row)"
    by (auto simp: renew_lease_body_def split: option.splits json.splits if_splits)
  with assms(1) row_known show ?thesis
    by (auto intro!: rewritten_put_row simp: rewritten_rows)
qed

lemma update_rewritten:
  assumes "store_inv d" and "au_status u \<in> set attempt_statuses" and "update_body a u d = Inr (r, Some d')"
  shows "rewritten (\<lambda>b s s'. if b = a then s' = au_status u else s' = s) d d'"
proof -
  from assms(3) obtain row where "map_of (attempts d) a = Some (JObj row)"
    "d' = put_row d a (updated_row u row)"
    by (auto simp: update_body_def split: option.splits json.splits)
  with assms(1,2) show ?thesis
    by (auto intro!: rewritten_put_row simp: updated_row_simps)
qed

lemma map_of_map_snd:
  "map_of (map (\<lambda>p. if Q (snd p) then (fst p, h (snd p)) else p) xs) a =
     (case map_of xs a of None \<Rightarrow> None | Some v \<Rightarrow> Some (if Q v then h v else v))"
  by (induction xs) auto

lemma expire_rewritten:
  assumes inv: "store_inv d" and body: "expire_body t ex d = Inr (r, Some d')"
  shows "rewritten (\<lambda>b s s'. s' = s \<or> s' = ''expired'') d d'"
proof -
  let ?g = "\<lambda>a row. if expires ex (JObj row) then expired_row t row else row"
  have ok: "row_ok b x" if "map_of (attempts d) b = Some x" for b x
    using inv that by (simp add: store_inv_def view_ok_def store_view_def)
  from body have d': "d' = d\<lparr>attempts := map (\<lambda>p. if expires ex (snd p)
      then (fst p, JObj (expired_row t (as_dict (snd p)))) else p) (attempts d)\<rparr>"
    by (auto simp: expire_body_def Let_def split: if_splits)
  have "map_of (attempts d') a = rewrite_rows ?g (map_of (attempts d)) a" for a
    using ok [of a] map_of_map_snd [of "expires ex" "\<lambda>v. JObj (expired_row t (as_dict v))" "attempts d" a]
    by (auto simp: d' rewrite_rows_def row_ok_def as_dict_inv split: option.splits)
  then have "store_view d' = (rewrite_rows ?g (map_of (attempts d)), map_of (current d))"
    by (auto simp: store_view_def d')
  moreover have "safe_rewrite ?g (map_of (attempts d))"
    using ok row_ok_known by (auto simp: safe_rewrite_def rewritten_rows attempt_statuses_def)
  moreover have "map fst (attempts d') = map fst (attempts d)"
    by (simp add: d' comp_def if_distrib cong: if_cong)
  ultimately show ?thesis
    unfolding rewritten_def by (intro exI [of _ ?g]) (auto simp: d' rewritten_rows)
qed

section \<open>What \<open>ensure_for_dispatch\<close> does to the two tables\<close>

lemma store_row_ok: "store_inv d \<Longrightarrow> map_of (attempts d) a = Some v \<Longrightarrow> row_ok a v"
  by (simp add: store_inv_def view_ok_def store_view_def del: map_of_eq_Some_iff)

lemma store_row_dict:
  assumes "store_inv d" and "map_of (attempts d) a = Some v" obtains row where "v = JObj row"
  using store_row_ok [OF assms] by (auto simp: row_ok_def is_dict_iff)

lemma row_int_pos:
  assumes "py_int (dict_get row k) = Some i" and "1 \<le> i"
  shows "row_int row k dflt = i"
  using assms by (cases "dict_get row k") (auto simp: row_int_def iget_or_def py_or_def parse_int_def split: if_splits)

lemma row_numbers:
  assumes "row_ok a (JObj row)"
  shows "1 \<le> row_int row ''series'' 1" and "1 \<le> row_int row ''ordinal'' 0"
proof -
  from assms obtain i j where "py_int (dict_get row ''ordinal'') = Some i" "1 \<le> i"
    "py_int (dict_get row ''series'') = Some j" "1 \<le> j"
    by (auto simp: row_ok_def attempt_row_error_Nil)
  then show "1 \<le> row_int row ''series'' 1" and "1 \<le> row_int row ''ordinal'' 0"
    by (simp_all add: row_int_pos)
qed

lemma latest_row:
  assumes "store_inv d" and "max_by attempt_order (operation_rows (attempts d) run task key) = Some row"
  obtains a where "map_of (attempts d) a = Some (JObj row)" and "row_ok a (JObj row)"
proof -
  from max_by_mem [OF assms(2)] obtain a where "(a, JObj row) \<in> set (attempts d)"
    by (auto simp: operation_rows_def is_dict_iff)
  with assms(1) have "map_of (attempts d) a = Some (JObj row)" by (simp add: store_inv_def)
  with assms(1) that show ?thesis by (blast intro: store_row_ok)
qed

lemma next_numbers:
  assumes "store_inv d"
    and "next_series_ordinal (max_by attempt_order (operation_rows (attempts d) run task key)) = (series, ordinal)"
  shows "1 \<le> series \<and> 1 \<le> ordinal"
proof (cases "max_by attempt_order (operation_rows (attempts d) run task key)")
  case None
  with assms(2) show ?thesis by (simp add: next_series_ordinal_def)
next
  case (Some row)
  then obtain a where "row_ok a (JObj row)" by (rule latest_row [OF assms(1)])
  from row_numbers [OF this] Some assms(2) show ?thesis
    by (auto simp: next_series_ordinal_def split: if_splits)
qed

lemma strip_legacy: "strip (str_or (strip s) ''legacy'') = str_or (strip s) ''legacy'' \<and> str_or (strip s) ''legacy'' \<noteq> []"
  by (cases "strip s = []") (auto simp: str_or_def, simp add: strip_def lstrip_def is_space_def)

lemma check_dispatch_Inr:
  assumes "check_dispatch r = Inr (run, task, disp, ver)"
  shows "strip run = run" "run \<noteq> []" "strip task = task" "task \<noteq> []" "strip disp = disp" "disp \<noteq> []"
    and "ver \<in> set identity_versions" "0 \<le> dr_placement_epoch r"
    and "ver = IDENTITY_OPERATION_V2 \<longrightarrow> 1 \<le> dr_placement_epoch r"
  using assms strip_legacy [of "dr_run_id r"]
  by (auto simp: check_dispatch_def Let_def split: if_splits)

lemma nonblank_ids:
  "strip (task_attempt_id run task disp) \<noteq> []" "strip (task_attempt_lease_id a) \<noteq> []"
  "strip (attempt_key run task oper role ver) \<noteq> []"
  "task_attempt_id run task disp \<noteq> []" "task_attempt_lease_id a \<noteq> []" "attempt_key run task oper role ver \<noteq> []"
  by (simp_all add: task_attempt_id_def task_attempt_lease_id_def attempt_key_def Let_def
      strip_Cons_nonspace is_space_def)

lemma new_row_status: "row_status (new_attempt_row r a run task disp ver series ordinal) = ''prepared''"
  by (simp add: row_status_def new_attempt_row_def)

lemma new_row_ok:
  assumes "check_dispatch r = Inr (run, task, disp, ver)" and oper: "strip (dr_operation_id r) \<noteq> []"
    and "1 \<le> series" "1 \<le> ordinal" and a: "a = task_attempt_id run task disp"
  shows "row_ok a (JObj (new_attempt_row r a run task disp ver series ordinal))"
proof -
  note c = check_dispatch_Inr [OF assms(1)]
  have ne: "dr_operation_id r \<noteq> []" using oper by auto
  have v: "ver \<noteq> []" using c(7) by (auto simp: identity_versions_def IDENTITY_ROLE_V1_def IDENTITY_OPERATION_V2_def)
  have z: "dr_placement_epoch r = 0 \<Longrightarrow> ver \<noteq> IDENTITY_OPERATION_V2" using c(9) by auto
  have "strip ''prepared'' \<noteq> []" by (simp add: strip_Cons_nonspace is_space_def)
  then show ?thesis
    using c z ne oper v assms(3,4) nonblank_ids
    unfolding row_ok_def attempt_row_error_Nil is_dict.simps as_dict.simps row_status_def
    by (simp add: new_attempt_row_def required_row_keys_def attempt_statuses_def active_statuses_def
        sget_or_def iget_or_def py_or_def str_or_def a Let_def)
qed

lemma new_row_scope:
  assumes "check_dispatch r = Inr (run, task, disp, ver)"
  shows "row_scope (new_attempt_row r a run task disp ver series ordinal) =
    scope_key run task (attempt_key run task (dr_operation_id r) (str_or (dr_role r) (dr_instance_id r)) ver)"
  using check_dispatch_Inr [OF assms] nonblank_ids by (simp add: row_scope_def new_attempt_row_def)

text \<open>A created attempt: the prior attempt of the lane is superseded, then the new row is added.\<close>

definition after_supersede :: "dispatch_request \<Rightarrow> string \<Rightarrow> string \<Rightarrow> attempt_data \<Rightarrow> attempt_data" where
  "after_supersede r a prior_id d =
     (if supersedes a (dr_operation_id r) prior_id (map_of (attempts d) prior_id)
      then put_row d prior_id (supersede_row a (dr_created_at r) (as_dict (the (map_of (attempts d) prior_id))))
      else d)"

definition add_row :: "string \<Rightarrow> pydict \<Rightarrow> attempt_data \<Rightarrow> attempt_data" where
  "add_row a row d = d\<lparr>attempts := dict_set (attempts d) a (JObj row),
                       current := dict_set (current d) (row_scope row) (JStr a)\<rparr>"

lemma ensure_created:
  assumes inv: "store_inv d" and chk: "check_dispatch r = Inr (run, task, disp, ver)"
    and body: "ensure_body r run task disp ver d = Inr (res, Some d')"
    and a: "a = task_attempt_id run task disp"
    and key: "key = attempt_key run task (dr_operation_id r) (str_or (dr_role r) (dr_instance_id r)) ver"
  obtains series ordinal row where "map_of (attempts d) a = None"
    and "next_series_ordinal (max_by attempt_order (operation_rows (attempts d) run task key)) = (series, ordinal)"
    and "dr_max_attempts r \<le> 0 \<or> ordinal \<le> dr_max_attempts r"
    and "row = new_attempt_row r a run task disp ver series ordinal"
    and "row_scope row = scope_key run task key"
    and "d' = add_row a row (after_supersede r a (sget (current d) (scope_key run task key)) d)"
    and "er_attempt res = row" and "er_created res"
proof -
  obtain series ordinal where n:
    "next_series_ordinal (max_by attempt_order (operation_rows (attempts d) run task key)) = (series, ordinal)"
    by fastforce
  let ?row = "new_attempt_row r a run task disp ver series ordinal"
  have none: "map_of (attempts d) a = None"
  proof (rule ccontr)
    assume "map_of (attempts d) a \<noteq> None"
    then obtain v where "map_of (attempts d) a = Some v" by blast
    moreover from this obtain row where "v = JObj row" by (rule store_row_dict [OF inv])
    ultimately show False using body by (simp add: ensure_body_def a)
  qed
  have sc: "row_scope ?row = scope_key run task key"
    by (simp add: new_row_scope [OF chk] key)
  have "\<not> (0 < dr_max_attempts r \<and> dr_max_attempts r < ordinal)"
    using body none n by (auto simp: ensure_body_def a [symmetric] key [symmetric] Let_def)
  then have m: "dr_max_attempts r \<le> 0 \<or> ordinal \<le> dr_max_attempts r" by auto
  have d': "d' = add_row a ?row (after_supersede r a (sget (current d) (scope_key run task key)) d)"
    "er_attempt res = ?row" "er_created res"
    using body none n by (auto simp: ensure_body_def a [symmetric] key [symmetric] Let_def sc
        add_row_def after_supersede_def put_row_def split: if_splits)
  show ?thesis by (rule that [OF none n m refl sc d'])
qed

lemma supersede_rewritten:
  assumes "store_inv d"
  shows "rewritten (\<lambda>b s s'. s' = s \<or> s' = ''superseded'') d (after_supersede r a p d)"
proof (cases "supersedes a (dr_operation_id r) p (map_of (attempts d) p)")
  case True
  then obtain row where row: "map_of (attempts d) p = Some (JObj row)"
    by (auto simp: supersedes_def split: option.splits json.splits)
  with True assms show ?thesis
    by (auto simp: after_supersede_def rewritten_rows attempt_statuses_def intro!: rewritten_put_row)
next
  case False
  have "rewrite_rows (\<lambda>a row. row) (map_of (attempts d)) b = map_of (attempts d) b" for b
    using store_row_ok [OF assms, of b]
    by (cases "map_of (attempts d) b") (auto simp: rewrite_rows_def row_ok_def as_dict_inv)
  then show ?thesis
    using False row_known [OF assms] unfolding rewritten_def
    by (intro exI [of _ "\<lambda>a row. row"]) (auto simp: after_supersede_def store_view_def safe_rewrite_def)
qed

lemma add_row_inv:
  assumes "store_inv d" and "map_of (attempts d) a = None" and "row_ok a (JObj row)"
  shows "store_inv (add_row a row d)"
proof -
  have "pointer_ok ((map_of (attempts d))(a \<mapsto> JObj row)) s x" if "pointer_ok (map_of (attempts d)) s x" for s x
  proof -
    from that obtain b q where b: "x = JStr b" "map_of (attempts d) b = Some (JObj q)" "s = row_scope q"
      unfolding pointer_ok_def by blast
    with assms(2) have "b \<noteq> a" by (metis option.distinct(1))
    with b show ?thesis unfolding pointer_ok_def by auto
  qed
  moreover have "pointer_ok ((map_of (attempts d))(a \<mapsto> JObj row)) (row_scope row) (JStr a)"
    by (simp add: pointer_ok_def)
  moreover have "row_ok b x" if "((map_of (attempts d))(a \<mapsto> JObj row)) b = Some x" for b x
    using that assms(3) store_row_ok [OF assms(1)] by (simp split: if_splits)
  moreover have "pointer_ok (map_of (attempts d)) s x" if "map_of (current d) s = Some x" for s x
    using that assms(1) by (simp add: store_inv_def view_ok_def store_view_def del: map_of_eq_Some_iff)
  ultimately have "view_ok (store_view (add_row a row d))"
    by (simp add: view_ok_def store_view_def add_row_def)
  then show ?thesis using assms(1) by (simp add: store_inv_def add_row_def)
qed

lemma rewritten_None: "rewritten P d d' \<Longrightarrow> map_of (attempts d') a = None \<longleftrightarrow> map_of (attempts d) a = None"
  by (auto simp: rewritten_def store_view_def rewrite_rows_def)

lemma rewritten_current: "rewritten P d d' \<Longrightarrow> map_of (current d') = map_of (current d)"
  by (auto simp: rewritten_def store_view_def)

lemma rewritten_Some:
  assumes "rewritten P d d'" and "store_inv d" and "map_of (attempts d') a = Some (JObj row')"
  obtains row where "map_of (attempts d) a = Some (JObj row)" and "same_identity row' row"
    and "P a (row_status row) (row_status row')"
proof -
  from assms(1) obtain g where g: "map_of (attempts d') = rewrite_rows g (map_of (attempts d))"
    "safe_rewrite g (map_of (attempts d))"
    "\<forall>a row. map_of (attempts d) a = Some (JObj row) \<longrightarrow> P a (row_status row) (row_status (g a row))"
    by (auto simp: rewritten_def store_view_def)
  with assms(3) obtain v where v: "map_of (attempts d) a = Some v" "row' = g a (as_dict v)"
    by (auto simp: rewrite_rows_def)
  then obtain row where "v = JObj row" using store_row_dict [OF assms(2)] by blast
  with v g that show ?thesis by (auto simp: safe_rewrite_def)
qed

lemma ensure_inv:
  assumes inv: "store_inv d" and chk: "check_dispatch r = Inr (run, task, disp, ver)"
    and oper: "strip (dr_operation_id r) \<noteq> []"
    and body: "ensure_body r run task disp ver d = Inr (res, Some d')"
  shows "store_inv d'"
proof -
  let ?a = "task_attempt_id run task disp"
  show ?thesis
  proof (rule ensure_created [OF inv chk body refl refl])
    fix series ordinal row and key p :: string
    assume none: "map_of (attempts d) ?a = None"
      and n: "next_series_ordinal (max_by attempt_order (operation_rows (attempts d) run task
          (attempt_key run task (dr_operation_id r) (str_or (dr_role r) (dr_instance_id r)) ver))) = (series, ordinal)"
      and row: "row = new_attempt_row r ?a run task disp ver series ordinal"
      and d': "d' = add_row ?a row (after_supersede r ?a (sget (current d) (scope_key run task
          (attempt_key run task (dr_operation_id r) (str_or (dr_role r) (dr_instance_id r)) ver))) d)"
    have "row_ok ?a (JObj row)"
      using next_numbers [OF inv n] by (auto simp: row intro: new_row_ok [OF chk oper])
    then show ?thesis
      using none rewritten_None [OF supersede_rewritten [OF inv]]
        rewritten_inv [OF inv supersede_rewritten [OF inv]] by (simp add: d' add_row_inv)
  qed
qed

section \<open>Runs of the store\<close>

text \<open>The mutating methods as data, so that a run is a list.\<close>

datatype attempt_op =
    Ensure dispatch_request
  | Claim string string
  | MarkSent string string
  | Renew string string string
  | Update string attempt_update
  | Expire string "string \<Rightarrow> bool"

datatype attempt_out =
    EnsureOut ensure_result
  | ClaimOut "pydict option" bool
  | RowOut "pydict option"
  | RowsOut "pydict list"

fun exec_op :: "attempt_op \<Rightarrow> file_read \<Rightarrow> attempt_error + (attempt_out \<times> file_read)" where
  "exec_op (Ensure r) f = map_sum id (map_prod EnsureOut id) (ensure_for_dispatch r f)"
| "exec_op (Claim a t) f = map_sum id (map_prod (\<lambda>(row, ok). ClaimOut row ok) id) (claim_delivery a t f)"
| "exec_op (MarkSent a t) f = map_sum id (map_prod RowOut id) (mark_sent a t f)"
| "exec_op (Renew a t e) f = map_sum id (map_prod RowOut id) (renew_lease a t e f)"
| "exec_op (Update a u) f = map_sum id (map_prod RowOut id) (update_attempt a u f)"
| "exec_op (Expire t ex) f = map_sum id (map_prod RowsOut id) (expire t ex f)"

text \<open>The arguments the loader accepts when it reads them back: an operation id that is not blank, a status the store knows. The store itself
  checks neither, see \<open>attempts_blank_operation_poisons\<close>.\<close>

fun wf_op :: "attempt_op \<Rightarrow> bool" where
  "wf_op (Ensure r) \<longleftrightarrow> strip (dr_operation_id r) \<noteq> []"
| "wf_op (Update a u) \<longleftrightarrow> au_status u \<in> set attempt_statuses"
| "wf_op _ \<longleftrightarrow> True"

text \<open>How each rewriting operation may move the status of row \<open>b\<close> from \<open>s\<close> to \<open>s'\<close>.\<close>

fun moves :: "attempt_op \<Rightarrow> string \<Rightarrow> string \<Rightarrow> string \<Rightarrow> bool" where
  "moves (Claim a t) b s s' = (if b = a then s = ''prepared'' \<and> s' = ''delivering'' else s' = s)"
| "moves (MarkSent a t) b s s' = (if b = a then s \<in> {''delivering'', ''sent''} \<and> s' = ''sent'' else s' = s)"
| "moves (Renew a t e) b s s' = (s' = s)"
| "moves (Update a u) b s s' = (if b = a then s' = au_status u else s' = s)"
| "moves (Expire t ex) b s s' = (s' = s \<or> s' = ''expired'')"
| "moves (Ensure r) b s s' = False"

lemma map_sum_map_prod_Inr:
  "map_sum id (map_prod h id) x = Inr (out, f') \<longleftrightarrow> (\<exists>r. x = Inr (r, f') \<and> out = h r)"
  by (cases x) auto

text \<open>Every operation leaves the file alone, rewrites rows along \<open>moves\<close>, or adds one attempt.\<close>

lemma exec_op_cases:
  assumes run: "exec_op x f = Inr (out, f')" and ld: "load_unlocked f = Inr d"
    and inv: "store_inv d" and wf: "wf_op x"
  obtains (same) "f' = f"
  | (moved) d' where "f' = save_unlocked d'" and "rewritten (moves x) d d'"
  | (created) r run task disp ver res d' where "x = Ensure r"
      and "check_dispatch r = Inr (run, task, disp, ver)"
      and "ensure_body r run task disp ver d = Inr (res, Some d')" and "f' = save_unlocked d'"
proof (cases x)
  case (Ensure r)
  obtain run task disp ver where chk: "check_dispatch r = Inr (run, task, disp, ver)"
    using run Ensure by (cases "check_dispatch r") (auto simp: ensure_for_dispatch_def)
  with run Ensure ld same created show ?thesis
    by (auto simp: ensure_for_dispatch_def map_sum_map_prod_Inr locked_rmw_Inr)
next
  case (Claim a t)
  have m: "moves (Claim a t) = (\<lambda>b s s'. if b = a then s = ''prepared'' \<and> s' = ''delivering'' else s' = s)"
    by (auto simp: fun_eq_iff)
  from run Claim ld same moved claim_rewritten [OF inv, of a t] show ?thesis
    by (auto simp: claim_delivery_def map_sum_map_prod_Inr locked_rmw_Inr m)
next
  case (MarkSent a t)
  have m: "moves (MarkSent a t) = (\<lambda>b s s'. if b = a then s \<in> {''delivering'', ''sent''} \<and> s' = ''sent'' else s' = s)"
    by (auto simp: fun_eq_iff)
  from run MarkSent ld same moved sent_rewritten [OF inv, of a t] show ?thesis
    by (auto simp: mark_sent_def map_sum_map_prod_Inr locked_rmw_Inr m)
next
  case (Renew a t e)
  have m: "moves (Renew a t e) = (\<lambda>b s s'. s' = s)"
    by (auto simp: fun_eq_iff)
  from run Renew ld same moved renew_rewritten [OF inv, of a t e] show ?thesis
    by (auto simp: renew_lease_def map_sum_map_prod_Inr locked_rmw_Inr m)
next
  case (Update a u)
  have m: "moves (Update a u) = (\<lambda>b s s'. if b = a then s' = au_status u else s' = s)"
    by (auto simp: fun_eq_iff)
  from run Update wf ld same moved update_rewritten [OF inv, of u a] show ?thesis
    by (auto simp: update_attempt_def map_sum_map_prod_Inr locked_rmw_Inr m)
next
  case (Expire t ex)
  have m: "moves (Expire t ex) = (\<lambda>b s s'. s' = s \<or> s' = ''expired'')"
    by (auto simp: fun_eq_iff)
  from run Expire ld same moved expire_rewritten [OF inv, of t ex] show ?thesis
    by (auto simp: expire_def map_sum_map_prod_Inr locked_rmw_Inr m)
qed

text \<open>A predicate on the tables is kept by a run if rewriting and creating keep it.\<close>

lemma exec_op_holds:
  assumes "attempt_file.holds P f" and "exec_op x f = Inr (out, f')" and "wf_op x"
    and moved: "\<And>d d'. store_inv d \<Longrightarrow> P (store_view d) \<Longrightarrow> rewritten (moves x) d d' \<Longrightarrow> P (store_view d')"
    and created: "\<And>r run task disp ver res d d'. x = Ensure r \<Longrightarrow> store_inv d \<Longrightarrow> P (store_view d)
        \<Longrightarrow> check_dispatch r = Inr (run, task, disp, ver)
        \<Longrightarrow> ensure_body r run task disp ver d = Inr (res, Some d') \<Longrightarrow> P (store_view d')"
  shows "attempt_file.holds P f'"
proof -
  from assms(1) obtain d where d: "load_unlocked f = Inr d" "store_inv d" "P (store_view d)"
    by (auto simp: attempt_file.holds_def)
  have saved: "attempt_file.holds P (save_unlocked d')" if "store_inv d'" "P (store_view d')" for d'
    using attempt_file.load_save [OF that(1)] that(2) by (auto simp: attempt_file.holds_def)
  from assms(2) d(1,2) assms(3) show ?thesis
  proof (cases rule: exec_op_cases)
    case same
    with assms(1) show ?thesis by simp
  next
    case (moved d')
    with d saved show ?thesis by (auto intro: assms(4) rewritten_inv)
  next
    case (created r run task disp ver res d')
    have "store_inv d'" using d created assms(3) by (auto intro: ensure_inv)
    moreover have "P (store_view d')" using assms(5) [OF _ d(2,3)] created by blast
    ultimately show ?thesis using saved created by simp
  qed
qed

lemma holds_NotFound: "P (Map.empty, Map.empty) \<Longrightarrow> attempt_file.holds P NotFound"
  using store_inv_empty by (auto simp: attempt_file.holds_def load_NotFound store_view_def)

section \<open>Properties\<close>

definition lane_unique :: "attempt_view \<Rightarrow> bool" where
  "lane_unique v \<longleftrightarrow> (\<forall>a row. fst v a = Some (JObj row) \<longrightarrow> row_active row
     \<longrightarrow> snd v (row_scope row) = Some (JStr a))"

definition keeps_lanes :: "attempt_op \<Rightarrow> bool" where
  "keeps_lanes x \<longleftrightarrow> wf_op x \<and> (\<forall>a u. x = Update a u \<longrightarrow> au_status u \<notin> set active_statuses)"

lemma moves_active:
  "keeps_lanes x \<Longrightarrow> moves x b s s' \<Longrightarrow> s' \<in> set active_statuses \<Longrightarrow> s \<in> set active_statuses"
  by (cases x) (auto simp: keeps_lanes_def active_statuses_def split: if_splits)

lemma lane_unique_moved:
  assumes "store_inv d" and "lane_unique (store_view d)" and "keeps_lanes x" and rw: "rewritten (moves x) d d'"
  shows "lane_unique (store_view d')"
proof -
  have "map_of (current d') (row_scope row') = Some (JStr a)"
    if row': "map_of (attempts d') a = Some (JObj row')" and act: "row_active row'" for a row'
  proof -
    obtain row where row: "map_of (attempts d) a = Some (JObj row)" "same_identity row' row"
      "moves x a (row_status row) (row_status row')"
      using rewritten_Some [OF rw assms(1) row'] by blast
    with act assms(3) have "row_active row" by (auto simp: row_active_def intro: moves_active)
    with row assms(2) show ?thesis
      by (simp add: lane_unique_def store_view_def rewritten_current [OF rw] same_identity_scope)
  qed
  then show ?thesis by (simp add: lane_unique_def store_view_def)
qed

lemma superseded_inactive:
  assumes "store_inv d" and "map_of (attempts (after_supersede r a p d)) p = Some (JObj row)" and "p \<noteq> a"
  shows "\<not> row_active row"
proof -
  obtain old where old: "map_of (attempts d) p = Some (JObj old)"
    using rewritten_Some [OF supersede_rewritten [OF assms(1)] assms(1) assms(2)] by blast
  with assms(2,3) show ?thesis
    by (auto simp: after_supersede_def supersedes_def put_row_def supersede_row_def row_active_def
        active_statuses_def row_status_def split: if_splits)
qed

lemma lane_unique_created:
  assumes inv: "store_inv d" and lane: "lane_unique (store_view d)"
    and chk: "check_dispatch r = Inr (run, task, disp, ver)"
    and body: "ensure_body r run task disp ver d = Inr (res, Some d')"
  shows "lane_unique (store_view d')"
proof (rule ensure_created [OF inv chk body refl refl])
  let ?a = "task_attempt_id run task disp"
  let ?scope = "scope_key run task (attempt_key run task (dr_operation_id r)
      (str_or (dr_role r) (dr_instance_id r)) ver)"
  let ?p = "sget (current d) ?scope"
  let ?d1 = "after_supersede r ?a ?p d"
  fix series ordinal row
  assume none: "map_of (attempts d) ?a = None" and sc: "row_scope row = ?scope"
    and d': "d' = add_row ?a row ?d1"
  note rw = supersede_rewritten [OF inv, of r ?a ?p]
  have "map_of (current d') (row_scope row') = Some (JStr b)"
    if row': "map_of (attempts d') b = Some (JObj row')" and act: "row_active row'" for b row'
  proof (cases "b = ?a")
    case True
    with row' show ?thesis by (simp add: d' add_row_def)
  next
    case False
    with row' have r1: "map_of (attempts ?d1) b = Some (JObj row')" by (simp add: d' add_row_def)
    then obtain old where old: "map_of (attempts d) b = Some (JObj old)" "same_identity row' old"
      "row_status row' = row_status old \<or> row_status row' = ''superseded''"
      using rewritten_Some [OF rw inv] by blast
    with act have "row_active old" by (auto simp: row_active_def active_statuses_def)
    with lane old have cur: "map_of (current d) (row_scope row') = Some (JStr b)"
      by (simp add: lane_unique_def store_view_def same_identity_scope)
    have "row_scope row' \<noteq> ?scope"
    proof
      assume "row_scope row' = ?scope"
      with cur have "?p = b" by (simp add: sget_def dict_get_def)
      with superseded_inactive [OF inv, of r ?a b row'] r1 False act show False by simp
    qed
    with cur rewritten_current [OF rw] show ?thesis by (simp add: d' add_row_def sc)
  qed
  then show ?thesis by (simp add: lane_unique_def store_view_def)
qed

lemma run_lane_unique:
  assumes "\<forall>x \<in> set ops. keeps_lanes x"
  shows "attempt_file.holds lane_unique (snd (run_steps exec_op ops NotFound))"
proof (rule attempt_file.run_holds)
  show "attempt_file.holds lane_unique NotFound" by (rule holds_NotFound) (simp add: lane_unique_def)
next
  fix x f out f'
  assume x: "x \<in> set ops" "attempt_file.holds lane_unique f" "exec_op x f = Inr (out, f')"
  with assms have "keeps_lanes x" by blast
  with x show "attempt_file.holds lane_unique f'"
    by (auto elim!: exec_op_holds intro: lane_unique_moved lane_unique_created simp: keeps_lanes_def)
qed

lemma inj_lanes:
  assumes "store_inv d" and "lane_unique (store_view d)"
  shows "distinct (map row_scope (filter row_active (map as_dict (filter is_dict (map snd (attempts d))))))"
proof -
  let ?Q = "\<lambda>p. is_dict (snd p) \<and> row_active (as_dict (snd p))"
  have lane: "map_of (current d) (row_scope (as_dict (snd p))) = Some (JStr (fst p))"
    if "p \<in> set (filter ?Q (attempts d))" for p
  proof -
    from that obtain row where p: "snd p = JObj row" "row_active row" "p \<in> set (attempts d)"
      by (auto simp: is_dict_iff)
    then have "map_of (attempts d) (fst p) = Some (JObj row)"
      using assms(1) by (cases p) (auto simp: store_inv_def)
    with p assms(2) show ?thesis by (simp add: lane_unique_def store_view_def)
  qed
  have "inj_on (\<lambda>p. row_scope (as_dict (snd p))) (set (filter ?Q (attempts d)))"
  proof (rule inj_onI)
    fix p q assume pq: "p \<in> set (filter ?Q (attempts d))" "q \<in> set (filter ?Q (attempts d))"
      "row_scope (as_dict (snd p)) = row_scope (as_dict (snd q))"
    with lane [OF pq(1)] lane [OF pq(2)] have "fst p = fst q" by simp
    moreover from pq assms(1) have "map_of (attempts d) (fst p) = Some (snd p)"
      "map_of (attempts d) (fst q) = Some (snd q)" by (simp_all add: store_inv_def)
    ultimately show "p = q" by (simp add: prod_eq_iff)
  qed
  moreover have "distinct (filter ?Q (attempts d))"
    using assms(1) by (auto simp: store_inv_def distinct_map)
  moreover have "map row_scope (filter row_active (map as_dict (filter is_dict (map snd xs)))) =
      map (\<lambda>p. row_scope (as_dict (snd p))) (filter ?Q xs)" for xs
    by (induction xs) auto
  ultimately show ?thesis unfolding distinct_map [symmetric] by (metis (mono_tags, lifting) distinct_map)
qed

text \<open>The conditions on the arguments, written out.\<close>

definition names_operations :: "attempt_op list \<Rightarrow> bool" where
  "names_operations ops \<longleftrightarrow> (\<forall>r. Ensure r \<in> set ops \<longrightarrow> strip (dr_operation_id r) \<noteq> [])"

definition updates_to :: "string list \<Rightarrow> attempt_op list \<Rightarrow> bool" where
  "updates_to statuses ops \<longleftrightarrow> (\<forall>a u. Update a u \<in> set ops \<longrightarrow> au_status u \<in> set statuses)"

lemma ops_wf: "names_operations ops \<Longrightarrow> updates_to attempt_statuses ops \<Longrightarrow> x \<in> set ops \<Longrightarrow> wf_op x"
  by (cases x) (auto simp: names_operations_def updates_to_def)

text \<open>C3: at most one active attempt per lane. Take any sequence of store operations on a fresh store in which every dispatch
  names its operation (an operation id that is not blank) and every update sets a status that the store knows and that is not an active one. Then the file loads, and
  among the rows on file no two active ones (prepared, delivering or sent) belong to the same run/task/operation lane. The
  condition on the operation id is needed: the store saves a blank one and then cannot load its file, see
  \<open>attempts_blank_operation_poisons\<close>.\<close>

theorem attempts_one_active_per_lane:
  assumes "names_operations ops" and "updates_to (filter (\<lambda>st. st \<notin> set active_statuses) attempt_statuses) ops"
  shows "\<exists>rows. attempt_rows (snd (run_steps exec_op ops NotFound)) = Inr rows
    \<and> distinct (map row_scope (filter row_active rows))"
proof -
  have "updates_to attempt_statuses ops" using assms(2) by (auto simp: updates_to_def)
  then have "\<forall>x \<in> set ops. keeps_lanes x"
    using ops_wf [OF assms(1)] assms(2) by (auto simp: keeps_lanes_def updates_to_def)
  from run_lane_unique [OF this]
  obtain d where "load_unlocked (snd (run_steps exec_op ops NotFound)) = Inr d" "store_inv d" "lane_unique (store_view d)"
    by (auto simp: attempt_file.holds_def)
  with inj_lanes [of d] show ?thesis by (simp add: attempt_rows_def)
qed

definition demo_request :: dispatch_request where
  "demo_request = \<lparr>dr_run_id = ''run-1'', dr_task_id = '' T1 '', dr_dispatch_id = ''d1'', dr_role = ''dev'',
     dr_instance_id = ''dev-1'', dr_operation_id = ''op'', dr_briefing_ref = '''', dr_created_at = ''t0'',
     dr_lease_expires_at = ''t9'', dr_max_attempts = 2, dr_parent_task_id = '''',
     dr_identity_version = ''role-v1'', dr_placement_epoch = 0\<rparr>"

definition demo_update :: attempt_update where
  "demo_update = \<lparr>au_status = ''failed'', au_updated_at = ''t2'', au_terminal_event_id = ''e'',
     au_failure_reason = ''x'', au_failure_class = '''', au_retryable = Some True, au_recovery_owner = ''''\<rparr>"

lemma demo_checked: "check_dispatch demo_request = Inr (''run-1'', ''T1'', ''d1'', ''role-v1'')"
  by (simp add: check_dispatch_def demo_request_def strip_def lstrip_def is_space_def identity_versions_def
      IDENTITY_ROLE_V1_def IDENTITY_OPERATION_V2_def str_or_def)

lemma demo_operation: "strip (dr_operation_id demo_request) \<noteq> []"
  by (simp add: demo_request_def strip_Cons_nonspace is_space_def)

theorem attempts_one_active_per_lane_witness:
  "\<exists>rows. attempt_rows (snd (run_steps exec_op [Ensure demo_request, Claim (task_attempt_id ''run-1'' ''T1'' ''d1'') ''t1'',
      Update (task_attempt_id ''run-1'' ''T1'' ''d1'') demo_update, Ensure (demo_request\<lparr>dr_dispatch_id := ''d2''\<rparr>)] NotFound)) = Inr rows
    \<and> distinct (map row_scope (filter row_active rows))"
  by (rule attempts_one_active_per_lane)
    (simp_all add: names_operations_def updates_to_def demo_request_def strip_Cons_nonspace is_space_def demo_update_def
      attempt_statuses_def active_statuses_def)

text \<open>The store never writes a file it cannot read back. After any sequence of operations whose
  arguments name an operation and a known status, the file loads without an error.\<close>

lemma attempts_always_loadable:
  assumes "\<forall>x \<in> set ops. wf_op x"
  shows "\<exists>d. load_unlocked (snd (run_steps exec_op ops NotFound)) = Inr d \<and> store_inv d"
proof -
  have "attempt_file.holds (\<lambda>v. True) (snd (run_steps exec_op ops NotFound))"
  proof (rule attempt_file.run_holds)
    show "attempt_file.holds (\<lambda>v. True) NotFound" by (rule holds_NotFound) simp
  next
    fix x f out f'
    assume "x \<in> set ops" "attempt_file.holds (\<lambda>v. True) f" "exec_op x f = Inr (out, f')"
    with assms show "attempt_file.holds (\<lambda>v. True) f'" by (auto elim!: exec_op_holds)
  qed
  then show ?thesis by (auto simp: attempt_file.holds_def)
qed

text \<open>The delivery claims a trace records as won for one attempt.\<close>

fun wins :: "string \<Rightarrow> attempt_op \<times> (attempt_error + attempt_out) \<Rightarrow> bool" where
  "wins a (Claim b t, Inr (ClaimOut row True)) \<longleftrightarrow> b = a"
| "wins a _ \<longleftrightarrow> False"

definition claimed :: "string \<Rightarrow> attempt_view \<Rightarrow> bool" where
  "claimed a v \<longleftrightarrow> (\<exists>row. fst v a = Some (JObj row) \<and> row_status row \<noteq> ''prepared'')"

text \<open>The operation puts the attempt back to prepared.\<close>

fun resets :: "string \<Rightarrow> attempt_op \<Rightarrow> bool" where
  "resets a (Update b u) \<longleftrightarrow> b = a \<and> au_status u = ''prepared''"
| "resets a _ \<longleftrightarrow> False"

lemma moves_prepared: "\<not> resets a x \<Longrightarrow> moves x a s s' \<Longrightarrow> s' = ''prepared'' \<Longrightarrow> s = ''prepared''"
  by (cases x) (auto split: if_splits)

lemma rewritten_fwd:
  assumes "rewritten P d d'" and "store_inv d" and "map_of (attempts d) a = Some (JObj row)"
  obtains row' where "map_of (attempts d') a = Some (JObj row')" and "P a (row_status row) (row_status row')"
    and "same_identity row' row"
  using assms by (auto simp: rewritten_def store_view_def rewrite_rows_def safe_rewrite_def)

lemma claimed_step:
  assumes "attempt_file.holds (claimed a) f" and "exec_op x f = Inr (out, f')" and wf: "wf_op x" and x: "\<not> resets a x"
  shows "attempt_file.holds (claimed a) f'"
  using assms(1,2)
proof (rule exec_op_holds)
  show "wf_op x" by (rule wf)
next
  fix d d'
  assume d: "store_inv d" "claimed a (store_view d)" "rewritten (moves x) d d'"
  then obtain row where row: "map_of (attempts d) a = Some (JObj row)" "row_status row \<noteq> ''prepared''"
    by (auto simp: claimed_def store_view_def simp del: map_of_eq_Some_iff)
  then obtain row' where "map_of (attempts d') a = Some (JObj row')"
    "moves x a (row_status row) (row_status row')"
    using rewritten_fwd [OF d(3,1)] by blast
  with row moves_prepared [OF x] show "claimed a (store_view d')"
    by (auto simp: claimed_def store_view_def simp del: map_of_eq_Some_iff)
next
  fix r run task disp ver res d d'
  assume d: "store_inv d" "claimed a (store_view d)" "check_dispatch r = Inr (run, task, disp, ver)"
    "ensure_body r run task disp ver d = Inr (res, Some d')"
  then obtain row where row: "map_of (attempts d) a = Some (JObj row)" "row_status row \<noteq> ''prepared''"
    by (auto simp: claimed_def store_view_def simp del: map_of_eq_Some_iff)
  show "claimed a (store_view d')"
  proof (rule ensure_created [OF d(1,3,4) refl refl])
    fix series ordinal nrow
    let ?d1 = "after_supersede r (task_attempt_id run task disp) (sget (current d) (scope_key run task
      (attempt_key run task (dr_operation_id r) (str_or (dr_role r) (dr_instance_id r)) ver))) d"
    assume none: "map_of (attempts d) (task_attempt_id run task disp) = None"
      and d': "d' = add_row (task_attempt_id run task disp) nrow ?d1"
    obtain row' where "map_of (attempts ?d1) a = Some (JObj row')"
      "row_status row' = row_status row \<or> row_status row' = ''superseded''"
      using rewritten_fwd [OF supersede_rewritten [OF d(1)] d(1) row(1)] by blast
    with row none show ?thesis
      by (auto simp: claimed_def store_view_def d' add_row_def simp del: map_of_eq_Some_iff)
  qed
qed

lemma claim_won:
  assumes "attempt_file.holds (\<lambda>v. True) f" and "claim_delivery a t f = Inr ((row, True), f')"
  shows "attempt_file.holds (claimed a) f'" and "\<not> attempt_file.holds (claimed a) f"
proof -
  from assms obtain d where d: "load_unlocked f = Inr d" "store_inv d"
    by (auto simp: attempt_file.holds_def)
  with assms(2) obtain old where old: "map_of (attempts d) a = Some (JObj old)"
    "dict_get old ''status'' = JStr ''prepared''" "f' = save_unlocked (put_row d a (claim_row t old))"
    "claim_body a t d = Inr ((row, True), Some (put_row d a (claim_row t old)))"
    by (auto simp: claim_delivery_def locked_rmw_Inr claim_body_def
        split: option.splits json.splits if_splits)
  have "row_status old = ''prepared''" using old(2) by (simp add: row_status_def sget_def)
  with d old(1) show "\<not> attempt_file.holds (claimed a) f"
    by (auto simp: attempt_file.holds_def claimed_def store_view_def simp del: map_of_eq_Some_iff)
  have "store_inv (put_row d a (claim_row t old))"
    using rewritten_inv [OF d(2) claim_rewritten [OF d(2) old(4)]] .
  moreover have "claimed a (store_view (put_row d a (claim_row t old)))"
    by (simp add: claimed_def store_view_def put_row_def rewritten_rows)
  ultimately show "attempt_file.holds (claimed a) f'"
    using attempt_file.load_save by (fastforce simp: attempt_file.holds_def old(3))
qed

lemma holds_any: "attempt_file.holds P f \<Longrightarrow> attempt_file.holds (\<lambda>v. True) f"
  by (auto elim: attempt_file.holds_weaken)

lemma any_step:
  assumes "attempt_file.holds (\<lambda>v. True) f" and "exec_op x f = Inr (out, f')" and "wf_op x"
  shows "attempt_file.holds (\<lambda>v. True) f'"
  using assms by (auto elim!: exec_op_holds)

lemma wins_iff:
  "wins a (x, out) \<longleftrightarrow> (\<exists>t row. x = Claim a t \<and> out = Inr (ClaimOut row True))"
  by (induction a "(x, out)" rule: wins.induct) auto

lemma wins_claimed:
  assumes "attempt_file.holds (\<lambda>v. True) f" and "exec_op x f = Inr (out, f')" and "wins a (x, Inr out)"
  shows "attempt_file.holds (claimed a) f'" and "\<not> attempt_file.holds (claimed a) f"
proof -
  from assms(3) obtain t row where "x = Claim a t" "out = ClaimOut row True" by (auto simp: wins_iff)
  with assms(2) have "claim_delivery a t f = Inr ((row, True), f')" by (auto simp: map_sum_map_prod_Inr)
  with assms(1) show "attempt_file.holds (claimed a) f'" and "\<not> attempt_file.holds (claimed a) f"
    by (auto dest: claim_won)
qed

lemma wins_bound:
  assumes "\<forall>x \<in> set ops. wf_op x" and "attempt_file.holds (\<lambda>v. True) f"
  shows "length (filter (wins a) (fst (run_steps exec_op ops f)))
    \<le> (if attempt_file.holds (claimed a) f then 0 else 1) + length (filter (resets a) ops)"
  using assms
proof (induction ops arbitrary: f)
  case Nil
  then show ?case by simp
next
  case (Cons x ops)
  have x: "wf_op x" using Cons.prems by simp
  show ?case
  proof (cases "exec_op x f")
    case (Inl e)
    then have "fst (run_steps exec_op (x # ops) f) = (x, Inl e) # fst (run_steps exec_op ops f)"
      by (simp add: attempt_step_def split: prod.splits)
    moreover have "\<not> wins a (x, Inl e)" by (simp add: wins_iff)
    moreover have "length (filter (wins a) (fst (run_steps exec_op ops f)))
        \<le> (if attempt_file.holds (claimed a) f then 0 else 1) + length (filter (resets a) ops)" using Cons by simp
    ultimately show ?thesis by (auto simp del: run_steps.simps split: if_splits)
  next
    case (Inr p)
    then obtain out f' where r: "exec_op x f = Inr (out, f')" by (cases p) auto
    with Cons.prems x have f': "attempt_file.holds (\<lambda>v. True) f'" by (blast intro: any_step)
    have IH: "length (filter (wins a) (fst (run_steps exec_op ops f')))
        \<le> (if attempt_file.holds (claimed a) f' then 0 else 1) + length (filter (resets a) ops)"
      using Cons f' by simp
    have eq: "fst (run_steps exec_op (x # ops) f) = (x, Inr out) # fst (run_steps exec_op ops f')"
      by (simp add: attempt_step_def r split: prod.splits)
    show ?thesis
    proof (cases "wins a (x, Inr out)")
      case True
      with wins_claimed [OF Cons.prems(2) r] IH show ?thesis by (simp add: eq del: run_steps.simps)
    next
      case False
      show ?thesis
      proof (cases "resets a x")
        case True
        with False IH show ?thesis by (simp add: eq del: run_steps.simps split: if_splits)
      next
        case kept: False
        with False IH claimed_step [OF _ r x] show ?thesis by (auto simp: eq simp del: run_steps.simps split: if_splits)
      qed
    qed
  qed
qed

text \<open>C4: a delivery is claimed at most once. Take any sequence of store operations on a fresh store in which every dispatch names its
  operation and every update sets a status that the store knows. Then the calls of \<open>claim_delivery\<close> for an attempt that return \<open>True\<close>
  are at most one more than the updates that put this very attempt back to prepared: without such an update two dispatchers can
  never both believe they own the delivery.\<close>

theorem attempts_delivery_claimed_once:
  assumes "names_operations ops" and "updates_to attempt_statuses ops"
  shows "length (filter (wins a) (fst (run_steps exec_op ops NotFound))) \<le> 1 + length (filter (resets a) ops)"
proof -
  have "attempt_file.holds (\<lambda>v. True) NotFound" by (rule holds_NotFound) simp
  from wins_bound [OF _ this, of ops a] ops_wf [OF assms] show ?thesis by (auto split: if_splits)
qed

text \<open>A fresh attempt is won by the first claim and by no other.\<close>

abbreviation demo_attempt :: string where
  "demo_attempt \<equiv> task_attempt_id ''run-1'' ''T1'' ''d1''"

lemma demo_claimable: "\<exists>res f'. exec_op (Ensure demo_request) NotFound = Inr (res, f') \<and> (\<exists>row f''. claim_delivery demo_attempt t f' = Inr ((row, True), f''))"
proof -
  let ?empty = "\<lparr>revision = 0, attempts = [], current = []\<rparr>"
  have load: "load_unlocked NotFound = Inr ?empty" "store_inv ?empty" using load_NotFound store_inv_empty by simp_all
  obtain res d' where body: "ensure_body demo_request ''run-1'' ''T1'' ''d1'' ''role-v1'' ?empty = Inr (res, Some d')"
    by (simp add: ensure_body_def operation_rows_def next_series_ordinal_def supersedes_def Let_def demo_request_def)
  from ensure_inv [OF load(2) demo_checked demo_operation body] have inv: "store_inv d'" .
  obtain series ordinal where row: "map_of (attempts d') demo_attempt = Some (JObj (new_attempt_row demo_request demo_attempt ''run-1'' ''T1'' ''d1'' ''role-v1'' series ordinal))"
    by (rule ensure_created [OF load(2) demo_checked body refl refl]) (simp add: add_row_def)
  have "map_of (sort_dict (attempts d')) demo_attempt = map_of (attempts d') demo_attempt" using inv by (simp add: store_inv_def)
  then have "\<exists>row f''. claim_delivery demo_attempt t (save_unlocked d') = Inr ((row, True), f'')"
    using row load_saved [OF inv] by (simp add: claim_delivery_def locked_rmw_def claim_body_def new_attempt_row_def)
  moreover have "ensure_for_dispatch demo_request NotFound = Inr (res, save_unlocked d')"
    using load(1) body by (simp add: ensure_for_dispatch_def demo_checked locked_rmw_def)
  ultimately show ?thesis by simp
qed

theorem attempts_delivery_claimed_once_witness:
  "length (filter (wins demo_attempt) (fst (run_steps exec_op [Ensure demo_request, Claim demo_attempt ''t1'',
      Claim demo_attempt ''t2'', Update demo_attempt demo_update] NotFound))) = 1"
proof -
  let ?ops = "[Ensure demo_request, Claim demo_attempt ''t1'', Claim demo_attempt ''t2'', Update demo_attempt demo_update]"
  let ?wins = "length (filter (wins demo_attempt) (fst (run_steps exec_op ?ops NotFound)))"
  obtain res f' row f'' where run: "exec_op (Ensure demo_request) NotFound = Inr (res, f')" "claim_delivery demo_attempt ''t1'' f' = Inr ((row, True), f'')"
    using demo_claimable by blast
  have "?wins \<le> 1 + length (filter (resets demo_attempt) ?ops)"
    by (rule attempts_delivery_claimed_once)
      (simp_all add: names_operations_def updates_to_def demo_operation demo_update_def attempt_statuses_def active_statuses_def)
  moreover have "0 < ?wins" using run by (simp add: attempt_step_def split: prod.splits)
  moreover have "length (filter (resets demo_attempt) ?ops) = 0" by (simp add: demo_update_def)
  ultimately show ?thesis by linarith
qed

text \<open>Dispatch is idempotent. Repeating \<open>ensure_for_dispatch\<close> for the same run, task and
  dispatch, whatever the other arguments, returns the attempt the first call returned, reports it as
  not created, and leaves the file unchanged.\<close>

lemma attempts_ensure_idempotent:
  assumes "load_unlocked f = Inr d" and "store_inv d" and "strip (dr_operation_id r) \<noteq> []"
    and "ensure_for_dispatch r f = Inr (res, f')"
    and "check_dispatch r = Inr (run, task, disp, ver)" and "check_dispatch r' = Inr (run, task, disp, ver')"
  shows "ensure_for_dispatch r' f' =
    Inr (\<lparr>er_attempt = er_attempt res, er_created = False, er_superseded_attempt_id = ''''\<rparr>, f')"
proof -
  let ?a = "task_attempt_id run task disp"
  have found: "ensure_for_dispatch r' g = Inr (\<lparr>er_attempt = row, er_created = False,
      er_superseded_attempt_id = ''''\<rparr>, g)"
    if "load_unlocked g = Inr e" "map_of (attempts e) ?a = Some (JObj row)" for g e row
    using that assms(6) by (simp add: ensure_for_dispatch_def locked_rmw_def ensure_body_def)
  from assms(1,4,5) consider "ensure_body r run task disp ver d = Inr (res, None)" "f' = f"
    | d' where "ensure_body r run task disp ver d = Inr (res, Some d')" "f' = save_unlocked d'"
    by (auto simp: ensure_for_dispatch_def locked_rmw_Inr)
  then show ?thesis
  proof cases
    case 1
    then have "map_of (attempts d) ?a = Some (JObj (er_attempt res))"
      by (auto simp: ensure_body_def Let_def split: option.splits json.splits if_splits prod.splits)
    with 1 assms(1) found show ?thesis by simp
  next
    case (2 d')
    have "map_of (attempts d') ?a = Some (JObj (er_attempt res))"
      by (rule ensure_created [OF assms(2,5) 2(1) refl refl]) (simp add: add_row_def)
    moreover from ensure_inv [OF assms(2,5,3) 2(1)] have "store_inv d'" .
    ultimately show ?thesis using load_saved [of d'] 2(2)
      by (intro found) (auto simp: store_inv_def)
  qed
qed

lemma demo_created:
  "\<exists>res f'. ensure_for_dispatch demo_request NotFound = Inr (res, f') \<and> er_created res"
  unfolding ensure_for_dispatch_def demo_checked
  by (simp add: locked_rmw_def load_NotFound ensure_body_def
      operation_rows_def next_series_ordinal_def supersedes_def Let_def demo_request_def)

text \<open>The attempt budget as an invariant of the rows.\<close>

definition ordinals_within :: "int \<Rightarrow> attempt_view \<Rightarrow> bool" where
  "ordinals_within n v \<longleftrightarrow> (\<forall>a row. fst v a = Some (JObj row) \<longrightarrow> row_int row ''ordinal'' 0 \<le> n)"

definition budgeted :: "int \<Rightarrow> attempt_op \<Rightarrow> bool" where
  "budgeted n x \<longleftrightarrow> wf_op x \<and> (\<forall>r. x = Ensure r \<longrightarrow> 0 < dr_max_attempts r \<and> dr_max_attempts r \<le> n)"

lemma same_identity_ordinal: "same_identity row' row \<Longrightarrow> row_int row' ''ordinal'' 0 = row_int row ''ordinal'' 0"
  by (simp add: same_identity_def row_int_def iget_or_def identity_keys_def)

lemma ordinals_rewritten:
  assumes "store_inv d" and "ordinals_within n (store_view d)" and rw: "rewritten P d d'"
  shows "ordinals_within n (store_view d')"
proof -
  have "row_int row' ''ordinal'' 0 \<le> n" if row': "map_of (attempts d') a = Some (JObj row')" for a row'
  proof -
    obtain row where "map_of (attempts d) a = Some (JObj row)" "same_identity row' row"
      using rewritten_Some [OF rw assms(1) row'] by blast
    with assms(2) show ?thesis
      by (auto simp: same_identity_ordinal ordinals_within_def store_view_def simp del: map_of_eq_Some_iff)
  qed
  then show ?thesis by (simp add: ordinals_within_def store_view_def)
qed

lemma ordinals_created:
  assumes inv: "store_inv d" and ow: "ordinals_within n (store_view d)"
    and chk: "check_dispatch r = Inr (run, task, disp, ver)"
    and body: "ensure_body r run task disp ver d = Inr (res, Some d')"
    and max: "0 < dr_max_attempts r" "dr_max_attempts r \<le> n"
  shows "ordinals_within n (store_view d')"
proof (rule ensure_created [OF inv chk body refl refl])
  let ?a = "task_attempt_id run task disp"
  let ?d1 = "after_supersede r ?a (sget (current d) (scope_key run task
      (attempt_key run task (dr_operation_id r) (str_or (dr_role r) (dr_instance_id r)) ver))) d"
  fix series ordinal row
  assume o: "dr_max_attempts r \<le> 0 \<or> ordinal \<le> dr_max_attempts r"
    and row: "row = new_attempt_row r ?a run task disp ver series ordinal"
    and d': "d' = add_row ?a row ?d1"
  have "row_int row ''ordinal'' 0 = ordinal"
    by (simp add: row new_attempt_row_def row_int_def iget_or_def py_or_def)
  moreover have "ordinals_within n (store_view ?d1)"
    by (rule ordinals_rewritten [OF inv ow supersede_rewritten [OF inv]])
  ultimately show ?thesis
    using o max by (auto simp: ordinals_within_def store_view_def d' add_row_def simp del: map_of_eq_Some_iff)
qed

text \<open>C32: the attempt budget is never exceeded. If every dispatch of a sequence of store operations carries a positive budget of at most \<open>n\<close> and
  names its operation (an operation id that is not blank), and every update sets a status that the store knows, then the file loads and no attempt on
  it has an ordinal above \<open>n\<close>.\<close>

theorem attempts_within_budget:
  assumes "names_operations ops" and "updates_to attempt_statuses ops"
    and "\<forall>r. Ensure r \<in> set ops \<longrightarrow> 0 < dr_max_attempts r \<and> dr_max_attempts r \<le> n"
  shows "\<exists>rows. attempt_rows (snd (run_steps exec_op ops NotFound)) = Inr rows
    \<and> list_all (\<lambda>row. row_int row ''ordinal'' 0 \<le> n) rows"
proof -
  have "attempt_file.holds (ordinals_within n) (snd (run_steps exec_op ops NotFound))"
  proof (rule attempt_file.run_holds)
    show "attempt_file.holds (ordinals_within n) NotFound"
      by (rule holds_NotFound) (simp add: ordinals_within_def)
  next
    fix x f out f'
    assume x: "x \<in> set ops" "attempt_file.holds (ordinals_within n) f" "exec_op x f = Inr (out, f')"
    with assms(3) ops_wf [OF assms(1,2)] have "budgeted n x" by (auto simp: budgeted_def)
    with x show "attempt_file.holds (ordinals_within n) f'"
      by (auto elim!: exec_op_holds intro: ordinals_rewritten ordinals_created simp: budgeted_def)
  qed
  then obtain d where d: "load_unlocked (snd (run_steps exec_op ops NotFound)) = Inr d" "store_inv d"
    "ordinals_within n (store_view d)" by (auto simp: attempt_file.holds_def)
  have "row_int row ''ordinal'' 0 \<le> n" if "(a, JObj row) \<in> set (attempts d)" for a row
    using that d(2,3) by (auto simp: ordinals_within_def store_view_def store_inv_def)
  with d(1) show ?thesis by (auto simp: attempt_rows_def list_all_iff is_dict_iff)
qed

theorem attempts_within_budget_witness:
  "\<exists>rows. attempt_rows (snd (run_steps exec_op [Ensure demo_request,
      Ensure (demo_request\<lparr>dr_dispatch_id := ''d2''\<rparr>)] NotFound)) = Inr rows
    \<and> list_all (\<lambda>row. row_int row ''ordinal'' 0 \<le> 2) rows"
  by (rule attempts_within_budget)
    (auto simp: names_operations_def updates_to_def demo_request_def strip_Cons_nonspace is_space_def)

text \<open>Lease expiry is complete and touches nothing else. After \<open>expire\<close> the file loads, no active
  attempt holds a lease the test calls expired, and every attempt that was not active or not expired
  keeps its row.\<close>

lemma attempts_expire_complete:
  assumes "load_unlocked f = Inr d" and "store_inv d" and "expire now ex f = Inr (rows, f')"
  shows "\<exists>d'. load_unlocked f' = Inr d' \<and> store_inv d' \<and>
    (\<forall>a. map_of (attempts d') a = (case map_of (attempts d) a of None \<Rightarrow> None
       | Some v \<Rightarrow> Some (if expires ex v then JObj (expired_row now (as_dict v)) else v))) \<and>
    (\<forall>a v. map_of (attempts d') a = Some v \<longrightarrow> \<not> expires ex v)"
proof -
  let ?h = "\<lambda>v. JObj (expired_row now (as_dict v))"
  let ?atts = "map (\<lambda>p. if expires ex (snd p) then (fst p, ?h (snd p)) else p) (attempts d)"
  have after: "\<not> expires ex (if expires ex v then ?h v else v)" for v
    by (cases v) (auto simp: expires_def expired_row_def active_statuses_def)
  have new: "map_of ?atts a = (case map_of (attempts d) a of None \<Rightarrow> None
      | Some v \<Rightarrow> Some (if expires ex v then ?h v else v))" for a
    by (rule map_of_map_snd)
  from assms(1,3) consider (none) "filter (\<lambda>p. expires ex (snd p)) (attempts d) = []" "f' = f"
    | (some) "expire_body now ex d = Inr (rows, Some (d\<lparr>attempts := ?atts\<rparr>))"
        "f' = save_unlocked (d\<lparr>attempts := ?atts\<rparr>)"
    by (auto simp: expire_def locked_rmw_Inr expire_body_def Let_def split: if_splits)
  then show ?thesis
  proof cases
    case none
    then have "\<not> expires ex v" if "map_of (attempts d) a = Some v" for a v
      using that map_of_SomeD by (fastforce simp: filter_empty_conv)
    with none assms show ?thesis by (intro exI [of _ d]) (auto split: option.splits)
  next
    case some
    have inv: "store_inv (d\<lparr>attempts := ?atts\<rparr>)"
      using rewritten_inv [OF assms(2) expire_rewritten [OF assms(2) some(1)]] .
    then obtain d' where d': "load_unlocked f' = Inr d'" "store_inv d'" "map_of (attempts d') = map_of ?atts"
      using attempt_file.load_save [OF inv] some(2) by (auto simp: store_view_def)
    with new after show ?thesis
      by (intro exI [of _ d']) (auto split: option.splits simp del: map_of_eq_Some_iff)
  qed
qed

lemma expire_total: "load_unlocked f = Inr d \<Longrightarrow> \<exists>rows f'. expire t ex f = Inr (rows, f')"
  by (simp add: expire_def locked_rmw_def expire_body_def Let_def)

text \<open>A blank operation id poisons the store. \<open>ensure_for_dispatch\<close> accepts a request whose
  \<open>operation_id\<close> is empty, creates and saves its row, and from then on every load of the file raises
  \<open>TaskAttemptStoreError\<close>: the loader requires a non-blank \<open>operation_id\<close> of every row.\<close>

lemma attempts_blank_operation_poisons:
  assumes "check_dispatch r = Inr (run, task, disp, ver)" and "dr_operation_id r = []"
    and "dr_max_attempts r = 0"
  shows "\<exists>res f' msg. ensure_for_dispatch r NotFound = Inr (res, f') \<and> er_created res
    \<and> load_unlocked f' = Inl (TaskAttemptStoreError msg)"
proof -
  let ?a = "task_attempt_id run task disp"
  let ?row = "new_attempt_row r ?a run task disp ver 1 1"
  have "sget ?row ''operation_id'' = []" by (simp add: new_attempt_row_def assms(2))
  then have bad: "attempt_row_error ?a ?row \<noteq> []"
    unfolding attempt_row_error_Nil by (auto simp: required_row_keys_def)
  have s: "sort_dict [x] = [x]" for x :: "string \<times> json" by (simp add: sort_dict_def)
  show ?thesis
    using assms bad
    by (simp add: ensure_for_dispatch_def locked_rmw_def load_NotFound ensure_body_def operation_rows_def
        next_series_ordinal_def supersedes_def dict_set_def save_unlocked_def load_unlocked_def load_root_def
        iget_or_def py_or_def s STORE_SCHEMA_VERSION_def Let_def)
qed

end
