(* ===== verification/Py_Json.thy ===== *)
theory Py_Json
  imports Py_Base
begin

text \<open>
  \<open>json.dumps(v, ensure_ascii=False, separators=(isep, ksep), sort_keys=...)\<close> and \<open>json.loads\<close> on the
  values of the prelude. Text is UTF-8, so bytes outside ASCII are written as they are.

  The reader follows the standard library: strict about control characters in strings, surrogate
  pairs joined, the last of two equal keys wins. Numbers with a fraction or an exponent and the
  constants \<open>NaN\<close> and \<open>Infinity\<close> are outside the value model; the reader rejects them. Nesting is
  bounded by the length of the text, which is always enough.
\<close>

section \<open>Writing\<close>

definition json_escape :: "char \<Rightarrow> string" where
  "json_escape c =
     (let n = (of_char c :: nat) in
      if n = 34 then [CHR 92, CHR 34]
      else if n = 92 then [CHR 92, CHR 92]
      else if n = 8 then [CHR 92, CHR ''b'']
      else if n = 9 then [CHR 92, CHR ''t'']
      else if n = 10 then [CHR 92, CHR ''n'']
      else if n = 12 then [CHR 92, CHR ''f'']
      else if n = 13 then [CHR 92, CHR ''r'']
      else if n < 32 then [CHR 92, CHR ''u'', CHR ''0'', CHR ''0'', hex_char (n div 16), hex_char (n mod 16)]
      else [c])"

definition json_string :: "string \<Rightarrow> string" where
  "json_string s = CHR 34 # concat (map json_escape s) @ [CHR 34]"

fun json_dumps :: "string \<Rightarrow> string \<Rightarrow> bool \<Rightarrow> json \<Rightarrow> string" where
  "json_dumps isep ksep srt JNull = ''null''"
| "json_dumps isep ksep srt (JBool b) = (if b then ''true'' else ''false'')"
| "json_dumps isep ksep srt (JInt i) = show_int i"
| "json_dumps isep ksep srt (JStr s) = json_string s"
| "json_dumps isep ksep srt (JList xs) = ''['' @ join isep (map (json_dumps isep ksep srt) xs) @ '']''"
| "json_dumps isep ksep srt (JObj d) =
     ''{'' @ join isep (map snd ((if srt then sort_dict else id)
        (map (\<lambda>kv. (fst kv, json_string (fst kv) @ ksep @ json_dumps isep ksep srt (snd kv))) d))) @ ''}''"

text \<open>With \<open>ensure_ascii=True\<close> every character beyond printable ASCII is written as one or two
  \<open>\u\<close> escapes; the text is read as UTF-8.\<close>

definition json_u4 :: "nat \<Rightarrow> string" where
  "json_u4 n = [CHR 92, CHR ''u'', hex_char (n div 4096 mod 16), hex_char (n div 256 mod 16), hex_char (n div 16 mod 16), hex_char (n mod 16)]"

definition json_code_point :: "nat \<Rightarrow> string" where
  "json_code_point n =
     (if n < 65536 then json_u4 n else json_u4 (55296 + (n - 65536) div 1024) @ json_u4 (56320 + (n - 65536) mod 1024))"

abbreviation cont_bits :: "char \<Rightarrow> nat" where
  "cont_bits c \<equiv> of_char c mod 64"

fun ascii_escapes :: "string \<Rightarrow> string" where
  "ascii_escapes [] = []"
| "ascii_escapes (a # s) =
     (let n = (of_char a :: nat) in
      if n < 127 then json_escape a @ ascii_escapes s
      else if n = 127 then json_u4 127 @ ascii_escapes s
      else
        (case s of
           [] \<Rightarrow> []
         | b # t \<Rightarrow>
             if n < 224 then json_code_point (n mod 32 * 64 + cont_bits b) @ ascii_escapes t
             else
               (case t of
                  [] \<Rightarrow> []
                | c # u \<Rightarrow>
                    if n < 240 then json_code_point (n mod 16 * 4096 + cont_bits b * 64 + cont_bits c) @ ascii_escapes u
                    else
                      (case u of
                         [] \<Rightarrow> []
                       | d # v \<Rightarrow> json_code_point (n mod 8 * 262144 + cont_bits b * 4096 + cont_bits c * 64 + cont_bits d)
                           @ ascii_escapes v))))"

definition json_string_ascii :: "string \<Rightarrow> string" where
  "json_string_ascii s = CHR 34 # ascii_escapes s @ [CHR 34]"

fun json_dumps_ascii :: "string \<Rightarrow> string \<Rightarrow> bool \<Rightarrow> json \<Rightarrow> string" where
  "json_dumps_ascii isep ksep srt JNull = ''null''"
| "json_dumps_ascii isep ksep srt (JBool b) = (if b then ''true'' else ''false'')"
| "json_dumps_ascii isep ksep srt (JInt i) = show_int i"
| "json_dumps_ascii isep ksep srt (JStr s) = json_string_ascii s"
| "json_dumps_ascii isep ksep srt (JList xs) = ''['' @ join isep (map (json_dumps_ascii isep ksep srt) xs) @ '']''"
| "json_dumps_ascii isep ksep srt (JObj d) =
     ''{'' @ join isep (map snd ((if srt then sort_dict else id)
        (map (\<lambda>kv. (fst kv, json_string_ascii (fst kv) @ ksep @ json_dumps_ascii isep ksep srt (snd kv))) d))) @ ''}''"

text \<open>A dumped text never holds a raw control character, so it stays on one line.\<close>

definition printable :: "string \<Rightarrow> bool" where
  "printable s \<longleftrightarrow> list_all (\<lambda>c. 32 \<le> (of_char c :: nat)) s"

lemma printable_simps [simp]:
  "printable []" "printable (s @ t) \<longleftrightarrow> printable s \<and> printable t"
  "printable (c # s) \<longleftrightarrow> 32 \<le> (of_char c :: nat) \<and> printable s"
  by (auto simp: printable_def)

lemma printable_concat: "printable (concat ss) \<longleftrightarrow> (\<forall>s \<in> set ss. printable s)"
  by (induction ss) auto

lemma printable_join: "printable sep \<Longrightarrow> \<forall>s \<in> set ss. printable s \<Longrightarrow> printable (join sep ss)"
  by (induction sep ss rule: join.induct) auto

lemma of_char_of_small: "n < 256 \<Longrightarrow> of_char (char_of n :: char) = (n :: nat)"
  by (simp add: of_char_of)

lemma hex_char_printable [simp]: "n < 16 \<Longrightarrow> 32 \<le> (of_char (hex_char n) :: nat)"
  by (simp add: hex_char_def of_char_of_small)

lemma json_escape_printable: "printable (json_escape c)"
  by (auto simp: json_escape_def Let_def)

lemma json_string_printable [simp]: "printable (json_string s)"
  by (auto simp: json_string_def printable_concat json_escape_printable)

lemma show_nat_printable [simp]: "printable (show_nat n)"
  by (induction n rule: show_nat.induct) (subst show_nat.simps, auto simp: digit_char_def of_char_of_small)

lemma show_int_printable [simp]: "printable (show_int i)"
  by (simp add: show_int_def)

lemma json_dumps_printable:
  assumes "printable isep" and "printable ksep"
  shows "printable (json_dumps isep ksep srt v)"
proof (induction v)
  case (JObj d)
  then have "\<forall>s \<in> set (map snd ((if srt then sort_dict else id)
      (map (\<lambda>kv. (fst kv, json_string (fst kv) @ ksep @ json_dumps isep ksep srt (snd kv))) d))). printable s"
    using assms(2) by (cases srt) fastforce+
  then show ?case using assms(1) by (simp add: printable_join)
qed (use assms(1) in \<open>auto intro!: printable_join\<close>)

section \<open>Reading\<close>

definition is_ws :: "char \<Rightarrow> bool" where
  "is_ws c \<longleftrightarrow> c \<in> {CHR '' '', CHR 9, CHR 10, CHR 13}"

definition skip_ws :: "string \<Rightarrow> string" where
  "skip_ws s = dropWhile is_ws s"

text \<open>A string is read as bytes and \<open>\u\<close> code units, then encoded.\<close>

datatype json_unit = Byte char | Code nat

definition hex_val :: "char \<Rightarrow> nat option" where
  "hex_val c =
     (let n = (of_char c :: nat) in
      if 48 \<le> n \<and> n \<le> 57 then Some (n - 48)
      else if 97 \<le> n \<and> n \<le> 102 then Some (n - 87)
      else if 65 \<le> n \<and> n \<le> 70 then Some (n - 55)
      else None)"

definition hex4 :: "char \<Rightarrow> char \<Rightarrow> char \<Rightarrow> char \<Rightarrow> nat option" where
  "hex4 a b c d =
     (case (hex_val a, hex_val b, hex_val c, hex_val d) of
        (Some w, Some x, Some y, Some z) \<Rightarrow> Some (4096 * w + 256 * x + 16 * y + z)
      | _ \<Rightarrow> None)"

definition unescape :: "char \<Rightarrow> char option" where
  "unescape c =
     (if c = CHR 34 then Some (CHR 34)
      else if c = CHR 92 then Some (CHR 92)
      else if c = CHR ''/'' then Some (CHR ''/'')
      else if c = CHR ''b'' then Some (CHR 8)
      else if c = CHR ''f'' then Some (CHR 12)
      else if c = CHR ''n'' then Some (CHR 10)
      else if c = CHR ''r'' then Some (CHR 13)
      else if c = CHR ''t'' then Some (CHR 9)
      else None)"

function scan_units :: "string \<Rightarrow> (json_unit list \<times> string) option" where
  "scan_units [] = None"
| "scan_units (c # s) =
     (if c = CHR 34 then Some ([], s)
      else if c = CHR 92 then
        (case s of
           [] \<Rightarrow> None
         | e # t \<Rightarrow>
             if e = CHR ''u'' then
               (if length t < 4 then None
                else
                  (case hex4 (t ! 0) (t ! 1) (t ! 2) (t ! 3) of
                     None \<Rightarrow> None
                   | Some n \<Rightarrow> map_option (\<lambda>(us, r). (Code n # us, r)) (scan_units (drop 4 t))))
             else
               (case unescape e of
                  None \<Rightarrow> None
                | Some ch \<Rightarrow> map_option (\<lambda>(us, r). (Byte ch # us, r)) (scan_units t)))
      else if (of_char c :: nat) < 32 then None
      else map_option (\<lambda>(us, r). (Byte c # us, r)) (scan_units s))"
  by pat_completeness auto
termination
  by (relation "measure length") auto

definition utf8 :: "nat \<Rightarrow> string" where
  "utf8 n =
     (if n < 128 then [char_of n]
      else if n < 2048 then [char_of (192 + n div 64), char_of (128 + n mod 64)]
      else if n < 65536 then [char_of (224 + n div 4096), char_of (128 + n div 64 mod 64), char_of (128 + n mod 64)]
      else [char_of (240 + n div 262144), char_of (128 + n div 4096 mod 64), char_of (128 + n div 64 mod 64),
            char_of (128 + n mod 64)])"

fun units_text :: "json_unit list \<Rightarrow> string" where
  "units_text [] = []"
| "units_text (Byte c # us) = c # units_text us"
| "units_text (Code h # Code l # us) =
     (if 55296 \<le> h \<and> h \<le> 56319 \<and> 56320 \<le> l \<and> l \<le> 57343
      then utf8 (65536 + (h - 55296) * 1024 + (l - 56320)) @ units_text us
      else utf8 h @ units_text (Code l # us))"
| "units_text (Code h # us) = utf8 h @ units_text us"

definition read_string :: "string \<Rightarrow> (string \<times> string) option" where
  "read_string s = map_option (\<lambda>(us, r). (units_text us, r)) (scan_units s)"

definition digits_nat :: "string \<Rightarrow> nat" where
  "digits_nat ds = foldl (\<lambda>n c. 10 * n + digit_val c) 0 ds"

definition read_number :: "string \<Rightarrow> (json \<times> string) option" where
  "read_number s =
     (let (neg, t) = (case s of c # t \<Rightarrow> if c = CHR ''-'' then (True, t) else (False, s) | [] \<Rightarrow> (False, s));
          ds = takeWhile is_digit t; r = dropWhile is_digit t in
      if ds = [] \<or> (hd ds = CHR ''0'' \<and> length ds \<noteq> 1) \<or> (r \<noteq> [] \<and> hd r \<in> {CHR ''.'', CHR ''e'', CHR ''E''})
      then None
      else Some (JInt (if neg then - int (digits_nat ds) else int (digits_nat ds)), r))"

fun read_value :: "nat \<Rightarrow> string \<Rightarrow> (json \<times> string) option"
  and read_elems :: "nat \<Rightarrow> json list \<Rightarrow> string \<Rightarrow> (json \<times> string) option"
  and read_members :: "nat \<Rightarrow> pydict \<Rightarrow> string \<Rightarrow> (json \<times> string) option" where
  "read_value 0 s = None"
| "read_value (Suc n) s =
     (case s of
        [] \<Rightarrow> None
      | c # t \<Rightarrow>
          if c = CHR 34 then map_option (\<lambda>(x, r). (JStr x, r)) (read_string t)
          else if c = CHR ''{'' then
            (case skip_ws t of
               [] \<Rightarrow> None
             | d # r \<Rightarrow> if d = CHR ''}'' then Some (JObj [], r) else read_members n [] (d # r))
          else if c = CHR ''['' then
            (case skip_ws t of
               [] \<Rightarrow> None
             | d # r \<Rightarrow> if d = CHR '']'' then Some (JList [], r) else read_elems n [] (d # r))
          else if startswith s ''null'' then Some (JNull, drop 4 s)
          else if startswith s ''true'' then Some (JBool True, drop 4 s)
          else if startswith s ''false'' then Some (JBool False, drop 5 s)
          else read_number s)"
| "read_elems 0 acc s = None"
| "read_elems (Suc n) acc s =
     (case read_value n s of
        None \<Rightarrow> None
      | Some (v, r) \<Rightarrow>
          (case skip_ws r of
             [] \<Rightarrow> None
           | c # r2 \<Rightarrow>
               if c = CHR '','' then read_elems n (acc @ [v]) (skip_ws r2)
               else if c = CHR '']'' then Some (JList (acc @ [v]), r2)
               else None))"
| "read_members 0 acc s = None"
| "read_members (Suc n) acc s =
     (case s of
        [] \<Rightarrow> None
      | q # t \<Rightarrow>
          if q \<noteq> CHR 34 then None
          else
            (case read_string t of
               None \<Rightarrow> None
             | Some (k, r) \<Rightarrow>
                 (case skip_ws r of
                    [] \<Rightarrow> None
                  | c # r2 \<Rightarrow>
                      if c \<noteq> CHR '':'' then None
                      else
                        (case read_value n (skip_ws r2) of
                           None \<Rightarrow> None
                         | Some (v, r3) \<Rightarrow>
                             (case skip_ws r3 of
                                [] \<Rightarrow> None
                              | e # r4 \<Rightarrow>
                                  if e = CHR '','' then read_members n (dict_set acc k v) (skip_ws r4)
                                  else if e = CHR ''}'' then Some (JObj (dict_set acc k v), r4)
                                  else None)))))"

text \<open>\<open>json.loads\<close>; \<open>None\<close> is \<open>JSONDecodeError\<close>.\<close>

definition json_loads :: "string \<Rightarrow> json option" where
  "json_loads s =
     (case read_value (Suc (length s)) (skip_ws s) of
        Some (v, r) \<Rightarrow> if skip_ws r = [] then Some v else None
      | None \<Rightarrow> None)"

section \<open>Reading back what was written\<close>

text \<open>Strings.\<close>

definition ctl :: "char \<Rightarrow> bool" where
  "ctl c \<longleftrightarrow> (of_char c :: nat) < 32 \<and> (of_char c :: nat) \<notin> {8, 9, 10, 12, 13}"

definition unit_of :: "char \<Rightarrow> json_unit" where
  "unit_of c = (if ctl c then Code (of_char c) else Byte c)"

lemma char_code:
  "(of_char c :: nat) = 34 \<longleftrightarrow> c = CHR 34" "(of_char c :: nat) = 92 \<longleftrightarrow> c = CHR 92"
  "(of_char c :: nat) = 8 \<longleftrightarrow> c = CHR 8" "(of_char c :: nat) = 9 \<longleftrightarrow> c = CHR 9"
  "(of_char c :: nat) = 10 \<longleftrightarrow> c = CHR 10" "(of_char c :: nat) = 12 \<longleftrightarrow> c = CHR 12"
  "(of_char c :: nat) = 13 \<longleftrightarrow> c = CHR 13"
proof -
  have eq: "(of_char c :: nat) = of_char k \<longleftrightarrow> c = k" for k by (rule of_char_eq_iff)
  show "(of_char c :: nat) = 34 \<longleftrightarrow> c = CHR 34" "(of_char c :: nat) = 92 \<longleftrightarrow> c = CHR 92"
    "(of_char c :: nat) = 8 \<longleftrightarrow> c = CHR 8" "(of_char c :: nat) = 9 \<longleftrightarrow> c = CHR 9"
    "(of_char c :: nat) = 10 \<longleftrightarrow> c = CHR 10" "(of_char c :: nat) = 12 \<longleftrightarrow> c = CHR 12"
    "(of_char c :: nat) = 13 \<longleftrightarrow> c = CHR 13"
    using eq [of "CHR 34"] eq [of "CHR 92"] eq [of "CHR 8"] eq [of "CHR 9"] eq [of "CHR 10"] eq [of "CHR 12"]
      eq [of "CHR 13"] by simp_all
qed

lemma hex_val_char: "n < 16 \<Longrightarrow> hex_val (hex_char n) = Some n"
  by (auto simp: hex_val_def hex_char_def of_char_of_small Let_def)

lemma hex4_ctl: "(of_char c :: nat) < 32 \<Longrightarrow>
  hex4 (CHR ''0'') (CHR ''0'') (hex_char (of_char c div 16)) (hex_char (of_char c mod 16)) = Some (of_char c)"
  by (simp add: hex4_def hex_val_char) (simp add: hex_val_def)

lemma scan_escape:
  "scan_units (json_escape c @ r) = map_option (\<lambda>(us, q). (unit_of c # us, q)) (scan_units r)"
proof -
  let ?n = "of_char c :: nat"
  consider "c = CHR 34" | "c = CHR 92" | "c = CHR 8" | "c = CHR 9" | "c = CHR 10" | "c = CHR 12" | "c = CHR 13"
    | "ctl c" | "32 \<le> ?n" "c \<noteq> CHR 34" "c \<noteq> CHR 92"
    unfolding ctl_def insert_iff empty_iff char_code de_Morgan_disj not_less [symmetric] by blast
  then show ?thesis
  proof cases
    case 8
    then have "?n < 32" "?n \<notin> {8, 9, 10, 12, 13}" by (auto simp: ctl_def)
    then have "json_escape c = [CHR 92, CHR ''u'', CHR ''0'', CHR ''0'', hex_char (?n div 16), hex_char (?n mod 16)]"
      by (auto simp: json_escape_def Let_def)
    then show ?thesis using 8 hex4_ctl [OF \<open>?n < 32\<close>] by (simp add: unit_of_def)
  next
    case 9
    then have "?n \<noteq> 34" "?n \<noteq> 92" by (auto simp: char_code)
    then show ?thesis using 9 by (auto simp: json_escape_def Let_def unit_of_def ctl_def)
  qed (simp_all add: json_escape_def unit_of_def ctl_def unescape_def Let_def)
qed

lemma scan_string: "scan_units (concat (map json_escape s) @ CHR 34 # r) = Some (map unit_of s, r)"
  by (induction s) (simp_all add: scan_escape del: scan_units.simps(2), simp)

lemma units_text_id: "units_text (map unit_of s) = s"
proof (induction s)
  case (Cons c s)
  show ?case
  proof (cases "ctl c")
    case True
    then have n: "(of_char c :: nat) < 32" by (simp add: ctl_def)
    then have "units_text (Code (of_char c) # us) = c # units_text us" for us
      by (cases us rule: units_text.cases) (auto simp: utf8_def)
    with True Cons show ?thesis by (simp add: unit_of_def)
  qed (use Cons in \<open>simp add: unit_of_def\<close>)
qed simp

lemma read_string_back: "read_string (concat (map json_escape s) @ CHR 34 # r) = Some (s, r)"
  by (simp add: read_string_def scan_string units_text_id)

text \<open>Numbers.\<close>

lemma digit_char_digit: "n < 10 \<Longrightarrow> is_digit (digit_char n) \<and> digit_val (digit_char n) = n"
  by (simp add: is_digit_def digit_char_def digit_val_def of_char_of_small)

lemma digits_snoc: "digits_nat (ds @ [c]) = 10 * digits_nat ds + digit_val c"
  by (simp add: digits_nat_def)

lemma show_nat_digits: "list_all is_digit (show_nat n) \<and> digits_nat (show_nat n) = n \<and> show_nat n \<noteq> []"
proof (induction n rule: show_nat.induct)
  case (1 n)
  show ?case
  proof (cases "n < 10")
    case True
    then show ?thesis
      by (subst (1 2 3) show_nat.simps) (simp add: digit_char_digit digits_nat_def)
  next
    case False
    with 1 digit_char_digit [of "n mod 10"] show ?thesis
      by (subst (1 2 3) show_nat.simps) (simp add: digits_snoc)
  qed
qed

lemma show_nat_hd: "hd (show_nat n) = CHR ''0'' \<Longrightarrow> length (show_nat n) = 1"
proof (induction n rule: show_nat.induct)
  case (1 n)
  show ?case
  proof (cases "n < 10")
    case True
    then show ?thesis by (subst show_nat.simps) simp
  next
    case False
    then have eq: "show_nat n = show_nat (n div 10) @ [digit_char (n mod 10)]" by (subst show_nat.simps) simp
    have "hd (show_nat (n div 10)) = CHR ''0''"
      using "1.prems" show_nat_digits [of "n div 10"] by (simp add: eq)
    with "1.IH" False have "length (show_nat (n div 10)) = 1" by blast
    then have "show_nat (n div 10) = [CHR ''0'']"
      using \<open>hd (show_nat (n div 10)) = CHR ''0''\<close> by (cases "show_nat (n div 10)") auto
    then have "digits_nat [CHR ''0''] = n div 10" using show_nat_digits [of "n div 10"] by simp
    then show ?thesis using False by (simp add: digits_nat_def digit_val_def)
  qed
qed

definition ends_number :: "string \<Rightarrow> bool" where
  "ends_number r \<longleftrightarrow> r = [] \<or> (\<not> is_digit (hd r) \<and> hd r \<notin> {CHR ''.'', CHR ''e'', CHR ''E''})"

lemma read_digits:
  assumes "ends_number r"
  shows "takeWhile is_digit (show_nat n @ r) = show_nat n" and "dropWhile is_digit (show_nat n @ r) = r"
proof -
  have "\<forall>c \<in> set (show_nat n). is_digit c" using show_nat_digits [of n] by (simp add: list_all_iff)
  then show "takeWhile is_digit (show_nat n @ r) = show_nat n" and "dropWhile is_digit (show_nat n @ r) = r"
    using assms by (cases r; auto simp: ends_number_def takeWhile_append2 dropWhile_append2)+
qed

lemma show_nat_Cons: "\<exists>c t. show_nat n = c # t \<and> is_digit c"
  using show_nat_digits [of n] by (cases "show_nat n") auto

lemma not_digit [simp]: "\<not> is_digit (CHR ''-'')" by (simp add: is_digit_def)

lemma read_number_back:
  assumes "ends_number r"
  shows "read_number (show_int i @ r) = Some (JInt i, r)"
proof -
  have frac: "\<not> (r \<noteq> [] \<and> hd r \<in> {CHR ''.'', CHR ''e'', CHR ''E''})"
    using assms by (auto simp: ends_number_def)
  have ds: "\<not> (show_nat n = [] \<or> hd (show_nat n) = CHR ''0'' \<and> length (show_nat n) \<noteq> 1)" for n
    using show_nat_digits [of n] show_nat_hd [of n] by auto
  have val: "digits_nat (show_nat n) = n" for n using show_nat_digits by simp
  show ?thesis
  proof (cases "i < 0")
    case True
    then have "show_int i @ r = CHR ''-'' # (show_nat (nat (- i)) @ r)" by (simp add: show_int_def)
    with True frac ds show ?thesis
      by (simp add: read_number_def read_digits [OF assms] val Let_def del: dropWhile_eq_Nil_conv takeWhile_eq_Nil_iff)
  next
    case False
    obtain c t where c: "show_nat (nat i) = c # t" "is_digit c" using show_nat_Cons by blast
    then have neg: "c \<noteq> CHR ''-''" by auto
    have "show_int i @ r = show_nat (nat i) @ r" using False by (simp add: show_int_def)
    moreover have "(case show_nat (nat i) @ r of d # t \<Rightarrow> if d = CHR ''-'' then (True, t) else (False, show_nat (nat i) @ r)
        | [] \<Rightarrow> (False, show_nat (nat i) @ r)) = (False, show_nat (nat i) @ r)"
      using c neg by simp
    ultimately show ?thesis
      using False frac ds
      by (simp add: read_number_def read_digits [OF assms] val Let_def del: dropWhile_eq_Nil_conv takeWhile_eq_Nil_iff)
  qed
qed

text \<open>Values. Keys of every dictionary are distinct, as in any Python dictionary.\<close>

fun wf_json :: "json \<Rightarrow> bool" where
  "wf_json (JList xs) = (\<forall>x \<in> set xs. wf_json x)"
| "wf_json (JObj d) = (distinct (map fst d) \<and> (\<forall>kv \<in> set d. wf_json (snd kv)))"
| "wf_json _ = True"

text \<open>The fuel a value needs, and that its text is at least that long.\<close>

fun need :: "json \<Rightarrow> nat" where
  "need (JList xs) = Suc (sum_list (map (\<lambda>x. Suc (need x)) xs))"
| "need (JObj d) = Suc (sum_list (map (\<lambda>kv. Suc (need (snd kv))) d))"
| "need _ = 1"

definition good_sep :: "char \<Rightarrow> string \<Rightarrow> bool" where
  "good_sep c sep \<longleftrightarrow> sep \<in> {[c], [c, CHR '' '']}"

lemma show_int_Cons: "\<exists>c t. show_int i = c # t \<and> (is_digit c \<or> c = CHR ''-'')"
  using show_nat_Cons [of "nat i"] by (auto simp: show_int_def)

lemma digit_not: "is_digit c \<Longrightarrow> \<not> is_ws c \<and> c \<notin> {CHR 34, CHR ''{'', CHR ''['', CHR ''n'', CHR ''t'', CHR ''f'', CHR '']'', CHR ''}''}"
  by (auto simp: is_digit_def is_ws_def)

text \<open>A dumped value starts with a character that is neither white space nor a closing bracket.\<close>

lemma dumps_Cons:
  "\<exists>c t. json_dumps isep ksep srt v = c # t \<and> \<not> is_ws c \<and> c \<noteq> CHR '']'' \<and> c \<noteq> CHR ''}''"
proof (cases v)
  case (JInt i)
  obtain c t where c: "show_int i = c # t" "is_digit c \<or> c = CHR ''-''" using show_int_Cons by blast
  then have "\<not> is_ws c \<and> c \<noteq> CHR '']'' \<and> c \<noteq> CHR ''}''"
    using digit_not [of c] by (elim disjE) (simp_all add: is_ws_def)
  with JInt c show ?thesis by simp
qed (simp_all add: json_string_def is_ws_def)

lemma skip_ws_dumps: "skip_ws (json_dumps isep ksep srt v @ r) = json_dumps isep ksep srt v @ r"
  using dumps_Cons [of isep ksep srt v] by (auto simp: skip_ws_def)

lemma skip_ws_simps [simp]: "\<not> is_ws c \<Longrightarrow> skip_ws (c # s) = c # s" "is_ws c \<Longrightarrow> skip_ws (c # s) = skip_ws s"
  "skip_ws [] = []"
  by (simp_all add: skip_ws_def)

lemma ws_chars [simp]: "\<not> is_ws (CHR '','')" "\<not> is_ws (CHR '']'')" "\<not> is_ws (CHR ''}'')" "\<not> is_ws (CHR '':'')"
  "is_ws (CHR '' '')" "\<not> is_ws (CHR 34)"
  by (simp_all add: is_ws_def)

lemma join_Cons2: "xs \<noteq> [] \<Longrightarrow> join sep (x # xs) = x @ sep @ join sep xs"
  by (cases xs) auto

lemma skip_sep:
  assumes "good_sep c sep" and "\<not> is_ws c"
  obtains t where "skip_ws (sep @ s) = c # t" and "skip_ws t = skip_ws s"
  using assms by (auto simp: good_sep_def)

lemma ends_sep: "good_sep (CHR '','') sep \<Longrightarrow> ends_number (sep @ s)"
  by (auto simp: good_sep_def ends_number_def is_digit_def)

lemma ends_close: "ends_number (CHR '']'' # s)" "ends_number (CHR ''}'' # s)"
  by (auto simp: ends_number_def is_digit_def)

lemma read_elems_back:
  assumes sep: "good_sep (CHR '','') isep"
    and elem: "\<And>x n r. x \<in> set xs \<Longrightarrow> need x \<le> n \<Longrightarrow> ends_number r
      \<Longrightarrow> read_value n (json_dumps isep ksep srt x @ r) = Some (x, r)"
    and "xs \<noteq> []" and "sum_list (map (\<lambda>x. Suc (need x)) xs) \<le> n"
  shows "read_elems n acc (join isep (map (json_dumps isep ksep srt) xs) @ CHR '']'' # r) = Some (JList (acc @ xs), r)"
  using assms(2-)
proof (induction xs arbitrary: n acc)
  case Nil
  then show ?case by simp
next
  case (Cons x xs)
  then obtain m where n: "n = Suc m" by (cases n) auto
  show ?case
  proof (cases "xs = []")
    case True
    with Cons.prems n ends_close(1) show ?thesis by simp
  next
    case False
    let ?rest = "join isep (map (json_dumps isep ksep srt) xs) @ CHR '']'' # r"
    have line: "join isep (map (json_dumps isep ksep srt) (x # xs)) @ CHR '']'' # r
        = json_dumps isep ksep srt x @ isep @ ?rest"
      using False by (simp add: join_Cons2)
    have x: "read_value m (json_dumps isep ksep srt x @ isep @ ?rest) = Some (x, isep @ ?rest)"
      using Cons.prems n by (intro Cons.prems(1) ends_sep [OF sep]) auto
    obtain t where t: "skip_ws (isep @ ?rest) = CHR '','' # t" "skip_ws t = skip_ws ?rest"
      using skip_sep [OF sep, of ?rest] by auto
    obtain y ys where xs: "xs = y # ys" using False by (cases xs) auto
    have "skip_ws ?rest = ?rest"
      unfolding xs by (cases ys) (simp_all add: skip_ws_dumps)
    moreover have "read_elems m (acc @ [x]) ?rest = Some (JList ((acc @ [x]) @ xs), r)"
      using Cons.prems n False by (intro Cons.IH) auto
    ultimately show ?thesis unfolding line n by (simp add: x t)
  qed
qed

definition member_text :: "string \<Rightarrow> string \<Rightarrow> string \<times> json \<Rightarrow> string" where
  "member_text isep ksep kv = json_string (fst kv) @ ksep @ json_dumps isep ksep False (snd kv)"

lemma member_Cons: "\<exists>t. member_text isep ksep kv = CHR 34 # t"
  by (simp add: member_text_def json_string_def)

lemma read_member_back:
  assumes sep: "good_sep (CHR '','') isep" "good_sep (CHR '':'') ksep"
    and elem: "\<And>n r. need (snd kv) \<le> n \<Longrightarrow> ends_number r
      \<Longrightarrow> read_value n (json_dumps isep ksep False (snd kv) @ r) = Some (snd kv, r)"
    and "need (snd kv) \<le> m" and "ends_number s"
  shows "read_members (Suc m) acc (member_text isep ksep kv @ s) =
    (case skip_ws s of
       [] \<Rightarrow> None
     | e # r4 \<Rightarrow>
         if e = CHR '','' then read_members m (dict_set acc (fst kv) (snd kv)) (skip_ws r4)
         else if e = CHR ''}'' then Some (JObj (dict_set acc (fst kv) (snd kv)), r4)
         else None)"
proof -
  let ?v = "json_dumps isep ksep False (snd kv) @ s"
  have line: "member_text isep ksep kv @ s = CHR 34 # concat (map json_escape (fst kv)) @ CHR 34 # ksep @ ?v"
    by (simp add: member_text_def json_string_def)
  have key: "read_string (concat (map json_escape (fst kv)) @ CHR 34 # ksep @ ?v) = Some (fst kv, ksep @ ?v)"
    by (rule read_string_back)
  obtain t where t: "skip_ws (ksep @ ?v) = CHR '':'' # t" "skip_ws t = skip_ws ?v"
    using skip_sep [OF sep(2), of ?v] by auto
  have "read_value m ?v = Some (snd kv, s)" using assms(4,5) by (rule elem)
  with t show ?thesis unfolding line by (simp add: key skip_ws_dumps cong: list.case_cong)
qed

lemma read_members_back:
  assumes sep: "good_sep (CHR '','') isep" "good_sep (CHR '':'') ksep"
    and elem: "\<And>kv n r. kv \<in> set d \<Longrightarrow> need (snd kv) \<le> n \<Longrightarrow> ends_number r
      \<Longrightarrow> read_value n (json_dumps isep ksep False (snd kv) @ r) = Some (snd kv, r)"
    and "d \<noteq> []" and "sum_list (map (\<lambda>kv. Suc (need (snd kv))) d) \<le> n"
    and "distinct (map fst (acc @ d))"
  shows "read_members n acc (join isep (map (member_text isep ksep) d) @ CHR ''}'' # r) = Some (JObj (acc @ d), r)"
  using assms(3-)
proof (induction d arbitrary: n acc)
  case Nil
  then show ?case by simp
next
  case (Cons kv d)
  then obtain m where n: "n = Suc m" by (cases n) auto
  have fresh: "dict_set acc (fst kv) (snd kv) = acc @ [kv]"
    using Cons.prems(4) by (subst dict_set_fresh) auto
  note member = read_member_back [OF sep, of kv m _ acc]
  show ?case
  proof (cases "d = []")
    case True
    have "read_members (Suc m) acc (member_text isep ksep kv @ CHR ''}'' # r) = Some (JObj (acc @ [kv]), r)"
      by (subst member) (use Cons.prems n ends_close(2) fresh in auto)
    with True n show ?thesis by simp
  next
    case False
    let ?rest = "join isep (map (member_text isep ksep) d) @ CHR ''}'' # r"
    have line: "join isep (map (member_text isep ksep) (kv # d)) @ CHR ''}'' # r
        = member_text isep ksep kv @ isep @ ?rest"
      using False by (simp add: join_Cons2)
    obtain t where t: "skip_ws (isep @ ?rest) = CHR '','' # t" "skip_ws t = skip_ws ?rest"
      using skip_sep [OF sep(1), of ?rest] by auto
    obtain y ys where d: "d = y # ys" using False by (cases d) auto
    have "skip_ws ?rest = ?rest"
      using member_Cons [of isep ksep y] unfolding d by (cases ys) auto
    moreover have "read_members m (acc @ [kv]) ?rest = Some (JObj ((acc @ [kv]) @ d), r)"
      using Cons.prems n False by (intro Cons.IH) auto
    moreover have "read_members (Suc m) acc (member_text isep ksep kv @ isep @ ?rest)
        = read_members m (acc @ [kv]) (skip_ws t)"
      by (subst member) (use Cons.prems n ends_sep [OF sep(1)] fresh t in auto)
    ultimately show ?thesis unfolding line n by (simp add: t)
  qed
qed

lemma read_value_back:
  assumes sep: "good_sep (CHR '','') isep" "good_sep (CHR '':'') ksep"
  shows "wf_json v \<Longrightarrow> need v \<le> n \<Longrightarrow> ends_number r
    \<Longrightarrow> read_value n (json_dumps isep ksep False v @ r) = Some (v, r)"
proof (induction v arbitrary: n r)
  case (JInt i)
  then obtain m where n: "n = Suc m" by (cases n) auto
  obtain c t where c: "show_int i = c # t" "is_digit c \<or> c = CHR ''-''" using show_int_Cons by blast
  then have "c \<notin> {CHR 34, CHR ''{'', CHR ''['', CHR ''n'', CHR ''t'', CHR ''f''}"
    using digit_not [of c] by (elim disjE) simp_all
  with c read_number_back [OF JInt.prems(3), of i] show ?case by (simp add: n startswith_def)
next
  case (JStr s)
  then obtain m where n: "n = Suc m" by (cases n) auto
  with read_string_back [of s r] show ?case by (simp add: json_string_def)
next
  case (JList xs)
  then obtain m where n: "n = Suc m" by (cases n) auto
  show ?case
  proof (cases "xs = []")
    case False
    then obtain y ys where xs: "xs = y # ys" by (cases xs) auto
    let ?rest = "join isep (map (json_dumps isep ksep False) xs) @ CHR '']'' # r"
    have body: "read_elems m [] ?rest = Some (JList ([] @ xs), r)"
      using JList n False by (intro read_elems_back [OF sep(1)]) auto
    obtain c t where ct: "?rest = c # t" "\<not> is_ws c" "c \<noteq> CHR '']''"
      using dumps_Cons [of isep ksep False y] unfolding xs by (cases ys) auto
    then show ?thesis using body n by simp
  qed (simp add: n)
next
  case (JObj d)
  then obtain m where n: "n = Suc m" by (cases n) auto
  have line: "json_dumps isep ksep False (JObj d) @ r = CHR ''{'' # join isep (map (member_text isep ksep) d) @ CHR ''}'' # r"
    by (simp add: member_text_def [abs_def] comp_def)
  show ?case
  proof (cases "d = []")
    case False
    then obtain y ys where d: "d = y # ys" by (cases d) auto
    let ?rest = "join isep (map (member_text isep ksep) d) @ CHR ''}'' # r"
    have body: "read_members m [] ?rest = Some (JObj ([] @ d), r)"
      using JObj n False by (intro read_members_back [OF sep]) (auto simp: snds.simps)
    obtain t where "?rest = CHR 34 # t"
      using member_Cons [of isep ksep y] unfolding d by (cases ys) auto
    then show ?thesis unfolding line using body n by simp
  qed (simp add: n)
next
  case JNull
  then show ?case by (cases n) (auto simp: startswith_def)
next
  case (JBool b)
  then show ?case by (cases n) (auto simp: startswith_def)
qed

text \<open>The text of a value is at least as long as the fuel it needs.\<close>

lemma join_length:
  "\<lbrakk>\<And>x. x \<in> set xs \<Longrightarrow> f x \<le> length (g x); 1 \<le> length sep\<rbrakk> \<Longrightarrow>
   sum_list (map (\<lambda>x. Suc (f x)) xs) \<le> Suc (length (join sep (map g xs)))"
proof (induction xs)
  case (Cons x xs)
  then have fx: "f x \<le> length (g x)" and IH: "sum_list (map (\<lambda>x. Suc (f x)) xs) \<le> Suc (length (join sep (map g xs)))"
    by auto
  show ?case
  proof (cases "xs = []")
    case False
    then have "join sep (map g (x # xs)) = g x @ sep @ join sep (map g xs)" by (simp add: join_Cons2)
    with fx IH Cons.prems(2) show ?thesis by simp
  qed (use fx in simp)
qed simp

lemma need_length:
  assumes "1 \<le> length isep"
  shows "need v \<le> length (json_dumps isep ksep False v)"
proof (induction v)
  case (JInt i)
  obtain c t where "show_int i = c # t" using show_int_Cons by blast
  then show ?case by simp
next
  case (JList xs)
  then have "sum_list (map (\<lambda>x. Suc (need x)) xs) \<le> Suc (length (join isep (map (json_dumps isep ksep False) xs)))"
    using assms by (intro join_length) auto
  then show ?case by simp
next
  case (JObj d)
  have "need (snd kv) \<le> length (member_text isep ksep kv)" if "kv \<in> set d" for kv
    using JObj [of kv "snd kv"] that by (cases kv) (auto simp: member_text_def snds.simps intro: trans_le_add2)
  then have "sum_list (map (\<lambda>kv. Suc (need (snd kv))) d) \<le> Suc (length (join isep (map (member_text isep ksep) d)))"
    using assms by (intro join_length) auto
  then show ?case by (simp add: member_text_def [abs_def] comp_def)
qed (auto simp: json_string_def)

lemma loads_dumps:
  assumes "wf_json v" and "good_sep (CHR '','') isep" and "good_sep (CHR '':'') ksep"
  shows "json_loads (json_dumps isep ksep False v) = Some v"
proof -
  let ?t = "json_dumps isep ksep False v"
  have "1 \<le> length isep" using assms(2) by (auto simp: good_sep_def)
  then have "need v \<le> Suc (length ?t)" using need_length [of isep v ksep] by simp
  then have "read_value (Suc (length ?t)) (?t @ []) = Some (v, [])"
    by (intro read_value_back assms) (simp_all add: ends_number_def)
  then show ?thesis using skip_ws_dumps [of isep ksep False v "[]"] by (simp add: json_loads_def del: read_value.simps)
qed

end

