(* ===== verification/Task_Schema.thy ===== *)
theory Task_Schema
  imports Py_Hash Py_Json
begin

text \<open>
  \<open>core/task/schema.py\<close> and \<open>core/task/authority.py\<close>: the dataclasses of a task and the identity of its
  contract.

  A dataclass value is the dictionary \<open>asdict\<close> gives, in field order; the class is the table of its
  fields with their defaults. The two defaults that call a factory (\<open>id\<close>, \<open>created_at\<close>) are arguments.
\<close>

definition VALID_VERIFICATION_TIERS :: "string list" where
  "VALID_VERIFICATION_TIERS = [''static'', ''runtime'', ''e2e'', ''manual_evidence'']"

section \<open>The dataclasses\<close>

definition TaskContract_defaults :: "pydict" where
  "TaskContract_defaults =
     [(''schema_version'', JStr ''''), (''locale'', JStr ''''), (''feature_id'', JStr ''''),
      (''parent_task_id'', JStr ''''), (''campaign'', JStr ''''), (''phase'', JStr ''''),
      (''source_backlog_task_id'', JStr ''''), (''behavior'', JStr ''''),
      (''verification'', JStr ''''), (''verification_tiers'', JList []), (''validation'', JObj []),
      (''spec_ref'', JStr ''''), (''plan_ref'', JStr ''''), (''tdd_ref'', JStr ''''),
      (''critic_gate_ref'', JStr ''''), (''critic_event_id'', JStr ''''),
      (''critic_dispatch_id'', JStr ''''), (''reviewed_arch_event_id'', JStr ''''),
      (''source_arch_dispatch_id'', JStr ''''), (''dispatch_id'', JStr ''''),
      (''dispatch_id_requirement'', JStr ''''), (''canonical_case_id'', JStr ''''),
      (''case_alias'', JStr ''''), (''canonical_behavior_test'', JStr ''''),
      (''package_namespace'', JStr ''''), (''scope'', JList []), (''affected_files'', JList []),
      (''exclusions'', JList []), (''explicit_non_goals'', JList []),
      (''acceptance'', JStr ''exit_code=0''), (''evidence_contract'', JObj []),
      (''complexity'', JStr ''''), (''review_route'', JObj []), (''owner_role'', JStr ''''),
      (''owner_instance'', JStr ''''), (''wave'', JInt 0), (''shared_files'', JList []),
      (''exclusive_files'', JList []), (''handoff_artifacts'', JList []),
      (''task_doc_ref'', JStr ''''), (''source_doc_ref'', JStr ''''),
      (''progress_doc_ref'', JStr ''''), (''evidence_doc_ref'', JStr ''''),
      (''source_revision'', JStr ''''), (''contract_revision'', JStr ''''),
      (''capsule_revision'', JStr ''''), (''source_key'', JStr ''''), (''source_ref'', JStr ''''),
      (''source_task_id'', JStr ''''), (''source_index_ref'', JStr ''''), (''source_mode'', JStr ''''),
      (''source_title'', JStr ''''), (''source_excerpt'', JStr ''''),
      (''product_contract_ref'', JStr ''''), (''spec_skip_reason'', JStr ''''),
      (''unknowns'', JList []), (''review_profile'', JStr ''''), (''execution_profile_id'', JStr ''''),
      (''execution_profile_digest'', JStr ''''), (''risk_class'', JStr ''''),
      (''integration_admission_profile'', JStr ''''), (''rework_to'', JStr ''''),
      (''fanout_force'', JBool False), (''fix_of'', JStr ''''), (''acceptance_criteria'', JList []),
      (''acceptance_evidence'', JObj []), (''goal_claim_ids'', JList []),
      (''quality_gates_override'', JObj [])]"

definition TaskEvidence_defaults :: "pydict" where
  "TaskEvidence_defaults =
     [(''commit'', JStr ''''), (''output_summary'', JStr ''''), (''verified_at'', JStr ''''),
      (''commits'', JList []), (''files_touched'', JList [])]"

definition TaskExecutionBinding_defaults :: "pydict" where
  "TaskExecutionBinding_defaults =
     [(''owner'', JStr ''''), (''request_id'', JStr ''''), (''request_revision'', JInt 0),
      (''workflow_run_id'', JStr ''''), (''origin_binding_digest'', JStr ''''),
      (''origin_task_digest'', JStr '''')]"

definition Task_defaults :: "string \<Rightarrow> string \<Rightarrow> pydict" where
  "Task_defaults new_id now =
     [(''title'', JStr ''''), (''id'', JStr new_id), (''key'', JStr ''''),
      (''status'', JStr ''backlog''), (''priority'', JInt 3), (''assigned_to'', JNull),
      (''skills_required'', JList []), (''blocked_by'', JList []),
      (''contract'', JObj TaskContract_defaults),
      (''execution_binding'', JObj TaskExecutionBinding_defaults),
      (''contract_authority_revision'', JStr ''''), (''contract_authority_sequence'', JInt 0),
      (''evidence'', JNull), (''created_at'', JStr now), (''dispatched_at'', JNull),
      (''started_at'', JNull), (''completed_at'', JNull), (''cancelled_at'', JNull),
      (''active_dispatch_id'', JStr ''''), (''retry_count'', JInt 0), (''blocked_reason'', JStr '''')]"

text \<open>\<open>Cls(**data)\<close>: an unknown keyword raises, a missing field takes its default.\<close>

definition make_dataclass :: "string \<Rightarrow> pydict \<Rightarrow> pydict \<Rightarrow> pydict res" where
  "make_dataclass cls table data =
     (case find (\<lambda>kv. \<not> has_key table (fst kv)) data of
        Some kv \<Rightarrow> Inl (TypeError (cls @ ''.__init__() got an unexpected keyword argument '' @ repr_str (fst kv)))
      | None \<Rightarrow> Inr (map (\<lambda>fd. (fst fd, case map_of data (fst fd) of Some v \<Rightarrow> v | None \<Rightarrow> snd fd)) table))"

section \<open>Reading a contract\<close>

definition nonblank_items :: "string list \<Rightarrow> json" where
  "nonblank_items xs = JList (map JStr (filter (\<lambda>s. s \<noteq> []) (map strip xs)))"

definition normalize_field :: "string \<Rightarrow> json \<Rightarrow> json \<Rightarrow> json" where
  "normalize_field name dflt raw =
     (case dflt of
        JList _ \<Rightarrow>
          (if name = ''acceptance_criteria''
           then JList (filter (\<lambda>item. item \<notin> {JNull, JStr ''''}) (as_list raw))
           else (case raw of
                   JList items \<Rightarrow> nonblank_items (map py_str items)
                 | JStr s \<Rightarrow> nonblank_items (split_on (CHR '','') s)
                 | _ \<Rightarrow> JList []))
      | JObj _ \<Rightarrow> JObj (as_dict raw)
      | JBool _ \<Rightarrow>
          (case raw of
             JStr s \<Rightarrow> JBool (lower (strip s) \<in> {''1'', ''true'', ''yes'', ''on''})
           | _ \<Rightarrow> JBool (truthy raw))
      | JInt i \<Rightarrow> (case py_int raw of Some j \<Rightarrow> JInt j | None \<Rightarrow> dflt)
      | _ \<Rightarrow> JStr (py_str (py_or raw dflt)))"

definition task_contract_from_mapping :: "json \<Rightarrow> pydict" where
  "task_contract_from_mapping value =
     map (\<lambda>fd. (fst fd,
            case map_of (as_dict value) (fst fd) of
              None \<Rightarrow> snd fd
            | Some raw \<Rightarrow> normalize_field (fst fd) (snd fd) raw)) TaskContract_defaults"

section \<open>The authority identity of a contract\<close>

definition CONTRACT_METADATA_FIELDS :: "string list" where
  "CONTRACT_METADATA_FIELDS =
     [''task_doc_ref'', ''source_doc_ref'', ''progress_doc_ref'', ''evidence_doc_ref'', ''source_revision'',
      ''contract_revision'', ''capsule_revision'', ''acceptance_evidence'']"

definition EXECUTION_BINDING_EVIDENCE_FIELDS :: "string list" where
  "EXECUTION_BINDING_EVIDENCE_FIELDS =
     [''execution_owner'', ''workflow_request_id'', ''workflow_request_revision'', ''workflow_run_id'',
      ''workflow_origin_binding_digest'', ''workflow_origin_task_digest'']"

definition without_execution_binding_evidence :: "json \<Rightarrow> pydict" where
  "without_execution_binding_evidence evidence =
     filter (\<lambda>kv. fst kv \<notin> set EXECUTION_BINDING_EVIDENCE_FIELDS) (as_dict evidence)"

definition contract_authority_payload :: "pydict \<Rightarrow> pydict" where
  "contract_authority_payload contract =
     (let payload = fold (\<lambda>key p. dict_pop p key) CONTRACT_METADATA_FIELDS contract
      in dict_set payload ''evidence_contract''
           (JObj (without_execution_binding_evidence (dict_get payload ''evidence_contract''))))"

definition authority_revision_for :: "string \<Rightarrow> pydict \<Rightarrow> pydict \<Rightarrow> int \<Rightarrow> string" where
  "authority_revision_for task_id contract execution_binding sequence =
     ''authority-r'' @ take 24 (sha256_hex (json_dumps '','' '':'' True (JObj
        [(''task_id'', JStr task_id),
         (''sequence'', JInt sequence),
         (''contract'', JObj (contract_authority_payload contract)),
         (''execution_binding'', JObj execution_binding)])))"

section \<open>Normalisation is a projection\<close>

lemma show_int_nonempty [simp]: "show_int i \<noteq> []"
  unfolding show_int_def by (subst show_nat.simps) simp

lemma truthy_str_nonempty: "truthy v \<Longrightarrow> py_str v \<noteq> []"
  by (cases v) simp_all

lemma normalize_idem: "normalize_field name dflt (normalize_field name dflt raw) = normalize_field name dflt raw"
proof (cases dflt)
  case (JList l)
  have again: "normalize_field name (JList l) (nonblank_items xs) = nonblank_items xs"
    if "name \<noteq> ''acceptance_criteria''" for xs
    using that by (induction xs) (simp_all add: normalize_field_def nonblank_items_def)
  show ?thesis
  proof (cases "name = ''acceptance_criteria''")
    case True
    with JList show ?thesis by (simp add: normalize_field_def)
  next
    case False
    then have "normalize_field name (JList l) raw \<in> insert (nonblank_items []) (range nonblank_items)"
      by (cases raw) (simp_all add: normalize_field_def nonblank_items_def [of "[]"])
    with again [OF False] JList show ?thesis by auto
  qed
next
  case (JStr s)
  then show ?thesis
    using truthy_str_nonempty [of raw] by (auto simp: normalize_field_def py_or_def)
next
  case JNull
  then show ?thesis
    using truthy_str_nonempty [of raw] by (auto simp: normalize_field_def py_or_def)
next
  case (JBool b)
  then show ?thesis by (cases raw) (auto simp: normalize_field_def)
next
  case (JInt i)
  then show ?thesis by (auto simp: normalize_field_def split: option.splits)
qed (auto simp: normalize_field_def)

lemma contract_keys: "map fst (task_contract_from_mapping v) = map fst TaskContract_defaults"
  by (simp add: task_contract_from_mapping_def)

lemma map_of_map_fields:
  "map_of (map (\<lambda>fd. (fst fd, h (fst fd) (snd fd))) t) k = map_option (h k) (map_of t k)"
  by (induction t) auto

lemma contract_distinct: "distinct (map fst TaskContract_defaults)"
  by (simp add: TaskContract_defaults_def)

lemma defaults_normal:
  "list_all (\<lambda>fd. normalize_field (fst fd) (snd fd) (snd fd) = snd fd) TaskContract_defaults"
  by (simp add: TaskContract_defaults_def normalize_field_def py_or_def nonblank_items_def)

text \<open>Reading a contract is a projection. Materialising a mapping into a \<open>TaskContract\<close> and
  reading the result back gives the same contract, whatever the mapping held: unknown keys, wrong
  types, comma-separated lists. This is what lets the store compare a normalised contract on file with
  an expected one.\<close>

lemma contract_normalisation_idempotent:
  "task_contract_from_mapping (JObj (task_contract_from_mapping v)) = task_contract_from_mapping v"
proof -
  let ?h = "\<lambda>k dflt. case map_of (as_dict v) k of None \<Rightarrow> dflt | Some raw \<Rightarrow> normalize_field k dflt raw"
  have "(case map_of (task_contract_from_mapping v) (fst fd) of None \<Rightarrow> snd fd
      | Some raw \<Rightarrow> normalize_field (fst fd) (snd fd) raw) = ?h (fst fd) (snd fd)"
    if fd: "fd \<in> set TaskContract_defaults" for fd
  proof -
    have "map_of TaskContract_defaults (fst fd) = Some (snd fd)"
      using fd contract_distinct by simp
    then have "map_of (task_contract_from_mapping v) (fst fd) = Some (?h (fst fd) (snd fd))"
      unfolding task_contract_from_mapping_def by (subst map_of_map_fields) simp
    moreover have "normalize_field (fst fd) (snd fd) (snd fd) = snd fd"
      using fd defaults_normal by (simp add: list_all_iff)
    ultimately show ?thesis by (auto simp: normalize_idem split: option.splits)
  qed
  then show ?thesis
    unfolding task_contract_from_mapping_def [of "JObj _"] by (simp add: task_contract_from_mapping_def [of v])
qed

section \<open>Authority identity\<close>

lemma dict_pop_other: "k \<noteq> k' \<Longrightarrow> dict_pop (dict_set d k v) k' = dict_set (dict_pop d k') k v"
  unfolding dict_pop_def dict_set_def by (induction d) auto

lemma dict_pop_set: "dict_pop (dict_set d k v) k = dict_pop d k"
  unfolding dict_pop_def dict_set_def by (induction d) auto

lemma dict_pop_commute: "dict_pop (dict_pop d k) k' = dict_pop (dict_pop d k') k"
  by (simp add: dict_pop_def conj_commute)

lemma dict_pop_absent: "k \<notin> fst ` set d \<Longrightarrow> dict_pop d k = d"
  by (force simp: dict_pop_def filter_id_conv)

lemma fold_pop_set:
  "fold (\<lambda>key p. dict_pop p key) ks (dict_set d k v) =
     (if k \<in> set ks then fold (\<lambda>key p. dict_pop p key) ks d
      else dict_set (fold (\<lambda>key p. dict_pop p key) ks d) k v)"
proof (induction ks arbitrary: d)
  case (Cons a ks)
  show ?case
  proof (cases "a = k")
    case True
    then show ?thesis by (simp add: dict_pop_set)
  next
    case False
    then show ?thesis using Cons by (simp add: dict_pop_other)
  qed
qed simp

text \<open>The authority revision ignores capsule and evidence projections. Setting any metadata field
  of a contract (the fields \<open>patch_contract_fields\<close> may write) leaves the authority revision as it was,
  for every task, binding and sequence number.\<close>

lemma authority_revision_ignores_metadata:
  assumes "key \<in> set CONTRACT_METADATA_FIELDS"
  shows "authority_revision_for task (dict_set contract key v) binding n
    = authority_revision_for task contract binding n"
  using assms by (simp add: authority_revision_for_def contract_authority_payload_def fold_pop_set)

end
