(* ===== verification/Task_Store.thy ===== *)
theory Task_Store
  imports Task_Schema
begin

text \<open>
  \<open>core/task/store.py\<close>: the task board. Active tasks live in \<open>kanban.json\<close>, tasks that reached a
  terminal state in one archive file per day, and \<open>kanban-terminal-index.json\<close> maps their ids to that day.

  Every method runs under one lock and changes several files, each by an atomic replace. A method is
  therefore a function from the board to the sequence of file writes it makes and its result; the
  board after a crash is the board after a prefix of that sequence. A method that raises after a
  write keeps its writes.

  A file holds what \<open>json.loads\<close> of its text gives, or text that is blank or not JSON. A list that
  holds something other than objects makes the loader fail, which stands for the \<open>AttributeError\<close> of
  the first \<open>.get\<close> on it. Records are dictionaries, tasks the field dictionaries of \<open>Task_Schema\<close>. The
  clock and the id generator are arguments.
\<close>

section \<open>Files\<close>

datatype disk_file =
    NoFile
  | BlankFile
  | BadFile
  | JsonFile json

record board =
  bd_active :: disk_file
  bd_index :: disk_file
  bd_archives :: "(string \<times> disk_file) list"

datatype board_write =
    WriteArchive string "pydict list"
  | WriteIndex pydict
  | WriteActive "pydict list"

type_synonym 'r board_op = "board_write list \<times> 'r res"

record clock =
  ck_today :: string
  ck_now :: string
  ck_new_id :: string

definition TERMINAL_STATES :: "string list" where
  "TERMINAL_STATES = [''done'', ''cancelled'']"

definition records_file :: "pydict list \<Rightarrow> disk_file" where
  "records_file rs = JsonFile (JList (map JObj rs))"

fun apply_write :: "board_write \<Rightarrow> board \<Rightarrow> board" where
  "apply_write (WriteArchive date rs) s = s\<lparr>bd_archives := AList.update date (records_file rs) (bd_archives s)\<rparr>"
| "apply_write (WriteIndex index) s = s\<lparr>bd_index := JsonFile (JObj index)\<rparr>"
| "apply_write (WriteActive rs) s = s\<lparr>bd_active := records_file rs\<rparr>"

definition apply_writes :: "board_write list \<Rightarrow> board \<Rightarrow> board" where
  "apply_writes ws s = fold apply_write ws s"

text \<open>The board and result once a method has run to its end.\<close>

definition run_op :: "'r board_op \<Rightarrow> board \<Rightarrow> 'r res \<times> board" where
  "run_op op s = (snd op, apply_writes (fst op) s)"

fun read_records :: "disk_file \<Rightarrow> pydict list res" where
  "read_records NoFile = Inr []"
| "read_records BlankFile = Inr []"
| "read_records BadFile = Inl (ValueError ''JSONDecodeError'')"
| "read_records (JsonFile data) =
     (case data of
        JList items \<Rightarrow>
          if list_all is_dict items then Inr (map as_dict items)
          else Inl (AttributeError ''get'')
      | _ \<Rightarrow> Inr [])"

definition load_raw :: "board \<Rightarrow> pydict list res" where
  "load_raw s = read_records (bd_active s)"

definition archive_file :: "board \<Rightarrow> string \<Rightarrow> disk_file" where
  "archive_file s date = (case map_of (bd_archives s) date of None \<Rightarrow> NoFile | Some f \<Rightarrow> f)"

definition load_archive_file :: "board \<Rightarrow> string \<Rightarrow> pydict list res" where
  "load_archive_file s date = read_records (archive_file s date)"

text \<open>\<open>list_archives\<close>: the dates with an archive file, oldest first, from a cut-off date on if given.\<close>

definition list_archives :: "board \<Rightarrow> string option \<Rightarrow> string list" where
  "list_archives s cutoff =
     filter (\<lambda>date. case cutoff of None \<Rightarrow> True | Some c \<Rightarrow> c \<le> date) (map fst (sort_dict (bd_archives s)))"

fun load_terminal_index :: "board \<Rightarrow> pydict" where
  "load_terminal_index s = (case bd_index s of JsonFile (JObj d) \<Rightarrow> d | _ \<Rightarrow> [])"

declare load_terminal_index.simps [simp del]

text \<open>The ids one archive document contributes to a rebuilt index.\<close>

definition archive_ids :: "json \<Rightarrow> string list" where
  "archive_ids data =
     (let records = (case data of
                       JObj d \<Rightarrow> (case map_of d ''tasks'' of Some v \<Rightarrow> v | None \<Rightarrow> data)
                     | _ \<Rightarrow> data)
      in filter (\<lambda>i. i \<noteq> [])
           (case records of
              JObj d \<Rightarrow> map fst d
            | JList items \<Rightarrow> map (\<lambda>r. sget_first (as_dict r) [''id'', ''task_id'']) (filter is_dict items)
            | _ \<Rightarrow> []))"

definition index_archive :: "string \<times> disk_file \<Rightarrow> pydict \<Rightarrow> pydict" where
  "index_archive df idx =
     (case snd df of
        JsonFile data \<Rightarrow> fold (\<lambda>i m. dict_set m i (JStr (fst df))) (archive_ids data) idx
      | _ \<Rightarrow> idx)"

definition rebuild_terminal_index_from_archive :: "board \<Rightarrow> pydict board_op" where
  "rebuild_terminal_index_from_archive s =
     (let index = fold index_archive (sort_dict (bd_archives s)) [] in ([WriteIndex index], Inr index))"

section \<open>Records and tasks\<close>

definition to_task :: "clock \<Rightarrow> pydict \<Rightarrow> pydict res" where
  "to_task ck data =
     (let contract_data = py_or (dict_get data ''contract'') (JObj []);
          binding_data = py_or (dict_get data ''execution_binding'') (JObj []);
          evidence_data = dict_get data ''evidence'';
          rest = dict_pop (dict_pop (dict_pop data ''contract'') ''execution_binding'') ''evidence'';
          binding = (if is_dict binding_data
                     then make_dataclass ''TaskExecutionBinding'' TaskExecutionBinding_defaults (as_dict binding_data)
                     else Inr TaskExecutionBinding_defaults);
          evidence = (if truthy evidence_data then
                        (if is_dict evidence_data
                         then map_sum id JObj (make_dataclass ''TaskEvidence'' TaskEvidence_defaults (as_dict evidence_data))
                         else Inl (TypeError ''argument after ** must be a mapping''))
                      else Inr JNull) in
      (case binding of
         Inl e \<Rightarrow> Inl e
       | Inr b \<Rightarrow>
           (case evidence of
              Inl e \<Rightarrow> Inl e
            | Inr ev \<Rightarrow>
                make_dataclass ''Task'' (Task_defaults (ck_new_id ck) (ck_now ck))
                  (rest @ [(''contract'', JObj (task_contract_from_mapping contract_data)),
                           (''execution_binding'', JObj b), (''evidence'', ev)]))))"

definition has_id :: "string \<Rightarrow> pydict \<Rightarrow> bool" where
  "has_id task_id d \<longleftrightarrow> dict_get d ''id'' = JStr task_id"

text \<open>The first record a test accepts, with what stands before and after it.\<close>

fun locate :: "('a \<Rightarrow> bool) \<Rightarrow> 'a list \<Rightarrow> ('a list \<times> 'a \<times> 'a list) option" where
  "locate P [] = None"
| "locate P (x # xs) =
     (if P x then Some ([], x, xs)
      else (case locate P xs of None \<Rightarrow> None | Some (pre, y, post) \<Rightarrow> Some (x # pre, y, post)))"

definition list_all_tasks :: "clock \<Rightarrow> board \<Rightarrow> pydict list res" where
  "list_all_tasks ck s = (case load_raw s of Inl e \<Rightarrow> Inl e | Inr raw \<Rightarrow> res_map (to_task ck) raw)"

definition list_all_with_archive :: "clock \<Rightarrow> string option \<Rightarrow> board \<Rightarrow> pydict list res" where
  "list_all_with_archive ck cutoff s =
     (case list_all_tasks ck s of
        Inl e \<Rightarrow> Inl e
      | Inr tasks \<Rightarrow>
          (case res_map (\<lambda>date. case load_archive_file s date of Inl e \<Rightarrow> Inl e | Inr rs \<Rightarrow> res_map (to_task ck) rs)
                  (list_archives s cutoff) of
             Inl e \<Rightarrow> Inl e
           | Inr tss \<Rightarrow> Inr (tasks @ concat tss)))"

text \<open>The scan of all archive files, oldest first.\<close>

fun scan_archives :: "(pydict \<Rightarrow> bool) \<Rightarrow> board \<Rightarrow> string list \<Rightarrow> pydict option res" where
  "scan_archives P s [] = Inr None"
| "scan_archives P s (date # dates) =
     (case load_archive_file s date of
        Inl e \<Rightarrow> Inl e
      | Inr rs \<Rightarrow> (case find P rs of Some d \<Rightarrow> Inr (Some d) | None \<Rightarrow> scan_archives P s dates))"

definition get_task :: "clock \<Rightarrow> string \<Rightarrow> board \<Rightarrow> pydict option res" where
  "get_task ck task_id s =
     (case load_raw s of
        Inl e \<Rightarrow> Inl e
      | Inr raw \<Rightarrow>
          (case find (has_id task_id) raw of
             Some d \<Rightarrow> map_sum id Some (to_task ck d)
           | None \<Rightarrow>
               (let date = dict_get (load_terminal_index s) task_id;
                    indexed = (if date = JNull then Inr None else scan_archives (has_id task_id) s [py_str date]) in
                (case indexed of
                   Inl e \<Rightarrow> Inl e
                 | Inr (Some d) \<Rightarrow> map_sum id Some (to_task ck d)
                 | Inr None \<Rightarrow>
                     (case scan_archives (has_id task_id) s (list_archives s None) of
                        Inl e \<Rightarrow> Inl e
                      | Inr (Some d) \<Rightarrow> map_sum id Some (to_task ck d)
                      | Inr None \<Rightarrow> Inr None)))))"

section \<open>Adding and reopening\<close>

definition blocked_by :: "pydict \<Rightarrow> json list" where
  "blocked_by task = as_list (dict_get task ''blocked_by'')"

definition add_task :: "pydict \<Rightarrow> board \<Rightarrow> pydict board_op" where
  "add_task task s =
     (case load_raw s of
        Inl e \<Rightarrow> ([], Inl e)
      | Inr raw \<Rightarrow>
          if \<not> list_all (\<lambda>d. has_key d ''id'') raw then ([], Inl (KeyError ''id''))
          else
            let known_ids = map (\<lambda>d. dict_get d ''id'') raw @ map (JStr \<circ> fst) (load_terminal_index s) in
            (case find (\<lambda>ref. ref \<notin> set known_ids) (blocked_by task) of
               Some ref \<Rightarrow> ([], Inl (ValueError (''blocked_by reference not found: '' @ py_str ref)))
             | None \<Rightarrow> ([WriteActive (raw @ [task])], Inr task)))"

definition task_id_of :: "pydict \<Rightarrow> string" where
  "task_id_of task = sget task ''id''"

fun add_loop :: "string list \<Rightarrow> pydict list \<Rightarrow> pydict list \<Rightarrow> string list \<Rightarrow> pydict list \<times> string list \<times> string list" where
  "add_loop terminal_ids [] raw existing = (raw, [], [])"
| "add_loop terminal_ids (task # tasks) raw existing =
     (let i = task_id_of task in
      if i \<in> set existing \<or> i \<in> set terminal_ids then
        (let (raw', created, skipped) = add_loop terminal_ids tasks raw existing in (raw', created, i # skipped))
      else
        (let (raw', created, skipped) = add_loop terminal_ids tasks (raw @ [task]) (i # existing)
         in (raw', i # created, skipped)))"

definition missing_refs :: "json list \<Rightarrow> pydict list \<Rightarrow> (string \<times> json) list" where
  "missing_refs known tasks =
     concat (map (\<lambda>t. map (\<lambda>ref. (task_id_of t, ref)) (filter (\<lambda>ref. ref \<notin> set known) (blocked_by t))) tasks)"

definition add_many :: "pydict list \<Rightarrow> board \<Rightarrow> (string list \<times> string list) board_op" where
  "add_many tasks s =
     (let ids = map task_id_of tasks in
      if tasks = [] then ([], Inr ([], []))
      else if \<not> distinct ids then ([], Inl (ValueError ''task batch contains duplicate ids''))
      else
        (case load_raw s of
           Inl e \<Rightarrow> ([], Inl e)
         | Inr raw \<Rightarrow>
             let existing_ids = map (\<lambda>d. sget d ''id'') raw;
                 terminal_ids = map fst (load_terminal_index s);
                 known_ids = map JStr (existing_ids @ terminal_ids @ ids) in
             (case missing_refs known_ids tasks of
                (i, ref) # _ \<Rightarrow> ([], Inl (ValueError (''blocked_by reference not found: '' @ i @ '' -> '' @ py_str ref)))
              | [] \<Rightarrow>
                  let (raw', created, skipped) = add_loop terminal_ids tasks raw existing_ids in
                  (if created \<noteq> [] then [WriteActive raw'] else [], Inr (created, skipped)))))"

definition reopen :: "pydict \<Rightarrow> board \<Rightarrow> pydict board_op" where
  "reopen task s =
     (if dict_get task ''status'' \<in> JStr ` set TERMINAL_STATES
      then ([], Inl (ValueError ''reopened task must not be terminal''))
      else
        (case load_raw s of
           Inl e \<Rightarrow> ([], Inl e)
         | Inr raw \<Rightarrow>
             let i = task_id_of task;
                 raw' = (case locate (has_id i) raw of
                           Some (pre, _, post) \<Rightarrow> pre @ task # post
                         | None \<Rightarrow> raw @ [task]);
                 index = load_terminal_index s in
             (WriteActive raw' # (if has_key index i then [WriteIndex (dict_pop index i)] else []), Inr task)))"

section \<open>Updating\<close>

definition authority_fields :: "string list" where
  "authority_fields =
     [''contract'', ''contract_authority_revision'', ''contract_authority_sequence'', ''execution_binding'']"

text \<open>The writes that move a record to its terminal place: archive, index, then the active file.\<close>

definition archive_writes ::
  "clock \<Rightarrow> board \<Rightarrow> string \<Rightarrow> pydict \<Rightarrow> pydict list \<Rightarrow> board_write list res" where
  "archive_writes ck s task_id d rest =
     (case load_archive_file s (ck_today ck) of
        Inl e \<Rightarrow> Inl e
      | Inr existing \<Rightarrow>
          Inr [WriteArchive (ck_today ck) (existing @ [d]),
               WriteIndex (dict_set (load_terminal_index s) task_id (JStr (ck_today ck))),
               WriteActive rest])"

definition update_task :: "clock \<Rightarrow> string \<Rightarrow> pydict \<Rightarrow> board \<Rightarrow> pydict option board_op" where
  "update_task ck task_id kwargs s =
     (case load_raw s of
        Inl e \<Rightarrow> ([], Inl e)
      | Inr raw \<Rightarrow>
          (case locate (\<lambda>d. \<not> has_key d ''id'' \<or> has_id task_id d) raw of
             None \<Rightarrow> ([], Inr None)
           | Some (pre, d, post) \<Rightarrow>
               let attempted = filter (has_key kwargs) authority_fields; d' = dict_update d kwargs in
               if \<not> has_key d ''id'' then ([], Inl (KeyError ''id''))
               else if attempted \<noteq> [] \<and> sget d ''contract_authority_revision'' \<noteq> []
               then ([], Inl (ValueError (''authority-stamped Task fields require TaskContractAuthorityService: ''
                       @ join '', '' attempted)))
               else if dict_get d' ''status'' \<in> JStr ` set TERMINAL_STATES then
                 (case archive_writes ck s task_id d' (pre @ post) of
                    Inl e \<Rightarrow> ([], Inl e)
                  | Inr ws \<Rightarrow> (ws, map_sum id Some (to_task ck d')))
               else ([WriteActive (pre @ d' # post)], map_sum id Some (to_task ck d'))))"

text \<open>Equality of dictionaries as Python compares them: key order does not matter, \<open>True == 1\<close>.\<close>

fun canon :: "json \<Rightarrow> json" where
  "canon JNull = JNull"
| "canon (JBool b) = JInt (if b then 1 else 0)"
| "canon (JInt i) = JInt i"
| "canon (JStr s) = JStr s"
| "canon (JList xs) = JList (map canon xs)"
| "canon (JObj d) = JObj (sort_dict (map (\<lambda>kv. (fst kv, canon (snd kv))) d))"

definition py_eq :: "json \<Rightarrow> json \<Rightarrow> bool" where
  "py_eq a b \<longleftrightarrow> canon a = canon b"

record contract_cas =
  cc_expected_authority_revision :: string
  cc_expected_legacy_contract :: "pydict option"
  cc_expected_legacy_binding :: pydict
  cc_contract :: pydict
  cc_execution_binding :: pydict
  cc_contract_authority_revision :: string
  cc_contract_authority_sequence :: int
  cc_task_updates :: pydict
  cc_reopen_terminal :: bool

text \<open>\<open>dict(v)\<close>: a mapping is copied, an iterable of pairs makes one, and everything else raises. A key of a pair that is not a string is refused
  with the others; the records come from JSON, whose keys are strings.\<close>

definition py_pair :: "json \<Rightarrow> (string \<times> json) res" where
  "py_pair v = (case py_list v of Inr [JStr k, x] \<Rightarrow> Inr (k, x) | _ \<Rightarrow> Inl (ValueError ''dictionary update sequence''))"

definition py_dict :: "json \<Rightarrow> pydict res" where
  "py_dict v =
     (case v of
        JObj d \<Rightarrow> Inr d
      | _ \<Rightarrow> (case py_list v of Inl e \<Rightarrow> Inl e | Inr items \<Rightarrow> map_sum id (\<lambda>kvs. dict_update [] kvs) (res_map py_pair items)))"

definition legacy_binding :: "pydict \<Rightarrow> pydict" where
  "legacy_binding raw_binding =
     map (\<lambda>fd. (fst fd, case map_of raw_binding (fst fd) of Some v \<Rightarrow> v | None \<Rightarrow> snd fd))
           TaskExecutionBinding_defaults"

text \<open>The record matches the caller's expectation: the token, and for an unstamped record the contract
  and binding too.\<close>

definition cas_matches :: "contract_cas \<Rightarrow> pydict \<Rightarrow> bool res" where
  "cas_matches c d =
     (let current = sget d ''contract_authority_revision'' in
      if current \<noteq> cc_expected_authority_revision c then Inr False
      else
        (case cc_expected_legacy_contract c of
           None \<Rightarrow> Inr True
         | Some expected \<Rightarrow>
             if current \<noteq> [] then Inr True
             else
               (case py_dict (py_or (dict_get d ''contract'') (JObj [])) of
                  Inl e \<Rightarrow> Inl e
                | Inr contract \<Rightarrow>
                    if \<not> py_eq (JObj (task_contract_from_mapping (JObj contract))) (JObj expected) then Inr False
                    else
                      (case py_dict (py_or (dict_get d ''execution_binding'') (JObj [])) of
                         Inl e \<Rightarrow> Inl e
                       | Inr binding \<Rightarrow> Inr (py_eq (JObj (legacy_binding binding)) (JObj (cc_expected_legacy_binding c)))))))"

definition cas_record :: "contract_cas \<Rightarrow> pydict \<Rightarrow> pydict" where
  "cas_record c d =
     dict_update
       (dict_set (dict_set (dict_set (dict_set d
          ''contract'' (JObj (cc_contract c)))
          ''execution_binding'' (JObj (cc_execution_binding c)))
          ''contract_authority_revision'' (JStr (cc_contract_authority_revision c)))
          ''contract_authority_sequence'' (JInt (cc_contract_authority_sequence c)))
       (cc_task_updates c)"

definition cas_stale :: "clock \<Rightarrow> pydict \<Rightarrow> (pydict option \<times> bool) board_op" where
  "cas_stale ck d = ([], map_sum id (\<lambda>t. (Some t, False)) (to_task ck d))"

text \<open>The archived record a reopening mutation starts from: the newest one.\<close>

definition archived_record :: "string \<Rightarrow> board \<Rightarrow> pydict option res" where
  "archived_record task_id s =
     (let date = dict_get (load_terminal_index s) task_id;
          dates = (if truthy date then [py_str date] else rev (list_archives s None)) in
      fold (\<lambda>date acc.
              (case acc of
                 Inr None \<Rightarrow> (case load_archive_file s date of
                                Inl e \<Rightarrow> Inl e
                              | Inr rs \<Rightarrow> Inr (find (has_id task_id) (rev rs)))
               | _ \<Rightarrow> acc)) dates (Inr None))"

definition compare_and_update_contract ::
  "clock \<Rightarrow> string \<Rightarrow> contract_cas \<Rightarrow> board \<Rightarrow> (pydict option \<times> bool) board_op" where
  "compare_and_update_contract ck task_id c s =
     (case load_raw s of
        Inl e \<Rightarrow> ([], Inl e)
      | Inr raw \<Rightarrow>
          (case locate (has_id task_id) raw of
             Some (pre, d, post) \<Rightarrow>
               (case cas_matches c d of
                  Inl e \<Rightarrow> ([], Inl e)
                | Inr matches \<Rightarrow>
                    if \<not> matches then cas_stale ck d
                    else ([WriteActive (pre @ cas_record c d # post)],
                          map_sum id (\<lambda>t. (Some t, True)) (to_task ck (cas_record c d))))
           | None \<Rightarrow>
               if \<not> cc_reopen_terminal c then ([], Inr (None, False))
               else
                 (case archived_record task_id s of
                    Inl e \<Rightarrow> ([], Inl e)
                  | Inr None \<Rightarrow> ([], Inr (None, False))
                  | Inr (Some d) \<Rightarrow>
                      (case cas_matches c d of
                         Inl e \<Rightarrow> ([], Inl e)
                       | Inr matches \<Rightarrow>
                           if \<not> matches then cas_stale ck d
                           else if sget (cas_record c d) ''status'' \<in> set TERMINAL_STATES
                           then ([], Inl (ValueError ''reopened contract mutation must set non-terminal status''))
                           else ([WriteActive (raw @ [cas_record c d]),
                                  WriteIndex (dict_pop (load_terminal_index s) task_id)],
                                 map_sum id (\<lambda>t. (Some t, True)) (to_task ck (cas_record c d)))))))"

definition compare_and_update_fields ::
  "clock \<Rightarrow> string \<Rightarrow> string \<Rightarrow> pydict \<Rightarrow> board \<Rightarrow> (pydict option \<times> bool) board_op" where
  "compare_and_update_fields ck task_id expected updates s =
     (let invalid = filter (has_key updates) authority_fields in
      if invalid \<noteq> []
      then ([], Inl (ValueError (''task field CAS cannot mutate authority fields: '' @ join '', '' invalid)))
      else
        (case load_raw s of
           Inl e \<Rightarrow> ([], Inl e)
         | Inr raw \<Rightarrow>
             (case locate (has_id task_id) raw of
                None \<Rightarrow> ([], Inr (None, False))
              | Some (pre, d, post) \<Rightarrow>
                  let d' = dict_update d updates; done = map_sum id (\<lambda>t. (Some t, True)) (to_task ck d') in
                  if sget d ''contract_authority_revision'' \<noteq> expected then cas_stale ck d
                  else if sget d' ''status'' \<in> set TERMINAL_STATES then
                    (case archive_writes ck s task_id d' (pre @ post) of
                       Inl e \<Rightarrow> ([], Inl e)
                     | Inr ws \<Rightarrow> (ws, done))
                  else ([WriteActive (pre @ d' # post)], done))))"

fun patch_contract :: "pydict \<Rightarrow> pydict \<Rightarrow> pydict res" where
  "patch_contract [] c = Inr c"
| "patch_contract ((k, v) # updates) c =
     (if k = ''acceptance_evidence''
      then
        (case py_dict (py_or (dict_get c k) (JObj [])) of
           Inl e \<Rightarrow> Inl e
         | Inr merged \<Rightarrow>
             (case py_dict (py_or v (JObj [])) of
                Inl e \<Rightarrow> Inl e
              | Inr new \<Rightarrow> patch_contract updates (dict_set c k (JObj (dict_update merged new)))))
      else patch_contract updates (dict_set c k v))"

definition patch_contract_fields :: "clock \<Rightarrow> string \<Rightarrow> pydict \<Rightarrow> board \<Rightarrow> pydict option board_op" where
  "patch_contract_fields ck task_id updates s =
     (let unknown = filter (\<lambda>k. k \<notin> set CONTRACT_METADATA_FIELDS) (map fst (sort_dict updates)) in
      if updates = [] then ([], get_task ck task_id s)
      else if unknown \<noteq> []
      then ([], Inl (ValueError (''contract metadata patch contains semantic fields: '' @ join '', '' unknown)))
      else
        (case load_raw s of
           Inl e \<Rightarrow> ([], Inl e)
         | Inr raw \<Rightarrow>
             (case locate (has_id task_id) raw of
                None \<Rightarrow> ([], Inr None)
              | Some (pre, d, post) \<Rightarrow>
                  (case py_dict (py_or (dict_get d ''contract'') (JObj [])) of
                     Inl e \<Rightarrow> ([], Inl e)
                   | Inr contract \<Rightarrow>
                       (case patch_contract updates contract of
                          Inl e \<Rightarrow> ([], Inl e)
                        | Inr patched \<Rightarrow>
                            let d' = dict_set d ''contract'' (JObj patched) in
                            ([WriteActive (pre @ d' # post)], map_sum id Some (to_task ck d')))))))"

section \<open>Queries\<close>

definition task_status :: "pydict \<Rightarrow> json" where
  "task_status t = dict_get t ''status''"

definition ready :: "clock \<Rightarrow> board \<Rightarrow> pydict list res" where
  "ready ck s =
     (case list_all_tasks ck s of
        Inl e \<Rightarrow> Inl e
      | Inr tasks \<Rightarrow>
          let terminal_active = map (\<lambda>t. dict_get t ''id'')
                (filter (\<lambda>t. task_status t \<in> JStr ` set TERMINAL_STATES) tasks);
              terminal_archived = map (JStr \<circ> fst) (load_terminal_index s);
              terminal = terminal_active @ terminal_archived in
          Inr (filter (\<lambda>t. task_status t = JStr ''backlog'' \<and> list_all (\<lambda>b. b \<in> set terminal) (blocked_by t)) tasks))"

definition filter_tasks :: "clock \<Rightarrow> string option \<Rightarrow> board \<Rightarrow> pydict list res" where
  "filter_tasks ck status s =
     map_sum id (filter (\<lambda>t. case status of None \<Rightarrow> True | Some st \<Rightarrow> task_status t = JStr st)) (list_all_tasks ck s)"

definition ensure_task :: "clock \<Rightarrow> string \<Rightarrow> string \<Rightarrow> pydict \<Rightarrow> board \<Rightarrow> pydict board_op" where
  "ensure_task ck key title kwargs s =
     (case load_raw s of
        Inl e \<Rightarrow> ([], Inl e)
      | Inr raw \<Rightarrow>
          (case locate (\<lambda>d. dict_get d ''key'' = JStr key) raw of
             Some (pre, d, post) \<Rightarrow>
               let d' = dict_update (dict_set d ''title'' (JStr title)) kwargs in
               ([WriteActive (pre @ d' # post)], to_task ck d')
           | None \<Rightarrow>
               (case make_dataclass ''Task'' (Task_defaults (ck_new_id ck) (ck_now ck))
                       ([(''title'', JStr title), (''key'', JStr key)] @ kwargs) of
                  Inl e \<Rightarrow> ([], Inl e)
                | Inr task \<Rightarrow> ([WriteActive (raw @ [task])], Inr task))))"

section \<open>Reading back what was written\<close>

lemma read_records_file [simp]: "read_records (records_file rs) = Inr rs"
  by (simp add: records_file_def list_all_iff comp_def)

lemma load_after_write [simp]:
  "load_raw (apply_write (WriteActive rs) s) = Inr rs"
  "load_raw (apply_write (WriteIndex idx) s) = load_raw s"
  "load_raw (apply_write (WriteArchive d rs) s) = load_raw s"
  by (simp_all add: load_raw_def)

lemma index_after_write [simp]:
  "load_terminal_index (apply_write (WriteActive rs) s) = load_terminal_index s"
  "load_terminal_index (apply_write (WriteIndex idx) s) = idx"
  "load_terminal_index (apply_write (WriteArchive d rs) s) = load_terminal_index s"
  by (simp_all add: load_terminal_index.simps)

lemma archive_after_write [simp]:
  "load_archive_file (apply_write (WriteActive rs) s) date = load_archive_file s date"
  "load_archive_file (apply_write (WriteIndex idx) s) date = load_archive_file s date"
  "load_archive_file (apply_write (WriteArchive d rs) s) date = (if date = d then Inr rs else load_archive_file s date)"
  by (simp_all add: load_archive_file_def archive_file_def update_conv')

declare apply_write.simps [simp del]

lemma apply_writes_simps [simp]:
  "apply_writes [] s = s" "apply_writes (w # ws) s = apply_writes ws (apply_write w s)"
  by (simp_all add: apply_writes_def)

lemma locate_Some:
  assumes "locate P xs = Some (pre, x, post)"
  shows "xs = pre @ x # post" and "P x" and "\<forall>y \<in> set pre. \<not> P y"
proof -
  have "xs = pre @ x # post \<and> P x \<and> (\<forall>y \<in> set pre. \<not> P y)"
    using assms by (induction xs arbitrary: pre) (auto split: if_splits option.splits)
  then show "xs = pre @ x # post" and "P x" and "\<forall>y \<in> set pre. \<not> P y" by auto
qed

lemma locate_None: "locate P xs = None \<longleftrightarrow> (\<forall>x \<in> set xs. \<not> P x)"
  by (induction xs) (auto split: option.splits)

lemma locate_append:
  "\<forall>y \<in> set pre. \<not> P y \<Longrightarrow> P x \<Longrightarrow> locate P (pre @ x # post) = Some (pre, x, post)"
  by (induction pre) auto

lemma dict_get_update: "\<not> has_key e k \<Longrightarrow> dict_get (dict_update d e) k = dict_get d k"
  unfolding dict_update_def
proof (induction e arbitrary: d)
  case (Cons kv e)
  then have "fst kv \<noteq> k" "\<not> has_key e k" by (auto simp: has_key_def split: if_splits prod.splits)
  with Cons show ?case by auto
qed simp

lemma sget_update: "\<not> has_key e k \<Longrightarrow> sget (dict_update d e) k = sget d k"
  by (simp add: sget_def dict_get_update)

lemma keys_dict_pop: "fst ` set (dict_pop d k) = fst ` set d - {k}"
  by (auto simp: dict_pop_def image_iff)

lemma has_key_iff: "has_key d k \<longleftrightarrow> k \<in> fst ` set d"
  by (auto simp: has_key_def map_of_eq_None_iff)

section \<open>No write sequence loses a task\<close>

text \<open>The ids dependency resolution can see: records on the active board, keys of the index.\<close>

definition active_ids :: "board \<Rightarrow> json list" where
  "active_ids s = (case load_raw s of Inl e \<Rightarrow> [] | Inr raw \<Rightarrow> map (\<lambda>d. dict_get d ''id'') raw)"

definition known_ids :: "board \<Rightarrow> json list" where
  "known_ids s = active_ids s @ map (JStr \<circ> fst) (load_terminal_index s)"

text \<open>The methods that change the board.\<close>

datatype board_call =
    AddTask pydict
  | AddMany "pydict list"
  | Reopen pydict
  | UpdateTask string pydict
  | CasContract string contract_cas
  | CasFields string string pydict
  | PatchContract string pydict
  | EnsureTask string string pydict
  | RebuildIndex

fun call_writes :: "clock \<Rightarrow> board_call \<Rightarrow> board \<Rightarrow> board_write list" where
  "call_writes ck (AddTask t) s = fst (add_task t s)"
| "call_writes ck (AddMany ts) s = fst (add_many ts s)"
| "call_writes ck (Reopen t) s = fst (reopen t s)"
| "call_writes ck (UpdateTask i kw) s = fst (update_task ck i kw s)"
| "call_writes ck (CasContract i c) s = fst (compare_and_update_contract ck i c s)"
| "call_writes ck (CasFields i ex up) s = fst (compare_and_update_fields ck i ex up s)"
| "call_writes ck (PatchContract i up) s = fst (patch_contract_fields ck i up s)"
| "call_writes ck (EnsureTask k t kw) s = fst (ensure_task ck k t kw s)"
| "call_writes ck RebuildIndex s = fst (rebuild_terminal_index_from_archive s)"

text \<open>The call does not rename a task, and a reopened task has a string id.\<close>

fun keeps_ids :: "board_call \<Rightarrow> bool" where
  "keeps_ids (Reopen t) \<longleftrightarrow> has_id (task_id_of t) t"
| "keeps_ids (UpdateTask i kw) \<longleftrightarrow> \<not> has_key kw ''id''"
| "keeps_ids (CasContract i c) \<longleftrightarrow> \<not> has_key (cc_task_updates c) ''id''"
| "keeps_ids (CasFields i ex up) \<longleftrightarrow> \<not> has_key up ''id''"
| "keeps_ids (EnsureTask k t kw) \<longleftrightarrow> \<not> has_key kw ''id''"
| "keeps_ids _ \<longleftrightarrow> True"

text \<open>The shapes a write sequence can have. Each keeps the known ids, after any prefix; for a rebuilt index this needs the archives to hold what
  the index names.\<close>

definition ids_of :: "pydict list \<Rightarrow> json set" where
  "ids_of raw = (\<lambda>d. dict_get d ''id'') ` set raw"

lemma ids_of_simps [simp]:
  "ids_of [] = {}" "ids_of (d # ds) = insert (dict_get d ''id'') (ids_of ds)" "ids_of (xs @ ys) = ids_of xs \<union> ids_of ys"
  by (auto simp: ids_of_def)

definition index_ids :: "pydict \<Rightarrow> json set" where
  "index_ids idx = JStr ` fst ` set idx"

lemma index_ids_simps [simp]:
  "index_ids [] = {}"
  "index_ids (dict_set idx i v) = insert (JStr i) (index_ids idx)"
  "index_ids (dict_pop idx i) = index_ids idx - {JStr i}"
  by (auto simp: index_ids_def keys_dict_set keys_dict_pop image_set_diff inj_def)

lemma known_loaded:
  "load_raw s = Inr raw \<Longrightarrow> set (known_ids s) = ids_of raw \<union> index_ids (load_terminal_index s)"
  by (auto simp: known_ids_def active_ids_def ids_of_def index_ids_def)

text \<open>The ids the archive files hold. The index is backed by the archives when these hold every id of it but the blank one, which a rebuilt
  index skips, and the archive files that can be read are lists: a file that is not is replaced by the next record archived on its day.\<close>

definition file_ids :: "disk_file \<Rightarrow> string list" where
  "file_ids f = (case f of JsonFile data \<Rightarrow> archive_ids data | _ \<Rightarrow> [])"

definition archived_ids :: "board \<Rightarrow> string list" where
  "archived_ids s = concat (map (file_ids \<circ> snd) (bd_archives s))"

definition list_file :: "disk_file \<Rightarrow> bool" where
  "list_file f = (case f of JsonFile (JList items) \<Rightarrow> True | JsonFile _ \<Rightarrow> False | _ \<Rightarrow> True)"

definition index_backed :: "board \<Rightarrow> bool" where
  "index_backed s \<longleftrightarrow>
     list_all (\<lambda>i. i = [] \<or> i \<in> set (archived_ids s)) (map fst (load_terminal_index s)) \<and> list_all (list_file \<circ> snd) (bd_archives s)"

lemma index_backed_iff:
  "index_backed s \<longleftrightarrow> index_ids (load_terminal_index s) - {JStr []} \<subseteq> JStr ` set (archived_ids s) \<and> list_all (list_file \<circ> snd) (bd_archives s)"
  by (auto simp: index_backed_def list_all_iff index_ids_def)

lemma rebuilt_ids:
  "call_writes ck RebuildIndex s = [WriteIndex idx] \<Longrightarrow> index_ids idx = JStr ` set (archived_ids s)"
proof -
  have ids: "index_ids (fold (\<lambda>i m. dict_set m i v) is idx) = index_ids idx \<union> JStr ` set is" for v "is" idx
    by (induction "is" arbitrary: idx) auto
  have step: "index_ids (index_archive df idx) = index_ids idx \<union> JStr ` set (file_ids (snd df))" for df idx
    by (simp add: index_archive_def file_ids_def ids split: disk_file.split)
  have "index_ids (fold index_archive dfs idx) = index_ids idx \<union> JStr ` set (concat (map (file_ids \<circ> snd) dfs))" for dfs idx
    by (induction dfs arbitrary: idx) (simp_all add: step image_Un Un_assoc)
  moreover assume "call_writes ck RebuildIndex s = [WriteIndex idx]"
  then have "idx = fold index_archive (sort_dict (bd_archives s)) []" by (simp add: rebuild_terminal_index_from_archive_def Let_def)
  ultimately show ?thesis by (simp add: archived_ids_def)
qed

lemma archive_ids_records: "archive_ids (JList (map JObj rs)) = filter (\<lambda>i. i \<noteq> []) (map (\<lambda>r. sget_first r [''id'', ''task_id'']) rs)"
  by (simp add: archive_ids_def comp_def del: sget_first.simps)

lemma read_list_file:
  assumes "read_records f = Inr rs" "list_file f"
  shows "file_ids f = archive_ids (JList (map JObj rs))"
proof (cases f)
  case (JsonFile data)
  then obtain items where data: "data = JList items" using assms(2) by (cases data) (auto simp: list_file_def)
  then have "list_all is_dict items" "rs = map as_dict items" using assms(1) JsonFile by (auto split: if_splits)
  moreover from this(1) have "map (JObj \<circ> as_dict) items = items" by (induction items) (auto elim: is_dict.elims)
  ultimately show ?thesis using JsonFile data by (simp add: file_ids_def)
qed (use assms(1) in \<open>auto simp: file_ids_def archive_ids_def\<close>)

text \<open>Archiving a record keeps what the archives hold and adds its id.\<close>

lemma archived_ids_append:
  assumes "load_archive_file s date = Inr rs" "list_all (list_file \<circ> snd) (bd_archives s)" "dict_get d ''id'' = JStr i"
  shows "set (archived_ids s) \<union> ({i} - {[]}) \<subseteq> set (archived_ids (apply_write (WriteArchive date (rs @ [d])) s))"
    and "list_all (list_file \<circ> snd) (bd_archives (apply_write (WriteArchive date (rs @ [d])) s))"
proof -
  define f where "f = records_file (rs @ [d])"
  have "i \<noteq> [] \<Longrightarrow> sget_first d [''id'', ''task_id''] = i" using assms(3) by simp
  then have new: "set (archive_ids (JList (map JObj rs))) \<union> ({i} - {[]}) \<subseteq> set (file_ids f)"
    by (auto simp: f_def file_ids_def records_file_def archive_ids_records simp del: sget_first.simps map_append)
  have "set (concat (map (file_ids \<circ> snd) xs)) \<union> ({i} - {[]}) \<subseteq> set (concat (map (file_ids \<circ> snd) (AList.update date f xs)))"
    if "read_records (case map_of xs date of None \<Rightarrow> NoFile | Some f \<Rightarrow> f) = Inr rs" "list_all (list_file \<circ> snd) xs" for xs
    using that
  proof (induction xs)
    case (Cons x xs)
    show ?case
    proof (cases "fst x = date")
      case True
      then have "file_ids (snd x) = archive_ids (JList (map JObj rs))" using Cons.prems by (intro read_list_file) (cases x; auto)+
      then show ?thesis using True new by (cases x) auto
    next
      case False
      then show ?thesis using Cons by (cases x) auto
    qed
  qed (use new in auto)
  then show "set (archived_ids s) \<union> ({i} - {[]}) \<subseteq> set (archived_ids (apply_write (WriteArchive date (rs @ [d])) s))"
    using assms(1,2) by (simp add: archived_ids_def f_def load_archive_file_def archive_file_def apply_write.simps)
  have "list_all (list_file \<circ> snd) (AList.update date f xs)" if "list_all (list_file \<circ> snd) xs" for xs
    using that by (induction xs) (auto simp: f_def list_file_def records_file_def)
  then show "list_all (list_file \<circ> snd) (bd_archives (apply_write (WriteArchive date (rs @ [d])) s))"
    using assms(2) by (simp add: f_def apply_write.simps)
qed

inductive safe_writes :: "board \<Rightarrow> board_write list \<Rightarrow> bool" for s where
  none: "safe_writes s []"
| active: "load_raw s = Inr raw \<Longrightarrow> ids_of raw \<subseteq> ids_of raw' \<Longrightarrow> safe_writes s [WriteActive raw']"
| reopened: "load_raw s = Inr raw \<Longrightarrow> ids_of raw \<subseteq> ids_of raw' \<Longrightarrow> JStr i \<in> ids_of raw'
    \<Longrightarrow> safe_writes s [WriteActive raw', WriteIndex (dict_pop (load_terminal_index s) i)]"
| rebuilt: "index_ids idx = JStr ` set (archived_ids s) \<Longrightarrow> safe_writes s [WriteIndex idx]"
| archived: "load_raw s = Inr (pre @ d # post) \<Longrightarrow> dict_get d ''id'' = JStr i \<Longrightarrow> dict_get d' ''id'' = JStr i \<Longrightarrow> load_archive_file s date = Inr rs
    \<Longrightarrow> safe_writes s [WriteArchive date (rs @ [d']), WriteIndex (dict_set (load_terminal_index s) i v), WriteActive (pre @ post)]"

lemma take_cases3: "take n [x, y, z] \<in> {[], [x], [x, y], [x, y, z]}"
  by (cases n; cases "n - 1"; cases "n - 2") (auto simp: take_Cons' numeral_eq_Suc)

lemma take_cases2: "take n [x, y] \<in> {[], [x], [x, y]}"
  by (cases n; cases "n - 1") (auto simp: take_Cons')

lemma take_cases1: "take n [x] \<in> {[], [x]}"
  by (cases n) auto

lemma archives_writes [simp]:
  "bd_archives (apply_write (WriteActive rs) s) = bd_archives s" "bd_archives (apply_write (WriteIndex idx) s) = bd_archives s"
  "archived_ids (apply_write (WriteActive rs) s) = archived_ids s" "archived_ids (apply_write (WriteIndex idx) s) = archived_ids s"
  by (simp_all add: apply_write.simps archived_ids_def)

lemma index_backed_writes [simp]:
  "index_backed (apply_write (WriteActive rs) s) = index_backed s"
  "index_backed (apply_write (WriteIndex idx) s) \<longleftrightarrow> index_ids idx - {JStr []} \<subseteq> JStr ` set (archived_ids s) \<and> list_all (list_file \<circ> snd) (bd_archives s)"
  by (simp_all add: index_backed_iff)

lemma active_index: "active_ids (apply_write (WriteIndex idx) s) = active_ids s"
  by (simp add: active_ids_def)

lemma known_split: "set (known_ids s) = set (active_ids s) \<union> index_ids (load_terminal_index s)"
  by (auto simp: known_ids_def index_ids_def)

text \<open>After any prefix of the writes the known ids, up to the blank one, are still known, and the index is backed.\<close>

definition still_known :: "board \<Rightarrow> board \<Rightarrow> bool" where
  "still_known s s' \<longleftrightarrow> set (known_ids s) - {JStr []} \<subseteq> set (known_ids s') \<and> index_backed s'"

lemma safe_writes_known:
  assumes "safe_writes s ws" "index_backed s"
  shows "still_known s (apply_writes (take n ws) s)"
  using assms(1)
proof cases
  case none
  then show ?thesis using assms(2) by (auto simp: still_known_def)
next
  case (active raw raw')
  with take_cases1 [of n "WriteActive raw'"]
  have "apply_writes (take n ws) s \<in> {s, apply_write (WriteActive raw') s}" by auto
  moreover note known_loaded [OF active(2)] known_loaded [of "apply_write (WriteActive raw') s" raw']
  ultimately show ?thesis using active(3) assms(2) by (auto simp: still_known_def)
next
  case (reopened raw raw' i)
  let ?idx = "dict_pop (load_terminal_index s) i"
  have "apply_writes (take n ws) s \<in> {s, apply_write (WriteActive raw') s, apply_write (WriteIndex ?idx) (apply_write (WriteActive raw') s)}"
    using reopened(1) take_cases2 [of n "WriteActive raw'" "WriteIndex ?idx"] by auto
  moreover note known_loaded [OF reopened(2)] known_loaded [of "apply_write (WriteActive raw') s" raw']
    known_loaded [of "apply_write (WriteIndex ?idx) (apply_write (WriteActive raw') s)" raw']
  moreover have "index_backed (apply_write (WriteIndex ?idx) (apply_write (WriteActive raw') s))"
    using assms(2) by (auto simp: index_backed_iff)
  ultimately show ?thesis using reopened(3,4) assms(2) by (auto simp: still_known_def)
next
  case (rebuilt idx)
  have "apply_writes (take n ws) s \<in> {s, apply_write (WriteIndex idx) s}" using rebuilt(1) take_cases1 [of n "WriteIndex idx"] by auto
  moreover have "still_known s (apply_write (WriteIndex idx) s)"
    using rebuilt(2) assms(2) by (auto simp: still_known_def known_split active_index index_backed_iff)
  ultimately show ?thesis using assms(2) by (auto simp: still_known_def)
next
  case (archived pre d post i d' date rs v)
  let ?s1 = "apply_write (WriteArchive date (rs @ [d'])) s"
  let ?s2 = "apply_write (WriteIndex (dict_set (load_terminal_index s) i v)) ?s1"
  let ?s3 = "apply_write (WriteActive (pre @ post)) ?s2"
  have "apply_writes (take n ws) s \<in> {s, ?s1, ?s2, ?s3}"
    using archived(1) take_cases3 [of n "WriteArchive date (rs @ [d'])"
      "WriteIndex (dict_set (load_terminal_index s) i v)" "WriteActive (pre @ post)"] by auto
  moreover note known_loaded [OF archived(2)] known_loaded [of ?s1 "pre @ d # post"]
    known_loaded [of ?s2 "pre @ d # post"] known_loaded [of ?s3 "pre @ post"]
  moreover have "list_all (list_file \<circ> snd) (bd_archives s)" using assms(2) by (simp add: index_backed_iff)
  note more = archived_ids_append [OF archived(5) this archived(4)]
  then have "JStr ` set (archived_ids s) \<union> ({JStr i} - {JStr []}) \<subseteq> JStr ` set (archived_ids ?s1)" by blast
  then have "index_backed ?s1" "index_backed ?s2"
    using assms(2) more(2) by (simp_all add: index_backed_iff) blast+
  ultimately show ?thesis using archived(2,3) assms(2) by (auto simp: still_known_def)
qed

lemma archive_writes_safe:
  assumes "load_raw s = Inr (pre @ d # post)" and "dict_get d ''id'' = JStr i" "dict_get d' ''id'' = dict_get d ''id''"
    and "archive_writes ck s i d' (pre @ post) = Inr ws"
  shows "safe_writes s ws"
  using assms by (auto simp: archive_writes_def split: sum.splits intro: safe_writes.archived)

lemma replaced_safe:
  assumes "load_raw s = Inr (pre @ d # post)" and "dict_get d' ''id'' = dict_get d ''id''"
  shows "safe_writes s [WriteActive (pre @ d' # post)]"
  using assms by (auto intro: safe_writes.active)

lemma add_loop_prefix:
  "\<exists>new. fst (add_loop tids tasks raw ex) = raw @ new"
proof (induction tids tasks raw ex rule: add_loop.induct)
  case (2 tids task tasks raw ex)
  then show ?case by (auto simp: Let_def split: prod.splits)
qed simp

lemma find_SomeD: "find P xs = Some x \<Longrightarrow> P x \<and> x \<in> set xs"
  by (induction xs) (auto split: if_splits)

lemma archived_record_id:
  assumes "archived_record i s = Inr (Some d)"
  shows "has_id i d"
proof -
  let ?step = "\<lambda>date acc. case acc of Inr None \<Rightarrow> (case load_archive_file s date of Inl e \<Rightarrow> Inl e
      | Inr rs \<Rightarrow> Inr (find (has_id i) (rev rs))) | _ \<Rightarrow> acc"
  have "fold ?step dates acc = Inr (Some d) \<Longrightarrow> (\<And>x. acc = Inr (Some x) \<Longrightarrow> has_id i x) \<Longrightarrow> has_id i d"
    for dates acc
  proof (induction dates arbitrary: acc)
    case (Cons date dates)
    show ?case
    proof (rule Cons.IH)
      show "fold ?step dates (?step date acc) = Inr (Some d)" using Cons.prems(1) by simp
    next
      fix x assume "?step date acc = Inr (Some x)"
      then show "has_id i x"
        using Cons.prems(2) by (auto split: sum.splits option.splits dest: find_SomeD)
    qed
  qed simp
  then show ?thesis using assms unfolding archived_record_def Let_def by blast
qed

lemma rebuild_safe: "safe_writes s (fst (rebuild_terminal_index_from_archive s))"
proof -
  have "call_writes ck RebuildIndex s = [WriteIndex (fold index_archive (sort_dict (bd_archives s)) [])]" for ck
    by (simp add: rebuild_terminal_index_from_archive_def Let_def)
  from safe_writes.rebuilt [OF rebuilt_ids, OF this] show ?thesis by (simp add: rebuild_terminal_index_from_archive_def Let_def)
qed

lemma call_writes_safe:
  assumes "keeps_ids x"
  shows "safe_writes s (call_writes ck x s)"
proof (cases "load_raw s")
  case (Inl e)
  then show ?thesis
    by (cases x) (auto simp: add_task_def add_many_def reopen_def update_task_def compare_and_update_contract_def
        compare_and_update_fields_def patch_contract_fields_def ensure_task_def Let_def intro: safe_writes.none rebuild_safe)
next
  case (Inr raw)
  show ?thesis
  proof (cases x)
    case RebuildIndex
    then show ?thesis using rebuild_safe by simp
  next
    case (AddTask t)
    with Inr show ?thesis
      by (auto simp: add_task_def Let_def intro!: safe_writes.none safe_writes.active split: option.splits)
  next
    case (AddMany ts)
    have "ids_of raw \<subseteq> ids_of (fst (add_loop tids ts raw ex))" for tids ex
      using add_loop_prefix [of tids ts raw ex] by auto
    with AddMany Inr show ?thesis
      by (auto simp: add_many_def Let_def split: list.splits prod.splits intro!: safe_writes.none safe_writes.active)
        (metis fst_conv subsetD)
  next
    case (Reopen t)
    let ?raw' = "case locate (has_id (task_id_of t)) raw of Some (pre, _, post) \<Rightarrow> pre @ t # post | None \<Rightarrow> raw @ [t]"
    have t: "dict_get t ''id'' = JStr (task_id_of t)" using assms Reopen by (simp add: has_id_def)
    have "ids_of raw \<subseteq> ids_of ?raw' \<and> JStr (task_id_of t) \<in> ids_of ?raw'"
    proof (cases "locate (has_id (task_id_of t)) raw")
      case (Some q)
      then show ?thesis
        using t locate_Some(1,2) [of "has_id (task_id_of t)" raw] by (cases q) (auto simp: has_id_def)
    qed (auto simp: t)
    with Reopen Inr show ?thesis
      by (auto simp: reopen_def Let_def intro: safe_writes.none safe_writes.active safe_writes.reopened)
  next
    case (UpdateTask i kw)
    then have kw: "\<not> has_key kw ''id''" using assms by simp
    show ?thesis
    proof (cases "locate (\<lambda>d. \<not> has_key d ''id'' \<or> has_id i d) raw")
      case None
      with UpdateTask Inr show ?thesis by (simp add: update_task_def safe_writes.none)
    next
      case (Some q)
      then obtain pre d post where q: "locate (\<lambda>d. \<not> has_key d ''id'' \<or> has_id i d) raw = Some (pre, d, post)"
        by (cases q) auto
      from locate_Some [OF q] have raw: "load_raw s = Inr (pre @ d # post)" and d: "\<not> has_key d ''id'' \<or> has_id i d"
        using Inr by auto
      have i: "dict_get (dict_update d kw) ''id'' = dict_get d ''id''" using kw by (rule dict_get_update)
      show ?thesis
        using UpdateTask raw q d locate_Some(1) [OF q]
        by (auto simp: update_task_def Let_def has_id_def intro: safe_writes.none replaced_safe [OF raw i]
            archive_writes_safe [OF raw _ i] split: sum.splits)
    qed
  next
    case (CasContract i c)
    then have c: "dict_get (cas_record c d) ''id'' = dict_get d ''id''" for d
      using assms by (simp add: cas_record_def dict_get_update)
    show ?thesis
    proof (cases "locate (has_id i) raw")
      case (Some q)
      then obtain pre d post where q: "locate (has_id i) raw = Some (pre, d, post)" by (cases q) auto
      with Inr locate_Some(1) [OF q] have raw: "load_raw s = Inr (pre @ d # post)" by simp
      from CasContract Inr q show ?thesis
        by (auto simp: compare_and_update_contract_def cas_stale_def intro: safe_writes.none replaced_safe [OF raw c] split: sum.splits)
    next
      case None
      have "JStr i \<in> ids_of (raw @ [cas_record c d])" if "archived_record i s = Inr (Some d)" for d
        using archived_record_id [OF that] c by (simp add: has_id_def)
      with CasContract Inr None show ?thesis
        by (auto simp: compare_and_update_contract_def cas_stale_def split: sum.splits option.splits
            intro!: safe_writes.none safe_writes.reopened)
    qed
  next
    case (CasFields i e up)
    then have up: "\<not> has_key up ''id''" using assms by simp
    show ?thesis
    proof (cases "locate (has_id i) raw")
      case None
      with CasFields Inr show ?thesis by (simp add: compare_and_update_fields_def Let_def safe_writes.none)
    next
      case (Some q)
      then obtain pre d post where q: "locate (has_id i) raw = Some (pre, d, post)" by (cases q) auto
      from locate_Some [OF q] have raw: "load_raw s = Inr (pre @ d # post)" and d: "dict_get d ''id'' = JStr i"
        using Inr by (auto simp: has_id_def)
      have i: "dict_get (dict_update d up) ''id'' = dict_get d ''id''" using up by (rule dict_get_update)
      from CasFields Inr q show ?thesis
        by (auto simp: compare_and_update_fields_def cas_stale_def Let_def intro: safe_writes.none
            replaced_safe [OF raw i] archive_writes_safe [OF raw d i] split: sum.splits)
    qed
  next
    case (PatchContract i up)
    show ?thesis
    proof (cases "locate (has_id i) raw")
      case None
      with PatchContract Inr show ?thesis by (simp add: patch_contract_fields_def Let_def safe_writes.none)
    next
      case (Some q)
      then obtain pre d post where q: "locate (has_id i) raw = Some (pre, d, post)" by (cases q) auto
      with Inr locate_Some(1) [OF q] have raw: "load_raw s = Inr (pre @ d # post)" by simp
      from PatchContract Inr q show ?thesis
        by (auto simp: patch_contract_fields_def Let_def intro: safe_writes.none intro!: replaced_safe [OF raw] split: sum.splits)
    qed
  next
    case (EnsureTask k t kw)
    then have kw: "\<not> has_key kw ''id''" using assms by simp
    show ?thesis
    proof (cases "locate (\<lambda>d. dict_get d ''key'' = JStr k) raw")
      case None
      with EnsureTask Inr show ?thesis
        by (auto simp: ensure_task_def split: sum.splits intro!: safe_writes.none safe_writes.active)
    next
      case (Some q)
      then obtain pre d post where q: "locate (\<lambda>d. dict_get d ''key'' = JStr k) raw = Some (pre, d, post)"
        by (cases q) auto
      with Inr locate_Some(1) [OF q] have raw: "load_raw s = Inr (pre @ d # post)" by simp
      from EnsureTask Inr q kw show ?thesis
        by (auto simp: ensure_task_def Let_def dict_get_update intro!: replaced_safe [OF raw])
    qed
  qed
qed

text \<open>Calls one after the other, each interrupted after some number of its writes or run to its end.\<close>

fun crash_run :: "(clock \<times> board_call \<times> nat) list \<Rightarrow> board \<Rightarrow> board" where
  "crash_run [] s = s"
| "crash_run ((ck, x, n) # calls) s = crash_run calls (apply_writes (take n (call_writes ck x s)) s)"

lemma still_known_trans: "still_known s t \<Longrightarrow> still_known t u \<Longrightarrow> still_known s u"
  by (auto simp: still_known_def)

text \<open>C2: no task is lost by a crash. Take any sequence of the methods of the store that write - add, add_many, reopen, update, the two
  compare-and-update methods, patch_contract_fields, ensure and the rebuilding of the terminal index - and let the process die in each of them after any number of its
  file writes. Then every task id that dependency resolution could see before, on the active board or in the terminal index, can still be seen,
  and the index is still backed by the archives. This holds for a board whose index is backed by the archives at the start (its ids
  other than the blank one are in archive files, and the archive files that can be read are lists of records, as the store writes them), for ids other than the blank
  one, and for calls that do not rename a task (no id among the updated fields, a string id in a reopened task).\<close>

theorem board_crash_keeps_tasks:
  assumes "list_all (\<lambda>(ck, x, n). keeps_ids x) calls" and "index_backed s"
  shows "set (known_ids s) - {JStr []} \<subseteq> set (known_ids (crash_run calls s)) \<and> index_backed (crash_run calls s)"
proof -
  have "still_known s (crash_run calls s)" using assms
  proof (induction calls s rule: crash_run.induct)
    case (2 ck x n calls s)
    then have "still_known s (apply_writes (take n (call_writes ck x s)) s)" by (intro safe_writes_known call_writes_safe) simp_all
    moreover from this have "still_known (apply_writes (take n (call_writes ck x s)) s) (crash_run calls (apply_writes (take n (call_writes ck x s)) s))"
      using 2 by (simp add: still_known_def)
    ultimately show ?case using still_known_trans by simp
  qed (simp add: still_known_def)
  then show ?thesis by (simp add: still_known_def)
qed

definition demo_clock :: clock where
  "demo_clock = \<lparr>ck_today = ''2026-07-09'', ck_now = ''t'', ck_new_id = ''TASK-000001''\<rparr>"

definition demo_record :: "string \<Rightarrow> string list \<Rightarrow> pydict" where
  "demo_record i deps = [(''id'', JStr i), (''status'', JStr ''backlog''), (''blocked_by'', JList (map JStr deps))]"

definition demo_board :: board where
  "demo_board = \<lparr>bd_active = records_file [demo_record ''A'' [], demo_record ''B'' [''A'']],
     bd_index = NoFile, bd_archives = []\<rparr>"

definition done_kwargs :: pydict where
  "done_kwargs = [(''status'', JStr ''done'')]"

definition crash_calls :: "(clock \<times> board_call \<times> nat) list" where
  "crash_calls = [(demo_clock, UpdateTask ''A'' done_kwargs, 2), (demo_clock, UpdateTask ''A'' done_kwargs, 3), (demo_clock, RebuildIndex, 1)]"

theorem board_crash_keeps_tasks_witness:
  "index_backed demo_board \<and> set (known_ids demo_board) - {JStr []} \<subseteq> set (known_ids (crash_run crash_calls demo_board))
   \<and> known_ids (crash_run crash_calls demo_board) = [JStr ''B'', JStr ''A'']"
proof -
  have "index_backed demo_board" "list_all (\<lambda>(ck, x, n). keeps_ids x) crash_calls" by code_simp+
  moreover have "known_ids (crash_run crash_calls demo_board) = [JStr ''B'', JStr ''A'']" by code_simp
  ultimately show ?thesis using board_crash_keeps_tasks [of crash_calls demo_board] by blast
qed

text \<open>Without that the rebuilt index loses what only the index knew.\<close>

lemma rebuild_forgets:
  "known_ids \<lparr>bd_active = NoFile, bd_index = JsonFile (JObj [(''A'', JStr ''2026-07-01'')]), bd_archives = []\<rparr> = [JStr ''A'']"
  "known_ids (crash_run [(demo_clock, RebuildIndex, 1)]
     \<lparr>bd_active = NoFile, bd_index = JsonFile (JObj [(''A'', JStr ''2026-07-01'')]), bd_archives = []\<rparr>) = []"
  by code_simp+

section \<open>Completing a task unblocks its dependents\<close>

lemma res_map_Inr: "res_map f xs = Inr ys \<Longrightarrow> list_all2 (\<lambda>x y. f x = Inr y) xs ys"
  by (induction xs arbitrary: ys) (auto split: sum.splits)

lemma list_all2_res_map: "list_all2 (\<lambda>x y. f x = Inr y) xs ys \<Longrightarrow> res_map f xs = Inr ys"
  by (induction xs ys rule: list_all2_induct) auto

lemma res_map_append:
  assumes "res_map f (xs @ x # zs) = Inr ys"
  obtains ys1 y ys2 where "ys = ys1 @ y # ys2" and "f x = Inr y" and "res_map f (xs @ zs) = Inr (ys1 @ ys2)"
proof -
  from res_map_Inr [OF assms] obtain ys1 y ys2 where
    "ys = ys1 @ y # ys2" "list_all2 (\<lambda>x y. f x = Inr y) xs ys1" "f x = Inr y" "list_all2 (\<lambda>x y. f x = Inr y) zs ys2"
    by (auto simp: list_all2_append1 list_all2_Cons1)
  with that show ?thesis by (metis list_all2_appendI list_all2_res_map)
qed

lemma make_dataclass_get:
  assumes "make_dataclass cls table data = Inr obj" and "map_of data k = Some v"
  shows "dict_get obj k = v"
proof -
  from assms(1) have obj: "obj = map (\<lambda>fd. (fst fd, (case map_of data (fst fd) of Some v \<Rightarrow> v | None \<Rightarrow> snd fd))) table"
    and all: "\<forall>kv \<in> set data. has_key table (fst kv)"
    by (auto simp: make_dataclass_def find_None_iff split: option.splits)
  from assms(2) have "(k, v) \<in> set data" by (rule map_of_SomeD)
  with all obtain w where "map_of table k = Some w" by (auto simp: has_key_def)
  then show ?thesis
    using assms(2) map_of_map_fields [of "\<lambda>a b. case map_of data a of Some v \<Rightarrow> v | None \<Rightarrow> b" table k]
    by (simp add: obj dict_get_def)
qed

lemma to_task_id:
  assumes "to_task ck d = Inr t" and "dict_get d ''id'' = JStr i"
  shows "dict_get t ''id'' = JStr i"
proof -
  have m: "map_of (dict_pop (dict_pop (dict_pop d ''contract'') ''execution_binding'') ''evidence'' @ xs) ''id''
      = Some (JStr i)" for xs
    using assms(2) by (auto simp: dict_get_def map_add_def split: option.splits)
  from assms(1) obtain xs where "make_dataclass ''Task'' (Task_defaults (ck_new_id ck) (ck_now ck))
      (dict_pop (dict_pop (dict_pop d ''contract'') ''execution_binding'') ''evidence'' @ xs) = Inr t"
    by (auto simp: to_task_def Let_def split: sum.splits)
  from make_dataclass_get [OF this m] show ?thesis .
qed

definition terminal_ids :: "pydict list \<Rightarrow> board \<Rightarrow> json set" where
  "terminal_ids tasks s = (\<lambda>t. dict_get t ''id'') ` {t \<in> set tasks. task_status t \<in> JStr ` set TERMINAL_STATES}
     \<union> index_ids (load_terminal_index s)"

lemma ready_iff:
  assumes "list_all_tasks ck s = Inr tasks"
  shows "\<exists>rs. ready ck s = Inr rs \<and> set rs = {t \<in> set tasks. task_status t = JStr ''backlog''
    \<and> set (blocked_by t) \<subseteq> terminal_ids tasks s}"
proof -
  have eq: "set (map (\<lambda>t. dict_get t ''id'') (filter (\<lambda>t. task_status t \<in> JStr ` set TERMINAL_STATES) tasks)
      @ map (JStr \<circ> fst) (load_terminal_index s)) = terminal_ids tasks s"
    by (simp add: terminal_ids_def index_ids_def image_comp)
  show ?thesis
    unfolding ready_def assms sum.case Let_def eq by (auto simp: list_all_iff subset_iff)
qed

lemma update_archives:
  assumes "length (fst (update_task ck i kw s)) = 3"
  obtains pre d post rs where "load_raw s = Inr (pre @ d # post)" and "has_id i d"
    and "load_archive_file s (ck_today ck) = Inr rs"
    and "dict_get (dict_update d kw) ''status'' \<in> JStr ` set TERMINAL_STATES"
    and "\<forall>x \<in> set pre. \<not> has_id i x"
    and "update_task ck i kw s =
      ([WriteArchive (ck_today ck) (rs @ [dict_update d kw]),
        WriteIndex (dict_set (load_terminal_index s) i (JStr (ck_today ck))),
        WriteActive (pre @ post)], map_sum id Some (to_task ck (dict_update d kw)))"
proof -
  from assms obtain raw where raw: "load_raw s = Inr raw"
    by (cases "load_raw s") (auto simp: update_task_def)
  with assms obtain pre d post where q: "locate (\<lambda>d. \<not> has_key d ''id'' \<or> has_id i d) raw = Some (pre, d, post)"
    by (cases "locate (\<lambda>d. \<not> has_key d ''id'' \<or> has_id i d) raw") (auto simp: update_task_def)
  note l = locate_Some [OF q]
  from assms raw q have h: "has_key d ''id''"
    "dict_get (dict_update d kw) ''status'' \<in> JStr ` set TERMINAL_STATES"
    "\<not> (filter (has_key kw) authority_fields \<noteq> [] \<and> sget d ''contract_authority_revision'' \<noteq> [])"
    by (auto simp: update_task_def Let_def split: if_splits)
  with assms raw q obtain rs where rs: "load_archive_file s (ck_today ck) = Inr rs"
    by (cases "load_archive_file s (ck_today ck)") (auto simp: update_task_def Let_def archive_writes_def)
  show ?thesis
    by (rule that [of pre d post rs]) (use raw l q h rs in \<open>auto simp: update_task_def Let_def archive_writes_def\<close>)
qed

text \<open>C6: completing a task unblocks its dependents, even through a crash. When an update moves a task
  to a terminal state, then as soon as the index has been written (before the active file is
  rewritten, and also after) a backlog task whose other blockers were already terminal is ready.\<close>

theorem board_completion_unblocks:
  assumes upd: "length (fst (update_task ck i kw s)) = 3" and n: "2 \<le> n"
    and tasks: "list_all_tasks ck s = Inr tasks" and t: "t \<in> set tasks"
    and backlog: "task_status t = JStr ''backlog''" and other: "dict_get t ''id'' \<noteq> JStr i"
    and deps: "set (blocked_by t) \<subseteq> insert (JStr i) (terminal_ids tasks s)"
  shows "\<exists>rs. ready ck (apply_writes (take n (fst (update_task ck i kw s))) s) = Inr rs \<and> t \<in> set rs"
proof (rule update_archives [OF upd])
  fix pre d post rs
  assume raw: "load_raw s = Inr (pre @ d # post)" and d: "has_id i d"
    and u: "update_task ck i kw s =
      ([WriteArchive (ck_today ck) (rs @ [dict_update d kw]),
        WriteIndex (dict_set (load_terminal_index s) i (JStr (ck_today ck))),
        WriteActive (pre @ post)], map_sum id Some (to_task ck (dict_update d kw)))"
  let ?s2 = "apply_write (WriteIndex (dict_set (load_terminal_index s) i (JStr (ck_today ck))))
      (apply_write (WriteArchive (ck_today ck) (rs @ [dict_update d kw])) s)"
  let ?s3 = "apply_write (WriteActive (pre @ post)) ?s2"
  have tasks2: "list_all_tasks ck ?s2 = Inr tasks"
    using tasks by (simp add: list_all_tasks_def)
  from tasks raw obtain ts1 td ts2 where split: "tasks = ts1 @ td # ts2" "to_task ck d = Inr td"
    "res_map (to_task ck) (pre @ post) = Inr (ts1 @ ts2)"
    by (auto simp: list_all_tasks_def elim: res_map_append)
  have tasks3: "list_all_tasks ck ?s3 = Inr (ts1 @ ts2)"
    using split by (simp add: list_all_tasks_def)
  have td: "dict_get td ''id'' = JStr i"
    using split(2) d by (auto simp: has_id_def intro: to_task_id)
  with other t split have t3: "t \<in> set (ts1 @ ts2)" by auto
  have "terminal_ids tasks s \<subseteq> insert (JStr i) (terminal_ids (ts1 @ ts2) s)"
    using td by (auto simp: terminal_ids_def split(1))
  moreover have "terminal_ids ts ?s2 = insert (JStr i) (terminal_ids ts s)"
    "terminal_ids ts ?s3 = insert (JStr i) (terminal_ids ts s)" for ts
    by (simp_all add: terminal_ids_def)
  ultimately have "set (blocked_by t) \<subseteq> terminal_ids (ts1 @ ts2) ?s3" "set (blocked_by t) \<subseteq> terminal_ids tasks ?s2"
    using deps by blast+
  then have "\<exists>rs. ready ck ?s3 = Inr rs \<and> t \<in> set rs" "\<exists>rs. ready ck ?s2 = Inr rs \<and> t \<in> set rs"
    using ready_iff [OF tasks3] ready_iff [OF tasks2] t3 t backlog by auto
  moreover from n have "n = 2 \<or> 3 \<le> n" by auto
  ultimately show ?thesis by (auto simp: u numeral_2_eq_2)
qed

lemma demo_lookup:
  "load_raw demo_board = Inr [demo_record ''A'' [], demo_record ''B'' [''A'']]"
  "load_terminal_index demo_board = []" "load_archive_file demo_board date = Inr []"
  by (simp_all add: demo_board_def load_raw_def load_terminal_index.simps load_archive_file_def archive_file_def)

lemma demo_update_writes: "length (fst (update_task demo_clock ''A'' done_kwargs demo_board)) = 3"
  by (simp add: update_task_def demo_lookup demo_record_def done_kwargs_def has_id_def has_key_def Let_def
      authority_fields_def dict_update_def archive_writes_def TERMINAL_STATES_def)

definition demo_task :: "string \<Rightarrow> string list \<Rightarrow> pydict" where
  "demo_task i deps = (case to_task demo_clock (demo_record i deps) of Inr t \<Rightarrow> t | Inl e \<Rightarrow> [])"

lemma demo_to_task: "to_task demo_clock (demo_record i deps) = Inr (demo_task i deps)"
  "task_status (demo_task i deps) = JStr ''backlog''" "dict_get (demo_task i deps) ''id'' = JStr i"
  "blocked_by (demo_task i deps) = map JStr deps"
  by (simp_all add: demo_task_def to_task_def demo_record_def py_or_def make_dataclass_def dict_pop_def
      TaskExecutionBinding_defaults_def Task_defaults_def Let_def has_key_def task_status_def blocked_by_def)

theorem board_completion_unblocks_witness:
  "\<exists>rs. ready demo_clock (apply_writes (take 2 (fst (update_task demo_clock ''A'' done_kwargs demo_board))) demo_board)
     = Inr rs \<and> demo_task ''B'' [''A''] \<in> set rs"
proof (rule board_completion_unblocks [OF demo_update_writes])
  show "list_all_tasks demo_clock demo_board = Inr [demo_task ''A'' [], demo_task ''B'' [''A'']]"
    by (simp add: list_all_tasks_def demo_lookup demo_to_task)
qed (simp_all add: demo_to_task)

section \<open>Compare and swap\<close>

lemma cas_record_gets:
  assumes "\<not> has_key (cc_task_updates c) ''id''" and "\<not> has_key (cc_task_updates c) ''contract_authority_revision''"
  shows "has_id i (cas_record c d) = has_id i d"
    and "sget (cas_record c d) ''contract_authority_revision'' = cc_contract_authority_revision c"
  using assms by (auto simp: cas_record_def has_id_def dict_get_update sget_update)

lemma cas_success:
  assumes "compare_and_update_contract ck i c s = (ws, Inr (t, True))"
    and "\<not> has_key (cc_task_updates c) ''id''"
  obtains pre d post ws' where "has_id i d" and "\<forall>x \<in> set pre. \<not> has_id i x" and "cas_matches c d = Inr True"
    and "ws = WriteActive (pre @ cas_record c d # post) # ws'"
    and "\<forall>w \<in> set ws'. \<exists>idx. w = WriteIndex idx"
proof -
  obtain raw where raw: "load_raw s = Inr raw"
    using assms(1) by (cases "load_raw s") (auto simp: compare_and_update_contract_def)
  show ?thesis
  proof (cases "locate (has_id i) raw")
    case (Some q)
    then obtain pre d post where q: "locate (has_id i) raw = Some (pre, d, post)" by (cases q) auto
    with raw assms(1) locate_Some [OF q] that [of d pre post "[]"] show ?thesis
      by (auto simp: compare_and_update_contract_def cas_stale_def map_sum_def split: if_splits sum.splits)
  next
    case None
    with raw assms(1) obtain d where "archived_record i s = Inr (Some d)" "cas_matches c d = Inr True"
      "ws = [WriteActive (raw @ [cas_record c d]), WriteIndex (dict_pop (load_terminal_index s) i)]"
      by (auto simp: compare_and_update_contract_def cas_stale_def map_sum_def
          split: if_splits sum.splits option.splits)
    with None that [of d raw "[]" "[WriteIndex (dict_pop (load_terminal_index s) i)]"] archived_record_id [of i s d]
    show ?thesis by (auto simp: locate_None)
  qed
qed

lemma load_raw_index_writes:
  "\<forall>w \<in> set ws. \<exists>idx. w = WriteIndex idx \<Longrightarrow> load_raw (apply_writes ws s) = load_raw s"
  by (induction ws arbitrary: s) auto

text \<open>C5: contract writes are linearised by their token. Once a \<open>compare_and_update_contract\<close> has
  succeeded for a task and advanced its authority revision, a second call that still expects the old
  revision writes nothing and does not report success. No lost update is possible, also when the first
  call reopened an archived task.\<close>

theorem board_cas_excludes_stale:
  assumes first: "run_op (compare_and_update_contract ck i c s) s = (Inr (t, True), s')"
    and same: "cc_expected_authority_revision c' = cc_expected_authority_revision c"
    and advanced: "cc_contract_authority_revision c \<noteq> cc_expected_authority_revision c"
    and upd: "\<not> has_key (cc_task_updates c) ''id''" "\<not> has_key (cc_task_updates c) ''contract_authority_revision''"
  shows "fst (compare_and_update_contract ck' i c' s') = [] \<and>
    (\<forall>t'. snd (compare_and_update_contract ck' i c' s') \<noteq> Inr (t', True))"
proof -
  obtain ws where ws: "compare_and_update_contract ck i c s = (ws, Inr (t, True))" "s' = apply_writes ws s"
    using first by (cases "compare_and_update_contract ck i c s") (auto simp: run_op_def)
  obtain pre d post ws' where d: "has_id i d" "\<forall>x \<in> set pre. \<not> has_id i x"
    "ws = WriteActive (pre @ cas_record c d # post) # ws'" "\<forall>w \<in> set ws'. \<exists>idx. w = WriteIndex idx"
    by (rule cas_success [OF ws(1) upd(1)])
  have raw: "load_raw s' = Inr (pre @ cas_record c d # post)"
    using d(3,4) by (simp add: ws(2) load_raw_index_writes)
  have "locate (has_id i) (pre @ cas_record c d # post) = Some (pre, cas_record c d, post)"
    using d(1,2) cas_record_gets(1) [OF upd] by (intro locate_append) auto
  moreover have "cas_matches c' (cas_record c d) = Inr False"
    using cas_record_gets(2) [OF upd] same advanced by (simp add: cas_matches_def)
  ultimately show ?thesis
    using raw by (auto simp: compare_and_update_contract_def cas_stale_def map_sum_def split: sum.splits)
qed

definition demo_cas :: "string \<Rightarrow> string \<Rightarrow> contract_cas" where
  "demo_cas old new = \<lparr>cc_expected_authority_revision = old, cc_expected_legacy_contract = None,
     cc_expected_legacy_binding = [], cc_contract = [], cc_execution_binding = [],
     cc_contract_authority_revision = new, cc_contract_authority_sequence = 1, cc_task_updates = [],
     cc_reopen_terminal = False\<rparr>"

lemma demo_cas_runs:
  "\<exists>t s'. run_op (compare_and_update_contract demo_clock ''A'' (demo_cas '''' ''r1'') demo_board) demo_board
     = (Inr (t, True), s')"
  by (simp add: run_op_def compare_and_update_contract_def demo_lookup demo_record_def has_id_def cas_matches_def
      demo_cas_def cas_record_def dict_set_def dict_update_def to_task_def py_or_def make_dataclass_def dict_pop_def
      TaskExecutionBinding_defaults_def Task_defaults_def Let_def has_key_def)

theorem board_cas_excludes_stale_witness:
  "\<exists>t s'. run_op (compare_and_update_contract demo_clock ''A'' (demo_cas '''' ''r1'') demo_board) demo_board
     = (Inr (t, True), s')
   \<and> fst (compare_and_update_contract demo_clock ''A'' (demo_cas '''' ''r2'') s') = []
   \<and> (\<forall>t'. snd (compare_and_update_contract demo_clock ''A'' (demo_cas '''' ''r2'') s') \<noteq> Inr (t', True))"
proof -
  obtain t s' where r: "run_op (compare_and_update_contract demo_clock ''A'' (demo_cas '''' ''r1'') demo_board) demo_board
     = (Inr (t, True), s')" using demo_cas_runs by blast
  have "fst (compare_and_update_contract demo_clock ''A'' (demo_cas '''' ''r2'') s') = []
     \<and> (\<forall>t'. snd (compare_and_update_contract demo_clock ''A'' (demo_cas '''' ''r2'') s') \<noteq> Inr (t', True))"
    by (rule board_cas_excludes_stale [OF r]) (simp_all add: demo_cas_def has_key_def)
  with r show ?thesis by blast
qed

section \<open>Authority stamps\<close>

text \<open>The authority facts on file: id, contract, revision, sequence and binding of every stamped record.\<close>

definition stamp :: "pydict \<Rightarrow> json \<times> json list" where
  "stamp d = (dict_get d ''id'', map (dict_get d) authority_fields)"

definition stamps_of :: "pydict list \<Rightarrow> (json \<times> json list) set" where
  "stamps_of rs = stamp ` {d \<in> set rs. sget d ''contract_authority_revision'' \<noteq> []}"

definition archive_records :: "board \<Rightarrow> string \<Rightarrow> pydict list" where
  "archive_records s date = (case load_archive_file s date of Inl e \<Rightarrow> [] | Inr rs \<Rightarrow> rs)"

definition active_records :: "board \<Rightarrow> pydict list" where
  "active_records s = (case load_raw s of Inl e \<Rightarrow> [] | Inr rs \<Rightarrow> rs)"

definition stamps :: "board \<Rightarrow> (json \<times> json list) set" where
  "stamps s = stamps_of (active_records s) \<union> (\<Union>date. stamps_of (archive_records s date))"

lemma stamps_of_simps [simp]:
  "stamps_of [] = {}" "stamps_of (xs @ ys) = stamps_of xs \<union> stamps_of ys"
  "stamps_of (d # ds) = (if sget d ''contract_authority_revision'' \<noteq> [] then {stamp d} else {}) \<union> stamps_of ds"
  by (auto simp: stamps_of_def)

lemma stamp_update:
  assumes "\<not> has_key kw ''id''" and "filter (has_key kw) authority_fields = []"
  shows "stamp (dict_update d kw) = stamp d"
    and "sget (dict_update d kw) ''contract_authority_revision'' = sget d ''contract_authority_revision''"
  using assms by (auto simp: stamp_def dict_get_update sget_update filter_empty_conv)
    (simp add: authority_fields_def sget_update)

lemma archive_records_after [simp]:
  "archive_records (apply_write (WriteActive rs) s) date = archive_records s date"
  "archive_records (apply_write (WriteIndex idx) s) date = archive_records s date"
  "archive_records (apply_write (WriteArchive d rs) s) date = (if date = d then rs else archive_records s date)"
  by (simp_all add: archive_records_def)

lemma active_records_after [simp]:
  "active_records (apply_write (WriteActive rs) s) = rs"
  "active_records (apply_write (WriteIndex idx) s) = active_records s"
  "active_records (apply_write (WriteArchive d rs) s) = active_records s"
  by (simp_all add: active_records_def)

definition keeps_stamp :: "pydict \<Rightarrow> pydict \<Rightarrow> bool" where
  "keeps_stamp d d' \<longleftrightarrow> (sget d ''contract_authority_revision'' \<noteq> [] \<longrightarrow>
     stamp d' = stamp d \<and> sget d' ''contract_authority_revision'' \<noteq> [])"

lemma keeps_stamp_sub: "keeps_stamp d d' \<Longrightarrow> stamps_of [d] \<subseteq> stamps_of [d']"
  by (simp add: keeps_stamp_def)

lemma stamps_active:
  assumes "load_raw s = Inr raw" and "stamps_of raw \<subseteq> stamps_of raw'"
  shows "stamps s \<subseteq> stamps (apply_writes (take n [WriteActive raw']) s)"
  using take_cases1 [of n "WriteActive raw'"] assms by (auto simp: stamps_def active_records_def [of s])

lemma stamps_replaced:
  assumes "load_raw s = Inr (pre @ d # post)" and "keeps_stamp d d'"
  shows "stamps s \<subseteq> stamps (apply_writes (take n [WriteActive (pre @ d' # post)]) s)"
proof (rule stamps_active [OF assms(1)])
  show "stamps_of (pre @ d # post) \<subseteq> stamps_of (pre @ d' # post)"
    using keeps_stamp_sub [OF assms(2)] by auto
qed

lemma stamps_archived:
  assumes raw: "load_raw s = Inr (pre @ d # post)" and "keeps_stamp d d'"
    and ws: "archive_writes ck s i d' (pre @ post) = Inr ws"
  shows "stamps s \<subseteq> stamps (apply_writes (take n ws) s)"
proof -
  obtain rs where rs: "load_archive_file s (ck_today ck) = Inr rs"
    using ws by (auto simp: archive_writes_def split: sum.splits)
  let ?w1 = "WriteArchive (ck_today ck) (rs @ [d'])"
  let ?w2 = "WriteIndex (dict_set (load_terminal_index s) i (JStr (ck_today ck)))"
  have w: "ws = [?w1, ?w2, WriteActive (pre @ post)]"
    using ws rs by (simp add: archive_writes_def)
  have old: "stamps s = stamps_of pre \<union> stamps_of [d] \<union> stamps_of post \<union> (\<Union>date. stamps_of (archive_records s date))"
    by (auto simp: stamps_def active_records_def raw)
  have "stamps_of (archive_records s date) \<subseteq> stamps_of (archive_records (apply_write ?w1 s) date)" for date
    using rs by (auto simp: archive_records_def)
  moreover have "stamps_of [d] \<subseteq> stamps_of (archive_records (apply_write ?w1 s) (ck_today ck))"
    using keeps_stamp_sub [OF assms(2)] by auto
  ultimately have new: "stamps_of [d] \<union> (\<Union>date. stamps_of (archive_records s date))
      \<subseteq> (\<Union>date. stamps_of (archive_records (apply_write ?w1 s) date))"
    by blast
  have "active_records s = pre @ d # post" by (simp add: active_records_def raw)
  then show ?thesis
    using take_cases3 [of n ?w1 ?w2 "WriteActive (pre @ post)"] new
    unfolding w old by (auto simp: stamps_def)
qed

lemma keeps_stamp_update:
  assumes "\<not> has_key kw ''id''"
    and "\<not> (filter (has_key kw) authority_fields \<noteq> [] \<and> sget d ''contract_authority_revision'' \<noteq> [])"
  shows "keeps_stamp d (dict_update d kw)"
  using assms stamp_update [of kw d] by (auto simp: keeps_stamp_def)

text \<open>The calls that are not authority writes.\<close>

fun plain_call :: "board_call \<Rightarrow> bool" where
  "plain_call (AddTask t) \<longleftrightarrow> True"
| "plain_call (AddMany ts) \<longleftrightarrow> True"
| "plain_call (UpdateTask i kw) \<longleftrightarrow> \<not> has_key kw ''id''"
| "plain_call (CasFields i ex up) \<longleftrightarrow> \<not> has_key up ''id''"
| "plain_call _ \<longleftrightarrow> False"

lemma stamps_update_task:
  assumes kw: "\<not> has_key kw ''id''"
  shows "stamps s \<subseteq> stamps (apply_writes (take n (fst (update_task ck i kw s))) s)"
proof (cases "load_raw s")
  case (Inr raw)
  show ?thesis
  proof (cases "locate (\<lambda>d. \<not> has_key d ''id'' \<or> has_id i d) raw")
    case None
    with Inr show ?thesis by (simp add: update_task_def)
  next
    case (Some q)
    then obtain pre d post where q: "locate (\<lambda>d. \<not> has_key d ''id'' \<or> has_id i d) raw = Some (pre, d, post)"
      by (cases q) auto
    with Inr locate_Some(1) [OF q] have raw: "load_raw s = Inr (pre @ d # post)" by simp
    from Inr q show ?thesis
      by (auto simp: update_task_def Let_def split: sum.splits
          intro: stamps_replaced [OF raw keeps_stamp_update [OF kw], THEN subsetD]
            stamps_archived [OF raw keeps_stamp_update [OF kw], THEN subsetD])
  qed
qed (simp add: update_task_def)

lemma stamps_cas_fields:
  assumes up: "\<not> has_key up ''id''"
  shows "stamps s \<subseteq> stamps (apply_writes (take n (fst (compare_and_update_fields ck i ex up s))) s)"
proof (cases "load_raw s")
  case (Inr raw)
  show ?thesis
  proof (cases "locate (has_id i) raw")
    case None
    with Inr show ?thesis by (simp add: compare_and_update_fields_def Let_def)
  next
    case (Some q)
    then obtain pre d post where q: "locate (has_id i) raw = Some (pre, d, post)" by (cases q) auto
    with Inr locate_Some(1) [OF q] have raw: "load_raw s = Inr (pre @ d # post)" by simp
    from Inr q show ?thesis
      by (auto simp: compare_and_update_fields_def cas_stale_def Let_def split: sum.splits
          intro: stamps_replaced [OF raw keeps_stamp_update [OF up], THEN subsetD]
            stamps_archived [OF raw keeps_stamp_update [OF up], THEN subsetD])
  qed
qed (simp add: compare_and_update_fields_def Let_def)

text \<open>Only the authority path changes a stamped contract. Adding tasks, updating fields and the
  field-level compare-and-swap keep, at every crash point, each stamped task's contract, execution
  binding, authority revision and sequence on file exactly as they were.\<close>

lemma board_stamps_frozen:
  assumes "plain_call x"
  shows "stamps s \<subseteq> stamps (apply_writes (take n (call_writes ck x s)) s)"
proof (cases x)
  case (AddTask t)
  then show ?thesis
    by (cases "load_raw s") (auto simp: add_task_def Let_def split: option.splits intro!: stamps_active [THEN subsetD])
next
  case (AddMany ts)
  have "stamps_of raw \<subseteq> stamps_of (fst (add_loop tids ts raw ex))" for tids raw ex
    using add_loop_prefix [of tids ts raw ex] by auto
  then have sub: "stamps_of raw \<subseteq> stamps_of raw'" if "add_loop tids ts raw ex = (raw', z)" for tids raw ex raw' z
    using that by (metis fst_conv)
  from AddMany show ?thesis
    by (cases "load_raw s") (auto simp: add_many_def Let_def split: list.splits prod.splits
        intro!: stamps_active [OF _ sub, THEN subsetD])
next
  case (UpdateTask i kw)
  with assms stamps_update_task show ?thesis by simp
next
  case (CasFields i ex up)
  with assms stamps_cas_fields show ?thesis by simp
qed (use assms in simp_all)

section \<open>Looking up an archived task\<close>

lemma find_append: "find P (xs @ ys) = (case find P xs of None \<Rightarrow> find P ys | Some x \<Rightarrow> Some x)"
  by (induction xs) auto

lemma get_after_archive:
  assumes upd: "length (fst (update_task ck i kw s)) = 3" and kw: "\<not> has_key kw ''id''"
    and unique: "length (filter (has_id i) (active_records s)) = 1"
  shows "get_task ck i (apply_writes (fst (update_task ck i kw s)) s) =
    (case find (has_id i) (archive_records s (ck_today ck)) of
       Some old \<Rightarrow> map_sum id Some (to_task ck old) | None \<Rightarrow> snd (update_task ck i kw s))"
proof (rule update_archives [OF upd])
  fix pre d post rs
  assume raw: "load_raw s = Inr (pre @ d # post)" and d: "has_id i d"
    and rs: "load_archive_file s (ck_today ck) = Inr rs"
    and u: "update_task ck i kw s =
      ([WriteArchive (ck_today ck) (rs @ [dict_update d kw]),
        WriteIndex (dict_set (load_terminal_index s) i (JStr (ck_today ck))),
        WriteActive (pre @ post)], map_sum id Some (to_task ck (dict_update d kw)))"
  have "active_records s = pre @ d # post" by (simp add: active_records_def raw)
  then have "find (has_id i) (pre @ post) = None"
    using unique d by (auto simp: find_None_iff filter_empty_conv)
  moreover have "has_id i (dict_update d kw)" using d kw by (simp add: has_id_def dict_get_update)
  ultimately show ?thesis
    by (auto simp: get_task_def u rs archive_records_def find_append split: option.splits)
qed

text \<open>C36: A completed task reads back. After an update that moved a task to its terminal place, writing the archive of the day, the index and the active
  file, looking the task up returns exactly what the update returned. Assumed: the update does not change the id, the task has one record on the active
  board, and the archive file of the day holds no earlier record of it; with one, the lookup returns the earlier record, see
  board_get_stale_after_second_completion.\<close>

theorem board_get_after_completion:
  assumes "length (fst (update_task ck i kw s)) = 3" and "\<not> has_key kw ''id''"
    and "length (filter (has_id i) (active_records s)) = 1"
    and "find (has_id i) (archive_records s (ck_today ck)) = None"
  shows "get_task ck i (apply_writes (fst (update_task ck i kw s)) s) = snd (update_task ck i kw s)"
  using get_after_archive [OF assms(1-3)] assms(4) by simp

theorem board_get_after_completion_witness:
  "length (fst (update_task demo_clock ''A'' done_kwargs demo_board)) = 3
   \<and> get_task demo_clock ''A'' (apply_writes (fst (update_task demo_clock ''A'' done_kwargs demo_board)) demo_board)
     = snd (update_task demo_clock ''A'' done_kwargs demo_board)
   \<and> (\<exists>t. snd (update_task demo_clock ''A'' done_kwargs demo_board) = Inr (Some t) \<and> dict_get t ''status'' = JStr ''done'')"
proof -
  have "\<not> has_key done_kwargs ''id''" "length (filter (has_id ''A'') (active_records demo_board)) = 1"
    "find (has_id ''A'') (archive_records demo_board (ck_today demo_clock)) = None" by code_simp+
  from board_get_after_completion [OF demo_update_writes this]
  have "get_task demo_clock ''A'' (apply_writes (fst (update_task demo_clock ''A'' done_kwargs demo_board)) demo_board)
     = snd (update_task demo_clock ''A'' done_kwargs demo_board)" .
  moreover have "case snd (update_task demo_clock ''A'' done_kwargs demo_board) of Inr (Some t) \<Rightarrow> dict_get t ''status'' = JStr ''done'' | _ \<Rightarrow> False" by code_simp
  then have "\<exists>t. snd (update_task demo_clock ''A'' done_kwargs demo_board) = Inr (Some t) \<and> dict_get t ''status'' = JStr ''done''"
    by (auto split: sum.splits option.splits)
  ultimately show ?thesis using demo_update_writes by blast
qed

text \<open>A task completed twice on one day reads back stale. If the task was archived earlier the same day
  (completed, reopened, completed again), looking it up returns the first archived record and not what
  the last update wrote: \<open>get\<close> takes the first match of the archive file, while
  \<open>compare_and_update_contract\<close> takes the last.\<close>

lemma board_get_stale_after_second_completion:
  assumes "length (fst (update_task ck i kw s)) = 3" and "\<not> has_key kw ''id''"
    and "length (filter (has_id i) (active_records s)) = 1"
    and "find (has_id i) (archive_records s (ck_today ck)) = Some old"
  shows "get_task ck i (apply_writes (fst (update_task ck i kw s)) s) = map_sum id Some (to_task ck old)"
  using get_after_archive [OF assms(1-3)] assms(4) by simp

definition twice_board :: board where
  "twice_board = demo_board\<lparr>bd_archives := [(''2026-07-09'', records_file [dict_set (demo_record ''A'' []) ''title'' (JStr ''old'')])]\<rparr>"

lemma twice_lookup:
  "load_raw twice_board = Inr [demo_record ''A'' [], demo_record ''B'' [''A'']]" "load_terminal_index twice_board = []"
  "load_archive_file twice_board ''2026-07-09'' = Inr [dict_set (demo_record ''A'' []) ''title'' (JStr ''old'')]"
  by (simp_all add: twice_board_def demo_board_def load_raw_def load_terminal_index.simps load_archive_file_def archive_file_def)

section \<open>Adding a batch\<close>

lemma add_loop_spec:
  assumes "distinct (map task_id_of tasks)" and "add_loop tids tasks raw ex = (raw', created, skipped)"
    and "set ex = (\<lambda>d. sget d ''id'') ` set raw" and "distinct (map (\<lambda>d. sget d ''id'') raw)"
  shows "distinct (map (\<lambda>d. sget d ''id'') raw') \<and> mset created + mset skipped = mset (map task_id_of tasks)
    \<and> (\<lambda>d. sget d ''id'') ` set raw' = (\<lambda>d. sget d ''id'') ` set raw \<union> set created
    \<and> set skipped \<subseteq> set ex \<union> set tids"
  using assms
proof (induction tids tasks raw ex arbitrary: raw' created skipped rule: add_loop.induct)
  case (1 tids raw ex)
  then show ?case by simp
next
  case (2 tids task tasks raw ex)
  show ?case
  proof (cases "task_id_of task \<in> set ex \<or> task_id_of task \<in> set tids")
    case True
    then obtain sk where rec: "add_loop tids tasks raw ex = (raw', created, sk)" "skipped = task_id_of task # sk"
      using "2.prems"(2) by (auto simp: Let_def split: prod.splits)
    have "distinct (map (\<lambda>d. sget d ''id'') raw') \<and> mset created + mset sk = mset (map task_id_of tasks)
        \<and> (\<lambda>d. sget d ''id'') ` set raw' = (\<lambda>d. sget d ''id'') ` set raw \<union> set created
        \<and> set sk \<subseteq> set ex \<union> set tids"
      using "2.prems" rec(1) True by (intro "2.IH"(1)) auto
    with True rec(2) show ?thesis by auto
  next
    case False
    then obtain cr where rec: "add_loop tids tasks (raw @ [task]) (task_id_of task # ex) = (raw', cr, skipped)"
      "created = task_id_of task # cr"
      using "2.prems"(2) by (auto simp: Let_def split: prod.splits)
    have "distinct (map (\<lambda>d. sget d ''id'') (raw @ [task]))"
      using "2.prems"(3,4) False by (auto simp: task_id_of_def)
    then have IH: "distinct (map (\<lambda>d. sget d ''id'') raw') \<and> mset cr + mset skipped = mset (map task_id_of tasks)
        \<and> (\<lambda>d. sget d ''id'') ` set raw' = (\<lambda>d. sget d ''id'') ` set (raw @ [task]) \<union> set cr
        \<and> set skipped \<subseteq> set (task_id_of task # ex) \<union> set tids"
      using "2.prems" rec(1) False by (intro "2.IH"(2)) (auto simp: task_id_of_def)
    have "task_id_of task \<notin> set skipped"
      using IH "2.prems"(1) by (metis distinct.simps(2) in_multiset_in_set list.simps(9) union_iff)
    with IH rec(2) show ?thesis by (auto simp: task_id_of_def [abs_def])
  qed
qed

text \<open>A batch is added whole and dependency-closed. If \<open>add_many\<close> returns, every id of the batch is
  reported exactly once, as created or as skipped; ids on the active board stay distinct; the created
  ids are exactly the new ones on the board; and every \<open>blocked_by\<close> reference of the batch names a task
  that exists afterwards.\<close>

lemma board_add_many_closed:
  assumes raw: "load_raw s = Inr raw" and dist: "distinct (map (\<lambda>d. sget d ''id'') raw)"
    and run: "run_op (add_many tasks s) s = (Inr (created, skipped), s')"
  shows "\<exists>raw'. load_raw s' = Inr raw' \<and> distinct (map (\<lambda>d. sget d ''id'') raw')
    \<and> mset created + mset skipped = mset (map task_id_of tasks)
    \<and> (\<lambda>d. sget d ''id'') ` set raw' = (\<lambda>d. sget d ''id'') ` set raw \<union> set created
    \<and> (\<forall>t \<in> set tasks. set (blocked_by t) \<subseteq>
         JStr ` (\<lambda>d. sget d ''id'') ` set raw' \<union> index_ids (load_terminal_index s'))"
proof (cases "tasks = []")
  case True
  with raw dist run show ?thesis by (auto simp: run_op_def add_many_def)
next
  case False
  let ?ex = "map (\<lambda>d. sget d ''id'') raw" and ?tids = "map fst (load_terminal_index s)"
  let ?known = "map JStr (?ex @ ?tids @ map task_id_of tasks)"
  obtain raw' where loop: "add_loop ?tids tasks raw ?ex = (raw', created, skipped)"
    and d: "distinct (map task_id_of tasks)" and refs: "missing_refs ?known tasks = []"
    and s': "s' = apply_writes (if created \<noteq> [] then [WriteActive raw'] else []) s"
    using run raw False by (auto simp: run_op_def add_many_def Let_def split: if_splits list.splits prod.splits)
  have spec: "distinct (map (\<lambda>d. sget d ''id'') raw') \<and> mset created + mset skipped = mset (map task_id_of tasks)
    \<and> (\<lambda>d. sget d ''id'') ` set raw' = (\<lambda>d. sget d ''id'') ` set raw \<union> set created
    \<and> set skipped \<subseteq> set ?ex \<union> set ?tids"
    by (rule add_loop_spec [OF d loop _ dist]) simp
  then have batch: "set (map task_id_of tasks) = set created \<union> set skipped"
    by (metis set_mset_mset set_mset_union)
  have known: "set (blocked_by t) \<subseteq> set ?known" if "t \<in> set tasks" for t
    using refs that by (auto simp: missing_refs_def filter_empty_conv)
  have idx: "load_terminal_index s' = load_terminal_index s" by (simp add: s')
  have sub: "set ?known \<subseteq> JStr ` (\<lambda>d. sget d ''id'') ` set raw' \<union> index_ids (load_terminal_index s')"
  proof -
    have "set (?ex @ ?tids @ map task_id_of tasks) \<subseteq> (\<lambda>d. sget d ''id'') ` set raw' \<union> fst ` set (load_terminal_index s)"
      using spec batch by auto
    then show ?thesis unfolding idx index_ids_def image_Un [symmetric] set_map by (rule image_mono)
  qed
  have "raw' = raw" if "created = []"
  proof -
    from add_loop_prefix [of ?tids tasks raw ?ex] loop obtain new where new: "raw' = raw @ new" by auto
    with spec dist that have "new = []" by (cases new) (auto simp: image_iff)
    with new show ?thesis by simp
  qed
  then have "load_raw s' = Inr raw'" by (auto simp: s' raw)
  moreover have "\<forall>t \<in> set tasks. set (blocked_by t) \<subseteq>
      JStr ` (\<lambda>d. sget d ''id'') ` set raw' \<union> index_ids (load_terminal_index s')"
    using known sub by (meson subset_trans)
  ultimately show ?thesis using spec by (intro exI [of _ raw'] conjI) simp_all
qed

lemma demo_batch:
  "run_op (add_many [demo_record ''C'' [''D''], demo_record ''D'' [''A''], demo_record ''B'' []] demo_board) demo_board
     = (Inr ([''C'', ''D''], [''B'']), apply_write (WriteActive [demo_record ''A'' [], demo_record ''B'' [''A''],
          demo_record ''C'' [''D''], demo_record ''D'' [''A'']]) demo_board)"
  by (simp add: run_op_def add_many_def demo_lookup demo_record_def task_id_of_def missing_refs_def blocked_by_def
      Let_def)

section \<open>Updates are not validated before they are written\<close>

lemma find_None_has: "find P xs = None \<Longrightarrow> x \<in> set xs \<Longrightarrow> \<not> P x"
  by (auto simp: find_None_iff)

lemma to_task_unknown:
  assumes "has_key d k" and "\<not> has_key (Task_defaults (ck_new_id ck) (ck_now ck)) k"
    and "k \<notin> {''contract'', ''execution_binding'', ''evidence''}"
  shows "\<exists>e. to_task ck d = Inl e"
proof -
  let ?rest = "dict_pop (dict_pop (dict_pop d ''contract'') ''execution_binding'') ''evidence''"
  let ?table = "Task_defaults (ck_new_id ck) (ck_now ck)"
  have "\<exists>kv \<in> set ?rest. fst kv = k"
    using assms(1,3) by (auto simp: has_key_iff dict_pop_def)
  then obtain kv where kv: "kv \<in> set ?rest" "fst kv = k" by blast
  have "\<exists>e. make_dataclass ''Task'' ?table (?rest @ xs) = Inl e" for xs
  proof (cases "find (\<lambda>kv. \<not> has_key ?table (fst kv)) (?rest @ xs)")
    case None
    from find_None_has [OF this, of kv] kv assms(2) show ?thesis by simp
  qed (simp add: make_dataclass_def)
  then show ?thesis by (auto simp: to_task_def Let_def split: sum.splits)
qed

lemma has_key_update: "has_key (dict_update d e) k \<longleftrightarrow> has_key d k \<or> has_key e k"
  unfolding dict_update_def
  by (induction e arbitrary: d) (auto simp: has_key_iff keys_dict_set)

lemma res_map_Inl: "x \<in> set xs \<Longrightarrow> f x = Inl e \<Longrightarrow> \<exists>e'. res_map f xs = Inl e'"
  by (induction xs) (auto split: sum.splits)

text \<open>An unknown field poisons the board. Updating a task with a field name \<open>Task\<close> does not have
  raises \<open>TypeError\<close>, but only after the record has been written: from then on listing the board raises
  too, for every caller.\<close>

lemma board_unknown_field_poisons:
  assumes raw: "load_raw s = Inr (d # post)" and d: "has_id i d" "sget d ''contract_authority_revision'' = []"
    and kw: "has_key kw k" "\<not> has_key (Task_defaults (ck_new_id ck) (ck_now ck)) k"
    and live: "dict_get (dict_update d kw) ''status'' \<notin> JStr ` set TERMINAL_STATES"
  shows "\<exists>e e'. snd (update_task ck i kw s) = Inl e
    \<and> list_all_tasks ck (apply_writes (fst (update_task ck i kw s)) s) = Inl e'"
proof -
  have k: "k \<notin> {''contract'', ''execution_binding'', ''evidence''}"
    using kw(2) by (auto simp: Task_defaults_def has_key_def)
  have "has_key (dict_update d kw) k" using kw(1) by (simp add: has_key_update)
  from to_task_unknown [OF this kw(2) k] obtain e where e: "to_task ck (dict_update d kw) = Inl e" by blast
  have "has_key d ''id''" using d(1) by (auto simp: has_id_def has_key_def dict_get_def split: option.splits)
  then have u: "update_task ck i kw s = ([WriteActive (dict_update d kw # post)], Inl e)"
    using raw d live e by (simp add: update_task_def Let_def)
  obtain e' where "res_map (to_task ck) (dict_update d kw # post) = Inl e'"
    using res_map_Inl [of "dict_update d kw" "dict_update d kw # post" "to_task ck" e] e by auto
  then show ?thesis by (simp add: u list_all_tasks_def e)
qed

section \<open>The types of a loaded contract\<close>

text \<open>The annotations of the class \<open>TaskContract\<close>, and the values they allow. The lists of strings hold no blank items and no surrounding space, which is
  more than the annotation says; what a mapping or the list of acceptance criteria holds is left open, except that the list has neither \<open>None\<close> nor the empty string.\<close>

datatype field_type = TStr | TInt | TBool | TDict | TStrList | TAnyList

definition TaskContract_annotations :: "(string \<times> field_type) list" where
  "TaskContract_annotations =
     [(''schema_version'', TStr), (''locale'', TStr), (''feature_id'', TStr), (''parent_task_id'', TStr),
      (''campaign'', TStr), (''phase'', TStr), (''source_backlog_task_id'', TStr), (''behavior'', TStr),
      (''verification'', TStr), (''verification_tiers'', TStrList), (''validation'', TDict), (''spec_ref'', TStr),
      (''plan_ref'', TStr), (''tdd_ref'', TStr), (''critic_gate_ref'', TStr), (''critic_event_id'', TStr),
      (''critic_dispatch_id'', TStr), (''reviewed_arch_event_id'', TStr), (''source_arch_dispatch_id'', TStr),
      (''dispatch_id'', TStr), (''dispatch_id_requirement'', TStr), (''canonical_case_id'', TStr),
      (''case_alias'', TStr), (''canonical_behavior_test'', TStr), (''package_namespace'', TStr),
      (''scope'', TStrList), (''affected_files'', TStrList), (''exclusions'', TStrList),
      (''explicit_non_goals'', TStrList), (''acceptance'', TStr), (''evidence_contract'', TDict),
      (''complexity'', TStr), (''review_route'', TDict), (''owner_role'', TStr), (''owner_instance'', TStr),
      (''wave'', TInt), (''shared_files'', TStrList), (''exclusive_files'', TStrList),
      (''handoff_artifacts'', TStrList), (''task_doc_ref'', TStr), (''source_doc_ref'', TStr),
      (''progress_doc_ref'', TStr), (''evidence_doc_ref'', TStr), (''source_revision'', TStr),
      (''contract_revision'', TStr), (''capsule_revision'', TStr), (''source_key'', TStr), (''source_ref'', TStr),
      (''source_task_id'', TStr), (''source_index_ref'', TStr), (''source_mode'', TStr), (''source_title'', TStr),
      (''source_excerpt'', TStr), (''product_contract_ref'', TStr), (''spec_skip_reason'', TStr),
      (''unknowns'', TStrList), (''review_profile'', TStr), (''execution_profile_id'', TStr),
      (''execution_profile_digest'', TStr), (''risk_class'', TStr), (''integration_admission_profile'', TStr),
      (''rework_to'', TStr), (''fanout_force'', TBool), (''fix_of'', TStr), (''acceptance_criteria'', TAnyList),
      (''acceptance_evidence'', TDict), (''goal_claim_ids'', TStrList), (''quality_gates_override'', TDict)]"

fun has_type :: "field_type \<Rightarrow> json \<Rightarrow> bool" where
  "has_type TStr v \<longleftrightarrow> is_str v"
| "has_type TInt v \<longleftrightarrow> (case v of JInt _ \<Rightarrow> True | _ \<Rightarrow> False)"
| "has_type TBool v \<longleftrightarrow> (case v of JBool _ \<Rightarrow> True | _ \<Rightarrow> False)"
| "has_type TDict v \<longleftrightarrow> is_dict v"
| "has_type TStrList v \<longleftrightarrow> (case v of JList xs \<Rightarrow> list_all (\<lambda>x. case x of JStr t \<Rightarrow> t \<noteq> [] \<and> strip t = t | _ \<Rightarrow> False) xs | _ \<Rightarrow> False)"
| "has_type TAnyList v \<longleftrightarrow> (case v of JList xs \<Rightarrow> list_all (\<lambda>x. x \<noteq> JNull \<and> x \<noteq> JStr []) xs | _ \<Rightarrow> False)"

definition contract_well_typed :: "pydict \<Rightarrow> bool" where
  "contract_well_typed c \<longleftrightarrow> list_all2 (\<lambda>kv nt. fst kv = fst nt \<and> has_type (snd nt) (snd kv)) c TaskContract_annotations"

fun default_type :: "string \<Rightarrow> json \<Rightarrow> field_type" where
  "default_type name (JList _) = (if name = ''acceptance_criteria'' then TAnyList else TStrList)"
| "default_type name (JObj _) = TDict"
| "default_type name (JInt _) = TInt"
| "default_type name (JBool _) = TBool"
| "default_type name _ = TStr"

lemma normalize_field_type: "has_type (default_type name dflt) (normalize_field name dflt raw)"
  by (cases dflt) (auto simp: normalize_field_def nonblank_items_def list_all_iff split: json.splits option.splits)

lemma defaults_annotated:
  "map (\<lambda>fd. (fst fd, default_type (fst fd) (snd fd))) TaskContract_defaults = TaskContract_annotations"
  "list_all (\<lambda>fd. has_type (default_type (fst fd) (snd fd)) (snd fd)) TaskContract_defaults"
  by code_simp+

lemma contract_typed: "contract_well_typed (task_contract_from_mapping v)"
proof -
  have "list_all2 (\<lambda>kv nt. fst kv = fst nt \<and> has_type (snd nt) (snd kv)) (task_contract_from_mapping v)
      (map (\<lambda>fd. (fst fd, default_type (fst fd) (snd fd))) TaskContract_defaults)"
    unfolding task_contract_from_mapping_def list_all2_map1 list_all2_map2
    using defaults_annotated(2) by (auto simp: list_all2_same list_all_iff normalize_field_type split: option.split)
  then show ?thesis by (simp add: contract_well_typed_def defaults_annotated(1))
qed

lemma make_dataclass_keys: "make_dataclass cls table data = Inr obj \<Longrightarrow> map fst obj = map fst table"
  by (auto simp: make_dataclass_def comp_def split: option.splits)

lemma to_task_parts:
  assumes "to_task ck d = Inr t"
  obtains b ev where "map fst t = map fst (Task_defaults [] [])"
    and "dict_get t ''contract'' = JObj (task_contract_from_mapping (py_or (dict_get d ''contract'') (JObj [])))"
    and "dict_get t ''execution_binding'' = JObj b" and "map fst b = map fst TaskExecutionBinding_defaults"
    and "dict_get t ''evidence'' = ev" and "ev = JNull \<or> (\<exists>e. ev = JObj e \<and> map fst e = map fst TaskEvidence_defaults)"
proof -
  let ?c = "py_or (dict_get d ''contract'') (JObj [])"
  let ?rest = "dict_pop (dict_pop (dict_pop d ''contract'') ''execution_binding'') ''evidence''"
  let ?bd = "py_or (dict_get d ''execution_binding'') (JObj [])" and ?ed = "dict_get d ''evidence''"
  let ?B = "if is_dict ?bd then make_dataclass ''TaskExecutionBinding'' TaskExecutionBinding_defaults (as_dict ?bd)
     else Inr TaskExecutionBinding_defaults"
  let ?E = "if truthy ?ed then (if is_dict ?ed then map_sum id JObj (make_dataclass ''TaskEvidence'' TaskEvidence_defaults (as_dict ?ed))
     else Inl (TypeError ''argument after ** must be a mapping'')) else Inr JNull"
  from assms obtain b ev where B: "?B = Inr b" and E: "?E = Inr ev"
    and t: "make_dataclass ''Task'' (Task_defaults (ck_new_id ck) (ck_now ck))
        (?rest @ [(''contract'', JObj (task_contract_from_mapping ?c)), (''execution_binding'', JObj b), (''evidence'', ev)]) = Inr t"
    unfolding to_task_def Let_def
    by (cases ?B; cases ?E) simp_all
  have b: "map fst b = map fst TaskExecutionBinding_defaults" using B make_dataclass_keys by (simp split: if_splits)
  have ev: "ev = JNull \<or> (\<exists>e. ev = JObj e \<and> map fst e = map fst TaskEvidence_defaults)"
    using E make_dataclass_keys by (cases "make_dataclass ''TaskEvidence'' TaskEvidence_defaults (as_dict ?ed)") (auto split: if_splits)
  have get: "dict_get t k = v"
    if "map_of ?rest k = None" "map_of [(''contract'', JObj (task_contract_from_mapping ?c)), (''execution_binding'', JObj b), (''evidence'', ev)] k = Some v" for k v
    by (rule make_dataclass_get [OF t]) (use that in \<open>simp add: map_add_def\<close>)
  have "map fst t = map fst (Task_defaults [] [])" using make_dataclass_keys [OF t] by (simp add: Task_defaults_def)
  with b ev that show thesis by (simp add: get)
qed

text \<open>C33: A loaded contract has the types its class declares. Whatever the records on disk hold in its place, the contract of a task that \<open>list_all\<close> returns has
  exactly the fields of \<open>TaskContract\<close>, in their order, each with a value of its annotated type: a string, a number, a truth value,
  a mapping, or a list of stripped strings that are not blank; what the mappings and the acceptance criteria hold is not checked. And it is stable: stored
  and read again it is the same contract. This is about the contract alone: the other fields of a task are
  taken from the record as they are, see untyped_title.\<close>

theorem board_contracts_typed:
  assumes "list_all_tasks ck s = Inr ts" and "t \<in> set ts"
  shows "\<exists>c. dict_get t ''contract'' = JObj c \<and> contract_well_typed c \<and> task_contract_from_mapping (JObj c) = c"
proof -
  obtain raw where "res_map (to_task ck) raw = Inr ts" using assms(1) by (auto simp: list_all_tasks_def split: sum.splits)
  from res_map_Inr [OF this] assms(2) obtain d where "to_task ck d = Inr t"
    by (auto simp: list_all2_conv_all_nth in_set_conv_nth)
  then show ?thesis by (rule to_task_parts) (use contract_typed contract_normalisation_idempotent in blast)
qed

definition loose_board :: board where
  "loose_board = \<lparr>bd_active = records_file
     [[(''id'', JStr ''A''), (''title'', JInt 5), (''contract'', JObj [(''scope'', JStr '' src/a.py ,, ''), (''wave'', JStr ''2''), (''junk'', JNull)])]],
     bd_index = NoFile, bd_archives = []\<rparr>"

theorem board_contracts_typed_witness:
  "\<exists>t c. list_all_tasks demo_clock loose_board = Inr [t] \<and> dict_get t ''contract'' = JObj c \<and> contract_well_typed c
     \<and> dict_get c ''scope'' = JList [JStr ''src/a.py''] \<and> dict_get c ''wave'' = JInt 2"
proof -
  obtain t where t: "list_all_tasks demo_clock loose_board = Inr [t]"
    "dict_get (as_dict (dict_get t ''contract'')) ''scope'' = JList [JStr ''src/a.py'']" "dict_get (as_dict (dict_get t ''contract'')) ''wave'' = JInt 2"
  proof -
    have "case list_all_tasks demo_clock loose_board of
        Inr [t] \<Rightarrow> dict_get (as_dict (dict_get t ''contract'')) ''scope'' = JList [JStr ''src/a.py''] \<and> dict_get (as_dict (dict_get t ''contract'')) ''wave'' = JInt 2
      | _ \<Rightarrow> False" by code_simp
    then show thesis using that by (auto split: sum.splits list.splits)
  qed
  from board_contracts_typed [OF t(1), of t] t show ?thesis by auto
qed

text \<open>The title of a task is annotated as a string, and loads as whatever the record holds.\<close>

lemma untyped_title:
  "map_sum id (map (\<lambda>t. dict_get t ''title'')) (list_all_tasks demo_clock loose_board) = Inr [JInt 5]"
  by code_simp

end
