(* ===== verification/Event_Log.thy ===== *)
theory Event_Log
  imports Py_Hash Py_Json
begin

text \<open>
  \<open>core/events/model.py\<close>, \<open>core/events/log.py\<close>, \<open>core/security/signing.py\<close> and the rotation of
  \<open>core/state/rotation.py\<close>: the append-only event log, its line format with and without signatures, and
  its readers.

  A log is the bytes of its active file with that file's modification day, and its archive files by
  name. Bytes are characters; lines written by the log are UTF-8, so decoding them changes nothing.
  A dataclass field holds whatever the reader found, so the fields of an event are JSON values. The
  id and time stamp an event gets when it has none are an argument, \<open>fresh\<close>.
\<close>

section \<open>Events\<close>

record zf_event =
  ev_type :: json
  ev_id :: json
  ev_ts :: json
  ev_actor :: json
  ev_task_id :: json
  ev_payload :: json
  ev_causation_id :: json
  ev_correlation_id :: json
  ev_origin :: json

type_synonym fresh = "string \<times> string"

definition new_event :: "fresh \<Rightarrow> string \<Rightarrow> zf_event" where
  "new_event fr type =
     \<lparr>ev_type = JStr type, ev_id = JStr (fst fr), ev_ts = JStr (snd fr), ev_actor = JNull, ev_task_id = JNull,
      ev_payload = JObj [], ev_causation_id = JNull, ev_correlation_id = JNull, ev_origin = JStr ''''\<rparr>"

definition event_dict :: "zf_event \<Rightarrow> pydict" where
  "event_dict e =
     [(''type'', ev_type e), (''id'', ev_id e), (''ts'', ev_ts e), (''actor'', ev_actor e),
      (''task_id'', ev_task_id e), (''payload'', ev_payload e), (''causation_id'', ev_causation_id e),
      (''correlation_id'', ev_correlation_id e), (''origin'', ev_origin e)]"

definition event_to_json :: "zf_event \<Rightarrow> string" where
  "event_to_json e = json_dumps '','' '':'' False (JObj (event_dict e))"

definition field_or :: "pydict \<Rightarrow> string \<Rightarrow> json \<Rightarrow> json" where
  "field_or d k dflt = (case map_of d k of Some v \<Rightarrow> v | None \<Rightarrow> dflt)"

text \<open>\<open>from_dict\<close>: unknown keys are dropped, a missing \<open>type\<close> raises, a value that is no dictionary has
  no \<open>items\<close>.\<close>

definition event_from_dict :: "fresh \<Rightarrow> json \<Rightarrow> zf_event res" where
  "event_from_dict fr data =
     (case data of
        JObj d \<Rightarrow>
          (case map_of d ''type'' of
             None \<Rightarrow> Inl (TypeError (''ZfEvent.__init__() missing 1 required positional argument: ''
                 @ repr_str ''type''))
           | Some ty \<Rightarrow>
               Inr \<lparr>ev_type = ty, ev_id = field_or d ''id'' (JStr (fst fr)), ev_ts = field_or d ''ts'' (JStr (snd fr)),
                    ev_actor = field_or d ''actor'' JNull, ev_task_id = field_or d ''task_id'' JNull,
                    ev_payload = field_or d ''payload'' (JObj []), ev_causation_id = field_or d ''causation_id'' JNull,
                    ev_correlation_id = field_or d ''correlation_id'' JNull,
                    ev_origin = field_or d ''origin'' (JStr '''')\<rparr>)
      | _ \<Rightarrow> Inl (AttributeError ''items''))"

section \<open>Signatures\<close>

definition sign :: "byte list \<Rightarrow> string \<Rightarrow> string" where
  "sign secret event_json = hmac_sha256_hex secret event_json"

text \<open>\<open>hmac.compare_digest\<close> takes two ASCII strings; anything else raises \<open>TypeError\<close>.\<close>

definition verify :: "byte list \<Rightarrow> string \<Rightarrow> json \<Rightarrow> bool res" where
  "verify secret event_json signature =
     (case signature of
        JStr s \<Rightarrow>
          if list_all (\<lambda>c. (of_char c :: nat) < 128) s then Inr (sign secret event_json = s)
          else Inl (TypeError ''comparing strings with non-ASCII characters is not supported'')
      | _ \<Rightarrow> Inl (TypeError ''unsupported operand types''))"

definition cache_fingerprint :: "byte list \<Rightarrow> string" where
  "cache_fingerprint secret = hmac_sha256_hex secret ''zaofu:event-log-cache:v1''"

section \<open>Lines\<close>

definition encode :: "byte list option \<Rightarrow> zf_event \<Rightarrow> string" where
  "encode signer e =
     (let event_json = event_to_json e in
      (case signer of
         None \<Rightarrow> event_json
       | Some secret \<Rightarrow>
           json_dumps '', '' '': '' False (JObj
             [(''event'', case json_loads event_json of Some v \<Rightarrow> v | None \<Rightarrow> JNull),
              (''sig'', JStr (sign secret event_json))])))"

definition malformed :: "fresh \<Rightarrow> string \<Rightarrow> string \<Rightarrow> zf_event" where
  "malformed fr line err =
     (new_event fr ''event.malformed'')
       \<lparr>ev_actor := JStr ''zf-cli'', ev_payload := JObj [(''line'', JStr (take 200 line)), (''error'', JStr err)]\<rparr>"

text \<open>The verdict on a signed envelope: the stored text of the event is tried first, then its canonical
  encoding.\<close>

definition envelope_verified :: "byte list option \<Rightarrow> fresh \<Rightarrow> json \<Rightarrow> json \<Rightarrow> bool res" where
  "envelope_verified signer fr event_data sig =
     (case signer of
        None \<Rightarrow> Inr True
      | Some secret \<Rightarrow>
          (case verify secret (json_dumps '', '' '': '' False event_data) sig of
             Inl e \<Rightarrow> Inl e
           | Inr True \<Rightarrow> Inr True
           | Inr False \<Rightarrow>
               (case event_from_dict fr event_data of
                  Inl e \<Rightarrow> Inl e
                | Inr ev \<Rightarrow> verify secret (event_to_json ev) sig)))"

definition decode :: "byte list option \<Rightarrow> bool \<Rightarrow> fresh \<Rightarrow> string \<Rightarrow> zf_event option res" where
  "decode signer allow_unsigned fr line =
     (case json_loads line of
        None \<Rightarrow> Inr None
      | Some obj \<Rightarrow>
          (let d = as_dict obj in
           if is_dict obj \<and> has_key d ''event'' \<and> has_key d ''sig'' then
             (case envelope_verified signer fr (dict_get d ''event'') (dict_get d ''sig'') of
                Inl e \<Rightarrow> Inl e
              | Inr False \<Rightarrow> Inr None
              | Inr True \<Rightarrow>
                  (case event_from_dict fr (dict_get d ''event'') of
                     Inr ev \<Rightarrow> Inr (Some ev)
                   | Inl (TypeError m) \<Rightarrow> Inr (Some (malformed fr line m))
                   | Inl (KeyError m) \<Rightarrow> Inr (Some (malformed fr line m))
                   | Inl e \<Rightarrow> Inl e))
           else if signer \<noteq> None \<and> \<not> allow_unsigned then
             Inr (Some (malformed fr line ''unsigned event line rejected: event signing is enabled''))
           else if \<not> is_dict obj then Inr (Some (malformed fr line ''top-level must be object''))
           else if \<not> is_str (dict_get d ''type'') then
             Inr (Some (malformed fr line ''missing or non-string `type`''))
           else if dict_get d ''payload'' \<noteq> JNull \<and> \<not> is_dict (dict_get d ''payload'') then
             Inr (Some (malformed fr line ''`payload` must be a dict''))
           else
             (case event_from_dict fr obj of
                Inr ev \<Rightarrow> Inr (Some ev)
              | Inl (TypeError m) \<Rightarrow> Inr (Some (malformed fr line m))
              | Inl e \<Rightarrow> Inl e)))"

definition decode_line :: "byte list option \<Rightarrow> bool \<Rightarrow> fresh \<Rightarrow> string \<Rightarrow> zf_event option res" where
  "decode_line signer allow_unsigned fr line = decode signer allow_unsigned fr (strip line)"

section \<open>Files\<close>

abbreviation newline :: char where
  "newline \<equiv> CHR 10"

text \<open>\<open>data[: data.rfind(b"\n") + 1]\<close>: the complete lines.\<close>

definition complete :: "string \<Rightarrow> string" where
  "complete s = rev (dropWhile (\<lambda>c. c \<noteq> newline) (rev s))"

text \<open>The loop over the lines; it stops at the first line whose decoding raises.\<close>

fun parse_lines :: "(string \<Rightarrow> zf_event option res) \<Rightarrow> string list \<Rightarrow> zf_event list res" where
  "parse_lines dec [] = Inr []"
| "parse_lines dec (raw # raws) =
     (let line = strip raw in
      if line = [] then parse_lines dec raws
      else
        (case dec line of
           Inl e \<Rightarrow> Inl e
         | Inr ev \<Rightarrow>
             (case parse_lines dec raws of
                Inl e \<Rightarrow> Inl e
              | Inr evs \<Rightarrow> Inr (case ev of None \<Rightarrow> evs | Some e \<Rightarrow> e # evs))))"

definition parse_data :: "(string \<Rightarrow> zf_event option res) \<Rightarrow> string \<Rightarrow> zf_event list res" where
  "parse_data dec data = parse_lines dec (split_on newline (complete data))"

record event_store =
  es_active :: "string option"
  es_day :: string
  es_archives :: "(string \<times> string) list"

definition parse_file_consumed :: "(string \<Rightarrow> zf_event option res) \<Rightarrow> string option \<Rightarrow> (zf_event list \<times> nat) res" where
  "parse_file_consumed dec file =
     (case file of
        None \<Rightarrow> Inr ([], 0)
      | Some data \<Rightarrow> map_sum id (\<lambda>evs. (evs, length (complete data))) (parse_data dec data))"

definition parse_file :: "(string \<Rightarrow> zf_event option res) \<Rightarrow> string option \<Rightarrow> zf_event list res" where
  "parse_file dec file = map_sum id fst (parse_file_consumed dec file)"

definition parse_tail :: "(string \<Rightarrow> zf_event option res) \<Rightarrow> string \<Rightarrow> nat \<Rightarrow> nat \<Rightarrow> (zf_event list \<times> nat) res" where
  "parse_tail dec data offset snapshot_size =
     (let tl = take (snapshot_size - offset) (drop offset data)
      in map_sum id (\<lambda>evs. (evs, length (complete tl))) (parse_data dec tl))"

definition current_offset :: "event_store \<Rightarrow> nat" where
  "current_offset s = (case es_active s of None \<Rightarrow> 0 | Some data \<Rightarrow> length data)"

definition read_from_offset :: "(string \<Rightarrow> zf_event option res) \<Rightarrow> nat \<Rightarrow> string option \<Rightarrow> (zf_event list \<times> nat) res" where
  "read_from_offset dec offset file =
     (case file of
        None \<Rightarrow> Inr ([], 0)
      | Some bytes \<Rightarrow>
          (let effective_offset = (if offset \<le> length bytes then offset else 0);
               data = drop effective_offset bytes in
           if newline \<notin> set data then Inr ([], effective_offset)
           else map_sum id (\<lambda>evs. (evs, effective_offset + length (complete data))) (parse_data dec data)))"

text \<open>Archives by name, oldest first.\<close>

definition archive_files :: "event_store \<Rightarrow> (string \<times> string) list" where
  "archive_files s = sort_dict (es_archives s)"

fun parse_files :: "(string \<Rightarrow> zf_event option res) \<Rightarrow> string list \<Rightarrow> zf_event list res" where
  "parse_files dec [] = Inr []"
| "parse_files dec (data # rest) =
     (case parse_data dec data of
        Inl e \<Rightarrow> Inl e
      | Inr evs \<Rightarrow> map_sum id (\<lambda>more. evs @ more) (parse_files dec rest))"

text \<open>The cached prefix of a full read: the archives it saw, the bytes of the active file it consumed,
  the events it produced.\<close>

record fold_entry =
  fe_archives :: "(string \<times> nat) list"
  fe_consumed :: nat
  fe_events :: "zf_event list"

definition archive_inventory :: "event_store \<Rightarrow> (string \<times> nat) list" where
  "archive_inventory s = map (\<lambda>f. (fst f, length (snd f))) (archive_files s)"

definition read_all_uncached :: "(string \<Rightarrow> zf_event option res) \<Rightarrow> event_store \<Rightarrow> (zf_event list \<times> nat) res" where
  "read_all_uncached dec s =
     (case parse_files dec (map snd (archive_files s)) of
        Inl e \<Rightarrow> Inl e
      | Inr events \<Rightarrow> map_sum id (\<lambda>p. (events @ fst p, snd p)) (parse_file_consumed dec (es_active s)))"

definition read_all_fold ::
  "(string \<Rightarrow> zf_event option res) \<Rightarrow> fold_entry option \<Rightarrow> event_store \<Rightarrow> (zf_event list \<times> fold_entry option) res" where
  "read_all_fold dec entry s =
     (case (entry, es_active s) of
        (Some en, Some data) \<Rightarrow>
          if fe_archives en = archive_inventory s \<and> fe_consumed en \<le> length data then
            map_sum id (\<lambda>(tl, n). (fe_events en @ tl,
                Some (en\<lparr>fe_consumed := fe_consumed en + n, fe_events := fe_events en @ tl\<rparr>)))
              (parse_tail dec data (fe_consumed en) (length data))
          else
            map_sum id (\<lambda>(evs, n). (evs, Some \<lparr>fe_archives = archive_inventory s, fe_consumed = n, fe_events = evs\<rparr>))
              (read_all_uncached dec s)
      | (None, Some _) \<Rightarrow>
          map_sum id (\<lambda>(evs, n). (evs, Some \<lparr>fe_archives = archive_inventory s, fe_consumed = n, fe_events = evs\<rparr>))
            (read_all_uncached dec s)
      | (_, None) \<Rightarrow> map_sum id (\<lambda>p. (fst p, entry)) (read_all_uncached dec s))"

definition read_all :: "(string \<Rightarrow> zf_event option res) \<Rightarrow> event_store \<Rightarrow> zf_event list res" where
  "read_all dec s = map_sum id fst (read_all_uncached dec s)"

section \<open>Appending and rotation\<close>

text \<open>\<open>rotate_if_needed\<close>: the active file of an earlier day becomes that day's archive; an archive of the
  same name is extended, with a line break between the two if it lacks one.\<close>

definition archive_put :: "string \<Rightarrow> string \<Rightarrow> event_store \<Rightarrow> event_store" where
  "archive_put name data s = s\<lparr>es_active := None, es_archives := AList.update name data (es_archives s)\<rparr>"

definition rotate_if_needed :: "string \<Rightarrow> event_store \<Rightarrow> event_store" where
  "rotate_if_needed today s =
     (case es_active s of
        None \<Rightarrow> s
      | Some data \<Rightarrow>
          if es_day s = today then s
          else
            (let name = es_day s @ ''.jsonl'' in
             (case map_of (es_archives s) name of
                None \<Rightarrow> archive_put name data s
              | Some old \<Rightarrow>
                  archive_put name (old @ (if old \<noteq> [] \<and> last old \<noteq> newline then [newline] else []) @ data) s)))"

text \<open>\<open>f"{ordinal:04d}"\<close> and the first archive name of a day that is free.\<close>

definition pad4 :: "nat \<Rightarrow> string" where
  "pad4 n = (let t = show_nat n in replicate (4 - length t) (CHR ''0'') @ t)"

definition sized_name :: "string \<Rightarrow> nat \<Rightarrow> string" where
  "sized_name day ordinal = day @ ''-'' @ pad4 ordinal @ ''.jsonl''"

fun free_ordinal :: "nat \<Rightarrow> string list \<Rightarrow> string \<Rightarrow> nat \<Rightarrow> nat" where
  "free_ordinal 0 names day ordinal = ordinal"
| "free_ordinal (Suc n) names day ordinal =
     (if sized_name day ordinal \<in> set names then free_ordinal n names day (Suc ordinal) else ordinal)"

definition rotate_by_size_if_needed :: "string \<Rightarrow> event_store \<Rightarrow> event_store" where
  "rotate_by_size_if_needed raw_limit s =
     (case parse_int raw_limit of
        None \<Rightarrow> s
      | Some max_bytes \<Rightarrow>
          (case es_active s of
             None \<Rightarrow> s
           | Some data \<Rightarrow>
               if max_bytes \<le> 0 \<or> int (length data) < max_bytes then s
               else
                 (let names = map fst (es_archives s);
                      ordinal = free_ordinal (Suc (length names)) names (es_day s) 1
                  in archive_put (sized_name (es_day s) ordinal) data s)))"

text \<open>\<open>raw_limit\<close> is the environment variable \<open>ZF_EVENT_LOG_MAX_ACTIVE_BYTES\<close>, empty when unset.\<close>

definition append_event :: "byte list option \<Rightarrow> string \<Rightarrow> string \<Rightarrow> zf_event \<Rightarrow> event_store \<Rightarrow> event_store" where
  "append_event signer today raw_limit e s =
     (let s1 = rotate_by_size_if_needed raw_limit (rotate_if_needed today s);
          old = (case es_active s1 of None \<Rightarrow> [] | Some data \<Rightarrow> data)
      in s1\<lparr>es_active := Some (old @ encode signer e @ [newline]), es_day := today\<rparr>)"

section \<open>Queries\<close>

text \<open>\<open>xs[-n:]\<close>; \<open>n = 0\<close> keeps everything and a negative \<open>n\<close> drops from the front, as in Python.\<close>

definition last_slice :: "int \<Rightarrow> 'a list \<Rightarrow> 'a list" where
  "last_slice n xs =
     (if n \<le> 0 then drop (nat (- n)) xs else drop (length xs - nat n) xs)"

text \<open>\<open>cached\<close> is what the index answers, \<open>None\<close> when it has no complete answer.\<close>

definition events_for_task ::
  "(string \<Rightarrow> zf_event option res) \<Rightarrow> zf_event list option \<Rightarrow> string \<Rightarrow> int option \<Rightarrow> event_store \<Rightarrow> zf_event list res" where
  "events_for_task dec cached task_id limit s =
     (case cached of
        Some evs \<Rightarrow> Inr evs
      | None \<Rightarrow>
          map_sum id (\<lambda>evs. let hits = filter (\<lambda>e. ev_task_id e = JStr task_id) evs
                             in (case limit of None \<Rightarrow> hits | Some n \<Rightarrow> last_slice n hits)) (read_all dec s))"

definition read_days :: "(string \<Rightarrow> zf_event option res) \<Rightarrow> int \<Rightarrow> string \<Rightarrow> event_store \<Rightarrow> zf_event list res" where
  "read_days dec last_days cutoff s =
     (case parse_files dec (map snd (if 1 < last_days
              then filter (\<lambda>f. cutoff \<le> take (length (fst f) - 6) (fst f)) (archive_files s) else [])) of
        Inl e \<Rightarrow> Inl e
      | Inr old \<Rightarrow> map_sum id (\<lambda>evs. old @ evs) (parse_file dec (es_active s)))"

definition by_id :: "zf_event list \<Rightarrow> (json \<times> zf_event) list" where
  "by_id evs = map (\<lambda>e. (ev_id e, e)) (rev evs)"

text \<open>The walk along \<open>causation_id\<close>. \<open>seen\<close> guards against cycles; each step uses up one known id.\<close>

function walk_causation :: "(json \<times> zf_event) list \<Rightarrow> json list \<Rightarrow> json \<Rightarrow> zf_event list" where
  "walk_causation ids seen cur =
     (if truthy cur \<and> cur \<notin> set seen then
        (case map_of ids cur of
           None \<Rightarrow> []
         | Some e \<Rightarrow> e # walk_causation ids (cur # seen) (ev_causation_id e))
      else [])"
  by pat_completeness auto
termination
proof (relation "measure (\<lambda>(ids, seen, cur). card (fst ` set ids - set seen))", goal_cases)
  case (2 ids seen cur e)
  then have "cur \<in> fst ` set ids - set seen"
    by (force dest: map_of_SomeD)
  moreover have "fst ` set ids - set (cur # seen) = (fst ` set ids - set seen) - {cur}" by auto
  ultimately have "card (fst ` set ids - set (cur # seen)) < card (fst ` set ids - set seen)"
    by (metis card_Diff1_less finite_Diff finite_imageI finite_set)
  then show ?case by simp
qed simp

declare walk_causation.simps [simp del]

text \<open>Lists and dictionaries cannot be dictionary keys.\<close>

definition hashable :: "json \<Rightarrow> bool" where
  "hashable v \<longleftrightarrow> \<not> is_list v \<and> \<not> is_dict v"

definition get_causation_chain :: "(string \<Rightarrow> zf_event option res) \<Rightarrow> string \<Rightarrow> event_store \<Rightarrow> zf_event list res" where
  "get_causation_chain dec event_id s =
     (case read_all dec s of
        Inl e \<Rightarrow> Inl e
      | Inr evs \<Rightarrow>
          (let chain = walk_causation (by_id evs) [] (JStr event_id) in
           if list_all (\<lambda>e. hashable (ev_id e)) evs \<and>
              list_all (\<lambda>e. truthy (ev_causation_id e) \<longrightarrow> hashable (ev_causation_id e)) chain
           then Inr (rev chain) else Inl (TypeError ''unhashable type'')))"

record event_query =
  eq_type :: "string option"
  eq_event_type :: "string option"
  eq_task_id :: "string option"
  eq_actor :: "string option"
  eq_last :: "int option"

definition query_events ::
  "(string \<Rightarrow> zf_event option res) \<Rightarrow> (string \<Rightarrow> zf_event list option) \<Rightarrow> event_query \<Rightarrow> event_store \<Rightarrow> zf_event list res" where
  "query_events dec cached q s =
     (let effective_type = (case eq_type q of Some t \<Rightarrow> Some t | None \<Rightarrow> eq_event_type q);
          events = (case eq_task_id q of
                      Some t \<Rightarrow> events_for_task dec (cached t) t None s
                    | None \<Rightarrow> read_all dec s) in
      map_sum id (\<lambda>evs.
        let typed = (case effective_type of None \<Rightarrow> evs | Some t \<Rightarrow> filter (\<lambda>e. ev_type e = JStr t) evs);
            acted = (case eq_actor q of None \<Rightarrow> typed | Some a \<Rightarrow> filter (\<lambda>e. ev_actor e = JStr a) typed)
        in (case eq_last q of None \<Rightarrow> acted | Some n \<Rightarrow> last_slice n acted)) events)"

definition query ::
  "(string \<Rightarrow> zf_event option res) \<Rightarrow> (string \<Rightarrow> zf_event list option) \<Rightarrow> event_query \<Rightarrow> event_store \<Rightarrow> zf_event list res" where
  "query dec cached q s =
     (if eq_type q \<noteq> None \<and> eq_event_type q \<noteq> None \<and> eq_type q \<noteq> eq_event_type q
      then Inl (ValueError ''type and event_type filters must match when both are set'')
      else query_events dec cached q s)"

definition count_events :: "(string \<Rightarrow> zf_event option res) \<Rightarrow> event_store \<Rightarrow> nat res" where
  "count_events dec s = map_sum id length (read_all dec s)"

section \<open>Building a log from the project configuration\<close>

record event_signing =
  sg_enabled :: bool
  sg_secret_env :: string
  sg_allow_unsigned_fallback :: bool

text \<open>\<open>environ\<close> is the process environment; an absent section of the configuration is \<open>None\<close>.\<close>

definition build_event_signer :: "event_signing option \<Rightarrow> (string \<rightharpoonup> string) \<Rightarrow> byte list option res" where
  "build_event_signer es environ =
     (case es of
        None \<Rightarrow> Inr None
      | Some c \<Rightarrow>
          if \<not> sg_enabled c then Inr None
          else
            (let secret = (case environ (sg_secret_env c) of None \<Rightarrow> [] | Some v \<Rightarrow> v) in
             if secret = [] then
               (if sg_allow_unsigned_fallback c then Inr None
                else Inl (RuntimeError (''security.event_signing.enabled but '' @ sg_secret_env c @ '' is empty'')))
             else Inr (Some (bytes_of secret))))"

definition event_log_from_project ::
  "event_signing option \<Rightarrow> (string \<rightharpoonup> string) \<Rightarrow> fresh \<Rightarrow> (string \<Rightarrow> zf_event option res) res" where
  "event_log_from_project es environ fr =
     map_sum id (\<lambda>signer. decode signer (case es of None \<Rightarrow> False | Some c \<Rightarrow> sg_allow_unsigned_fallback c) fr)
       (build_event_signer es environ)"

section \<open>Lines of a growing file\<close>

definition res_append :: "'a list res \<Rightarrow> 'a list res \<Rightarrow> 'a list res" where
  "res_append x y = (case x of Inl e \<Rightarrow> Inl e | Inr a \<Rightarrow> map_sum id ((@) a) y)"

lemma res_append_simps [simp]:
  "res_append (Inl e) y = Inl e" "res_append (Inr []) y = y" "res_append (Inr a) (Inr b) = Inr (a @ b)"
  "res_append (Inr a) (Inl e) = Inl e"
  by (cases y; simp add: res_append_def)+

lemma res_append_Nil [simp]: "res_append x (Inr []) = x"
  by (cases x) (simp_all add: res_append_def)

lemma res_append_assoc: "res_append (res_append x y) z = res_append x (res_append y z)"
  by (cases x; cases y; cases z) (simp_all add: res_append_def)

lemma split_on_nonempty [simp]: "split_on c s \<noteq> []"
  by (induction s) (auto split: list.splits)

lemma split_on_free: "c \<notin> set s \<Longrightarrow> split_on c s = [s]"
  by (induction s) auto

lemma split_on_append: "split_on c (a @ c # b) = split_on c a @ split_on c b"
  by (induction a) (auto split: list.splits)

lemma parse_lines_append: "parse_lines dec (xs @ ys) = res_append (parse_lines dec xs) (parse_lines dec ys)"
proof (induction xs)
  case (Cons x xs)
  show ?case
    by (cases "parse_lines dec xs"; cases "parse_lines dec ys"; cases "dec (strip x)")
      (auto simp: Let_def Cons res_append_def split: option.splits)
qed simp

lemma complete_append: "complete (s @ t) = (if newline \<in> set t then s @ complete t else complete s)"
proof (cases "newline \<in> set t")
  case True
  then have "dropWhile (\<lambda>c. c \<noteq> newline) (rev t @ rev s) = dropWhile (\<lambda>c. c \<noteq> newline) (rev t) @ rev s"
    by (intro dropWhile_append1 [of newline]) auto
  with True show ?thesis by (simp add: complete_def)
next
  case False
  then have "dropWhile (\<lambda>c. c \<noteq> newline) (rev t @ rev s) = dropWhile (\<lambda>c. c \<noteq> newline) (rev s)"
    by (intro dropWhile_append2) auto
  with False show ?thesis by (simp add: complete_def)
qed

lemma complete_none: "newline \<notin> set s \<Longrightarrow> complete s = []"
  by (auto simp: complete_def)

lemma complete_Nil [simp]: "complete [] = []" by (simp add: complete_def)

lemma complete_idem [simp]: "complete (complete s) = complete s"
  by (simp add: complete_def)

lemma complete_newline: "complete (s @ [newline]) = s @ [newline]"
  by (simp add: complete_def)

lemma complete_shape: "complete s = [] \<or> (\<exists>a. complete s = a @ [newline])"
proof (cases "dropWhile (\<lambda>c. c \<noteq> newline) (rev s)")
  case (Cons x xs)
  then have "x = newline"
    using hd_dropWhile [of "\<lambda>c. c \<noteq> newline" "rev s"] by (metis list.distinct(1) list.sel(1))
  with Cons show ?thesis by (simp add: complete_def)
next
  case Nil
  then have "complete s = []" unfolding complete_def by simp
  then show ?thesis ..
qed

lemma complete_split:
  obtains t where "s = complete s @ t" and "newline \<notin> set t"
proof -
  have "rev s = takeWhile (\<lambda>c. c \<noteq> newline) (rev s) @ dropWhile (\<lambda>c. c \<noteq> newline) (rev s)" by simp
  then have "s = complete s @ rev (takeWhile (\<lambda>c. c \<noteq> newline) (rev s))"
    by (metis complete_def rev_append rev_rev_ident)
  moreover have "newline \<notin> set (rev (takeWhile (\<lambda>c. c \<noteq> newline) (rev s)))"
    by (auto dest: set_takeWhileD)
  ultimately show ?thesis by (rule that)
qed

lemma complete_join: "complete s = s \<Longrightarrow> complete (s @ t) = s @ complete t"
  by (auto simp: complete_append complete_none)

lemma parse_data_complete [simp]: "parse_data dec (complete s) = parse_data dec s"
  by (simp add: parse_data_def)

lemma parse_data_Nil [simp]: "parse_data dec [] = Inr []"
  by (simp add: parse_data_def strip_def lstrip_def)

lemma parse_data_append:
  assumes "complete s = s"
  shows "parse_data dec (s @ t) = res_append (parse_data dec s) (parse_data dec t)"
proof (cases "s = []")
  case False
  with complete_shape [of s] assms obtain a where s: "s = a @ [newline]" by auto
  have "parse_lines dec (split_on newline (a @ [newline] @ complete t)) =
      res_append (parse_lines dec (split_on newline a)) (parse_lines dec (split_on newline (complete t)))"
    by (simp add: split_on_append parse_lines_append)
  moreover have "parse_lines dec (split_on newline (a @ [newline])) = parse_lines dec (split_on newline a)"
    using split_on_append [of newline a "[]"] by (simp add: parse_lines_append strip_def lstrip_def)
  ultimately show ?thesis
    using complete_join [OF assms, of t] assms by (simp add: parse_data_def s)
qed simp

text \<open>Successive contents of a file that is only appended to, read at arbitrary moments.\<close>

fun growing :: "string \<Rightarrow> string list \<Rightarrow> bool" where
  "growing c [] = True"
| "growing c (d # ds) = (startswith d c \<and> growing d ds)"

fun poll :: "(string \<Rightarrow> zf_event option res) \<Rightarrow> nat \<Rightarrow> string list \<Rightarrow> (zf_event list \<times> nat) res" where
  "poll dec offset [] = Inr ([], offset)"
| "poll dec offset (c # cs) =
     (case read_from_offset dec offset (Some c) of
        Inl e \<Rightarrow> Inl e
      | Inr (evs, offset') \<Rightarrow> map_sum id (\<lambda>(more, o'). (evs @ more, o')) (poll dec offset' cs))"

lemma startswith_append: "startswith d c \<longleftrightarrow> (\<exists>t. d = c @ t)"
  by (metis append_eq_conv_conj append_take_drop_id startswith_def)

lemma read_step:
  assumes "startswith d c"
  shows "read_from_offset dec (length (complete c)) (Some d) =
      map_sum id (\<lambda>evs. (evs, length (complete d))) (parse_data dec (drop (length (complete c)) d))"
    and "parse_data dec d = res_append (parse_data dec c) (parse_data dec (drop (length (complete c)) d))"
proof -
  obtain t where d: "d = c @ t" using assms by (auto simp: startswith_append)
  obtain u where c: "c = complete c @ u" by (rule complete_split)
  define w where "w = u @ t"
  have dw: "d = complete c @ w" using d c by (metis append_assoc w_def)
  then have tl: "drop (length (complete c)) d = w" by simp
  have cd: "complete d = complete c @ complete w" by (subst dw) (simp add: complete_join)
  show "read_from_offset dec (length (complete c)) (Some d) =
      map_sum id (\<lambda>evs. (evs, length (complete d))) (parse_data dec (drop (length (complete c)) d))"
  proof (cases "newline \<in> set w")
    case True
    then show ?thesis unfolding cd using dw by (simp add: read_from_offset_def tl Let_def)
  next
    case False
    then have "parse_data dec w = Inr []" "complete w = []"
      using parse_data_complete [of dec w] by (simp_all add: complete_none)
    with False show ?thesis unfolding cd using dw by (simp add: read_from_offset_def tl Let_def)
  qed
  show "parse_data dec d = res_append (parse_data dec c) (parse_data dec (drop (length (complete c)) d))"
    using parse_data_append [of "complete c" dec w] by (simp add: tl) (simp add: dw)
qed

lemma poll_growing:
  "growing c cs \<Longrightarrow>
   (case parse_data dec c of
      Inl e \<Rightarrow> Inl e
    | Inr evs \<Rightarrow> map_sum id (\<lambda>(more, o'). (evs @ more, o')) (poll dec (length (complete c)) cs))
   = map_sum id (\<lambda>evs. (evs, length (complete (last (c # cs))))) (parse_data dec (last (c # cs)))"
proof (induction cs arbitrary: c)
  case Nil
  then show ?case by (cases "parse_data dec c") simp_all
next
  case (Cons d cs)
  then have d: "startswith d c" "growing d cs" by simp_all
  note step = read_step [OF d(1), of dec]
  have "(case parse_data dec c of Inl e \<Rightarrow> Inl e
      | Inr evs \<Rightarrow> map_sum id (\<lambda>(more, o'). (evs @ more, o')) (poll dec (length (complete c)) (d # cs)))
    = (case parse_data dec d of Inl e \<Rightarrow> Inl e
      | Inr evs \<Rightarrow> map_sum id (\<lambda>(more, o'). (evs @ more, o')) (poll dec (length (complete d)) cs))"
    unfolding step(2) poll.simps step(1)
    by (cases "parse_data dec c"; cases "parse_data dec (drop (length (complete c)) d)";
        cases "poll dec (length (complete d)) cs") auto
  with Cons.IH [OF d(2)] show ?case by simp
qed

text \<open>C38: a polling reader neither loses nor repeats an event. A reader that starts at offset 0 and calls
  \<open>read_from_offset\<close> with the offset it got last, at arbitrary moments while the file grows (also in the
  middle of a line that is being written), has seen exactly the events a full read of the final file
  gives, and stands at the end of its last complete line.\<close>

theorem log_polling_complete:
  assumes "growing [] cs" and "cs \<noteq> []"
  shows "poll dec 0 cs = map_sum id (\<lambda>evs. (evs, length (complete (last cs)))) (parse_data dec (last cs))"
  using poll_growing [OF assms(1), of dec] assms(2) by (cases "poll dec 0 cs") auto

theorem log_polling_complete_witness:
  "poll (decode None False (''evt'', ''t'')) 0 [''ab'', ''ab'' @ [newline] @ ''c'', ''ab'' @ [newline] @ ''cd'' @ [newline]]
    = map_sum id (\<lambda>evs. (evs, length (complete (''ab'' @ [newline] @ ''cd'' @ [newline]))))
        (parse_data (decode None False (''evt'', ''t'')) (''ab'' @ [newline] @ ''cd'' @ [newline]))"
proof -
  have g: "growing [] [''ab'', ''ab'' @ [newline] @ ''c'', ''ab'' @ [newline] @ ''cd'' @ [newline]]"
    by (simp add: startswith_def)
  show ?thesis using log_polling_complete [OF g, of "decode None False (''evt'', ''t'')"] by simp
qed

section \<open>The fold cache\<close>

text \<open>An entry is valid for a log if it is what a full read of an earlier moment left: the archives are the
  ones of now, the active file only grew.\<close>

definition entry_valid :: "(string \<Rightarrow> zf_event option res) \<Rightarrow> fold_entry \<Rightarrow> event_store \<Rightarrow> bool" where
  "entry_valid dec en s \<longleftrightarrow>
     (\<exists>old data arch evs. es_active s = Some data \<and> startswith data old
        \<and> parse_files dec (map snd (archive_files s)) = Inr arch \<and> parse_data dec old = Inr evs
        \<and> fe_archives en = archive_inventory s \<and> fe_consumed en = length (complete old)
        \<and> fe_events en = arch @ evs)"

lemma parse_tail_all: "parse_tail dec data n (length data) =
    map_sum id (\<lambda>evs. (evs, length (complete (drop n data)))) (parse_data dec (drop n data))"
  by (simp add: parse_tail_def Let_def)

text \<open>The incremental read is the full read. With a valid cache entry \<open>read_all\<close> decodes only the bytes
  appended since, and returns exactly what decoding every archive and the whole active file returns
  (the same error too); the entry it stores is valid again. Without an entry it stores a valid one.\<close>

lemma log_fold_cache_exact:
  assumes "case entry of None \<Rightarrow> True | Some en \<Rightarrow> entry_valid dec en s"
  shows "map_sum id fst (read_all_fold dec entry s) = read_all dec s
    \<and> (\<forall>evs en'. read_all_fold dec entry s = Inr (evs, Some en') \<longrightarrow> entry_valid dec en' s)"
proof (cases entry)
  case None
  show ?thesis
  proof (cases "es_active s")
    case (Some data)
    have "startswith data data" by (simp add: startswith_def)
    with None Some show ?thesis
      by (auto simp: read_all_fold_def read_all_def read_all_uncached_def parse_file_consumed_def entry_valid_def
          map_sum.comp split: sum.splits) (cases "parse_data dec data"; force)+
  next
    case None
    with \<open>entry = None\<close> show ?thesis
      by (cases "read_all_uncached dec s") (simp_all add: read_all_fold_def read_all_def)
  qed
next
  case (Some en)
  with assms obtain old data arch evs where v: "es_active s = Some data" "startswith data old"
    "parse_files dec (map snd (archive_files s)) = Inr arch" "parse_data dec old = Inr evs"
    "fe_archives en = archive_inventory s" "fe_consumed en = length (complete old)" "fe_events en = arch @ evs"
    by (auto simp: entry_valid_def)
  let ?tl = "drop (length (complete old)) data"
  have full: "parse_data dec data = res_append (Inr evs) (parse_data dec ?tl)"
    using read_step(2) [OF v(2), of dec] v(4) by simp
  obtain t where data: "data = old @ t" using v(2) by (auto simp: startswith_append)
  obtain u where old: "old = complete old @ u" by (rule complete_split)
  have le: "length (complete old) \<le> length data"
    using arg_cong [OF old, of length] data by simp
  have "data = complete old @ (u @ t)" using data old by (metis append_assoc)
  then have cd: "complete data = complete old @ complete ?tl"
    using complete_join [of "complete old" "u @ t"] by simp
  have fold: "read_all_fold dec entry s = map_sum id (\<lambda>(tl, n). (fe_events en @ tl,
      Some (en\<lparr>fe_consumed := fe_consumed en + n, fe_events := fe_events en @ tl\<rparr>)))
      (map_sum id (\<lambda>evs. (evs, length (complete ?tl))) (parse_data dec ?tl))"
    using Some v le by (simp add: read_all_fold_def parse_tail_all)
  show ?thesis
  proof (cases "parse_data dec ?tl")
    case (Inl e)
    then show ?thesis using full fold v
      by (simp add: read_all_def read_all_uncached_def parse_file_consumed_def)
  next
    case (Inr more)
    have "entry_valid dec (en\<lparr>fe_consumed := fe_consumed en + length (complete ?tl), fe_events := fe_events en @ more\<rparr>) s"
      unfolding entry_valid_def
      by (intro exI [of _ data] exI [of _ arch] exI [of _ "evs @ more"])
        (use v full Inr cd in \<open>simp add: startswith_def\<close>)
    then show ?thesis using full fold v Inr
      by (simp add: read_all_def read_all_uncached_def parse_file_consumed_def)
  qed
qed

section \<open>Encoding and decoding\<close>

definition wf_event :: "zf_event \<Rightarrow> bool" where
  "wf_event e \<longleftrightarrow> is_str (ev_type e) \<and> (ev_payload e = JNull \<or> is_dict (ev_payload e)) \<and> wf_json (JObj (event_dict e))"

lemma seps: "good_sep (CHR '','') '',''" "good_sep (CHR '','') '', ''" "good_sep (CHR '':'') '':''" "good_sep (CHR '':'') '': ''"
  by (simp_all add: good_sep_def)

lemma loads_event: "wf_event e \<Longrightarrow> json_loads (event_to_json e) = Some (JObj (event_dict e))"
  unfolding event_to_json_def wf_event_def by (intro loads_dumps seps) simp

lemma from_dict_event: "event_from_dict fr (JObj (event_dict e)) = Inr e"
  by (simp add: event_from_dict_def event_dict_def field_or_def)

lemma hex_ascii: "n < 16 \<Longrightarrow> (of_char (hex_char n) :: nat) < 128"
  by (simp add: hex_char_def of_char_of_small)

lemma hexdigest_ascii: "list_all (\<lambda>c. (of_char c :: nat) < 128) (hexdigest_words ws)"
  by (auto simp: hexdigest_words_def list_all_iff hex_byte_def hex_ascii nibble)

lemma sign_ascii: "list_all (\<lambda>c. (of_char c :: nat) < 128) (sign secret msg)"
  by (simp add: sign_def hmac_sha256_hex_def Let_def hexdigest_ascii)

lemma encode_signed:
  assumes "wf_event e"
  shows "json_loads (encode (Some secret) e) =
    Some (JObj [(''event'', JObj (event_dict e)), (''sig'', JStr (sign secret (event_to_json e)))])"
proof -
  have "encode (Some secret) e = json_dumps '', '' '': '' False
      (JObj [(''event'', JObj (event_dict e)), (''sig'', JStr (sign secret (event_to_json e)))])"
    using loads_event [OF assms] by (simp add: encode_def Let_def)
  moreover have "wf_json (JObj [(''event'', JObj (event_dict e)), (''sig'', JStr (sign secret (event_to_json e)))])"
    using assms by (simp add: wf_event_def)
  ultimately show ?thesis by (simp only: loads_dumps seps)
qed

lemma event_no_envelope: "\<not> has_key (event_dict e) ''event''"
  by (simp add: has_key_def event_dict_def)

text \<open>What is appended is read back. Decoding the line the log writes for an event gives that event:
  without a signer, and with a signer when the reader has the same secret, whether or not it tolerates
  unsigned lines.\<close>

lemma decode_encode:
  assumes "wf_event e"
  shows "decode signer allow fr (encode signer e) = Inr (Some e)"
proof (cases signer)
  case None
  have "dict_get (event_dict e) ''type'' = ev_type e" "dict_get (event_dict e) ''payload'' = ev_payload e"
    by (simp_all add: event_dict_def)
  then show ?thesis
    using assms None loads_event [OF assms] event_no_envelope [of e] from_dict_event [of fr e]
    by (auto simp: decode_def encode_def Let_def wf_event_def)
next
  case (Some secret)
  let ?sig = "sign secret (event_to_json e)"
  have "envelope_verified (Some secret) fr (JObj (event_dict e)) (JStr ?sig) = Inr True"
    using sign_ascii by (auto simp: envelope_verified_def verify_def from_dict_event split: bool.splits)
  then show ?thesis
    using Some encode_signed [OF assms, of secret] from_dict_event [of fr e]
    by (simp add: decode_def has_key_def Let_def)
qed

definition demo_event :: zf_event where
  "demo_event = (new_event (''evt-1'', ''t1'') ''task.created'')\<lparr>ev_task_id := JStr ''T1''\<rparr>"

lemma demo_event_wf: "wf_event demo_event"
  by (simp add: wf_event_def demo_event_def new_event_def event_dict_def)

text \<open>C35: an unsigned or forged line never becomes an event of a signed log. When a reader has a secret and
  does not tolerate unsigned lines, everything it decodes is either the synthetic \<open>event.malformed\<close>
  marker, or an event taken from an envelope whose signature is the HMAC, under the reader's secret,
  of the envelope's stored event text or of the canonical encoding of that event.\<close>

theorem log_only_signed_events:
  assumes "decode (Some secret) False fr line = Inr (Some e)"
  shows "(\<exists>err. e = malformed fr line err) \<or>
    (\<exists>d sig. json_loads line = Some (JObj d) \<and> event_from_dict fr (dict_get d ''event'') = Inr e
       \<and> dict_get d ''sig'' = JStr sig
       \<and> (sig = sign secret (json_dumps '', '' '': '' False (dict_get d ''event'')) \<or> sig = sign secret (event_to_json e)))"
proof -
  obtain obj where obj: "json_loads line = Some obj"
    using assms by (auto simp: decode_def split: option.splits)
  show ?thesis
  proof (cases "is_dict obj \<and> has_key (as_dict obj) ''event'' \<and> has_key (as_dict obj) ''sig''")
    case False
    with assms obj show ?thesis by (auto simp: decode_def Let_def)
  next
    case True
    then obtain d where d: "obj = JObj d" by (cases obj) auto
    let ?ev = "dict_get d ''event''" and ?sig = "dict_get d ''sig''"
    have ver: "envelope_verified (Some secret) fr ?ev ?sig = Inr True"
      using assms obj True d by (auto simp: decode_def Let_def split: sum.splits bool.splits)
    consider (bad) err where "e = malformed fr line err" | (ok) "event_from_dict fr ?ev = Inr e"
      using assms obj True d ver by (auto simp: decode_def Let_def split: sum.splits py_error.splits)
    then show ?thesis
    proof cases
      case ok
      with ver have "\<exists>sig. ?sig = JStr sig \<and> (sig = sign secret (json_dumps '', '' '': '' False ?ev)
          \<or> sig = sign secret (event_to_json e))"
        by (auto simp: envelope_verified_def verify_def split: sum.splits bool.splits json.splits if_splits)
      with ok obj d show ?thesis by auto
    qed auto
  qed
qed

theorem log_only_signed_events_witness:
  "(\<exists>err. demo_event = malformed (''x'', ''y'') (encode (Some [1]) demo_event) err) \<or>
    (\<exists>d sig. json_loads (encode (Some [1]) demo_event) = Some (JObj d)
       \<and> event_from_dict (''x'', ''y'') (dict_get d ''event'') = Inr demo_event \<and> dict_get d ''sig'' = JStr sig
       \<and> (sig = sign [1] (json_dumps '', '' '': '' False (dict_get d ''event'')) \<or> sig = sign [1] (event_to_json demo_event)))"
proof (rule log_only_signed_events)
  have "json_loads (encode (Some [1]) demo_event) =
      Some (JObj [(''event'', JObj (event_dict demo_event)), (''sig'', JStr (sign [1] (event_to_json demo_event)))])"
    by (rule encode_signed [OF demo_event_wf])
  moreover have "envelope_verified (Some [1]) (''x'', ''y'') (JObj (event_dict demo_event))
      (JStr (sign [1] (event_to_json demo_event))) = Inr True"
    using sign_ascii by (auto simp: envelope_verified_def verify_def from_dict_event split: bool.splits)
  ultimately show "decode (Some [1]) False (''x'', ''y'') (encode (Some [1]) demo_event) = Inr (Some demo_event)"
    by (simp add: decode_def has_key_def Let_def from_dict_event)
qed

section \<open>Appending and reading back\<close>

definition day_archive :: "string \<Rightarrow> string" where
  "day_archive day = day @ ''.jsonl''"

text \<open>A log between two appends: every file ends with a line break, archive names differ, and no archive
  is newer than the day of the active file.\<close>

definition log_ok :: "event_store \<Rightarrow> bool" where
  "log_ok s \<longleftrightarrow> distinct (map fst (es_archives s))
     \<and> (\<forall>f \<in> set (es_archives s). fst f \<le> day_archive (es_day s) \<and> complete (snd f) = snd f)
     \<and> (case es_active s of None \<Rightarrow> True | Some data \<Rightarrow> complete data = data)"

lemma strip_braces: "strip (CHR ''{'' # t @ [CHR ''}'']) = CHR ''{'' # t @ [CHR ''}'']"
  by (simp add: strip_def lstrip_def is_space_def)

lemma encode_shape: "\<exists>t. encode signer e = CHR ''{'' # t @ [CHR ''}'']"
  by (cases signer) (simp_all add: encode_def event_to_json_def Let_def)

lemma printable_one_line: "printable s \<Longrightarrow> newline \<notin> set s"
  by (force simp: printable_def list_all_iff)

lemma encode_one_line: "newline \<notin> set (encode signer e)"
proof (rule printable_one_line)
  show "printable (encode signer e)"
    by (cases signer) (auto simp: encode_def event_to_json_def Let_def simp del: json_dumps.simps intro!: json_dumps_printable)
qed

lemma parse_encoded:
  assumes "wf_event e"
  shows "parse_data (decode signer allow fr) (encode signer e @ [newline]) = Inr [e]"
proof -
  obtain t where t: "encode signer e = CHR ''{'' # t @ [CHR ''}'']" using encode_shape by blast
  have "strip (encode signer e) = encode signer e" unfolding t by (rule strip_braces)
  moreover have "split_on newline (encode signer e @ [newline]) = [encode signer e, []]"
    using split_on_append [of newline "encode signer e" "[]"] by (simp add: split_on_free encode_one_line)
  moreover have "encode signer e \<noteq> []" by (simp add: t)
  ultimately show ?thesis
    using decode_encode [OF assms, of signer allow fr] by (simp add: parse_data_def complete_newline)
qed

lemma parse_files_append: "parse_files dec (xs @ ys) = res_append (parse_files dec xs) (parse_files dec ys)"
proof (induction xs)
  case (Cons x xs)
  then show ?case
    by (cases "parse_data dec x"; cases "parse_files dec xs"; cases "parse_files dec ys") auto
qed simp

lemma parse_files_single [simp]: "parse_files dec [d] = parse_data dec d"
  by (cases "parse_data dec d") simp_all

declare parse_files.simps(2) [simp del]

lemma sort_newest:
  assumes "distinct (map fst (A @ x # B))" and "\<forall>y \<in> set (A @ B). fst y \<le> fst x"
  shows "sort_dict (A @ x # B) = sort_dict (A @ B) @ [x]"
  unfolding sort_dict_def
proof (rule sort_key_inj_key_eq)
  show "mset (A @ x # B) = mset (sort_key fst (A @ B) @ [x])" by simp
  show "inj_on fst (set (A @ x # B))" using assms(1) by (simp only: distinct_map)
  show "sorted (map fst (sort_key fst (A @ B) @ [x]))" using assms(2) by (auto simp: sorted_append)
qed

lemma update_split: "k \<notin> fst ` set A \<Longrightarrow> AList.update k v (A @ (k, w) # B) = A @ (k, v) # B"
  by (induction A) auto

lemma update_fresh: "k \<notin> fst ` set A \<Longrightarrow> AList.update k v A = A @ [(k, v)]"
  by (induction A) auto

lemma le_append_right:
  fixes a b :: "'a::linorder list"
  shows "length a = length b \<Longrightarrow> a \<le> b \<Longrightarrow> a @ x \<le> b @ x"
  by (induction a b rule: list_induct2) auto

lemma read_all_parts: "read_all dec s = res_append (parse_files dec (map snd (archive_files s)))
    (case es_active s of None \<Rightarrow> Inr [] | Some data \<Rightarrow> parse_data dec data)"
proof (cases "es_active s")
  case None
  then show ?thesis
    by (cases "parse_files dec (map snd (archive_files s))") (simp_all add: read_all_def read_all_uncached_def parse_file_consumed_def)
next
  case (Some data)
  then show ?thesis
    by (cases "parse_files dec (map snd (archive_files s))"; cases "parse_data dec data")
      (simp_all add: read_all_def read_all_uncached_def parse_file_consumed_def)
qed

lemma complete_join_parse:
  assumes "complete old = old"
  shows "parse_data dec (old @ (if old \<noteq> [] \<and> last old \<noteq> newline then [newline] else []) @ data)
      = res_append (parse_data dec old) (parse_data dec data)"
    and "complete data = data \<Longrightarrow>
      complete (old @ (if old \<noteq> [] \<and> last old \<noteq> newline then [newline] else []) @ data)
        = old @ (if old \<noteq> [] \<and> last old \<noteq> newline then [newline] else []) @ data"
proof -
  have "old = [] \<or> last old = newline" using complete_shape [of old] assms by auto
  then show "parse_data dec (old @ (if old \<noteq> [] \<and> last old \<noteq> newline then [newline] else []) @ data)
      = res_append (parse_data dec old) (parse_data dec data)"
    and "complete data = data \<Longrightarrow>
      complete (old @ (if old \<noteq> [] \<and> last old \<noteq> newline then [newline] else []) @ data)
        = old @ (if old \<noteq> [] \<and> last old \<noteq> newline then [newline] else []) @ data"
    using parse_data_append [OF assms] complete_join [OF assms] by auto
qed

text \<open>Rotating a log into the archive of its day changes neither what a full read gives nor the order.\<close>

lemma rotate_reads:
  assumes "log_ok s"
  shows "read_all dec (rotate_if_needed today s) = read_all dec s \<and> log_ok (rotate_if_needed today s)
    \<and> es_day (rotate_if_needed today s) = es_day s"
proof (cases "es_active s")
  case None
  with assms show ?thesis by (simp add: rotate_if_needed_def)
next
  case (Some data)
  let ?name = "day_archive (es_day s)"
  from assms Some have ok: "distinct (map fst (es_archives s))" "complete data = data"
    "\<forall>f \<in> set (es_archives s). fst f \<le> ?name \<and> complete (snd f) = snd f"
    by (auto simp: log_ok_def)
  show ?thesis
  proof (cases "es_day s = today")
    case True
    with assms Some show ?thesis by (simp add: rotate_if_needed_def)
  next
    case False
    show ?thesis
    proof (cases "map_of (es_archives s) ?name")
      case None
      then have fresh: "?name \<notin> fst ` set (es_archives s)" by (simp add: map_of_eq_None_iff)
      then have r: "rotate_if_needed today s = s\<lparr>es_active := None, es_archives := es_archives s @ [(?name, data)]\<rparr>"
        using Some False None by (simp add: rotate_if_needed_def archive_put_def update_fresh day_archive_def)
      have "sort_dict (es_archives s @ [(?name, data)]) = sort_dict (es_archives s) @ [(?name, data)]"
        using sort_newest [of "es_archives s" "(?name, data)" "[]"] ok fresh by auto
      then show ?thesis unfolding r using ok fresh Some
        by (auto simp: read_all_parts archive_files_def parse_files_append log_ok_def)
    next
      case (Some old)
      then obtain A B where AB: "es_archives s = A @ (?name, old) # B"
        by (metis map_of_SomeD split_list)
      let ?new = "old @ (if old \<noteq> [] \<and> last old \<noteq> newline then [newline] else []) @ data"
      have notin: "?name \<notin> fst ` set A" "?name \<notin> fst ` set B" using ok(1) by (auto simp: AB)
      have r: "rotate_if_needed today s = s\<lparr>es_active := None, es_archives := A @ (?name, ?new) # B\<rparr>"
        using \<open>es_active s = Some data\<close> False Some update_split [OF notin(1), of ?new old B]
        by (simp add: rotate_if_needed_def archive_put_def day_archive_def AB)
      have old: "complete old = old" using ok(3) by (auto simp: AB)
      have srt: "sort_dict (A @ (?name, v) # B) = sort_dict (A @ B) @ [(?name, v)]" for v
        using ok by (intro sort_newest) (auto simp: AB)
      show ?thesis unfolding r using ok \<open>es_active s = Some data\<close> complete_join_parse [OF old]
        by (auto simp: read_all_parts archive_files_def AB srt parse_files_append log_ok_def res_append_assoc)
    qed
  qed
qed

lemma append_reads:
  assumes "log_ok s" and "wf_event e" and "es_day s \<le> today" and "length (es_day s) = length today"
  shows "read_all (decode signer allow fr) (append_event signer today [] e s)
      = res_append (read_all (decode signer allow fr) s) (Inr [e])
    \<and> log_ok (append_event signer today [] e s) \<and> es_day (append_event signer today [] e s) = today"
proof -
  define r where "r = rotate_if_needed today s"
  let ?line = "encode signer e @ [newline]"
  let ?old = "case es_active r of None \<Rightarrow> [] | Some data \<Rightarrow> data"
  have r: "read_all dec r = read_all dec s" "log_ok r" "es_day r = es_day s" for dec
    using rotate_reads [OF assms(1)] by (auto simp: r_def)
  have a: "append_event signer today [] e s = r\<lparr>es_active := Some (?old @ ?line), es_day := today\<rparr>"
    by (simp add: append_event_def r_def rotate_by_size_if_needed_def parse_int_def Let_def)
  have old: "complete ?old = ?old" using r(2) by (auto simp: log_ok_def split: option.splits)
  have "parse_data (decode signer allow fr) (?old @ ?line) = res_append (parse_data (decode signer allow fr) ?old) (Inr [e])"
    using parse_data_append [OF old] parse_encoded [OF assms(2)] by simp
  then have "read_all (decode signer allow fr) (append_event signer today [] e s)
      = res_append (read_all (decode signer allow fr) r) (Inr [e])"
    by (cases "es_active r") (simp_all add: a read_all_parts archive_files_def res_append_assoc)
  moreover have "day_archive (es_day s) \<le> day_archive today"
    unfolding day_archive_def using assms(3,4) by (intro le_append_right)
  then have "log_ok (append_event signer today [] e s)"
    using r(2,3) complete_join [OF old, of ?line] complete_newline [of "encode signer e"]
    by (auto simp: a log_ok_def split: option.splits)
  ultimately show ?thesis using r(1) by (simp add: a)
qed

fun append_all :: "byte list option \<Rightarrow> (string \<times> zf_event) list \<Rightarrow> event_store \<Rightarrow> event_store" where
  "append_all signer [] s = s"
| "append_all signer ((day, e) # es) s = append_all signer es (append_event signer day [] e s)"

text \<open>C34: everything appended is read back, in order, across days. Appending any sequence of events, on days
  that do not go backwards, to a log whose files are complete leaves a log from which \<open>read_all\<close> gives
  the events it gave before followed by the appended ones in the order of appending: rotation into
  per-day archives loses, repeats and reorders nothing, with and without a signer.\<close>

theorem log_append_all_read:
  assumes "log_ok s" and "read_all (decode signer allow fr) s = Inr evs"
    and "\<forall>(day, e) \<in> set es. wf_event e \<and> length day = length (es_day s)" and "sorted (es_day s # map fst es)"
  shows "read_all (decode signer allow fr) (append_all signer es s) = Inr (evs @ map snd es)"
  using assms
proof (induction signer es s arbitrary: evs rule: append_all.induct)
  case (2 signer day e es s)
  then have "wf_event e" "es_day s \<le> day" "length (es_day s) = length day" by auto
  from append_reads [OF "2.prems"(1) this, of signer allow fr] "2.prems" "2.IH" [of "evs @ [e]"]
  show ?case by auto
qed simp

theorem log_append_all_read_witness:
  "read_all (decode (Some [7]) False (''x'', ''y''))
     (append_all (Some [7]) [(''2026-01-01'', demo_event), (''2026-01-02'', demo_event)]
       \<lparr>es_active = None, es_day = ''2026-01-01'', es_archives = []\<rparr>) = Inr [demo_event, demo_event]"
proof -
  let ?s = "\<lparr>es_active = None, es_day = ''2026-01-01'', es_archives = []\<rparr>"
  have "log_ok ?s" "read_all (decode (Some [7]) False (''x'', ''y'')) ?s = Inr []"
    by (simp_all add: log_ok_def read_all_parts archive_files_def sort_dict_def)
  moreover have "sorted (es_day ?s # map fst [(''2026-01-01'', demo_event), (''2026-01-02'', demo_event)])"
    by simp
  ultimately show ?thesis
    using log_append_all_read [of ?s "Some [7]" False "(''x'', ''y'')" "[]"
        "[(''2026-01-01'', demo_event), (''2026-01-02'', demo_event)]"] demo_event_wf by simp
qed

section \<open>A line that stops every reader\<close>

lemma parse_lines_Inl:
  assumes "raw \<in> set raws" and "strip raw \<noteq> []" and "dec (strip raw) = Inl e"
  shows "\<exists>e'. parse_lines dec raws = Inl e'"
  using assms by (induction raws) (auto simp: Let_def split: sum.splits)

text \<open>One bad envelope stops every reader. A complete line of the active file that is a JSON object with
  keys \<open>event\<close> and \<open>sig\<close> whose \<open>event\<close> is not an object makes \<open>read_all\<close> of an unsigned log raise, instead
  of yielding the \<open>event.malformed\<close> marker the decoder promises for lines of a wrong shape.\<close>

lemma log_bad_envelope_raises:
  assumes "es_active s = Some data" and "raw \<in> set (split_on newline (complete data))"
    and "json_loads (strip raw) = Some (JObj d)" and "has_key d ''event''" and "has_key d ''sig''"
    and "\<not> is_dict (dict_get d ''event'')"
  shows "\<exists>e. read_all (decode None allow fr) s = Inl e"
proof -
  have "event_from_dict fr (dict_get d ''event'') = Inl (AttributeError ''items'')"
    using assms(6) by (cases "dict_get d ''event''") (simp_all add: event_from_dict_def)
  then have bad: "decode None allow fr (strip raw) = Inl (AttributeError ''items'')"
    using assms(3-5) by (simp add: decode_def envelope_verified_def Let_def)
  have "strip raw \<noteq> []" using assms(3) by (auto simp: json_loads_def)
  from parse_lines_Inl [where dec = "decode None allow fr", OF assms(2) this bad]
  obtain e where "parse_data (decode None allow fr) data = Inl e" by (auto simp: parse_data_def)
  then show ?thesis
    using assms(1) by (auto simp: read_all_def read_all_uncached_def parse_file_consumed_def split: sum.splits)
qed

definition bad_line :: string where
  "bad_line = json_dumps '','' '':'' False (JObj [(''event'', JInt 1), (''sig'', JStr ''x'')])"

lemma bad_line_text: "bad_line = [CHR ''{'', CHR 34] @ ''event'' @ [CHR 34, CHR '':'', digit_char 1, CHR '','', CHR 34] @ ''sig''
    @ [CHR 34, CHR '':'', CHR 34, CHR ''x'', CHR 34, CHR ''}'']"
  by (simp add: bad_line_def json_string_def json_escape_def show_int_def show_nat.simps)

lemma bad_line_one_line: "newline \<notin> set bad_line"
proof -
  have "\<not> is_digit newline" by (simp add: is_digit_def)
  then have "newline \<noteq> digit_char 1" using digit_char_digit [of 1] by fastforce
  then show ?thesis by (simp add: bad_line_text)
qed

section \<open>Causation\<close>

text \<open>Each event of the list is the cause of the one before it.\<close>

fun linked :: "json \<Rightarrow> zf_event list \<Rightarrow> bool" where
  "linked cur [] = True"
| "linked cur (e # es) = (ev_id e = cur \<and> linked (ev_causation_id e) es)"

definition keyed :: "(json \<times> zf_event) list \<Rightarrow> bool" where
  "keyed ids \<longleftrightarrow> (\<forall>(k, e) \<in> set ids. k = ev_id e)"

lemma walk_spec:
  assumes "keyed ids"
  shows "linked cur (walk_causation ids seen cur) \<and> distinct (map ev_id (walk_causation ids seen cur))
    \<and> set (map ev_id (walk_causation ids seen cur)) \<inter> set seen = {}
    \<and> set (walk_causation ids seen cur) \<subseteq> snd ` set ids
    \<and> (let stop = (if walk_causation ids seen cur = [] then cur
                    else ev_causation_id (last (walk_causation ids seen cur)))
       in \<not> truthy stop \<or> stop \<notin> fst ` set ids \<or> stop \<in> set seen \<union> set (map ev_id (walk_causation ids seen cur)))"
  using assms
proof (induction ids seen cur rule: walk_causation.induct)
  case (1 ids seen cur)
  show ?case
  proof (cases "truthy cur \<and> cur \<notin> set seen")
    case False
    then have "walk_causation ids seen cur = []" by (subst walk_causation.simps) (simp only: if_False)
    with False show ?thesis by auto
  next
    case True
    show ?thesis
    proof (cases "map_of ids cur")
      case None
      then have "walk_causation ids seen cur = []" by (subst walk_causation.simps) (simp add: True)
      with None show ?thesis by (simp add: map_of_eq_None_iff)
    next
      case (Some e)
      let ?w = "walk_causation ids (cur # seen) (ev_causation_id e)"
      have w: "walk_causation ids seen cur = e # ?w"
        by (subst walk_causation.simps) (simp add: True Some)
      from Some have mem: "(cur, e) \<in> set ids" by (rule map_of_SomeD)
      with "1.prems" have id: "ev_id e = cur" by (auto simp: keyed_def)
      note IH = "1.IH" [OF True Some "1.prems"]
      from IH mem id True show ?thesis
        unfolding w Let_def by (auto split: if_splits simp: rev_image_eqI)
    qed
  qed
qed

lemma by_id_keyed: "keyed (by_id evs)" "fst ` set (by_id evs) = ev_id ` set evs" "snd ` set (by_id evs) = set evs"
  by (auto simp: keyed_def by_id_def image_image)

text \<open>A causation chain is well formed and complete. For a log that reads and whose ids are scalars, \<open>get_causation_chain\<close> returns
  events of the log with pairwise different ids, each one caused by the one before it, the requested
  event last; it is empty only if no event has that id; and it starts where the chain really stops: at
  an event without a cause, with a cause that is not in the log, or with a cause that closes a cycle.
  Self-references and loops end the walk.\<close>

lemma log_causation_chain:
  assumes "read_all dec s = Inr evs" and "event_id \<noteq> []"
    and "\<forall>e \<in> set evs. hashable (ev_id e) \<and> hashable (ev_causation_id e)"
  shows "\<exists>chain. get_causation_chain dec event_id s = Inr chain
    \<and> linked (JStr event_id) (rev chain) \<and> distinct (map ev_id chain) \<and> set chain \<subseteq> set evs
    \<and> (chain = [] \<longleftrightarrow> JStr event_id \<notin> ev_id ` set evs)
    \<and> (chain \<noteq> [] \<longrightarrow> \<not> truthy (ev_causation_id (hd chain)) \<or> ev_causation_id (hd chain) \<notin> ev_id ` set evs
         \<or> ev_causation_id (hd chain) \<in> ev_id ` set chain)"
proof -
  let ?w = "walk_causation (by_id evs) [] (JStr event_id)"
  note spec = walk_spec [OF by_id_keyed(1), of "JStr event_id" evs "[]"]
  have empty: "?w = [] \<longleftrightarrow> JStr event_id \<notin> ev_id ` set evs"
  proof
    assume "?w = []"
    with spec assms(2) show "JStr event_id \<notin> ev_id ` set evs" by (simp add: by_id_keyed)
  next
    assume "JStr event_id \<notin> ev_id ` set evs"
    then have "map_of (by_id evs) (JStr event_id) = None" by (simp add: map_of_eq_None_iff by_id_keyed)
    then show "?w = []" by (subst walk_causation.simps) simp
  qed
  have "set ?w \<subseteq> set evs" using spec by (simp add: by_id_keyed)
  with assms(3) have "get_causation_chain dec event_id s = Inr (rev ?w)"
    by (auto simp: get_causation_chain_def assms(1) list_all_iff Let_def)
  with spec empty show ?thesis
    by (intro exI [of _ "rev ?w"]) (auto simp: by_id_keyed rev_map [symmetric] hd_rev Let_def)
qed

end
