(* ===== verification/Event_Segments.thy ===== *)
theory Event_Segments
  imports Event_Log
begin

text \<open>
  \<open>core/events/segments.py\<close>: the read-side view of the event log as numbered rows over archived
  segments and the active file, with the byte range of every row, so that a projection can resume at a
  cursor or fetch one row again.

  A directory is its files with their bytes and modification times. \<open>dec\<close> is the decoder of the log
  (\<open>event_log.decode_line\<close>); \<open>fr\<close> gives the id and time stamp of the marker event for a row that does
  not decode. A generator is the list of what it yields, or the exception it ends with.
\<close>

section \<open>Segments\<close>

type_synonym seg_file = "string \<times> nat"

record segment_dir =
  sd_archives :: "(string \<times> seg_file) list"
  sd_future :: "(string \<times> seg_file) list"
  sd_active :: "seg_file option"

record event_segment =
  sg_rel_path :: string
  sg_kind :: string
  sg_ordinal :: nat
  sg_size :: nat
  sg_mtime_ns :: nat
  sg_bytes :: string

text \<open>\<open>Path\<close> objects compare by their components.\<close>

definition path_parts :: "string \<Rightarrow> string list" where
  "path_parts p = split_on (CHR ''/'') p"

definition archive_paths :: "segment_dir \<Rightarrow> (string \<times> seg_file) list" where
  "archive_paths sd =
     map (\<lambda>f. (''events/'' @ fst f, snd f)) (filter (\<lambda>f. endswith (fst f) ''.jsonl'') (sort_dict (sd_archives sd))) @
     map (\<lambda>f. (''events/archive/'' @ fst f, snd f)) (filter (\<lambda>f. endswith (fst f) ''.jsonl'') (sort_dict (sd_future sd)))"

definition segment_paths :: "segment_dir \<Rightarrow> (string \<times> string \<times> seg_file) list" where
  "segment_paths sd =
     map (\<lambda>f. (''archive'', f)) (sort_key (\<lambda>f. path_parts (fst f)) (fromkeys (archive_paths sd))) @
     (case sd_active sd of None \<Rightarrow> [] | Some f \<Rightarrow> [(''active'', ''events.jsonl'', f)])"

definition list_event_segments :: "segment_dir \<Rightarrow> event_segment list" where
  "list_event_segments sd =
     map (\<lambda>(ordinal, kind, rel, bytes, mtime).
            \<lparr>sg_rel_path = rel, sg_kind = kind, sg_ordinal = ordinal, sg_size = length bytes,
             sg_mtime_ns = mtime, sg_bytes = bytes\<rparr>)
       (enumerate 0 (segment_paths sd))"

record event_manifest =
  em_segments :: "event_segment list"
  em_total_bytes :: nat
  em_digest :: string

definition segment_line :: "event_segment \<Rightarrow> string" where
  "segment_line sg =
     show_nat (sg_ordinal sg) @ [CHR 0x00] @ sg_rel_path sg @ [CHR 0x00] @ sg_kind sg @ [CHR 0x00] @
     show_nat (sg_size sg) @ [CHR 0x00] @ show_nat (sg_mtime_ns sg) @ [newline]"

definition build_event_manifest :: "segment_dir \<Rightarrow> event_manifest" where
  "build_event_manifest sd =
     (let segments = list_event_segments sd
      in \<lparr>em_segments = segments, em_total_bytes = sum_list (map sg_size segments),
          em_digest = sha256_hex (concat (map segment_line segments))\<rparr>)"

section \<open>Rows\<close>

text \<open>\<open>bytes.splitlines(keepends=True)\<close>: lines end with a line feed, a carriage return, or both.\<close>

fun splitlines_keep :: "string \<Rightarrow> string list" where
  "splitlines_keep [] = []"
| "splitlines_keep (c # s) =
     (if c = newline then [c] # splitlines_keep s
      else if c = CHR 13 then
        (case s of
           [] \<Rightarrow> [[c]]
         | d # t \<Rightarrow> if d = newline then [c, d] # splitlines_keep t else [c] # splitlines_keep s)
      else (case splitlines_keep s of [] \<Rightarrow> [[c]] | l # ls \<Rightarrow> (c # l) # ls))"

record event_record =
  er_seq :: nat
  er_event :: zf_event
  er_raw_segment :: string
  er_raw_offset :: nat
  er_raw_length :: nat
  er_raw_line :: string

definition segments_malformed :: "fresh \<Rightarrow> string \<Rightarrow> zf_event" where
  "segments_malformed fr line =
     (new_event fr ''event.malformed'')
       \<lparr>ev_actor := JStr ''segments'',
        ev_payload := JObj [(''line'', JStr (take 200 line)), (''error'', JStr ''unable to decode event line'')]\<rparr>"

definition row_event :: "(string \<Rightarrow> zf_event option res) \<Rightarrow> fresh \<Rightarrow> string \<Rightarrow> zf_event res" where
  "row_event dec fr line =
     map_sum id (\<lambda>ev. case ev of None \<Rightarrow> segments_malformed fr line | Some e \<Rightarrow> e) (dec line)"

text \<open>The loop over the lines of one segment. It yields the rows beyond \<open>start_seq\<close> and passes on the
  number of the last row.\<close>

fun segment_rows ::
  "(string \<Rightarrow> zf_event option res) \<Rightarrow> fresh \<Rightarrow> string \<Rightarrow> int \<Rightarrow> nat \<Rightarrow> nat \<Rightarrow> string list \<Rightarrow> (event_record list \<times> nat) res" where
  "segment_rows dec fr rel start_seq seq offset [] = Inr ([], seq)"
| "segment_rows dec fr rel start_seq seq offset (raw # raws) =
     (let line = strip raw; after = offset + length raw in
      if line = [] then segment_rows dec fr rel start_seq seq after raws
      else if int (Suc seq) \<le> start_seq then segment_rows dec fr rel start_seq (Suc seq) after raws
      else
        (case row_event dec fr line of
           Inl e \<Rightarrow> Inl e
         | Inr event \<Rightarrow>
             map_sum id (\<lambda>(recs, n).
               (\<lparr>er_seq = Suc seq, er_event = event, er_raw_segment = rel, er_raw_offset = offset,
                 er_raw_length = length raw, er_raw_line = line\<rparr> # recs, n))
               (segment_rows dec fr rel start_seq (Suc seq) after raws)))"

fun rows_of_segments ::
  "(string \<Rightarrow> zf_event option res) \<Rightarrow> fresh \<Rightarrow> int \<Rightarrow> nat \<Rightarrow> event_segment list \<Rightarrow> event_record list res" where
  "rows_of_segments dec fr start_seq seq [] = Inr []"
| "rows_of_segments dec fr start_seq seq (sg # sgs) =
     (case segment_rows dec fr (sg_rel_path sg) start_seq seq 0 (splitlines_keep (complete (sg_bytes sg))) of
        Inl e \<Rightarrow> Inl e
      | Inr (recs, n) \<Rightarrow> map_sum id ((@) recs) (rows_of_segments dec fr start_seq n sgs))"

definition iter_event_records ::
  "(string \<Rightarrow> zf_event option res) \<Rightarrow> fresh \<Rightarrow> int \<Rightarrow> segment_dir \<Rightarrow> event_record list res" where
  "iter_event_records dec fr start_seq sd = rows_of_segments dec fr start_seq 0 (list_event_segments sd)"

record event_segment_cursor =
  cu_segment :: string
  cu_byte_offset :: nat
  cu_line_no :: nat
  cu_last_event_id :: json
  cu_archive_manifest_digest :: string

definition current_event_cursor :: "(string \<Rightarrow> zf_event option res) \<Rightarrow> fresh \<Rightarrow> segment_dir \<Rightarrow> event_segment_cursor res" where
  "current_event_cursor dec fr sd =
     map_sum id (\<lambda>recs.
       let digest = em_digest (build_event_manifest sd) in
       if recs = [] then
         \<lparr>cu_segment = [], cu_byte_offset = 0, cu_line_no = 0, cu_last_event_id = JStr [], cu_archive_manifest_digest = digest\<rparr>
       else
         (let r = last recs
          in \<lparr>cu_segment = er_raw_segment r, cu_byte_offset = er_raw_offset r + er_raw_length r,
              cu_line_no = length recs, cu_last_event_id = ev_id (er_event r), cu_archive_manifest_digest = digest\<rparr>))
       (iter_event_records dec fr 0 sd)"

definition cursor_is_stale :: "segment_dir \<Rightarrow> event_segment_cursor \<Rightarrow> bool" where
  "cursor_is_stale sd cursor \<longleftrightarrow> cu_archive_manifest_digest cursor \<noteq> em_digest (build_event_manifest sd)"

text \<open>Reading on after a cursor: the first segment from the offset, every later one from its start.\<close>

definition iter_event_records_from_cursor ::
  "(string \<Rightarrow> zf_event option res) \<Rightarrow> fresh \<Rightarrow> string \<Rightarrow> int \<Rightarrow> int \<Rightarrow> segment_dir \<Rightarrow> event_record list res" where
  "iter_event_records_from_cursor dec fr segment byte_offset start_seq sd =
     (if segment = [] then iter_event_records dec fr start_seq sd
      else
        (case dropWhile (\<lambda>sg. sg_rel_path sg \<noteq> segment) (list_event_segments sd) of
           [] \<Rightarrow> Inl (ValueError (''event cursor segment is missing: '' @ segment))
         | current # later \<Rightarrow>
             (let offset = nat byte_offset in
              if sg_size current < offset
              then Inl (ValueError (''event cursor exceeds segment size: '' @ sg_rel_path current))
              else
                (case segment_rows dec fr (sg_rel_path current) 0 (nat start_seq) offset
                        (splitlines_keep (complete (drop offset (sg_bytes current)))) of
                   Inl e \<Rightarrow> Inl e
                 | Inr (recs, n) \<Rightarrow> map_sum id ((@) recs) (rows_of_segments dec fr 0 n later)))))"

text \<open>\<open>bytes.strip\<close> removes fewer characters than \<open>str.strip\<close>.\<close>

definition bytes_space :: "char \<Rightarrow> bool" where
  "bytes_space c = (let n = (of_char c :: nat) in n = 32 \<or> (9 \<le> n \<and> n \<le> 13))"

definition count_event_records :: "segment_dir \<Rightarrow> nat" where
  "count_event_records sd =
     sum_list (map (\<lambda>sg. length (filter (\<lambda>line. \<not> list_all bytes_space line) (splitlines_keep (complete (sg_bytes sg)))))
       (list_event_segments sd))"

definition file_at :: "segment_dir \<Rightarrow> string \<Rightarrow> seg_file option" where
  "file_at sd =
     map_of (map (\<lambda>f. (''events/'' @ fst f, snd f)) (sd_archives sd) @
       map (\<lambda>f. (''events/archive/'' @ fst f, snd f)) (sd_future sd) @
       (case sd_active sd of None \<Rightarrow> [] | Some f \<Rightarrow> [(''events.jsonl'', f)]))"

definition hydrate_event_at ::
  "(string \<Rightarrow> zf_event option res) \<Rightarrow> string \<Rightarrow> int \<Rightarrow> int \<Rightarrow> segment_dir \<Rightarrow> zf_event option res" where
  "hydrate_event_at dec segment offset len sd =
     (case file_at sd segment of
        None \<Rightarrow> Inr None
      | Some f \<Rightarrow>
          (let line = strip (take (nat len) (drop (nat offset) (fst f)))
           in if line = [] then Inr None else dec line))"

section \<open>Splitting into lines\<close>

lemma splitlines_step:
  "splitlines_keep (newline # s) = [newline] # splitlines_keep s"
  "splitlines_keep (CHR 13 # newline # s) = [CHR 13, newline] # splitlines_keep s"
  "s = [] \<or> hd s \<noteq> newline \<Longrightarrow> splitlines_keep (CHR 13 # s) = [CHR 13] # splitlines_keep s"
  "c \<noteq> newline \<Longrightarrow> c \<noteq> CHR 13 \<Longrightarrow>
     splitlines_keep (c # s) = (case splitlines_keep s of [] \<Rightarrow> [[c]] | l # ls \<Rightarrow> (c # l) # ls)"
  by (auto split: list.splits)

declare splitlines_keep.simps(2) [simp del]

lemma splitlines_induct [case_names Nil LF CRLF CR Char]:
  assumes "P []" and "\<And>s. P s \<Longrightarrow> P (newline # s)" and "\<And>s. P s \<Longrightarrow> P (CHR 13 # newline # s)"
    and "\<And>s. s = [] \<or> hd s \<noteq> newline \<Longrightarrow> P s \<Longrightarrow> P (CHR 13 # s)"
    and "\<And>c s. c \<noteq> newline \<Longrightarrow> c \<noteq> CHR 13 \<Longrightarrow> P s \<Longrightarrow> P (c # s)"
  shows "P s"
proof (induction s rule: length_induct)
  case (1 s)
  then have IH: "P t" if "length t < length s" for t using that by blast
  consider "s = []" | t where "s = newline # t" | t where "s = CHR 13 # newline # t"
    | t where "s = CHR 13 # t" "t = [] \<or> hd t \<noteq> newline" | c t where "s = c # t" "c \<noteq> newline" "c \<noteq> CHR 13"
    by (metis list.exhaust list.sel(1))
  then show ?case using IH assms by cases auto
qed

lemma concat_splitlines [simp]: "concat (splitlines_keep s) = s"
  by (induction s rule: splitlines_induct) (auto simp: splitlines_step split: list.splits)

lemma splitlines_tail: "splitlines_keep s = l # ls \<Longrightarrow> splitlines_keep (concat ls) = ls"
proof (induction s arbitrary: l ls rule: splitlines_induct)
  case (Char c s)
  then show ?case by (cases "splitlines_keep s") (auto simp: splitlines_step)
qed (auto simp: splitlines_step)

lemma splitlines_suffix: "splitlines_keep s = ls1 @ ls2 \<Longrightarrow> splitlines_keep (concat ls2) = ls2"
proof (induction ls1 arbitrary: s)
  case Nil
  then show ?case using concat_splitlines [of s] by simp
next
  case (Cons l ls1)
  then have "splitlines_keep (concat (ls1 @ ls2)) = ls1 @ ls2" by (auto dest: splitlines_tail)
  then show ?case by (rule Cons.IH)
qed

lemma splitlines_split_on:
  "CHR 13 \<notin> set s \<Longrightarrow> splitlines_keep s =
     map (\<lambda>l. l @ [newline]) (butlast (split_on newline s)) @
     (if last (split_on newline s) = [] then [] else [last (split_on newline s)])"
proof (induction s rule: splitlines_induct)
  case (Char c s)
  then show ?case by (cases "split_on newline s") (auto simp: splitlines_step)
qed (auto simp: splitlines_step)

lemma complete_suffix: "complete (u @ v) = u @ v \<Longrightarrow> complete v = v"
  using complete_shape [of "u @ v"] complete_newline [of "butlast v"]
  by (cases "v = []") (auto simp: append_eq_append_conv2 append_eq_Cons_conv Cons_eq_append_conv)

lemma complete_split_at:
  assumes "complete data = u @ v"
  shows "complete (drop (length u) data) = v" and "length u \<le> length data"
proof -
  obtain t where t: "data = complete data @ t" "newline \<notin> set t" by (rule complete_split)
  then have d: "data = u @ v @ t" using assms by (metis append_assoc)
  have "complete v = v" using assms complete_idem [of data] complete_suffix [of u v] by simp
  with t(2) show "complete (drop (length u) data) = v" by (subst d) (simp add: complete_append)
  show "length u \<le> length data" by (subst d) simp
qed

section \<open>Numbering\<close>

definition later_than :: "int \<Rightarrow> event_record list \<Rightarrow> event_record list" where
  "later_than k recs = filter (\<lambda>r. k < int (er_seq r)) recs"

lemma segment_rows_numbered:
  "segment_rows dec fr rel 0 seq offset raws = Inr (recs, n) \<Longrightarrow>
     n = seq + length recs \<and> map er_seq recs = [Suc seq ..< Suc n]
     \<and> segment_rows dec fr rel k seq offset raws = Inr (later_than k recs, n)"
proof (induction raws arbitrary: seq offset recs n)
  case (Cons raw raws)
  show ?case
  proof (cases "strip raw = []")
    case True
    with Cons show ?thesis by simp
  next
    case False
    with Cons.prems obtain e recs' where e: "row_event dec fr (strip raw) = Inr e"
      and r: "segment_rows dec fr rel 0 (Suc seq) (offset + length raw) raws = Inr (recs', n)"
      and recs: "recs = \<lparr>er_seq = Suc seq, er_event = e, er_raw_segment = rel, er_raw_offset = offset,
                 er_raw_length = length raw, er_raw_line = strip raw\<rparr> # recs'"
      by (auto simp: Let_def split: sum.splits) (case_tac "segment_rows dec fr rel 0 (Suc seq) (offset + length raw) raws"; auto)
    from Cons.IH [OF r] False e recs show ?thesis
      by (auto simp: later_than_def upt_conv_Cons)
  qed
qed (simp add: later_than_def)

lemma rows_numbered:
  "rows_of_segments dec fr 0 seq sgs = Inr recs \<Longrightarrow>
     map er_seq recs = [Suc seq ..< Suc (seq + length recs)]
     \<and> rows_of_segments dec fr k seq sgs = Inr (later_than k recs)"
proof (induction sgs arbitrary: seq recs)
  case (Cons sg sgs)
  obtain r n where r: "segment_rows dec fr (sg_rel_path sg) 0 seq 0 (splitlines_keep (complete (sg_bytes sg))) = Inr (r, n)"
    using Cons.prems by (auto split: sum.splits)
  with Cons.prems obtain rest where rest: "rows_of_segments dec fr 0 n sgs = Inr rest" and recs: "recs = r @ rest"
    by (cases "rows_of_segments dec fr 0 n sgs") auto
  note num = segment_rows_numbered [OF r, of k]
  have "[Suc seq ..< Suc (seq + length recs)] = [Suc seq ..< Suc n] @ [Suc n ..< Suc (n + length rest)]"
    using num upt_add_eq_append [of "Suc seq" "Suc n" "length rest"] by (simp add: recs add.assoc del: upt_Suc)
  with num Cons.IH [OF rest] recs show ?case by (simp add: later_than_def)
qed (simp add: later_than_def)

lemma later_than_drop:
  assumes "map er_seq recs = [Suc seq ..< Suc (seq + length recs)]"
  shows "later_than (int seq + k) recs = drop (nat k) recs"
  using assms
proof (induction recs arbitrary: seq k)
  case (Cons r recs)
  then have r: "er_seq r = Suc seq" "map er_seq recs = [Suc (Suc seq) ..< Suc (Suc seq + length recs)]"
    by (auto simp: upt_conv_Cons simp del: upt_Suc)
  show ?case
  proof (cases "0 < k")
    case True
    then have "later_than (int seq + k) (r # recs) = later_than (int (Suc seq) + (k - 1)) recs"
      using r by (simp add: later_than_def)
    also have "\<dots> = drop (nat (k - 1)) recs" by (rule Cons.IH [OF r(2)])
    finally show ?thesis using True by (simp add: drop_Cons' nat_diff_distrib)
  next
    case False
    then have "\<forall>x \<in> set (r # recs). int seq + k < int (er_seq x)"
      using Cons.prems by (metis atLeastLessThan_iff dual_order.strict_trans1 image_eqI int_ops(1) less_Suc_eq_le list.set_map
          not_less of_nat_less_iff add_le_same_cancel1 set_upt less_eq_Suc_le)
    then have "later_than (int seq + k) (r # recs) = r # recs" by (simp add: later_than_def)
    with False show ?thesis by simp
  qed
qed (simp add: later_than_def)

section \<open>Where a row is\<close>

lemma segment_row_at:
  "segment_rows dec fr rel 0 seq offset raws = Inr (r1 @ r # r2, n) \<Longrightarrow>
   \<exists>raws1 raw raws2. raws = raws1 @ raw # raws2 \<and> er_raw_offset r = offset + length (concat raws1)
     \<and> er_raw_length r = length raw \<and> er_raw_line r = strip raw \<and> strip raw \<noteq> [] \<and> er_raw_segment r = rel
     \<and> row_event dec fr (strip raw) = Inr (er_event r)
     \<and> segment_rows dec fr rel 0 (er_seq r) (er_raw_offset r + er_raw_length r) raws2 = Inr (r2, n)"
proof (induction raws arbitrary: seq offset r1)
  case (Cons raw raws)
  show ?case
  proof (cases "strip raw = []")
    case True
    with Cons.prems have "segment_rows dec fr rel 0 seq (offset + length raw) raws = Inr (r1 @ r # r2, n)" by simp
    from Cons.IH [OF this] obtain raws1 raw' raws2 where "raws = raws1 @ raw' # raws2"
      "er_raw_offset r = offset + length raw + length (concat raws1)" "er_raw_length r = length raw'"
      "er_raw_line r = strip raw'" "strip raw' \<noteq> []" "er_raw_segment r = rel" "row_event dec fr (strip raw') = Inr (er_event r)"
      "segment_rows dec fr rel 0 (er_seq r) (er_raw_offset r + er_raw_length r) raws2 = Inr (r2, n)" by blast
    then show ?thesis by (intro exI [of _ "raw # raws1"] exI [of _ raw'] exI [of _ raws2]) simp
  next
    case False
    with Cons.prems obtain e recs' where e: "row_event dec fr (strip raw) = Inr e"
      and r: "segment_rows dec fr rel 0 (Suc seq) (offset + length raw) raws = Inr (recs', n)"
      and recs: "r1 @ r # r2 = \<lparr>er_seq = Suc seq, er_event = e, er_raw_segment = rel, er_raw_offset = offset,
                 er_raw_length = length raw, er_raw_line = strip raw\<rparr> # recs'"
      by (auto simp: Let_def split: sum.splits) (case_tac "segment_rows dec fr rel 0 (Suc seq) (offset + length raw) raws"; auto)
    show ?thesis
    proof (cases r1)
      case Nil
      with recs e r False show ?thesis by (intro exI [of _ "[]"] exI [of _ raw] exI [of _ raws]) auto
    next
      case (Cons x r1')
      with recs have "recs' = r1' @ r # r2" by simp
      with r have "segment_rows dec fr rel 0 (Suc seq) (offset + length raw) raws = Inr (r1' @ r # r2, n)" by simp
      from Cons.IH [OF this] obtain raws1 raw' raws2 where "raws = raws1 @ raw' # raws2"
        "er_raw_offset r = offset + length raw + length (concat raws1)" "er_raw_length r = length raw'"
        "er_raw_line r = strip raw'" "strip raw' \<noteq> []" "er_raw_segment r = rel" "row_event dec fr (strip raw') = Inr (er_event r)"
        "segment_rows dec fr rel 0 (er_seq r) (er_raw_offset r + er_raw_length r) raws2 = Inr (r2, n)" by blast
      then show ?thesis by (intro exI [of _ "raw # raws1"] exI [of _ raw'] exI [of _ raws2]) simp
    qed
  qed
qed simp

lemma row_in_segment:
  "rows_of_segments dec fr 0 seq sgs = Inr (r1 @ r # r2) \<Longrightarrow>
   \<exists>sgs1 sg sgs2 seq' p1 p2 n rest. sgs = sgs1 @ sg # sgs2
     \<and> segment_rows dec fr (sg_rel_path sg) 0 seq' 0 (splitlines_keep (complete (sg_bytes sg))) = Inr (p1 @ r # p2, n)
     \<and> rows_of_segments dec fr 0 n sgs2 = Inr rest \<and> r2 = p2 @ rest"
proof (induction sgs arbitrary: seq r1)
  case (Cons sg sgs)
  obtain p n where p: "segment_rows dec fr (sg_rel_path sg) 0 seq 0 (splitlines_keep (complete (sg_bytes sg))) = Inr (p, n)"
    using Cons.prems by (auto split: sum.splits)
  with Cons.prems obtain rest where rest: "rows_of_segments dec fr 0 n sgs = Inr rest" and all: "r1 @ r # r2 = p @ rest"
    by (cases "rows_of_segments dec fr 0 n sgs") auto
  from all consider us where "r1 = p @ us" "us @ r # r2 = rest" | us where "p = r1 @ r # us" "r2 = us @ rest"
    by (auto simp: append_eq_append_conv2 append_eq_Cons_conv Cons_eq_append_conv)
  then show ?case
  proof cases
    case 1
    with rest have "rows_of_segments dec fr 0 n sgs = Inr (us @ r # r2)" by simp
    from Cons.IH [OF this] show ?thesis by (metis append_Cons)
  next
    case 2
    with p rest show ?thesis by (metis append_Nil)
  qed
qed simp

section \<open>Well-formed directories\<close>

definition wf_dir :: "segment_dir \<Rightarrow> bool" where
  "wf_dir sd \<longleftrightarrow> distinct (map fst (sd_archives sd)) \<and> distinct (map fst (sd_future sd))
     \<and> (\<forall>f \<in> set (sd_archives sd) \<union> set (sd_future sd). CHR ''/'' \<notin> set (fst f))"

definition all_files :: "segment_dir \<Rightarrow> (string \<times> seg_file) list" where
  "all_files sd = map (\<lambda>f. (''events/'' @ fst f, snd f)) (sd_archives sd) @
       map (\<lambda>f. (''events/archive/'' @ fst f, snd f)) (sd_future sd) @
       (case sd_active sd of None \<Rightarrow> [] | Some f \<Rightarrow> [(''events.jsonl'', f)])"

lemma distinct_prefixed:
  fixes xs ys :: "(string \<times> 'a) list"
  assumes "distinct (map fst xs)" and "distinct (map fst ys)" and "\<forall>f \<in> set xs. CHR ''/'' \<notin> set (fst f)"
  shows "distinct (map (\<lambda>f. ''events/'' @ fst f) xs @ map (\<lambda>f. ''events/archive/'' @ fst f) ys
    @ (if b then [''events.jsonl''] else []))"
proof -
  let ?A = "map (\<lambda>f. ''events/'' @ fst f) xs" and ?B = "map (\<lambda>f. ''events/archive/'' @ fst f) ys"
  have d: "distinct (map (\<lambda>f. pre @ fst f) zs)" if "distinct (map fst zs)" for pre and zs :: "(string \<times> 'a) list"
    using that by (induction zs) auto
  have no: "''archive/'' @ a \<noteq> fst f" if "f \<in> set xs" for f a
  proof
    assume "''archive/'' @ a = fst f"
    moreover have "CHR ''/'' \<in> set (''archive/'' @ a)" by simp
    ultimately have "CHR ''/'' \<in> set (fst f)" by simp
    with assms(3) that show False by auto
  qed
  have "''events/'' @ fst f \<noteq> ''events/archive/'' @ a" if "f \<in> set xs" for f a
    using no [OF that, of a] by auto
  then have "set ?A \<inter> set ?B = {}" by auto
  moreover have "distinct ?A" "distinct ?B" using assms by (auto intro!: d simp del: append_Cons)
  moreover have "''events.jsonl'' \<notin> set ?A \<union> set ?B" by auto
  ultimately show ?thesis by (simp only: distinct_append) auto
qed

lemma distinct_all_files:
  assumes "wf_dir sd"
  shows "distinct (map fst (all_files sd))"
  using distinct_prefixed [of "sd_archives sd" "sd_future sd" "sd_active sd \<noteq> None"] assms
  by (auto simp: all_files_def wf_dir_def comp_def split: option.splits)

lemma segment_names: "map sg_rel_path (list_event_segments sd) = map (\<lambda>p. fst (snd p)) (segment_paths sd)"
proof -
  have "map sg_rel_path (list_event_segments sd) = map (\<lambda>p. fst (snd p)) (map snd (enumerate 0 (segment_paths sd)))"
    unfolding list_event_segments_def by (simp add: comp_def case_prod_beta del: map_snd_enumerate)
  then show ?thesis by (simp only: map_snd_enumerate)
qed

lemma segment_file:
  assumes "sg \<in> set (list_event_segments sd)"
  shows "\<exists>m. (sg_rel_path sg, (sg_bytes sg, m)) \<in> set (all_files sd)" and "sg_size sg = length (sg_bytes sg)"
    and "sg_rel_path sg \<noteq> []"
proof -
  from assms obtain i kind rel bytes m where p: "(i, kind, rel, bytes, m) \<in> set (enumerate 0 (segment_paths sd))"
    and sg: "sg_rel_path sg = rel" "sg_bytes sg = bytes" "sg_size sg = length bytes"
    by (auto simp: list_event_segments_def)
  from p have "(kind, rel, bytes, m) \<in> set (segment_paths sd)"
    using image_eqI [of "(kind, rel, bytes, m)" snd "(i, kind, rel, bytes, m)"]
    by (metis list.set_map map_snd_enumerate snd_conv)
  then have "(rel, bytes, m) \<in> set (all_files sd)" "rel \<noteq> []"
    by (auto simp: segment_paths_def archive_paths_def all_files_def split: option.splits)
  with sg show "\<exists>m. (sg_rel_path sg, (sg_bytes sg, m)) \<in> set (all_files sd)" "sg_size sg = length (sg_bytes sg)"
    "sg_rel_path sg \<noteq> []" by auto
qed

lemma distinct_segments:
  assumes "wf_dir sd"
  shows "distinct (map sg_rel_path (list_event_segments sd))"
proof -
  let ?keep = "\<lambda>d. filter (\<lambda>f. endswith (fst f) ''.jsonl'') (sort_dict d)"
  have "map fst (archive_paths sd) = map (\<lambda>f. ''events/'' @ fst f) (?keep (sd_archives sd))
      @ map (\<lambda>f. ''events/archive/'' @ fst f) (?keep (sd_future sd))"
    by (simp add: archive_paths_def)
  moreover have "distinct (map fst (?keep (sd_archives sd)))" "distinct (map fst (?keep (sd_future sd)))"
    using assms by (simp_all add: wf_dir_def distinct_map_filter)
  moreover have "\<forall>f \<in> set (?keep (sd_archives sd)). CHR ''/'' \<notin> set (fst f)"
    using assms by (auto simp: wf_dir_def)
  ultimately have all: "distinct (map fst (archive_paths sd) @ (if b then [''events.jsonl''] else []))" for b
    using distinct_prefixed [of "?keep (sd_archives sd)" "?keep (sd_future sd)" b] by simp
  from all [of False] have "distinct (map fst (archive_paths sd))" by simp
  then have "fromkeys (archive_paths sd) = archive_paths sd" by (auto simp: distinct_map)
  then have "mset (map sg_rel_path (list_event_segments sd)) =
      mset (map fst (archive_paths sd) @ (if sd_active sd \<noteq> None then [''events.jsonl''] else []))"
    by (simp add: segment_names segment_paths_def comp_def split: option.splits)
  from mset_eq_imp_distinct_iff [OF this] all show ?thesis by simp
qed

lemma segment_bytes_at:
  assumes "wf_dir sd" and "sg \<in> set (list_event_segments sd)"
  shows "\<exists>m. file_at sd (sg_rel_path sg) = Some (sg_bytes sg, m)"
proof -
  obtain m where "(sg_rel_path sg, (sg_bytes sg, m)) \<in> set (all_files sd)" using segment_file(1) [OF assms(2)] by blast
  then have "map_of (all_files sd) (sg_rel_path sg) = Some (sg_bytes sg, m)"
    using distinct_all_files [OF assms(1)] by (intro map_of_is_SomeI)
  then show ?thesis by (auto simp: file_at_def all_files_def)
qed

lemma dropWhile_names:
  "distinct (map f (xs @ x # ys)) \<Longrightarrow> dropWhile (\<lambda>y. f y \<noteq> f x) (xs @ x # ys) = x # ys"
  by (induction xs) auto

section \<open>Resuming and fetching\<close>

definition demo_dir :: segment_dir where
  "demo_dir = \<lparr>sd_archives = [(''2026-01-01.jsonl'', ([CHR ''a'', newline], 1))], sd_future = [],
     sd_active = Some (''bc'' @ [newline] @ ''d'', 2)\<rparr>"

definition demo_row :: "nat \<Rightarrow> string \<Rightarrow> string \<Rightarrow> event_record" where
  "demo_row n rel line = \<lparr>er_seq = n, er_event = demo_event, er_raw_segment = rel, er_raw_offset = 0,
     er_raw_length = Suc (length line), er_raw_line = line\<rparr>"

lemma demo_dir_wf: "wf_dir demo_dir"
  by (simp add: wf_dir_def demo_dir_def)

lemma demo_dir_rows:
  "iter_event_records (\<lambda>line. Inr (Some demo_event)) (''x'', ''y'') 0 demo_dir =
     Inr ([] @ demo_row 1 ''events/2026-01-01.jsonl'' ''a'' # [demo_row 2 ''events.jsonl'' ''bc''])"
  by (simp add: iter_event_records_def list_event_segments_def segment_paths_def archive_paths_def demo_dir_def
      sort_dict_def endswith_def fromkeys_def enumerate_eq_zip complete_def splitlines_step strip_def lstrip_def is_space_def
      row_event_def demo_row_def)


text \<open>Rows are numbered consecutively and \<open>start_seq\<close> skips exactly. A full pass yields rows 1, 2, 3, ...
  without a gap; a pass from \<open>start_seq\<close> yields the same rows without the first \<open>start_seq\<close> ones
  (all of them for a negative value), across archives and the active file.\<close>

lemma segments_start_seq:
  assumes "iter_event_records dec fr 0 sd = Inr recs"
  shows "map er_seq recs = [1 ..< Suc (length recs)] \<and> iter_event_records dec fr k sd = Inr (drop (nat k) recs)"
proof -
  note num = rows_numbered [OF assms [unfolded iter_event_records_def], of k]
  with later_than_drop [of recs 0 k] show ?thesis by (simp add: iter_event_records_def)
qed

text \<open>A cursor resumes exactly. After any row of a full pass, reading on from the cursor made of its
  segment, its end offset and its number yields exactly the rows after it, with the same numbers and
  byte ranges: nothing is skipped or repeated, also across the end of a segment.\<close>

lemma segments_cursor_resume:
  assumes "wf_dir sd" and "iter_event_records dec fr 0 sd = Inr (before @ r # rest)"
  shows "iter_event_records_from_cursor dec fr (er_raw_segment r) (int (er_raw_offset r + er_raw_length r))
      (int (er_seq r)) sd = Inr rest"
proof -
  from row_in_segment [OF assms(2) [unfolded iter_event_records_def]]
  obtain sgs1 sg sgs2 seq' p1 p2 n more where sgs: "list_event_segments sd = sgs1 @ sg # sgs2"
    and p: "segment_rows dec fr (sg_rel_path sg) 0 seq' 0 (splitlines_keep (complete (sg_bytes sg))) = Inr (p1 @ r # p2, n)"
    and more: "rows_of_segments dec fr 0 n sgs2 = Inr more" "rest = p2 @ more" by blast
  from segment_row_at [OF p] obtain l1 raw l2 where at: "splitlines_keep (complete (sg_bytes sg)) = l1 @ raw # l2"
    "er_raw_offset r = length (concat l1)" "er_raw_length r = length raw" "er_raw_segment r = sg_rel_path sg"
    "segment_rows dec fr (sg_rel_path sg) 0 (er_seq r) (er_raw_offset r + er_raw_length r) l2 = Inr (p2, n)" by auto
  let ?u = "concat (l1 @ [raw])"
  have "complete (sg_bytes sg) = ?u @ concat l2"
    using concat_splitlines [of "complete (sg_bytes sg)"] at(1) by simp
  note split = complete_split_at [OF this]
  have off: "er_raw_offset r + er_raw_length r = length ?u" using at(2,3) by simp
  have l2: "splitlines_keep (concat l2) = l2"
    using splitlines_suffix [of "complete (sg_bytes sg)" "l1 @ [raw]" l2] at(1) by simp
  have "sg \<in> set (list_event_segments sd)" by (simp add: sgs)
  note sf = segment_file [OF this]
  have dw: "dropWhile (\<lambda>y. sg_rel_path y \<noteq> er_raw_segment r) (list_event_segments sd) = sg # sgs2"
    using dropWhile_names [of sg_rel_path sgs1 sg sgs2] distinct_segments [OF assms(1)] unfolding at(4) sgs by blast
  have "segment_rows dec fr (sg_rel_path sg) 0 (er_seq r) (length ?u)
      (splitlines_keep (complete (drop (length ?u) (sg_bytes sg)))) = Inr (p2, n)"
    using at(5) unfolding off split(1) l2 .
  with dw more split(2) sf show ?thesis
    by (simp add: iter_event_records_from_cursor_def at(4) off Let_def nat_int_add)
qed

text \<open>A row can be fetched again from its byte range. For every row of a full pass, decoding the bytes at
  its recorded segment, offset and length gives the row's event, or nothing exactly for a row whose
  event is the marker for an undecodable line.\<close>

lemma segments_hydrate:
  assumes "wf_dir sd" and "iter_event_records dec fr 0 sd = Inr recs" and "r \<in> set recs"
  shows "case hydrate_event_at dec (er_raw_segment r) (int (er_raw_offset r)) (int (er_raw_length r)) sd of
      Inr (Some e) \<Rightarrow> er_event r = e
    | Inr None \<Rightarrow> er_event r = segments_malformed fr (er_raw_line r)
    | Inl _ \<Rightarrow> False"
proof -
  from assms(3) obtain r1 r2 where "recs = r1 @ r # r2" by (meson split_list)
  with assms(2) have "rows_of_segments dec fr 0 0 (list_event_segments sd) = Inr (r1 @ r # r2)"
    by (simp add: iter_event_records_def)
  from row_in_segment [OF this] obtain sgs1 sg sgs2 seq' p1 p2 n where sgs: "list_event_segments sd = sgs1 @ sg # sgs2"
    and p: "segment_rows dec fr (sg_rel_path sg) 0 seq' 0 (splitlines_keep (complete (sg_bytes sg))) = Inr (p1 @ r # p2, n)"
    by blast
  from segment_row_at [OF p] obtain l1 raw l2 where at: "splitlines_keep (complete (sg_bytes sg)) = l1 @ raw # l2"
    "er_raw_offset r = length (concat l1)" "er_raw_length r = length raw" "er_raw_segment r = sg_rel_path sg"
    "er_raw_line r = strip raw" "strip raw \<noteq> []" "row_event dec fr (strip raw) = Inr (er_event r)" by auto
  obtain t where t: "sg_bytes sg = complete (sg_bytes sg) @ t" by (rule complete_split)
  have "sg_bytes sg = concat l1 @ raw @ concat l2 @ t"
    using t concat_splitlines [of "complete (sg_bytes sg)"] at(1) by (metis append.assoc concat.simps(2) concat_append)
  then have "take (length raw) (drop (length (concat l1)) (sg_bytes sg)) = raw" by simp
  moreover obtain m where "file_at sd (sg_rel_path sg) = Some (sg_bytes sg, m)"
    using segment_bytes_at [OF assms(1), of sg] sgs by auto
  ultimately have "hydrate_event_at dec (er_raw_segment r) (int (er_raw_offset r)) (int (er_raw_length r)) sd = dec (strip raw)"
    using at by (simp add: hydrate_event_at_def)
  with at(5,7) show ?thesis by (cases "dec (strip raw)") (auto simp: row_event_def split: option.splits)
qed

section \<open>Agreement with the log\<close>

lemma dropWhile_all_append: "dropWhile P (xs @ ys) = (if list_all P xs then dropWhile P ys else dropWhile P xs @ ys)"
  by (induction xs) auto

lemma strip_snoc: "is_space c \<Longrightarrow> strip (s @ [c]) = strip s"
proof -
  assume "is_space c"
  then have "lstrip (s @ [c]) = (if list_all is_space s then [] else lstrip s @ [c])"
    by (simp add: lstrip_def dropWhile_all_append)
  moreover have "list_all is_space s \<Longrightarrow> lstrip s = []" by (simp add: lstrip_def list_all_iff)
  ultimately show ?thesis using \<open>is_space c\<close> by (auto simp: strip_def) (auto simp: lstrip_def)
qed

definition text_lines :: "string list \<Rightarrow> string list" where
  "text_lines raws = filter (\<lambda>l. l \<noteq> []) (map strip raws)"

lemma text_lines_same:
  assumes "CHR 13 \<notin> set s"
  shows "text_lines (splitlines_keep s) = text_lines (split_on newline s)"
proof -
  have nl: "strip (l @ [newline]) = strip l" for l by (simp add: strip_snoc is_space_def)
  have "split_on newline s = butlast (split_on newline s) @ [last (split_on newline s)]" by simp
  then have "text_lines (split_on newline s) =
      text_lines (butlast (split_on newline s)) @ text_lines [last (split_on newline s)]"
    by (metis filter_append map_append text_lines_def)
  then show ?thesis by (auto simp: splitlines_split_on [OF assms] text_lines_def comp_def nl)
qed

lemma parse_lines_text: "parse_lines dec raws = parse_lines dec (text_lines raws)"
  by (induction raws) (auto simp: text_lines_def Let_def split: sum.splits)

definition decoded :: "(string \<Rightarrow> zf_event option res) \<Rightarrow> event_record list \<Rightarrow> zf_event list" where
  "decoded dec recs = map er_event (filter (\<lambda>r. dec (er_raw_line r) \<noteq> Inr None) recs)"

lemma segment_rows_parse:
  "segment_rows dec fr rel 0 seq offset raws = Inr (recs, n) \<Longrightarrow> parse_lines dec raws = Inr (decoded dec recs)"
proof (induction raws arbitrary: seq offset recs)
  case (Cons raw raws)
  show ?case
  proof (cases "strip raw = []")
    case True
    with Cons show ?thesis by simp
  next
    case False
    with Cons.prems obtain e recs' where e: "row_event dec fr (strip raw) = Inr e"
      and r: "segment_rows dec fr rel 0 (Suc seq) (offset + length raw) raws = Inr (recs', n)"
      and recs: "recs = \<lparr>er_seq = Suc seq, er_event = e, er_raw_segment = rel, er_raw_offset = offset,
                 er_raw_length = length raw, er_raw_line = strip raw\<rparr> # recs'"
      by (auto simp: Let_def split: sum.splits) (case_tac "segment_rows dec fr rel 0 (Suc seq) (offset + length raw) raws"; auto)
    from Cons.IH [OF r] False e recs show ?thesis
      by (cases "dec (strip raw)") (auto simp: row_event_def decoded_def Let_def split: option.splits)
  qed
qed (simp add: decoded_def)

lemma rows_parse:
  "rows_of_segments dec fr 0 seq sgs = Inr recs \<Longrightarrow> \<forall>sg \<in> set sgs. CHR 13 \<notin> set (sg_bytes sg) \<Longrightarrow>
     parse_files dec (map sg_bytes sgs) = Inr (decoded dec recs)"
proof (induction sgs arbitrary: seq recs)
  case (Cons sg sgs)
  let ?s = "complete (sg_bytes sg)"
  obtain r n where r: "segment_rows dec fr (sg_rel_path sg) 0 seq 0 (splitlines_keep ?s) = Inr (r, n)"
    using Cons.prems by (auto split: sum.splits)
  with Cons.prems obtain rest where rest: "rows_of_segments dec fr 0 n sgs = Inr rest" and recs: "recs = r @ rest"
    by (cases "rows_of_segments dec fr 0 n sgs") auto
  have "set ?s \<subseteq> set (sg_bytes sg)" by (auto simp: complete_def dest: set_dropWhileD)
  then have "CHR 13 \<notin> set ?s" using Cons.prems(2) by auto
  then have "parse_data dec (sg_bytes sg) = Inr (decoded dec r)"
    using segment_rows_parse [OF r] text_lines_same [of ?s] by (metis parse_data_def parse_lines_text)
  with Cons.IH [OF rest] Cons.prems(2) recs show ?case by (simp add: parse_files.simps(2) decoded_def)
qed (simp add: decoded_def)

text \<open>The directory of a log as \<open>EventLog\<close> keeps it.\<close>

definition store_dir :: "event_store \<Rightarrow> segment_dir" where
  "store_dir s =
     \<lparr>sd_archives = map (\<lambda>f. (fst f, (snd f, 0))) (es_archives s), sd_future = [],
      sd_active = map_option (\<lambda>d. (d, 0)) (es_active s)\<rparr>"

lemma sort_dict_map:
  assumes "distinct (map fst xs)"
  shows "sort_dict (map (\<lambda>f. (fst f, g (snd f))) xs) = map (\<lambda>f. (fst f, g (snd f))) (sort_dict xs)"
  unfolding sort_dict_def
proof (rule sort_key_inj_key_eq)
  have "distinct (map fst (map (\<lambda>f. (fst f, g (snd f))) xs))" using assms by (simp add: comp_def)
  then show "inj_on fst (set (map (\<lambda>f. (fst f, g (snd f))) xs))" by (simp only: distinct_map)
qed (simp_all add: comp_def)

lemma path_parts_events: "CHR ''/'' \<notin> set n \<Longrightarrow> path_parts (''events/'' @ n) = [''events'', n]"
  using split_on_append [of "CHR ''/''" "''events''" n] by (simp add: path_parts_def split_on_free)

lemma store_segments:
  assumes "distinct (map fst (es_archives s))"
    and "\<forall>f \<in> set (es_archives s). endswith (fst f) ''.jsonl'' \<and> CHR ''/'' \<notin> set (fst f)"
  shows "map sg_bytes (list_event_segments (store_dir s)) =
    map snd (archive_files s) @ (case es_active s of None \<Rightarrow> [] | Some d \<Rightarrow> [d])"
proof -
  let ?F = "\<lambda>f :: string \<times> string. (''events/'' @ fst f, (snd f, 0 :: nat))"
  let ?L = "map ?F (archive_files s)"
  have bytes: "map sg_bytes (list_event_segments (store_dir s)) = map (\<lambda>p. fst (snd (snd p))) (segment_paths (store_dir s))"
  proof -
    have "map sg_bytes (list_event_segments (store_dir s)) =
        map (\<lambda>p. fst (snd (snd p))) (map snd (enumerate 0 (segment_paths (store_dir s))))"
      unfolding list_event_segments_def by (simp add: comp_def case_prod_beta del: map_snd_enumerate)
    then show ?thesis by (simp only: map_snd_enumerate)
  qed
  have "sort_dict (map (\<lambda>f. (fst f, (snd f, 0 :: nat))) (es_archives s)) = map (\<lambda>f. (fst f, (snd f, 0))) (archive_files s)"
    unfolding archive_files_def by (rule sort_dict_map [OF assms(1)])
  moreover have "sort_dict ([] :: (string \<times> seg_file) list) = []" by (simp add: sort_dict_def)
  moreover have "filter (\<lambda>f. endswith (fst f) ''.jsonl'') (archive_files s) = archive_files s"
    using assms(2) by (auto simp: archive_files_def intro!: filter_True)
  ultimately have "archive_paths (store_dir s) = ?L"
    by (simp add: archive_paths_def store_dir_def filter_map comp_def)
  moreover have "distinct (map fst (archive_files s))" using assms(1) by (simp add: archive_files_def)
  then have "distinct (map (\<lambda>f. ''events/'' @ fst f) (archive_files s))" by (induction "archive_files s") (auto simp: distinct_map inj_on_def)
  then have "distinct ?L" by (simp add: distinct_map inj_on_def)
  moreover have "sorted (map (\<lambda>f. path_parts (fst f)) ?L)"
  proof -
    have parts: "map (\<lambda>f. path_parts (fst f)) ?L = map (\<lambda>n. [''events'', n]) (map fst (archive_files s))"
      using assms(2) by (simp add: path_parts_events [simplified] archive_files_def)
    have "sorted (map fst (archive_files s))" by (simp add: archive_files_def sort_dict_def)
    then have "sorted (map (\<lambda>n. [''events'', n]) (map fst (archive_files s)))"
      by (auto simp: sorted_wrt_map order_le_less)
    then show ?thesis unfolding parts .
  qed
  ultimately show ?thesis
    by (simp add: bytes segment_paths_def sort_key_id_if_sorted comp_def) (simp add: store_dir_def split: option.splits)
qed

text \<open>The segment view and the log agree. For a log without carriage returns, the events of the rows of a
  full pass whose lines decode, in order, are exactly what \<open>read_all\<close> returns.\<close>

lemma segments_agree_with_log:
  assumes "distinct (map fst (es_archives s))"
    and "\<forall>f \<in> set (es_archives s). endswith (fst f) ''.jsonl'' \<and> CHR ''/'' \<notin> set (fst f) \<and> CHR 13 \<notin> set (snd f)"
    and "\<forall>d. es_active s = Some d \<longrightarrow> CHR 13 \<notin> set d"
    and "iter_event_records dec fr 0 (store_dir s) = Inr recs"
  shows "read_all dec s = Inr (decoded dec recs)"
proof -
  have segs: "map sg_bytes (list_event_segments (store_dir s)) =
      map snd (archive_files s) @ (case es_active s of None \<Rightarrow> [] | Some d \<Rightarrow> [d])"
    using assms(1,2) by (intro store_segments) auto
  have "CHR 13 \<notin> set (sg_bytes sg)" if "sg \<in> set (list_event_segments (store_dir s))" for sg
  proof -
    have "sg_bytes sg \<in> set (map sg_bytes (list_event_segments (store_dir s)))" using that by simp
    then show ?thesis unfolding segs using assms(2,3) by (auto simp: archive_files_def split: option.splits)
  qed
  with rows_parse [OF assms(4) [unfolded iter_event_records_def]]
  have "parse_files dec (map sg_bytes (list_event_segments (store_dir s))) = Inr (decoded dec recs)" by blast
  then show ?thesis unfolding segs by (cases "es_active s") (simp_all add: read_all_parts parse_files_append)
qed

end
