(* ===== verification/Event_Index.thy ===== *)
theory Event_Index
  imports Event_Log
begin

text \<open>
  \<open>core/events/index.py\<close>: the in-process index of the event log and its persisted projection.

  Ids, task ids and time stamps are strings, as the event dataclass declares; an event whose id or task id
  is something else counts as one without it. The projection file is the JSON value it holds, \<open>None\<close>
  when it is missing or no JSON. The process-wide cache of the parsed file returns what parsing the file
  would return and is left out.
\<close>

section \<open>The index\<close>

record event_index =
  ix_event_by_id :: "(string \<times> pydict) list"
  ix_latest_by_task :: "(string \<times> json) list"
  ix_event_ids_by_task :: "(string \<times> json list) list"
  ix_latest_dispatch_by_actor :: "(string \<times> json) list"
  ix_dirty :: bool
  ix_max_entries :: nat
  ix_max_task_events_per_task :: nat

definition new_index :: event_index where
  "new_index = \<lparr>ix_event_by_id = [], ix_latest_by_task = [], ix_event_ids_by_task = [],
     ix_latest_dispatch_by_actor = [], ix_dirty = False, ix_max_entries = 50000, ix_max_task_events_per_task = 5000\<rparr>"

definition dispatch_event_types :: "string list" where
  "dispatch_event_types = [''task.dispatched'', ''fanout.child.dispatched'', ''fanout.synth.dispatched'']"

definition ident :: "json \<Rightarrow> string" where
  "ident v = (case v of JStr s \<Rightarrow> s | _ \<Rightarrow> [])"

text \<open>The names under which the worker of a dispatch may report later.\<close>

definition dispatch_actor_keys :: "zf_event \<Rightarrow> string list" where
  "dispatch_actor_keys e =
     (let payload = as_dict (ev_payload e) in
      fromkeys (filter (\<lambda>a. a \<noteq> [])
        (map (\<lambda>v. strip (if truthy v then py_str v else []))
          [dict_get payload ''assignee'', dict_get payload ''role'', dict_get payload ''role_instance'', ev_actor e])))"

text \<open>\<open>del xs[:-n]\<close>, which removes nothing for \<open>n = 0\<close>.\<close>

definition keep_last :: "nat \<Rightarrow> 'a list \<Rightarrow> 'a list" where
  "keep_last n xs = (if n = 0 then xs else drop (length xs - n) xs)"

definition get_or :: "'b \<Rightarrow> ('a \<times> 'b) list \<Rightarrow> 'a \<Rightarrow> 'b" where
  "get_or dflt d k = (case map_of d k of None \<Rightarrow> dflt | Some v \<Rightarrow> v)"

definition push_task_event :: "nat \<Rightarrow> json list \<Rightarrow> json \<Rightarrow> json list" where
  "push_task_event cap ids i =
     (let pushed = (if ids = [] \<or> last ids \<noteq> i then ids @ [i] else ids)
      in if cap < length pushed then keep_last cap pushed else pushed)"

definition observe :: "zf_event \<Rightarrow> event_index \<Rightarrow> event_index" where
  "observe e ix =
     (let i = ident (ev_id e); t = ident (ev_task_id e) in
      if i = [] then ix
      else
        (let stored = AList.update i (event_dict e) (ix_event_by_id ix);
             ix1 = (if t = [] then ix
                    else ix\<lparr>ix_latest_by_task := AList.update t (JStr i) (ix_latest_by_task ix),
                            ix_event_ids_by_task := AList.update t
                              (push_task_event (ix_max_task_events_per_task ix) (get_or [] (ix_event_ids_by_task ix) t) (JStr i))
                              (ix_event_ids_by_task ix)\<rparr>);
             ix2 = (if ev_type e \<in> JStr ` set dispatch_event_types
                    then ix1\<lparr>ix_latest_dispatch_by_actor :=
                           fold (\<lambda>a d. AList.update a (JStr i) d) (dispatch_actor_keys e) (ix_latest_dispatch_by_actor ix1)\<rparr>
                    else ix1)
         in ix2\<lparr>ix_event_by_id := drop (length stored - ix_max_entries ix) stored, ix_dirty := True\<rparr>))"

definition lookup :: "event_index \<Rightarrow> string \<Rightarrow> pydict option" where
  "lookup ix event_id = map_of (ix_event_by_id ix) event_id"

text \<open>\<open>fr\<close> would fill fields a stored event lacks.\<close>

definition lookup_event :: "fresh \<Rightarrow> event_index \<Rightarrow> string \<Rightarrow> zf_event option" where
  "lookup_event fr ix event_id =
     (case lookup ix event_id of
        None \<Rightarrow> None
      | Some data \<Rightarrow> (case event_from_dict fr (JObj data) of Inl _ \<Rightarrow> None | Inr e \<Rightarrow> Some e))"

definition lookup_ref :: "fresh \<Rightarrow> event_index \<Rightarrow> json \<Rightarrow> zf_event option" where
  "lookup_ref fr ix i = (case i of JStr s \<Rightarrow> lookup_event fr ix s | _ \<Rightarrow> None)"

definition latest_for_task :: "event_index \<Rightarrow> string \<Rightarrow> json option" where
  "latest_for_task ix task_id = map_of (ix_latest_by_task ix) task_id"

definition latest_event_for_task :: "fresh \<Rightarrow> event_index \<Rightarrow> string \<Rightarrow> zf_event option" where
  "latest_event_for_task fr ix task_id =
     (case latest_for_task ix task_id of None \<Rightarrow> None | Some i \<Rightarrow> lookup_ref fr ix i)"

fun collect :: "('a \<Rightarrow> 'b option) \<Rightarrow> 'a list \<Rightarrow> 'b list option" where
  "collect f [] = Some []"
| "collect f (x # xs) =
     (case f x of None \<Rightarrow> None | Some y \<Rightarrow> map_option (\<lambda>ys. y # ys) (collect f xs))"

definition index_events_for_task :: "fresh \<Rightarrow> event_index \<Rightarrow> string \<Rightarrow> int option \<Rightarrow> zf_event list option" where
  "index_events_for_task fr ix task_id limit =
     (case map_of (ix_event_ids_by_task ix) task_id of
        None \<Rightarrow> None
      | Some ids \<Rightarrow> collect (lookup_ref fr ix) (case limit of None \<Rightarrow> ids | Some n \<Rightarrow> last_slice n ids))"

definition latest_dispatch_for_actor :: "event_index \<Rightarrow> string \<Rightarrow> json option" where
  "latest_dispatch_for_actor ix actor = map_of (ix_latest_dispatch_by_actor ix) actor"

definition latest_dispatch_event_for_actor :: "fresh \<Rightarrow> event_index \<Rightarrow> string \<Rightarrow> zf_event option" where
  "latest_dispatch_event_for_actor fr ix actor =
     (case latest_dispatch_for_actor ix actor of None \<Rightarrow> None | Some i \<Rightarrow> lookup_ref fr ix i)"

section \<open>The projection file\<close>

definition ids_of :: "json \<Rightarrow> json list" where
  "ids_of v = filter is_str (as_list v)"

text \<open>The id lists of a persisted map; values that are no lists are dropped.\<close>

definition task_ids_map :: "pydict \<Rightarrow> (string \<times> json list) list" where
  "task_ids_map d = map (\<lambda>kv. (fst kv, ids_of (snd kv))) (filter (\<lambda>kv. is_list (snd kv)) d)"

definition load_index :: "json option \<Rightarrow> event_index \<Rightarrow> event_index" where
  "load_index file ix =
     (case file of
        Some (JObj data) \<Rightarrow>
          (let latest_task = py_or (dict_get data ''latest_event_by_task_id'') (JObj []);
               task_events = py_or (dict_get data ''event_ids_by_task_id'') (JObj []);
               latest_dispatch = py_or (dict_get data ''latest_dispatch_by_actor'') (JObj []);
               strs = map (\<lambda>kv. (fst kv, JStr (py_str (snd kv))));
               ix1 = (if is_dict latest_task then ix\<lparr>ix_latest_by_task := strs (as_dict latest_task)\<rparr> else ix);
               ix2 = (if is_dict task_events then ix1\<lparr>ix_event_ids_by_task := task_ids_map (as_dict task_events)\<rparr> else ix1)
           in if is_dict latest_dispatch then ix2\<lparr>ix_latest_dispatch_by_actor := strs (as_dict latest_dispatch)\<rparr> else ix2)
      | _ \<Rightarrow> ix)"

definition ts_of :: "(string \<times> pydict) list \<Rightarrow> json \<Rightarrow> string" where
  "ts_of events i = ident (dict_get (get_or [] events (ident i)) ''ts'')"

definition pick_latest :: "(string \<times> pydict) list \<Rightarrow> pydict \<Rightarrow> pydict \<Rightarrow> pydict" where
  "pick_latest events disk_map mem_map =
     fold (\<lambda>kv out.
       case map_of out (fst kv) of
         None \<Rightarrow> dict_set out (fst kv) (snd kv)
       | Some incumbent \<Rightarrow>
           if ts_of events incumbent < ts_of events (snd kv) then dict_set out (fst kv) (snd kv) else out)
       mem_map disk_map"

definition merge_ids :: "nat \<Rightarrow> (string \<times> pydict) list \<Rightarrow> json list \<Rightarrow> json list \<Rightarrow> json list" where
  "merge_ids cap events base values =
     (let extended = base @ filter (\<lambda>i. i \<notin> set base) (fromkeys (filter (\<lambda>i. ident i \<in> fst ` set events) values));
          ordered = sort_key (ts_of events) extended
      in if cap < length ordered then keep_last cap ordered else ordered)"

definition merge_task_events ::
  "nat \<Rightarrow> (string \<times> pydict) list \<Rightarrow> pydict \<Rightarrow> (string \<times> json list) list \<Rightarrow> (string \<times> json list) list" where
  "merge_task_events cap events disk_map mem_map =
     fold (\<lambda>(t, values) out. AList.update t (merge_ids cap events (get_or [] out t) values) out) mem_map (task_ids_map disk_map)"

text \<open>The map a file contributes: absent, empty or null counts as empty; anything else that is no object
  raises when it is merged.\<close>

definition disk_map :: "json option \<Rightarrow> string \<Rightarrow> pydict res" where
  "disk_map file k =
     (case file of
        Some (JObj data) \<Rightarrow>
          (case py_or (dict_get data k) (JObj []) of
             JObj d \<Rightarrow> Inr d
           | _ \<Rightarrow> Inl (TypeError ''id map is no object''))
      | _ \<Rightarrow> Inr [])"

definition capped_events :: "event_index \<Rightarrow> (string \<times> pydict) list" where
  "capped_events ix =
     (let evs = ix_event_by_id ix; n = ix_max_entries ix in
      if n < length evs then keep_last n (sort_key (\<lambda>kv. ident (dict_get (snd kv) ''ts'')) evs) else evs)"

definition index_payload :: "event_index \<Rightarrow> json" where
  "index_payload ix =
     JObj [(''event_by_id'', JObj (map (\<lambda>kv. (fst kv, JObj (snd kv))) (ix_event_by_id ix))),
           (''latest_event_by_task_id'', JObj (ix_latest_by_task ix)),
           (''event_ids_by_task_id'', JObj (map (\<lambda>kv. (fst kv, JList (snd kv))) (ix_event_ids_by_task ix))),
           (''latest_dispatch_by_actor'', JObj (ix_latest_dispatch_by_actor ix))]"

definition merged_index :: "pydict \<Rightarrow> pydict \<Rightarrow> pydict \<Rightarrow> event_index \<Rightarrow> event_index" where
  "merged_index disk_task disk_ids disk_dispatch ix =
     (let events = capped_events ix
      in ix\<lparr>ix_event_by_id := events,
            ix_latest_by_task := pick_latest events disk_task (ix_latest_by_task ix),
            ix_event_ids_by_task := merge_task_events (ix_max_task_events_per_task ix) events disk_ids (ix_event_ids_by_task ix),
            ix_latest_dispatch_by_actor := pick_latest events disk_dispatch (ix_latest_dispatch_by_actor ix),
            ix_dirty := False\<rparr>)"

text \<open>Read, merge, write. A clean index writes nothing.\<close>

definition flush :: "json option \<Rightarrow> event_index \<Rightarrow> (event_index \<times> json option) res" where
  "flush file ix =
     (if \<not> ix_dirty ix then Inr (ix, file)
      else
        (case (disk_map file ''latest_event_by_task_id'', disk_map file ''event_ids_by_task_id'',
               disk_map file ''latest_dispatch_by_actor'') of
           (Inr a, Inr b, Inr c) \<Rightarrow>
             (let ix' = merged_index a b c ix in Inr (ix', Some (index_payload ix')))
         | _ \<Rightarrow> Inl (TypeError ''id map is no object'')))"

definition cleared :: "event_index \<Rightarrow> event_index" where
  "cleared ix = ix\<lparr>ix_event_by_id := [], ix_latest_by_task := [], ix_event_ids_by_task := [], ix_latest_dispatch_by_actor := []\<rparr>"

definition observe_all :: "zf_event list \<Rightarrow> event_index \<Rightarrow> event_index" where
  "observe_all es ix = fold observe es ix"

definition rebuild_from_events :: "json option \<Rightarrow> zf_event list \<Rightarrow> event_index \<Rightarrow> ((event_index \<times> json option) \<times> nat) res" where
  "rebuild_from_events file es ix =
     map_sum id (\<lambda>r. (r, length es)) (flush file (observe_all es (cleared ix)))"

text \<open>Appending to a log that keeps an index: the event is written, observed, and every fifth time the
  projection is flushed. An exception of the index is swallowed.\<close>

record indexed_log =
  il_store :: event_store
  il_index :: event_index
  il_file :: "json option"

definition index_append :: "zf_event \<Rightarrow> json option \<Rightarrow> event_index \<Rightarrow> event_index \<times> json option" where
  "index_append e file ix =
     (let ix1 = observe e ix; count = length (ix_event_by_id ix1) in
      if count = 1 \<or> count mod 5 = 0 then
        (case flush file ix1 of Inl _ \<Rightarrow> (ix1, file) | Inr r \<Rightarrow> r)
      else (ix1, file))"

definition append_indexed :: "byte list option \<Rightarrow> string \<Rightarrow> string \<Rightarrow> zf_event \<Rightarrow> indexed_log \<Rightarrow> indexed_log" where
  "append_indexed signer today raw_limit e l =
     (let (ix, file) = index_append e (il_file l) (il_index l)
      in \<lparr>il_store = append_event signer today raw_limit e (il_store l), il_index = ix, il_file = file\<rparr>)"

section \<open>Lookups never return a wrong event\<close>

definition eid :: "zf_event \<Rightarrow> string" where
  "eid e = ident (ev_id e)"

definition tid :: "zf_event \<Rightarrow> string" where
  "tid e = ident (ev_task_id e)"

lemma observe_by_id:
  "ix_event_by_id (observe e ix) =
     (if eid e = [] then ix_event_by_id ix
      else let stored = AList.update (eid e) (event_dict e) (ix_event_by_id ix)
           in drop (length stored - ix_max_entries ix) stored)"
  by (simp add: observe_def eid_def Let_def)

lemma observe_caps [simp]:
  "ix_max_entries (observe e ix) = ix_max_entries ix"
  "ix_max_task_events_per_task (observe e ix) = ix_max_task_events_per_task ix"
  by (simp_all add: observe_def Let_def)

lemma observe_all_simps [simp]:
  "observe_all [] ix = ix" "observe_all (es @ [e]) ix = observe e (observe_all es ix)"
  by (simp_all add: observe_all_def)

lemma observe_all_caps [simp]:
  "ix_max_entries (observe_all es ix) = ix_max_entries ix"
  "ix_max_task_events_per_task (observe_all es ix) = ix_max_task_events_per_task ix"
  by (induction es rule: rev_induct) simp_all

lemma map_of_drop_distinct:
  "distinct (map fst xs) \<Longrightarrow> map_of (drop n xs) k = Some v \<Longrightarrow> map_of xs k = Some v"
  by (metis distinct_drop drop_map in_set_dropD map_of_SomeD map_of_is_SomeI)

lemma by_id_distinct: "distinct (map fst (ix_event_by_id (observe_all es (cleared ix))))"
proof (induction es rule: rev_induct)
  case (snoc e es)
  then show ?case
    by (simp add: observe_by_id Let_def drop_map [symmetric] distinct_update del: drop_map) 
qed (simp add: cleared_def)

definition last_with :: "('a \<Rightarrow> bool) \<Rightarrow> 'a list \<Rightarrow> 'a option" where
  "last_with P xs = (let hits = filter P xs in if hits = [] then None else Some (last hits))"

lemma last_with_simps [simp]:
  "last_with P [] = None" "last_with P (xs @ [x]) = (if P x then Some x else last_with P xs)"
  by (simp_all add: last_with_def)

lemma last_with_Some: "last_with P xs = Some x \<Longrightarrow> x \<in> set xs \<and> P x"
  by (auto simp: last_with_def Let_def split: if_splits dest: last_in_set)

lemma by_id_sound:
  "map_of (ix_event_by_id (observe_all es (cleared ix))) i = Some d \<Longrightarrow>
     \<exists>e. last_with (\<lambda>e. eid e = i) es = Some e \<and> eid e \<noteq> [] \<and> d = event_dict e"
proof (induction es rule: rev_induct)
  case Nil
  then show ?case by (simp add: cleared_def)
next
  case (snoc e es)
  show ?case
  proof (cases "eid e = []")
    case True
    then have "i \<noteq> []" using snoc by (auto simp: observe_by_id dest!: last_with_Some)
    with snoc True show ?thesis by (auto simp: observe_by_id)
  next
    case False
    let ?st = "AList.update (eid e) (event_dict e) (ix_event_by_id (observe_all es (cleared ix)))"
    have "map_of (drop (length ?st - ix_max_entries (cleared ix)) ?st) i = Some d"
      using snoc.prems False by (simp add: observe_by_id Let_def)
    with distinct_update [OF by_id_distinct] have "map_of ?st i = Some d" by (rule map_of_drop_distinct)
    with snoc.IH False show ?thesis by (auto simp: update_conv' split: if_splits)
  qed
qed

text \<open>The index never answers with a wrong event. Whatever events were observed, also beyond its
  capacity, an id lookup that answers gives the last observed event with that id.\<close>

lemma lookup_sound:
  assumes "lookup_event fr (observe_all es (cleared ix)) i = Some e"
  shows "last_with (\<lambda>e. eid e = i) es = Some e"
proof -
  from assms obtain d where d: "map_of (ix_event_by_id (observe_all es (cleared ix))) i = Some d"
    and e: "event_from_dict fr (JObj d) = Inr e"
    by (auto simp: lookup_event_def lookup_def split: option.splits sum.splits)
  from by_id_sound [OF d] e show ?thesis by (auto simp: from_dict_event)
qed

section \<open>Answers of a complete index\<close>

text \<open>The index has room for the events: their ids are different non-empty strings, and neither limit is
  reached.\<close>

definition fits :: "event_index \<Rightarrow> zf_event list \<Rightarrow> bool" where
  "fits ix es \<longleftrightarrow> distinct (map eid es) \<and> [] \<notin> eid ` set es \<and> length es \<le> ix_max_entries ix
     \<and> (\<forall>t. length (filter (\<lambda>e. tid e = t) es) \<le> ix_max_task_events_per_task ix)"

lemma fits_snoc: "fits ix (es @ [e]) \<Longrightarrow> fits ix es"
  unfolding fits_def by (auto simp: Suc_le_eq) (meson add_leE)

lemma update_fresh_key: "k \<notin> fst ` set d \<Longrightarrow> AList.update k v d = d @ [(k, v)]"
  by (rule update_fresh)

lemma complete_by_id:
  "fits ix es \<Longrightarrow> ix_event_by_id (observe_all es (cleared ix)) = map (\<lambda>e. (eid e, event_dict e)) es"
proof (induction es rule: rev_induct)
  case (snoc e es)
  then have IH: "ix_event_by_id (observe_all es (cleared ix)) = map (\<lambda>e. (eid e, event_dict e)) es"
    by (blast dest: fits_snoc)
  have "eid e \<noteq> []" "eid e \<notin> fst ` set (map (\<lambda>e. (eid e, event_dict e)) es)" "Suc (length es) \<le> ix_max_entries ix"
    using snoc.prems by (auto simp: fits_def image_image)
  with IH show ?case by (simp add: observe_by_id update_fresh_key cleared_def)
qed (simp add: cleared_def)

lemma complete_lookup:
  assumes "fits ix es" and "e \<in> set es"
  shows "lookup_ref fr (observe_all es (cleared ix)) (JStr (eid e)) = Some e"
proof -
  have "distinct (map fst (map (\<lambda>e. (eid e, event_dict e)) es))" using assms(1) by (simp add: fits_def comp_def)
  then have "map_of (map (\<lambda>e. (eid e, event_dict e)) es) (eid e) = Some (event_dict e)"
    using assms(2) by (intro map_of_is_SomeI) auto
  then show ?thesis
    by (simp add: lookup_ref_def lookup_event_def lookup_def complete_by_id [OF assms(1)] from_dict_event)
qed

lemma observe_task_ids:
  "ix_event_ids_by_task (observe e ix) =
     (if eid e = [] \<or> tid e = [] then ix_event_ids_by_task ix
      else AList.update (tid e) (push_task_event (ix_max_task_events_per_task ix)
             (get_or [] (ix_event_ids_by_task ix) (tid e)) (JStr (eid e))) (ix_event_ids_by_task ix))"
  by (simp add: observe_def eid_def tid_def Let_def)

lemma observe_latest:
  "ix_latest_by_task (observe e ix) =
     (if eid e = [] \<or> tid e = [] then ix_latest_by_task ix
      else AList.update (tid e) (JStr (eid e)) (ix_latest_by_task ix))"
  by (simp add: observe_def eid_def tid_def Let_def)

definition is_dispatch :: "zf_event \<Rightarrow> bool" where
  "is_dispatch e \<longleftrightarrow> ev_type e \<in> JStr ` set dispatch_event_types"

lemma observe_dispatch:
  "ix_latest_dispatch_by_actor (observe e ix) =
     (if eid e \<noteq> [] \<and> is_dispatch e
      then fold (\<lambda>a d. AList.update a (JStr (eid e)) d) (dispatch_actor_keys e) (ix_latest_dispatch_by_actor ix)
      else ix_latest_dispatch_by_actor ix)"
  by (simp add: observe_def eid_def is_dispatch_def Let_def)

lemma map_of_fold_update:
  "map_of (fold (\<lambda>a d. AList.update a v d) ks d) k = (if k \<in> set ks then Some v else map_of d k)"
  by (induction ks arbitrary: d) (auto simp: update_conv')

lemma complete_task_ids:
  "fits ix es \<Longrightarrow> t \<noteq> [] \<Longrightarrow> map_of (ix_event_ids_by_task (observe_all es (cleared ix))) t =
     (let hits = filter (\<lambda>e. tid e = t) es in if hits = [] then None else Some (map (\<lambda>e. JStr (eid e)) hits))"
proof (induction es rule: rev_induct)
  case (snoc e es)
  note IH = snoc.IH [OF fits_snoc [OF snoc.prems(1)] snoc.prems(2)]
  let ?hits = "filter (\<lambda>e. tid e = t) es"
  have e: "eid e \<noteq> []" "eid e \<notin> eid ` set es" using snoc.prems(1) by (auto simp: fits_def)
  show ?case
  proof (cases "tid e = t")
    case False
    with IH e show ?thesis by (simp add: observe_task_ids update_conv')
  next
    case True
    have "length (filter (\<lambda>e. tid e = t) (es @ [e])) \<le> ix_max_task_events_per_task ix"
      using snoc.prems(1) unfolding fits_def by blast
    then have "Suc (length ?hits) \<le> ix_max_task_events_per_task ix" using True by simp
    moreover have "?hits \<noteq> [] \<Longrightarrow> last (map (\<lambda>e. JStr (eid e)) ?hits) \<noteq> JStr (eid e)"
      using e(2) last_in_set [of ?hits] by (auto simp: last_map) (metis image_eqI)
    ultimately have "push_task_event (ix_max_task_events_per_task ix) (map (\<lambda>e. JStr (eid e)) ?hits) (JStr (eid e))
        = map (\<lambda>e. JStr (eid e)) (?hits @ [e])"
      by (auto simp: push_task_event_def Let_def)
    with IH e True snoc.prems(2) show ?thesis
      by (auto simp: observe_task_ids update_conv' get_or_def Let_def cleared_def)
  qed
qed (simp add: cleared_def)

lemma complete_latest:
  "fits ix es \<Longrightarrow> t \<noteq> [] \<Longrightarrow> map_of (ix_latest_by_task (observe_all es (cleared ix))) t =
     map_option (\<lambda>e. JStr (eid e)) (last_with (\<lambda>e. tid e = t) es)"
proof (induction es rule: rev_induct)
  case (snoc e es)
  note IH = snoc.IH [OF fits_snoc [OF snoc.prems(1)] snoc.prems(2)]
  have "eid e \<noteq> []" using snoc.prems(1) by (auto simp: fits_def)
  with IH snoc.prems(2) show ?case by (simp add: observe_latest update_conv')
qed (simp add: cleared_def)

lemma complete_dispatch:
  "fits ix es \<Longrightarrow> map_of (ix_latest_dispatch_by_actor (observe_all es (cleared ix))) a =
     map_option (\<lambda>e. JStr (eid e)) (last_with (\<lambda>e. is_dispatch e \<and> a \<in> set (dispatch_actor_keys e)) es)"
proof (induction es rule: rev_induct)
  case (snoc e es)
  note IH = snoc.IH [OF fits_snoc [OF snoc.prems]]
  have "eid e \<noteq> []" using snoc.prems by (auto simp: fits_def)
  with IH show ?case by (simp add: observe_dispatch map_of_fold_update)
qed (simp add: cleared_def)

lemma collect_map: "\<forall>x \<in> set xs. f (g x) = Some x \<Longrightarrow> collect f (map g xs) = Some xs"
  by (induction xs) auto

lemma last_slice_map: "last_slice n (map g xs) = map g (last_slice n xs)"
  by (simp add: last_slice_def drop_map)

lemma set_last_slice: "set (last_slice n xs) \<subseteq> set xs"
  by (auto simp: last_slice_def dest: in_set_dropD)

definition limited :: "int option \<Rightarrow> 'a list \<Rightarrow> 'a list" where
  "limited limit xs = (case limit of None \<Rightarrow> xs | Some n \<Rightarrow> last_slice n xs)"

lemma limited_simps: "limited limit (map g xs) = map g (limited limit xs)" "set (limited limit xs) \<subseteq> set xs"
  by (auto simp: limited_def last_slice_map split: option.splits dest: subsetD [OF set_last_slice])

lemma complete_events_for_task:
  assumes "fits ix es" and "t \<noteq> []"
  shows "index_events_for_task fr (observe_all es (cleared ix)) t limit =
    (let hits = filter (\<lambda>e. tid e = t) es in if hits = [] then None else Some (limited limit hits))"
proof -
  let ?hits = "filter (\<lambda>e. tid e = t) es"
  have "\<forall>e \<in> set (limited limit ?hits). lookup_ref fr (observe_all es (cleared ix)) (JStr (eid e)) = Some e"
    using limited_simps(2) [of limit ?hits] complete_lookup [OF assms(1), of _ fr] by auto
  then have "collect (lookup_ref fr (observe_all es (cleared ix))) (map (\<lambda>e. JStr (eid e)) (limited limit ?hits))
      = Some (limited limit ?hits)" by (rule collect_map)
  then show ?thesis
    by (simp add: index_events_for_task_def complete_task_ids [OF assms] Let_def limited_def [symmetric] limited_simps(1))
qed

lemma answers_exact:
  assumes "fits ix es"
  shows "t \<noteq> [] \<Longrightarrow> latest_event_for_task fr (observe_all es (cleared ix)) t = last_with (\<lambda>e. tid e = t) es"
    and "latest_dispatch_event_for_actor fr (observe_all es (cleared ix)) a
      = last_with (\<lambda>e. is_dispatch e \<and> a \<in> set (dispatch_actor_keys e)) es"
proof -
  show "latest_event_for_task fr (observe_all es (cleared ix)) t = last_with (\<lambda>e. tid e = t) es" if "t \<noteq> []"
    using complete_latest [OF assms that] complete_lookup [OF assms, of _ fr]
    by (cases "last_with (\<lambda>e. tid e = t) es")
      (auto simp: latest_event_for_task_def latest_for_task_def dest!: last_with_Some)
  show "latest_dispatch_event_for_actor fr (observe_all es (cleared ix)) a
      = last_with (\<lambda>e. is_dispatch e \<and> a \<in> set (dispatch_actor_keys e)) es"
    using complete_dispatch [OF assms, of a] complete_lookup [OF assms, of _ fr]
    by (cases "last_with (\<lambda>e. is_dispatch e \<and> a \<in> set (dispatch_actor_keys e)) es")
      (auto simp: latest_dispatch_event_for_actor_def latest_dispatch_for_actor_def dest!: last_with_Some)
qed

text \<open>A complete index answers exactly as a scan of the log. When the index observed all events, within
  its limits, then for every task the latest event, the event list (with any limit), and for every
  actor the latest dispatch are those a scan of the observed events gives.\<close>

lemma index_answers_exact:
  assumes "fits ix es" and "t \<noteq> []" and "ix' = observe_all es (cleared ix)"
  shows "latest_event_for_task fr ix' t = last_with (\<lambda>e. tid e = t) es
    \<and> latest_dispatch_event_for_actor fr ix' a = last_with (\<lambda>e. is_dispatch e \<and> a \<in> set (dispatch_actor_keys e)) es
    \<and> index_events_for_task fr ix' t limit =
        (if t \<in> tid ` set es then Some (limited limit (filter (\<lambda>e. tid e = t) es)) else None)"
  unfolding assms(3) complete_events_for_task [OF assms(1,2)] answers_exact [OF assms(1)] answers_exact(1) [OF assms(1,2)]
  by (auto simp: Let_def filter_empty_conv)

section \<open>Where the index is incomplete\<close>

lemma fresh_index_one:
  assumes "eid e \<noteq> []" and "tid e = t" and "t \<noteq> []"
  shows "index_events_for_task fr (observe e new_index) t None = Some [e]"
proof -
  have "fits new_index [e]" using assms by (auto simp: fits_def new_index_def)
  then show ?thesis using complete_events_for_task [of new_index "[e]" t fr None] assms
    by (simp add: observe_all_def cleared_def new_index_def limited_def)
qed

text \<open>A fresh index hides the history of a task. A process whose index has not seen the earlier events of
  a task (a first start without a projection file, or events written by another process) appends one
  event of the task: from then on \<open>events_for_task\<close> answers with that event alone, although the log
  holds the earlier ones too and a scan would return them.\<close>

lemma index_hides_history:
  assumes "read_all dec s = Inr (es @ [e])" and "e0 \<in> set es" and "tid e0 = t" and "tid e = t" and "t \<noteq> []" and "eid e \<noteq> []"
  shows "events_for_task dec (index_events_for_task fr (observe e new_index) t None) t None s = Inr [e]
    \<and> (\<exists>evs. events_for_task dec None t None s = Inr evs \<and> e0 \<in> set evs \<and> 1 < length evs)"
proof -
  have task: "ev_task_id x = JStr t \<longleftrightarrow> tid x = t" for x
    using assms(5) by (cases "ev_task_id x") (auto simp: tid_def ident_def)
  have "events_for_task dec None t None s = Inr (filter (\<lambda>x. tid x = t) es @ [e])"
    using assms(1,4) by (simp add: events_for_task_def task)
  moreover have "filter (\<lambda>x. tid x = t) es \<noteq> []" using assms(2,3) by (auto simp: filter_empty_conv)
  ultimately show ?thesis
    using fresh_index_one [OF assms(6,4,5), of fr] assms(2,3) by (simp add: events_for_task_def)
qed

section \<open>Merging with the projection file\<close>

lemma set_merge_ids:
  assumes "length base + length values \<le> cap"
  shows "set (merge_ids cap events base values) = set base \<union> {i \<in> set values. ident i \<in> fst ` set events}"
    and "sorted (map (ts_of events) (merge_ids cap events base values))"
proof -
  let ?new = "filter (\<lambda>i. i \<notin> set base) (fromkeys (filter (\<lambda>i. ident i \<in> fst ` set events) values))"
  have "length ?new \<le> length values"
    by (rule order_trans [OF length_filter_le order_trans [OF length_fromkeys length_filter_le]])
  with assms have "merge_ids cap events base values = sort_key (ts_of events) (base @ ?new)"
    by (simp add: merge_ids_def Let_def)
  then show "set (merge_ids cap events base values) = set base \<union> {i \<in> set values. ident i \<in> fst ` set events}"
    and "sorted (map (ts_of events) (merge_ids cap events base values))" by auto
qed

lemma map_of_task_ids_map: "map_of (task_ids_map d) t =
    (case map_of (filter (\<lambda>kv. is_list (snd kv)) d) t of None \<Rightarrow> None | Some v \<Rightarrow> Some (ids_of v))"
  unfolding task_ids_map_def by (induction d) auto

lemma merge_task_events_at:
  "distinct (map fst mem) \<Longrightarrow>
   map_of (fold (\<lambda>(t, values) out. AList.update t (merge_ids cap events (get_or [] out t) values) out) mem out) t =
     (case map_of mem t of None \<Rightarrow> map_of out t | Some values \<Rightarrow> Some (merge_ids cap events (get_or [] out t) values))"
proof (induction mem arbitrary: out)
  case (Cons kv mem)
  then have "map_of mem (fst kv) = None" by (auto simp: map_of_eq_None_iff)
  with Cons show ?case by (cases kv) (auto simp: update_conv' get_or_def split: option.splits)
qed simp

text \<open>Processes that flush in turn do not wipe each other's ids. Flushing an index over a projection file
  written by another process keeps, for every task and within the per-task limit, every id the file had
  and adds every id of this process whose event it holds, ordered by time stamp; the file then holds
  what the index holds.\<close>

lemma index_flush_keeps_ids:
  assumes "ix_dirty ix" and "disk_map file ''latest_event_by_task_id'' = Inr a"
    and "disk_map file ''event_ids_by_task_id'' = Inr disk" and "disk_map file ''latest_dispatch_by_actor'' = Inr c"
    and "distinct (map fst (ix_event_ids_by_task ix))" and "ix_event_ids_by_task ix = mem"
    and "length (get_or [] (task_ids_map disk) t) + length (get_or [] mem t) \<le> ix_max_task_events_per_task ix"
  shows "\<exists>ix'. flush file ix = Inr (ix', Some (index_payload ix'))
    \<and> set (get_or [] (ix_event_ids_by_task ix') t) = set (get_or [] (task_ids_map disk) t)
        \<union> {i \<in> set (get_or [] mem t). ident i \<in> fst ` set (capped_events ix)}"
proof -
  let ?ix' = "merged_index a disk c ix"
  let ?base = "get_or [] (task_ids_map disk) t"
  have "flush file ix = Inr (?ix', Some (index_payload ?ix'))" using assms(1-4) by (simp add: flush_def Let_def)
  moreover have at: "map_of (ix_event_ids_by_task ?ix') t =
      (case map_of mem t of None \<Rightarrow> map_of (task_ids_map disk) t
       | Some values \<Rightarrow> Some (merge_ids (ix_max_task_events_per_task ix) (capped_events ix) ?base values))"
    using merge_task_events_at [of mem] assms(5,6) by (simp add: merged_index_def merge_task_events_def Let_def)
  have "set (get_or [] (ix_event_ids_by_task ?ix') t) = set ?base
        \<union> {i \<in> set (get_or [] mem t). ident i \<in> fst ` set (capped_events ix)}"
  proof (cases "map_of mem t")
    case None
    with at show ?thesis by (simp add: get_or_def)
  next
    case (Some vals)
    with assms(7) have "length ?base + length vals \<le> ix_max_task_events_per_task ix" by (simp add: get_or_def)
    from set_merge_ids(1) [OF this] Some at show ?thesis by (simp add: get_or_def)
  qed
  ultimately show ?thesis by blast
qed

end
