(* ===== verification/Event_Schema.thy ===== *)
theory Event_Schema
  imports Event_Log
begin

text \<open>
  \<open>core/verification/event_schema.py\<close>: the payload schemas of workflow events, read from the
  configuration, and their validation. A mapping of the configuration is a JSON object; parsing raises where
  the code iterates over something that is not iterable or asks a non-mapping for its items.
\<close>

section \<open>Rules\<close>

record schema_violation =
  sv_event_type :: string
  sv_field_path :: string
  sv_code :: string
  sv_expected :: string
  sv_actual :: string

text \<open>The last but two component is the trigger field, the trigger value and the conditional rule.\<close>

datatype schema_rule =
  Rule (rl_event_type: string) (rl_required: "string list") (rl_optional: "string list")
    (rl_enum: "(string \<times> string list) list") (rl_nested: "(string \<times> schema_rule) list")
    (rl_when: "(string \<times> string \<times> schema_rule) option") (rl_list_item: "(string \<times> schema_rule) list")
    (rl_non_empty: "string list")

text \<open>\<open>tuple(str(x) for x in v or [])\<close>\<close>

definition iter_strs :: "json \<Rightarrow> string list res" where
  "iter_strs v =
     (if \<not> truthy v then Inr []
      else
        (case v of
           JList xs \<Rightarrow> Inr (map py_str xs)
         | JStr s \<Rightarrow> Inr (map (\<lambda>c. [c]) s)
         | JObj d \<Rightarrow> Inr (map fst d)
         | _ \<Rightarrow> Inl (TypeError ''object is not iterable'')))"

text \<open>\<open>(v or {}).items()\<close>\<close>

definition items_of :: "json \<Rightarrow> pydict res" where
  "items_of v =
     (if \<not> truthy v then Inr [] else (case v of JObj d \<Rightarrow> Inr d | _ \<Rightarrow> Inl (AttributeError ''items'')))"

text \<open>The allowed values are iterated without a default.\<close>

definition enum_values :: "json \<Rightarrow> string list res" where
  "enum_values v =
     (case v of
        JList xs \<Rightarrow> Inr (map py_str xs)
      | JStr s \<Rightarrow> Inr (map (\<lambda>c. [c]) s)
      | JObj d \<Rightarrow> Inr (map fst d)
      | _ \<Rightarrow> Inl (TypeError ''object is not iterable''))"

definition enum_of :: "pydict \<Rightarrow> (string \<times> string list) list res" where
  "enum_of d = res_map (\<lambda>kv. map_sum id (Pair (fst kv)) (enum_values (snd kv))) d"

text \<open>The \<open>if\<close> and \<open>then\<close> of a \<open>when\<close> section: the first trigger pair and the rule body.\<close>

definition when_parts :: "pydict \<Rightarrow> (string \<times> string \<times> pydict) option" where
  "when_parts raw =
     (case dict_get raw ''when'' of
        JObj w \<Rightarrow>
          (case (dict_get w ''if'', dict_get w ''then'') of
             (JObj ((k, v) # _), JObj body) \<Rightarrow> Some (k, if v = JNull then [] else py_str v, body)
           | _ \<Rightarrow> None)
      | _ \<Rightarrow> None)"

lemma when_parts_size: "when_parts raw = Some (k, v, body) \<Longrightarrow> size (JObj body) < size (JObj raw)"
  using size_dict_get [of _ "''then''" body] size_dict_get [of raw "''when''"]
  by (auto simp: when_parts_def split: json.splits list.splits prod.splits) fastforce+

lemma items_of_size: "items_of (dict_get raw k) = Inr d \<Longrightarrow> size (JObj d) \<le> size (JObj raw)"
  using size_dict_get [of raw k d]
  by (auto simp: items_of_def split: if_splits json.splits)

function rule_from_dict :: "string \<Rightarrow> pydict \<Rightarrow> schema_rule res"
  and rules_from :: "string \<Rightarrow> string \<Rightarrow> pydict \<Rightarrow> (string \<times> schema_rule) list res" where
  "rule_from_dict event_type raw =
     res_bind (iter_strs (dict_get raw ''required'')) (\<lambda>required.
     res_bind (iter_strs (dict_get raw ''optional'')) (\<lambda>optional.
     res_bind (iter_strs (dict_get raw ''non_empty'')) (\<lambda>non_empty.
     res_bind (res_bind (items_of (dict_get raw ''enum'')) enum_of) (\<lambda>enum.
     res_bind (items_of (dict_get raw ''nested'')) (\<lambda>nested_raw.
     res_bind (rules_from event_type [] nested_raw) (\<lambda>nested.
     res_bind (items_of (dict_get raw ''list_item'')) (\<lambda>list_item_raw.
     res_bind (rules_from event_type ''[]'' list_item_raw) (\<lambda>list_item.
     (case when_parts raw of
        None \<Rightarrow> Inr (Rule event_type required optional enum nested None list_item non_empty)
      | Some (f, v, body) \<Rightarrow>
          res_bind (rule_from_dict (event_type @ ''|when:'' @ f @ ''='' @ v) body) (\<lambda>r.
          Inr (Rule event_type required optional enum nested (Some (f, v, r)) list_item non_empty))))))))))) "
| "rules_from event_type suffix [] = Inr []"
| "rules_from event_type suffix ((k, v) # rest) =
     (case v of
        JObj body \<Rightarrow>
          res_bind (rule_from_dict (event_type @ ''.'' @ k @ suffix) body) (\<lambda>r.
          res_bind (rules_from event_type suffix rest) (\<lambda>rs. Inr ((k, r) # rs)))
      | _ \<Rightarrow> rules_from event_type suffix rest)"
  by pat_completeness auto
termination
proof (relation "measure (\<lambda>x. case x of Inl (_, raw) \<Rightarrow> 2 * size (JObj raw) + 1 | Inr (_, _, d) \<Rightarrow> 2 * size (JObj d))", goal_cases)
  case (2 event_type raw)
  then show ?case using items_of_size by fastforce
next
  case (3 event_type raw)
  then show ?case using items_of_size by fastforce
next
  case (4 event_type raw)
  then show ?case using when_parts_size by fastforce
qed auto

declare rule_from_dict.simps [simp del]

section \<open>Registry\<close>

record schema_registry =
  sr_rules :: "(string \<times> schema_rule) list"
  sr_rules_by_kind :: "(string \<times> (string \<times> schema_rule) list) list"

text \<open>Bodies that are no mappings are skipped.\<close>

fun rules_of :: "pydict \<Rightarrow> (string \<times> schema_rule) list res" where
  "rules_of [] = Inr []"
| "rules_of ((k, v) # rest) =
     (case v of
        JObj body \<Rightarrow>
          res_bind (rule_from_dict k body) (\<lambda>r. res_bind (rules_of rest) (\<lambda>rs. Inr ((k, r) # rs)))
      | _ \<Rightarrow> rules_of rest)"

definition registry_from_dict :: "pydict \<Rightarrow> schema_registry res" where
  "registry_from_dict raw = map_sum id (\<lambda>rs. \<lparr>sr_rules = rs, sr_rules_by_kind = []\<rparr>) (rules_of raw)"

text \<open>\<open>from_config\<close>: the general table and one table per workflow kind.\<close>

definition registry_from_config :: "json \<Rightarrow> json \<Rightarrow> schema_registry res" where
  "registry_from_config event_schemas event_schemas_by_kind =
     res_bind (rules_of (as_dict event_schemas)) (\<lambda>rs.
     res_bind (res_map (\<lambda>kv. map_sum id (Pair (fst kv)) (rules_of (as_dict (snd kv)))) (as_dict event_schemas_by_kind)) (\<lambda>by_kind.
     Inr \<lparr>sr_rules = rs, sr_rules_by_kind = by_kind\<rparr>))"

definition kind_name :: "string \<Rightarrow> string" where
  "kind_name flow_kind = (let kind = lower (strip flow_kind) in if kind = ''feat'' then ''prd'' else kind)"

definition event_schemas_for_config :: "json \<Rightarrow> json \<Rightarrow> string \<Rightarrow> pydict \<Rightarrow> pydict" where
  "event_schemas_for_config event_schemas event_schemas_by_kind flow_kind body =
     (let kind = kind_name (str_or flow_kind (sget_first body [''flow_kind'', ''request_kind'', ''goal_kind'']));
          scoped = dict_get (as_dict event_schemas_by_kind) kind
      in if kind \<noteq> [] \<and> is_dict scoped then as_dict scoped else as_dict event_schemas)"

definition rules_for_kind :: "schema_registry \<Rightarrow> string \<Rightarrow> (string \<times> schema_rule) list" where
  "rules_for_kind reg flow_kind =
     (case map_of (sr_rules_by_kind reg) (kind_name flow_kind) of Some rs \<Rightarrow> rs | None \<Rightarrow> sr_rules reg)"

definition rule_for :: "schema_registry \<Rightarrow> string \<Rightarrow> string \<Rightarrow> schema_rule option" where
  "rule_for reg event_type flow_kind = map_of (rules_for_kind reg flow_kind) event_type"

definition is_loose :: "schema_registry \<Rightarrow> string \<Rightarrow> string \<Rightarrow> bool" where
  "is_loose reg event_type flow_kind \<longleftrightarrow> rule_for reg event_type flow_kind = None"

definition rule_count :: "schema_registry \<Rightarrow> nat" where
  "rule_count reg = length (sr_rules reg) + sum_list (map (\<lambda>k. length (snd k)) (sr_rules_by_kind reg))"

section \<open>Validation\<close>

fun type_name :: "json \<Rightarrow> string" where
  "type_name JNull = ''NoneType''"
| "type_name (JBool _) = ''bool''"
| "type_name (JInt _) = ''int''"
| "type_name (JStr _) = ''str''"
| "type_name (JList _) = ''list''"
| "type_name (JObj _) = ''dict''"

definition violation :: "string \<Rightarrow> string \<Rightarrow> string \<Rightarrow> string \<Rightarrow> string \<Rightarrow> schema_violation" where
  "violation et path code expected actual =
     \<lparr>sv_event_type = et, sv_field_path = path, sv_code = code, sv_expected = expected, sv_actual = actual\<rparr>"

definition check_required :: "string \<Rightarrow> string \<Rightarrow> pydict \<Rightarrow> string list \<Rightarrow> schema_violation list" where
  "check_required et path d required =
     map (\<lambda>k. violation et (path @ ''.'' @ k) ''missing_required'' (k @ '' present'') ''missing'')
       (filter (\<lambda>k. \<not> has_key d k) required)"

definition is_empty_value :: "json \<Rightarrow> bool" where
  "is_empty_value v \<longleftrightarrow> v = JNull \<or> v = JList [] \<or> v = JStr []"

definition check_non_empty :: "string \<Rightarrow> string \<Rightarrow> pydict \<Rightarrow> string list \<Rightarrow> schema_violation list" where
  "check_non_empty et path d non_empty =
     map (\<lambda>k. violation et (path @ ''.'' @ k) ''empty_required'' (k @ '' non-empty'') ''empty'')
       (filter (\<lambda>k. has_key d k \<and> is_empty_value (dict_get d k)) non_empty)"

definition enum_ok :: "pydict \<Rightarrow> string \<times> string list \<Rightarrow> bool" where
  "enum_ok d fa = (has_key d (fst fa) \<longrightarrow> dict_get d (fst fa) \<in> JStr ` set (snd fa))"

definition check_enum :: "string \<Rightarrow> string \<Rightarrow> pydict \<Rightarrow> (string \<times> string list) list \<Rightarrow> schema_violation list" where
  "check_enum et path d enum =
     map (\<lambda>fa. violation et (path @ ''.'' @ fst fa) ''enum_mismatch''
            (''one of '' @ py_repr (JList (map JStr (snd fa)))) (py_str (dict_get d (fst fa))))
       (filter (\<lambda>fa. \<not> enum_ok d fa) enum)"

text \<open>The recursive parts of the walk, one entry at a time.\<close>

definition nested_check ::
  "(string \<Rightarrow> pydict \<Rightarrow> schema_violation list) \<Rightarrow> string \<Rightarrow> string \<Rightarrow> json \<Rightarrow> schema_violation list" where
  "nested_check val et p v =
     (case v of JObj sub \<Rightarrow> val p sub | _ \<Rightarrow> [violation et p ''type_mismatch'' ''object'' (type_name v)])"

definition items_check ::
  "(string \<Rightarrow> pydict \<Rightarrow> schema_violation list) \<Rightarrow> string \<Rightarrow> string \<Rightarrow> json \<Rightarrow> schema_violation list" where
  "items_check val et p v =
     (case v of
        JList items \<Rightarrow> concat (map (\<lambda>(i, item). nested_check val et (p @ ''['' @ show_nat i @ '']'') item) (enumerate 0 items))
      | _ \<Rightarrow> [violation et p ''type_mismatch'' ''list'' (type_name v)])"

lemma nested_check_cong [fundef_cong]:
  "et = et' \<Longrightarrow> p = p' \<Longrightarrow> v = v' \<Longrightarrow> (\<And>sub. v' = JObj sub \<Longrightarrow> val p' sub = val' p' sub) \<Longrightarrow>
     nested_check val et p v = nested_check val' et' p' v'"
  by (simp add: nested_check_def split: json.splits)

lemma items_check_cong [fundef_cong]:
  "et = et' \<Longrightarrow> p = p' \<Longrightarrow> v = v' \<Longrightarrow> (\<And>q sub items. v' = JList items \<Longrightarrow> JObj sub \<in> set items \<Longrightarrow> val q sub = val' q sub) \<Longrightarrow>
     items_check val et p v = items_check val' et' p' v'"
  by (auto simp: items_check_def in_set_enumerate_eq split: json.splits intro!: arg_cong [where f = concat] nested_check_cong)
    (metis nth_mem)

fun validate_against_rule :: "string \<Rightarrow> string \<Rightarrow> schema_rule \<Rightarrow> pydict \<Rightarrow> schema_violation list" where
  "validate_against_rule et path (Rule ty required optional enum nested cond list_item non_empty) d =
     check_required et path d required @
     check_non_empty et path d non_empty @
     check_enum et path d enum @
     concat (map (\<lambda>kr. if has_key d (fst kr)
        then nested_check (\<lambda>p sub. validate_against_rule et p (snd kr) sub) et (path @ ''.'' @ fst kr) (dict_get d (fst kr))
        else []) nested) @
     concat (map (\<lambda>kr. if has_key d (fst kr)
        then items_check (\<lambda>p sub. validate_against_rule et p (snd kr) sub) et (path @ ''.'' @ fst kr) (dict_get d (fst kr))
        else []) list_item) @
     (case cond of
        None \<Rightarrow> []
      | Some (f, v, r) \<Rightarrow> if dict_get d f = JStr v then validate_against_rule et path r d else [])"

definition flow_kind_of :: "pydict \<Rightarrow> string" where
  "flow_kind_of payload = sget_first payload [''flow_kind'', ''request_kind'', ''goal_kind'']"

definition event_rule :: "schema_registry \<Rightarrow> zf_event \<Rightarrow> schema_rule option" where
  "event_rule reg e =
     (case ev_type e of JStr ty \<Rightarrow> rule_for reg ty (flow_kind_of (as_dict (ev_payload e))) | _ \<Rightarrow> None)"

definition validate_event :: "schema_registry \<Rightarrow> zf_event \<Rightarrow> schema_violation list" where
  "validate_event reg e =
     (case event_rule reg e of
        None \<Rightarrow> []
      | Some r \<Rightarrow> validate_against_rule (py_str (ev_type e)) ''payload'' r (as_dict (ev_payload e)))"

section \<open>Canonical tables\<close>

definition table_rule :: "string \<Rightarrow> string list \<Rightarrow> string list \<Rightarrow> string \<times> json" where
  "table_rule k required optional =
     (k, JObj [(''required'', JList (map JStr required)), (''optional'', JList (map JStr optional))])"

definition context_event_schema_rules :: pydict where
  "context_event_schema_rules =
     [table_rule ''worker.context.warning''
        [''task_id'', ''dispatch_id'', ''role'', ''instance_id'', ''backend'', ''context_usage_ratio'',
         ''session_ref'', ''source'', ''reason'']
        [''ratio'', ''effective_tokens'', ''window'', ''model_context_window'', ''idle'', ''hard_cap'',
         ''action'', ''snapshot_ref'', ''previous_snapshot_ref'', ''recovery_snapshot_ref''],
      table_rule ''worker.context.critical''
        [''task_id'', ''dispatch_id'', ''role'', ''instance_id'', ''backend'', ''context_usage_ratio'',
         ''session_ref'', ''source'', ''reason'']
        [''ratio'', ''effective_tokens'', ''window'', ''model_context_window'', ''idle'', ''hard_cap'',
         ''action'', ''snapshot_ref'', ''previous_snapshot_ref'', ''recovery_snapshot_ref'']]"

definition progress_event_schema_rules :: pydict where
  "progress_event_schema_rules =
     [table_rule ''worker.progress''
        [''task_id'', ''dispatch_id'', ''role'', ''instance_id'', ''phase'', ''message'', ''source'']
        [''current_subtask'', ''percent'', ''source_event_id'', ''context_usage_ratio''],
      table_rule ''phase.progressed''
        [''task_id'', ''dispatch_id'', ''role'', ''instance_id'', ''phase'', ''source'']
        [''message'', ''source_event_id'', ''context_usage_ratio'']]"

definition user_message_unrouted_schema_rules :: pydict where
  "user_message_unrouted_schema_rules =
     [table_rule ''user.message.unrouted''
        [''message_id'', ''reason'']
        [''scanned_patterns'', ''actor_hint'', ''text_excerpt'']]"

definition runtime_snapshot_event_schema_rules :: pydict where
  "runtime_snapshot_event_schema_rules =
     [table_rule ''runtime.snapshot.recorded''
        [''schema_version'', ''snapshot_id'', ''snapshot_ref'', ''source'']
        [''task_id'', ''dispatch_id'', ''run_id'', ''trace_id'', ''fanout_id'', ''fanout_child_id'', ''role'',
         ''instance_id'', ''reason'', ''previous_snapshot_ref'', ''recovery_snapshot_ref''],
      table_rule ''runtime.snapshot.superseded''
        [''schema_version'', ''snapshot_id'', ''snapshot_ref'', ''source'']
        [''task_id'', ''dispatch_id'', ''run_id'', ''trace_id'', ''fanout_id'', ''fanout_child_id'', ''role'',
         ''instance_id'', ''reason'', ''previous_snapshot_ref'', ''recovery_snapshot_ref''],
      table_rule ''runtime.snapshot.rehydrated''
        [''schema_version'', ''snapshot_id'', ''snapshot_ref'', ''source'']
        [''task_id'', ''dispatch_id'', ''run_id'', ''trace_id'', ''fanout_id'', ''fanout_child_id'', ''role'',
         ''instance_id'', ''reason'', ''previous_snapshot_ref'', ''recovery_snapshot_ref''],
      table_rule ''runtime.snapshot.invalid''
        [''source'', ''reason'']
        [''schema_version'', ''snapshot_id'', ''snapshot_ref'', ''task_id'', ''dispatch_id'', ''run_id'',
         ''trace_id'', ''fanout_id'', ''fanout_child_id'', ''role'', ''instance_id'', ''reason'',
         ''previous_snapshot_ref'', ''recovery_snapshot_ref'']]"

definition fanout_request_schema_rules :: pydict where
  "fanout_request_schema_rules =
     [table_rule ''task.fanout.requested''
        [''task_id'', ''dispatch_id'', ''requested_by'', ''reason'', ''scope'', ''requested_specialists'',
         ''expected_output'', ''risk'']
        [''target_ref'', ''source_event_id'']]"

definition automation_event_schema_rules :: pydict where
  "automation_event_schema_rules =
     [table_rule ''automation.run.started''
        [''automation_id'', ''project_id'', ''source'', ''run_id'', ''trigger'']
        [''window'', ''cursor''],
      table_rule ''automation.run.completed''
        [''automation_id'', ''project_id'', ''source'', ''run_id'', ''status'']
        [''window'', ''outputs'', ''source_events'', ''duration_seconds''],
      table_rule ''automation.run.failed''
        [''automation_id'', ''project_id'', ''source'', ''run_id'', ''reason'']
        [''window'', ''source_events''],
      table_rule ''automation.run.skipped''
        [''automation_id'', ''project_id'', ''source'', ''run_id'', ''reason'']
        [''window''],
      table_rule ''automation.alert.raised''
        [''automation_id'', ''project_id'', ''source'', ''alert_id'', ''severity'', ''summary'']
        [''run_id'', ''source_events'', ''proposal_id''],
      table_rule ''automation.alert.resolved''
        [''automation_id'', ''project_id'', ''source'', ''alert_id'', ''reason'']
        [''run_id''],
      table_rule ''automation.proposal.created''
        [''automation_id'', ''project_id'', ''source'', ''proposal_id'', ''output_mode'', ''summary'']
        [''run_id'', ''action'', ''payload'', ''evidence_refs''],
      table_rule ''automation.proposal.accepted''
        [''automation_id'', ''project_id'', ''source'', ''proposal_id'']
        [''run_id'', ''accepted_by''],
      table_rule ''automation.proposal.rejected''
        [''automation_id'', ''project_id'', ''source'', ''proposal_id'', ''reason'']
        [''run_id'', ''rejected_by''],
      table_rule ''automation.proposal.applied''
        [''automation_id'', ''project_id'', ''source'', ''proposal_id'', ''action_event_id'']
        [''run_id''],
      table_rule ''automation.proposal.failed''
        [''automation_id'', ''project_id'', ''source'', ''proposal_id'', ''reason'']
        [''run_id'']]"

definition assignment_event_schema_rules :: pydict where
  "assignment_event_schema_rules =
     [table_rule ''assignment.intent.proposed''
        [''proposal_id'', ''task_id'', ''dispatches'']
        [''project_id'', ''assignee_type'', ''assignee_id'', ''assignee_label'', ''role'', ''backend'',
         ''channel_id'', ''supervisor'', ''reason'', ''request'']]"

section \<open>What validation means\<close>

definition object_ok :: "(pydict \<Rightarrow> bool) \<Rightarrow> json \<Rightarrow> bool" where
  "object_ok ok v = (case v of JObj sub \<Rightarrow> ok sub | _ \<Rightarrow> False)"

lemma object_ok_cong [fundef_cong]:
  "v = v' \<Longrightarrow> (\<And>sub. v' = JObj sub \<Longrightarrow> ok sub = ok' sub) \<Longrightarrow> object_ok ok v = object_ok ok' v'"
  by (simp add: object_ok_def split: json.splits)

text \<open>A payload conforms to a rule.\<close>

fun conforms :: "schema_rule \<Rightarrow> pydict \<Rightarrow> bool" where
  "conforms (Rule ty required optional enum nested cond list_item non_empty) d \<longleftrightarrow>
     (\<forall>k \<in> set required. has_key d k) \<and>
     (\<forall>k \<in> set non_empty. has_key d k \<longrightarrow> \<not> is_empty_value (dict_get d k)) \<and>
     (\<forall>fa \<in> set enum. enum_ok d fa) \<and>
     (\<forall>kr \<in> set nested. has_key d (fst kr) \<longrightarrow> object_ok (\<lambda>sub. conforms (snd kr) sub) (dict_get d (fst kr))) \<and>
     (\<forall>kr \<in> set list_item. has_key d (fst kr) \<longrightarrow>
        (case dict_get d (fst kr) of
           JList items \<Rightarrow> (\<forall>item \<in> set items. object_ok (\<lambda>sub. conforms (snd kr) sub) item) | _ \<Rightarrow> False)) \<and>
     (case cond of None \<Rightarrow> True | Some (f, v, r) \<Rightarrow> dict_get d f = JStr v \<longrightarrow> conforms r d)"

lemma checks_empty:
  "check_required et path d required = [] \<longleftrightarrow> (\<forall>k \<in> set required. has_key d k)"
  "check_non_empty et path d non_empty = [] \<longleftrightarrow> (\<forall>k \<in> set non_empty. has_key d k \<longrightarrow> \<not> is_empty_value (dict_get d k))"
  "check_enum et path d enum = [] \<longleftrightarrow> (\<forall>fa \<in> set enum. enum_ok d fa)"
  by (auto simp: check_required_def check_non_empty_def check_enum_def filter_empty_conv)

lemma concat_enumerate_Nil:
  "concat (map (\<lambda>(i, x). f i x) (enumerate n xs)) = [] \<longleftrightarrow> (\<forall>i < length xs. f (n + i) (xs ! i) = [])"
  by (induction xs arbitrary: n) (auto simp: All_less_Suc2)

lemma nested_check_Nil:
  "(\<And>p sub. val p sub = [] \<longleftrightarrow> ok sub) \<Longrightarrow> nested_check val et p v = [] \<longleftrightarrow> object_ok ok v"
  by (simp add: nested_check_def object_ok_def split: json.splits)

lemma items_check_Nil:
  "(\<And>p sub. val p sub = [] \<longleftrightarrow> ok sub) \<Longrightarrow>
     items_check val et p v = [] \<longleftrightarrow> (case v of JList items \<Rightarrow> \<forall>item \<in> set items. object_ok ok item | _ \<Rightarrow> False)"
  using concat_enumerate_Nil [where f = "\<lambda>i item. nested_check val et (p @ ''['' @ show_nat i @ '']'') item" and n = 0]
  by (simp add: items_check_def nested_check_Nil all_set_conv_all_nth del: concat_eq_Nil_conv split: json.splits)

lemma concat_if_Nil: "concat (map (\<lambda>x. if P x then F x else []) xs) = [] \<longleftrightarrow> (\<forall>x \<in> set xs. P x \<longrightarrow> F x = [])"
  by (induction xs) auto

declare validate_against_rule.simps [simp del] conforms.simps [simp del]

lemma validate_Nil: "validate_against_rule et path r d = [] \<longleftrightarrow> conforms r d"
proof (induction r arbitrary: path d)
  case (Rule ty required optional enum nested cond list_item non_empty)
  have nest: "nested_check (\<lambda>p sub. validate_against_rule et p (snd kr) sub) et q v = [] \<longleftrightarrow> object_ok (conforms (snd kr)) v"
    if "kr \<in> set nested" for kr q v
    using Rule(1) [OF that] by (intro nested_check_Nil) (cases kr; simp)
  have item: "items_check (\<lambda>p sub. validate_against_rule et p (snd kr) sub) et q v = []
      \<longleftrightarrow> (case v of JList items \<Rightarrow> (\<forall>item \<in> set items. object_ok (conforms (snd kr)) item) | _ \<Rightarrow> False)"
    if "kr \<in> set list_item" for kr q v
    using Rule(3) [OF that] by (intro items_check_Nil) (cases kr; simp)
  have cnd: "(case cond of None \<Rightarrow> []
      | Some (f, v, r) \<Rightarrow> if dict_get d f = JStr v then validate_against_rule et path r d else []) = []
     \<longleftrightarrow> (case cond of None \<Rightarrow> True | Some (f, v, r) \<Rightarrow> dict_get d f = JStr v \<longrightarrow> conforms r d)"
    using Rule(2) by (auto split: option.splits)
  show ?case unfolding validate_against_rule.simps conforms.simps append_is_Nil_conv checks_empty concat_if_Nil cnd
    using nest item by simp
qed

text \<open>The list of violations is empty exactly when the rule, read as a predicate, holds. An event passes the registry if and only if
  no rule is registered for its type and workflow kind, or its payload conforms to the rule: required
  keys present, non-empty fields not empty, enumerated fields within their values, nested objects and
  list items conforming in turn, and the conditional rule whenever its trigger holds.\<close>

lemma schema_validate_exact:
  "validate_event reg e = [] \<longleftrightarrow>
     (case event_rule reg e of None \<Rightarrow> True | Some r \<Rightarrow> conforms r (as_dict (ev_payload e)))"
  by (simp add: validate_event_def validate_Nil split: option.splits)

definition located :: "string \<Rightarrow> string \<Rightarrow> schema_violation \<Rightarrow> bool" where
  "located et path v \<longleftrightarrow> sv_event_type v = et \<and> (\<exists>t. sv_field_path v = path @ t)
     \<and> sv_code v \<in> {''missing_required'', ''empty_required'', ''enum_mismatch'', ''type_mismatch''}"

lemma located_violation [simp]:
  "located et path (violation et' path' code x a) \<longleftrightarrow> et' = et \<and> (\<exists>t. path' = path @ t)
     \<and> code \<in> {''missing_required'', ''empty_required'', ''enum_mismatch'', ''type_mismatch''}"
  by (simp add: located_def violation_def)

lemma located_below: "located et (path @ s) v \<Longrightarrow> located et path v"
  by (auto simp: located_def)

lemma checks_located:
  "v \<in> set (check_required et path d required) \<Longrightarrow> located et path v"
  "v \<in> set (check_non_empty et path d non_empty) \<Longrightarrow> located et path v"
  "v \<in> set (check_enum et path d enum) \<Longrightarrow> located et path v"
  by (auto simp: check_required_def check_non_empty_def check_enum_def)

lemma nested_located:
  assumes "\<And>p sub v. v \<in> set (val p sub) \<Longrightarrow> located et p v"
  shows "v \<in> set (nested_check val et p x) \<Longrightarrow> located et p v"
    and "v \<in> set (items_check val et p x) \<Longrightarrow> located et p v"
proof -
  show nest: "v \<in> set (nested_check val et p x) \<Longrightarrow> located et p v" for v p x
    using assms by (auto simp: nested_check_def split: json.splits)
  show "v \<in> set (items_check val et p x) \<Longrightarrow> located et p v"
    using nest located_below by (fastforce simp: items_check_def split: json.splits)
qed

text \<open>Every reported violation names the event and a field under the payload, with one of the four known
  codes, whatever the rule and the payload.\<close>

lemma schema_violations_located:
  assumes "v \<in> set (validate_against_rule et path r d)"
  shows "located et path v"
  using assms
proof (induction r arbitrary: path d v)
  case (Rule ty required optional enum nested cond list_item non_empty)
  have nest: "located et q w" if "kr \<in> set nested" "w \<in> set (nested_check (\<lambda>p sub. validate_against_rule et p (snd kr) sub) et q x)" for kr q w x
    using Rule(1) [OF that(1)] by (intro nested_located(1) [OF _ that(2)]) (cases kr; simp)
  have item: "located et q w" if "kr \<in> set list_item" "w \<in> set (items_check (\<lambda>p sub. validate_against_rule et p (snd kr) sub) et q x)" for kr q w x
    using Rule(3) [OF that(1)] by (intro nested_located(2) [OF _ that(2)]) (cases kr; simp)
  from Rule.prems show ?case
    unfolding validate_against_rule.simps
  proof (elim set_append [THEN equalityD1, THEN subsetD, THEN UnE])
    assume "v \<in> set (case cond of None \<Rightarrow> [] | Some (f, val, r) \<Rightarrow> if dict_get d f = JStr val then validate_against_rule et path r d else [])"
    then show ?thesis using Rule(2) by (auto split: option.splits if_splits)
  next
    assume "v \<in> set (concat (map (\<lambda>kr. if has_key d (fst kr)
        then nested_check (\<lambda>p sub. validate_against_rule et p (snd kr) sub) et (path @ ''.'' @ fst kr) (dict_get d (fst kr)) else []) nested))"
    then obtain kr where "kr \<in> set nested"
      "v \<in> set (nested_check (\<lambda>p sub. validate_against_rule et p (snd kr) sub) et (path @ ''.'' @ fst kr) (dict_get d (fst kr)))"
      by (auto split: if_splits)
    from nest [OF this] show ?thesis by (rule located_below)
  next
    assume "v \<in> set (concat (map (\<lambda>kr. if has_key d (fst kr)
        then items_check (\<lambda>p sub. validate_against_rule et p (snd kr) sub) et (path @ ''.'' @ fst kr) (dict_get d (fst kr)) else []) list_item))"
    then obtain kr where "kr \<in> set list_item"
      "v \<in> set (items_check (\<lambda>p sub. validate_against_rule et p (snd kr) sub) et (path @ ''.'' @ fst kr) (dict_get d (fst kr)))"
      by (auto split: if_splits)
    from item [OF this] show ?thesis by (rule located_below)
  qed (rule checks_located, assumption)+
qed

section \<open>Tables as rules\<close>

lemma table_parses:
  "rule_from_dict k (as_dict (snd (table_rule k required optional))) = Inr (Rule k required optional [] [] None [] [])"
  by (cases required; cases optional)
    (simp_all add: table_rule_def rule_from_dict.simps iter_strs_def items_of_def enum_of_def when_parts_def comp_def)

lemma tables_parse:
  "rules_of (map (\<lambda>(k, required, optional). table_rule k required optional) xs) =
     Inr (map (\<lambda>(k, required, optional). (k, Rule k required optional [] [] None [] [])) xs)"
  using table_parses by (induction xs) (auto simp: table_rule_def)

text \<open>The context table as a registry accepts a context event exactly when the payload has every one of its
  nine identity and usage fields.\<close>

lemma schema_context_table:
  assumes "registry_from_dict context_event_schema_rules = Inr reg"
    and "ev_type e = JStr ty" and "ty \<in> {''worker.context.warning'', ''worker.context.critical''}"
  shows "validate_event reg e = [] \<longleftrightarrow>
    (\<forall>k \<in> {''task_id'', ''dispatch_id'', ''role'', ''instance_id'', ''backend'', ''context_usage_ratio'',
           ''session_ref'', ''source'', ''reason''}. has_key (as_dict (ev_payload e)) k)"
proof -
  let ?req = "[''task_id'', ''dispatch_id'', ''role'', ''instance_id'', ''backend'', ''context_usage_ratio'',
         ''session_ref'', ''source'', ''reason'']"
  let ?opt = "[''ratio'', ''effective_tokens'', ''window'', ''model_context_window'', ''idle'', ''hard_cap'',
         ''action'', ''snapshot_ref'', ''previous_snapshot_ref'', ''recovery_snapshot_ref'']"
  have "rules_of context_event_schema_rules = Inr
      [(''worker.context.warning'', Rule ''worker.context.warning'' ?req ?opt [] [] None [] []),
       (''worker.context.critical'', Rule ''worker.context.critical'' ?req ?opt [] [] None [] [])]"
    using tables_parse [of "[(''worker.context.warning'', ?req, ?opt), (''worker.context.critical'', ?req, ?opt)]"]
    by (simp add: context_event_schema_rules_def)
  with assms(1) have reg: "sr_rules reg =
      [(''worker.context.warning'', Rule ''worker.context.warning'' ?req ?opt [] [] None [] []),
       (''worker.context.critical'', Rule ''worker.context.critical'' ?req ?opt [] [] None [] [])]" "sr_rules_by_kind reg = []"
    by (auto simp: registry_from_dict_def)
  from assms(2,3) have "event_rule reg e = Some (Rule ty ?req ?opt [] [] None [] [])"
    by (auto simp: event_rule_def rule_for_def rules_for_kind_def reg)
  then show ?thesis by (simp add: validate_event_def validate_Nil conforms.simps)
qed

end
