(* ===== verification/Event_Writer.thy ===== *)
theory Event_Writer
  imports Event_Index Event_Schema
begin

text \<open>
  \<open>core/events/writer.py\<close>, \<open>core/events/projectors.py\<close> and \<open>core/events/dedupe.py\<close>: the boundary through
  which events reach the log. An event is enriched with its cause and correlation, checked against the
  schema registry, written, and handed to the projectors. The ids of events made on the way are drawn
  from a supply \<open>fr\<close>, a fresh trace id is the argument \<open>trace\<close>; the handlers of the projectors are
  arguments.
\<close>

section \<open>Projectors\<close>

record projector_result =
  pj_name :: string
  pj_event_type :: json
  pj_status :: string
  pj_error_type :: string
  pj_error :: string

text \<open>A handler returns the class and the text of the exception it raises, if any.\<close>

record event_projector =
  ep_name :: string
  ep_handler :: "event_store \<Rightarrow> zf_event \<Rightarrow> (string \<times> string) option"
  ep_event_filter :: "(zf_event \<Rightarrow> bool) option"

definition should_project :: "event_projector \<Rightarrow> zf_event \<Rightarrow> bool" where
  "should_project p e = (case ep_event_filter p of None \<Rightarrow> True | Some f \<Rightarrow> f e)"

definition run_projector :: "event_store \<Rightarrow> zf_event \<Rightarrow> event_projector \<Rightarrow> projector_result" where
  "run_projector s e p =
     (let result = (\<lambda>status cls msg. \<lparr>pj_name = ep_name p, pj_event_type = ev_type e, pj_status = status,
                       pj_error_type = cls, pj_error = msg\<rparr>) in
      if \<not> should_project p e then result ''skipped'' [] []
      else (case ep_handler p s e of
              Some (cls, msg) \<Rightarrow> result ''failed'' cls msg
            | None \<Rightarrow> result ''ok'' [] []))"

definition run_projectors :: "event_projector list \<Rightarrow> event_store \<Rightarrow> zf_event \<Rightarrow> projector_result list" where
  "run_projectors ps s e = map (run_projector s e) ps"

definition default_projectors ::
  "(event_store \<Rightarrow> zf_event \<Rightarrow> (string \<times> string) option) \<Rightarrow> (event_store \<Rightarrow> zf_event \<Rightarrow> (string \<times> string) option) \<Rightarrow> event_projector list" where
  "default_projectors fanout_manifest stage_report =
     [\<lparr>ep_name = ''fanout_manifest'', ep_handler = fanout_manifest,
       ep_event_filter = Some (\<lambda>e. startswith (py_str (ev_type e)) ''fanout.'')\<rparr>,
      \<lparr>ep_name = ''stage_report'', ep_handler = stage_report, ep_event_filter = None\<rparr>]"

section \<open>The writer\<close>

record event_writer =
  ew_correlation_id :: json
  ew_default_origin :: string
  ew_schema_registry :: "schema_registry option"
  ew_schema_mode :: string
  ew_projectors :: "event_projector list"

definition new_writer ::
  "json \<Rightarrow> schema_registry option \<Rightarrow> string \<Rightarrow> string \<Rightarrow> event_projector list \<Rightarrow> event_writer res" where
  "new_writer correlation_id registry mode origin ps =
     (if mode \<notin> {''disabled'', ''warning'', ''blocking''}
      then Inl (ValueError (''schema_mode must be disabled / warning / blocking; got '' @ repr_str mode))
      else Inr \<lparr>ew_correlation_id = correlation_id, ew_default_origin = origin, ew_schema_registry = registry,
                ew_schema_mode = mode, ew_projectors = ps\<rparr>)"

definition schema_meta_event_types :: "string list" where
  "schema_meta_event_types = [''event.schema.violated'', ''discriminator.failed'']"

definition blocked_event_identity_keys :: "string list" where
  "blocked_event_identity_keys =
     [''workflow_run_id'', ''run_id'', ''trace_id'', ''fanout_id'', ''child_id'', ''lane_id'', ''stage_id'',
      ''stage_slot'', ''operation_id'', ''attempt_id'', ''lease_id'', ''task_map_generation'', ''contract_revision'']"

text \<open>The index first, then the log from its end.\<close>

definition event_by_id :: "(string \<Rightarrow> zf_event option res) \<Rightarrow> fresh \<Rightarrow> indexed_log \<Rightarrow> json \<Rightarrow> zf_event option res" where
  "event_by_id dec fr l i =
     (case lookup_ref fr (il_index l) i of
        Some e \<Rightarrow> Inr (Some e)
      | None \<Rightarrow> map_sum id (\<lambda>evs. find (\<lambda>e. ev_id e = i) (rev evs)) (read_all dec (il_store l)))"

definition latest_task_event :: "(string \<Rightarrow> zf_event option res) \<Rightarrow> fresh \<Rightarrow> indexed_log \<Rightarrow> json \<Rightarrow> zf_event option res" where
  "latest_task_event dec fr l t =
     (case (case t of JStr s \<Rightarrow> latest_event_for_task fr (il_index l) s | _ \<Rightarrow> None) of
        Some e \<Rightarrow> Inr (Some e)
      | None \<Rightarrow> map_sum id (\<lambda>evs. find (\<lambda>e. ev_task_id e = t) (rev evs)) (read_all dec (il_store l)))"

definition own_correlation :: "event_writer \<Rightarrow> string \<Rightarrow> zf_event \<Rightarrow> json" where
  "own_correlation w trace e =
     (let c = (if ev_correlation_id e = JNull \<and> ew_correlation_id w \<noteq> JNull then ew_correlation_id w else ev_correlation_id e)
      in if ev_type e = JStr ''user.message'' \<and> c = JNull then JStr trace else c)"

definition parent_event :: "(string \<Rightarrow> zf_event option res) \<Rightarrow> fresh \<Rightarrow> indexed_log \<Rightarrow> zf_event \<Rightarrow> zf_event option res" where
  "parent_event dec fr l e =
     (if ev_causation_id e \<noteq> JNull then event_by_id dec fr l (ev_causation_id e)
      else if ev_task_id e \<noteq> JNull \<and> ev_type e \<noteq> JStr ''task.created'' then latest_task_event dec fr l (ev_task_id e)
      else Inr None)"

definition enrich_with :: "event_writer \<Rightarrow> string \<Rightarrow> zf_event option \<Rightarrow> zf_event \<Rightarrow> zf_event" where
  "enrich_with w trace parent e =
     (let c = own_correlation w trace e in
      (case parent of
         None \<Rightarrow> e\<lparr>ev_correlation_id := c\<rparr>
       | Some p \<Rightarrow>
           e\<lparr>ev_causation_id := (if ev_causation_id e = JNull then ev_id p else ev_causation_id e),
             ev_correlation_id := (if c = JNull then ev_correlation_id p else c)\<rparr>))"

definition enrich :: "event_writer \<Rightarrow> (string \<Rightarrow> zf_event option res) \<Rightarrow> fresh \<Rightarrow> string \<Rightarrow> indexed_log \<Rightarrow> zf_event \<Rightarrow> zf_event res" where
  "enrich w dec fr trace l e = map_sum id (\<lambda>p. enrich_with w trace p e) (parent_event dec fr l e)"

definition violation_json :: "schema_violation \<Rightarrow> json" where
  "violation_json v =
     JObj [(''event_type'', JStr (sv_event_type v)), (''field_path'', JStr (sv_field_path v)), (''code'', JStr (sv_code v)),
           (''expected'', JStr (sv_expected v)), (''actual'', JStr (sv_actual v))]"

definition schema_violated_event :: "fresh \<Rightarrow> zf_event \<Rightarrow> schema_violation list \<Rightarrow> zf_event" where
  "schema_violated_event fr e vs =
     (new_event fr ''event.schema.violated'')
       \<lparr>ev_actor := JStr ''zf-cli'', ev_task_id := ev_task_id e, ev_causation_id := ev_id e,
        ev_correlation_id := ev_correlation_id e,
        ev_payload := JObj [(''violated_event_id'', ev_id e), (''violated_event_type'', ev_type e),
          (''violations'', JList (map violation_json vs)), (''mode'', JStr ''warning'')]\<rparr>"

definition blocked_identity :: "pydict \<Rightarrow> pydict" where
  "blocked_identity payload =
     map (\<lambda>k. (k, dict_get payload k)) (filter (has_key payload) blocked_event_identity_keys)"

definition discriminator_failed_event :: "fresh \<Rightarrow> zf_event \<Rightarrow> schema_violation list \<Rightarrow> zf_event" where
  "discriminator_failed_event fr e vs =
     (let blocked_payload = as_dict (ev_payload e) in
      (new_event fr ''discriminator.failed'')
       \<lparr>ev_actor := JStr ''zf-cli'', ev_task_id := ev_task_id e, ev_causation_id := ev_causation_id e,
        ev_correlation_id := ev_correlation_id e,
        ev_payload := JObj (dict_update (blocked_identity blocked_payload)
          [(''failed_d'', JList [JStr ''EventSchemaD'']), (''blocked_event_id'', ev_id e),
           (''blocked_event_type'', ev_type e), (''blocked_event_payload'', JObj blocked_payload),
           (''violations'', JList (map violation_json vs)), (''mode'', JStr ''blocking'')])\<rparr>)"

text \<open>The schema gate: what is returned, and what is written in which order.\<close>

definition schema_gate :: "event_writer \<Rightarrow> fresh \<Rightarrow> zf_event \<Rightarrow> zf_event \<times> zf_event list" where
  "schema_gate w fr e =
     (case ew_schema_registry w of
        None \<Rightarrow> (e, [e])
      | Some reg \<Rightarrow>
          if ew_schema_mode w = ''disabled'' \<or> ev_type e \<in> JStr ` set schema_meta_event_types then (e, [e])
          else
            (let vs = validate_event reg e in
             if vs = [] then (e, [e])
             else if ew_schema_mode w = ''blocking''
             then (let f = discriminator_failed_event fr e vs in (f, [f]))
             else (e, [e, schema_violated_event fr e vs])))"

record log_clock =
  lc_signer :: "byte list option"
  lc_today :: string
  lc_raw_limit :: string

fun write_events ::
  "log_clock \<Rightarrow> event_projector list \<Rightarrow> zf_event list \<Rightarrow> indexed_log \<Rightarrow> indexed_log \<times> projector_result list" where
  "write_events c ps [] l = (l, [])"
| "write_events c ps (e # es) l =
     (let l1 = append_indexed (lc_signer c) (lc_today c) (lc_raw_limit c) e l;
          (l2, rs) = write_events c ps es l1
      in (l2, run_projectors ps (il_store l1) e @ rs))"

definition with_origin :: "event_writer \<Rightarrow> zf_event \<Rightarrow> zf_event" where
  "with_origin w e =
     (if ew_default_origin w \<noteq> [] \<and> \<not> truthy (ev_origin e) then e\<lparr>ev_origin := JStr (ew_default_origin w)\<rparr> else e)"

definition writer_append ::
  "event_writer \<Rightarrow> (string \<Rightarrow> zf_event option res) \<Rightarrow> log_clock \<Rightarrow> fresh \<Rightarrow> string \<Rightarrow> zf_event \<Rightarrow> indexed_log
     \<Rightarrow> (zf_event \<times> indexed_log \<times> projector_result list) res" where
  "writer_append w dec c fr trace e l =
     res_bind (enrich w dec fr trace l (with_origin w e)) (\<lambda>en.
       let (returned, written) = schema_gate w fr en; (l', diagnostics) = write_events c (ew_projectors w) written l
       in Inr (returned, l', diagnostics))"

text \<open>\<open>emit\<close> builds the event from its parts.\<close>

definition emit ::
  "event_writer \<Rightarrow> (string \<Rightarrow> zf_event option res) \<Rightarrow> log_clock \<Rightarrow> fresh \<Rightarrow> fresh \<Rightarrow> string
     \<Rightarrow> string \<Rightarrow> json \<Rightarrow> json \<Rightarrow> pydict \<Rightarrow> json \<Rightarrow> json \<Rightarrow> indexed_log \<Rightarrow> (zf_event \<times> indexed_log \<times> projector_result list) res" where
  "emit w dec c fr0 fr trace event_type actor task_id payload causation_id correlation_id l =
     writer_append w dec c fr trace
       ((new_event fr0 event_type)\<lparr>ev_actor := actor, ev_task_id := task_id, ev_payload := JObj payload,
          ev_causation_id := causation_id, ev_correlation_id := correlation_id\<rparr>) l"

section \<open>A bounded set of ids\<close>

text \<open>\<open>BoundedIdSet\<close>: the ids in insertion order; an id that is present keeps its place.\<close>

definition new_id_set :: "int \<Rightarrow> string list res" where
  "new_id_set max_size = (if max_size < 1 then Inl (ValueError ''max_size must be >= 1'') else Inr [])"

definition id_set_add :: "nat \<Rightarrow> string \<Rightarrow> string list \<Rightarrow> string list" where
  "id_set_add max_size item items =
     (if item \<in> set items then items
      else let grown = items @ [item] in drop (length grown - max_size) grown)"

definition id_set_contains :: "string list \<Rightarrow> string \<Rightarrow> bool" where
  "id_set_contains items item \<longleftrightarrow> item \<in> set items"

lemma id_set_bounds:
  "length items \<le> n \<Longrightarrow> length (id_set_add n x items) \<le> n"
  "distinct items \<Longrightarrow> distinct (id_set_add n x items)"
  by (auto simp: id_set_add_def Let_def distinct_drop simp del: drop_append)

lemma id_set_keeps:
  assumes "items = pre @ x # post" and "length post + length ys < n" and "length items \<le> n"
  shows "x \<in> set (fold (id_set_add n) ys items)"
  using assms
proof (induction ys arbitrary: items pre post)
  case (Cons y ys)
  show ?case
  proof (cases "y \<in> set items")
    case True
    with Cons.prems Cons.IH [of items pre post] show ?thesis by (simp add: id_set_add_def)
  next
    case False
    let ?k = "Suc (length items) - n"
    have k: "?k \<le> length pre" using Cons.prems by simp
    then have "id_set_add n y items = drop ?k pre @ x # (post @ [y])"
      using False Cons.prems(1) by (simp add: id_set_add_def Let_def)
    moreover have "length (id_set_add n y items) \<le> n" using Cons.prems(3) by (rule id_set_bounds)
    moreover have "length (post @ [y]) + length ys < n" using Cons.prems(2) by simp
    ultimately show ?thesis using Cons.IH [of "id_set_add n y items"] by simp
  qed
qed simp

text \<open>A processed id is remembered long enough and the memory stays bounded. The set never holds more than
  \<open>max_size\<close> ids nor an id twice, and an id that was new when it was added is still found after any
  \<open>max_size - 1\<close> further additions.\<close>

lemma dedupe_window:
  assumes "x \<notin> set items" and "length items \<le> n" and "distinct items" and "length ys < n"
  shows "id_set_contains (fold (id_set_add n) ys (id_set_add n x items)) x
    \<and> length (fold (id_set_add n) ys (id_set_add n x items)) \<le> n
    \<and> distinct (fold (id_set_add n) ys (id_set_add n x items))"
proof -
  let ?s = "id_set_add n x items"
  have s: "length ?s \<le> n" "distinct ?s" using id_set_bounds assms(2,3) by blast+
  have "?s = drop (Suc (length items) - n) items @ x # []"
    using assms by (simp add: id_set_add_def Let_def)
  then have "x \<in> set (fold (id_set_add n) ys ?s)" using s assms(4) by (intro id_set_keeps) auto
  moreover have "length (fold (id_set_add n) ys ?s) \<le> n \<and> distinct (fold (id_set_add n) ys ?s)"
    using s by (induction ys arbitrary: items rule: rev_induct) (auto simp: id_set_bounds)
  ultimately show ?thesis by (simp add: id_set_contains_def)
qed

section \<open>The schema gate\<close>

definition admitted :: "schema_registry \<Rightarrow> zf_event \<Rightarrow> bool" where
  "admitted reg e \<longleftrightarrow> ev_type e \<in> JStr ` set schema_meta_event_types \<or> validate_event reg e = []"

lemma discriminator_meta: "ev_type (discriminator_failed_event fr e vs) \<in> JStr ` set schema_meta_event_types"
  by (simp add: discriminator_failed_event_def new_event_def schema_meta_event_types_def Let_def)

lemma gate_admits:
  assumes "ew_schema_registry w = Some reg" and "ew_schema_mode w = ''blocking''"
  shows "\<exists>x. schema_gate w fr e = (x, [x]) \<and> admitted reg x"
  using assms discriminator_meta by (auto simp: schema_gate_def admitted_def Let_def)

text \<open>One input of the writer: the moment of the append, the ids it may draw, and the event.\<close>

type_synonym writer_input = "log_clock \<times> fresh \<times> string \<times> zf_event"

fun writer_run ::
  "event_writer \<Rightarrow> (string \<Rightarrow> zf_event option res) \<Rightarrow> writer_input list \<Rightarrow> indexed_log \<Rightarrow> indexed_log res" where
  "writer_run w dec [] l = Inr l"
| "writer_run w dec ((c, fr, trace, e) # ins) l =
     res_bind (writer_append w dec c fr trace e l) (\<lambda>(_, l', _). writer_run w dec ins l')"

definition append_at :: "log_clock \<times> zf_event \<Rightarrow> event_store \<Rightarrow> event_store" where
  "append_at ce s = append_event (lc_signer (fst ce)) (lc_today (fst ce)) (lc_raw_limit (fst ce)) (snd ce) s"

lemma append_indexed_store [simp]:
  "il_store (append_indexed signer today lim e l) = append_event signer today lim e (il_store l)"
  by (simp add: append_indexed_def split: prod.splits)

lemma write_one: "write_events c ps [e] l =
    (append_indexed (lc_signer c) (lc_today c) (lc_raw_limit c) e l,
     run_projectors ps (append_at (c, e) (il_store l)) e)"
  by (simp add: append_at_def Let_def)

lemma writer_append_parts:
  assumes "writer_append w dec c fr trace e l = Inr (ret, l1, diag)"
  shows "\<exists>en written. enrich w dec fr trace l (with_origin w e) = Inr en \<and> schema_gate w fr en = (ret, written)
    \<and> write_events c (ew_projectors w) written l = (l1, diag)"
proof -
  from assms obtain en where en: "enrich w dec fr trace l (with_origin w e) = Inr en"
    by (cases "enrich w dec fr trace l (with_origin w e)") (simp_all add: writer_append_def)
  obtain r ws where "schema_gate w fr en = (r, ws)" by fastforce
  moreover obtain l2 d where "write_events c (ew_projectors w) ws l = (l2, d)" by fastforce
  ultimately show ?thesis using assms en by (simp add: writer_append_def)
qed

text \<open>C25: in blocking mode no violating event ever reaches the log. Whatever events are appended through a
  writer with a registry in blocking mode, each call writes exactly one event, and every event written
  either satisfies the registry or is one of the two meta events that report a violation.\<close>

theorem writer_blocking_only_admitted:
  assumes "ew_schema_registry w = Some reg" and "ew_schema_mode w = ''blocking''"
    and "writer_run w dec ins l = Inr l'"
  shows "\<exists>ws. length ws = length ins \<and> (\<forall>ce \<in> set ws. admitted reg (snd ce))
    \<and> il_store l' = fold append_at ws (il_store l)"
  using assms
proof (induction w dec ins l rule: writer_run.induct)
  case (2 w dec c fr trace e ins l)
  from "2.prems"(3) obtain ret l1 diag where ap: "writer_append w dec c fr trace e l = Inr (ret, l1, diag)"
    and rest: "writer_run w dec ins l1 = Inr l'"
    by (auto simp: res_bind_Inr)
  from writer_append_parts [OF ap] obtain en written where "schema_gate w fr en = (ret, written)"
    and wr: "write_events c (ew_projectors w) written l = (l1, diag)" by blast
  moreover obtain x where "schema_gate w fr en = (x, [x])" "admitted reg x"
    using gate_admits [OF "2.prems"(1,2)] by blast
  ultimately have x: "admitted reg x" "il_store l1 = append_at (c, x) (il_store l)"
    by (auto simp: append_at_def Let_def)
  from "2.IH" [OF ap refl _ "2.prems"(1,2) rest] obtain ws where "length ws = length ins"
    "\<forall>ce \<in> set ws. admitted reg (snd ce)" "il_store l' = fold append_at ws (il_store l1)" by auto
  with x show ?case by (intro exI [of _ "(c, x) # ws"]) auto
qed (auto intro: exI [of _ "[]"])

definition demo_registry :: schema_registry where
  "demo_registry = \<lparr>sr_rules = [(''task.created'', Rule ''task.created'' [''title''] [] [] [] None [] [])], sr_rules_by_kind = []\<rparr>"

definition demo_writer :: event_writer where
  "demo_writer = \<lparr>ew_correlation_id = JNull, ew_default_origin = ''kernel'', ew_schema_registry = Some demo_registry,
     ew_schema_mode = ''blocking'', ew_projectors = []\<rparr>"

definition demo_log :: indexed_log where
  "demo_log = \<lparr>il_store = \<lparr>es_active = None, es_day = ''d'', es_archives = []\<rparr>, il_index = new_index, il_file = None\<rparr>"

definition demo_clock :: log_clock where
  "demo_clock = \<lparr>lc_signer = None, lc_today = ''d'', lc_raw_limit = []\<rparr>"

lemma demo_append_runs:
  "\<exists>l'. writer_run demo_writer (decode None False fr) [(demo_clock, fr, trace, demo_event)] demo_log = Inr l'"
proof -
  have "ev_type (with_origin w demo_event) = JStr ''task.created''" for w
    by (simp add: with_origin_def demo_event_def new_event_def)
  moreover have "ev_causation_id (with_origin w demo_event) = JNull" for w
    by (simp add: with_origin_def demo_event_def new_event_def)
  ultimately have "\<exists>en. enrich demo_writer (decode None False fr) fr trace demo_log (with_origin demo_writer demo_event) = Inr en"
    by (simp add: enrich_def parent_event_def)
  then show ?thesis by (auto simp: writer_append_def Let_def split: prod.splits)
qed

theorem writer_blocking_only_admitted_witness:
  "\<exists>l' ws. writer_run demo_writer (decode None False (''x'', ''y'')) [(demo_clock, (''x'', ''y''), ''t'', demo_event)] demo_log = Inr l'
     \<and> length ws = 1 \<and> (\<forall>ce \<in> set ws. admitted demo_registry (snd ce)) \<and> il_store l' = fold append_at ws (il_store demo_log)"
proof -
  obtain l' where "writer_run demo_writer (decode None False (''x'', ''y''))
      [(demo_clock, (''x'', ''y''), ''t'', demo_event)] demo_log = Inr l'" using demo_append_runs by blast
  moreover from writer_blocking_only_admitted [OF _ _ this, of demo_registry]
  obtain ws where "length ws = 1" "\<forall>ce \<in> set ws. admitted demo_registry (snd ce)" "il_store l' = fold append_at ws (il_store demo_log)"
    by (auto simp: demo_writer_def)
  ultimately show ?thesis by blast
qed

text \<open>A blocked event can be reconstructed. The \<open>discriminator.failed\<close> event written in its place keeps the
  task, cause and correlation, and its payload holds the blocked event's id, type and whole payload and,
  under their own names, the run, fanout, lane and attempt identities the blocked payload had.\<close>

lemma writer_blocked_traceable:
  assumes "payload = as_dict (ev_payload e)" and "f = discriminator_failed_event fr e vs"
  shows "ev_task_id f = ev_task_id e \<and> ev_causation_id f = ev_causation_id e \<and> ev_correlation_id f = ev_correlation_id e
    \<and> dict_get (as_dict (ev_payload f)) ''blocked_event_payload'' = JObj payload
    \<and> dict_get (as_dict (ev_payload f)) ''blocked_event_id'' = ev_id e
    \<and> dict_get (as_dict (ev_payload f)) ''blocked_event_type'' = ev_type e
    \<and> (\<forall>k \<in> set blocked_event_identity_keys. has_key payload k \<longrightarrow> dict_get (as_dict (ev_payload f)) k = dict_get payload k)"
proof -
  have id: "dict_get (blocked_identity payload) k = dict_get payload k"
    if "k \<in> set blocked_event_identity_keys" "has_key payload k" for k
  proof -
    have "map_of (map (\<lambda>k. (k, dict_get payload k)) ks) k = (if k \<in> set ks then Some (dict_get payload k) else None)" for ks
      by (induction ks) auto
    then show ?thesis using that by (simp add: blocked_identity_def dict_get_def [of "map _ _"])
  qed
  have "dict_get (dict_update d [(''failed_d'', a), (''blocked_event_id'', b), (''blocked_event_type'', c),
      (''blocked_event_payload'', p), (''violations'', v), (''mode'', m)]) k
      = (if k = ''mode'' then m else if k = ''violations'' then v else if k = ''blocked_event_payload'' then p
         else if k = ''blocked_event_type'' then c else if k = ''blocked_event_id'' then b else if k = ''failed_d'' then a
         else dict_get d k)" for d a b c p v m k
    by (simp add: dict_update_def)
  moreover have "k \<notin> {''mode'', ''violations'', ''blocked_event_payload'', ''blocked_event_type'', ''blocked_event_id'', ''failed_d''}"
    if "k \<in> set blocked_event_identity_keys" for k
    using that by (auto simp: blocked_event_identity_keys_def)
  ultimately show ?thesis
    using id by (auto simp: assms discriminator_failed_event_def new_event_def Let_def)
qed

section \<open>Enrichment\<close>

lemma find_rev: "find P (rev xs) = last_with P xs"
  by (induction xs rule: rev_induct) auto

lemma last_with_cong: "(\<And>x. x \<in> set xs \<Longrightarrow> P x = Q x) \<Longrightarrow> last_with P xs = last_with Q xs"
  by (simp add: last_with_def cong: filter_cong)

lemma id_text: "s \<noteq> [] \<Longrightarrow> ev_id x = JStr s \<longleftrightarrow> eid x = s" "s \<noteq> [] \<Longrightarrow> ev_task_id x = JStr s \<longleftrightarrow> tid x = s"
  by (cases "ev_id x"; auto simp: eid_def ident_def) (cases "ev_task_id x"; auto simp: tid_def ident_def)

text \<open>The index never changes how an event is linked. With an index that observed all events of the log,
  within its limits, enrichment gives exactly the event it gives by scanning the log: the same cause and
  the same correlation.\<close>

lemma writer_enrich_index_free:
  assumes "read_all dec (il_store l) = Inr es" and "fits ix es" and "il_index l = observe_all es (cleared ix)"
    and "ev_task_id e \<noteq> JStr []" and "ev_causation_id e \<noteq> JStr []"
  shows "enrich w dec fr trace l e = enrich w dec fr trace (l\<lparr>il_index := new_index\<rparr>) e"
proof -
  have none: "lookup_ref fr new_index i = None" "latest_event_for_task fr new_index t = None" for i t
    by (simp_all add: lookup_ref_def lookup_event_def lookup_def new_index_def latest_event_for_task_def
        latest_for_task_def split: json.splits)
  have "event_by_id dec fr l i = event_by_id dec fr (l\<lparr>il_index := new_index\<rparr>) i" if ne: "i \<noteq> JStr []" for i
  proof (cases "lookup_ref fr (il_index l) i")
    case None
    with none show ?thesis by (simp add: event_by_id_def)
  next
    case (Some x)
    then obtain s where s: "i = JStr s" "s \<noteq> []" and "lookup_event fr (observe_all es (cleared ix)) s = Some x"
      using ne assms(3) by (auto simp: lookup_ref_def split: json.splits)
    then have "last_with (\<lambda>e. eid e = s) es = Some x" using lookup_sound by blast
    with Some s none show ?thesis by (simp add: event_by_id_def assms(1) find_rev id_text)
  qed
  moreover have "latest_task_event dec fr l t = latest_task_event dec fr (l\<lparr>il_index := new_index\<rparr>) t" if "t \<noteq> JStr []" for t
  proof (cases t)
    case (JStr s)
    with that have "latest_event_for_task fr (il_index l) s = last_with (\<lambda>e. tid e = s) es"
      using answers_exact(1) [OF assms(2)] by (simp add: assms(3))
    with JStr that none show ?thesis
      by (simp add: latest_task_event_def assms(1) find_rev id_text split: option.splits)
  qed (simp_all add: latest_task_event_def)
  ultimately show ?thesis using assms(4,5) by (simp add: enrich_def parent_event_def)
qed

end
