(* ===== verification/State_Machine.thy ===== *)
theory State_Machine
  imports Py_Base
begin

text \<open>
  \<open>core/statemachine/\<close>: the transition tables of tasks, workers, sessions and loops, and the operations
  the four classes share. The classes differ in their table and in the wording of the exception; the
  interface of a table and what follows from it for every class is the locale \<open>transition_table\<close>.
\<close>

section \<open>Tables\<close>

type_synonym table = "(string \<times> string list) list"

definition task_transitions :: table where
  "task_transitions =
     [(''backlog'', [''in_progress'', ''blocked'', ''cancelled'']),
      (''in_progress'', [''review'', ''blocked'', ''cancelled'']),
      (''review'', [''testing'', ''cancelled'']),
      (''testing'', [''done'', ''cancelled'']),
      (''blocked'', [''backlog'', ''in_progress'', ''cancelled'']),
      (''done'', []),
      (''cancelled'', [])]"

definition worker_transitions :: table where
  "worker_transitions =
     [(''idle'', [''working'', ''stopping'']),
      (''working'', [''idle'', ''refreshing'', ''blocked'', ''crashed'', ''stopping'']),
      (''refreshing'', [''idle'', ''working'', ''crashed'', ''stopping'']),
      (''blocked'', [''idle'', ''working'', ''crashed'', ''stopping'']),
      (''crashed'', [''idle'', ''stopping'']),
      (''stopping'', [])]"

definition session_transitions :: table where
  "session_transitions =
     [(''created'', [''bootstrapping'', ''active'']),
      (''bootstrapping'', [''active'', ''stopped'']),
      (''active'', [''degraded'', ''shutdown_requested'', ''stopped'']),
      (''degraded'', [''active'', ''shutdown_requested'', ''stopped'']),
      (''shutdown_requested'', [''stopped'']),
      (''stopped'', [])]"

definition loop_transitions :: table where
  "loop_transitions =
     [(''starting'', [''running'', ''failed'', ''terminated'']),
      (''running'', [''waiting'', ''paused'', ''completed'', ''failed'', ''terminated'']),
      (''waiting'', [''running'', ''paused'', ''completed'', ''failed'', ''terminated'']),
      (''paused'', [''running'', ''terminated'']),
      (''recovering'', [''running'', ''failed'', ''terminated'']),
      (''completed'', []),
      (''failed'', [''recovering'', ''terminated'']),
      (''terminated'', [])]"

section \<open>Operations\<close>

definition can_transition :: "table \<Rightarrow> string \<Rightarrow> string \<Rightarrow> bool" where
  "can_transition table from_state to_state =
     (case map_of table from_state of None \<Rightarrow> False | Some targets \<Rightarrow> to_state \<in> set targets)"

definition transition :: "string \<Rightarrow> table \<Rightarrow> string \<Rightarrow> string \<Rightarrow> string res" where
  "transition prefix table from_state to_state =
     (if can_transition table from_state to_state then Inr to_state
      else Inl (InvalidTransition (prefix @ '' transition from '' @ [CHR 39] @ from_state @ [CHR 39] @ '' to '' @ [CHR 39] @ to_state @ [CHR 39])))"

definition task_transition :: "string \<Rightarrow> string \<Rightarrow> string res" where
  "task_transition = transition ''Cannot'' task_transitions"

definition worker_transition :: "string \<Rightarrow> string \<Rightarrow> string res" where
  "worker_transition = transition ''Worker cannot'' worker_transitions"

definition session_transition :: "string \<Rightarrow> string \<Rightarrow> string res" where
  "session_transition = transition ''Session cannot'' session_transitions"

definition loop_transition :: "string \<Rightarrow> string \<Rightarrow> string res" where
  "loop_transition = transition ''Loop cannot'' loop_transitions"

definition is_terminal :: "table \<Rightarrow> string \<Rightarrow> bool" where
  "is_terminal table s \<longleftrightarrow> map_of table s = Some []"

text \<open>A life: the states requested one after another; the first refused request ends it.\<close>

fun follow :: "(string \<Rightarrow> string \<Rightarrow> string res) \<Rightarrow> string \<Rightarrow> string list \<Rightarrow> string res" where
  "follow tr s [] = Inr s"
| "follow tr s (t # ts) = res_bind (tr s t) (\<lambda>s'. follow tr s' ts)"

section \<open>What every table gives\<close>

locale transition_table =
  fixes table :: table and prefix :: string
  assumes keys: "distinct (map fst table)"
    and closed: "(s, ts) \<in> set table \<Longrightarrow> set ts \<subseteq> fst ` set table"
begin

lemma can_iff: "can_transition table s t \<longleftrightarrow> (\<exists>ts. (s, ts) \<in> set table \<and> t \<in> set ts)"
proof -
  have "(s, ts) \<in> set table \<longleftrightarrow> map_of table s = Some ts" for ts using keys by simp
  then show ?thesis by (auto simp: can_transition_def simp del: map_of_eq_Some_iff split: option.splits)
qed

lemma step_Inr: "transition prefix table s t = Inr s' \<longleftrightarrow> s' = t \<and> can_transition table s t"
  by (auto simp: transition_def)

lemma follow_ends:
  "follow (transition prefix table) s ts = Inr s' \<Longrightarrow> s' = last (s # ts)"
  by (induction ts arbitrary: s) (auto simp: res_bind_Inr step_Inr)

lemma follow_snoc:
  "follow (transition prefix table) s (ts @ [t]) = Inr s' \<longleftrightarrow>
     (\<exists>u. follow (transition prefix table) s ts = Inr u \<and> can_transition table u t \<and> s' = t)"
  by (induction ts arbitrary: s) (auto simp: res_bind_Inr step_Inr)

lemma follow_known:
  assumes "follow (transition prefix table) s ts = Inr s'" and "s \<in> fst ` set table"
  shows "s' \<in> fst ` set table"
proof -
  have "can_transition table s t \<Longrightarrow> t \<in> fst ` set table" for s t using closed by (auto simp: can_iff)
  then show ?thesis using assms by (induction ts arbitrary: s) (simp_all add: res_bind_Inr step_Inr, blast)
qed

lemma terminal_absorbs:
  assumes "is_terminal table s" and "follow (transition prefix table) s ts = Inr s'"
  shows "ts = []"
  using assms by (cases ts) (auto simp: res_bind_Inr step_Inr is_terminal_def can_transition_def)

lemma last_steps:
  assumes "follow (transition prefix table) s ts = Inr t" and "ts \<noteq> []"
  shows "ts = butlast ts @ [t] \<and> (\<exists>u. follow (transition prefix table) s (butlast ts) = Inr u \<and> can_transition table u t)"
proof -
  have "ts = butlast ts @ [last ts]" using assms(2) by simp
  with assms(1) follow_snoc [of s "butlast ts" "last ts" t] show ?thesis by metis
qed

end

interpretation task: transition_table task_transitions "''Cannot''"
  by unfold_locales (auto simp: task_transitions_def)

interpretation worker: transition_table worker_transitions "''Worker cannot''"
  by unfold_locales (auto simp: worker_transitions_def)

interpretation session: transition_table session_transitions "''Session cannot''"
  by unfold_locales (auto simp: session_transitions_def)

interpretation loop: transition_table loop_transitions "''Loop cannot''"
  by unfold_locales (auto simp: loop_transitions_def)

section \<open>Life cycles\<close>

lemma task_into:
  "can_transition task_transitions u ''done'' \<Longrightarrow> u = ''testing''"
  "can_transition task_transitions u ''testing'' \<Longrightarrow> u = ''review''"
  "can_transition task_transitions u ''review'' \<Longrightarrow> u = ''in_progress''"
  by (auto simp: task.can_iff) (auto simp: task_transitions_def)

text \<open>A task is done only after work, review and test. Every accepted life of a task that starts in the
  backlog and ends in \<open>done\<close> ends with the states \<open>in_progress\<close>, \<open>review\<close>, \<open>testing\<close>, \<open>done\<close>, in this order
  and without a step in between, and nothing follows \<open>done\<close>.\<close>

lemma task_done_path:
  assumes "follow task_transition ''backlog'' ts = Inr ''done''"
  shows "(\<exists>us. ts = us @ [''in_progress'', ''review'', ''testing'', ''done''])
    \<and> (\<forall>more s. follow task_transition ''done'' more = Inr s \<longrightarrow> more = [])"
proof -
  have step: "\<exists>us. ts = us @ [t] \<and> follow task_transition ''backlog'' us = Inr u"
    if "follow task_transition ''backlog'' ts = Inr t" "t \<noteq> ''backlog''" "\<And>x. can_transition task_transitions x t \<Longrightarrow> x = u"
    for ts t u
  proof -
    have "ts \<noteq> []" using that(1,2) by auto
    from task.last_steps [OF that(1) [unfolded task_transition_def] this] that(3) show ?thesis
      by (auto simp: task_transition_def)
  qed
  from step [OF assms _ task_into(1)] obtain a where a: "ts = a @ [''done'']" "follow task_transition ''backlog'' a = Inr ''testing''" by auto
  from step [OF a(2) _ task_into(2)] obtain b where b: "a = b @ [''testing'']" "follow task_transition ''backlog'' b = Inr ''review''" by auto
  from step [OF b(2) _ task_into(3)] obtain c where c: "b = c @ [''review'']" "follow task_transition ''backlog'' c = Inr ''in_progress''" by auto
  have "c \<noteq> []" using c(2) by auto
  from task.last_steps [OF c(2) [unfolded task_transition_def] this] have "c = butlast c @ [''in_progress'']" by blast
  then have "ts = butlast c @ [''in_progress'', ''review'', ''testing'', ''done'']" using a(1) b(1) c(1) by simp
  moreover have "is_terminal task_transitions ''done''" by (simp add: is_terminal_def task_transitions_def)
  ultimately show ?thesis
    using task.terminal_absorbs unfolding task_transition_def by blast
qed

text \<open>Everything that lives can be stopped. From every state of its table a task can reach \<open>cancelled\<close> or
  is done, a worker can reach \<open>stopping\<close>, a session \<open>stopped\<close>, a loop \<open>terminated\<close> or is completed, and these
  states are final.\<close>

lemma machines_stoppable:
  "(\<forall>s \<in> fst ` set task_transitions. s = ''done'' \<or> (\<exists>ts. follow task_transition s ts = Inr ''cancelled''))
   \<and> (\<forall>s \<in> fst ` set worker_transitions. \<exists>ts. follow worker_transition s ts = Inr ''stopping'')
   \<and> (\<forall>s \<in> fst ` set session_transitions. \<exists>ts. follow session_transition s ts = Inr ''stopped'')
   \<and> (\<forall>s \<in> fst ` set loop_transitions. s = ''completed'' \<or> (\<exists>ts. follow loop_transition s ts = Inr ''terminated''))
   \<and> is_terminal task_transitions ''cancelled'' \<and> is_terminal worker_transitions ''stopping''
   \<and> is_terminal session_transitions ''stopped'' \<and> is_terminal loop_transitions ''terminated''"
proof (intro conjI ballI)
  fix s assume "s \<in> fst ` set task_transitions"
  then have "s = ''done'' \<or> follow task_transition s (if s = ''cancelled'' then [] else [''cancelled'']) = Inr ''cancelled''"
    by (auto simp: task_transitions_def task_transition_def transition_def can_transition_def)
  then show "s = ''done'' \<or> (\<exists>ts. follow task_transition s ts = Inr ''cancelled'')" by blast
next
  fix s assume "s \<in> fst ` set worker_transitions"
  then have "follow worker_transition s (if s = ''stopping'' then [] else [''stopping'']) = Inr ''stopping''"
    by (auto simp: worker_transitions_def worker_transition_def transition_def can_transition_def)
  then show "\<exists>ts. follow worker_transition s ts = Inr ''stopping''" by blast
next
  fix s assume "s \<in> fst ` set session_transitions"
  then have "follow session_transition s (if s = ''stopped'' then [] else if s = ''created'' then [''active'', ''stopped''] else [''stopped'']) = Inr ''stopped''"
    by (auto simp: session_transitions_def session_transition_def transition_def can_transition_def)
  then show "\<exists>ts. follow session_transition s ts = Inr ''stopped''" by blast
next
  fix s assume "s \<in> fst ` set loop_transitions"
  then have "s = ''completed'' \<or> follow loop_transition s (if s = ''terminated'' then [] else [''terminated'']) = Inr ''terminated''"
    by (auto simp: loop_transitions_def loop_transition_def transition_def can_transition_def)
  then show "s = ''completed'' \<or> (\<exists>ts. follow loop_transition s ts = Inr ''terminated'')" by blast
qed (simp_all add: is_terminal_def task_transitions_def worker_transitions_def session_transitions_def loop_transitions_def)

end
