(* ===== verification/Failure_Handling.thy ===== *)
theory Failure_Handling
  imports Complex_Main Event_Log
begin

text \<open>
  \<open>core/errors/\<close>: the failure taxonomy with its retry policies, the exponential back-off, and the
  persisted circuit breaker. Times are real numbers of seconds, without
  the rounding of floating point; the random factor of the back-off is an
  argument. The breaker file is the map it holds, \<open>None\<close> when it is missing or unreadable.
\<close>

section \<open>Taxonomy\<close>

datatype failure_category =
    SYSTEM_IO | SYSTEM_PROCESS | SYSTEM_BACKEND
  | BUSINESS_GATE | BUSINESS_JUDGE | BUSINESS_DISCRIMINATOR
  | AGENT_STUCK | AGENT_DRIFT | AGENT_BUDGET

record retry_policy =
  rp_max_retries :: nat
  rp_backoff_seconds :: real
  rp_escalate_on_exhaust :: bool

fun policy_for :: "failure_category \<Rightarrow> retry_policy" where
  "policy_for SYSTEM_IO = \<lparr>rp_max_retries = 3, rp_backoff_seconds = 1, rp_escalate_on_exhaust = True\<rparr>"
| "policy_for SYSTEM_PROCESS = \<lparr>rp_max_retries = 2, rp_backoff_seconds = 2, rp_escalate_on_exhaust = True\<rparr>"
| "policy_for SYSTEM_BACKEND = \<lparr>rp_max_retries = 5, rp_backoff_seconds = 2, rp_escalate_on_exhaust = True\<rparr>"
| "policy_for BUSINESS_GATE = \<lparr>rp_max_retries = 2, rp_backoff_seconds = 0, rp_escalate_on_exhaust = True\<rparr>"
| "policy_for BUSINESS_JUDGE = \<lparr>rp_max_retries = 2, rp_backoff_seconds = 0, rp_escalate_on_exhaust = True\<rparr>"
| "policy_for BUSINESS_DISCRIMINATOR = \<lparr>rp_max_retries = 1, rp_backoff_seconds = 0, rp_escalate_on_exhaust = True\<rparr>"
| "policy_for AGENT_STUCK = \<lparr>rp_max_retries = 0, rp_backoff_seconds = 0, rp_escalate_on_exhaust = True\<rparr>"
| "policy_for AGENT_DRIFT = \<lparr>rp_max_retries = 0, rp_backoff_seconds = 0, rp_escalate_on_exhaust = False\<rparr>"
| "policy_for AGENT_BUDGET = \<lparr>rp_max_retries = 0, rp_backoff_seconds = 0, rp_escalate_on_exhaust = True\<rparr>"

definition type_map :: "(string \<times> failure_category) list" where
  "type_map =
     [(''worker.stuck'', AGENT_STUCK), (''worker.stuck.recovery_failed'', SYSTEM_PROCESS),
      (''worker.respawn.failed'', SYSTEM_PROCESS), (''worker.recycle.failed'', SYSTEM_PROCESS),
      (''pane.crash'', SYSTEM_PROCESS), (''worker.drift.detected'', AGENT_DRIFT),
      (''cost.budget.exceeded'', AGENT_BUDGET), (''agent.api_blocked'', SYSTEM_BACKEND),
      (''agent.timeout'', SYSTEM_BACKEND), (''review.rejected'', BUSINESS_GATE), (''test.failed'', BUSINESS_GATE),
      (''gate.failed'', BUSINESS_GATE), (''judge.failed'', BUSINESS_JUDGE),
      (''discriminator.failed'', BUSINESS_DISCRIMINATOR), (''hook.write_failed'', SYSTEM_IO),
      (''scope.violation'', BUSINESS_GATE)]"

definition classify :: "zf_event \<Rightarrow> failure_category option" where
  "classify e = (case ev_type e of JStr ty \<Rightarrow> map_of type_map ty | _ \<Rightarrow> None)"

section \<open>Back-off\<close>

text \<open>\<open>u\<close> is the random draw from the unit interval.\<close>

definition exponential_backoff :: "real \<Rightarrow> real \<Rightarrow> real \<Rightarrow> real \<Rightarrow> real \<Rightarrow> int \<Rightarrow> real" where
  "exponential_backoff base factor jitter max_seconds u attempt =
     (if attempt \<le> 0 then 0
      else
        (let raw = base * factor ^ nat (attempt - 1);
             jittered = (if 0 < jitter then raw * (1 + u * jitter) else raw)
         in min (max jittered 0) max_seconds))"

section \<open>Circuit breaker\<close>

datatype circuit_state = CLOSED | OPEN | HALF_OPEN

record breaker_record =
  br_failures :: "real list"
  br_tripped_at :: "real option"
  br_last_reason :: string

record circuit_breaker =
  cb_key :: "string \<times> string"
  cb_max_failures :: int
  cb_window_seconds :: real

type_synonym breaker_file = "(string \<times> breaker_record) list option"

definition empty_record :: breaker_record where
  "empty_record = \<lparr>br_failures = [], br_tripped_at = None, br_last_reason = []\<rparr>"

definition key_str :: "circuit_breaker \<Rightarrow> string" where
  "key_str b = fst (cb_key b) @ ''::'' @ snd (cb_key b)"

definition load_breakers :: "breaker_file \<Rightarrow> (string \<times> breaker_record) list" where
  "load_breakers db = (case db of None \<Rightarrow> [] | Some d \<Rightarrow> d)"

definition load_key :: "circuit_breaker \<Rightarrow> breaker_file \<Rightarrow> breaker_record" where
  "load_key b db = (case map_of (load_breakers db) (key_str b) of None \<Rightarrow> empty_record | Some r \<Rightarrow> r)"

definition record_state :: "circuit_breaker \<Rightarrow> real \<Rightarrow> breaker_record \<Rightarrow> circuit_state" where
  "record_state b now r =
     (if br_failures r = [] then CLOSED
      else
        (let recent = filter (\<lambda>f. now - cb_window_seconds b \<le> f) (br_failures r);
             last_in_window = (if recent = [] then 0 else last recent) in
         if cb_max_failures b \<le> int (length recent) \<and> now - last_in_window < cb_window_seconds b then OPEN
         else if br_tripped_at r \<noteq> None \<and> recent = [] then HALF_OPEN
         else CLOSED))"

definition breaker_state :: "circuit_breaker \<Rightarrow> real \<Rightarrow> breaker_file \<Rightarrow> circuit_state" where
  "breaker_state b now db = record_state b now (load_key b db)"

definition can_proceed :: "circuit_breaker \<Rightarrow> real \<Rightarrow> breaker_file \<Rightarrow> bool" where
  "can_proceed b now db \<longleftrightarrow> breaker_state b now db \<noteq> OPEN"

definition failed_record :: "circuit_breaker \<Rightarrow> real \<Rightarrow> string \<Rightarrow> breaker_record \<Rightarrow> breaker_record" where
  "failed_record b now reason r =
     (let failures = filter (\<lambda>f. now - cb_window_seconds b \<le> f) (br_failures r @ [now])
      in r\<lparr>br_failures := failures, br_last_reason := reason,
           br_tripped_at := (if cb_max_failures b \<le> int (length failures) then Some now else br_tripped_at r)\<rparr>)"

definition record_failure :: "circuit_breaker \<Rightarrow> real \<Rightarrow> string \<Rightarrow> breaker_file \<Rightarrow> breaker_file" where
  "record_failure b now reason db =
     Some (AList.update (key_str b) (failed_record b now reason (load_key b db)) (load_breakers db))"

definition record_success :: "circuit_breaker \<Rightarrow> breaker_file \<Rightarrow> breaker_file" where
  "record_success b db =
     (if map_of (load_breakers db) (key_str b) \<noteq> None
      then Some (AList.update (key_str b) empty_record (load_breakers db)) else db)"

definition reset_breaker :: "circuit_breaker \<Rightarrow> breaker_file \<Rightarrow> breaker_file" where
  "reset_breaker b db = Some (filter (\<lambda>kv. fst kv \<noteq> key_str b) (load_breakers db))"

section \<open>What the breaker does\<close>

lemma load_after_failure [simp]: "load_key b (record_failure b now reason db) = failed_record b now reason (load_key b db)"
  by (simp add: load_key_def record_failure_def load_breakers_def update_conv')

text \<open>A run of failures, oldest first.\<close>

fun fail_at :: "circuit_breaker \<Rightarrow> real list \<Rightarrow> breaker_file \<Rightarrow> breaker_file" where
  "fail_at b [] db = db"
| "fail_at b (t # ts) db = fail_at b ts (record_failure b t [] db)"

definition recent :: "real \<Rightarrow> real \<Rightarrow> real list \<Rightarrow> real list" where
  "recent w now ts = filter (\<lambda>f. now - w \<le> f) ts"

lemma recent_recent: "s \<le> now \<Longrightarrow> recent w now (recent w s ts) = recent w now ts"
  by (auto simp: recent_def intro: filter_cong)

lemma fail_at_record:
  assumes "sorted (fs @ ts)" and "br_failures (load_key b db) = recent (cb_window_seconds b) now fs" and "\<forall>t \<in> set ts. now \<le> t"
    and "t = (if ts = [] then now else last ts)"
  shows "br_failures (load_key b (fail_at b ts db)) = recent (cb_window_seconds b) t (fs @ ts)"
  using assms
proof (induction ts arbitrary: fs db now)
  case (Cons u ts)
  let ?w = "cb_window_seconds b"
  have "br_failures (load_key b (record_failure b u [] db)) = recent ?w u (recent ?w now fs @ [u])"
    using Cons.prems(2) by (simp add: failed_record_def recent_def Let_def)
  also have "\<dots> = recent ?w u (fs @ [u])"
    using recent_recent [of now u ?w fs] Cons.prems(3) by (simp add: recent_def)
  finally have "br_failures (load_key b (record_failure b u [] db)) = recent ?w u (fs @ [u])" .
  from Cons.IH [OF _ this] Cons.prems show ?case by (auto simp: sorted_append)
qed simp

lemma sorted_last: "sorted ts \<Longrightarrow> x \<in> set ts \<Longrightarrow> x \<le> last ts"
  by (induction ts) auto

text \<open>The breaker opens exactly on enough failures in the window and never stays open. After failures at
  times \<open>ts\<close> (in order, none before) it blocks calls at a later time \<open>now\<close> if and only if at least
  \<open>max_failures\<close> of them lie within the window before \<open>now\<close> and the last one is less than a window old;
  so once a window has passed since the last failure calls proceed.\<close>

lemma breaker_opens_exactly:
  assumes "sorted ts" and "ts \<noteq> []" and "last ts \<le> now" and "load_key b db = empty_record" and "0 < cb_max_failures b"
  shows "breaker_state b now (fail_at b ts db) = OPEN \<longleftrightarrow>
      cb_max_failures b \<le> int (length (recent (cb_window_seconds b) now ts)) \<and> now - last ts < cb_window_seconds b"
proof -
  let ?w = "cb_window_seconds b"
  let ?r = "load_key b (fail_at b ts db)"
  have fs: "br_failures ?r = recent ?w (last ts) ts"
    using fail_at_record [of "[]" ts b db "hd ts" "last ts"] assms by (cases ts) (auto simp: empty_record_def recent_def)
  then have now: "recent ?w now (br_failures ?r) = recent ?w now ts" using recent_recent [OF assms(3)] by simp
  have lst: "recent ?w now ts \<noteq> [] \<Longrightarrow> last (recent ?w now ts) = last ts"
  proof -
    assume "recent ?w now ts \<noteq> []"
    then obtain x where "x \<in> set ts" "now - ?w \<le> x" by (auto simp: recent_def filter_empty_conv)
    moreover have "x \<le> last ts" using assms(1) \<open>x \<in> set ts\<close> by (rule sorted_last)
    ultimately have "now - ?w \<le> last ts" by simp
    then have "recent ?w now (butlast ts @ [last ts]) = recent ?w now (butlast ts) @ [last ts]"
      by (simp add: recent_def)
    then have "recent ?w now ts = recent ?w now (butlast ts) @ [last ts]" using assms(2) by simp
    then show "last (recent ?w now ts) = last ts" by simp
  qed
  show ?thesis
  proof (cases "recent ?w now ts = []")
    case True
    with assms(5) now show ?thesis by (auto simp: breaker_state_def record_state_def recent_def Let_def)
  next
    case False
    then have "br_failures ?r \<noteq> []" using now by (auto simp: recent_def)
    with False lst now show ?thesis by (auto simp: breaker_state_def record_state_def recent_def [symmetric] Let_def)
  qed
qed

text \<open>A failed probe closes the breaker. The breaker is half open, so the next call is a probe; when that
  probe fails and the limit is at least two, the breaker is closed right after it, not open, and lets further
  calls through until the limit is reached again.\<close>

lemma breaker_failed_probe_closes:
  assumes "breaker_state b now db = HALF_OPEN" and "2 \<le> cb_max_failures b" and "0 < cb_window_seconds b"
  shows "breaker_state b now (record_failure b now reason db) = CLOSED"
proof -
  let ?r = "load_key b db"
  from assms(1) have none: "filter (\<lambda>f. now - cb_window_seconds b \<le> f) (br_failures ?r) = []"
    by (auto simp: breaker_state_def record_state_def Let_def split: if_splits)
  then have "br_failures (failed_record b now reason ?r) = [now]"
    using assms(3) by (simp add: failed_record_def Let_def)
  then show ?thesis using assms(2,3) by (simp add: breaker_state_def record_state_def Let_def)
qed

section \<open>Policies\<close>

text \<open>The back-off never exceeds its cap, never is negative, and without jitter never decreases.\<close>

lemma backoff_bounds:
  "0 \<le> max_seconds \<Longrightarrow> 0 \<le> exponential_backoff base factor jitter max_seconds u attempt
     \<and> exponential_backoff base factor jitter max_seconds u attempt \<le> max_seconds"
  by (simp add: exponential_backoff_def Let_def)

lemma backoff_grows:
  assumes "0 \<le> base" and "1 \<le> factor" and "a \<le> a'" and "0 \<le> max_seconds"
  shows "exponential_backoff base factor 0 max_seconds u a \<le> exponential_backoff base factor 0 max_seconds u' a'"
proof (cases "a \<le> 0")
  case True
  then show ?thesis using backoff_bounds [OF assms(4), of base factor 0 u' a'] by (simp add: exponential_backoff_def)
next
  case False
  have "factor ^ nat (a - 1) \<le> factor ^ nat (a' - 1)" using assms(2,3) by (intro power_increasing) auto
  then have "base * factor ^ nat (a - 1) \<le> base * factor ^ nat (a' - 1)" using assms(1) by (rule mult_left_mono)
  then show ?thesis using False assms(3) by (auto simp: exponential_backoff_def Let_def)
qed

text \<open>Every failure is retried a bounded number of times, with a bounded delay. A classified event gets a
  policy of at most five retries, a category that is never retried has no back-off, only drift is not
  escalated, and the delay before any attempt lies between 0 and the cap and, without jitter, does not
  shrink from one attempt to the next.\<close>

lemma failure_policy_bounded:
  assumes "classify e = Some c" and "0 \<le> base" and "1 \<le> factor" and "0 \<le> max_seconds"
  shows "rp_max_retries (policy_for c) \<le> 5
    \<and> (rp_max_retries (policy_for c) = 0 \<longrightarrow> rp_backoff_seconds (policy_for c) = 0)
    \<and> (rp_escalate_on_exhaust (policy_for c) \<longleftrightarrow> c \<noteq> AGENT_DRIFT)
    \<and> 0 \<le> exponential_backoff base factor jitter max_seconds u n
    \<and> exponential_backoff base factor jitter max_seconds u n \<le> max_seconds
    \<and> exponential_backoff base factor 0 max_seconds u n \<le> exponential_backoff base factor 0 max_seconds u (n + 1)"
  using backoff_bounds [OF assms(4), of base factor jitter u n] backoff_grows [OF assms(2,3) _ assms(4), of n "n + 1"]
  by (cases c) simp_all

end
