(* ===== verification/Stage_Reachability.thy ===== *)
theory Stage_Reachability
  imports Py_Base
begin

text \<open>
  \<open>core/workflow/reachability.py\<close>: which events a configuration can ever produce, computed as a fixpoint
  over role triggers and kernel transforms, and the declared stage events outside it. A configuration is its
  list of stage events and its roles; a frozen set is a set.
\<close>

section \<open>Configuration\<close>

record role_config =
  rc_name :: string
  rc_triggers :: "string list"
  rc_publishes :: "string list"

record stage_config =
  sc_dag_enabled :: bool
  sc_stage_order :: "string list"
  sc_roles :: "role_config list"

record reachability_report =
  rr_producible :: "string set"
  rr_unproducible_stage_events :: "string list"

definition seed_events :: "string set" where
  "seed_events = {''task.assigned''}"

definition kernel_transforms :: "(string \<times> string set) list" where
  "kernel_transforms = [(''dev.build.done'', {''static_gate.passed'', ''static_gate.failed'', ''static_gate.skipped''})]"

definition fanout_marker_events :: "string set" where
  "fanout_marker_events = {''task_map.ready'', ''candidate.ready''}"

definition report_ok :: "reachability_report \<Rightarrow> bool" where
  "report_ok r \<longleftrightarrow> rr_unproducible_stage_events r = []"

definition empty_report :: reachability_report where
  "empty_report = \<lparr>rr_producible = {}, rr_unproducible_stage_events = []\<rparr>"

section \<open>The fixpoint\<close>

definition stage_events :: "stage_config \<Rightarrow> string list" where
  "stage_events c = filter (\<lambda>ev. ev \<noteq> [] \<and> CHR ''.'' \<in> set ev) (sc_stage_order c)"

text \<open>The entry stage: the first stage event that is neither a seed nor made by the kernel; whoever publishes
  it fires without a trigger.\<close>

fun entry_stage :: "string list \<Rightarrow> string option" where
  "entry_stage [] = None"
| "entry_stage (ev # evs) =
     (if ev \<in> seed_events \<or> (\<exists>t \<in> set kernel_transforms. ev \<in> snd t) then entry_stage evs else Some ev)"

definition entry_roles :: "role_config list \<Rightarrow> string list \<Rightarrow> role_config list" where
  "entry_roles roles stage_order =
     (case entry_stage stage_order of None \<Rightarrow> [] | Some ev \<Rightarrow> filter (\<lambda>r. ev \<in> set (rc_publishes r)) roles)"

definition published :: "role_config list \<Rightarrow> string set" where
  "published rs = (\<Union>r \<in> set rs. set (rc_publishes r))"

fun kernel_pass :: "(string \<times> string set) list \<Rightarrow> string set \<Rightarrow> string set \<times> bool" where
  "kernel_pass [] P = (P, False)"
| "kernel_pass ((src, outs) # ts) P =
     (if src \<in> P \<and> \<not> outs \<subseteq> P then (fst (kernel_pass ts (P \<union> outs)), True) else kernel_pass ts P)"

fun role_pass :: "role_config list \<Rightarrow> string set \<Rightarrow> string set \<Rightarrow> string set \<times> string set \<times> bool" where
  "role_pass [] P F = (P, F, False)"
| "role_pass (r # rs) P F =
     (if rc_name r \<notin> F \<and> set (rc_triggers r) \<inter> P \<noteq> {}
      then (case role_pass rs (P \<union> set (rc_publishes r)) (insert (rc_name r) F) of (P', F', _) \<Rightarrow> (P', F', True))
      else role_pass rs P F)"

lemma kernel_pass_mono: "P \<subseteq> fst (kernel_pass ts P)"
  by (induction ts P rule: kernel_pass.induct) auto

lemma kernel_pass_unchanged: "\<not> snd (kernel_pass ts P) \<Longrightarrow> fst (kernel_pass ts P) = P \<and> (\<forall>(src, outs) \<in> set ts. src \<in> P \<longrightarrow> outs \<subseteq> P)"
  by (induction ts P rule: kernel_pass.induct) (auto split: if_splits)

lemma kernel_pass_progress: "snd (kernel_pass ts P) \<Longrightarrow> \<exists>t \<in> set ts. \<not> snd t \<subseteq> P \<and> snd t \<subseteq> fst (kernel_pass ts P)"
proof (induction ts P rule: kernel_pass.induct)
  case (2 src outs ts P)
  then show ?case using kernel_pass_mono [of "P \<union> outs" ts] by (auto split: if_splits)
qed simp

lemma role_pass_mono: "P \<subseteq> fst (role_pass rs P F) \<and> F \<subseteq> fst (snd (role_pass rs P F))
    \<and> fst (snd (role_pass rs P F)) \<subseteq> F \<union> rc_name ` set rs"
proof (induction rs P F rule: role_pass.induct)
  case (2 r rs P F)
  show ?case
  proof (cases "rc_name r \<notin> F \<and> set (rc_triggers r) \<inter> P \<noteq> {}")
    case True
    with 2(1) [OF True] show ?thesis by (auto split: prod.splits)
  next
    case False
    with 2(2) [OF False] show ?thesis by auto
  qed
qed simp

lemma role_pass_unchanged:
  "\<not> snd (snd (role_pass rs P F)) \<Longrightarrow> role_pass rs P F = (P, F, False)
     \<and> (\<forall>r \<in> set rs. rc_name r \<in> F \<or> set (rc_triggers r) \<inter> P = {})"
  by (induction rs P F rule: role_pass.induct) (auto split: if_splits prod.splits)

lemma role_pass_progress: "snd (snd (role_pass rs P F)) \<Longrightarrow> \<exists>r \<in> set rs. rc_name r \<notin> F \<and> rc_name r \<in> fst (snd (role_pass rs P F))"
proof (induction rs P F rule: role_pass.induct)
  case (2 r rs P F)
  show ?case
  proof (cases "rc_name r \<notin> F \<and> set (rc_triggers r) \<inter> P \<noteq> {}")
    case True
    have "rc_name r \<in> fst (snd (role_pass rs (P \<union> set (rc_publishes r)) (insert (rc_name r) F)))"
      using role_pass_mono [of "P \<union> set (rc_publishes r)" rs "insert (rc_name r) F"] by auto
    with True show ?thesis by (auto split: prod.splits)
  next
    case False
    with 2 show ?thesis by auto
  qed
qed simp

text \<open>What is left to do: transforms whose outputs are missing and roles that have not fired.\<close>

definition pending :: "role_config list \<Rightarrow> string set \<Rightarrow> string set \<Rightarrow> nat" where
  "pending roles P F =
     length (filter (\<lambda>t. \<not> snd t \<subseteq> P) kernel_transforms) + card (rc_name ` set roles - F)"

lemma length_filter_mono: "\<forall>x \<in> set xs. Q x \<longrightarrow> P x \<Longrightarrow> length (filter Q xs) \<le> length (filter P xs)"
  by (induction xs) (auto intro: le_SucI)

lemma length_filter_strict:
  "(\<And>x. x \<in> set xs \<Longrightarrow> Q x \<Longrightarrow> P x) \<Longrightarrow> x \<in> set xs \<Longrightarrow> P x \<Longrightarrow> \<not> Q x \<Longrightarrow> length (filter Q xs) < length (filter P xs)"
proof (induction xs)
  case (Cons y ys)
  have "length (filter Q ys) \<le> length (filter P ys)"
    using Cons.prems(1) by (intro length_filter_mono) auto
  with Cons show ?case by (auto simp: less_Suc_eq_le)
qed simp

lemma pending_decreases:
  assumes "kernel_pass kernel_transforms P = (P1, c1)" and "role_pass roles P1 F = (P2, F2, c2)" and "c1 \<or> c2"
  shows "pending roles P2 F2 < pending roles P F"
proof -
  have mono: "P \<subseteq> P1" "P1 \<subseteq> P2" "F \<subseteq> F2"
    using kernel_pass_mono [of P kernel_transforms] role_pass_mono [of P1 roles F] assms(1,2) by auto
  then have sub: "\<not> snd t \<subseteq> P2 \<Longrightarrow> \<not> snd t \<subseteq> P" for t :: "string \<times> string set" by auto
  have names: "rc_name ` set roles - F2 \<subseteq> rc_name ` set roles - F" using mono by auto
  have le: "length (filter (\<lambda>t. \<not> snd t \<subseteq> P2) kernel_transforms) \<le> length (filter (\<lambda>t. \<not> snd t \<subseteq> P) kernel_transforms)"
    "card (rc_name ` set roles - F2) \<le> card (rc_name ` set roles - F)"
    using sub names by (auto intro!: card_mono length_filter_mono)
  show ?thesis
  proof (cases c1)
    case True
    then obtain t where "t \<in> set kernel_transforms" "\<not> snd t \<subseteq> P" "snd t \<subseteq> P1"
      using kernel_pass_progress [of kernel_transforms P] assms(1) by auto
    then have "length (filter (\<lambda>t. \<not> snd t \<subseteq> P2) kernel_transforms) < length (filter (\<lambda>t. \<not> snd t \<subseteq> P) kernel_transforms)"
      using sub mono by (intro length_filter_strict [of _ _ _ t]) auto
    with le show ?thesis by (simp add: pending_def)
  next
    case False
    with assms(3) obtain r where "r \<in> set roles" "rc_name r \<notin> F" "rc_name r \<in> F2"
      using role_pass_progress [of roles P1 F] assms(2) by auto
    then have "rc_name ` set roles - F2 \<subset> rc_name ` set roles - F" using names by blast
    then have "card (rc_name ` set roles - F2) < card (rc_name ` set roles - F)" by (intro psubset_card_mono) auto
    with le show ?thesis by (simp add: pending_def)
  qed
qed

function saturate :: "role_config list \<Rightarrow> string set \<Rightarrow> string set \<Rightarrow> string set" where
  "saturate roles P F =
     (let (P1, c1) = kernel_pass kernel_transforms P; (P2, F2, c2) = role_pass roles P1 F
      in if c1 \<or> c2 then saturate roles P2 F2 else P2)"
  by pat_completeness auto
termination
  by (relation "measure (\<lambda>(roles, P, F). pending roles P F)") (auto intro: pending_decreases [OF sym sym])

declare saturate.simps [simp del]

definition check_stage_reachability :: "stage_config \<Rightarrow> reachability_report" where
  "check_stage_reachability c =
     (let stage_order = stage_events c; roles = sc_roles c in
      if \<not> sc_dag_enabled c \<or> stage_order = [] \<or> roles = [] then empty_report
      else if fanout_marker_events \<inter> set stage_order \<noteq> {} then empty_report
      else if \<exists>ev \<in> published roles. contains ev ''.child.'' then empty_report
      else
        (let entry = entry_roles roles stage_order;
             producible = saturate roles (seed_events \<union> published entry) (rc_name ` set entry)
         in \<lparr>rr_producible = producible, rr_unproducible_stage_events = filter (\<lambda>ev. ev \<notin> producible) stage_order\<rparr>))"

section \<open>The events that can be produced\<close>

inductive_set can_produce :: "role_config list \<Rightarrow> string set \<Rightarrow> string set"
  for roles and base where
  base: "ev \<in> base \<Longrightarrow> ev \<in> can_produce roles base"
| kernel: "src \<in> can_produce roles base \<Longrightarrow> (src, outs) \<in> set kernel_transforms \<Longrightarrow> ev \<in> outs \<Longrightarrow> ev \<in> can_produce roles base"
| role: "t \<in> can_produce roles base \<Longrightarrow> r \<in> set roles \<Longrightarrow> t \<in> set (rc_triggers r) \<Longrightarrow> ev \<in> set (rc_publishes r) \<Longrightarrow>
    ev \<in> can_produce roles base"

lemma kernel_pass_sound:
  "P \<subseteq> can_produce roles base \<Longrightarrow> set ts \<subseteq> set kernel_transforms \<Longrightarrow> fst (kernel_pass ts P) \<subseteq> can_produce roles base"
proof (induction ts P rule: kernel_pass.induct)
  case (2 src outs ts P)
  show ?case
  proof (cases "src \<in> P \<and> \<not> outs \<subseteq> P")
    case True
    then have "P \<union> outs \<subseteq> can_produce roles base"
      using 2 can_produce.kernel [of src roles base outs] by auto
    with True 2 show ?thesis by auto
  qed (use 2 in auto)
qed simp

lemma role_pass_sound:
  "P \<subseteq> can_produce roles base \<Longrightarrow> set rs \<subseteq> set roles \<Longrightarrow> fst (role_pass rs P F) \<subseteq> can_produce roles base"
proof (induction rs P F rule: role_pass.induct)
  case (2 r rs P F)
  show ?case
  proof (cases "rc_name r \<notin> F \<and> set (rc_triggers r) \<inter> P \<noteq> {}")
    case True
    then obtain t where "t \<in> set (rc_triggers r)" "t \<in> can_produce roles base" using 2 by auto
    then have "P \<union> set (rc_publishes r) \<subseteq> can_produce roles base"
      using 2 can_produce.role [of t roles base r] by auto
    with True 2 show ?thesis by (auto split: prod.splits)
  qed (use 2 in auto)
qed simp

text \<open>Whoever has fired has published.\<close>

definition fired_ok :: "role_config list \<Rightarrow> string set \<Rightarrow> string set \<Rightarrow> bool" where
  "fired_ok roles P F \<longleftrightarrow> (\<forall>r \<in> set roles. rc_name r \<in> F \<longrightarrow> set (rc_publishes r) \<subseteq> P)"

lemma role_pass_fired:
  assumes "distinct (map rc_name roles)"
  shows "fired_ok roles P F \<Longrightarrow> set rs \<subseteq> set roles \<Longrightarrow> fired_ok roles (fst (role_pass rs P F)) (fst (snd (role_pass rs P F)))"
proof (induction rs P F rule: role_pass.induct)
  case (2 r rs P F)
  show ?case
  proof (cases "rc_name r \<notin> F \<and> set (rc_triggers r) \<inter> P \<noteq> {}")
    case True
    have "r' = r" if "r' \<in> set roles" "rc_name r' = rc_name r" for r'
      using assms that "2.prems"(2) by (auto simp: distinct_map inj_on_def)
    then have "fired_ok roles (P \<union> set (rc_publishes r)) (insert (rc_name r) F)"
      using "2.prems"(1) by (auto simp: fired_ok_def)
    with True 2 show ?thesis by (auto split: prod.splits)
  qed (use 2 in auto)
qed simp

lemma saturate_exact:
  assumes "distinct (map rc_name roles)" and "base \<subseteq> P" and "P \<subseteq> can_produce roles base" and "fired_ok roles P F"
  shows "saturate roles P F = can_produce roles base"
  using assms
proof (induction roles P F rule: saturate.induct)
  case (1 roles P F)
  obtain P1 c1 where k: "kernel_pass kernel_transforms P = (P1, c1)" by fastforce
  obtain P2 F2 c2 where r: "role_pass roles P1 F = (P2, F2, c2)" by (metis prod.collapse)
  have P1: "P \<subseteq> P1" "P1 \<subseteq> can_produce roles base"
    using kernel_pass_mono [of P kernel_transforms] kernel_pass_sound [OF "1.prems"(3), of kernel_transforms] k by auto
  have P2: "P1 \<subseteq> P2" "P2 \<subseteq> can_produce roles base"
    using role_pass_mono [of P1 roles F] role_pass_sound [OF P1(2), of roles F] r by auto
  have "fired_ok roles P1 F" using "1.prems"(4) P1(1) by (auto simp: fired_ok_def)
  then have ok: "fired_ok roles P2 F2" using role_pass_fired [of roles P1 F roles] r "1.prems"(1) by simp
  show ?case
  proof (cases "c1 \<or> c2")
    case True
    then have "saturate roles P F = saturate roles P2 F2" by (subst saturate.simps) (simp add: k r)
    also have "\<dots> = can_produce roles base"
      using "1.IH" [OF k [symmetric] refl r [symmetric] refl refl True] "1.prems" P1 P2 ok by blast
    finally show ?thesis .
  next
    case False
    then have eq: "P1 = P" "P2 = P" "F2 = F" "\<forall>(src, outs) \<in> set kernel_transforms. src \<in> P \<longrightarrow> outs \<subseteq> P"
      "\<forall>q \<in> set roles. rc_name q \<in> F \<or> set (rc_triggers q) \<inter> P = {}"
      using kernel_pass_unchanged [of kernel_transforms P] role_pass_unchanged [of roles P1 F] k r by auto
    have "ev \<in> P" if "ev \<in> can_produce roles base" for ev
      using that
    proof induction
      case (role t q ev)
      then have "set (rc_publishes q) \<subseteq> P" using eq(5) "1.prems"(4) by (auto simp: fired_ok_def)
      with role show ?case by auto
    qed (use "1.prems"(2) eq(4) in auto)
    then have "P = can_produce roles base" using "1.prems"(3) by auto
    moreover have "saturate roles P F = P2" using False by (subst saturate.simps) (simp add: k r)
    ultimately show ?thesis using eq(2) by simp
  qed
qed

lemma check_exact:
  assumes "distinct (map rc_name (sc_roles c))" and "sc_dag_enabled c" and "stage_events c \<noteq> []" and "sc_roles c \<noteq> []"
    and "fanout_marker_events \<inter> set (stage_events c) = {}" and "\<forall>ev \<in> published (sc_roles c). \<not> contains ev ''.child.''"
    and "P = can_produce (sc_roles c) (seed_events \<union> published (entry_roles (sc_roles c) (stage_events c)))"
  shows "check_stage_reachability c =
      \<lparr>rr_producible = P, rr_unproducible_stage_events = filter (\<lambda>ev. ev \<notin> P) (stage_events c)\<rparr>"
proof -
  let ?e = "entry_roles (sc_roles c) (stage_events c)"
  have sub: "set ?e \<subseteq> set (sc_roles c)" by (auto simp: entry_roles_def split: option.splits)
  then have "fired_ok (sc_roles c) (seed_events \<union> published ?e) (rc_name ` set ?e)"
    using assms(1) by (force simp: fired_ok_def published_def distinct_map dest: inj_onD)
  then have "saturate (sc_roles c) (seed_events \<union> published ?e) (rc_name ` set ?e) = P"
    unfolding assms(7) by (intro saturate_exact [OF assms(1)]) (auto intro: can_produce.base)
  with assms(2-6) show ?thesis by (simp add: check_stage_reachability_def Let_def)
qed

text \<open>The entry stage as the module describes it: the first stage event that a role publishes. The events before it are made without roles, by the scheduler
  or by the kernel.\<close>

definition entry_published :: "stage_config \<Rightarrow> string \<Rightarrow> bool" where
  "entry_published c ev \<longleftrightarrow>
     (\<exists>skipped rest. stage_events c = skipped @ ev # rest
        \<and> (\<forall>s \<in> set skipped. (s \<in> seed_events \<or> (\<exists>t \<in> set kernel_transforms. s \<in> snd t)) \<and> s \<notin> published (sc_roles c)))
     \<and> ev \<in> published (sc_roles c) \<and> ev \<notin> seed_events \<and> (\<forall>t \<in> set kernel_transforms. ev \<notin> snd t)"

lemma entry_stage_skip:
  "\<forall>s \<in> set skipped. s \<in> seed_events \<or> (\<exists>t \<in> set kernel_transforms. s \<in> snd t) \<Longrightarrow> entry_stage (skipped @ evs) = entry_stage evs"
  by (induction skipped) auto

lemma published_entry_stage: "entry_published c ev \<Longrightarrow> entry_stage (stage_events c) = Some ev"
  by (auto simp: entry_published_def entry_stage_skip)

text \<open>C37: The reachability check is exact where the entry stage is what the module describes. Take a trigger-driven configuration with different role names,
  without fanout markers and child events, in which the first stage event that is neither the seed task.assigned nor made by the kernel is
  published by a role, and no role publishes a stage event before it. Then the computed set is the least set of events that holds the
  seed and what the publishers of this entry stage publish and is closed under the kernel transforms and under firing a role on one of its triggers; the report lists
  exactly the declared stage events outside it, in order, and the computation always ends. Without a publisher of that first event the code
  departs from its description, see reachability_unpublished_entry.\<close>

theorem reachability_exact:
  assumes "distinct (map rc_name (sc_roles c))" and "sc_dag_enabled c"
    and "fanout_marker_events \<inter> set (stage_events c) = {}" and "\<forall>ev \<in> published (sc_roles c). \<not> contains ev ''.child.''"
    and "entry_published c ev"
    and "P = can_produce (sc_roles c) (seed_events \<union> published (filter (\<lambda>r. ev \<in> set (rc_publishes r)) (sc_roles c)))"
  shows "check_stage_reachability c =
      \<lparr>rr_producible = P, rr_unproducible_stage_events = filter (\<lambda>ev. ev \<notin> P) (stage_events c)\<rparr>"
proof (rule check_exact [OF assms(1,2) _ _ assms(3,4)])
  show "stage_events c \<noteq> []" "sc_roles c \<noteq> []" using assms(5) by (auto simp: entry_published_def published_def)
  show "P = can_produce (sc_roles c) (seed_events \<union> published (entry_roles (sc_roles c) (stage_events c)))"
    using published_entry_stage [OF assms(5)] assms(6) by (simp add: entry_roles_def)
qed

definition demo_config :: stage_config where
  "demo_config = \<lparr>sc_dag_enabled = True, sc_stage_order = [''dev.build.done'', ''review.approved''],
     sc_roles = [\<lparr>rc_name = ''dev'', rc_triggers = [], rc_publishes = [''dev.build.done'']\<rparr>,
                 \<lparr>rc_name = ''review'', rc_triggers = [''static_gate.passed''], rc_publishes = [''review.approved'']\<rparr>]\<rparr>"

lemma demo_config_facts:
  "distinct (map rc_name (sc_roles demo_config))" "sc_dag_enabled demo_config"
  "stage_events demo_config = [''dev.build.done'', ''review.approved'']" "sc_roles demo_config \<noteq> []"
  "\<forall>ev \<in> published (sc_roles demo_config). \<not> contains ev ''.child.''"
  by (simp_all add: demo_config_def stage_events_def published_def startswith_def)

lemma demo_entry: "entry_published demo_config ''dev.build.done''"
  unfolding entry_published_def
  by (intro conjI exI [of _ "[]"] exI [of _ "[''review.approved'']"])
    (simp_all add: demo_config_facts published_def seed_events_def kernel_transforms_def, simp add: demo_config_def)

theorem reachability_exact_witness:
  "report_ok (check_stage_reachability demo_config)"
proof -
  let ?B = "seed_events \<union> published (filter (\<lambda>r. ''dev.build.done'' \<in> set (rc_publishes r)) (sc_roles demo_config))"
  let ?P = "can_produce (sc_roles demo_config) ?B"
  have "check_stage_reachability demo_config =
      \<lparr>rr_producible = ?P, rr_unproducible_stage_events = filter (\<lambda>ev. ev \<notin> ?P) (stage_events demo_config)\<rparr>"
    by (rule reachability_exact [OF demo_config_facts(1,2) _ demo_config_facts(5) demo_entry refl])
      (simp add: demo_config_facts fanout_marker_events_def)
  moreover have dev: "''dev.build.done'' \<in> ?P"
    by (rule can_produce.base)
      (simp add: published_def demo_config_def)
  moreover have "''static_gate.passed'' \<in> ?P"
    by (rule can_produce.kernel [OF dev]) (auto simp: kernel_transforms_def)
  then have "''review.approved'' \<in> ?P"
    by (rule can_produce.role [where r = "sc_roles demo_config ! 1"]) (simp_all add: demo_config_def)
  ultimately show ?thesis by (simp add: report_ok_def demo_config_facts)
qed

text \<open>A stage that nobody publishes hides every entry point. The module says the entry stage is the first
  stage event published by a role; the code takes the first one that is neither a seed nor made by the
  kernel. If no role publishes that one and no role waits for \<open>task.assigned\<close>, nothing but the seed counts as
  producible, and every other stage event is reported, also one a role could publish as its first work.\<close>

lemma reachability_unpublished_entry:
  assumes "distinct (map rc_name (sc_roles c))" and "sc_dag_enabled c" and "stage_events c \<noteq> []" and "sc_roles c \<noteq> []"
    and "fanout_marker_events \<inter> set (stage_events c) = {}" and "\<forall>ev \<in> published (sc_roles c). \<not> contains ev ''.child.''"
    and "entry_stage (stage_events c) = Some ev0" and "ev0 \<notin> published (sc_roles c)"
    and "\<forall>r \<in> set (sc_roles c). ''task.assigned'' \<notin> set (rc_triggers r)"
  shows "rr_unproducible_stage_events (check_stage_reachability c) = filter (\<lambda>ev. ev \<noteq> ''task.assigned'') (stage_events c)"
proof -
  have "entry_roles (sc_roles c) (stage_events c) = []"
    using assms(7,8) by (auto simp: entry_roles_def published_def filter_empty_conv)
  then have base: "seed_events \<union> published (entry_roles (sc_roles c) (stage_events c)) = {''task.assigned''}"
    by (simp add: published_def seed_events_def)
  have "ev = ''task.assigned''" if "ev \<in> can_produce (sc_roles c) {''task.assigned''}" for ev
    using that by induction (use assms(9) in \<open>auto simp: kernel_transforms_def\<close>)
  then have "can_produce (sc_roles c) {''task.assigned''} = {''task.assigned''}" by (auto intro: can_produce.base)
  with check_exact [OF assms(1-6) refl] base show ?thesis by simp
qed

end
