(* ===== verification/Nonce.thy ===== *)
theory Nonce
  imports Py_Base
begin

text \<open>
  \<open>core/security/nonce.py\<close>: single-use nonces kept as files. A directory is the files of \<open>unused/\<close>,
  of \<open>used/\<close> and of the root (the legacy place), each by name with its JSON value, \<open>None\<close> for text
  that is no JSON. Times are whole seconds; the name of a new nonce is an argument.
\<close>

section \<open>Directory\<close>

type_synonym nonce_files = "(string \<times> json option) list"

record nonce_dir =
  nd_unused :: nonce_files
  nd_used :: nonce_files
  nd_root :: nonce_files

datatype nonce_place = Unused | Root

fun files_at :: "nonce_place \<Rightarrow> nonce_dir \<Rightarrow> nonce_files" where
  "files_at Unused d = nd_unused d"
| "files_at Root d = nd_root d"

fun with_files :: "nonce_place \<Rightarrow> nonce_files \<Rightarrow> nonce_dir \<Rightarrow> nonce_dir" where
  "with_files Unused fs d = d\<lparr>nd_unused := fs\<rparr>"
| "with_files Root fs d = d\<lparr>nd_root := fs\<rparr>"

definition without :: "string \<Rightarrow> nonce_files \<Rightarrow> nonce_files" where
  "without n fs = filter (\<lambda>f. fst f \<noteq> n) fs"

definition exists_at :: "nonce_place \<Rightarrow> string \<Rightarrow> nonce_dir \<Rightarrow> bool" where
  "exists_at p n d \<longleftrightarrow> map_of (files_at p d) n \<noteq> None"

definition nonce_path :: "string \<Rightarrow> nonce_dir \<Rightarrow> nonce_place" where
  "nonce_path n d = (if exists_at Unused n d then Unused else if exists_at Root n d then Root else Unused)"

section \<open>Operations\<close>

definition issue :: "int \<Rightarrow> string \<Rightarrow> string \<Rightarrow> nonce_dir \<Rightarrow> nonce_dir" where
  "issue now role n d =
     d\<lparr>nd_unused := AList.update n
        (Some (JObj [(''role'', JStr role), (''issued_at'', JInt now), (''used'', JBool False)])) (nd_unused d)\<rparr>"

definition is_expired :: "int \<Rightarrow> int \<Rightarrow> pydict \<Rightarrow> bool res" where
  "is_expired ttl now meta =
     (case map_of meta ''issued_at'' of
        None \<Rightarrow> Inl (KeyError ''issued_at'')
      | Some (JInt t) \<Rightarrow> Inr (ttl < now - t)
      | Some (JBool b) \<Rightarrow> Inr (ttl < now - (if b then 1 else 0))
      | Some _ \<Rightarrow> Inl (TypeError ''unsupported operand''))"

text \<open>The checks both validating operations make: the place and the metadata of a valid nonce.\<close>

definition read_nonce :: "int \<Rightarrow> int \<Rightarrow> string \<Rightarrow> nonce_place \<Rightarrow> nonce_dir \<Rightarrow> pydict option res" where
  "read_nonce ttl now n src d =
     (case map_of (files_at src d) n of
        None \<Rightarrow> Inl (OSError ''No such file or directory'')
      | Some None \<Rightarrow> Inr None
      | Some (Some (JObj meta)) \<Rightarrow>
          if truthy (dict_get meta ''used'') then Inr None
          else map_sum id (\<lambda>expired. if expired then None else Some meta) (is_expired ttl now meta)
      | Some (Some _) \<Rightarrow> Inl (AttributeError ''get''))"

definition nonce_check :: "int \<Rightarrow> int \<Rightarrow> string \<Rightarrow> nonce_dir \<Rightarrow> (nonce_place \<times> pydict) option res" where
  "nonce_check ttl now n d =
     (let src = nonce_path n d in
      if \<not> exists_at src n d then Inr None
      else map_sum id (map_option (Pair src)) (read_nonce ttl now n src d))"

text \<open>The rename to \<open>used/\<close>; it fails if the file is gone.\<close>

definition nonce_claim :: "nonce_place \<Rightarrow> pydict \<Rightarrow> string \<Rightarrow> nonce_dir \<Rightarrow> bool \<times> nonce_dir" where
  "nonce_claim src meta n d =
     (if exists_at src n d
      then (True, with_files src (without n (files_at src d))
              (d\<lparr>nd_used := AList.update n (Some (JObj (dict_set meta ''used'' (JBool True)))) (nd_used d)\<rparr>))
      else (False, d))"

definition validate_and_consume :: "int \<Rightarrow> int \<Rightarrow> string \<Rightarrow> nonce_dir \<Rightarrow> (bool \<times> nonce_dir) res" where
  "validate_and_consume ttl now n d =
     res_bind (nonce_check ttl now n d) (\<lambda>r.
       case r of None \<Rightarrow> Inr (False, d) | Some (src, meta) \<Rightarrow> Inr (nonce_claim src meta n d))"

definition validate_nonce :: "int \<Rightarrow> int \<Rightarrow> string \<Rightarrow> nonce_dir \<Rightarrow> bool res" where
  "validate_nonce ttl now n d = map_sum id (\<lambda>r. r \<noteq> None) (nonce_check ttl now n d)"

definition consume_nonce :: "string \<Rightarrow> nonce_dir \<Rightarrow> nonce_dir res" where
  "consume_nonce n d =
     (let p = nonce_path n d in
      (case map_of (files_at p d) n of
         None \<Rightarrow> Inr d
       | Some None \<Rightarrow> Inr d
       | Some (Some (JObj meta)) \<Rightarrow>
           Inr (with_files p (AList.update n (Some (JObj (dict_set meta ''used'' (JBool True)))) (files_at p d)) d)
       | Some (Some _) \<Rightarrow> Inl (TypeError ''item assignment'')))"

text \<open>Expired and unreadable files go; a file without \<open>issued_at\<close> counts as unreadable.\<close>

definition removable :: "int \<Rightarrow> int \<Rightarrow> json option \<Rightarrow> bool res" where
  "removable ttl now content =
     (case content of
        None \<Rightarrow> Inr True
      | Some (JObj meta) \<Rightarrow>
          (case is_expired ttl now meta of Inl (KeyError _) \<Rightarrow> Inr True | r \<Rightarrow> r)
      | Some _ \<Rightarrow> Inl (TypeError ''indices''))"

fun clean_files :: "int \<Rightarrow> int \<Rightarrow> nonce_files \<Rightarrow> nonce_files res" where
  "clean_files ttl now [] = Inr []"
| "clean_files ttl now ((n, content) # fs) =
     res_bind (removable ttl now content) (\<lambda>gone.
     map_sum id (\<lambda>rest. if gone then rest else (n, content) # rest) (clean_files ttl now fs))"

definition cleanup :: "int \<Rightarrow> int \<Rightarrow> nonce_dir \<Rightarrow> (nat \<times> nonce_dir) res" where
  "cleanup ttl now d =
     res_bind (clean_files ttl now (nd_unused d)) (\<lambda>unused.
     res_bind (clean_files ttl now (nd_used d)) (\<lambda>used.
     res_bind (clean_files ttl now (nd_root d)) (\<lambda>root.
     Inr (length (nd_unused d) - length unused + (length (nd_used d) - length used) + (length (nd_root d) - length root),
          \<lparr>nd_unused = unused, nd_used = used, nd_root = root\<rparr>))))"

section \<open>Callers in parallel\<close>

text \<open>A call of \<open>validate_and_consume\<close> looks for the file, reads it, and renames it, in three steps;
  other callers and clean-ups run in between, and a file that is gone when it is to be read raises.\<close>

datatype caller = Start | Located nonce_place | Checked nonce_place pydict | Finished bool | Raised py_error

type_synonym nonce_state = "nonce_dir \<times> (nat \<Rightarrow> caller)"

inductive nonce_step :: "int \<Rightarrow> string \<Rightarrow> nonce_state \<Rightarrow> nonce_state \<Rightarrow> bool" for ttl n where
  absent: "cs i = Start \<Longrightarrow> \<not> exists_at (nonce_path n d) n d \<Longrightarrow> nonce_step ttl n (d, cs) (d, cs(i := Finished False))"
| locate: "cs i = Start \<Longrightarrow> exists_at (nonce_path n d) n d \<Longrightarrow> nonce_step ttl n (d, cs) (d, cs(i := Located (nonce_path n d)))"
| refuse: "cs i = Located p \<Longrightarrow> read_nonce ttl now n p d = Inr None \<Longrightarrow> nonce_step ttl n (d, cs) (d, cs(i := Finished False))"
| check: "cs i = Located p \<Longrightarrow> read_nonce ttl now n p d = Inr (Some meta) \<Longrightarrow> nonce_step ttl n (d, cs) (d, cs(i := Checked p meta))"
| lost: "cs i = Located p \<Longrightarrow> read_nonce ttl now n p d = Inl e \<Longrightarrow> nonce_step ttl n (d, cs) (d, cs(i := Raised e))"
| claim: "cs i = Checked p meta \<Longrightarrow> nonce_claim p meta n d = (b, d') \<Longrightarrow> nonce_step ttl n (d, cs) (d', cs(i := Finished b))"
| clean: "cleanup ttl now d = Inr (k, d') \<Longrightarrow> nonce_step ttl n (d, cs) (d', cs)"

inductive_cases nonce_stepE: "nonce_step ttl n (d, cs) s'"

definition once_inv :: "string \<Rightarrow> nonce_state \<Rightarrow> bool" where
  "once_inv n s \<longleftrightarrow>
     \<not> (exists_at Unused n (fst s) \<and> exists_at Root n (fst s))
     \<and> (\<forall>i. snd s i = Finished True \<longrightarrow> (\<forall>p. \<not> exists_at p n (fst s)))
     \<and> (\<forall>i j. snd s i = Finished True \<and> snd s j = Finished True \<longrightarrow> i = j)"

lemma exists_iff: "exists_at p n d \<longleftrightarrow> n \<in> fst ` set (files_at p d)"
  by (simp add: exists_at_def map_of_eq_None_iff del: not_None_eq)

lemma clean_files_subset: "clean_files ttl now fs = Inr fs' \<Longrightarrow> fst ` set fs' \<subseteq> fst ` set fs"
proof (induction fs arbitrary: fs')
  case (Cons f fs)
  then show ?case by (cases f; cases "clean_files ttl now fs") (force simp: res_bind_Inr split: if_splits)+
qed simp

lemma cleanup_removes:
  assumes "cleanup ttl now d = Inr (k, d')" and "exists_at p n d'"
  shows "exists_at p n d"
proof -
  have "clean_files ttl now (files_at p d) = Inr (files_at p d')"
    using assms(1) by (cases p) (auto simp: cleanup_def res_bind_Inr)
  from clean_files_subset [OF this] assms(2) show ?thesis by (auto simp only: exists_iff)
qed

lemma map_of_without [simp]: "map_of (without n fs) m = (if m = n then None else map_of fs m)"
  unfolding without_def by (induction fs) auto

lemma files_with [simp]:
  "files_at q (with_files p fs d) = (if q = p then fs else files_at q d)"
  "files_at q (d\<lparr>nd_used := u\<rparr>) = files_at q d"
  by (cases p; cases q; simp)+

lemma claim_places:
  "nonce_claim p meta n d = (b, d') \<Longrightarrow> exists_at q n d' \<longleftrightarrow> exists_at q n d \<and> (b \<longrightarrow> q \<noteq> p)"
  "nonce_claim p meta n d = (b, d') \<Longrightarrow> b \<longleftrightarrow> exists_at p n d"
  by (auto simp: nonce_claim_def exists_at_def split: if_splits)

lemma step_once:
  assumes "nonce_step ttl n s s'" and "once_inv n s"
  shows "once_inv n s'"
  using assms
proof cases
  case (claim cs i p meta d b d')
  note cl = claim_places [OF claim(4)]
  show ?thesis
  proof (cases b)
    case True
    then have "exists_at p n d" using cl(2) by simp
    with assms(2) claim have none: "\<And>j. cs j \<noteq> Finished True" and "\<And>q. q \<noteq> p \<Longrightarrow> \<not> exists_at q n d"
      by (auto simp: once_inv_def) (metis (full_types) nonce_place.exhaust)+
    then have "\<not> exists_at q n d'" for q using cl(1) [of q] True by blast
    with none claim show ?thesis by (auto simp: once_inv_def)
  next
    case False
    then have "exists_at q n d' \<longleftrightarrow> exists_at q n d" for q using cl(1) by simp
    with assms(2) claim False show ?thesis by (auto simp: once_inv_def)
  qed
next
  case (clean now d k d' cs)
  have sub: "exists_at p n d' \<Longrightarrow> exists_at p n d" for p using cleanup_removes [OF clean(3)] .
  from assms(2) clean(1,2) show ?thesis unfolding once_inv_def by simp (use sub in blast)
qed (auto simp: once_inv_def)

text \<open>C30: a nonce is consumed at most once. However many callers validate and consume the same nonce at the same
  time, with their look-ups, reads and renames interleaved in any way and clean-ups in between, at most one of
  them gets \<open>True\<close>, and once one has, the nonce is gone for all later callers. (A caller whose file is
  renamed between its look-up and its read raises.)\<close>

theorem nonce_consumed_once:
  assumes "(nonce_step ttl n)\<^sup>*\<^sup>* (d, \<lambda>_. Start) (d', cs)" and "\<not> (exists_at Unused n d \<and> exists_at Root n d)"
  shows "(\<forall>i j. cs i = Finished True \<and> cs j = Finished True \<longrightarrow> i = j)
    \<and> (\<forall>i now. cs i = Finished True \<longrightarrow> validate_and_consume ttl now n d' = Inr (False, d'))"
proof -
  have "once_inv n (d, \<lambda>_. Start)" using assms(2) by (simp add: once_inv_def)
  with assms(1) have "once_inv n (d', cs)"
    by (induction rule: rtranclp_induct) (auto intro: step_once)
  moreover have "validate_and_consume ttl now n d' = Inr (False, d')" if "\<forall>p. \<not> exists_at p n d'" for now
  proof -
    have "\<not> exists_at (nonce_path n d') n d'" using that by blast
    then show ?thesis by (simp add: validate_and_consume_def nonce_check_def Let_def)
  qed
  ultimately show ?thesis by (auto simp: once_inv_def)
qed

definition demo_nonces :: nonce_dir where
  "demo_nonces = issue 100 ''dev'' ''n1'' \<lparr>nd_unused = [], nd_used = [], nd_root = []\<rparr>"

theorem nonce_consumed_once_witness:
  "\<exists>d' cs. (nonce_step 300 ''n1'')\<^sup>*\<^sup>* (demo_nonces, \<lambda>_. Start) (d', cs) \<and> cs (0::nat) = Finished True \<and> cs (1::nat) = Finished False
     \<and> validate_and_consume 300 200 ''n1'' d' = Inr (False, d')"
proof -
  let ?m = "[(''role'', JStr ''dev''), (''issued_at'', JInt 100), (''used'', JBool False)]"
  have ex: "exists_at Unused ''n1'' demo_nonces" "\<not> exists_at Root ''n1'' demo_nonces"
    by (simp_all add: exists_at_def demo_nonces_def issue_def)
  have here: "nonce_path ''n1'' demo_nonces = Unused" using ex by (simp add: nonce_path_def)
  have rd: "read_nonce 300 150 ''n1'' Unused demo_nonces = Inr (Some ?m)"
    by (simp add: read_nonce_def demo_nonces_def issue_def is_expired_def)
  obtain d' where d': "nonce_claim Unused ?m ''n1'' demo_nonces = (True, d')"
    using ex by (auto simp: nonce_claim_def)
  then have gone: "nonce_claim Unused ?m ''n1'' d' = (False, d')"
    using claim_places(1) [OF d', of Unused] by (simp add: nonce_claim_def)
  let ?b1 = "(\<lambda>_. Start)((0::nat) := Located Unused)"
  let ?b2 = "?b1((1::nat) := Located Unused)"
  let ?c1 = "?b2((0::nat) := Checked Unused ?m)"
  let ?c2 = "?c1((1::nat) := Checked Unused ?m)"
  let ?c3 = "?c2((0::nat) := Finished True)"
  let ?c4 = "?c3((1::nat) := Finished False)"
  have loc: "nonce_step 300 ''n1'' (demo_nonces, cs) (demo_nonces, cs(i := Located Unused))" if "cs i = Start" for cs i
    using locate [of cs i "''n1''" demo_nonces 300] that here ex(1) by simp
  have "nonce_step 300 ''n1'' (demo_nonces, \<lambda>_. Start) (demo_nonces, ?b1)" by (rule loc) simp
  moreover have "nonce_step 300 ''n1'' (demo_nonces, ?b1) (demo_nonces, ?b2)" by (rule loc) simp
  moreover have "nonce_step 300 ''n1'' (demo_nonces, ?b2) (demo_nonces, ?c1)" by (rule check [OF _ rd]) simp
  moreover have "nonce_step 300 ''n1'' (demo_nonces, ?c1) (demo_nonces, ?c2)" by (rule check [OF _ rd]) simp
  moreover have "nonce_step 300 ''n1'' (demo_nonces, ?c2) (d', ?c3)" by (rule claim [OF _ d']) simp
  moreover have "nonce_step 300 ''n1'' (d', ?c3) (d', ?c4)" by (rule claim [OF _ gone]) simp
  ultimately have run: "(nonce_step 300 ''n1'')\<^sup>*\<^sup>* (demo_nonces, \<lambda>_. Start) (d', ?c4)"
    by (meson converse_rtranclp_into_rtranclp rtranclp.rtrancl_refl)
  have "validate_and_consume 300 200 ''n1'' d' = Inr (False, d')"
  proof -
    have "?c4 (0::nat) = Finished True" by simp
    with nonce_consumed_once [OF run] ex show ?thesis by blast
  qed
  with run show ?thesis by (intro exI [of _ d'] exI [of _ ?c4]) auto
qed

end
