(* ===== verification/Locks.thy ===== *)
theory Locks
  imports Py_Base
begin

text \<open>
  \<open>core/state/locks.py\<close> and \<open>runtime/session_mutex.py\<close>: the advisory locks that every store takes around
  its read-modify-write, and the mutex of a provider session. A lock file is a name that may be bound to an
  inode; a kernel lock belongs to an inode and to the process whose open descriptor took it. A process that
  dies loses its descriptors and with them its lock. Processes interleave between any two system calls.
\<close>

section \<open>Files and kernel locks\<close>

record lock_fs =
  lf_path :: "nat option"
  lf_next :: nat
  lf_owner :: "nat \<Rightarrow> nat option"

definition empty_fs :: lock_fs where
  "empty_fs = \<lparr>lf_path = None, lf_next = 0, lf_owner = (\<lambda>_. None)\<rparr>"

definition lock_path_for :: "string \<Rightarrow> string" where
  "lock_path_for name = name @ ''.lock''"

text \<open>\<open>open("a+")\<close> and \<open>open("w")\<close> make the file when the name is free.\<close>

definition open_lock_file :: "lock_fs \<Rightarrow> nat \<times> lock_fs" where
  "open_lock_file f =
     (case lf_path f of
        Some i \<Rightarrow> (i, f)
      | None \<Rightarrow> (lf_next f, f\<lparr>lf_path := Some (lf_next f), lf_next := Suc (lf_next f)\<rparr>))"

definition flock_try :: "nat \<Rightarrow> nat \<Rightarrow> lock_fs \<Rightarrow> lock_fs option" where
  "flock_try p i f = (if lf_owner f i = None then Some (f\<lparr>lf_owner := (lf_owner f)(i := Some p)\<rparr>) else None)"

definition flock_unlock :: "nat \<Rightarrow> nat \<Rightarrow> lock_fs \<Rightarrow> lock_fs" where
  "flock_unlock p i f = (if lf_owner f i = Some p then f\<lparr>lf_owner := (lf_owner f)(i := None)\<rparr> else f)"

definition unlink_lock_file :: "lock_fs \<Rightarrow> lock_fs" where
  "unlink_lock_file f = f\<lparr>lf_path := None\<rparr>"

section \<open>The two protocols\<close>

text \<open>Where a process is: outside, with the file open, inside the locked section, after the unlock, after the
  close.\<close>

datatype lock_pc = Outside | Opened nat | Inside nat | Unlocked nat | Closed

type_synonym lock_state = "lock_fs \<times> (nat \<Rightarrow> lock_pc)"

definition start :: lock_state where
  "start = (empty_fs, \<lambda>_. Outside)"

fun open_inode :: "lock_pc \<Rightarrow> nat option" where
  "open_inode (Opened i) = Some i"
| "open_inode (Inside i) = Some i"
| "open_inode (Unlocked i) = Some i"
| "open_inode _ = None"

text \<open>\<open>FileLock\<close>: the blocking wait and the polling loop are both the process staying \<open>Opened\<close> until the lock is
  free; with a timeout it may give up. The file stays.\<close>

inductive file_step :: "bool \<Rightarrow> lock_state \<Rightarrow> lock_state \<Rightarrow> bool" for timeout where
  file_open: "pc p = Outside \<Longrightarrow> open_lock_file f = (i, f') \<Longrightarrow> file_step timeout (f, pc) (f', pc(p := Opened i))"
| file_acquire: "pc p = Opened i \<Longrightarrow> flock_try p i f = Some f' \<Longrightarrow> file_step timeout (f, pc) (f', pc(p := Inside i))"
| file_give_up: "pc p = Opened i \<Longrightarrow> flock_try p i f = None \<Longrightarrow> timeout \<Longrightarrow> file_step timeout (f, pc) (f, pc(p := Outside))"
| file_release: "pc p = Inside i \<Longrightarrow> file_step timeout (f, pc) (flock_unlock p i f, pc(p := Unlocked i))"
| file_close: "pc p = Unlocked i \<Longrightarrow> file_step timeout (f, pc) (f, pc(p := Outside))"
| file_crash: "open_inode (pc p) = Some i \<Longrightarrow> file_step timeout (f, pc) (flock_unlock p i f, pc(p := Outside))"

text \<open>\<open>SessionLock\<close>: one attempt, \<open>SessionLockBusy\<close> when the lock is taken; leaving removes the file.\<close>

inductive session_step :: "lock_state \<Rightarrow> lock_state \<Rightarrow> bool" where
  session_open: "pc p = Outside \<Longrightarrow> open_lock_file f = (i, f') \<Longrightarrow> session_step (f, pc) (f', pc(p := Opened i))"
| session_acquire: "pc p = Opened i \<Longrightarrow> flock_try p i f = Some f' \<Longrightarrow> session_step (f, pc) (f', pc(p := Inside i))"
| session_busy: "pc p = Opened i \<Longrightarrow> flock_try p i f = None \<Longrightarrow> session_step (f, pc) (f, pc(p := Outside))"
| session_release: "pc p = Inside i \<Longrightarrow> session_step (f, pc) (flock_unlock p i f, pc(p := Unlocked i))"
| session_close: "pc p = Unlocked i \<Longrightarrow> session_step (f, pc) (f, pc(p := Closed))"
| session_unlink: "pc p = Closed \<Longrightarrow> session_step (f, pc) (unlink_lock_file f, pc(p := Outside))"
| session_crash: "open_inode (pc p) = Some i \<Longrightarrow> session_step (f, pc) (flock_unlock p i f, pc(p := Outside))"

section \<open>Exclusion\<close>

definition exclusive :: "lock_state \<Rightarrow> bool" where
  "exclusive s \<longleftrightarrow> (\<forall>p q i j. snd s p = Inside i \<and> snd s q = Inside j \<longrightarrow> p = q)"

text \<open>The owners of kernel locks are the processes inside, and whoever has the file open has the one the name
  is bound to.\<close>

definition lock_inv :: "lock_state \<Rightarrow> bool" where
  "lock_inv s \<longleftrightarrow>
     (\<forall>p i. snd s p = Inside i \<longleftrightarrow> lf_owner (fst s) i = Some p)
     \<and> (\<forall>p i. open_inode (snd s p) = Some i \<longrightarrow> lf_path (fst s) = Some i)"

lemma lock_invI:
  assumes "\<And>p i. pc p = Inside i \<longleftrightarrow> lf_owner f i = Some p"
    and "\<And>p i. open_inode (pc p) = Some i \<Longrightarrow> lf_path f = Some i"
  shows "lock_inv (f, pc)"
  using assms by (simp add: lock_inv_def)

lemma lock_invD:
  assumes "lock_inv (f, pc)"
  shows "pc p = Inside i \<longleftrightarrow> lf_owner f i = Some p" and "open_inode (pc p) = Some i \<Longrightarrow> lf_path f = Some i"
  using assms by (simp_all add: lock_inv_def)

lemma lock_inv_exclusive:
  assumes "lock_inv s"
  shows "exclusive s"
proof (cases s)
  case (Pair f pc)
  note inv = lock_invD [OF assms [unfolded Pair]]
  have "p = q" if "pc p = Inside i" "pc q = Inside j" for p q i j
  proof -
    have "lf_path f = Some i" "lf_path f = Some j" using inv(2) [of p i] inv(2) [of q j] that by simp_all
    then have "lf_owner f i = Some p" "lf_owner f i = Some q" using inv(1) that by simp_all
    then show ?thesis by simp
  qed
  then show ?thesis unfolding Pair exclusive_def snd_conv by blast
qed

lemma lock_inv_start: "lock_inv start"
  by (simp add: lock_inv_def start_def empty_fs_def)

lemma lock_inv_open:
  assumes "lock_inv (f, pc)" and "pc p = Outside" and "open_lock_file f = (i, f')"
  shows "lock_inv (f', pc(p := Opened i))"
proof -
  have f': "lf_owner f' = lf_owner f" "lf_path f' = Some i" "\<And>j. lf_path f = Some j \<Longrightarrow> j = i"
    using assms(3) by (auto simp: open_lock_file_def split: option.splits)
  have "lf_owner f j \<noteq> Some p" for j using lock_invD(1) [OF assms(1), of p] assms(2) by simp
  then show ?thesis using f' lock_invD [OF assms(1)] by (intro lock_invI) (auto split: if_splits)
qed

lemma lock_inv_acquire:
  assumes "lock_inv (f, pc)" and "pc p = Opened i" and "flock_try p i f = Some f'"
  shows "lock_inv (f', pc(p := Inside i))"
proof -
  have f': "lf_owner f i = None" "f' = f\<lparr>lf_owner := (lf_owner f)(i := Some p)\<rparr>"
    using assms(3) by (auto simp: flock_try_def split: if_splits)
  have path: "lf_path f = Some i" and none: "lf_owner f j \<noteq> Some p" for j
    using lock_invD(2) [OF assms(1), of p i] lock_invD(1) [OF assms(1), of p] assms(2) by simp_all
  show ?thesis
  proof (rule lock_invI)
    show "(pc(p := Inside i)) q = Inside j \<longleftrightarrow> lf_owner f' j = Some q" for q j
      using f' none by (cases "q = p"; cases "j = i") (simp_all add: lock_invD(1) [OF assms(1)])
    show "lf_path f' = Some j" if "open_inode ((pc(p := Inside i)) q) = Some j" for q j
      using that f' path lock_invD(2) [OF assms(1), of q j] by (cases "q = p") simp_all
  qed
qed

lemma unlocked_owner:
  assumes "lock_inv (f, pc)" and "open_inode (pc p) = Some i"
  shows "lf_owner (flock_unlock p i f) j = (if lf_owner f j = Some p then None else lf_owner f j)"
    and "lf_path (flock_unlock p i f) = lf_path f"
proof -
  have "j = i" if "lf_owner f j = Some p"
  proof -
    have "pc p = Inside j" using lock_invD(1) [OF assms(1)] that by blast
    with assms(2) show ?thesis by simp
  qed
  then show "lf_owner (flock_unlock p i f) j = (if lf_owner f j = Some p then None else lf_owner f j)"
    by (cases "lf_owner f j = Some p") (force simp: flock_unlock_def)+
qed (simp add: flock_unlock_def)

lemma lock_inv_drop:
  assumes "lock_inv (f, pc)" and "open_inode (pc p) = Some i" and "pc' = Outside \<or> pc' = Unlocked i"
  shows "lock_inv (flock_unlock p i f, pc(p := pc'))"
  using assms(3) lock_invD(2) [OF assms(1,2)] lock_invD [OF assms(1)] unlocked_owner [OF assms(1,2)]
  by (intro lock_invI) (auto split: if_splits)

lemma lock_inv_leave:
  assumes "lock_inv (f, pc)" and "open_inode pc' = None" and "\<And>i. pc p \<noteq> Inside i"
  shows "lock_inv (f, pc(p := pc'))"
  using assms(2,3) lock_invD [OF assms(1)] by (intro lock_invI) (cases pc'; auto split: if_splits)+

lemmas lock_inv_intros = lock_inv_open lock_inv_acquire lock_inv_drop lock_inv_leave

lemma file_step_inv: "file_step timeout s s' \<Longrightarrow> lock_inv s \<Longrightarrow> lock_inv s'"
  by (induction rule: file_step.induct) (auto intro: lock_inv_intros)

text \<open>A session lock keeps the invariant as long as nobody has the file open when it is removed.\<close>

definition quiet :: "lock_state \<Rightarrow> lock_state \<Rightarrow> bool" where
  "quiet s s' \<longleftrightarrow> session_step s s' \<and>
     (lf_path (fst s') = None \<longrightarrow> (\<forall>q. open_inode (snd s' q) = None))"

lemma quiet_inv:
  assumes "quiet s s'" and "lock_inv s"
  shows "lock_inv s'"
proof -
  from assms(1) have "session_step s s'" by (simp add: quiet_def)
  then show ?thesis using assms
  proof cases
    case (session_unlink pc p f)
    have none: "open_inode (pc q) = None" for q
      using assms(1) session_unlink by (cases "q = p") (auto simp: quiet_def unlink_lock_file_def dest: spec [of _ q])
    then have "pc q \<noteq> Inside i" for q i by (metis open_inode.simps(2) option.distinct(1))
    with none show ?thesis using session_unlink assms(2) lock_invD(1) [of f pc]
      by (auto intro!: lock_invI simp: unlink_lock_file_def split: if_splits)
  qed (auto intro: lock_inv_intros)
qed

lemma quiet_exclusive:
  assumes "quiet\<^sup>*\<^sup>* start s"
  shows "exclusive s"
  using assms by (intro lock_inv_exclusive, induction rule: rtranclp_induct) (auto intro: lock_inv_start quiet_inv)

text \<open>C24: a file lock excludes. However many processes lock the same state file, with their system calls interleaved
  in any way, some giving up after a timeout and some dying inside, at most one of them is in the locked
  section; and when none is, a process that waits with the file open can enter.\<close>

theorem file_lock_exclusive:
  assumes "(file_step timeout)\<^sup>*\<^sup>* start s"
  shows "exclusive s
    \<and> (\<forall>p i. snd s p = Opened i \<and> (\<forall>q j. snd s q \<noteq> Inside j) \<longrightarrow> (\<exists>s'. file_step timeout s s' \<and> snd s' p = Inside i))"
proof -
  have inv: "lock_inv s"
    using assms by (induction rule: rtranclp_induct) (auto intro: lock_inv_start file_step_inv)
  have "\<exists>s'. file_step timeout s s' \<and> snd s' p = Inside i" if wait: "snd s p = Opened i" and free: "\<forall>q j. snd s q \<noteq> Inside j" for p i
  proof (cases s)
    case (Pair f pc)
    then have "lf_owner f i = None" using lock_invD(1) [OF inv [unfolded Pair], of _ i] free by (cases "lf_owner f i") auto
    then have "flock_try p i f = Some (f\<lparr>lf_owner := (lf_owner f)(i := Some p)\<rparr>)" by (simp add: flock_try_def)
    from file_acquire [OF _ this, of pc] wait Pair show ?thesis by force
  qed
  then show ?thesis using lock_inv_exclusive [OF inv] by blast
qed

theorem file_lock_exclusive_witness:
  "\<exists>s. (file_step True)\<^sup>*\<^sup>* start s \<and> snd s 0 = Inside 0 \<and> snd s 1 = Opened 0 \<and> exclusive s"
proof -
  let ?f1 = "empty_fs\<lparr>lf_path := Some 0, lf_next := 1\<rparr>"
  let ?f2 = "?f1\<lparr>lf_owner := (lf_owner ?f1)(0 := Some 0)\<rparr>"
  let ?c1 = "(\<lambda>_. Outside)((0::nat) := Opened 0)"
  let ?c2 = "?c1((1::nat) := Opened 0)"
  let ?c3 = "?c2(0 := Inside 0)"
  have "file_step True start (?f1, ?c1)"
    unfolding start_def by (rule file_open) (simp_all add: open_lock_file_def empty_fs_def)
  moreover have "file_step True (?f1, ?c1) (?f1, ?c2)"
    by (rule file_open) (simp_all add: open_lock_file_def)
  moreover have "file_step True (?f1, ?c2) (?f2, ?c3)"
    by (rule file_acquire) (simp_all add: flock_try_def empty_fs_def)
  ultimately have "(file_step True)\<^sup>*\<^sup>* start (?f2, ?c3)"
    by (meson converse_rtranclp_into_rtranclp rtranclp.rtrancl_refl)
  with file_lock_exclusive [OF this] show ?thesis by (intro exI [of _ "(?f2, ?c3)"]) simp
qed

text \<open>C40: a session lock that is removed under a waiting process does not exclude. One process leaves the
  session and has unlocked but not yet removed the file; a second opens and locks it; the first removes the name; a
  third makes a new file and locks that. Two processes then resume the same session, which is what
  the lock is there to prevent.\<close>

theorem session_lock_race:
  "\<exists>s. session_step\<^sup>*\<^sup>* start s \<and> snd s 1 = Inside 0 \<and> snd s 2 = Inside 1 \<and> \<not> exclusive s"
proof -
  let ?own = "\<lambda>f i p. f\<lparr>lf_owner := (lf_owner f)(i := p)\<rparr>"
  let ?f1 = "empty_fs\<lparr>lf_path := Some 0, lf_next := 1\<rparr>"
  let ?f2 = "?own ?f1 0 (Some 0)"
  let ?f3 = "?own ?f2 0 None"
  let ?f4 = "?own ?f3 0 (Some 1)"
  let ?f5 = "?f4\<lparr>lf_path := None\<rparr>"
  let ?f6 = "?f5\<lparr>lf_path := Some 1, lf_next := Suc 1\<rparr>"
  let ?f7 = "?own ?f6 1 (Some 2)"
  let ?c1 = "(\<lambda>_. Outside)((0::nat) := Opened 0)"
  let ?c2 = "?c1(0 := Inside 0)"
  let ?c3 = "?c2(0 := Unlocked 0)"
  let ?c4 = "?c3(0 := Closed)"
  let ?c5 = "?c4((1::nat) := Opened 0)"
  let ?c6 = "?c5(1 := Inside 0)"
  let ?c7 = "?c6(0 := Outside)"
  let ?c8 = "?c7((2::nat) := Opened 1)"
  let ?c9 = "?c8(2 := Inside 1)"
  have "session_step start (?f1, ?c1)"
    unfolding start_def by (rule session_open) (simp_all add: open_lock_file_def empty_fs_def)
  moreover have "session_step (?f1, ?c1) (?f2, ?c2)" by (rule session_acquire) (simp_all add: flock_try_def empty_fs_def)
  moreover have "session_step (?f2, ?c2) (?f3, ?c3)"
    using session_release [of ?c2 0 0 ?f2] by (simp add: flock_unlock_def)
  moreover have "session_step (?f3, ?c3) (?f3, ?c4)" by (rule session_close) simp
  moreover have "session_step (?f3, ?c4) (?f3, ?c5)" by (rule session_open) (simp_all add: open_lock_file_def)
  moreover have "session_step (?f3, ?c5) (?f4, ?c6)" by (rule session_acquire) (simp_all add: flock_try_def)
  moreover have "session_step (?f4, ?c6) (?f5, ?c7)"
    using session_unlink [of ?c6 0 ?f4] by (simp add: unlink_lock_file_def)
  moreover have "session_step (?f5, ?c7) (?f6, ?c8)" by (rule session_open) (simp_all add: open_lock_file_def)
  moreover have "session_step (?f6, ?c8) (?f7, ?c9)" by (rule session_acquire) (simp_all add: flock_try_def empty_fs_def)
  ultimately have "session_step\<^sup>*\<^sup>* start (?f7, ?c9)"
    by (meson converse_rtranclp_into_rtranclp rtranclp.rtrancl_refl)
  moreover have "\<not> exclusive (?f7, ?c9)" unfolding exclusive_def by (intro notI) (drule spec [of _ 1], drule spec [of _ 2], auto)
  ultimately show ?thesis by (intro exI [of _ "(?f7, ?c9)"]) simp
qed

end
