(* ===== verification/Run_Scope.thy ===== *)
theory Run_Scope
  imports Event_Log
begin

text \<open>
  \<open>runtime/run_scope.py\<close>: which run an event belongs to, when several runs share one event log. Runs are
  known under several names (run id, workflow run id, trace id, correlation id); the aliases are derived from
  the events alone. A Python dict is an association list in insertion order, and a set that is only
  tested and counted a list without duplicates.
\<close>

section \<open>Aliases\<close>

type_synonym aliases = "(string \<times> string) list"

definition correlation_run_anchor_events :: "string list" where
  "correlation_run_anchor_events =
     [''loop.started'', ''run.started'', ''run.completed'', ''run.failed'', ''run.goal.started'', ''run.goal.updated'',
      ''run.goal.completed'', ''run.goal.blocked'', ''ship.completed'', ''ship.done'', ''workflow.invoke.requested'']"

definition canonical_run_anchor_events :: "string list" where
  "canonical_run_anchor_events = [''run.started'', ''run.goal.started'', ''workflow.invoke.requested'']"

definition type_in :: "zf_event \<Rightarrow> string list \<Rightarrow> bool" where
  "type_in e types \<longleftrightarrow> ev_type e \<in> JStr ` set types"

definition payload_of :: "zf_event \<Rightarrow> pydict" where
  "payload_of e = as_dict (ev_payload e)"

definition root_name :: "zf_event \<Rightarrow> string" where
  "root_name e =
     strip (text_of (py_or (dict_get (payload_of e) ''run_id'')
       (py_or (dict_get (payload_of e) ''workflow_run_id'') (ev_correlation_id e))))"

definition add_root :: "zf_event \<Rightarrow> (string \<times> nat) list \<Rightarrow> (string \<times> nat) list" where
  "add_root e roots =
     (if \<not> type_in e canonical_run_anchor_events \<or> root_name e = [] then roots
      else
        (let priority = (if type_in e [''run.started'', ''run.goal.started''] then 0 else 1)
         in AList.update (root_name e)
              (min priority (case map_of roots (root_name e) of None \<Rightarrow> priority | Some q \<Rightarrow> q)) roots))"

definition canonical_roots :: "zf_event list \<Rightarrow> (string \<times> nat) list" where
  "canonical_roots rows = fold add_root rows []"

definition explicit_ids :: "zf_event \<Rightarrow> string list" where
  "explicit_ids e =
     filter (\<lambda>s. s \<noteq> []) (map (\<lambda>k. strip (text_of (dict_get (payload_of e) k))) [''run_id'', ''workflow_run_id'', ''trace_id''])"

definition correlation_of :: "zf_event \<Rightarrow> string" where
  "correlation_of e = strip (text_of (ev_correlation_id e))"

definition identities :: "aliases \<Rightarrow> zf_event \<Rightarrow> string list" where
  "identities al e =
     explicit_ids e @
     (if correlation_of e \<noteq> [] \<and>
         (explicit_ids e \<noteq> [] \<or> map_of al (correlation_of e) \<noteq> None \<or> type_in e correlation_run_anchor_events)
      then [correlation_of e] else [])"

definition established_roots :: "(string \<times> nat) list \<Rightarrow> aliases \<Rightarrow> string list \<Rightarrow> string list" where
  "established_roots roots al ids =
     fromkeys (filter (\<lambda>r. map_of roots r \<noteq> None)
       (map (\<lambda>i. if map_of roots i \<noteq> None then i else (case map_of al i of None \<Rightarrow> [] | Some t \<Rightarrow> t)) ids))"

text \<open>The run of an event: an approved root among its names, the one with the least priority first; else the
  run of an alias that is an approved root; else the run of any alias; else its first name.\<close>

definition canonical_name :: "(string \<times> nat) list \<Rightarrow> aliases \<Rightarrow> string list \<Rightarrow> string" where
  "canonical_name roots al ids =
     (case filter (\<lambda>i. map_of roots i \<noteq> None) ids of
        c # cs \<Rightarrow> fold (\<lambda>i m. if the (map_of roots i) < the (map_of roots m) then i else m) cs c
      | [] \<Rightarrow>
          (case filter (\<lambda>t. map_of roots t \<noteq> None) (List.map_filter (map_of al) ids) of
             t # _ \<Rightarrow> t
           | [] \<Rightarrow> (case List.map_filter (map_of al) ids of t # _ \<Rightarrow> t | [] \<Rightarrow> hd ids)))"

definition alias_event :: "(string \<times> nat) list \<Rightarrow> zf_event \<Rightarrow> aliases \<Rightarrow> aliases" where
  "alias_event roots e al =
     (let ids = identities al e; est = established_roots roots al ids in
      if ids = [] then al
      else if 1 < length est then fold (\<lambda>r a. AList.update r r a) est al
      else
        (let c = canonical_name roots al ids;
             replaced = filter (\<lambda>t. t \<noteq> c) (List.map_filter (map_of al) ids);
             renamed = map (\<lambda>(a, t). (a, if t \<in> set replaced then c else t)) al
         in fold (\<lambda>i a. AList.update i c a) ids renamed))"

definition run_aliases :: "zf_event list \<Rightarrow> aliases" where
  "run_aliases rows = fold (alias_event (canonical_roots rows)) rows []"

section \<open>Queries\<close>

definition alias_get :: "aliases \<Rightarrow> string \<Rightarrow> string" where
  "alias_get al s = (case map_of al s of None \<Rightarrow> [] | Some t \<Rightarrow> t)"

definition known_run_ids :: "zf_event list \<Rightarrow> string list" where
  "known_run_ids events = fromkeys (map snd (run_aliases events))"

definition resolve_run_id :: "zf_event list \<Rightarrow> string \<Rightarrow> string" where
  "resolve_run_id events value = (if strip value = [] then [] else alias_get (run_aliases events) (strip value))"

fun first_resolved :: "aliases \<Rightarrow> string list \<Rightarrow> string" where
  "first_resolved al [] = []"
| "first_resolved al (s # ss) = (if alias_get al s \<noteq> [] then alias_get al s else first_resolved al ss)"

definition event_run_id :: "aliases \<Rightarrow> zf_event \<Rightarrow> string" where
  "event_run_id al e =
     first_resolved al
       [strip (text_of (dict_get (payload_of e) ''run_id'')), correlation_of e,
        strip (text_of (dict_get (payload_of e) ''workflow_run_id'')), strip (text_of (dict_get (payload_of e) ''trace_id''))]"

definition events_for_run :: "zf_event list \<Rightarrow> string \<Rightarrow> bool \<Rightarrow> zf_event list" where
  "events_for_run events run_id include_legacy =
     (let al = run_aliases events; canonical = alias_get al (strip run_id); singleton = length (known_run_ids events) = 1 in
      if canonical = [] then []
      else filter (\<lambda>e. event_run_id al e = canonical \<or> (event_run_id al e = [] \<and> include_legacy \<and> singleton)) events)"

definition only_run :: "zf_event list \<Rightarrow> string" where
  "only_run events = (case known_run_ids events of [r] \<Rightarrow> r | _ \<Rightarrow> [])"

definition resolve_run_for_event :: "zf_event list \<Rightarrow> zf_event \<Rightarrow> string" where
  "resolve_run_for_event events e =
     (let r = event_run_id (run_aliases events) e in if r \<noteq> [] then r else only_run events)"

definition nested_run_id :: "json \<Rightarrow> string" where
  "nested_run_id v = sget_first (as_dict v) [''run_id'', ''workflow_run_id'']"

definition completion_ids :: "pydict \<Rightarrow> string list" where
  "completion_ids payload =
     filter (\<lambda>s. s \<noteq> [])
       [strip (text_of (dict_get payload ''run_id'')), strip (text_of (dict_get payload ''workflow_run_id'')),
        strip (nested_run_id (dict_get payload ''goal_closure_result'')),
        strip (nested_run_id (dict_get payload ''artifact_delivery_result''))]"

definition resolve_run_for_completion_cause :: "zf_event list \<Rightarrow> zf_event \<Rightarrow> string" where
  "resolve_run_for_completion_cause events e =
     (let al = run_aliases events; ids = completion_ids (payload_of e); resolved = map (alias_get al) ids;
          corr = correlation_of e in
      if ids \<noteq> [] then
        (if [] \<in> set resolved then []
         else (case fromkeys resolved of
                 [r] \<Rightarrow> if alias_get al corr \<noteq> [] \<and> alias_get al corr \<noteq> r then [] else r
               | _ \<Rightarrow> []))
      else if corr \<noteq> [] then alias_get al corr
      else only_run events)"

section \<open>Approved runs are never merged\<close>

lemma map_of_updates_to: "map_of (fold (\<lambda>i a. AList.update i c a) ids al) x = (if x \<in> set ids then Some c else map_of al x)"
  by (induction ids arbitrary: al) (auto simp: update_conv')

lemma map_of_updates_self: "map_of (fold (\<lambda>r a. AList.update r r a) rs al) x = (if x \<in> set rs then Some x else map_of al x)"
  by (induction rs arbitrary: al) (auto simp: update_conv')

lemma map_of_rename: "map_of (map (\<lambda>(a, t). (a, f t)) al) x = map_option f (map_of al x)"
  by (induction al) auto

lemma set_map_filter: "set (List.map_filter f xs) = {y. \<exists>x \<in> set xs. f x = Some y}"
  by (induction xs) (auto simp: map_filter_simps split: option.splits)

lemma explicit_ids_text: "i \<in> set (explicit_ids e) \<Longrightarrow> i \<noteq> [] \<and> strip i = i"
  by (auto simp: explicit_ids_def split: if_splits)

lemma identities_text: "i \<in> set (identities al e) \<Longrightarrow> i \<noteq> [] \<and> strip i = i"
  using explicit_ids_text by (auto simp: identities_def correlation_of_def split: if_splits)

lemma roots_text: "map_of (fold add_root rows roots) r \<noteq> None \<Longrightarrow> (map_of roots r \<noteq> None \<longrightarrow> r \<noteq> [] \<and> strip r = r) \<Longrightarrow> r \<noteq> [] \<and> strip r = r"
proof (induction rows arbitrary: roots)
  case (Cons e rows)
  have "r \<noteq> [] \<and> strip r = r" if "map_of (add_root e roots) r \<noteq> None"
    using that Cons.prems(2) by (auto simp: add_root_def update_conv' Let_def root_name_def split: if_splits)
  with Cons.IH [of "add_root e roots"] Cons.prems(1) show ?case by simp
qed simp

text \<open>Approved roots stand for themselves, every run name stands for itself, and run names are stripped text.\<close>

definition alias_inv :: "(string \<times> nat) list \<Rightarrow> aliases \<Rightarrow> bool" where
  "alias_inv roots al \<longleftrightarrow>
     (\<forall>r t. map_of roots r \<noteq> None \<longrightarrow> map_of al r = Some t \<longrightarrow> t = r)
     \<and> (\<forall>x t. map_of al x = Some t \<longrightarrow> map_of al t = Some t \<and> t \<noteq> [] \<and> strip t = t)"

lemma alias_invD:
  assumes "alias_inv roots al"
  shows "map_of roots r \<noteq> None \<Longrightarrow> map_of al r = Some t \<Longrightarrow> t = r"
    and "map_of al x = Some t \<Longrightarrow> map_of al t = Some t"
    and "map_of al x = Some t \<Longrightarrow> t \<noteq> [] \<and> strip t = t"
  using assms by (auto simp: alias_inv_def)

lemma established_iff:
  assumes "alias_inv roots al" and "map_of roots [] = None"
  shows "r \<in> set (established_roots roots al ids) \<longleftrightarrow>
    map_of roots r \<noteq> None \<and> (r \<in> set ids \<or> (\<exists>i \<in> set ids. map_of al i = Some r))"
  (is "?l \<longleftrightarrow> ?r")
proof
  assume ?l
  then show ?r using assms(2) by (auto simp: established_roots_def split: if_splits option.splits)
next
  assume r: ?r
  then consider "r \<in> set ids" | i where "i \<in> set ids" "map_of al i = Some r" by blast
  then show ?l
  proof cases
    case 1
    with r show ?thesis by (force simp: established_roots_def)
  next
    case 2
    then have "map_of roots i \<noteq> None \<Longrightarrow> i = r" using alias_invD(1) [OF assms(1)] by blast
    with 2 r show ?thesis by (force simp: established_roots_def intro!: image_eqI [of _ _ i])
  qed
qed

lemma fold_least_mem: "fold (\<lambda>i m. if f i < f m then i else m) cs c \<in> insert c (set cs)"
  by (induction cs arbitrary: c) auto

lemma canonical_name_cases:
  obtains (root) "canonical_name roots al ids \<in> set ids" "map_of roots (canonical_name roots al ids) \<noteq> None"
  | (alias_root) i where "i \<in> set ids" "map_of al i = Some (canonical_name roots al ids)"
      "map_of roots (canonical_name roots al ids) \<noteq> None"
  | (alias_any) i where "i \<in> set ids" "map_of al i = Some (canonical_name roots al ids)"
      "\<forall>i \<in> set ids. map_of roots i = None" "\<forall>i \<in> set ids. \<forall>t. map_of al i = Some t \<longrightarrow> map_of roots t = None"
  | (fresh_name) "canonical_name roots al ids = hd ids" "\<forall>i \<in> set ids. map_of al i = None" "\<forall>i \<in> set ids. map_of roots i = None"
proof (cases "filter (\<lambda>i. map_of roots i \<noteq> None) ids")
  case (Cons c cs)
  then have "canonical_name roots al ids \<in> set (filter (\<lambda>i. map_of roots i \<noteq> None) ids)"
    using fold_least_mem [of "\<lambda>i. the (map_of roots i)" cs c] by (simp add: canonical_name_def)
  with root show ?thesis by simp
next
  case Nil
  then have nr: "\<forall>i \<in> set ids. map_of roots i = None" by (auto simp: filter_empty_conv)
  show ?thesis
  proof (cases "filter (\<lambda>t. map_of roots t \<noteq> None) (List.map_filter (map_of al) ids)")
    case (Cons t ts)
    then have "canonical_name roots al ids = t" using Nil by (simp add: canonical_name_def)
    moreover have "t \<in> set (filter (\<lambda>t. map_of roots t \<noteq> None) (List.map_filter (map_of al) ids))" using Cons by simp
    ultimately show ?thesis using alias_root by (auto simp: set_map_filter)
  next
    case none: Nil
    then have na: "\<forall>i \<in> set ids. \<forall>t. map_of al i = Some t \<longrightarrow> map_of roots t = None"
      by (auto simp: filter_empty_conv set_map_filter)
    show ?thesis
    proof (cases "List.map_filter (map_of al) ids")
      case (Cons t ts)
      then have "canonical_name roots al ids = t" using Nil none by (simp add: canonical_name_def)
      moreover have "t \<in> set (List.map_filter (map_of al) ids)" using Cons by simp
      ultimately show ?thesis using alias_any nr na by (auto simp: set_map_filter)
    next
      case no: Nil
      then have "\<forall>i \<in> set ids. map_of al i = None"
        using set_map_filter [of "map_of al" ids] by (auto simp: not_Some_eq [symmetric] simp del: not_Some_eq)
      then show ?thesis using fresh_name nr Nil none no by (simp add: canonical_name_def)
    qed
  qed
qed

lemma canonical_name_known:
  assumes "alias_inv roots al" and "ids \<noteq> []" and "\<And>i. i \<in> set ids \<Longrightarrow> i \<noteq> [] \<and> strip i = i"
  shows "canonical_name roots al ids \<in> set ids \<or> map_of al (canonical_name roots al ids) = Some (canonical_name roots al ids)"
    and "canonical_name roots al ids \<noteq> [] \<and> strip (canonical_name roots al ids) = canonical_name roots al ids"
proof -
  have "canonical_name roots al ids \<in> set ids \<or> (\<exists>i. map_of al i = Some (canonical_name roots al ids))"
    by (rule canonical_name_cases [of roots al ids]) (use assms(2) in auto)
  then show "canonical_name roots al ids \<in> set ids \<or> map_of al (canonical_name roots al ids) = Some (canonical_name roots al ids)"
    and "canonical_name roots al ids \<noteq> [] \<and> strip (canonical_name roots al ids) = canonical_name roots al ids"
    using assms(3) alias_invD(2,3) [OF assms(1)] by blast+
qed

lemma canonical_name_root:
  assumes "alias_inv roots al" and "map_of roots [] = None" and "length (established_roots roots al ids) \<le> 1"
    and "r \<in> set (established_roots roots al ids)"
  shows "canonical_name roots al ids = r"
proof -
  note est = established_iff [OF assms(1,2), of _ ids]
  have only: "r' = r" if "r' \<in> set (established_roots roots al ids)" for r'
    using assms(3,4) that by (cases "established_roots roots al ids") auto
  show ?thesis
  proof (rule canonical_name_cases [of roots al ids])
    assume "canonical_name roots al ids \<in> set ids" "map_of roots (canonical_name roots al ids) \<noteq> None"
    then show ?thesis using only est by blast
  next
    fix i assume "i \<in> set ids" "map_of al i = Some (canonical_name roots al ids)" "map_of roots (canonical_name roots al ids) \<noteq> None"
    then show ?thesis using only est by blast
  qed (use assms(4) est in auto)
qed

lemma alias_event_inv:
  assumes inv: "alias_inv roots al" and rt: "\<And>r. map_of roots r \<noteq> None \<Longrightarrow> r \<noteq> [] \<and> strip r = r"
  shows "alias_inv roots (alias_event roots e al)"
proof -
  let ?ids = "identities al e"
  let ?est = "established_roots roots al ?ids"
  let ?c = "canonical_name roots al ?ids"
  have nil: "map_of roots [] = None" using rt by fastforce
  note est = established_iff [OF inv nil]
  note iD = alias_invD [OF inv]
  consider (none) "?ids = []" | (conflict) "?ids \<noteq> []" "1 < length ?est" | (one) "?ids \<noteq> []" "length ?est \<le> 1" by linarith
  then show ?thesis
  proof cases
    case none
    then show ?thesis using inv by (simp add: alias_event_def)
  next
    case conflict
    then have al': "map_of (alias_event roots e al) x = (if x \<in> set ?est then Some x else map_of al x)" for x
      by (simp add: alias_event_def Let_def map_of_updates_self)
    have "map_of roots x \<noteq> None" if "x \<in> set ?est" for x using that est by blast
    then show ?thesis unfolding alias_inv_def al' using iD rt by (auto split: if_splits)
  next
    case one
    let ?rep = "filter (\<lambda>t. t \<noteq> ?c) (List.map_filter (map_of al) ?ids)"
    have al': "map_of (alias_event roots e al) x =
        (if x \<in> set ?ids then Some ?c else map_option (\<lambda>t. if t \<in> set ?rep then ?c else t) (map_of al x))" for x
      using one by (simp add: alias_event_def Let_def map_of_updates_to map_of_rename)
    have root: "?c = r" if "map_of roots r \<noteq> None" "r \<in> set ?ids \<or> (\<exists>i \<in> set ?ids. map_of al i = Some r)" for r
      using canonical_name_root [OF inv nil one(2), of r] that est by blast
    have cknown: "?c \<in> set ?ids \<or> map_of al ?c = Some ?c" and ctext: "?c \<noteq> [] \<and> strip ?c = ?c"
      using canonical_name_known [OF inv one(1) identities_text [of _ al e]] by blast+
    have c': "map_of (alias_event roots e al) ?c = Some ?c" using cknown unfolding al' by auto
    have rep: "t \<in> set ?rep \<longleftrightarrow> t \<noteq> ?c \<and> (\<exists>i \<in> set ?ids. map_of al i = Some t)" for t by (auto simp: set_map_filter)
    have "t = r" if r: "map_of roots r \<noteq> None" and t: "map_of (alias_event roots e al) r = Some t" for r t
    proof (cases "r \<in> set ?ids")
      case True
      then show ?thesis using r t root [of r] unfolding al' by simp
    next
      case False
      then obtain t0 where t0: "map_of al r = Some t0" "t = (if t0 \<in> set ?rep then ?c else t0)"
        using t unfolding al' by auto
      with iD(1) r have "t0 = r" by blast
      with t0 root [of r] r rep show ?thesis by auto
    qed
    moreover have "map_of (alias_event roots e al) t = Some t \<and> t \<noteq> [] \<and> strip t = t" if "map_of (alias_event roots e al) x = Some t" for x t
    proof (cases "t = ?c")
      case True
      then show ?thesis using c' ctext by simp
    next
      case False
      then have x: "map_of al x = Some t" "t \<notin> set ?rep" using that unfolding al' by (auto split: if_splits)
      then have "map_of al t = Some t" "t \<notin> set ?ids" using iD(2) rep False by blast+
      with x iD(3) [of x t] show ?thesis unfolding al' by simp
    qed
    ultimately show ?thesis unfolding alias_inv_def by blast
  qed
qed

lemma canonical_root_text: "map_of (canonical_roots rows) r \<noteq> None \<Longrightarrow> r \<noteq> [] \<and> strip r = r"
  unfolding canonical_roots_def by (rule roots_text) auto

lemma fold_alias_inv:
  assumes "alias_inv (canonical_roots rows) al"
  shows "alias_inv (canonical_roots rows) (fold (alias_event (canonical_roots rows)) es al)"
  using assms by (induction es arbitrary: al) (simp_all add: alias_event_inv [OF _ canonical_root_text] del: not_None_eq)

lemma run_aliases_inv: "alias_inv (canonical_roots rows) (run_aliases rows)"
  unfolding run_aliases_def by (rule fold_alias_inv) (simp add: alias_inv_def)

text \<open>Names once known stay known, and the names of an event are known after it.\<close>

lemma alias_event_keeps: "map_of al x \<noteq> None \<Longrightarrow> map_of (alias_event roots e al) x \<noteq> None"
  by (auto simp: alias_event_def Let_def map_of_updates_to map_of_updates_self map_of_rename split: option.splits)

lemma fold_alias_keeps: "map_of al x \<noteq> None \<Longrightarrow> map_of (fold (alias_event roots) es al) x \<noteq> None"
  by (induction es arbitrary: al) (simp_all add: alias_event_keeps del: not_None_eq)

lemma root_is_identity:
  assumes "type_in e canonical_run_anchor_events" and "root_name e \<noteq> []"
  shows "root_name e \<in> set (identities al e)"
proof -
  have anchor: "type_in e correlation_run_anchor_events"
    using assms(1) by (auto simp: type_in_def canonical_run_anchor_events_def correlation_run_anchor_events_def)
  have "root_name e \<in> set (explicit_ids e) \<or> root_name e = correlation_of e"
    using assms(2) by (auto simp: root_name_def explicit_ids_def correlation_of_def py_or_def split: if_splits)
  then show ?thesis using anchor assms(2) by (auto simp: identities_def)
qed

lemma alias_event_names: "i \<in> set (identities al e) \<Longrightarrow> length (established_roots roots al (identities al e)) \<le> 1 \<Longrightarrow>
    map_of (alias_event roots e al) i \<noteq> None"
  by (auto simp: alias_event_def Let_def map_of_updates_to)

lemma anchor_known:
  assumes "e \<in> set es" and "type_in e canonical_run_anchor_events" and "root_name e \<noteq> []"
    and inv: "alias_inv roots al" and nil: "map_of roots [] = None" and r: "map_of roots (root_name e) \<noteq> None"
    and keeps: "\<And>al e. alias_inv roots al \<Longrightarrow> alias_inv roots (alias_event roots e al)"
  shows "map_of (fold (alias_event roots) es al) (root_name e) \<noteq> None"
  using assms(1) inv
proof (induction es arbitrary: al)
  case (Cons e' es)
  show ?case
  proof (cases "e' = e")
    case True
    let ?ids = "identities al e"
    have "root_name e \<in> set (established_roots roots al ?ids)"
      using established_iff [OF Cons.prems(2) nil] root_is_identity [OF assms(2,3)] r by blast
    then have "map_of (alias_event roots e al) (root_name e) \<noteq> None"
      using root_is_identity [OF assms(2,3), of al]
      by (cases "1 < length (established_roots roots al ?ids)")
        (auto simp: alias_event_def Let_def map_of_updates_self map_of_updates_to)
    with True show ?thesis by (simp add: fold_alias_keeps del: not_None_eq)
  next
    case False
    with Cons keeps show ?thesis by simp
  qed
qed simp

lemma roots_from: "map_of (fold add_root es roots) r \<noteq> None \<Longrightarrow>
    map_of roots r \<noteq> None \<or> (\<exists>e \<in> set es. type_in e canonical_run_anchor_events \<and> root_name e \<noteq> [] \<and> root_name e = r)"
proof (induction es arbitrary: roots)
  case (Cons e es)
  from Cons.IH [of "add_root e roots"] Cons.prems
  consider "map_of (add_root e roots) r \<noteq> None" | e' where "e' \<in> set es" "type_in e' canonical_run_anchor_events" "root_name e' \<noteq> []" "root_name e' = r"
    by auto
  then show ?case by cases (auto simp: add_root_def update_conv' Let_def split: if_splits)
qed simp

lemma root_resolves:
  assumes "map_of (canonical_roots rows) r \<noteq> None"
  shows "map_of (run_aliases rows) r = Some r"
proof -
  from roots_from [OF assms [unfolded canonical_roots_def]] obtain e where
    e: "e \<in> set rows" "type_in e canonical_run_anchor_events" "root_name e \<noteq> []" "root_name e = r" by auto
  have "map_of (canonical_roots rows) [] = None" using canonical_root_text by fastforce
  then have "map_of (run_aliases rows) (root_name e) \<noteq> None" unfolding run_aliases_def
    using e assms by (intro anchor_known alias_event_inv canonical_root_text) (auto simp: alias_inv_def)
  with e(4) alias_invD(1) [OF run_aliases_inv assms] show ?thesis by blast
qed

lemma root_views_disjoint:
  assumes "map_of (canonical_roots es) r \<noteq> None" and "map_of (canonical_roots es) r' \<noteq> None" and "r \<noteq> r'"
  shows "resolve_run_id es r = r \<and> resolve_run_id es r' = r'
    \<and> set (events_for_run es r legacy) \<inter> set (events_for_run es r' legacy') = {}"
proof -
  have al: "map_of (run_aliases es) r = Some r" "map_of (run_aliases es) r' = Some r'"
    using root_resolves assms by blast+
  have stripped: "r \<noteq> [] \<and> strip r = r" "r' \<noteq> [] \<and> strip r' = r'" using canonical_root_text assms by blast+
  have "{r, r'} \<subseteq> set (known_run_ids es)"
    using map_of_SomeD [OF al(1)] map_of_SomeD [OF al(2)] by (force simp: known_run_ids_def)
  then have "length (known_run_ids es) \<noteq> 1" using assms(3) by (cases "known_run_ids es") auto
  then show ?thesis using al stripped assms(3) by (auto simp: resolve_run_id_def alias_get_def events_for_run_def Let_def)
qed

text \<open>C29: runs stay apart. Every approved run resolves to itself, whatever events carry names of two runs or
  arrive before it, and the views of two different approved runs share no event, also when a reader
  accepts events without a run.\<close>

theorem run_views_disjoint:
  assumes "map_of (canonical_roots es) r \<noteq> None" and "map_of (canonical_roots es) r' \<noteq> None" and "r \<noteq> r'"
  shows "resolve_run_id es r = r \<and> resolve_run_id es r' = r'
    \<and> set (events_for_run es r legacy) \<inter> set (events_for_run es r' legacy') = {}"
  using root_views_disjoint [OF assms] .

definition demo_anchor :: "string \<Rightarrow> string \<Rightarrow> zf_event" where
  "demo_anchor r corr = (new_event (''e'', ''t'') ''run.started'')\<lparr>ev_payload := JObj [(''run_id'', JStr r)], ev_correlation_id := JStr corr\<rparr>"

theorem run_views_disjoint_witness:
  "resolve_run_id [demo_anchor ''A'' ''B'', demo_anchor ''B'' ''A''] ''A'' = ''A''
   \<and> resolve_run_id [demo_anchor ''A'' ''B'', demo_anchor ''B'' ''A''] ''B'' = ''B''"
proof -
  have "map_of (canonical_roots [demo_anchor ''A'' ''B'', demo_anchor ''B'' ''A'']) r \<noteq> None" if "r = ''A'' \<or> r = ''B''" for r
    using that by (auto simp: canonical_roots_def add_root_def type_in_def canonical_run_anchor_events_def demo_anchor_def
        new_event_def root_name_def payload_of_def py_or_def text_of_def strip_def lstrip_def is_space_def Let_def)
  from run_views_disjoint [OF this this, of "''A''" "''B''"] show ?thesis by simp
qed

text \<open>A run has one name. Resolving the name a run resolves to gives that name again, so following aliases
  never needs a second step.\<close>

lemma run_resolution_idempotent:
  "resolve_run_id es (resolve_run_id es x) = resolve_run_id es x"
proof (cases "map_of (run_aliases es) (strip x)")
  case (Some t)
  then show ?thesis using alias_invD(2,3) [OF run_aliases_inv Some] by (simp add: resolve_run_id_def alias_get_def)
qed (simp add: resolve_run_id_def alias_get_def)

end
