(* ===== verification/Dependency_Barrier.thy ===== *)
theory Dependency_Barrier
  imports Run_Scope
begin

text \<open>
  \<open>runtime/workflow_dependency_barrier.py\<close>: a stage with several dependencies starts when all of them
  have succeeded in its run and generation. The verdicts are derived from the event log on every pass, and
  written back to it as events, which later passes recognise.
\<close>

declare split_paired_Ex [simp del] split_paired_All [simp del]

section \<open>Digests\<close>

definition SATISFIED_EVENT :: string where
  "SATISFIED_EVENT = ''workflow.dependency_barrier.satisfied''"

definition BLOCKED_EVENT :: string where
  "BLOCKED_EVENT = ''workflow.dependency_barrier.blocked''"

definition generation_fields :: "string list" where
  "generation_fields =
     [''workflow_generation'', ''task_map_generation'', ''request_revision'', ''run_contract_digest'', ''generic_workflow_contract_digest'']"

definition propagated_fields :: "string list" where
  "propagated_fields =
     [''workflow_run_id'', ''run_id'', ''request_id'', ''flow_kind'', ''request_kind'', ''workflow_generation'',
      ''task_map_generation'', ''request_revision'', ''workflow_template'', ''completion_profile'',
      ''generic_workflow_contract_digest'', ''goal_id'', ''workflow_intent'', ''required_delivery_artifacts'',
      ''goal_claim_set_ref'', ''goal_claim_set_digest'', ''run_contract_ref'', ''run_contract_digest'',
      ''workflow_proposal_ref'', ''workflow_proposal_digest'', ''effective_config_ref'', ''effective_config_digest'',
      ''requirement_spec_ref'', ''requirement_spec_digest'']"

definition propagated_ref_fields :: "string list" where
  "propagated_ref_fields = [''artifact_refs'', ''evidence_refs'', ''input_refs'', ''input_result_refs'']"

definition stable_json :: "json \<Rightarrow> string" where
  "stable_json v = json_dumps_ascii '','' '':'' True v"

definition stable_digest :: "json \<Rightarrow> string" where
  "stable_digest v = sha256_hex (stable_json v)"

definition generation_key :: "pydict \<Rightarrow> string" where
  "generation_key payload =
     (let identity = map (\<lambda>k. (k, JStr (strip (sget payload k)))) (filter (\<lambda>k. strip (sget payload k) \<noteq> []) generation_fields)
      in stable_digest (JObj (if identity = [] then [(''generation'', JStr ''legacy'')] else identity)))"

definition identity_payload :: "zf_event \<Rightarrow> pydict" where
  "identity_payload e =
     map (\<lambda>k. (k, dict_get (payload_of e) k)) (filter (\<lambda>k. \<not> is_blank (dict_get (payload_of e) k)) propagated_fields)"

definition normalized_ref :: "json \<Rightarrow> json option" where
  "normalized_ref v =
     (case v of
        JObj d \<Rightarrow> if strip (sget_first d [''path'', ''ref'']) = [] then None else Some (JObj (filter (\<lambda>kv. \<not> is_blank (snd kv)) d))
      | _ \<Rightarrow> if strip (text_of v) = [] then None else Some (JStr (strip (text_of v))))"

text \<open>References in order of first appearance, told apart by their JSON text.\<close>

fun distinct_refs :: "string list \<Rightarrow> json list \<Rightarrow> json list" where
  "distinct_refs seen [] = []"
| "distinct_refs seen (v # vs) =
     (if stable_json v \<in> set seen then distinct_refs seen vs else v # distinct_refs (stable_json v # seen) vs)"

definition field_refs :: "zf_event list \<Rightarrow> string \<Rightarrow> json list" where
  "field_refs es f =
     distinct_refs [] (List.map_filter normalized_ref (concat (map (\<lambda>e. as_list (dict_get (payload_of e) f)) es)))"

definition propagated_refs :: "zf_event list \<Rightarrow> pydict" where
  "propagated_refs es = map (\<lambda>f. (f, JList (field_refs es f))) (filter (\<lambda>f. field_refs es f \<noteq> []) propagated_ref_fields)"

definition refs_subset :: "pydict \<Rightarrow> pydict \<Rightarrow> bool" where
  "refs_subset candidate existing \<longleftrightarrow>
     list_all (\<lambda>(f, vs). stable_json ` set (as_list vs) \<subseteq> stable_json ` set (as_list (dict_get existing f))) candidate"

definition dependency_sources :: "string list \<Rightarrow> string list \<Rightarrow> zf_event list \<Rightarrow> json" where
  "dependency_sources dependencies required selected =
     JList (map (\<lambda>(i, e).
       JObj (dict_update
         [(''dependency'', JStr (if i < length dependencies then dependencies ! i else required ! i)),
          (''event_type'', JStr (required ! i)), (''event_id'', ev_id e)]
         (propagated_refs [e]))) (enumerate 0 selected))"

section \<open>Stages and decisions\<close>

record barrier_stage =
  bs_id :: string
  bs_barrier_id :: string
  bs_barrier_digest :: string
  bs_dependencies :: "string list"
  bs_required :: "string list"
  bs_failure :: "string list"

record barrier_decision =
  bd_event_type :: string
  bd_payload :: pydict
  bd_causation_id :: json
  bd_correlation_id :: string

definition decision_event :: "fresh \<Rightarrow> barrier_decision \<Rightarrow> zf_event" where
  "decision_event fr d =
     (new_event fr (bd_event_type d))\<lparr>ev_actor := JStr ''orchestrator'', ev_payload := JObj (bd_payload d),
        ev_causation_id := py_or (bd_causation_id d) JNull,
        ev_correlation_id := (if bd_correlation_id d = [] then JNull else JStr (bd_correlation_id d))\<rparr>"

text \<open>What a pass remembers of earlier verdicts on the barrier. The digest the stage has is the third
  component of the code's keys.\<close>

definition of_barrier :: "barrier_stage \<Rightarrow> zf_event \<Rightarrow> bool" where
  "of_barrier s e \<longleftrightarrow>
     sget (payload_of e) ''barrier_id'' = bs_barrier_id s \<and> sget (payload_of e) ''barrier_digest'' = bs_barrier_digest s
     \<and> strip (sget (payload_of e) ''workflow_run_id'') \<noteq> [] \<and> strip (sget (payload_of e) ''generation_key'') \<noteq> []"

definition verdict_scope :: "zf_event \<Rightarrow> string \<times> string" where
  "verdict_scope e = (strip (sget (payload_of e) ''workflow_run_id''), strip (sget (payload_of e) ''generation_key''))"

definition settlements :: "barrier_stage \<Rightarrow> zf_event list \<Rightarrow> ((string \<times> string) \<times> string \<times> pydict) list" where
  "settlements s es =
     map (\<lambda>e. (verdict_scope e,
         (let p = strip (sget (payload_of e) ''propagation_digest'')
          in if p \<noteq> [] then p else stable_digest (JObj (propagated_refs [e]))), propagated_refs [e]))
       (filter (\<lambda>e. ev_type e = JStr SATISFIED_EVENT \<and> of_barrier s e) es)"

definition blocked_fingerprints :: "barrier_stage \<Rightarrow> zf_event list \<Rightarrow> ((string \<times> string) \<times> string) list" where
  "blocked_fingerprints s es =
     map (\<lambda>e. (verdict_scope e, sget (payload_of e) ''source_fingerprint''))
       (filter (\<lambda>e. ev_type e = JStr BLOCKED_EVENT \<and> of_barrier s e) es)"

text \<open>A settlement without a fingerprint has its sources listed, \<open>list(payload.get("source_event_ids") or [])\<close>,
  which fails on a number.\<close>

definition bad_settlement :: "barrier_stage \<Rightarrow> zf_event \<Rightarrow> bool" where
  "bad_settlement s e \<longleftrightarrow>
     ev_type e = JStr SATISFIED_EVENT \<and> of_barrier s e \<and> strip (sget (payload_of e) ''source_fingerprint'') = []
     \<and> truthy (dict_get (payload_of e) ''source_event_ids'')
     \<and> (case dict_get (payload_of e) ''source_event_ids'' of JInt _ \<Rightarrow> True | JBool _ \<Rightarrow> True | _ \<Rightarrow> False)"

section \<open>One pass\<close>

definition relevant :: "barrier_stage \<Rightarrow> aliases \<Rightarrow> string \<Rightarrow> zf_event \<Rightarrow> (string \<times> string) option" where
  "relevant s al singleton e =
     (let payload = payload_of e; flow_kind = lower (strip (sget payload ''flow_kind''));
          run_id = str_or (event_run_id al e) singleton in
      if ev_type e \<in> {JStr SATISFIED_EVENT, JStr BLOCKED_EVENT} \<or> \<not> type_in e (bs_required s @ bs_failure s)
         \<or> (flow_kind \<noteq> [] \<and> flow_kind \<noteq> ''workflow'') \<or> run_id = []
      then None else Some (run_id, generation_key payload))"

definition scoped :: "barrier_stage \<Rightarrow> aliases \<Rightarrow> string \<Rightarrow> zf_event list \<Rightarrow> string \<times> string \<Rightarrow> (nat \<times> zf_event) list" where
  "scoped s al singleton es k = filter (\<lambda>(i, e). relevant s al singleton e = Some k) (enumerate 0 es)"

definition latest_of :: "(nat \<times> zf_event) list \<Rightarrow> string \<Rightarrow> (nat \<times> zf_event) option" where
  "latest_of rows ty = (case filter (\<lambda>r. ev_type (snd r) = JStr ty) rows of [] \<Rightarrow> None | rs \<Rightarrow> Some (last rs))"

datatype verdict = Failed zf_event | Pending | Succeeded zf_event

definition dependency_verdict :: "(nat \<times> zf_event) list \<Rightarrow> string \<times> string \<Rightarrow> verdict" where
  "dependency_verdict rows d =
     (case (latest_of rows (fst d), latest_of rows (snd d)) of
        (None, Some f) \<Rightarrow> Failed (snd f)
      | (Some t, Some f) \<Rightarrow> if fst t < fst f then Failed (snd f) else Succeeded (snd t)
      | (None, None) \<Rightarrow> Pending
      | (Some t, None) \<Rightarrow> Succeeded (snd t))"

definition failed_of :: "verdict list \<Rightarrow> zf_event list" where
  "failed_of vs = List.map_filter (\<lambda>v. case v of Failed e \<Rightarrow> Some e | _ \<Rightarrow> None) vs"

definition succeeded_of :: "verdict list \<Rightarrow> zf_event list" where
  "succeeded_of vs = List.map_filter (\<lambda>v. case v of Succeeded e \<Rightarrow> Some e | _ \<Rightarrow> None) vs"

definition blocked_decision :: "barrier_stage \<Rightarrow> string \<times> string \<Rightarrow> zf_event list \<Rightarrow> barrier_decision" where
  "blocked_decision s k failed =
     (let source = last failed; ids = JList (map ev_id failed) in
      \<lparr>bd_event_type = BLOCKED_EVENT,
       bd_payload = dict_update (identity_payload source)
         [(''flow_kind'', JStr ''workflow''), (''workflow_run_id'', JStr (fst k)), (''stage_id'', JStr (bs_id s)),
          (''barrier_id'', JStr (bs_barrier_id s)), (''barrier_digest'', JStr (bs_barrier_digest s)),
          (''generation_key'', JStr (snd k)), (''dependencies'', JList (map JStr (bs_dependencies s))),
          (''required_events'', JList (map JStr (bs_required s))), (''failure_events'', JList (map JStr (bs_failure s))),
          (''failed_event_ids'', ids), (''source_fingerprint'', JStr (stable_digest ids)), (''reason'', JStr ''dependency_failed'')],
       bd_causation_id = ev_id source, bd_correlation_id = fst k\<rparr>)"

definition satisfied_decision :: "barrier_stage \<Rightarrow> string \<times> string \<Rightarrow> zf_event list \<Rightarrow> barrier_decision" where
  "satisfied_decision s k selected =
     (let source = last selected; ids = JList (map ev_id selected); refs = propagated_refs selected in
      \<lparr>bd_event_type = SATISFIED_EVENT,
       bd_payload = dict_update (dict_update (identity_payload source) refs)
         [(''flow_kind'', JStr ''workflow''), (''workflow_run_id'', JStr (fst k)), (''stage_id'', JStr (bs_id s)),
          (''barrier_id'', JStr (bs_barrier_id s)), (''barrier_digest'', JStr (bs_barrier_digest s)),
          (''generation_key'', JStr (snd k)), (''dependencies'', JList (map JStr (bs_dependencies s))),
          (''required_events'', JList (map JStr (bs_required s))), (''source_event_ids'', ids),
          (''source_fingerprint'', JStr (stable_digest ids)), (''propagation_digest'', JStr (stable_digest (JObj refs))),
          (''dependency_sources'', dependency_sources (bs_dependencies s) (bs_required s) selected)],
       bd_causation_id = ev_id source, bd_correlation_id = fst k\<rparr>)"

definition group_decision ::
  "barrier_stage \<Rightarrow> ((string \<times> string) \<times> string \<times> pydict) list \<Rightarrow> ((string \<times> string) \<times> string) list
     \<Rightarrow> (nat \<times> zf_event) list \<Rightarrow> string \<times> string \<Rightarrow> barrier_decision option" where
  "group_decision s settled blocked rows k =
     (let vs = map (dependency_verdict rows) (zip (bs_required s) (bs_failure s));
          failed = failed_of vs; selected = succeeded_of vs; refs = propagated_refs selected in
      if failed \<noteq> [] then
        (if (k, stable_digest (JList (map ev_id failed))) \<in> set blocked then None else Some (blocked_decision s k failed))
      else if Pending \<in> set vs \<or> length selected \<noteq> length (bs_required s) then None
      else if list_ex (\<lambda>(k', digest, prior). k' = k \<and> (digest = stable_digest (JObj refs) \<or> refs_subset refs prior)) settled then None
      else Some (satisfied_decision s k selected))"

definition group_keys :: "barrier_stage \<Rightarrow> aliases \<Rightarrow> string \<Rightarrow> zf_event list \<Rightarrow> (string \<times> string) list" where
  "group_keys s al singleton es = sort (fromkeys (List.map_filter (relevant s al singleton) es))"

definition reconcile_stage :: "barrier_stage \<Rightarrow> aliases \<Rightarrow> string \<Rightarrow> zf_event list \<Rightarrow> barrier_decision list res" where
  "reconcile_stage s al singleton es =
     (if list_ex (bad_settlement s) es then Inl (TypeError ''object is not iterable'')
      else Inr (List.map_filter
        (\<lambda>k. group_decision s (settlements s es) (blocked_fingerprints s es) (scoped s al singleton es k) k)
        (group_keys s al singleton es)))"

definition is_barrier :: "barrier_stage \<Rightarrow> bool" where
  "is_barrier s \<longleftrightarrow> bs_barrier_id s \<noteq> [] \<and> bs_barrier_digest s \<noteq> [] \<and> 2 \<le> length (bs_required s)
     \<and> length (bs_required s) = length (bs_failure s)"

text \<open>A stage of the configuration as the pass reads it: names stripped, blank events dropped.\<close>

definition read_stage :: "barrier_stage \<Rightarrow> barrier_stage" where
  "read_stage s =
     s\<lparr>bs_barrier_id := strip (bs_barrier_id s), bs_barrier_digest := strip (bs_barrier_digest s),
       bs_required := filter (\<lambda>t. strip t \<noteq> []) (bs_required s), bs_failure := filter (\<lambda>t. strip t \<noteq> []) (bs_failure s)\<rparr>"

definition reconcile_dependency_barriers :: "barrier_stage list \<Rightarrow> zf_event list \<Rightarrow> barrier_decision list res" where
  "reconcile_dependency_barriers stages es =
     map_sum id concat (res_map (\<lambda>s. reconcile_stage s (run_aliases es) (only_run es) es) (filter is_barrier (map read_stage stages)))"

section \<open>The latest event of a type\<close>

lemma sorted_enumerate: "sorted_wrt (\<lambda>a b. fst a < fst b) (enumerate n xs)"
proof -
  have "sorted_wrt (<) (map fst (enumerate n xs))" by (simp add: enumerate_eq_zip)
  then show ?thesis by (simp only: sorted_wrt_map)
qed

lemma last_greatest:
  fixes rows :: "(nat \<times> 'a) list"
  assumes "sorted_wrt (\<lambda>a b. fst a < fst b) rows" and "r \<in> set rows"
  shows "fst r \<le> fst (last rows)"
  using assms
proof (induction rows)
  case (Cons a rows)
  show ?case
  proof (cases "rows = []")
    case False
    then have less: "fst a < fst (last rows)" using Cons.prems(1) by simp
    show ?thesis using Cons.IH Cons.prems False less_imp_le [OF less] by (cases "r = a") simp_all
  qed (use Cons.prems in simp)
qed simp

lemma mem_scoped: "(i, e) \<in> set (scoped s al one es k) \<longleftrightarrow> i < length es \<and> e = es ! i \<and> relevant s al one e = Some k"
  by (auto simp: scoped_def in_set_enumerate_eq)

definition last_seen :: "barrier_stage \<Rightarrow> aliases \<Rightarrow> string \<Rightarrow> zf_event list \<Rightarrow> string \<times> string \<Rightarrow> string \<Rightarrow> nat \<Rightarrow> bool" where
  "last_seen s al one es k ty i \<longleftrightarrow>
     i < length es \<and> relevant s al one (es ! i) = Some k \<and> ev_type (es ! i) = JStr ty
     \<and> (\<forall>j < length es. relevant s al one (es ! j) = Some k \<and> ev_type (es ! j) = JStr ty \<longrightarrow> j \<le> i)"

lemma latest_Some:
  assumes "latest_of (scoped s al one es k) ty = Some (i, e)"
  shows "last_seen s al one es k ty i \<and> e = es ! i"
proof -
  let ?rs = "filter (\<lambda>r. ev_type (snd r) = JStr ty) (scoped s al one es k)"
  have ne: "?rs \<noteq> []" and l: "last ?rs = (i, e)" using assms by (auto simp: latest_of_def split: list.splits)
  have srt: "sorted_wrt (\<lambda>a b. fst a < fst b) ?rs"
    unfolding scoped_def by (intro sorted_wrt_filter sorted_enumerate)
  have "(i, e) \<in> set ?rs" using last_in_set [OF ne] l by simp
  moreover have "j \<le> i" if "j < length es" "relevant s al one (es ! j) = Some k" "ev_type (es ! j) = JStr ty" for j
    using last_greatest [OF srt, of "(j, es ! j)"] that l by (simp add: mem_scoped)
  ultimately show ?thesis by (auto simp: last_seen_def mem_scoped)
qed

lemma latest_None:
  assumes "latest_of (scoped s al one es k) ty = None" and "j < length es" and "relevant s al one (es ! j) = Some k"
  shows "ev_type (es ! j) \<noteq> JStr ty"
proof -
  have "filter (\<lambda>r. ev_type (snd r) = JStr ty) (scoped s al one es k) = []"
    using assms(1) by (auto simp: latest_of_def split: list.splits)
  moreover have "(j, es ! j) \<in> set (scoped s al one es k)" using assms(2,3) by (simp add: mem_scoped)
  ultimately show ?thesis by (force simp: filter_empty_conv)
qed

text \<open>A dependency is met: its success was seen in the run and generation, and no failure of it after that.\<close>

definition met :: "barrier_stage \<Rightarrow> aliases \<Rightarrow> string \<Rightarrow> zf_event list \<Rightarrow> string \<times> string \<Rightarrow> string \<times> string \<Rightarrow> nat \<Rightarrow> bool" where
  "met s al one es k d i \<longleftrightarrow>
     last_seen s al one es k (fst d) i
     \<and> (\<forall>j < length es. i < j \<and> relevant s al one (es ! j) = Some k \<longrightarrow> ev_type (es ! j) \<noteq> JStr (snd d))"

lemma last_seen_unique: "last_seen s al one es k ty i \<Longrightarrow> last_seen s al one es k ty j \<Longrightarrow> i = j"
  unfolding last_seen_def by (meson le_antisym)

lemma verdict_met:
  "dependency_verdict (scoped s al one es k) d = Succeeded e \<longleftrightarrow> (\<exists>i. met s al one es k d i \<and> e = es ! i)"
  (is "?l \<longleftrightarrow> ?r")
proof -
  let ?rows = "scoped s al one es k"
  note some = latest_Some [of s al one es k] and none = latest_None [of s al one es k]
  have later: "j \<le> i \<Longrightarrow> last_seen s al one es k (snd d) j \<Longrightarrow>
      \<forall>j < length es. i < j \<and> relevant s al one (es ! j) = Some k \<longrightarrow> ev_type (es ! j) \<noteq> JStr (snd d)" for i j
    unfolding last_seen_def by (meson leD le_trans)
  show ?thesis
  proof (cases "latest_of ?rows (fst d)")
    case None
    then have "\<not> met s al one es k d i" for i using none [OF None] by (auto simp: met_def last_seen_def)
    with None show ?thesis by (auto simp: dependency_verdict_def split: option.splits)
  next
    case (Some t)
    obtain i where t: "t = (i, es ! i)" "last_seen s al one es k (fst d) i" using some [of "fst d" "fst t" "snd t"] Some by (cases t) auto
    have only: "met s al one es k d i' \<Longrightarrow> i' = i" for i' using last_seen_unique [OF _ t(2)] by (simp add: met_def)
    show ?thesis
    proof (cases "latest_of ?rows (snd d)")
      case None
      then have m: "met s al one es k d i" using none [OF None] t(2) by (auto simp: met_def)
      have v: "dependency_verdict ?rows d = Succeeded (es ! i)" by (simp add: dependency_verdict_def Some None t)
      have "?r \<longleftrightarrow> e = es ! i" using m only by blast
      with v show ?thesis by auto
    next
      case f: (Some f)
      obtain j where j: "f = (j, es ! j)" "last_seen s al one es k (snd d) j" using some [of "snd d" "fst f" "snd f"] f by (cases f) auto
      have m: "met s al one es k d i \<longleftrightarrow> \<not> i < j"
      proof
        assume "met s al one es k d i"
        then show "\<not> i < j" using j(2) by (auto simp: met_def last_seen_def)
      next
        assume "\<not> i < j"
        then show "met s al one es k d i" using later [of j i] j(2) t(2) by (simp add: met_def)
      qed
      have v: "dependency_verdict ?rows d = (if i < j then Failed (es ! j) else Succeeded (es ! i))"
        by (simp add: dependency_verdict_def Some f t j)
      have "?r \<longleftrightarrow> \<not> i < j \<and> e = es ! i" using m only by blast
      with v show ?thesis by auto
    qed
  qed
qed

lemma verdicts_all_met:
  fixes s al one es k
  defines "vs \<equiv> map (dependency_verdict (scoped s al one es k)) (zip (bs_required s) (bs_failure s))"
  shows "failed_of vs = [] \<and> Pending \<notin> set vs \<longleftrightarrow> (\<forall>d \<in> set (zip (bs_required s) (bs_failure s)). \<exists>i. met s al one es k d i)"
    and "failed_of vs = [] \<Longrightarrow> Pending \<notin> set vs \<Longrightarrow> length (succeeded_of vs) = length vs"
proof -
  have "failed_of vs = [] \<and> Pending \<notin> set vs \<longleftrightarrow> (\<forall>v \<in> set vs. \<exists>e. v = Succeeded e)"
    by (induction vs) (auto simp: failed_of_def map_filter_simps split: verdict.splits)
  moreover have "(\<forall>v \<in> set vs. \<exists>e. v = Succeeded e) \<longleftrightarrow>
      (\<forall>d \<in> set (zip (bs_required s) (bs_failure s)). \<exists>i. met s al one es k d i)"
    unfolding vs_def set_map ball_simps verdict_met by blast
  ultimately show "failed_of vs = [] \<and> Pending \<notin> set vs \<longleftrightarrow> (\<forall>d \<in> set (zip (bs_required s) (bs_failure s)). \<exists>i. met s al one es k d i)"
    by simp
  show "failed_of vs = [] \<Longrightarrow> Pending \<notin> set vs \<Longrightarrow> length (succeeded_of vs) = length vs"
    by (induction vs) (auto simp: failed_of_def succeeded_of_def map_filter_simps split: verdict.splits)
qed

section \<open>Verdicts\<close>

lemma decision_keys:
  "dict_get (bd_payload (satisfied_decision s k sel)) ''workflow_run_id'' = JStr (fst k)"
  "dict_get (bd_payload (satisfied_decision s k sel)) ''generation_key'' = JStr (snd k)"
  "dict_get (bd_payload (satisfied_decision s k sel)) ''barrier_id'' = JStr (bs_barrier_id s)"
  "dict_get (bd_payload (satisfied_decision s k sel)) ''barrier_digest'' = JStr (bs_barrier_digest s)"
  "dict_get (bd_payload (satisfied_decision s k sel)) ''source_fingerprint'' = JStr (stable_digest (JList (map ev_id sel)))"
  "dict_get (bd_payload (satisfied_decision s k sel)) ''propagation_digest'' = JStr (stable_digest (JObj (propagated_refs sel)))"
  "dict_get (bd_payload (blocked_decision s k sel)) ''workflow_run_id'' = JStr (fst k)"
  "dict_get (bd_payload (blocked_decision s k sel)) ''generation_key'' = JStr (snd k)"
  "dict_get (bd_payload (blocked_decision s k sel)) ''barrier_id'' = JStr (bs_barrier_id s)"
  "dict_get (bd_payload (blocked_decision s k sel)) ''barrier_digest'' = JStr (bs_barrier_digest s)"
  "dict_get (bd_payload (blocked_decision s k sel)) ''source_fingerprint'' = JStr (stable_digest (JList (map ev_id sel)))"
  by (simp_all add: satisfied_decision_def blocked_decision_def Let_def dict_update_def [of _ "_ # _"])

lemma digest_text [simp]: "strip (stable_digest v) = stable_digest v" "stable_digest v \<noteq> []"
proof -
  show "strip (stable_digest v) = stable_digest v" by (simp add: stable_digest_def sha256_hex_def)
  have "length (stable_digest v) = 64" by (simp add: stable_digest_def)
  then show "stable_digest v \<noteq> []" by auto
qed

lemma group_keys_mem: "k \<in> set (group_keys s al one es) \<longleftrightarrow> (\<exists>e \<in> set es. relevant s al one e = Some k)"
  by (simp add: group_keys_def set_map_filter)

definition decides :: "barrier_stage \<Rightarrow> aliases \<Rightarrow> string \<Rightarrow> zf_event list \<Rightarrow> string \<times> string \<Rightarrow> barrier_decision \<Rightarrow> bool" where
  "decides s al one es k d \<longleftrightarrow> k \<in> set (group_keys s al one es)
     \<and> group_decision s (settlements s es) (blocked_fingerprints s es) (scoped s al one es k) k = Some d"

lemma reconcile_stage_decides:
  "reconcile_stage s al one es = Inr ds \<Longrightarrow> d \<in> set ds \<longleftrightarrow> (\<exists>k. decides s al one es k d)"
  by (auto simp: reconcile_stage_def decides_def set_map_filter split: if_splits)

lemma decides_kind:
  assumes "decides s al one es k d"
  shows "(d = satisfied_decision s k (succeeded_of (map (dependency_verdict (scoped s al one es k)) (zip (bs_required s) (bs_failure s))))
        \<and> failed_of (map (dependency_verdict (scoped s al one es k)) (zip (bs_required s) (bs_failure s))) = []
        \<and> Pending \<notin> set (map (dependency_verdict (scoped s al one es k)) (zip (bs_required s) (bs_failure s))))
    \<or> (d = blocked_decision s k (failed_of (map (dependency_verdict (scoped s al one es k)) (zip (bs_required s) (bs_failure s))))
        \<and> failed_of (map (dependency_verdict (scoped s al one es k)) (zip (bs_required s) (bs_failure s))) \<noteq> [])"
  using assms by (auto simp: decides_def group_decision_def Let_def split: if_splits)

text \<open>C14: a barrier opens exactly when every dependency has succeeded. A stage is declared satisfied for a run and a
  generation only if each required event was seen in that run and generation with no failure of the same
  dependency after it; and when this is so and the run and generation were not declared before, the
  declaration is made.\<close>

theorem barrier_exact:
  assumes "reconcile_stage s al one es = Inr ds" and "is_barrier s"
  shows "(\<forall>d \<in> set ds. bd_event_type d = SATISFIED_EVENT \<longrightarrow>
      (\<exists>k. dict_get (bd_payload d) ''workflow_run_id'' = JStr (fst k) \<and> dict_get (bd_payload d) ''generation_key'' = JStr (snd k)
         \<and> (\<forall>p \<in> set (zip (bs_required s) (bs_failure s)). \<exists>i. met s al one es k p i)))
    \<and> (\<forall>k. (\<forall>p \<in> set (zip (bs_required s) (bs_failure s)). \<exists>i. met s al one es k p i) \<and> k \<notin> fst ` set (settlements s es) \<longrightarrow>
      (\<exists>d \<in> set ds. bd_event_type d = SATISFIED_EVENT \<and> dict_get (bd_payload d) ''workflow_run_id'' = JStr (fst k)
         \<and> dict_get (bd_payload d) ''generation_key'' = JStr (snd k)))"
proof (intro conjI ballI allI impI)
  fix d assume d: "d \<in> set ds" "bd_event_type d = SATISFIED_EVENT"
  then obtain k where k: "decides s al one es k d" using reconcile_stage_decides [OF assms(1)] by blast
  have "bd_event_type (blocked_decision s k f) \<noteq> SATISFIED_EVENT" for f
    by (simp add: blocked_decision_def Let_def SATISFIED_EVENT_def BLOCKED_EVENT_def)
  with decides_kind [OF k] d(2) verdicts_all_met(1) [of s al one es k]
  show "\<exists>k. dict_get (bd_payload d) ''workflow_run_id'' = JStr (fst k) \<and> dict_get (bd_payload d) ''generation_key'' = JStr (snd k)
         \<and> (\<forall>p \<in> set (zip (bs_required s) (bs_failure s)). \<exists>i. met s al one es k p i)"
    by (intro exI [of _ k]) (auto simp: decision_keys)
next
  fix k assume k: "(\<forall>p \<in> set (zip (bs_required s) (bs_failure s)). \<exists>i. met s al one es k p i) \<and> k \<notin> fst ` set (settlements s es)"
  let ?vs = "map (dependency_verdict (scoped s al one es k)) (zip (bs_required s) (bs_failure s))"
  have ok: "failed_of ?vs = []" "Pending \<notin> set ?vs" using verdicts_all_met(1) [of s al one es k] k by blast+
  with verdicts_all_met(2) [of s al one es k] assms(2) have len: "length (succeeded_of ?vs) = length (bs_required s)"
    by (simp add: is_barrier_def)
  have "zip (bs_required s) (bs_failure s) \<noteq> []" using assms(2) by (auto simp: is_barrier_def)
  then obtain p where "p \<in> set (zip (bs_required s) (bs_failure s))" by (cases "zip (bs_required s) (bs_failure s)") auto
  with k obtain i where "met s al one es k p i" by blast
  then have "k \<in> set (group_keys s al one es)" unfolding group_keys_mem met_def last_seen_def using nth_mem by blast
  moreover have "\<not> list_ex (\<lambda>(k', digest, prior). k' = k \<and> P digest prior) (settlements s es)" for P
    using k by (force simp: list_ex_iff)
  ultimately have "decides s al one es k (satisfied_decision s k (succeeded_of ?vs))"
    using ok len by (simp add: decides_def group_decision_def Let_def)
  then show "\<exists>d \<in> set ds. bd_event_type d = SATISFIED_EVENT \<and> dict_get (bd_payload d) ''workflow_run_id'' = JStr (fst k)
         \<and> dict_get (bd_payload d) ''generation_key'' = JStr (snd k)"
    using reconcile_stage_decides [OF assms(1)]
    by (intro bexI [of _ "satisfied_decision s k (succeeded_of ?vs)"]) (auto simp: decision_keys, simp add: satisfied_decision_def Let_def)
qed

definition demo_stage :: barrier_stage where
  "demo_stage = \<lparr>bs_id = ''join'', bs_barrier_id = ''b'', bs_barrier_digest = ''d'', bs_dependencies = [''x'', ''y''],
     bs_required = [''x.done'', ''y.done''], bs_failure = [''x.failed'', ''y.failed'']\<rparr>"

definition demo_rows :: "zf_event list" where
  "demo_rows = [new_event (''e1'', ''t1'') ''x.failed'', new_event (''e2'', ''t2'') ''y.done'', new_event (''e3'', ''t3'') ''x.done'']"

lemma demo_barrier: "is_barrier demo_stage"
  by (simp add: is_barrier_def demo_stage_def)

lemma demo_relevant: "e \<in> set demo_rows \<Longrightarrow> relevant demo_stage [] ''R'' e = Some (''R'', generation_key [])"
  by (auto simp: demo_rows_def relevant_def new_event_def payload_of_def demo_stage_def type_in_def str_or_def event_run_id_def
      alias_get_def SATISFIED_EVENT_def BLOCKED_EVENT_def lower_def Let_def)

lemma demo_reconciles: "\<exists>ds. reconcile_stage demo_stage [] ''R'' demo_rows = Inr ds"
  by (simp add: reconcile_stage_def demo_rows_def bad_settlement_def new_event_def SATISFIED_EVENT_def)

theorem barrier_exact_witness:
  "\<exists>ds. reconcile_stage demo_stage [] ''R'' demo_rows = Inr ds
     \<and> (\<exists>d. d \<in> set ds \<and> bd_event_type d = SATISFIED_EVENT \<and> dict_get (bd_payload d) ''workflow_run_id'' = JStr ''R'')"
proof -
  obtain ds where ds: "reconcile_stage demo_stage [] ''R'' demo_rows = Inr ds" using demo_reconciles by blast
  have rel: "relevant demo_stage [] ''R'' (demo_rows ! i) = Some (''R'', generation_key [])" if "i < 3" for i
    by (rule demo_relevant, rule nth_mem) (use that in \<open>simp add: demo_rows_def\<close>)
  have ev: "ev_type (demo_rows ! i) = JStr ([''x.failed'', ''y.done'', ''x.done''] ! i)" if "i < 3" for i
    using that by (auto simp: demo_rows_def new_event_def less_Suc_eq numeral_3_eq_3)
  have len: "length demo_rows = 3" by (simp add: demo_rows_def)
  have "met demo_stage [] ''R'' demo_rows (''R'', generation_key []) (''x.done'', ''x.failed'') 2"
    "met demo_stage [] ''R'' demo_rows (''R'', generation_key []) (''y.done'', ''y.failed'') 1"
    unfolding met_def last_seen_def len by (auto simp: rel ev less_Suc_eq numeral_3_eq_3)
  moreover have "settlements demo_stage demo_rows = []"
    by (simp add: settlements_def demo_rows_def new_event_def SATISFIED_EVENT_def)
  ultimately have "\<exists>d \<in> set ds. bd_event_type d = SATISFIED_EVENT \<and> dict_get (bd_payload d) ''workflow_run_id'' = JStr (fst (''R'', generation_key []))
         \<and> dict_get (bd_payload d) ''generation_key'' = JStr (snd (''R'', generation_key []))"
    using barrier_exact [OF ds demo_barrier, THEN conjunct2, rule_format, of "(''R'', generation_key [])"]
    by (auto simp: demo_stage_def)
  with ds show ?thesis by auto
qed

section \<open>A verdict is given once\<close>

lemma decision_event_fields:
  "ev_type (decision_event fr d) = JStr (bd_event_type d)" "payload_of (decision_event fr d) = bd_payload d"
  by (simp_all add: decision_event_def new_event_def payload_of_def)

lemma decision_types: "bd_event_type (satisfied_decision s k sel) = SATISFIED_EVENT" "bd_event_type (blocked_decision s k sel) = BLOCKED_EVENT"
  by (simp_all add: satisfied_decision_def blocked_decision_def Let_def)

lemma event_types_differ [simp]: "SATISFIED_EVENT \<noteq> BLOCKED_EVENT" "BLOCKED_EVENT \<noteq> SATISFIED_EVENT"
  by (simp_all add: SATISFIED_EVENT_def BLOCKED_EVENT_def)

lemma verdict_irrelevant:
  "bd_event_type d \<in> {SATISFIED_EVENT, BLOCKED_EVENT} \<Longrightarrow> relevant s al one (decision_event fr d) = None"
  by (auto simp: relevant_def decision_event_fields Let_def)

lemma scoped_append:
  assumes "\<And>e. e \<in> set new \<Longrightarrow> relevant s al one e = None"
  shows "scoped s al one (es @ new) k = scoped s al one es k"
proof -
  have "filter (\<lambda>(i, e). relevant s al one e = Some k) (enumerate n new) = []" for n
    using assms by (auto simp: filter_empty_conv in_set_enumerate_eq)
  then show ?thesis by (simp add: scoped_def enumerate_append_eq)
qed

lemma map_filter_append: "List.map_filter f (xs @ ys) = List.map_filter f xs @ List.map_filter f ys"
  by (induction xs) (auto simp: map_filter_simps split: option.splits)

lemma map_filter_None: "(\<And>x. x \<in> set xs \<Longrightarrow> f x = None) \<Longrightarrow> List.map_filter f xs = []"
  by (induction xs) (auto simp: map_filter_simps)

lemma group_keys_append:
  assumes "\<And>e. e \<in> set new \<Longrightarrow> relevant s al one e = None"
  shows "group_keys s al one (es @ new) = group_keys s al one es"
proof -
  have "List.map_filter (relevant s al one) new = []" using assms by (induction new) (auto simp: map_filter_simps)
  then show ?thesis by (simp add: group_keys_def map_filter_append)
qed

lemma relevant_scope:
  assumes "relevant s al one e = Some k" and "\<And>x t. map_of al x = Some t \<Longrightarrow> strip t = t" and "strip one = one"
  shows "fst k \<noteq> [] \<and> strip (fst k) = fst k \<and> snd k \<noteq> [] \<and> strip (snd k) = snd k"
proof -
  have fr: "strip (first_resolved al ss) = first_resolved al ss" for ss
    using assms(2) by (induction ss) (auto simp: alias_get_def split: option.splits)
  have k: "k = (str_or (event_run_id al e) one, generation_key (payload_of e))" "str_or (event_run_id al e) one \<noteq> []"
    using assms(1) by (auto simp: relevant_def Let_def split: if_splits)
  have "strip (str_or (event_run_id al e) one) = str_or (event_run_id al e) one"
    using assms(3) fr by (simp add: str_or_def event_run_id_def del: first_resolved.simps)
  with k show ?thesis by (simp add: generation_key_def Let_def)
qed

lemma verdict_recorded:
  assumes "decides s al one es k d" and "is_barrier s" and "fst k \<noteq> [] \<and> strip (fst k) = fst k \<and> snd k \<noteq> [] \<and> strip (snd k) = snd k"
    and "decision_event fr d \<in> set new"
  shows "group_decision s (settlements s (es @ new)) (blocked_fingerprints s (es @ new)) (scoped s al one es k) k = None"
proof -
  let ?e = "decision_event fr d"
  let ?vs = "map (dependency_verdict (scoped s al one es k)) (zip (bs_required s) (bs_failure s))"
  have bar: "bs_barrier_id s \<noteq> []" "bs_barrier_digest s \<noteq> []" using assms(2) by (simp_all add: is_barrier_def)
  from decides_kind [OF assms(1)] consider
      (sat) "d = satisfied_decision s k (succeeded_of ?vs)" "failed_of ?vs = []" "Pending \<notin> set ?vs"
    | (blk) "d = blocked_decision s k (failed_of ?vs)" "failed_of ?vs \<noteq> []" by blast
  then show ?thesis
  proof cases
    case sat
    then have scope: "of_barrier s ?e" "verdict_scope ?e = k" "ev_type ?e = JStr SATISFIED_EVENT"
      using assms(3) bar by (simp_all add: of_barrier_def verdict_scope_def decision_event_fields sget_def Let_def decision_keys decision_types)
    have "sget (payload_of ?e) ''propagation_digest'' = stable_digest (JObj (propagated_refs (succeeded_of ?vs)))"
      using sat by (simp add: decision_event_fields sget_def decision_keys)
    then have "(k, stable_digest (JObj (propagated_refs (succeeded_of ?vs))), propagated_refs [?e]) \<in> set (settlements s (es @ new))"
      using scope assms(4) by (force simp: settlements_def Let_def)
    then show ?thesis using sat(2) by (force simp: group_decision_def Let_def list_ex_iff)
  next
    case blk
    then have scope: "of_barrier s ?e" "verdict_scope ?e = k" "ev_type ?e = JStr BLOCKED_EVENT"
      using assms(3) bar by (simp_all add: of_barrier_def verdict_scope_def decision_event_fields sget_def Let_def decision_keys decision_types)
    have "sget (payload_of ?e) ''source_fingerprint'' = stable_digest (JList (map ev_id (failed_of ?vs)))"
      using blk by (simp add: decision_event_fields sget_def decision_keys)
    then have "(k, stable_digest (JList (map ev_id (failed_of ?vs)))) \<in> set (blocked_fingerprints s (es @ new))"
      using scope assms(4) by (force simp: blocked_fingerprints_def)
    with blk(2) show ?thesis by (simp add: group_decision_def Let_def)
  qed
qed

lemma group_decision_mono:
  assumes "group_decision s settled blocked rows k = None" and "set settled \<subseteq> set settled'" and "set blocked \<subseteq> set blocked'"
  shows "group_decision s settled' blocked' rows k = None"
proof -
  have "list_ex P settled'" if "list_ex P settled" for P using that assms(2) by (auto simp: list_ex_iff)
  with assms(1,3) show ?thesis unfolding group_decision_def Let_def by (auto split: if_splits)
qed

text \<open>C15: a barrier speaks once. After the decisions of a pass are written to the log as events, whatever ids and
  times they get, the next pass over the longer log with the same run names decides nothing.\<close>

theorem barrier_fires_once:
  assumes "reconcile_stage s al one es = Inr ds" and "is_barrier s"
    and "\<And>x t. map_of al x = Some t \<Longrightarrow> strip t = t" and "strip one = one"
  shows "reconcile_stage s al one (es @ map (\<lambda>d. decision_event (fr d) d) ds) = Inr []"
proof -
  let ?new = "map (\<lambda>d. decision_event (fr d) d) ds"
  have kinds: "bd_event_type d \<in> {SATISFIED_EVENT, BLOCKED_EVENT}" if "d \<in> set ds" for d
  proof -
    from that reconcile_stage_decides [OF assms(1)] obtain k where "decides s al one es k d" by blast
    from decides_kind [OF this] show ?thesis by (auto simp: decision_types)
  qed
  have irr: "relevant s al one e = None" if new: "e \<in> set ?new" for e
  proof -
    obtain d where "d \<in> set ds" "e = decision_event (fr d) d" using new by auto
    then show ?thesis using verdict_irrelevant [OF kinds] by simp
  qed
  have good: "\<not> bad_settlement s e" if new: "e \<in> set ?new" for e
  proof -
    obtain d k where d: "e = decision_event (fr d) d" "decides s al one es k d"
      using new reconcile_stage_decides [OF assms(1)] by auto
    from decides_kind [OF d(2)] have "strip (sget (payload_of e) ''source_fingerprint'') \<noteq> []"
      by (auto simp: d(1) decision_event_fields sget_def decision_keys)
    then show ?thesis by (simp add: bad_settlement_def)
  qed
  have ok: "\<not> list_ex (bad_settlement s) (es @ ?new)"
    using assms(1) good by (auto simp: reconcile_stage_def list_ex_iff split: if_splits)
  have "group_decision s (settlements s (es @ ?new)) (blocked_fingerprints s (es @ ?new)) (scoped s al one (es @ ?new) k) k = None"
    if k: "k \<in> set (group_keys s al one (es @ ?new))" for k
  proof -
    have k': "k \<in> set (group_keys s al one es)" using k group_keys_append [of ?new s al one es] irr by simp
    then obtain e where "relevant s al one e = Some k" unfolding group_keys_mem by blast
    note scope = relevant_scope [OF this assms(3,4)]
    have "scoped s al one (es @ ?new) k = scoped s al one es k" using irr by (rule scoped_append)
    moreover have "group_decision s (settlements s (es @ ?new)) (blocked_fingerprints s (es @ ?new)) (scoped s al one es k) k = None"
    proof (cases "group_decision s (settlements s es) (blocked_fingerprints s es) (scoped s al one es k) k")
      case None
      then show ?thesis by (rule group_decision_mono) (auto simp: settlements_def blocked_fingerprints_def)
    next
      case (Some d)
      then have dec: "decides s al one es k d" using k' by (simp add: decides_def)
      then have "d \<in> set ds" using reconcile_stage_decides [OF assms(1)] by blast
      then have "decision_event (fr d) d \<in> set ?new" by simp
      from verdict_recorded [OF dec assms(2) scope this] show ?thesis .
    qed
    ultimately show ?thesis by simp
  qed
  then have "List.map_filter (\<lambda>k. group_decision s (settlements s (es @ ?new)) (blocked_fingerprints s (es @ ?new))
      (scoped s al one (es @ ?new) k) k) (group_keys s al one (es @ ?new)) = []"
    by (intro map_filter_None)
  with ok show ?thesis by (simp add: reconcile_stage_def)
qed

theorem barrier_fires_once_witness:
  "\<exists>ds. reconcile_stage demo_stage [] ''R'' demo_rows = Inr ds
     \<and> reconcile_stage demo_stage [] ''R'' (demo_rows @ map (decision_event (''e4'', ''t4'')) ds) = Inr []"
proof -
  obtain ds where ds: "reconcile_stage demo_stage [] ''R'' demo_rows = Inr ds" using demo_reconciles by blast
  have "reconcile_stage demo_stage [] ''R'' (demo_rows @ map (\<lambda>d. decision_event (''e4'', ''t4'') d) ds) = Inr []"
    by (rule barrier_fires_once [OF ds demo_barrier]) (simp_all add: strip_def lstrip_def is_space_def)
  with ds show ?thesis by auto
qed

end
