(* ===== verification/Fanout_Identity.thy ===== *)
theory Fanout_Identity
  imports Run_Scope
begin

text \<open>
  \<open>runtime/fanout_identity.py\<close>: which fanout instances are current. Every start of a fanout with the same
  logical key supersedes the one before; events of superseded instances are kept apart as stale. The
  projection is derived from the events alone.
\<close>

section \<open>Rows\<close>

record fanout_ref =
  fr_event_id :: json
  fr_event_type :: json
  fr_fanout_id :: string
  fr_child_id :: string
  fr_task_id :: string
  fr_reason :: string
  fr_stale_reason :: string

record fanout_issue =
  fx_event_id :: json
  fx_event_type :: json
  fx_fanout_id :: string
  fx_reason :: string

record fanout_row =
  fi_id :: string
  fi_key :: string
  fi_current :: bool
  fi_stage_id :: string
  fi_topology :: string
  fi_target_ref :: string
  fi_task_id :: string
  fi_pdd_id :: string
  fi_feature_id :: string
  fi_wave_alias :: string
  fi_wave_index :: "int option"
  fi_wave_total :: "int option"
  fi_attempt :: "int option"
  fi_started_event_id :: json
  fi_superseded_by :: string
  fi_stale_reason :: string
  fi_child_events :: "fanout_ref list"
  fi_aggregate_events :: "fanout_ref list"
  fi_stale_events :: "fanout_ref list"

definition child_event_types :: "string list" where
  "child_event_types = [''fanout.child.queued'', ''fanout.child.dispatched'', ''fanout.child.completed'', ''fanout.child.failed'']"

definition aggregate_event_types :: "string list" where
  "aggregate_event_types = [''fanout.aggregate.started'', ''fanout.aggregate.completed'', ''fanout.timed_out'', ''fanout.cancelled'']"

definition fanout_identity_event_types :: "string list" where
  "fanout_identity_event_types =
     [''fanout.started''] @ child_event_types @ [''fanout.child.stale_completion''] @ aggregate_event_types"

definition fanout_identity_scope_digest :: "string \<Rightarrow> string \<Rightarrow> string" where
  "fanout_identity_scope_digest trigger_event_id identity_scope = take 12 (sha256_hex (trigger_event_id @ [char_of (0 :: nat)] @ identity_scope))"

definition event_task :: "zf_event \<Rightarrow> string" where
  "event_task e = text_of (py_or (ev_task_id e) (dict_get (payload_of e) ''task_id''))"

text \<open>The first of the keys with a non-blank text, stripped.\<close>

fun first_payload_string :: "pydict \<Rightarrow> string list \<Rightarrow> string" where
  "first_payload_string payload [] = []"
| "first_payload_string payload (k # ks) =
     (case dict_get payload k of
        JStr s \<Rightarrow> if strip s \<noteq> [] then strip s else first_payload_string payload ks
      | _ \<Rightarrow> first_payload_string payload ks)"

fun first_payload_int :: "pydict \<Rightarrow> string list \<Rightarrow> int option" where
  "first_payload_int payload [] = None"
| "first_payload_int payload (k # ks) =
     (case dict_get payload k of
        JInt i \<Rightarrow> Some i
      | JStr s \<Rightarrow> if strip s \<noteq> [] \<and> list_all is_digit (strip s) then parse_int (strip s) else first_payload_int payload ks
      | _ \<Rightarrow> first_payload_int payload ks)"

definition reason_of :: "pydict \<Rightarrow> string" where
  "reason_of payload = first_payload_string payload [''reason'', ''error'', ''message'', ''summary'']"

definition logical_key :: "string list \<Rightarrow> string" where
  "logical_key parts = str_or (join ''|'' (filter (\<lambda>p. p \<noteq> []) parts)) ''global''"

definition started_key :: "zf_event \<Rightarrow> string" where
  "started_key e =
     logical_key [sget (payload_of e) ''stage_id'', sget (payload_of e) ''target_ref'', event_task e,
                  sget (payload_of e) ''pdd_id'', sget (payload_of e) ''feature_id'']"

definition fanout_of :: "zf_event \<Rightarrow> string" where
  "fanout_of e = sget (payload_of e) ''fanout_id''"

definition identity_from_started :: "zf_event \<Rightarrow> fanout_row" where
  "identity_from_started e =
     (let p = payload_of e in
      \<lparr>fi_id = fanout_of e, fi_key = started_key e, fi_current = True, fi_stage_id = sget p ''stage_id'',
       fi_topology = sget p ''topology'', fi_target_ref = sget p ''target_ref'', fi_task_id = event_task e,
       fi_pdd_id = sget p ''pdd_id'', fi_feature_id = sget p ''feature_id'',
       fi_wave_alias = first_payload_string p [''wave_alias'', ''wave_id''],
       fi_wave_index = first_payload_int p [''wave_index'', ''index''],
       fi_wave_total = first_payload_int p [''wave_total'', ''expected_total'', ''total''],
       fi_attempt = first_payload_int p [''attempt'', ''wave_attempt'', ''fanout_attempt''],
       fi_started_event_id = ev_id e, fi_superseded_by = [], fi_stale_reason = [],
       fi_child_events = [], fi_aggregate_events = [], fi_stale_events = []\<rparr>)"

definition event_ref :: "zf_event \<Rightarrow> string \<Rightarrow> string \<Rightarrow> fanout_ref" where
  "event_ref e child stale =
     \<lparr>fr_event_id = ev_id e, fr_event_type = ev_type e, fr_fanout_id = fanout_of e, fr_child_id = child,
      fr_task_id = event_task e, fr_reason = reason_of (payload_of e), fr_stale_reason = stale\<rparr>"

definition fanout_issue_of :: "zf_event \<Rightarrow> string \<Rightarrow> string \<Rightarrow> fanout_issue" where
  "fanout_issue_of e fanout_id reason =
     \<lparr>fx_event_id = ev_id e, fx_event_type = ev_type e, fx_fanout_id = fanout_id, fx_reason = reason\<rparr>"

section \<open>The projection\<close>

record fanout_state =
  fs_identities :: "(string \<times> fanout_row) list"
  fs_current_by_key :: "(string \<times> string) list"
  fs_stale_events :: "fanout_ref list"
  fs_issues :: "fanout_issue list"

definition no_fanouts :: fanout_state where
  "no_fanouts = \<lparr>fs_identities = [], fs_current_by_key = [], fs_stale_events = [], fs_issues = []\<rparr>"

definition supersede_previous :: "string \<Rightarrow> string \<Rightarrow> fanout_state \<Rightarrow> (string \<times> fanout_row) list" where
  "supersede_previous key fanout_id st =
     (case map_of (fs_current_by_key st) key of
        None \<Rightarrow> fs_identities st
      | Some previous_id \<Rightarrow>
          (case map_of (fs_identities st) previous_id of
             None \<Rightarrow> fs_identities st
           | Some previous \<Rightarrow>
               AList.update previous_id
                 (previous\<lparr>fi_current := False, fi_superseded_by := fanout_id, fi_stale_reason := ''superseded_by_latest_fanout''\<rparr>)
                 (fs_identities st)))"

definition start_fanout :: "zf_event \<Rightarrow> fanout_state \<Rightarrow> fanout_state" where
  "start_fanout e st =
     st\<lparr>fs_identities := AList.update (fanout_of e) (identity_from_started e) (supersede_previous (started_key e) (fanout_of e) st),
        fs_current_by_key := AList.update (started_key e) (fanout_of e) (fs_current_by_key st)\<rparr>"

text \<open>What an event adds to the row of its fanout, and whether it is stale.\<close>

definition attach_event :: "zf_event \<Rightarrow> fanout_row \<Rightarrow> fanout_row \<times> fanout_ref list" where
  "attach_event e row =
     (let child = sget (payload_of e) ''child_id'' in
      if ev_type e = JStr ''fanout.child.stale_completion'' then
        (let ref = event_ref e child (str_or (reason_of (payload_of e)) ''explicit_stale_completion'')
         in (row\<lparr>fi_stale_events := fi_stale_events row @ [ref]\<rparr>, [ref]))
      else if \<not> fi_current row then
        (let ref = event_ref e child (str_or (fi_stale_reason row) ''fanout_instance_not_current'')
         in (row\<lparr>fi_stale_events := fi_stale_events row @ [ref]\<rparr>, [ref]))
      else if type_in e child_event_types then (row\<lparr>fi_child_events := fi_child_events row @ [event_ref e child []]\<rparr>, [])
      else (row\<lparr>fi_aggregate_events := fi_aggregate_events row @ [event_ref e [] []]\<rparr>, []))"

definition identity_step :: "zf_event \<Rightarrow> fanout_state \<Rightarrow> fanout_state" where
  "identity_step e st =
     (if \<not> type_in e fanout_identity_event_types then st
      else if fanout_of e = [] then st\<lparr>fs_issues := fs_issues st @ [fanout_issue_of e [] ''missing_fanout_id'']\<rparr>
      else if ev_type e = JStr ''fanout.started'' then start_fanout e st
      else
        (case map_of (fs_identities st) (fanout_of e) of
           None \<Rightarrow>
             st\<lparr>fs_issues := fs_issues st @ [fanout_issue_of e (fanout_of e) ''fanout_event_without_started''],
                fs_stale_events := fs_stale_events st @ [event_ref e [] ''fanout_event_without_started'']\<rparr>
         | Some row \<Rightarrow>
             (let (row', stale) = attach_event e row in
              st\<lparr>fs_identities := AList.update (fanout_of e) row' (fs_identities st),
                 fs_stale_events := fs_stale_events st @ stale\<rparr>)))"

definition fanout_fold :: "zf_event list \<Rightarrow> fanout_state" where
  "fanout_fold events = fold identity_step events no_fanouts"

record fanout_projection =
  fp_instances :: "fanout_row list"
  fp_stale_events :: "fanout_ref list"
  fp_issues :: "fanout_issue list"

definition build_fanout_identity_projection :: "zf_event list \<Rightarrow> fanout_projection" where
  "build_fanout_identity_projection events =
     (let st = fanout_fold events in
      \<lparr>fp_instances = sort_key (\<lambda>r. (fi_key r, if fi_current r then ''0'' else ''1'', fi_id r)) (map snd (fs_identities st)),
       fp_stale_events = fs_stale_events st, fp_issues = fs_issues st\<rparr>)"

definition current_instances :: "fanout_projection \<Rightarrow> fanout_row list" where
  "current_instances p = filter fi_current (fp_instances p)"

record fanout_current_status =
  fc_known :: bool
  fc_current :: bool
  fc_key :: string
  fc_superseded_by :: string
  fc_stale_reason :: string

definition fanout_current_status :: "zf_event list \<Rightarrow> string \<Rightarrow> fanout_current_status" where
  "fanout_current_status events fanout_id =
     (case (if fanout_id = [] then None else find (\<lambda>r. fi_id r = fanout_id) (fp_instances (build_fanout_identity_projection events))) of
        None \<Rightarrow> \<lparr>fc_known = False, fc_current = True, fc_key = [], fc_superseded_by = [], fc_stale_reason = []\<rparr>
      | Some r \<Rightarrow> \<lparr>fc_known = True, fc_current = fi_current r, fc_key = fi_key r, fc_superseded_by = fi_superseded_by r,
                   fc_stale_reason = fi_stale_reason r\<rparr>)"

definition current_sibling_instance :: "zf_event list \<Rightarrow> string \<Rightarrow> fanout_row option" where
  "current_sibling_instance events fanout_id =
     (let p = build_fanout_identity_projection events in
      if fanout_id = [] then None
      else
        (case find (\<lambda>r. fi_id r = fanout_id) (fp_instances p) of
           None \<Rightarrow> None
         | Some r \<Rightarrow> find (\<lambda>c. fi_key c = fi_key r \<and> fi_id c \<noteq> fanout_id) (current_instances p)))"

section \<open>Starts\<close>

definition is_start :: "zf_event \<Rightarrow> bool" where
  "is_start e \<longleftrightarrow> ev_type e = JStr ''fanout.started'' \<and> fanout_of e \<noteq> []"

definition starts :: "zf_event list \<Rightarrow> (string \<times> string) list" where
  "starts es = map (\<lambda>e. (fanout_of e, started_key e)) (filter is_start es)"

definition latest_start :: "zf_event list \<Rightarrow> string \<Rightarrow> string option" where
  "latest_start es key = map_of (rev (map (\<lambda>s. (snd s, fst s)) (starts es))) key"

text \<open>A fanout id is used for one logical key.\<close>

definition keyed_starts :: "zf_event list \<Rightarrow> bool" where
  "keyed_starts es \<longleftrightarrow> (\<forall>a \<in> set (starts es). \<forall>b \<in> set (starts es). fst a = fst b \<longrightarrow> snd a = snd b)"

lemma starts_append: "starts (es @ es') = starts es @ starts es'"
  by (simp add: starts_def)

lemma keyed_append: "keyed_starts (es @ es') \<Longrightarrow> keyed_starts es"
  by (auto simp: keyed_starts_def starts_append)

lemma latest_start_snoc:
  "latest_start (es @ [e]) key = (if is_start e \<and> started_key e = key then Some (fanout_of e) else latest_start es key)"
  by (auto simp: latest_start_def starts_def)

lemma latest_start_mem: "latest_start es key = Some f \<Longrightarrow> (f, key) \<in> set (starts es)"
  unfolding latest_start_def by (force dest: map_of_SomeD)

definition fanout_inv :: "zf_event list \<Rightarrow> fanout_state \<Rightarrow> bool" where
  "fanout_inv es st \<longleftrightarrow>
     (\<forall>k. map_of (fs_current_by_key st) k = latest_start es k)
     \<and> (\<forall>f. map_of (fs_identities st) f = None \<longleftrightarrow> f \<notin> fst ` set (starts es))
     \<and> (\<forall>f r. map_of (fs_identities st) f = Some r \<longrightarrow>
          fi_id r = f \<and> (f, fi_key r) \<in> set (starts es) \<and> (fi_current r \<longleftrightarrow> latest_start es (fi_key r) = Some f))
     \<and> distinct (map fst (fs_identities st))"

lemma attach_keeps: "attach_event e row = (row', stale) \<Longrightarrow> fi_id row' = fi_id row \<and> fi_key row' = fi_key row \<and> fi_current row' = fi_current row"
  by (auto simp: attach_event_def Let_def split: if_splits)

lemma started_fields: "fi_id (identity_from_started e) = fanout_of e" "fi_key (identity_from_started e) = started_key e"
    "fi_current (identity_from_started e)"
  by (simp_all add: identity_from_started_def Let_def)

lemma superseded_rows:
  assumes "fanout_inv es st" and "keyed_starts es"
  shows "map_of (supersede_previous key f st) g =
    (case map_of (fs_identities st) g of
       None \<Rightarrow> None
     | Some r \<Rightarrow> Some (if latest_start es key = Some g
         then r\<lparr>fi_current := False, fi_superseded_by := f, fi_stale_reason := ''superseded_by_latest_fanout''\<rparr> else r))"
    and "latest_start es key = Some g \<Longrightarrow> map_of (fs_identities st) g = Some r \<Longrightarrow> fi_key r = key"
proof -
  have cbk: "map_of (fs_current_by_key st) key = latest_start es key" using assms(1) by (simp add: fanout_inv_def)
  show "map_of (supersede_previous key f st) g =
    (case map_of (fs_identities st) g of
       None \<Rightarrow> None
     | Some r \<Rightarrow> Some (if latest_start es key = Some g
         then r\<lparr>fi_current := False, fi_superseded_by := f, fi_stale_reason := ''superseded_by_latest_fanout''\<rparr> else r))"
    by (auto simp: supersede_previous_def cbk update_conv' split: option.splits)
  show "fi_key r = key" if "latest_start es key = Some g" "map_of (fs_identities st) g = Some r"
  proof -
    have "(g, key) \<in> set (starts es)" using latest_start_mem that(1) by blast
    moreover have "(g, fi_key r) \<in> set (starts es)" using assms(1) that(2) by (simp add: fanout_inv_def)
    ultimately show ?thesis using assms(2) by (fastforce simp: keyed_starts_def)
  qed
qed

lemma distinct_supersede: "distinct (map fst (fs_identities st)) \<Longrightarrow> distinct (map fst (supersede_previous key f st))"
  by (auto simp: supersede_previous_def distinct_update split: option.splits)

lemma start_inv:
  assumes inv: "fanout_inv es st" and key: "keyed_starts (es @ [e])" and e: "is_start e"
  shows "fanout_inv (es @ [e]) (start_fanout e st)"
proof -
  let ?f = "fanout_of e" and ?k = "started_key e" and ?st = "start_fanout e st"
  have st: "starts (es @ [e]) = starts es @ [(?f, ?k)]" using e by (simp add: starts_def)
  note rows = superseded_rows [OF inv keyed_append [OF key], of ?k]
  have ids: "map_of (fs_identities ?st) g = (if g = ?f then Some (identity_from_started e) else map_of (supersede_previous ?k ?f st) g)" for g
    by (simp add: start_fanout_def update_conv')
  have iv: "map_of (fs_identities st) g = None \<longleftrightarrow> g \<notin> fst ` set (starts es)"
    "map_of (fs_identities st) g = Some r \<Longrightarrow> fi_id r = g \<and> (g, fi_key r) \<in> set (starts es) \<and> (fi_current r \<longleftrightarrow> latest_start es (fi_key r) = Some g)" for g r
    using inv by (simp_all add: fanout_inv_def)
  have "fi_id r = g \<and> (g, fi_key r) \<in> set (starts (es @ [e])) \<and> (fi_current r \<longleftrightarrow> latest_start (es @ [e]) (fi_key r) = Some g)"
    if r: "map_of (fs_identities ?st) g = Some r" for g r
  proof (cases "g = ?f")
    case True
    then have "r = identity_from_started e" using r by (simp add: ids)
    with True e show ?thesis by (simp add: started_fields st latest_start_snoc)
  next
    case False
    then obtain r0 where r0: "map_of (fs_identities st) g = Some r0"
      "r = (if latest_start es ?k = Some g then r0\<lparr>fi_current := False, fi_superseded_by := ?f, fi_stale_reason := ''superseded_by_latest_fanout''\<rparr> else r0)"
      using r by (auto simp: ids rows(1) split: option.splits)
    have same: "fi_id r = fi_id r0" "fi_key r = fi_key r0" using r0(2) by (auto split: if_splits)
    show ?thesis
    proof (cases "latest_start es ?k = Some g")
      case True
      with rows(2) [OF True r0(1)] r0 iv(2) [OF r0(1)] same False e show ?thesis by (simp add: st latest_start_snoc)
    next
      case no: False
      with r0 have "r = r0" by simp
      with iv(2) [OF r0(1)] no False e show ?thesis by (auto simp: st latest_start_snoc)
    qed
  qed
  moreover have "map_of (fs_identities ?st) g = None \<longleftrightarrow> g \<notin> fst ` set (starts (es @ [e]))" for g
    using iv(1) [of g] by (auto simp: ids rows(1) st split: option.splits)
  moreover have "map_of (fs_current_by_key ?st) k = latest_start (es @ [e]) k" for k
    using inv e by (simp add: start_fanout_def update_conv' latest_start_snoc fanout_inv_def)
  moreover have "distinct (map fst (fs_identities ?st))"
    using inv by (simp add: start_fanout_def distinct_update distinct_supersede fanout_inv_def)
  ultimately show ?thesis unfolding fanout_inv_def by blast
qed

lemma other_inv:
  assumes "fanout_inv es st" and "\<not> is_start e"
  shows "fanout_inv (es @ [e]) (identity_step e st)"
proof -
  have same: "starts (es @ [e]) = starts es" "latest_start (es @ [e]) = latest_start es"
    using assms(2) by (auto simp: starts_def latest_start_snoc fun_eq_iff)
  show ?thesis
  proof (cases "map_of (fs_identities st) (fanout_of e)")
    case None
    then have "fs_identities (identity_step e st) = fs_identities st \<and> fs_current_by_key (identity_step e st) = fs_current_by_key st"
      using assms(2) by (auto simp: identity_step_def is_start_def)
    with assms(1) same show ?thesis by (simp add: fanout_inv_def)
  next
    case (Some row)
    obtain row' stale where a: "attach_event e row = (row', stale)" by fastforce
    note keep = attach_keeps [OF a]
    from Some a have "fs_identities (identity_step e st) \<in> {fs_identities st, AList.update (fanout_of e) row' (fs_identities st)}
        \<and> fs_current_by_key (identity_step e st) = fs_current_by_key st"
      using assms(2) by (auto simp: identity_step_def is_start_def)
    moreover have "fanout_inv (es @ [e]) (st\<lparr>fs_identities := AList.update (fanout_of e) row' (fs_identities st)\<rparr>)"
    proof -
      have "map_of (fs_identities st) f = None \<longleftrightarrow> f \<notin> fst ` set (starts es)"
        "map_of (fs_identities st) f = Some r \<Longrightarrow> fi_id r = f \<and> (f, fi_key r) \<in> set (starts es) \<and> (fi_current r \<longleftrightarrow> latest_start es (fi_key r) = Some f)" for f r
        using assms(1) by (simp_all add: fanout_inv_def)
      note iv = this this(1) [of "fanout_of e"] this(2) [OF Some]
      show ?thesis using assms(1) iv keep Some unfolding fanout_inv_def same
        by (simp add: update_conv' distinct_update del: map_of_eq_Some_iff)
    qed
    ultimately show ?thesis using assms(1) same by (auto simp: fanout_inv_def)
  qed
qed

lemma fanout_fold_inv: "keyed_starts es \<Longrightarrow> fanout_inv es (fanout_fold es)"
proof (induction es rule: rev_induct)
  case Nil
  then show ?case by (simp add: fanout_fold_def no_fanouts_def fanout_inv_def latest_start_def starts_def)
next
  case (snoc e es)
  then have IH: "fanout_inv es (fanout_fold es)" by (blast dest: keyed_append)
  show ?case
  proof (cases "is_start e")
    case True
    then have "identity_step e (fanout_fold es) = start_fanout e (fanout_fold es)"
      by (simp add: identity_step_def is_start_def type_in_def fanout_identity_event_types_def)
    with start_inv [OF IH snoc.prems True] show ?thesis by (simp add: fanout_fold_def)
  next
    case False
    with other_inv [OF IH False] show ?thesis by (simp add: fanout_fold_def)
  qed
qed

lemma instance_rows:
  assumes "keyed_starts es"
  shows "r \<in> set (fp_instances (build_fanout_identity_projection es)) \<longleftrightarrow> map_of (fs_identities (fanout_fold es)) (fi_id r) = Some r"
proof -
  have inv: "fanout_inv es (fanout_fold es)" using assms by (rule fanout_fold_inv)
  then have "distinct (map fst (fs_identities (fanout_fold es)))" by (simp add: fanout_inv_def)
  then have "r \<in> snd ` set (fs_identities (fanout_fold es)) \<longleftrightarrow> (\<exists>f. map_of (fs_identities (fanout_fold es)) f = Some r)" by force
  also have "\<dots> \<longleftrightarrow> map_of (fs_identities (fanout_fold es)) (fi_id r) = Some r"
    using inv by (fastforce simp: fanout_inv_def)
  finally show ?thesis by (simp add: build_fanout_identity_projection_def Let_def)
qed

lemma found_instance:
  assumes "keyed_starts es" and "(f, k) \<in> set (starts es)"
  obtains r where "find (\<lambda>r. fi_id r = f) (fp_instances (build_fanout_identity_projection es)) = Some r"
    and "\<And>r'. r' \<in> set (fp_instances (build_fanout_identity_projection es)) \<and> fi_id r' = f \<longleftrightarrow> r' = r"
    and "fi_key r = k" and "fi_current r \<longleftrightarrow> latest_start es k = Some f"
proof -
  have inv: "fanout_inv es (fanout_fold es)" using assms(1) by (rule fanout_fold_inv)
  have "map_of (fs_identities (fanout_fold es)) f \<noteq> None" using inv assms(2) by (force simp: fanout_inv_def)
  then obtain r where r: "map_of (fs_identities (fanout_fold es)) f = Some r" by blast
  then have id: "fi_id r = f" "(f, fi_key r) \<in> set (starts es)" "fi_current r \<longleftrightarrow> latest_start es (fi_key r) = Some f"
    using inv by (simp_all add: fanout_inv_def)
  have key: "fi_key r = k" using assms id(2) by (fastforce simp: keyed_starts_def)
  have only: "r' \<in> set (fp_instances (build_fanout_identity_projection es)) \<and> fi_id r' = f \<longleftrightarrow> r' = r" for r'
    using r id(1) by (auto simp: instance_rows [OF assms(1)])
  have "find (\<lambda>r. fi_id r = f) (fp_instances (build_fanout_identity_projection es)) = Some r"
  proof (cases "find (\<lambda>r. fi_id r = f) (fp_instances (build_fanout_identity_projection es))")
    case None
    with only [of r] show ?thesis by (auto simp: find_None_iff)
  next
    case (Some r')
    then have "r' \<in> set (fp_instances (build_fanout_identity_projection es)) \<and> fi_id r' = f" by (auto simp: find_Some_iff)
    with only [of r'] Some show ?thesis by simp
  qed
  from that [OF this only key] id(3) key show ?thesis by simp
qed

lemma distinct_instances: "keyed_starts es \<Longrightarrow> distinct (map fi_id (fp_instances (build_fanout_identity_projection es)))"
proof -
  assume "keyed_starts es"
  then have inv: "fanout_inv es (fanout_fold es)" by (rule fanout_fold_inv)
  then have dist: "distinct (map fst (fs_identities (fanout_fold es)))" by (simp add: fanout_inv_def)
  have "fi_id (snd p) = fst p" if "p \<in> set (fs_identities (fanout_fold es))" for p
  proof -
    have "map_of (fs_identities (fanout_fold es)) (fst p) = Some (snd p)" using dist that by (simp add: map_of_is_SomeI)
    then show ?thesis using inv unfolding fanout_inv_def by blast
  qed
  then have "map fi_id (map snd (fs_identities (fanout_fold es))) = map fst (fs_identities (fanout_fold es))" by simp
  moreover have "mset (map fi_id (fp_instances (build_fanout_identity_projection es))) = mset (map fi_id (map snd (fs_identities (fanout_fold es))))"
    by (simp add: build_fanout_identity_projection_def Let_def multiset.map_comp)
  ultimately show ?thesis using dist by (metis mset_eq_imp_distinct_iff)
qed

lemma instance_ids: "keyed_starts es \<Longrightarrow> r \<in> set (fp_instances (build_fanout_identity_projection es)) \<Longrightarrow> fi_id r \<noteq> []"
proof -
  assume "keyed_starts es" and r: "r \<in> set (fp_instances (build_fanout_identity_projection es))"
  then have inv: "fanout_inv es (fanout_fold es)" and "map_of (fs_identities (fanout_fold es)) (fi_id r) = Some r"
    by (simp_all add: fanout_fold_inv instance_rows del: map_of_eq_Some_iff)
  then have "(fi_id r, fi_key r) \<in> set (starts es)" unfolding fanout_inv_def by blast
  then show ?thesis by (auto simp: starts_def is_start_def)
qed

text \<open>The current fanout of a key is the one started last. When a fanout id is only ever started under one logical
  key, every started fanout has exactly one instance, it is current exactly if no later fanout was started
  for its key, and \<open>fanout_current_status\<close> reports that.\<close>

lemma fanout_current_exact:
  assumes "keyed_starts es" and "(f, k) \<in> set (starts es)"
  shows "(\<exists>!r. r \<in> set (fp_instances (build_fanout_identity_projection es)) \<and> fi_id r = f)
    \<and> fc_known (fanout_current_status es f) \<and> fc_key (fanout_current_status es f) = k
    \<and> (fc_current (fanout_current_status es f) \<longleftrightarrow> latest_start es k = Some f)"
proof -
  obtain r where
    r: "find (\<lambda>r. fi_id r = f) (fp_instances (build_fanout_identity_projection es)) = Some r"
    and only: "\<And>r'. r' \<in> set (fp_instances (build_fanout_identity_projection es)) \<and> fi_id r' = f \<longleftrightarrow> r' = r"
    and key: "fi_key r = k" "fi_current r \<longleftrightarrow> latest_start es k = Some f"
    by (rule found_instance [OF assms]) (rule that)
  have "f \<noteq> []" using assms(2) by (auto simp: starts_def is_start_def)
  with r have "fanout_current_status es f = \<lparr>fc_known = True, fc_current = fi_current r, fc_key = fi_key r,
      fc_superseded_by = fi_superseded_by r, fc_stale_reason = fi_stale_reason r\<rparr>"
    by (simp add: fanout_current_status_def)
  with only key show ?thesis by simp
qed

definition demo_start :: "string \<Rightarrow> zf_event" where
  "demo_start f = (new_event (''e'', ''t'') ''fanout.started'')\<lparr>ev_payload := JObj [(''fanout_id'', JStr f), (''stage_id'', JStr ''impl'')]\<rparr>"

lemma demo_starts: "starts [demo_start ''f1'', demo_start ''f2''] = [(''f1'', ''impl''), (''f2'', ''impl'')]"
  by (simp add: starts_def is_start_def demo_start_def new_event_def fanout_of_def payload_of_def started_key_def logical_key_def
      event_task_def text_of_def py_or_def str_or_def)

end
