(* ===== verification/Integration_Queue.thy ===== *)
theory Integration_Queue
  imports Fanout_Identity
begin

text \<open>
  \<open>runtime/integration_queue.py\<close> and \<open>runtime/integration_queue_helpers.py\<close>: the queue of finished work
  that waits for integration, derived from the events. The arbiter that is attached to the projection is a
  separate module and is left out.
\<close>

section \<open>Statuses\<close>

datatype queue_status = Queued | Integrating | Integrated | NeedsReview | Discarded

datatype queue_action = Enqueue | Retry | SetStatus queue_status

fun status_name :: "queue_status \<Rightarrow> string" where
  "status_name Queued = ''queued''"
| "status_name Integrating = ''integrating''"
| "status_name Integrated = ''integrated''"
| "status_name NeedsReview = ''needs_review''"
| "status_name Discarded = ''discarded''"

fun valid_transitions :: "queue_status \<Rightarrow> queue_status list" where
  "valid_transitions Queued = [Integrating, NeedsReview, Discarded]"
| "valid_transitions Integrating = [Integrated, NeedsReview, Discarded]"
| "valid_transitions NeedsReview = [Queued, Integrating, Discarded]"
| "valid_transitions Integrated = []"
| "valid_transitions Discarded = []"

definition queue_event_types :: "string list" where
  "queue_event_types =
     [''task.integration_enqueued'', ''integration.queue.integrating'', ''integration.queue.integrated'',
      ''integration.queue.needs_review'', ''integration.queue.retry_requested'', ''integration.queue.discarded'',
      ''candidate.integration.started'', ''candidate.integration.completed'', ''integration.failed'']"

definition queue_specific_event_types :: "string list" where
  "queue_specific_event_types =
     [''integration.queue.integrating'', ''integration.queue.integrated'', ''integration.queue.needs_review'',
      ''integration.queue.retry_requested'', ''integration.queue.discarded'']"

definition action_for_event :: "zf_event \<Rightarrow> queue_action option" where
  "action_for_event e =
     (if type_in e [''task.integration_enqueued''] then Some Enqueue
      else if type_in e [''integration.queue.integrating'', ''candidate.integration.started''] then Some (SetStatus Integrating)
      else if type_in e [''integration.queue.integrated'', ''candidate.integration.completed''] then Some (SetStatus Integrated)
      else if type_in e [''integration.queue.needs_review'', ''integration.failed''] then Some (SetStatus NeedsReview)
      else if type_in e [''integration.queue.retry_requested''] then Some Retry
      else if type_in e [''integration.queue.discarded''] then Some (SetStatus Discarded)
      else None)"

fun target_status_for_action :: "queue_action \<Rightarrow> pydict \<Rightarrow> queue_status" where
  "target_status_for_action (SetStatus s) payload = s"
| "target_status_for_action Retry payload = (if strip (sget payload ''target_status'') = ''integrating'' then Integrating else Queued)"
| "target_status_for_action Enqueue payload = Queued"

section \<open>Payloads\<close>

definition coerce_list :: "json \<Rightarrow> string list" where
  "coerce_list v =
     (case v of
        JList xs \<Rightarrow> filter (\<lambda>s. strip s \<noteq> []) (map py_str xs)
      | JStr s \<Rightarrow> if strip s \<noteq> [] then [strip s] else []
      | _ \<Rightarrow> [])"

definition source_ref_of :: "pydict \<Rightarrow> string" where
  "source_ref_of p = sget_first p [''source_ref'', ''target_ref'']"

definition artifact_refs_of :: "pydict \<Rightarrow> string list" where
  "artifact_refs_of p = coerce_list (py_or (dict_get p ''artifact_refs'') (dict_get p ''artifacts''))"

definition explicit_entry_id :: "pydict \<Rightarrow> string" where
  "explicit_entry_id p = first_payload_string p [''queue_entry_id'', ''integration_entry_id'', ''entry_id'', ''integration_id'', ''id'']"

definition identity_parts :: "zf_event \<Rightarrow> string list" where
  "identity_parts e =
     (let p = payload_of e in
      filter (\<lambda>s. s \<noteq> [])
        [event_task e, sget p ''fanout_instance_id'', source_ref_of p, sget p ''base_ref'', sget p ''handoff_ref'',
         sget_first p [''pdd_id'', ''feature_id'']])"

definition entry_id_for_event :: "zf_event \<Rightarrow> string" where
  "entry_id_for_event e =
     (if explicit_entry_id (payload_of e) \<noteq> [] then explicit_entry_id (payload_of e)
      else if identity_parts e = [] then []
      else ''iq-'' @ take 12 (sha1_hex (join ''|'' (identity_parts e))))"

definition queue_relevant :: "zf_event \<Rightarrow> bool" where
  "queue_relevant e \<longleftrightarrow>
     type_in e queue_specific_event_types \<or> type_in e [''task.integration_enqueued'']
     \<or> explicit_entry_id (payload_of e) \<noteq> [] \<or> identity_parts e \<noteq> []"

definition operation_key :: "zf_event \<Rightarrow> string \<Rightarrow> queue_action \<Rightarrow> string \<times> queue_action \<times> string" where
  "operation_key e entry_id action =
     (entry_id, action, py_str (py_or (dict_get (payload_of e) ''idempotency_key'') (py_or (dict_get (payload_of e) ''operation_id'') (ev_id e))))"

section \<open>Stale fanouts\<close>

type_synonym fanout_statuses = "(string \<times> bool \<times> string \<times> string) list"

definition fanout_status_by_id :: "zf_event list \<Rightarrow> fanout_statuses" where
  "fanout_status_by_id events =
     fold (\<lambda>r m. if fi_id r = [] then m else AList.update (fi_id r) (fi_current r, fi_stale_reason r, fi_superseded_by r) m)
       (fp_instances (build_fanout_identity_projection events)) []"

definition is_stale :: "pydict \<Rightarrow> bool" where
  "is_stale p \<longleftrightarrow> dict_get p ''stale'' = JBool True \<or> dict_get p ''is_stale'' = JBool True
     \<or> dict_get p ''stale_fanout_instance'' = JBool True \<or> dict_get p ''current'' = JBool False"

definition stale_reason :: "pydict \<Rightarrow> fanout_statuses \<Rightarrow> string" where
  "stale_reason p fs =
     (if is_stale p then ''stale fanout instance''
      else if sget p ''fanout_instance_id'' = [] then []
      else
        (case map_of fs (sget p ''fanout_instance_id'') of
           None \<Rightarrow> []
         | Some (current, reason, by) \<Rightarrow> if current then [] else str_or reason ''fanout_instance_not_current''))"

definition superseded_by :: "pydict \<Rightarrow> fanout_statuses \<Rightarrow> string" where
  "superseded_by p fs = (case map_of fs (sget p ''fanout_instance_id'') of None \<Rightarrow> [] | Some (current, reason, by) \<Rightarrow> by)"

section \<open>Entries\<close>

record queue_issue =
  qi_event_id :: json
  qi_event_type :: json
  qi_entry_id :: string
  qi_reason :: string

record queue_event_ref =
  qr_id :: json
  qr_type :: json
  qr_task_id :: json
  qr_ts :: json

record queue_entry =
  qe_id :: string
  qe_status :: queue_status
  qe_task_id :: string
  qe_fanout_instance_id :: string
  qe_source_ref :: string
  qe_base_ref :: string
  qe_handoff_ref :: string
  qe_artifact_refs :: "string list"
  qe_verification_refs :: "string list"
  qe_reason :: string
  qe_retry_count :: nat
  qe_created_event_id :: json
  qe_updated_event_id :: json
  qe_updated_at :: json
  qe_event_refs :: "queue_event_ref list"
  qe_issues :: "queue_issue list"

record stale_entry =
  se_id :: string
  se_event_id :: json
  se_event_type :: json
  se_task_id :: string
  se_fanout_instance_id :: string
  se_source_ref :: string
  se_handoff_ref :: string
  se_artifact_refs :: "string list"
  se_verification_refs :: "string list"
  se_ts :: json
  se_reason :: string
  se_stale_reason :: string
  se_superseded_by :: string

definition queue_issue_of :: "zf_event \<Rightarrow> string \<Rightarrow> string \<Rightarrow> queue_issue" where
  "queue_issue_of e entry_id reason = \<lparr>qi_event_id = ev_id e, qi_event_type = ev_type e, qi_entry_id = entry_id, qi_reason = reason\<rparr>"

definition new_entry :: "zf_event \<Rightarrow> string \<Rightarrow> queue_entry" where
  "new_entry e entry_id =
     (let p = payload_of e in
      \<lparr>qe_id = entry_id, qe_status = Queued, qe_task_id = event_task e, qe_fanout_instance_id = sget p ''fanout_instance_id'',
       qe_source_ref = source_ref_of p, qe_base_ref = sget p ''base_ref'', qe_handoff_ref = sget p ''handoff_ref'',
       qe_artifact_refs = artifact_refs_of p, qe_verification_refs = coerce_list (dict_get p ''verification_refs''),
       qe_reason = reason_of p, qe_retry_count = 0, qe_created_event_id = ev_id e, qe_updated_event_id = ev_id e,
       qe_updated_at = ev_ts e, qe_event_refs = [], qe_issues = []\<rparr>)"

definition unique_strings :: "string list \<Rightarrow> string list" where
  "unique_strings xs = fromkeys (filter (\<lambda>s. s \<noteq> []) xs)"

definition merge_payload :: "zf_event \<Rightarrow> queue_entry \<Rightarrow> queue_entry" where
  "merge_payload e q =
     (let p = payload_of e in
      q\<lparr>qe_task_id := str_or (qe_task_id q) (event_task e),
        qe_fanout_instance_id := str_or (qe_fanout_instance_id q) (sget p ''fanout_instance_id''),
        qe_source_ref := str_or (qe_source_ref q) (source_ref_of p),
        qe_base_ref := str_or (qe_base_ref q) (sget p ''base_ref''),
        qe_handoff_ref := str_or (qe_handoff_ref q) (sget p ''handoff_ref''),
        qe_artifact_refs := unique_strings (qe_artifact_refs q @ artifact_refs_of p),
        qe_verification_refs := unique_strings (qe_verification_refs q @ coerce_list (dict_get p ''verification_refs'')),
        qe_reason := str_or (reason_of p) (qe_reason q),
        qe_updated_event_id := ev_id e, qe_updated_at := ev_ts e\<rparr>)"

definition record_event :: "zf_event \<Rightarrow> queue_entry \<Rightarrow> queue_entry" where
  "record_event e q =
     q\<lparr>qe_event_refs := qe_event_refs q @
         [\<lparr>qr_id = ev_id e, qr_type = ev_type e, qr_task_id = py_or (ev_task_id e) (JStr []), qr_ts = ev_ts e\<rparr>]\<rparr>"

definition apply_transition :: "queue_status \<Rightarrow> zf_event \<Rightarrow> queue_entry \<Rightarrow> queue_entry option" where
  "apply_transition target e q =
     (if target = qe_status q then Some (q\<lparr>qe_updated_event_id := ev_id e, qe_updated_at := ev_ts e\<rparr>)
      else if target \<notin> set (valid_transitions (qe_status q)) then None
      else Some (q\<lparr>qe_status := target, qe_updated_event_id := ev_id e, qe_updated_at := ev_ts e\<rparr>))"

definition stale_stub :: "fanout_statuses \<Rightarrow> zf_event \<Rightarrow> string \<Rightarrow> stale_entry" where
  "stale_stub fs e entry_id =
     (let p = payload_of e in
      \<lparr>se_id = entry_id, se_event_id = ev_id e, se_event_type = ev_type e, se_task_id = event_task e,
       se_fanout_instance_id = sget p ''fanout_instance_id'', se_source_ref = source_ref_of p, se_handoff_ref = sget p ''handoff_ref'',
       se_artifact_refs = artifact_refs_of p, se_verification_refs = coerce_list (dict_get p ''verification_refs''), se_ts = ev_ts e,
       se_reason = str_or (reason_of p) (stale_reason p fs), se_stale_reason = stale_reason p fs, se_superseded_by = superseded_by p fs\<rparr>)"

section \<open>The fold\<close>

record queue_state =
  q_entries :: "(string \<times> queue_entry) list"
  q_issues :: "queue_issue list"
  q_stale :: "stale_entry list"
  q_seen_ids :: "json list"
  q_seen_ops :: "(string \<times> queue_action \<times> string) list"

definition empty_queue :: queue_state where
  "empty_queue = \<lparr>q_entries = [], q_issues = [], q_stale = [], q_seen_ids = [], q_seen_ops = []\<rparr>"

definition enqueue_event :: "zf_event \<Rightarrow> string \<Rightarrow> queue_state \<Rightarrow> queue_state" where
  "enqueue_event e i st =
     (let q = (case map_of (q_entries st) i of None \<Rightarrow> new_entry e i | Some q \<Rightarrow> merge_payload e q)
      in st\<lparr>q_entries := AList.update i (record_event e q) (q_entries st)\<rparr>)"

definition transition_event :: "zf_event \<Rightarrow> string \<Rightarrow> queue_action \<Rightarrow> queue_entry \<Rightarrow> queue_state \<Rightarrow> queue_state" where
  "transition_event e i action q0 st =
     (let target = target_status_for_action action (payload_of e);
          q1 = merge_payload e q0;
          q2 = (if target = Queued \<and> qe_status q1 = NeedsReview then q1\<lparr>qe_retry_count := Suc (qe_retry_count q1)\<rparr> else q1) in
      (case apply_transition target e q2 of
         Some q \<Rightarrow> st\<lparr>q_entries := AList.update i (record_event e q) (q_entries st)\<rparr>
       | None \<Rightarrow>
           (let issue = queue_issue_of e i (''illegal_transition:'' @ status_name (qe_status q2) @ ''->'' @ status_name target) in
            st\<lparr>q_entries := AList.update i (record_event e (q2\<lparr>qe_issues := qe_issues q2 @ [issue]\<rparr>)) (q_entries st),
               q_issues := q_issues st @ [issue]\<rparr>)))"

definition perform_action :: "zf_event \<Rightarrow> string \<Rightarrow> queue_action \<Rightarrow> queue_state \<Rightarrow> queue_state" where
  "perform_action e i action st =
     (if action = Enqueue then enqueue_event e i st
      else
        (case map_of (q_entries st) i of
           Some q \<Rightarrow> transition_event e i action q st
         | None \<Rightarrow>
             if action = SetStatus NeedsReview then transition_event e i action (new_entry e i) st
             else st\<lparr>q_issues := q_issues st @ [queue_issue_of e i ''missing_queued_entry'']\<rparr>))"

definition handle_event :: "fanout_statuses \<Rightarrow> zf_event \<Rightarrow> queue_state \<Rightarrow> queue_state" where
  "handle_event fs e st =
     (let i = entry_id_for_event e in
      if \<not> queue_relevant e then st
      else if i = [] then st\<lparr>q_issues := q_issues st @ [queue_issue_of e [] ''missing_queue_identity'']\<rparr>
      else if stale_reason (payload_of e) fs \<noteq> [] then
        st\<lparr>q_stale := q_stale st @ [stale_stub fs e i], q_issues := q_issues st @ [queue_issue_of e i ''stale_queue_event_rejected'']\<rparr>
      else
        (case action_for_event e of
           None \<Rightarrow> st
         | Some action \<Rightarrow>
             if operation_key e i action \<in> set (q_seen_ops st) then st
             else perform_action e i action (st\<lparr>q_seen_ops := operation_key e i action # q_seen_ops st\<rparr>)))"

definition queue_step :: "fanout_statuses \<Rightarrow> zf_event \<Rightarrow> queue_state \<Rightarrow> queue_state" where
  "queue_step fs e st =
     (if \<not> type_in e queue_event_types \<or> ev_id e \<in> set (q_seen_ids st) then st
      else handle_event fs e (st\<lparr>q_seen_ids := ev_id e # q_seen_ids st\<rparr>))"

definition queue_fold :: "fanout_statuses \<Rightarrow> zf_event list \<Rightarrow> queue_state" where
  "queue_fold fs events = fold (queue_step fs) events empty_queue"

record queue_projection =
  qp_entries :: "queue_entry list"
  qp_stale_entries :: "stale_entry list"
  qp_issues :: "queue_issue list"

definition build_integration_queue :: "zf_event list \<Rightarrow> queue_projection" where
  "build_integration_queue events =
     (let st = queue_fold (fanout_status_by_id events) events in
      \<lparr>qp_entries = sort_key (\<lambda>q. (text_of (qe_updated_at q), qe_id q)) (map snd (q_entries st)),
       qp_stale_entries = q_stale st, qp_issues = q_issues st\<rparr>)"

definition queue_count :: "queue_projection \<Rightarrow> queue_status \<Rightarrow> nat" where
  "queue_count p s = length (filter (\<lambda>q. qe_status q = s) (qp_entries p))"

section \<open>Redelivery\<close>

lemma seen_unchanged [simp]:
  "q_seen_ids (enqueue_event e i st) = q_seen_ids st"
  "q_seen_ids (transition_event e i a q st) = q_seen_ids st"
  "q_seen_ids (perform_action e i a st) = q_seen_ids st"
  "q_seen_ids (handle_event fs e st) = q_seen_ids st"
proof -
  show enq: "q_seen_ids (enqueue_event e i st) = q_seen_ids st" for st by (simp add: enqueue_event_def Let_def)
  show tr: "q_seen_ids (transition_event e i a q st) = q_seen_ids st" for i a q st
    by (simp add: transition_event_def Let_def split: option.splits)
  show "q_seen_ids (perform_action e i a st) = q_seen_ids st" for i a st
    by (simp add: perform_action_def enqueue_event_def Let_def tr split: option.splits)
  then show "q_seen_ids (handle_event fs e st) = q_seen_ids st"
    by (simp add: handle_event_def Let_def split: option.splits)
qed

lemma queue_step_seen:
  "set (q_seen_ids st) \<subseteq> set (q_seen_ids (queue_step fs e st))"
  "type_in e queue_event_types \<Longrightarrow> ev_id e \<in> set (q_seen_ids (queue_step fs e st))"
  by (auto simp: queue_step_def)

lemma queue_fold_seen:
  "set (q_seen_ids st) \<subseteq> set (q_seen_ids (fold (queue_step fs) es st))"
  "e \<in> set es \<Longrightarrow> type_in e queue_event_types \<Longrightarrow> ev_id e \<in> set (q_seen_ids (fold (queue_step fs) es st))"
proof (induction es arbitrary: st)
  case (Cons x es)
  { case 1
    show ?case using Cons.IH(1) [of "queue_step fs x st"] queue_step_seen(1) [of st fs x] by auto
  next
    case 2
    show ?case
    proof (cases "e = x")
      case True
      then show ?thesis using 2 Cons.IH(1) [of "queue_step fs x st"] queue_step_seen(2) [of x fs st] by auto
    qed (use 2 Cons.IH(2) in auto)
  }
qed simp_all

lemma queue_fold_dup:
  assumes "\<And>e. e \<in> set dup \<Longrightarrow> ev_id e \<in> set (q_seen_ids st)"
  shows "fold (queue_step fs) dup st = st"
  using assms by (induction dup) (simp_all add: queue_step_def)

lemma queue_event_no_fanout: "type_in e queue_event_types \<Longrightarrow> identity_step e st = st"
  by (auto simp: identity_step_def type_in_def queue_event_types_def fanout_identity_event_types_def child_event_types_def
      aggregate_event_types_def)

text \<open>Redelivered events change nothing. If the log holds queue events a second time, any number of them, in any order
  and at any later place, the projection (entries, stale entries and issues) is the same as without them.\<close>

lemma queue_redelivery_idempotent:
  assumes "set dup \<subseteq> set es" and "\<forall>e \<in> set dup. type_in e queue_event_types"
  shows "build_integration_queue (es @ dup) = build_integration_queue es"
proof -
  have "fold identity_step dup st = st" for st using assms(2) by (induction dup arbitrary: st) (simp_all add: queue_event_no_fanout)
  then have "fanout_status_by_id (es @ dup) = fanout_status_by_id es"
    by (simp add: fanout_status_by_id_def build_fanout_identity_projection_def fanout_fold_def)
  moreover have "queue_fold fs (es @ dup) = queue_fold fs es" for fs
    unfolding queue_fold_def fold_append comp_def using queue_fold_seen(2) assms by (intro queue_fold_dup) blast
  ultimately show ?thesis by (simp add: build_integration_queue_def)
qed

definition demo_enqueue :: zf_event where
  "demo_enqueue = (new_event (''e1'', ''t1'') ''task.integration_enqueued'')\<lparr>ev_task_id := JStr ''T1''\<rparr>"

section \<open>Final statuses\<close>

definition status_step :: "queue_entry option \<Rightarrow> queue_entry option \<Rightarrow> bool" where
  "status_step a b \<longleftrightarrow>
     (case a of None \<Rightarrow> True
      | Some x \<Rightarrow> (case b of None \<Rightarrow> False
          | Some y \<Rightarrow> qe_status y = qe_status x \<or> qe_status y \<in> set (valid_transitions (qe_status x))))"

lemma status_step_refl [simp]: "status_step a a"
  by (auto simp: status_step_def split: option.splits)

lemma merge_status [simp]: "qe_status (merge_payload e q) = qe_status q" "qe_status (record_event e q) = qe_status q"
  by (simp_all add: merge_payload_def record_event_def Let_def)

lemma enqueue_status: "status_step (map_of (q_entries st) j) (map_of (q_entries (enqueue_event e i st)) j)"
  by (auto simp: enqueue_event_def Let_def status_step_def update_conv' split: option.splits)

lemma transition_status:
  assumes "map_of (q_entries st) i = Some q \<or> map_of (q_entries st) i = None"
  shows "status_step (map_of (q_entries st) j) (map_of (q_entries (transition_event e i a q st)) j)"
  using assms by (auto simp: transition_event_def Let_def status_step_def update_conv' apply_transition_def split: option.splits if_splits)

lemma perform_status: "status_step (map_of (q_entries st) j) (map_of (q_entries (perform_action e i a st)) j)"
  using enqueue_status transition_status by (auto simp: perform_action_def split: option.splits)

lemma queue_step_status: "status_step (map_of (q_entries st) j) (map_of (q_entries (queue_step fs e st)) j)"
proof -
  have "status_step (map_of (q_entries st) j) (map_of (q_entries (perform_action e i a (st\<lparr>q_seen_ids := x, q_seen_ops := y\<rparr>))) j)" for i a x y
    using perform_status [of "st\<lparr>q_seen_ids := x, q_seen_ops := y\<rparr>" j e i a] by simp
  then show ?thesis by (simp add: queue_step_def handle_event_def Let_def split: option.splits)
qed

lemma final_kept:
  assumes "map_of (q_entries st) i = Some x" and "qe_status x \<in> {Integrated, Discarded}"
  shows "\<exists>y. map_of (q_entries (fold (queue_step fs) es st)) i = Some y \<and> qe_status y = qe_status x"
  using assms
proof (induction es arbitrary: st x)
  case (Cons e es)
  from queue_step_status [of st i fs e] Cons.prems obtain y where
    "map_of (q_entries (queue_step fs e st)) i = Some y" "qe_status y = qe_status x"
    by (auto simp: status_step_def split: option.splits)
  with Cons.IH [of "queue_step fs e st" y] Cons.prems(2) show ?case by auto
qed simp

text \<open>Integrated and discarded are final. Once an entry has one of these statuses, no later events, in whatever order,
  take it back, and no entry is ever dropped.\<close>

lemma queue_final_statuses:
  assumes "map_of (q_entries (queue_fold fs es)) i = Some x"
  shows "\<exists>y. map_of (q_entries (queue_fold fs (es @ es'))) i = Some y
    \<and> (qe_status x \<in> {Integrated, Discarded} \<longrightarrow> qe_status y = qe_status x)"
proof (cases "qe_status x \<in> {Integrated, Discarded}")
  case True
  with final_kept [OF assms True, of fs es'] show ?thesis by (simp add: queue_fold_def)
next
  case False
  have "\<exists>y. map_of (q_entries (fold (queue_step fs) es' st)) i = Some y" if "map_of (q_entries st) i = Some x" for st x
    using that
  proof (induction es' arbitrary: st x)
    case (Cons e es')
    from queue_step_status [of st i fs e] Cons.prems obtain y where "map_of (q_entries (queue_step fs e st)) i = Some y"
      by (auto simp: status_step_def split: option.splits)
    with Cons.IH show ?case by auto
  qed simp
  with assms False show ?thesis by (simp add: queue_fold_def)
qed

section \<open>Superseded fanouts\<close>

lemma map_of_statuses:
  assumes "distinct (map fi_id rs)" and "\<And>r. r \<in> set rs \<Longrightarrow> fi_id r \<noteq> []"
  shows "map_of (fold (\<lambda>r m. if fi_id r = [] then m else AList.update (fi_id r) (g r) m) rs m0) f =
    (case find (\<lambda>r. fi_id r = f) rs of None \<Rightarrow> map_of m0 f | Some r \<Rightarrow> Some (g r))"
  using assms
proof (induction rs arbitrary: m0)
  case (Cons r rs)
  have "find (\<lambda>x. fi_id x = fi_id r) rs = None" using Cons.prems(1) by (simp add: find_None_iff) (metis image_eqI)
  with Cons show ?case by (auto simp: update_conv' split: option.splits)
qed simp

text \<open>A superseded fanout cannot touch the queue. When a later fanout was started for the same logical key, queue events
  that name the earlier instance change no entry; they are listed as stale.\<close>

lemma queue_ignores_superseded:
  assumes "keyed_starts es" and "(f, k) \<in> set (starts es)" and "latest_start es k \<noteq> Some f"
    and "sget (payload_of e) ''fanout_instance_id'' = f"
  shows "q_entries (queue_step (fanout_status_by_id es) e st) = q_entries st"
proof -
  from found_instance [OF assms(1,2)] obtain r where
    r: "find (\<lambda>r. fi_id r = f) (fp_instances (build_fanout_identity_projection es)) = Some r" "\<not> fi_current r"
    using assms(3) by blast
  have "map_of (fanout_status_by_id es) f = Some (False, fi_stale_reason r, fi_superseded_by r)"
    unfolding fanout_status_by_id_def
    using r map_of_statuses [OF distinct_instances [OF assms(1)] instance_ids [OF assms(1)],
        where g = "\<lambda>r. (fi_current r, fi_stale_reason r, fi_superseded_by r)" and ?m0.0 = "[]" and f = f] by simp
  moreover have "f \<noteq> []" using assms(2) by (auto simp: starts_def is_start_def)
  ultimately have "stale_reason (payload_of e) (fanout_status_by_id es) \<noteq> []"
    using assms(4) by (auto simp: stale_reason_def str_or_def)
  then show ?thesis by (simp add: queue_step_def handle_event_def Let_def)
qed

end
