(* ===== verification/Terminal_Ledger.thy ===== *)
theory Terminal_Ledger
  imports State_File Py_Json
begin

text \<open>
  \<open>runtime/terminal_ledger.py\<close>: which terminal success of a dispatch was accepted first, so that a replay
  of the event is recognised. The file is rewritten with sorted keys under the lock.
\<close>

section \<open>Records\<close>

definition TERMINAL_SUCCESS_EVENTS :: "string list" where
  "TERMINAL_SUCCESS_EVENTS = [''impl.child.completed'', ''review.approved'', ''verify.passed'', ''test.passed'', ''judge.passed'']"

definition is_terminal_success_event :: "string \<Rightarrow> bool" where
  "is_terminal_success_event t \<longleftrightarrow> t \<in> set TERMINAL_SUCCESS_EVENTS"

record ledger_record =
  lr_task_id :: string
  lr_dispatch_id :: string
  lr_event_type :: string
  lr_event_id :: string
  lr_actor :: string
  lr_status :: string
  lr_recorded_at :: string

definition to_payload :: "ledger_record \<Rightarrow> pydict" where
  "to_payload r =
     [(''task_id'', JStr (lr_task_id r)), (''dispatch_id'', JStr (lr_dispatch_id r)), (''event_type'', JStr (lr_event_type r)),
      (''event_id'', JStr (lr_event_id r)), (''actor'', JStr (lr_actor r)), (''status'', JStr (lr_status r)),
      (''recorded_at'', JStr (lr_recorded_at r))]"

text \<open>The arguments of \<open>record_accepted\<close>, and the time it reads.\<close>

record acceptance =
  ac_task_id :: string
  ac_dispatch_id :: string
  ac_event_type :: string
  ac_event_id :: string
  ac_actor :: string
  ac_now :: string

definition ledger_key :: "string \<Rightarrow> string \<Rightarrow> string \<Rightarrow> string" where
  "ledger_key task_id dispatch_id event_type = task_id @ ''|'' @ dispatch_id @ ''|'' @ event_type"

definition acceptance_key :: "acceptance \<Rightarrow> string" where
  "acceptance_key a = ledger_key (ac_task_id a) (ac_dispatch_id a) (ac_event_type a)"

definition accountable :: "string \<Rightarrow> string \<Rightarrow> string \<Rightarrow> bool" where
  "accountable task_id dispatch_id event_type \<longleftrightarrow> task_id \<noteq> [] \<and> dispatch_id \<noteq> [] \<and> is_terminal_success_event event_type"

definition new_record :: "acceptance \<Rightarrow> ledger_record" where
  "new_record a =
     \<lparr>lr_task_id = ac_task_id a, lr_dispatch_id = ac_dispatch_id a, lr_event_type = ac_event_type a, lr_event_id = ac_event_id a,
      lr_actor = ac_actor a, lr_status = ''accepted'', lr_recorded_at = ac_now a\<rparr>"

definition existing_record :: "acceptance \<Rightarrow> pydict \<Rightarrow> ledger_record" where
  "existing_record a row =
     \<lparr>lr_task_id = sget_or row ''task_id'' (ac_task_id a), lr_dispatch_id = sget_or row ''dispatch_id'' (ac_dispatch_id a),
      lr_event_type = sget_or row ''event_type'' (ac_event_type a), lr_event_id = sget_or row ''event_id'' (ac_event_id a),
      lr_actor = sget_or row ''actor'' (ac_actor a), lr_status = sget_or row ''status'' ''accepted'',
      lr_recorded_at = sget_or row ''recorded_at'' (ac_now a)\<rparr>"

section \<open>The file\<close>

text \<open>\<open>sort_keys=True\<close> sorts the objects inside the rows too.\<close>

fun sort_json :: "json \<Rightarrow> json" where
  "sort_json (JList xs) = JList (map sort_json xs)"
| "sort_json (JObj d) = JObj (sort_dict (map (\<lambda>kv. (fst kv, sort_json (snd kv))) d))"
| "sort_json v = v"

definition read_ledger :: "file_read \<Rightarrow> pydict res" where
  "read_ledger f =
     (case f of
        ReadError \<Rightarrow> Inl (OSError ''read'')
      | Parsed (JObj d) \<Rightarrow> Inr d
      | _ \<Rightarrow> Inr [])"

definition write_ledger :: "pydict \<Rightarrow> file_read" where
  "write_ledger d = Parsed (sort_json (JObj d))"

section \<open>Operations\<close>

definition accepted_record :: "string \<Rightarrow> string \<Rightarrow> string \<Rightarrow> file_read \<Rightarrow> pydict option res" where
  "accepted_record task_id dispatch_id event_type f =
     (if \<not> accountable task_id dispatch_id event_type then Inr None
      else map_sum id (\<lambda>d. case dict_get d (ledger_key task_id dispatch_id event_type) of JObj row \<Rightarrow> Some row | _ \<Rightarrow> None) (read_ledger f))"

definition record_body :: "acceptance \<Rightarrow> pydict \<Rightarrow> (ledger_record \<times> pydict option) res" where
  "record_body a d =
     (case dict_get d (acceptance_key a) of
        JObj row \<Rightarrow> Inr (existing_record a row, None)
      | _ \<Rightarrow> Inr (new_record a, Some (dict_set d (acceptance_key a) (JObj (to_payload (new_record a))))))"

definition record_accepted :: "acceptance \<Rightarrow> file_read \<Rightarrow> (ledger_record option \<times> file_read) res" where
  "record_accepted a f =
     (if \<not> accountable (ac_task_id a) (ac_dispatch_id a) (ac_event_type a) then Inr (None, f)
      else map_sum id (map_prod Some id) (locked_rmw read_ledger write_ledger (record_body a) f))"

definition terminal_dispatch_id :: "json \<Rightarrow> string" where
  "terminal_dispatch_id payload = strip (sget (as_dict payload) ''dispatch_id'')"

section \<open>The ledger as a locked store\<close>

lemma wf_sort_json: "wf_json v \<Longrightarrow> wf_json (sort_json v)"
proof (induction v)
  case (JObj d)
  have "fst ` set (sort_dict (map (\<lambda>kv. (fst kv, sort_json (snd kv))) d)) = fst ` set d" by (simp add: image_image)
  moreover have "distinct (map fst (sort_dict (map (\<lambda>kv. (fst kv, sort_json (snd kv))) d)))"
    using JObj.prems by (simp add: comp_def)
  moreover have "wf_json (sort_json (snd kv))" if "kv \<in> set d" for kv
    using JObj that by (cases kv) (force simp: snds.simps)
  ultimately show ?case by simp
qed auto

lemma map_of_sort_json:
  assumes "distinct (map fst d)"
  shows "map_of (sort_dict (map (\<lambda>kv. (fst kv, sort_json (snd kv))) d)) k = map_option sort_json (map_of d k)"
proof -
  have "map_of (map (\<lambda>kv. (fst kv, sort_json (snd kv))) d) k = map_option sort_json (map_of d k)"
    by (induction d) auto
  then show ?thesis using assms by (simp add: comp_def)
qed

lemma sort_json_idem: "wf_json v \<Longrightarrow> sort_json (sort_json v) = sort_json v"
proof (induction v)
  case (JObj d)
  let ?f = "\<lambda>kv. (fst kv, sort_json (snd kv))"
  have "sort_json (sort_json (snd kv)) = sort_json (snd kv)" if "kv \<in> set d" for kv
    using JObj that by (cases kv) (force simp: snds.simps)
  then have "map ?f (sort_dict (map ?f d)) = sort_dict (map ?f d)" by (intro map_idI) auto
  then show ?case by (simp add: sort_dict_def sort_key_id_if_sorted)
qed auto

definition row_at :: "pydict \<Rightarrow> string \<Rightarrow> json option" where
  "row_at d k = map_option sort_json (map_of d k)"

definition wf_ledger :: "pydict \<Rightarrow> bool" where
  "wf_ledger d \<longleftrightarrow> wf_json (JObj d)"

text \<open>A rewrite sorts the keys of every object and keeps every row up to that order.\<close>

interpretation ledger: locked_store read_ledger write_ledger wf_ledger row_at
proof unfold_locales
  fix d :: pydict
  assume wf: "wf_ledger d"
  let ?d = "sort_dict (map (\<lambda>kv. (fst kv, sort_json (snd kv))) d)"
  have dist: "distinct (map fst d)" using wf by (simp add: wf_ledger_def)
  have "wf_json v" if "map_of d k = Some v" for k v
    using wf map_of_SomeD [OF that] by (force simp: wf_ledger_def)
  then have "row_at ?d = row_at d"
    by (intro ext) (auto simp: row_at_def map_of_sort_json [OF dist] option.map_comp comp_def sort_json_idem
        intro!: option.map_cong)
  moreover have "wf_ledger ?d" using wf_sort_json [of "JObj d"] wf by (simp add: wf_ledger_def)
  ultimately show "\<exists>d'. read_ledger (write_ledger d) = Inr d' \<and> wf_ledger d' \<and> row_at d' = row_at d"
    by (simp add: read_ledger_def write_ledger_def)
qed

section \<open>The first acceptance wins\<close>

lemma sort_json_JStr [simp]: "sort_json v = JStr s \<longleftrightarrow> v = JStr s"
  by (cases v) auto

lemma sort_json_JObjD: "sort_json v = JObj d \<Longrightarrow> \<exists>d'. v = JObj d'"
  by (cases v) auto

lemma same_row_text:
  assumes "sort_json (JObj row) = sort_json (JObj row')" and "distinct (map fst row)" and "distinct (map fst row')"
    and "map_of row' k = Some (JStr s)"
  shows "map_of row k = Some (JStr s)"
proof -
  have "map_option sort_json (map_of row k) = map_option sort_json (map_of row' k)"
    using assms(1) map_of_sort_json [OF assms(2), of k] map_of_sort_json [OF assms(3), of k] by simp
  with assms(4) show ?thesis by (auto simp: map_option_eq_Some)
qed

text \<open>The row an acceptance writes, as every later load finds it, and the fields that make it complete.\<close>

definition accepted_row :: "acceptance \<Rightarrow> json option" where
  "accepted_row a = Some (sort_json (JObj (to_payload (new_record a))))"

definition complete :: "acceptance \<Rightarrow> bool" where
  "complete a \<longleftrightarrow> accountable (ac_task_id a) (ac_dispatch_id a) (ac_event_type a) \<and> ac_event_id a \<noteq> [] \<and> ac_actor a \<noteq> [] \<and> ac_now a \<noteq> []"

lemma existing_is_first:
  assumes "wf_ledger d" and "row_at d k = accepted_row a" and "complete a"
  shows "\<exists>row. dict_get d k = JObj row \<and> existing_record b row = new_record a"
proof -
  from assms(2) obtain v where v: "map_of d k = Some v" "sort_json v = sort_json (JObj (to_payload (new_record a)))"
    by (auto simp: row_at_def accepted_row_def)
  then obtain row where row: "v = JObj row" using sort_json_JObjD by (metis sort_json.simps(2))
  have dist: "distinct (map fst row)" "distinct (map fst (to_payload (new_record a)))"
    using assms(1) map_of_SomeD [OF v(1)] row by (force simp: wf_ledger_def to_payload_def)+
  note field = same_row_text [OF v(2) [unfolded row] dist]
  have "existing_record b row = new_record a"
    using assms(3) field [of "''task_id''"] field [of "''dispatch_id''"] field [of "''event_type''"] field [of "''event_id''"]
      field [of "''actor''"] field [of "''status''"] field [of "''recorded_at''"]
    by (simp add: existing_record_def sget_or_def dict_get_def to_payload_def new_record_def complete_def accountable_def
        is_terminal_success_event_def TERMINAL_SUCCESS_EVENTS_def) auto
  with v(1) row show ?thesis by (simp add: dict_get_def)
qed

lemma wf_to_payload: "wf_json (JObj (to_payload r))"
  by (simp add: to_payload_def)

lemma wf_ledger_set: "wf_ledger d \<Longrightarrow> wf_json v \<Longrightarrow> wf_ledger (dict_set d k v)"
  using dict_set_subset [of d k v] by (auto simp: wf_ledger_def)

text \<open>Whatever is recorded, a row that is there stays.\<close>

lemma record_body_keeps:
  assumes "wf_ledger d" and "record_body b d = Inr (r, Some d')"
  shows "wf_ledger d'" and "row_at d k = accepted_row a \<Longrightarrow> row_at d' k = accepted_row a"
  using assms sort_json_JObjD wf_to_payload wf_ledger_set
  by (auto simp: record_body_def row_at_def accepted_row_def dict_get_def split: json.splits option.splits)

lemma record_accepted_keeps:
  assumes "ledger.holds (\<lambda>v. v k = accepted_row a) f" and "record_accepted b f = Inr (r, f')"
  shows "ledger.holds (\<lambda>v. v k = accepted_row a) f'"
proof (cases "f' = f")
  case False
  with assms(2) obtain r' where "locked_rmw read_ledger write_ledger (record_body b) f = Inr (r', f')"
    by (cases "locked_rmw read_ledger write_ledger (record_body b) f") (auto simp: record_accepted_def split: if_splits)
  with assms(1) show ?thesis by (rule ledger.rmw_holds) (auto dest: record_body_keeps)
qed (use assms(1) in simp)

text \<open>A ledger as the module can find it: absent, unreadable as JSON, or JSON with distinct keys.\<close>

definition ledger_file :: "file_read \<Rightarrow> bool" where
  "ledger_file f \<longleftrightarrow> (case f of ReadError \<Rightarrow> False | Parsed v \<Rightarrow> wf_json v | _ \<Rightarrow> True)"

lemma read_ledger_wf: "ledger_file f \<Longrightarrow> \<exists>d. read_ledger f = Inr d \<and> wf_ledger d"
  by (fastforce simp: ledger_file_def read_ledger_def wf_ledger_def split: file_read.splits json.splits)

lemma record_first:
  assumes "ledger_file f" and "complete a"
    and "accepted_record (ac_task_id a) (ac_dispatch_id a) (ac_event_type a) f = Inr None"
  shows "\<exists>f'. record_accepted a f = Inr (Some (new_record a), f') \<and> ledger.holds (\<lambda>v. v (acceptance_key a) = accepted_row a) f'"
proof -
  obtain d where d: "read_ledger f = Inr d" "wf_ledger d" using read_ledger_wf [OF assms(1)] by blast
  let ?d = "dict_set d (acceptance_key a) (JObj (to_payload (new_record a)))"
  have body: "record_body a d = Inr (new_record a, Some ?d)"
    using assms(2,3) d(1) by (auto simp: accepted_record_def record_body_def acceptance_key_def complete_def split: json.splits)
  have "wf_ledger ?d" using d(2) wf_to_payload by (rule wf_ledger_set)
  moreover have row: "row_at ?d (acceptance_key a) = accepted_row a" by (simp add: row_at_def accepted_row_def)
  ultimately have "ledger.holds (\<lambda>v. v (acceptance_key a) = accepted_row a) (write_ledger ?d)"
    using ledger.load_save [of ?d] row unfolding ledger.holds_def by metis
  then show ?thesis using assms(2) d(1) body by (simp add: record_accepted_def complete_def locked_rmw_def)
qed

text \<open>The terminal ledger recognises every replay. When a terminal success of a dispatch is recorded for the first
  time, the record that was accepted is the one the ledger answers with ever after: whatever is recorded in between, by
  whom and in which order, a later \<open>record_accepted\<close> under the same key returns the first acceptance (its event id, actor
  and time) and leaves the file unchanged.\<close>

lemma ledger_first_acceptance_wins:
  assumes state: "ledger_file f" and a: "complete a"
    and fresh: "accepted_record (ac_task_id a) (ac_dispatch_id a) (ac_event_type a) f = Inr None"
    and key: "acceptance_key b = acceptance_key a" and b: "accountable (ac_task_id b) (ac_dispatch_id b) (ac_event_type b)"
  shows "\<exists>f'. record_accepted a f = Inr (Some (new_record a), f') \<and>
    (let f'' = snd (run_steps record_accepted others f') in record_accepted b f'' = Inr (Some (new_record a), f''))"
proof -
  obtain f' where f': "record_accepted a f = Inr (Some (new_record a), f')"
      "ledger.holds (\<lambda>v. v (acceptance_key a) = accepted_row a) f'"
    using record_first [OF state a fresh] by blast
  let ?f = "snd (run_steps record_accepted others f')"
  have "ledger.holds (\<lambda>v. v (acceptance_key a) = accepted_row a) ?f"
    using f'(2) by (rule ledger.run_holds [rotated]) (rule record_accepted_keeps)
  then obtain d where d: "read_ledger ?f = Inr d" "wf_ledger d" "row_at d (acceptance_key a) = accepted_row a"
    by (auto simp: ledger.holds_def)
  obtain row where "dict_get d (acceptance_key a) = JObj row" "existing_record b row = new_record a"
    using existing_is_first [OF d(2,3) a] by blast
  with d(1) b key f'(1) show ?thesis
    by (auto simp: Let_def record_accepted_def record_body_def locked_rmw_def)
qed

definition sample_acceptance :: "string \<Rightarrow> string \<Rightarrow> acceptance" where
  "sample_acceptance event_id actor =
     \<lparr>ac_task_id = ''T1'', ac_dispatch_id = ''d1'', ac_event_type = ''test.passed'', ac_event_id = event_id, ac_actor = actor,
      ac_now = ''2025''\<rparr>"

text \<open>The key joins its parts with a bar and escapes nothing, so two different dispatches can share one row: the second is
  answered with the acceptance of the first.\<close>

lemma ledger_keys_collide:
  "ledger_key ''T1'' ''d|1'' ''test.passed'' = ledger_key ''T1|d'' ''1'' ''test.passed''"
  by (simp add: ledger_key_def)

end
