(* ===== verification/Terminal_Events.thy ===== *)
theory Terminal_Events
  imports Run_Scope
begin

text \<open>
  \<open>runtime/terminal_events.py\<close>: when a run has finished. A successful terminal event counts only in the run it belongs
  to, and only until that run has fresh work; results that arrive after the end are fenced off. A loop over indices from
  the end is a search in the reversed index list. Two events are the same when their ids are; where the code falls back on
  object identity the model compares the events.
\<close>

section \<open>Event classes\<close>

definition LEGACY_ATTEMPT_SUCCESS_EVENTS :: "string list" where
  "LEGACY_ATTEMPT_SUCCESS_EVENTS = [''dev.build.done'', ''task.attempt.succeeded'']"

definition LEGACY_ATTEMPT_FAILURE_EVENTS :: "string list" where
  "LEGACY_ATTEMPT_FAILURE_EVENTS = [''dev.failed'', ''dev.blocked'', ''task.attempt.failed'']"

definition LEGACY_ATTEMPT_DEADLETTER_EVENTS :: "string list" where
  "LEGACY_ATTEMPT_DEADLETTER_EVENTS = [''task.attempt.deadlettered'']"

definition LEGACY_STAGE_PROGRESS_EVENTS :: "string list" where
  "LEGACY_STAGE_PROGRESS_EVENTS =
     [''dev.build.done'', ''dev.blocked'', ''review.approved'', ''review.rejected'', ''verify.passed'', ''verify.failed'', ''test.passed'',
      ''test.failed'', ''judge.passed'', ''judge.failed'', ''arch.proposal.done'', ''design.critique.done'', ''gate.failed'',
      ''discriminator.failed'', ''task.pipeline.verify.completed'', ''task.pipeline.verify.failed'', ''task.pipeline.acceptance.completed'',
      ''task.pipeline.acceptance.failed'', ''task.pipeline.acceptance.blocked'']"

definition RUN_TERMINAL_EVENT_TYPES :: "string list" where
  "RUN_TERMINAL_EVENT_TYPES =
     [''run.goal.completed'', ''run.completed'', ''ship.completed'', ''ship.done'', ''judge.passed'', ''workflow.result.available'']"

definition RUN_REOPEN_EVENT_TYPES :: "string list" where
  "RUN_REOPEN_EVENT_TYPES =
     [''run.goal.started'', ''task_map.ready'', ''task_map.amended'', ''gap_plan.ready'', ''goal.gap_plan.ready'', ''flow.gap_plan.ready'',
      ''flow.discovery.requested'', ''flow.discovery.completed'', ''flow.goal.closed'', ''module.parity.gap_plan.ready'',
      ''module.parity.scan.completed'', ''task.assigned'', ''task.dispatched'', ''fanout.started'', ''fanout.child.dispatched'',
      ''fanout.child.completed'', ''fanout.child.failed'', ''fanout.aggregate.completed'', ''candidate.ready'', ''candidate.quality.failed'',
      ''integration.failed'', ''workflow.resume.applied'', ''dev.build.done'', ''dev.failed'', ''dev.blocked'', ''verify.failed'',
      ''test.failed'', ''judge.failed'', ''run.failed'', ''run.goal.blocked'', ''task.ref.updated'', ''task.ref.rejected'']"

definition is_child_success_event :: "string \<Rightarrow> bool" where
  "is_child_success_event t \<longleftrightarrow> endswith t ''.child.completed''"

definition is_child_failure_event :: "string \<Rightarrow> bool" where
  "is_child_failure_event t \<longleftrightarrow> endswith t ''.child.failed''"

definition is_task_attempt_success_event :: "string \<Rightarrow> bool" where
  "is_task_attempt_success_event t \<longleftrightarrow> t \<in> set LEGACY_ATTEMPT_SUCCESS_EVENTS \<or> is_child_success_event t"

definition is_task_attempt_failure_event :: "string \<Rightarrow> bool" where
  "is_task_attempt_failure_event t \<longleftrightarrow> t \<in> set LEGACY_ATTEMPT_FAILURE_EVENTS \<or> is_child_failure_event t"

definition is_task_attempt_deadletter_event :: "string \<Rightarrow> bool" where
  "is_task_attempt_deadletter_event t \<longleftrightarrow> t \<in> set LEGACY_ATTEMPT_DEADLETTER_EVENTS"

definition is_task_attempt_terminal_event :: "string \<Rightarrow> bool" where
  "is_task_attempt_terminal_event t \<longleftrightarrow>
     is_task_attempt_success_event t \<or> is_task_attempt_failure_event t \<or> is_task_attempt_deadletter_event t"

definition task_attempt_terminal_state :: "string \<Rightarrow> string" where
  "task_attempt_terminal_state t =
     (if is_task_attempt_success_event t then ''succeeded''
      else if is_task_attempt_deadletter_event t then ''deadlettered'' else ''failed'')"

definition is_stage_progress_event :: "string \<Rightarrow> bool" where
  "is_stage_progress_event t \<longleftrightarrow> t \<in> set LEGACY_STAGE_PROGRESS_EVENTS \<or> is_child_success_event t \<or> is_child_failure_event t"

section \<open>Terminal runs\<close>

definition is_successful_run_terminal :: "zf_event \<Rightarrow> bool" where
  "is_successful_run_terminal e \<longleftrightarrow>
     (let p = payload_of e in
      if \<not> type_in e RUN_TERMINAL_EVENT_TYPES then False
      else if ev_type e = JStr ''judge.passed'' then
        (if sget p ''authority'' = ''compat_projection'' then False else \<not> (truthy (ev_task_id e) \<or> truthy (dict_get p ''task_id'')))
      else if ev_type e = JStr ''workflow.result.available'' then sget p ''result_kind'' = ''research_report'' \<and> sget p ''status'' = ''available''
      else if ev_type e \<noteq> JStr ''run.completed'' then True
      else lower (strip (sget_first p [''status'', ''completion_status''])) \<in> {[], ''passed'', ''complete'', ''completed''})"

definition stale_result_ids :: "zf_event list \<Rightarrow> string set" where
  "stale_result_ids es =
     (\<lambda>e. sget (payload_of e) ''result_event_id'') `
       set (filter (\<lambda>e. ev_type e = JStr ''fanout.child.stale_completion'' \<and> sget (payload_of e) ''reason'' = ''run_terminal'') es)"

definition reopens :: "string set \<Rightarrow> zf_event \<Rightarrow> bool" where
  "reopens stale e \<longleftrightarrow>
     type_in e RUN_REOPEN_EVENT_TYPES
     \<and> \<not> (truthy (dict_get (payload_of e) ''stale'') \<or> truthy (dict_get (payload_of e) ''post_terminal_audit''))
     \<and> \<not> (truthy (ev_id e) \<and> ev_id e \<in> JStr ` stale)"

definition has_effective_reopen :: "zf_event list \<Rightarrow> bool" where
  "has_effective_reopen es \<longleftrightarrow> list_ex (reopens (stale_result_ids es)) es"

definition scoped_rows :: "zf_event list \<Rightarrow> string \<Rightarrow> zf_event list option" where
  "scoped_rows rows run_id =
     (let canonical = alias_get (run_aliases rows) (strip run_id) in
      if canonical \<noteq> [] then Some (events_for_run rows canonical True)
      else if 1 < length (known_run_ids rows) then None
      else Some rows)"

definition same_event :: "zf_event \<Rightarrow> zf_event \<Rightarrow> bool" where
  "same_event a b \<longleftrightarrow> text_of (ev_id a) \<noteq> [] \<and> text_of (ev_id a) = text_of (ev_id b) \<or> a = b"

definition quiescent_at :: "zf_event list \<Rightarrow> nat \<Rightarrow> bool" where
  "quiescent_at rows i \<longleftrightarrow> is_successful_run_terminal (rows ! i) \<and> \<not> has_effective_reopen (drop (Suc i) rows)"

text \<open>\<open>for index in range(hi - 1, lo - 1, -1)\<close>: the greatest index below \<open>hi\<close> with the property.\<close>

definition scan_back :: "(nat \<Rightarrow> bool) \<Rightarrow> nat \<Rightarrow> nat \<Rightarrow> nat option" where
  "scan_back P lo hi = find P (rev [lo..<hi])"

definition latest_quiescent_run_terminal :: "zf_event list \<Rightarrow> string \<Rightarrow> zf_event option" where
  "latest_quiescent_run_terminal rows run_id =
     (case scoped_rows rows run_id of
        None \<Rightarrow> None
      | Some scoped \<Rightarrow> map_option ((!) scoped) (scan_back (quiescent_at scoped) 0 (length scoped)))"

definition index_of :: "zf_event \<Rightarrow> zf_event list \<Rightarrow> nat option" where
  "index_of e rows = find (\<lambda>i. same_event (rows ! i) e) [0..<length rows]"

definition terminal_after_event :: "zf_event list \<Rightarrow> zf_event \<Rightarrow> zf_event option" where
  "terminal_after_event rows source =
     (case scoped_rows rows (event_run_id (run_aliases rows) source) of
        None \<Rightarrow> None
      | Some scoped \<Rightarrow>
          (case index_of source scoped of
             None \<Rightarrow> None
           | Some i \<Rightarrow> map_option ((!) scoped) (scan_back (quiescent_at scoped) (Suc i) (length scoped))))"

definition with_source :: "zf_event list \<Rightarrow> zf_event \<Rightarrow> zf_event list" where
  "with_source rows source = (if list_ex (\<lambda>e. same_event e source) rows then rows else rows @ [source])"

definition successful_terminal_before_event :: "zf_event list \<Rightarrow> zf_event \<Rightarrow> zf_event option" where
  "successful_terminal_before_event events source =
     (let rows = with_source events source in
      (case scoped_rows rows (event_run_id (run_aliases rows) source) of
         None \<Rightarrow> None
       | Some scoped \<Rightarrow>
           (case index_of source scoped of
              None \<Rightarrow> None
            | Some n \<Rightarrow>
                (case scan_back (\<lambda>i. is_successful_run_terminal (scoped ! i)) 0 n of
                   None \<Rightarrow> None
                 | Some i \<Rightarrow>
                     if list_ex (\<lambda>e. ev_type e = JStr ''run.goal.started'') (drop (Suc i) (take n scoped)) then None
                     else Some (scoped ! i)))))"

definition event_run_scope :: "zf_event list \<Rightarrow> zf_event \<Rightarrow> string" where
  "event_run_scope events e =
     (let scope = event_run_id (run_aliases events) e in if scope \<noteq> [] then scope else only_run events)"

section \<open>Quiescence\<close>

lemma find_rev_upt:
  "find P (rev [lo..<hi]) = Some i \<longleftrightarrow> lo \<le> i \<and> i < hi \<and> P i \<and> (\<forall>j. i < j \<and> j < hi \<longrightarrow> \<not> P j)"
proof (induction hi)
  case (Suc hi)
  show ?case
  proof (cases "lo \<le> hi \<and> P hi")
    case True
    then show ?thesis by (auto simp: less_Suc_eq)
  next
    case False
    then show ?thesis using Suc by (auto simp: less_Suc_eq dest: less_imp_le)
  qed
qed simp

lemma scan_back_Some:
  "scan_back P lo hi = Some i \<longleftrightarrow> lo \<le> i \<and> i < hi \<and> P i \<and> (\<forall>j. i < j \<and> j < hi \<longrightarrow> \<not> P j)"
  by (simp add: scan_back_def find_rev_upt)

lemma scan_back_None: "scan_back P lo hi = None \<longleftrightarrow> (\<forall>i. lo \<le> i \<and> i < hi \<longrightarrow> \<not> P i)"
  by (auto simp: scan_back_def find_None_iff)

lemma index_of_Some:
  "index_of e rows = Some n \<longleftrightarrow> n < length rows \<and> same_event (rows ! n) e \<and> (\<forall>j < n. \<not> same_event (rows ! j) e)"
  by (auto simp: index_of_def find_Some_iff)

lemma index_of_None: "index_of e rows = None \<longleftrightarrow> (\<forall>x \<in> set rows. \<not> same_event x e)"
  by (fastforce simp: index_of_def find_None_iff in_set_conv_nth)

lemma quiescent_at_mid: "quiescent_at (pre @ t # post) (length pre) \<longleftrightarrow> is_successful_run_terminal t \<and> \<not> has_effective_reopen post"
  by (simp add: quiescent_at_def)

lemma last_quiescent_Some:
  assumes "map_option ((!) rows) (scan_back (quiescent_at rows) lo (length rows)) = Some t"
  shows "\<exists>pre post. rows = pre @ t # post \<and> lo \<le> length pre \<and> is_successful_run_terminal t \<and> \<not> has_effective_reopen post"
proof -
  obtain i where i: "lo \<le> i" "i < length rows" "quiescent_at rows i" "t = rows ! i"
    using assms by (auto simp: scan_back_Some)
  then have "rows = take i rows @ t # drop (Suc i) rows" by (simp add: id_take_nth_drop)
  with i show ?thesis by (intro exI [of _ "take i rows"] exI [of _ "drop (Suc i) rows"]) (simp add: quiescent_at_def)
qed

lemma last_quiescent_None:
  assumes "scan_back (quiescent_at rows) lo (length rows) = None" and "rows = pre @ t # post" and "lo \<le> length pre"
    and "is_successful_run_terminal t"
  shows "has_effective_reopen post"
proof -
  have "\<not> quiescent_at rows (length pre)" using assms(1-3) by (simp add: scan_back_None)
  with assms(2,4) show ?thesis by (simp add: quiescent_at_mid)
qed

text \<open>No run is known under the empty name.\<close>

lemma alias_event_blank:
  assumes "map_of roots [] = None" and "map_of al [] = None"
  shows "map_of (alias_event roots e al) [] = None"
proof -
  have "[] \<notin> set (established_roots roots al (identities al e))" using assms(1) by (auto simp: established_roots_def)
  moreover have "[] \<notin> set (identities al e)" using identities_text by blast
  ultimately show ?thesis
    using assms(2) by (simp add: alias_event_def Let_def map_of_updates_self map_of_updates_to map_of_rename)
qed

lemma run_aliases_blank: "map_of (run_aliases es) [] = None"
proof -
  have root: "map_of (canonical_roots es) [] = None" using canonical_root_text by blast
  have "map_of al [] = None \<Longrightarrow> map_of (fold (alias_event (canonical_roots es)) xs al) [] = None" for xs al
    by (induction xs arbitrary: al) (simp_all add: alias_event_blank [OF root])
  then show ?thesis by (simp add: run_aliases_def)
qed

text \<open>The view of an approved run.\<close>

lemma scoped_rows_root:
  assumes "map_of (canonical_roots es) r \<noteq> None"
  shows "scoped_rows es r = Some (events_for_run es r True)"
proof -
  have "map_of (run_aliases es) r = Some r" "r \<noteq> [] \<and> strip r = r"
    using root_resolves canonical_root_text assms by blast+
  then show ?thesis by (simp add: scoped_rows_def alias_get_def)
qed

text \<open>C26: A run is quiescent exactly when its own work is done. For an approved run the answer is a successful terminal event of that
  run, of no other approved run, with no effective work of the run after it; and when there is no answer, every
  successful terminal of the run was followed by fresh work. A caller that names no run gets an answer only where the log has
  no second run.\<close>

theorem run_quiescence_exact:
  assumes root: "map_of (canonical_roots es) r \<noteq> None"
  shows "(\<forall>t. latest_quiescent_run_terminal es r = Some t \<longrightarrow>
      (\<exists>pre post. events_for_run es r True = pre @ t # post \<and> is_successful_run_terminal t \<and> \<not> has_effective_reopen post)
      \<and> (\<forall>r'. map_of (canonical_roots es) r' \<noteq> None \<and> r' \<noteq> r \<longrightarrow> t \<notin> set (events_for_run es r' True)))
    \<and> (latest_quiescent_run_terminal es r = None \<longrightarrow>
      (\<forall>pre t post. events_for_run es r True = pre @ t # post \<and> is_successful_run_terminal t \<longrightarrow> has_effective_reopen post))
    \<and> (1 < length (known_run_ids es) \<longrightarrow> latest_quiescent_run_terminal es [] = None)"
proof (intro conjI allI impI)
  note rows = scoped_rows_root [OF root]
  fix t assume "latest_quiescent_run_terminal es r = Some t"
  then have "map_option ((!) (events_for_run es r True)) (scan_back (quiescent_at (events_for_run es r True)) 0 (length (events_for_run es r True))) = Some t"
    by (simp add: latest_quiescent_run_terminal_def rows)
  from last_quiescent_Some [OF this] obtain pre post where
    split: "events_for_run es r True = pre @ t # post" "is_successful_run_terminal t" "\<not> has_effective_reopen post" by blast
  then show "\<exists>pre post. events_for_run es r True = pre @ t # post \<and> is_successful_run_terminal t \<and> \<not> has_effective_reopen post" by blast
  fix r' assume "map_of (canonical_roots es) r' \<noteq> None \<and> r' \<noteq> r"
  then show "t \<notin> set (events_for_run es r' True)" using root_views_disjoint [OF root, of r' True True] split(1) by auto
next
  fix pre t post
  assume "latest_quiescent_run_terminal es r = None" and "events_for_run es r True = pre @ t # post \<and> is_successful_run_terminal t"
  then show "has_effective_reopen post"
    using last_quiescent_None [of "events_for_run es r True" 0 pre t post] by (simp add: latest_quiescent_run_terminal_def scoped_rows_root [OF root])
next
  assume "1 < length (known_run_ids es)"
  then show "latest_quiescent_run_terminal es [] = None"
    by (simp add: latest_quiescent_run_terminal_def scoped_rows_def alias_get_def run_aliases_blank)
qed

definition demo_terminal :: "string \<Rightarrow> string \<Rightarrow> zf_event" where
  "demo_terminal kind r = (new_event (kind, ''t'') kind)\<lparr>ev_payload := JObj [(''run_id'', JStr r)]\<rparr>"

theorem run_quiescence_exact_witness:
  "\<exists>es. map_of (canonical_roots es) ''A'' \<noteq> None \<and> latest_quiescent_run_terminal es ''A'' = Some (demo_terminal ''ship.done'' ''A'')
    \<and> (\<exists>pre post. events_for_run es ''A'' True = pre @ demo_terminal ''ship.done'' ''A'' # post
        \<and> is_successful_run_terminal (demo_terminal ''ship.done'' ''A'') \<and> \<not> has_effective_reopen post)"
proof -
  let ?es = "[demo_terminal ''run.started'' ''A'', demo_terminal ''ship.done'' ''A'']"
  have root: "map_of (canonical_roots ?es) ''A'' \<noteq> None"
    by (simp add: canonical_roots_def add_root_def type_in_def canonical_run_anchor_events_def demo_terminal_def
        new_event_def root_name_def payload_of_def py_or_def text_of_def strip_def lstrip_def is_space_def Let_def)
  have "latest_quiescent_run_terminal ?es ''A'' = Some (demo_terminal ''ship.done'' ''A'')"
    by code_simp
  with run_quiescence_exact [OF root] root show ?thesis by blast
qed

text \<open>A result that arrives after its run has ended is fenced off. The fence names the last successful terminal
  before the result in its own run, and it is absent exactly when no successful terminal precedes the result or the run
  was started again since.\<close>

lemma late_result_fence_exact:
  assumes view: "scoped_rows (with_source es source) (event_run_id (run_aliases (with_source es source)) source) = Some (before @ here # after)"
    and here: "same_event here source" and first: "\<forall>x \<in> set before. \<not> same_event x source"
  shows "successful_terminal_before_event es source = Some t \<longleftrightarrow>
    (\<exists>pre post. before = pre @ t # post \<and> is_successful_run_terminal t
       \<and> (\<forall>x \<in> set post. \<not> is_successful_run_terminal x \<and> ev_type x \<noteq> JStr ''run.goal.started''))"
proof -
  let ?rows = "before @ here # after" and ?n = "length before"
  have n: "index_of source ?rows = Some ?n"
    using here first by (auto simp: index_of_Some nth_append)
  have mid: "drop (Suc i) (take ?n ?rows) = drop (Suc i) before" for i by simp
  have fence: "successful_terminal_before_event es source = Some t \<longleftrightarrow>
      (\<exists>i. scan_back (\<lambda>i. is_successful_run_terminal (?rows ! i)) 0 ?n = Some i
        \<and> \<not> list_ex (\<lambda>e. ev_type e = JStr ''run.goal.started'') (drop (Suc i) before) \<and> t = ?rows ! i)"
    using view n by (auto simp: successful_terminal_before_event_def Let_def mid split: option.splits if_splits)
  show ?thesis
  proof
    assume "successful_terminal_before_event es source = Some t"
    then obtain i where i: "i < ?n" "is_successful_run_terminal t" "t = before ! i"
        "\<And>j. i < j \<Longrightarrow> j < ?n \<Longrightarrow> \<not> is_successful_run_terminal (before ! j)"
        "\<not> list_ex (\<lambda>e. ev_type e = JStr ''run.goal.started'') (drop (Suc i) before)"
      by (auto simp: fence scan_back_Some nth_append)
    moreover have "\<not> is_successful_run_terminal x" if "x \<in> set (drop (Suc i) before)" for x
      using that i(4) by (auto simp: in_set_conv_nth)
    moreover have "before = take i before @ t # drop (Suc i) before" using i by (simp add: id_take_nth_drop)
    ultimately show "\<exists>pre post. before = pre @ t # post \<and> is_successful_run_terminal t
       \<and> (\<forall>x \<in> set post. \<not> is_successful_run_terminal x \<and> ev_type x \<noteq> JStr ''run.goal.started'')"
      by (auto simp: list_ex_iff) blast
  next
    assume "\<exists>pre post. before = pre @ t # post \<and> is_successful_run_terminal t
       \<and> (\<forall>x \<in> set post. \<not> is_successful_run_terminal x \<and> ev_type x \<noteq> JStr ''run.goal.started'')"
    then obtain pre post where p: "before = pre @ t # post" "is_successful_run_terminal t"
        "\<forall>x \<in> set post. \<not> is_successful_run_terminal x \<and> ev_type x \<noteq> JStr ''run.goal.started''" by blast
    have "\<not> is_successful_run_terminal (?rows ! j)" if "length pre < j" "j < ?n" for j
    proof -
      have "?rows ! j = post ! (j - length pre - 1)" using that p(1) by (simp add: nth_append nth_Cons')
      moreover have "j - length pre - 1 < length post" using that p(1) by simp
      ultimately show ?thesis using p(3) by (metis nth_mem)
    qed
    then have "scan_back (\<lambda>i. is_successful_run_terminal (?rows ! i)) 0 ?n = Some (length pre)"
      using p by (auto simp: scan_back_Some nth_append)
    then show "successful_terminal_before_event es source = Some t"
      using p by (auto simp: fence list_ex_iff nth_append)
  qed
qed

end
