(* ===== verification/Attempt_Ledger.thy ===== *)
theory Attempt_Ledger
  imports Terminal_Events Task_Store
begin

text \<open>
  \<open>runtime/attempt_ledger.py\<close> and the rework counter of \<open>runtime/housekeeping.py\<close>: how often a task has really failed. Replays of an
  event and results of superseded fanouts must not use up the rework budget. The registry of event problems
  (\<open>runtime/event_problem_registry.py\<close>, a table) is the argument \<open>specs\<close>.
\<close>

section \<open>Failure events\<close>

text \<open>\<open>WorkflowEventSets.baseline()\<close> of \<open>core/workflow/topology.py\<close>.\<close>

definition rework_trigger_events :: "string list" where
  "rework_trigger_events =
     [''review.rejected'', ''verify.failed'', ''test.failed'', ''judge.failed'', ''gate.failed'', ''discriminator.failed'', ''task.done.blocked'',
      ''dev.blocked'', ''dev.failed'', ''impl.child.failed'', ''review.child.failed'', ''verify.child.failed'']"

definition rework_triage_trigger_events :: "string list" where
  "rework_triage_trigger_events = rework_trigger_events @ [''static_gate.failed'']"

definition REWORK_FAILURE_TYPES :: "string list" where
  "REWORK_FAILURE_TYPES = filter (\<lambda>t. t \<noteq> ''task.done.blocked'') rework_triage_trigger_events"

definition START_EVENTS :: "string list" where
  "START_EVENTS = [''task.dispatched'', ''fanout.child.dispatched'']"

definition NON_RETRYABLE_REASON_MARKERS :: "string list" where
  "NON_RETRYABLE_REASON_MARKERS =
     [''libnspr4'', ''permission denied'', ''read-only file system'', ''not owned by'', ''root-owned'', ''workdir permission'', ''chromium cannot load'']"

record problem_spec =
  ps_problem_class :: string
  ps_failure_class :: string

type_synonym problem_specs = "string \<Rightarrow> problem_spec option"

definition type_text :: "zf_event \<Rightarrow> string" where
  "type_text e = py_str (ev_type e)"

definition failure_signature :: "problem_specs \<Rightarrow> zf_event \<Rightarrow> string" where
  "failure_signature specs e =
     (case specs (type_text e) of
        Some spec \<Rightarrow> ps_failure_class spec
      | None \<Rightarrow> map (\<lambda>c. if c = CHR ''.'' then CHR ''_'' else c) (type_text e))"

definition semantic_keys :: "string list" where
  "semantic_keys =
     [''actual'', ''category'', ''code'', ''expected'', ''failure_class'', ''message'', ''reason'', ''severity'', ''summary'', ''type'']"

fun stable_failure_details :: "json \<Rightarrow> json" where
  "stable_failure_details (JObj d) =
     JObj (filter (\<lambda>kv. fst kv \<in> set semantic_keys) (sort_dict (map (\<lambda>kv. (fst kv, stable_failure_details (snd kv))) d)))"
| "stable_failure_details (JList xs) = JList (sort_key (json_dumps '', '' '': '' True) (map stable_failure_details xs))"
| "stable_failure_details v = v"

fun first_truthy :: "pydict \<Rightarrow> string list \<Rightarrow> json" where
  "first_truthy d [] = JList []"
| "first_truthy d (k # ks) = (if truthy (dict_get d k) then dict_get d k else first_truthy d ks)"

definition failure_fingerprint :: "zf_event \<Rightarrow> string" where
  "failure_fingerprint e =
     (let p = payload_of e; explicit = strip (sget_first p [''failure_fingerprint'', ''fingerprint'']) in
      if explicit \<noteq> [] then explicit
      else
        (let stable = JObj
               [(''event_type'', ev_type e), (''stage'', JStr (sget_first p [''stage_id'', ''stage''])),
                (''reason'', JStr (lower (strip (sget_first p [''reason'', ''summary'', ''error''])))),
                (''details'', stable_failure_details (first_truthy p [''findings'', ''failed_d'', ''errors'']))]
         in ''task-failure-'' @ take 16 (sha1_hex (json_dumps '', '' '': '' True stable))))"

definition non_retryable_reason :: "problem_specs \<Rightarrow> zf_event \<Rightarrow> string option" where
  "non_retryable_reason specs e =
     (if (\<exists>spec. specs (type_text e) = Some spec \<and> ps_problem_class spec = ''environment'')
      then Some (''registry problem_class=environment ('' @ type_text e @ '')'')
      else
        (let blob = lower (sget (payload_of e) ''reason'' @ '' '' @ sget (payload_of e) ''summary'') in
         map_option (\<lambda>m. ''environment symptom '' @ repr_str m @ '' in failure reason'') (find (contains blob) NON_RETRYABLE_REASON_MARKERS)))"

section \<open>What counts\<close>

definition fanout_text :: "zf_event \<Rightarrow> string" where
  "fanout_text e = sget (payload_of e) ''fanout_id''"

definition cancels_superseded :: "zf_event \<Rightarrow> bool" where
  "cancels_superseded e \<longleftrightarrow> ev_type e = JStr ''fanout.cancelled'' \<and> contains (sget (payload_of e) ''reason'') ''supersede''"

definition cancelled_fanouts :: "zf_event list \<Rightarrow> string list" where
  "cancelled_fanouts es = filter (\<lambda>f. f \<noteq> []) (map fanout_text (filter cancels_superseded es))"

definition superseded_fanouts :: "zf_event list \<Rightarrow> string list" where
  "superseded_fanouts es =
     filter (\<lambda>f. f \<noteq> []) (map fanout_text (filter (\<lambda>e. cancels_superseded e \<or> ev_type e = JStr ''fanout.child.stale_completion'') es))"

definition own_task :: "zf_event \<Rightarrow> string" where
  "own_task e = text_of (py_or (ev_task_id e) (dict_get (payload_of e) ''task_id''))"

definition aggregate_task_ids :: "zf_event \<Rightarrow> string list" where
  "aggregate_task_ids e =
     (case dict_get (payload_of e) ''failed_task_ids'' of
        JList xs \<Rightarrow> map py_str (filter (\<lambda>x. strip (text_of x) \<noteq> []) xs)
      | _ \<Rightarrow> [])"

definition targets_task :: "string \<Rightarrow> zf_event \<Rightarrow> bool" where
  "targets_task task e \<longleftrightarrow> (if own_task e \<noteq> [] then own_task e = task else task \<in> set (aggregate_task_ids e))"

record failure_scan =
  fs_out :: "zf_event list"
  fs_seen :: "(string \<times> json \<times> string) list"
  fs_seen_ids :: "json list"

definition replay_key :: "zf_event \<Rightarrow> string \<times> json \<times> string" where
  "replay_key e = (fanout_text e, ev_type e, failure_fingerprint e)"

definition failure_admitted :: "string list \<Rightarrow> string \<Rightarrow> string option \<Rightarrow> zf_event \<Rightarrow> bool" where
  "failure_admitted superseded task fp e \<longleftrightarrow>
     \<not> (truthy (dict_get (payload_of e) ''replay'') \<or> truthy (dict_get (payload_of e) ''stale''))
     \<and> strip (sget (payload_of e) ''superseded_by'') = []
     \<and> targets_task task e
     \<and> (case fp of None \<Rightarrow> True | Some f \<Rightarrow> failure_fingerprint e = f)
     \<and> \<not> (fanout_text e \<noteq> [] \<and> fanout_text e \<in> set superseded)"

definition scan_failure :: "string list \<Rightarrow> string \<Rightarrow> string option \<Rightarrow> zf_event \<Rightarrow> failure_scan \<Rightarrow> failure_scan" where
  "scan_failure superseded task fp e st =
     (if \<not> type_in e REWORK_FAILURE_TYPES \<or> (truthy (ev_id e) \<and> ev_id e \<in> set (fs_seen_ids st)) then st
      else
        (let st1 = (if truthy (ev_id e) then st\<lparr>fs_seen_ids := ev_id e # fs_seen_ids st\<rparr> else st) in
         if \<not> failure_admitted superseded task fp e \<or> (fanout_text e \<noteq> [] \<and> replay_key e \<in> set (fs_seen st1)) then st1
         else st1\<lparr>fs_out := fs_out st1 @ [e],
                  fs_seen := (if fanout_text e \<noteq> [] then replay_key e # fs_seen st1 else fs_seen st1)\<rparr>))"

definition counted_failure_events :: "zf_event list \<Rightarrow> string \<Rightarrow> string option \<Rightarrow> zf_event list" where
  "counted_failure_events es task fp =
     fs_out (fold (scan_failure (superseded_fanouts es) task fp) es \<lparr>fs_out = [], fs_seen = [], fs_seen_ids = []\<rparr>)"

definition scan_round :: "string list \<Rightarrow> string \<Rightarrow> zf_event \<Rightarrow> nat \<times> (string \<times> json) list \<Rightarrow> nat \<times> (string \<times> json) list" where
  "scan_round superseded task e st =
     (let key = (fanout_text e, ev_type e) in
      if \<not> type_in e REWORK_FAILURE_TYPES \<or> own_task e \<noteq> task
         \<or> (fanout_text e \<noteq> [] \<and> fanout_text e \<in> set superseded) \<or> (fanout_text e \<noteq> [] \<and> key \<in> set (snd st))
      then st
      else (Suc (fst st), key # snd st))"

definition counted_rework_rounds :: "zf_event list \<Rightarrow> string \<Rightarrow> nat" where
  "counted_rework_rounds es task = fst (fold (scan_round (cancelled_fanouts es) task) es (0, []))"

section \<open>The ledger\<close>

record attempt =
  at_ordinal :: nat
  at_holder :: string
  at_started_ts :: json
  at_fanout_id :: string
  at_terminal_type :: string
  at_terminal_ts :: json
  at_failure_signature :: string
  at_counted :: bool

record ledger_scan =
  ls_attempts :: "attempt list"
  ls_failure_keys :: "(string \<times> string) list"

definition ledger_task :: "zf_event \<Rightarrow> string" where
  "ledger_task e = text_of (py_or (ev_task_id e) (py_or (dict_get (payload_of e) ''task_id'') (dict_get (payload_of e) ''upstream_task_id'')))"

definition new_attempt :: "zf_event \<Rightarrow> nat \<Rightarrow> attempt" where
  "new_attempt e n =
     \<lparr>at_ordinal = n, at_holder = sget_first (payload_of e) [''role'', ''role_instance'', ''assigned_to''], at_started_ts = ev_ts e,
      at_fanout_id = fanout_text e, at_terminal_type = [], at_terminal_ts = JStr [], at_failure_signature = [], at_counted = True\<rparr>"

fun update_first :: "('a \<Rightarrow> bool) \<Rightarrow> ('a \<Rightarrow> 'a) \<Rightarrow> 'a list \<Rightarrow> 'a list" where
  "update_first P f [] = []"
| "update_first P f (x # xs) = (if P x then f x # xs else x # update_first P f xs)"

definition update_last :: "('a \<Rightarrow> bool) \<Rightarrow> ('a \<Rightarrow> 'a) \<Rightarrow> 'a list \<Rightarrow> 'a list" where
  "update_last P f xs = rev (update_first P f (rev xs))"

definition is_open :: "attempt \<Rightarrow> bool" where
  "is_open a \<longleftrightarrow> at_terminal_type a = []"

definition close_attempt :: "problem_specs \<Rightarrow> string list \<Rightarrow> (string \<times> string) list \<Rightarrow> zf_event \<Rightarrow> attempt \<Rightarrow> attempt" where
  "close_attempt specs superseded keys e a =
     (let f = str_or (fanout_text e) (at_fanout_id a); t = type_text e;
          a1 = a\<lparr>at_terminal_type := t, at_terminal_ts := ev_ts e\<rparr> in
      if is_task_attempt_failure_event t then
        a1\<lparr>at_failure_signature := failure_signature specs e, at_counted := \<not> (((f, t) \<in> set keys \<and> f \<noteq> []) \<or> f \<in> set superseded)\<rparr>
      else if is_task_attempt_success_event t then a1\<lparr>at_counted := f \<notin> set superseded\<rparr>
      else a1)"

definition ledger_step :: "problem_specs \<Rightarrow> string list \<Rightarrow> string \<Rightarrow> zf_event \<Rightarrow> ledger_scan \<Rightarrow> ledger_scan" where
  "ledger_step specs superseded task e st =
     (if ledger_task e \<noteq> task then st
      else if type_in e START_EVENTS then st\<lparr>ls_attempts := ls_attempts st @ [new_attempt e (Suc (length (ls_attempts st)))]\<rparr>
      else if is_task_attempt_terminal_event (type_text e) then
        (case filter is_open (ls_attempts st) of
           [] \<Rightarrow> st
         | open \<Rightarrow>
             (let f = str_or (fanout_text e) (at_fanout_id (last open)) in
              \<lparr>ls_attempts = update_last is_open (close_attempt specs superseded (ls_failure_keys st) e) (ls_attempts st),
               ls_failure_keys =
                 (if is_task_attempt_failure_event (type_text e) \<and> f \<noteq> [] then (f, type_text e) # ls_failure_keys st else ls_failure_keys st)\<rparr>))
      else st)"

definition derive_task_ledger :: "problem_specs \<Rightarrow> zf_event list \<Rightarrow> string \<Rightarrow> attempt list" where
  "derive_task_ledger specs es task =
     ls_attempts (fold (ledger_step specs (superseded_fanouts es) task) es \<lparr>ls_attempts = [], ls_failure_keys = []\<rparr>)"

definition counted_failures :: "attempt list \<Rightarrow> string option \<Rightarrow> nat" where
  "counted_failures as signature =
     length (filter (\<lambda>a. at_counted a \<and> is_task_attempt_failure_event (at_terminal_type a)
       \<and> (case signature of None \<Rightarrow> True | Some s \<Rightarrow> at_failure_signature a = s)) as)"

definition ledger_summary :: "string \<Rightarrow> attempt list \<Rightarrow> pydict" where
  "ledger_summary task as =
     [(''task_id'', JStr task), (''attempts_total'', JInt (int (length as))), (''counted_failures'', JInt (int (counted_failures as None))),
      (''uncounted'', JInt (int (length (filter (\<lambda>a. \<not> is_open a \<and> \<not> at_counted a) as)))),
      (''open'', JInt (int (length (filter is_open as)))), (''last_holder'', JStr (if as = [] then [] else at_holder (last as)))]"

section \<open>The counter on the board\<close>

fun replayed_before :: "zf_event \<Rightarrow> zf_event list \<Rightarrow> bool" where
  "replayed_before e [] = False"
| "replayed_before e (p # ps) =
     (if ev_id p = ev_id e then False
      else if type_in p REWORK_FAILURE_TYPES \<and> text_of (ev_task_id p) = py_str (ev_task_id e) \<and> fanout_text p = fanout_text e then True
      else replayed_before e ps)"

fun number_of :: "json \<Rightarrow> int option" where
  "number_of (JInt n) = Some n"
| "number_of (JBool b) = Some (if b then 1 else 0)"
| "number_of _ = None"

definition apply_rework_failure_event :: "clock \<Rightarrow> zf_event \<Rightarrow> zf_event list \<Rightarrow> board \<Rightarrow> unit board_op" where
  "apply_rework_failure_event ck e events s =
     (if \<not> type_in e REWORK_FAILURE_TYPES \<or> \<not> truthy (ev_task_id e) then ([], Inr ())
      else if fanout_text e \<noteq> [] \<and> replayed_before e events then ([], Inr ())
      else
        (let task_id = py_str (ev_task_id e) in
         (case get_task ck task_id s of
            Inl err \<Rightarrow> ([], Inl err)
          | Inr None \<Rightarrow> ([], Inr ())
          | Inr (Some t) \<Rightarrow>
              (case number_of (dict_get t ''retry_count'') of
                 Some n \<Rightarrow> map_prod id (map_sum id (\<lambda>_. ())) (update_task ck task_id [(''retry_count'', JInt (n + 1))] s)
               | None \<Rightarrow> ([], Inl (TypeError ''unsupported operand''))))))"

section \<open>Rounds are counted once\<close>

text \<open>The reference: failures outside fanouts count each, failures of a fanout once per kind.\<close>

definition counts :: "string list \<Rightarrow> string \<Rightarrow> zf_event \<Rightarrow> bool" where
  "counts superseded task e \<longleftrightarrow>
     type_in e REWORK_FAILURE_TYPES \<and> own_task e = task \<and> \<not> (fanout_text e \<noteq> [] \<and> fanout_text e \<in> set superseded)"

definition solo_failures :: "string list \<Rightarrow> string \<Rightarrow> zf_event list \<Rightarrow> zf_event list" where
  "solo_failures superseded task es = filter (\<lambda>e. counts superseded task e \<and> fanout_text e = []) es"

definition fanout_failures :: "string list \<Rightarrow> string \<Rightarrow> zf_event list \<Rightarrow> (string \<times> json) set" where
  "fanout_failures superseded task es =
     (\<lambda>e. (fanout_text e, ev_type e)) ` set (filter (\<lambda>e. counts superseded task e \<and> fanout_text e \<noteq> []) es)"

lemma fanout_failures_Cons:
  "fanout_failures superseded task (e # es) =
     (if counts superseded task e \<and> fanout_text e \<noteq> [] then insert (fanout_text e, ev_type e) (fanout_failures superseded task es)
      else fanout_failures superseded task es)"
  by (simp add: fanout_failures_def)

lemma fold_scan_round:
  "fst (fold (scan_round superseded task) es (n, K)) =
     n + length (solo_failures superseded task es) + card (fanout_failures superseded task es - set K)"
proof (induction es arbitrary: n K)
  case Nil
  then show ?case by (simp add: solo_failures_def fanout_failures_def)
next
  case (Cons e es)
  let ?key = "(fanout_text e, ev_type e)" and ?F = "fanout_failures superseded task es"
  have fin: "finite (?F - set K)" by (simp add: fanout_failures_def)
  consider (no) "\<not> counts superseded task e" | (solo) "counts superseded task e" "fanout_text e = []"
    | (old) "counts superseded task e" "fanout_text e \<noteq> []" "?key \<in> set K"
    | (new) "counts superseded task e" "fanout_text e \<noteq> []" "?key \<notin> set K" by blast
  then show ?case
  proof cases
    case no
    then have "scan_round superseded task e (n, K) = (n, K)" by (auto simp: scan_round_def counts_def Let_def)
    with no Cons.IH [of n K] show ?thesis by (simp add: solo_failures_def fanout_failures_Cons)
  next
    case solo
    then have "scan_round superseded task e (n, K) = (Suc n, ?key # K)" by (auto simp: scan_round_def counts_def Let_def)
    moreover have "?F - set (?key # K) = ?F - set K" using solo(2) by (auto simp: fanout_failures_def)
    ultimately show ?thesis using solo Cons.IH [of "Suc n" "?key # K"] by (simp add: solo_failures_def fanout_failures_Cons)
  next
    case old
    then have "scan_round superseded task e (n, K) = (n, K)" by (auto simp: scan_round_def counts_def Let_def)
    moreover have "insert ?key ?F - set K = ?F - set K" using old(3) by auto
    ultimately show ?thesis using old Cons.IH [of n K] by (simp add: solo_failures_def fanout_failures_Cons)
  next
    case new
    then have "scan_round superseded task e (n, K) = (Suc n, ?key # K)" by (auto simp: scan_round_def counts_def Let_def)
    moreover have "insert ?key ?F - set K = insert ?key (?F - set (?key # K))" using new(3) by auto
    moreover have "card (insert ?key (?F - set (?key # K))) = Suc (card (?F - set (?key # K)))"
      by (rule card_insert_disjoint) (simp_all add: fanout_failures_def)
    ultimately show ?thesis using new Cons.IH [of "Suc n" "?key # K"] by (simp add: solo_failures_def fanout_failures_Cons)
  qed
qed

lemma rounds_exact:
  "counted_rework_rounds es task =
     length (solo_failures (cancelled_fanouts es) task es) + card (fanout_failures (cancelled_fanouts es) task es)"
  by (simp add: counted_rework_rounds_def fold_scan_round)

text \<open>What the counter of the log counts: every failure of a task outside fanouts, each time it arrives, and once per fanout and kind of failure the others, the
  fanouts that were cancelled as superseded left out.\<close>

lemma rework_rounds_exact:
  "counted_rework_rounds es task =
     length (filter (\<lambda>e. type_in e REWORK_FAILURE_TYPES \<and> own_task e = task \<and> fanout_text e = []) es)
     + card {(fanout_text e, ev_type e) | e. e \<in> set es \<and> type_in e REWORK_FAILURE_TYPES \<and> own_task e = task
         \<and> fanout_text e \<noteq> [] \<and> fanout_text e \<notin> set (cancelled_fanouts es)}"
proof -
  have "filter (\<lambda>e. type_in e REWORK_FAILURE_TYPES \<and> own_task e = task \<and> fanout_text e = []) es = solo_failures (cancelled_fanouts es) task es"
    by (auto simp: solo_failures_def counts_def intro!: filter_cong)
  moreover have "{(fanout_text e, ev_type e) | e. e \<in> set es \<and> type_in e REWORK_FAILURE_TYPES \<and> own_task e = task
      \<and> fanout_text e \<noteq> [] \<and> fanout_text e \<notin> set (cancelled_fanouts es)} = fanout_failures (cancelled_fanouts es) task es"
    by (auto simp: fanout_failures_def counts_def)
  ultimately show ?thesis by (simp add: rounds_exact)
qed

text \<open>An event that repeats a failure of a fanout: a redelivery or an echo of a re-dispatch.\<close>

definition replay_of :: "zf_event \<Rightarrow> zf_event \<Rightarrow> bool" where
  "replay_of e x \<longleftrightarrow>
     ev_type x = ev_type e \<and> ev_task_id x = ev_task_id e \<and> truthy (ev_task_id e) \<and> fanout_text x = fanout_text e \<and> fanout_text e \<noteq> []
     \<and> type_in e REWORK_FAILURE_TYPES"

lemma replayed_before_prefix:
  assumes "e \<in> set es" and "replay_of e x" and "ev_id x \<notin> ev_id ` set es"
  shows "replayed_before x (es @ rest)"
  using assms
proof (induction es)
  case (Cons p ps)
  have "ev_id p \<noteq> ev_id x" using Cons.prems(3) by auto
  moreover have "replayed_before x (ps @ rest)" if "e \<noteq> p" using Cons that by auto
  moreover have "py_str (ev_task_id x) = text_of (ev_task_id x)" using Cons.prems(2) by (simp add: replay_of_def text_of_def)
  ultimately show ?case using Cons.prems(2) by (auto simp: replay_of_def)
qed simp

lemma apply_replayed:
  "type_in e REWORK_FAILURE_TYPES \<Longrightarrow> truthy (ev_task_id e) \<Longrightarrow> fanout_text e \<noteq> [] \<Longrightarrow> replayed_before e events
    \<Longrightarrow> apply_rework_failure_event ck e events s = ([], Inr ())"
  by (simp only: apply_rework_failure_event_def) simp

lemma replay_not_cancel: "replay_of e x \<Longrightarrow> \<not> cancels_superseded x"
  by (auto simp: replay_of_def cancels_superseded_def type_in_def REWORK_FAILURE_TYPES_def rework_triage_trigger_events_def
      rework_trigger_events_def)

text \<open>C27: A repeated failure of a fanout is free on both counters. Let events be appended to the log, in any order and number, each of which repeats an
  earlier failure of the log: the same type, the same task in its field task_id, the same fanout, and an id that no earlier event has. Then the number of
  rounds that the log shows for a task stays as it is, and applying any of them to the board writes nothing and so leaves the retry count. Failures of another
  kind in the same fanout are no repeats, and there the two counters disagree (rework_counters_diverge); outside fanouts every failure counts.\<close>

theorem rework_replays_free:
  assumes replays: "\<forall>x \<in> set extra. \<exists>e \<in> set es. replay_of e x" and ids: "\<forall>x \<in> set extra. ev_id x \<notin> ev_id ` set es"
  shows "counted_rework_rounds (es @ extra) task = counted_rework_rounds es task
    \<and> (\<forall>x \<in> set extra. apply_rework_failure_event ck x (es @ extra) s = ([], Inr ()))"
proof
  have none: "filter cancels_superseded extra = []" using replays replay_not_cancel by (auto simp: filter_empty_conv)
  then have cancelled: "cancelled_fanouts (es @ extra) = cancelled_fanouts es" by (simp add: cancelled_fanouts_def)
  let ?S = "cancelled_fanouts es"
  have "solo_failures ?S task (es @ extra) = solo_failures ?S task es"
    using replays by (auto simp: solo_failures_def filter_empty_conv replay_of_def)
  moreover have "fanout_failures ?S task (es @ extra) = fanout_failures ?S task es"
  proof -
    have "(fanout_text x, ev_type x) \<in> fanout_failures ?S task es" if "x \<in> set extra" "counts ?S task x" for x
    proof -
      from bspec [OF replays that(1)] obtain e where e: "e \<in> set es" "replay_of e x" by (elim bexE)
      then have "own_task e = own_task x" by (simp add: own_task_def replay_of_def py_or_def)
      with e that(2) have "counts ?S task e" by (auto simp: counts_def replay_of_def type_in_def)
      with e show ?thesis by (auto simp: fanout_failures_def replay_of_def intro!: image_eqI [of _ _ e])
    qed
    then show ?thesis by (auto simp: fanout_failures_def)
  qed
  ultimately show "counted_rework_rounds (es @ extra) task = counted_rework_rounds es task" by (simp add: rounds_exact cancelled)
  show "\<forall>x \<in> set extra. apply_rework_failure_event ck x (es @ extra) s = ([], Inr ())"
  proof
    fix x assume x: "x \<in> set extra"
    from bspec [OF replays x] obtain e where e: "e \<in> set es" "replay_of e x" by (elim bexE)
    have "replayed_before x (es @ extra)" using replayed_before_prefix [OF e] ids x by blast
    with e(2) show "apply_rework_failure_event ck x (es @ extra) s = ([], Inr ())"
      by (intro apply_replayed) (simp_all add: replay_of_def type_in_def)
  qed
qed

definition demo_failure :: "string \<Rightarrow> string \<Rightarrow> zf_event" where
  "demo_failure i kind = (new_event (i, ''t'') kind)\<lparr>ev_task_id := JStr ''T'', ev_payload := JObj [(''fanout_id'', JStr ''f1'')]\<rparr>"

theorem rework_replays_free_witness:
  "counted_rework_rounds ([demo_failure ''e1'' ''verify.failed''] @ [demo_failure ''e2'' ''verify.failed'', demo_failure ''e3'' ''verify.failed'']) ''T'' = 1
   \<and> apply_rework_failure_event demo_clock (demo_failure ''e3'' ''verify.failed'')
       ([demo_failure ''e1'' ''verify.failed''] @ [demo_failure ''e2'' ''verify.failed'', demo_failure ''e3'' ''verify.failed'']) demo_board = ([], Inr ())"
proof -
  have "counted_rework_rounds [demo_failure ''e1'' ''verify.failed''] ''T'' = 1" by code_simp
  moreover have "replay_of (demo_failure ''e1'' ''verify.failed'') (demo_failure ''e2'' ''verify.failed'')"
    "replay_of (demo_failure ''e1'' ''verify.failed'') (demo_failure ''e3'' ''verify.failed'')" by code_simp+
  moreover have "ev_id (demo_failure i k) = JStr i" for i k by (simp add: demo_failure_def new_event_def)
  ultimately show ?thesis
    using rework_replays_free [of "[demo_failure ''e2'' ''verify.failed'', demo_failure ''e3'' ''verify.failed'']" "[demo_failure ''e1'' ''verify.failed'']" "''T''"
      demo_clock demo_board] by simp
qed

text \<open>The two counters disagree on a fanout that fails in two ways: the log counts two rounds, the board one.\<close>

lemma rework_counters_diverge:
  "counted_rework_rounds [demo_failure ''e1'' ''verify.failed'', demo_failure ''e2'' ''judge.failed''] ''T'' = 2
   \<and> apply_rework_failure_event ck (demo_failure ''e2'' ''judge.failed'')
       [demo_failure ''e1'' ''verify.failed'', demo_failure ''e2'' ''judge.failed''] s = ([], Inr ())"
proof
  show "counted_rework_rounds [demo_failure ''e1'' ''verify.failed'', demo_failure ''e2'' ''judge.failed''] ''T'' = 2" by code_simp
  have "type_in (demo_failure ''e2'' ''judge.failed'') REWORK_FAILURE_TYPES \<and> truthy (ev_task_id (demo_failure ''e2'' ''judge.failed''))
      \<and> fanout_text (demo_failure ''e2'' ''judge.failed'') \<noteq> []
      \<and> replayed_before (demo_failure ''e2'' ''judge.failed'') [demo_failure ''e1'' ''verify.failed'', demo_failure ''e2'' ''judge.failed'']"
    by code_simp
  then show "apply_rework_failure_event ck (demo_failure ''e2'' ''judge.failed'')
       [demo_failure ''e1'' ''verify.failed'', demo_failure ''e2'' ''judge.failed''] s = ([], Inr ())"
    by (elim conjE) (rule apply_replayed)
qed

text \<open>And a fanout that is superseded only by a stale completion is left out of the failures that are listed, but not out of the
  rounds.\<close>

definition demo_stale :: zf_event where
  "demo_stale = (new_event (''e0'', ''t'') ''fanout.child.stale_completion'')\<lparr>ev_payload := JObj [(''fanout_id'', JStr ''f1'')]\<rparr>"

lemma stale_completion_diverges:
  "counted_failure_events [demo_stale, demo_failure ''e1'' ''verify.failed''] ''T'' None = []"
  "counted_rework_rounds [demo_stale, demo_failure ''e1'' ''verify.failed''] ''T'' = 1"
  by code_simp+

section \<open>The attempts of the ledger\<close>

lemma map_update_last: "(\<And>x. g (f x) = g x) \<Longrightarrow> map g (update_last P f xs) = map g xs"
proof -
  assume "\<And>x. g (f x) = g x"
  then have "map g (update_first P f ys) = map g ys" for ys by (induction ys) auto
  then show ?thesis by (simp add: update_last_def rev_map [symmetric])
qed

definition starts_attempt :: "string \<Rightarrow> zf_event \<Rightarrow> bool" where
  "starts_attempt task e \<longleftrightarrow> ledger_task e = task \<and> type_in e START_EVENTS"

lemma ledger_step_ordinals:
  assumes "map at_ordinal (ls_attempts st) = [1..<Suc n]"
  shows "map at_ordinal (ls_attempts (ledger_step specs superseded task e st)) = [1..<Suc (if starts_attempt task e then Suc n else n)]"
proof -
  have "length (ls_attempts st) = n" using arg_cong [OF assms, of length] by simp
  moreover have "at_ordinal (close_attempt specs superseded keys e a) = at_ordinal a" for keys a
    by (simp add: close_attempt_def Let_def)
  ultimately show ?thesis
    using assms by (auto simp: ledger_step_def starts_attempt_def new_attempt_def Let_def map_update_last split: list.splits)
qed

text \<open>The ledger has one attempt for every dispatch of the task, numbered from one in the order of the log, and a terminal event
  never adds or drops one.\<close>

lemma ledger_ordinals:
  "map at_ordinal (derive_task_ledger specs es task) = [1..<Suc (length (filter (starts_attempt task) es))]"
proof -
  have "map at_ordinal (ls_attempts (fold (ledger_step specs superseded task) es st))
      = [1..<Suc (n + length (filter (starts_attempt task) es))]" if "map at_ordinal (ls_attempts st) = [1..<Suc n]" for superseded st n
    using that
  proof (induction es arbitrary: st n)
    case (Cons e es)
    show ?case using Cons.IH [OF ledger_step_ordinals [OF Cons.prems, of specs superseded task e]] by (simp split: if_splits)
  qed simp
  from this [of "\<lparr>ls_attempts = [], ls_failure_keys = []\<rparr>" 0] show ?thesis by (simp add: derive_task_ledger_def)
qed

end
