(* ===== verification/Fanout_Report.thy ===== *)
theory Fanout_Report
  imports Py_Base
begin

text \<open>
  The reports of fanout children: \<open>validate_fanout_report\<close> of \<open>runtime/fanout.py\<close> and \<open>normalize_finding\<close> of
  \<open>runtime/fanout_report_failure.py\<close>. What a worker sends is brought into one shape, and whatever does not fit becomes a rejection
  with diagnostics; for a worker that sends nothing the caller's defaults stand in.
\<close>

section \<open>Findings\<close>

definition REPORT_STATUSES :: "string list" where
  "REPORT_STATUSES = [''blocked'', ''failed'', ''passed'', ''suspended'']"

definition REPORT_RECOMMENDATIONS :: "string list" where
  "REPORT_RECOMMENDATIONS = [''abstain'', ''approve'', ''needs_rework'', ''reject'']"

definition SUCCESS_RECOMMENDATIONS :: "string list" where
  "SUCCESS_RECOMMENDATIONS = [''approve'']"

definition REPORT_SEVERITIES :: "string list" where
  "REPORT_SEVERITIES = [''critical'', ''high'', ''info'', ''low'', ''medium'']"

definition REPORT_SEVERITY_ALIASES :: "(string \<times> string) list" where
  "REPORT_SEVERITY_ALIASES =
     [(''blocker'', ''high''), (''blocking'', ''high''), (''error'', ''high''), (''major'', ''high''), (''minor'', ''low''), (''warn'', ''medium''),
      (''warning'', ''medium'')]"

definition FINDING_DETAIL_KEYS :: "string list" where
  "FINDING_DETAIL_KEYS =
     [''finding_id'', ''code'', ''field'', ''task_id'', ''acceptance_id'', ''evidence_refs'', ''observed'', ''expected'', ''observed_gap'',
      ''required_change'', ''done_when'', ''owner'', ''next_gate'', ''allowed_scope'']"

text \<open>\<open>d.get(k1, d.get(k2, ... default))\<close>: the first key that is present decides, whatever its value.\<close>

fun first_present :: "pydict \<Rightarrow> string list \<Rightarrow> json \<Rightarrow> json" where
  "first_present d [] dflt = dflt"
| "first_present d (k # ks) dflt = (case map_of d k of Some v \<Rightarrow> v | None \<Rightarrow> first_present d ks dflt)"

definition missing :: "json \<Rightarrow> bool" where
  "missing v \<longleftrightarrow> v = JNull \<or> v = JStr []"

text \<open>\<open>f"{source}[{index}].{what}"\<close> and the list of allowed values as Python prints it.\<close>

definition finding_note :: "nat \<Rightarrow> string \<Rightarrow> string" where
  "finding_note i what = ''findings['' @ show_nat i @ ''].'' @ what"

definition choices :: "string list \<Rightarrow> string" where
  "choices xs = py_repr (JList (map JStr xs))"

text \<open>Each part of a finding: the value that is kept and the diagnostics it gives.\<close>

definition severity_of :: "nat \<Rightarrow> pydict \<Rightarrow> string \<times> string list" where
  "severity_of i raw =
     (let s0 = lower (strip (sget_or raw ''severity'' ''info''));
          s = (case map_of REPORT_SEVERITY_ALIASES s0 of Some a \<Rightarrow> a | None \<Rightarrow> s0) in
      if s \<in> set REPORT_SEVERITIES then (s, [])
      else (''info'', [finding_note i (''severity must be one of '' @ choices REPORT_SEVERITIES @ ''; got '' @ repr_str s)]))"

definition text_or_note :: "json \<Rightarrow> string \<Rightarrow> string \<times> string list" where
  "text_or_note v note = (case v of JStr s \<Rightarrow> (s, []) | _ \<Rightarrow> (py_str v, [note]))"

text \<open>\<open>path.rsplit(":", 1)\<close>\<close>

definition rsplit_colon :: "string \<Rightarrow> string \<times> string" where
  "rsplit_colon s =
     (let tail = rev (takeWhile (\<lambda>c. c \<noteq> CHR '':'') (rev s)) in (take (length s - length tail - 1) s, tail))"

definition is_digits :: "string \<Rightarrow> bool" where
  "is_digits s \<longleftrightarrow> s \<noteq> [] \<and> list_all is_digit s"

definition path_and_line :: "string \<Rightarrow> json \<Rightarrow> string \<times> json" where
  "path_and_line path line =
     (if missing line \<and> CHR '':'' \<in> set path \<and> is_digits (snd (rsplit_colon path))
      then (fst (rsplit_colon path), JStr (snd (rsplit_colon path))) else (path, line))"

definition message_parts :: "pydict \<Rightarrow> string" where
  "message_parts raw =
     join ''; '' (map (\<lambda>(label, k). label @ '': '' @ py_str (dict_get raw k))
       (filter (\<lambda>(label, k). strip (sget raw k) \<noteq> [])
         [(''Observed'', ''observed''), (''Expected'', ''expected''), (''Observed gap'', ''observed_gap''), (''Required change'', ''required_change''),
          (''Done when'', ''done_when'')]))"

definition message_of :: "nat \<Rightarrow> pydict \<Rightarrow> string \<times> string list" where
  "message_of i raw =
     (let m0 = first_present raw [''message'', ''summary'', ''description'', ''reason''] (JStr []);
          m1 = (if truthy m0 then m0 else JStr (message_parts raw));
          note = finding_note i ''message must be a non-empty string'';
          (m2, notes) = text_or_note m1 note in
      (strip m2, notes @ (if strip m2 = [] then [note] else [])))"

definition line_of :: "nat \<Rightarrow> json \<Rightarrow> (string \<times> json) list \<times> string list" where
  "line_of i line =
     (if missing line then ([], [])
      else
        (let note = [finding_note i ''line must be a positive integer''] in
         (case py_int line of
            None \<Rightarrow> ([], note)
          | Some n \<Rightarrow> if n < 1 then ([], note) else ([(''line'', JInt n)], []))))"

definition finding_details :: "pydict \<Rightarrow> pydict" where
  "finding_details raw = map (\<lambda>k. (k, dict_get raw k)) (filter (\<lambda>k. \<not> is_blank (dict_get raw k)) FINDING_DETAIL_KEYS)"

definition normalize_finding :: "pydict \<Rightarrow> nat \<Rightarrow> pydict \<times> string list" where
  "normalize_finding raw i =
     (let (severity, n1) = severity_of i raw;
          (category, n2) = text_or_note (first_present raw [''category'', ''type'', ''code'', ''id''] (JStr [])) (finding_note i ''category must be a string'');
          (path0, n3) = text_or_note (first_present raw [''path'', ''file''] (JStr [])) (finding_note i ''path must be a string'');
          (path, line) = path_and_line path0 (dict_get raw ''line'');
          (message, n4) = message_of i raw;
          (line_field, n5) = line_of i line in
      ([(''severity'', JStr severity), (''category'', JStr category), (''path'', JStr path), (''message'', JStr message)] @ line_field @ finding_details raw,
       n1 @ n2 @ n3 @ n4 @ n5))"

section \<open>Reports\<close>

record report_validation =
  rv_report :: pydict
  rv_diagnostics :: "string list"
  rv_valid :: bool
  rv_synthetic :: bool

definition safe_choice :: "string \<Rightarrow> string list \<Rightarrow> string \<Rightarrow> string" where
  "safe_choice v allowed fallback = (if v \<in> set allowed then v else fallback)"

definition malformed_report :: "string \<Rightarrow> string list \<Rightarrow> pydict" where
  "malformed_report child_id diagnostics =
     [(''child_id'', JStr child_id), (''status'', JStr ''failed''), (''summary'', JStr ''Malformed fanout report.''),
      (''findings'', JList [JObj [(''severity'', JStr ''high''), (''category'', JStr ''report-schema''), (''path'', JStr []),
         (''message'', JStr (join ''; '' diagnostics))]]),
      (''recommendation'', JStr ''reject''), (''report_diagnostics'', JList (map JStr diagnostics))]"

definition choice_or_note :: "string \<Rightarrow> string \<Rightarrow> string list \<Rightarrow> string \<Rightarrow> string \<times> string list" where
  "choice_or_note what v allowed fallback =
     (if v \<in> set allowed then (v, []) else (fallback, [what @ '' must be one of '' @ choices allowed @ ''; got '' @ repr_str v]))"

fun read_findings :: "nat \<Rightarrow> json list \<Rightarrow> pydict list \<times> string list" where
  "read_findings i [] = ([], [])"
| "read_findings i (v # vs) =
     (let (fs, notes) = read_findings (Suc i) vs in
      (case v of
         JObj raw \<Rightarrow> (fst (normalize_finding raw i) # fs, snd (normalize_finding raw i) @ notes)
       | _ \<Rightarrow> (fs, (''findings['' @ show_nat i @ ''] must be an object'') # notes)))"

definition findings_of :: "pydict \<Rightarrow> pydict list \<times> string list" where
  "findings_of raw =
     (case first_present raw [''findings''] (JList []) of
        JList vs \<Rightarrow> read_findings 0 vs
      | _ \<Rightarrow> ([], [''findings must be a list'']))"

text \<open>\<open>for key, value in raw.items(): report.setdefault(key, value)\<close>\<close>

definition set_defaults :: "pydict \<Rightarrow> pydict \<Rightarrow> pydict" where
  "set_defaults report raw = fold (\<lambda>kv acc. if has_key acc (fst kv) then acc else acc @ [kv]) raw report"

text \<open>The normalised fields of an object, and the diagnostics they give, in the order in which the code appends them.\<close>

definition status_of :: "pydict \<Rightarrow> string \<Rightarrow> string \<times> string list" where
  "status_of raw dflt = choice_or_note ''status'' (sget_or raw ''status'' dflt) REPORT_STATUSES ''failed''"

definition summary_of :: "pydict \<Rightarrow> string \<Rightarrow> string \<times> string list" where
  "summary_of raw dflt = text_or_note (first_present raw [''summary''] (JStr dflt)) ''summary must be a string''"

definition recommendation_of :: "pydict \<Rightarrow> string \<Rightarrow> string \<times> string list" where
  "recommendation_of raw dflt = choice_or_note ''recommendation'' (sget_or raw ''recommendation'' dflt) REPORT_RECOMMENDATIONS ''reject''"

definition report_base :: "pydict \<Rightarrow> string \<Rightarrow> string \<Rightarrow> string \<Rightarrow> string \<Rightarrow> pydict" where
  "report_base raw child_id ds dr dm =
     [(''child_id'', JStr (sget_or raw ''child_id'' child_id)), (''status'', JStr (fst (status_of raw ds))),
      (''summary'', JStr (fst (summary_of raw dm))), (''findings'', JList (map JObj (fst (findings_of raw)))),
      (''recommendation'', JStr (fst (recommendation_of raw dr)))]"

definition report_notes :: "pydict \<Rightarrow> string \<Rightarrow> string \<Rightarrow> string \<Rightarrow> string list" where
  "report_notes raw ds dr dm = snd (status_of raw ds) @ snd (summary_of raw dm) @ snd (findings_of raw) @ snd (recommendation_of raw dr)"

definition validate_fanout_report :: "json \<Rightarrow> string \<Rightarrow> string \<Rightarrow> string \<Rightarrow> string \<Rightarrow> report_validation" where
  "validate_fanout_report v child_id default_status default_recommendation default_summary =
     (if missing v then
        \<lparr>rv_report =
           [(''child_id'', JStr child_id), (''status'', JStr (safe_choice default_status REPORT_STATUSES ''passed'')),
            (''summary'', JStr default_summary), (''findings'', JList []),
            (''recommendation'', JStr (safe_choice default_recommendation REPORT_RECOMMENDATIONS ''approve''))],
         rv_diagnostics = [], rv_valid = True, rv_synthetic = True\<rparr>
      else
        (case v of
           JObj raw \<Rightarrow>
             (let notes = report_notes raw default_status default_recommendation default_summary;
                  report = set_defaults (report_base raw child_id default_status default_recommendation default_summary) raw;
                  final = (if notes = [] then report
                           else dict_set (dict_set (dict_set report ''status'' (JStr ''failed'')) ''recommendation'' (JStr ''reject''))
                                  ''report_diagnostics'' (JList (map JStr notes))) in
              \<lparr>rv_report = final, rv_diagnostics = notes, rv_valid = (notes = []), rv_synthetic = False\<rparr>)
         | _ \<Rightarrow>
             \<lparr>rv_report = malformed_report child_id [''report must be a JSON object''], rv_diagnostics = [''report must be a JSON object''],
              rv_valid = False, rv_synthetic = False\<rparr>))"

definition recommendation_is_success :: "string \<Rightarrow> bool" where
  "recommendation_is_success r \<longleftrightarrow> r \<in> set SUCCESS_RECOMMENDATIONS"

section \<open>Nothing malformed is approved\<close>

lemma map_of_set_defaults: "map_of (set_defaults report raw) k = (case map_of report k of Some v \<Rightarrow> Some v | None \<Rightarrow> map_of raw k)"
  unfolding set_defaults_def
  by (induction raw arbitrary: report) (auto simp: has_key_def map_add_def split: option.splits)

lemma choice_or_note_ok: "snd (choice_or_note what v allowed fallback) = [] \<longleftrightarrow> v \<in> set allowed"
  "v \<in> set allowed \<Longrightarrow> fst (choice_or_note what v allowed fallback) = v"
  by (simp_all add: choice_or_note_def)

lemma validate_object:
  "validate_fanout_report (JObj raw) c ds dr dm =
     \<lparr>rv_report =
        (if report_notes raw ds dr dm = [] then set_defaults (report_base raw c ds dr dm) raw
         else dict_set (dict_set (dict_set (set_defaults (report_base raw c ds dr dm) raw) ''status'' (JStr ''failed'')) ''recommendation'' (JStr ''reject''))
                ''report_diagnostics'' (JList (map JStr (report_notes raw ds dr dm)))),
      rv_diagnostics = report_notes raw ds dr dm, rv_valid = (report_notes raw ds dr dm = []), rv_synthetic = False\<rparr>"
  by (simp add: validate_fanout_report_def missing_def Let_def)

text \<open>The two fields that decide, of a report without diagnostics.\<close>

lemma valid_report_fields:
  assumes "report_notes raw ds dr dm = []"
  shows "sget (set_defaults (report_base raw c ds dr dm) raw) ''status'' = sget_or raw ''status'' ds" "sget_or raw ''status'' ds \<in> set REPORT_STATUSES"
    "sget (set_defaults (report_base raw c ds dr dm) raw) ''recommendation'' = sget_or raw ''recommendation'' dr"
    "sget_or raw ''recommendation'' dr \<in> set REPORT_RECOMMENDATIONS"
  using assms
  by (simp_all add: report_notes_def status_of_def recommendation_of_def choice_or_note_ok sget_def dict_get_def map_of_set_defaults report_base_def)

lemma report_constants:
  "''failed'' \<in> set REPORT_STATUSES" "''passed'' \<in> set REPORT_STATUSES" "''reject'' \<in> set REPORT_RECOMMENDATIONS"
  "''approve'' \<in> set REPORT_RECOMMENDATIONS" "\<not> recommendation_is_success ''reject''"
  by (simp_all add: REPORT_STATUSES_def REPORT_RECOMMENDATIONS_def recommendation_is_success_def SUCCESS_RECOMMENDATIONS_def)

text \<open>C28: A report that does not fit is a rejection. Whatever a worker sends, the normalised report has an allowed status and an allowed recommendation, and with any
  diagnostic it is failed and rejected. It recommends success in exactly three cases: an object was sent that has no diagnostics
  and recommends success itself, or leaves the recommendation to a default of the caller that does; nothing was sent (None or the empty string) and the
  default of the caller recommends success; or nothing was sent and the default is not an allowed recommendation at all, where the code falls back to
  approve.\<close>

theorem report_verdict_exact:
  "let r = validate_fanout_report v c ds dr dm in
    (rv_valid r \<longleftrightarrow> rv_diagnostics r = [])
    \<and> sget (rv_report r) ''status'' \<in> set REPORT_STATUSES \<and> sget (rv_report r) ''recommendation'' \<in> set REPORT_RECOMMENDATIONS
    \<and> (\<not> rv_valid r \<longrightarrow> sget (rv_report r) ''status'' = ''failed'' \<and> sget (rv_report r) ''recommendation'' = ''reject'')
    \<and> (recommendation_is_success (sget (rv_report r) ''recommendation'') \<longleftrightarrow>
        (\<exists>raw. v = JObj raw \<and> rv_diagnostics r = [] \<and> recommendation_is_success (sget_or raw ''recommendation'' dr))
        \<or> (v = JNull \<or> v = JStr []) \<and> (recommendation_is_success dr \<or> dr \<notin> set REPORT_RECOMMENDATIONS))"
proof (cases "missing v")
  case True
  then show ?thesis
    by (auto simp: Let_def validate_fanout_report_def missing_def sget_def safe_choice_def report_constants
        REPORT_STATUSES_def REPORT_RECOMMENDATIONS_def recommendation_is_success_def SUCCESS_RECOMMENDATIONS_def)
next
  case False
  then have sent: "v \<noteq> JNull" "v \<noteq> JStr []" by (auto simp: missing_def)
  show ?thesis
  proof (cases "\<exists>raw. v = JObj raw")
    case True
    then obtain raw where v: "v = JObj raw" ..
    show ?thesis
    proof (cases "report_notes raw ds dr dm = []")
      case True
      then show ?thesis by (simp add: Let_def v validate_object valid_report_fields)
    next
      case False
      then show ?thesis by (simp add: Let_def v validate_object report_constants)
    qed
  next
    case False
    with \<open>\<not> missing v\<close> have "validate_fanout_report v c ds dr dm = \<lparr>rv_report = malformed_report c [''report must be a JSON object''],
        rv_diagnostics = [''report must be a JSON object''], rv_valid = False, rv_synthetic = False\<rparr>"
      by (cases v) (auto simp: validate_fanout_report_def)
    then show ?thesis using False sent by (simp add: Let_def malformed_report_def report_constants)
  qed
qed

theorem report_verdict_exact_witness:
  "let r = validate_fanout_report (JObj [(''recommendation'', JStr ''approve''), (''findings'', JStr ''none'')]) ''c1'' ''passed'' ''approve'' [] in
    \<not> rv_valid r \<and> sget (rv_report r) ''recommendation'' = ''reject''"
proof -
  let ?v = "JObj [(''recommendation'', JStr ''approve''), (''findings'', JStr ''none'')]"
  have "\<not> rv_valid (validate_fanout_report ?v ''c1'' ''passed'' ''approve'' [])"
    by (simp add: validate_object report_notes_def findings_of_def)
  with report_verdict_exact [of ?v "''c1''" "''passed''" "''approve''" "[]"] show ?thesis by (simp add: Let_def)
qed

text \<open>A default that is a typing error approves the report of a child that sent none, while the same word in a report is a rejection.\<close>

lemma unknown_default_approves:
  "sget (rv_report (validate_fanout_report JNull ''c1'' ''passed'' ''rejct'' [])) ''recommendation'' = ''approve''"
  "sget (rv_report (validate_fanout_report (JObj []) ''c1'' ''passed'' ''rejct'' [])) ''recommendation'' = ''reject''"
  by code_simp+

section \<open>Normal form\<close>

lemma severity_of_normal:
  assumes "severity_of i raw = (s, [])" and "sget_or f ''severity'' ''info'' = s"
  shows "severity_of j f = (s, [])"
proof -
  have "s \<in> set REPORT_SEVERITIES" using assms(1) by (auto simp: severity_of_def Let_def split: if_splits)
  moreover have "\<forall>s \<in> set REPORT_SEVERITIES. lower (strip s) = s \<and> map_of REPORT_SEVERITY_ALIASES s = None" by code_simp
  ultimately have "lower (strip s) = s \<and> map_of REPORT_SEVERITY_ALIASES s = None" by blast
  with \<open>s \<in> set REPORT_SEVERITIES\<close> assms(2) show ?thesis by (simp add: severity_of_def Let_def)
qed

lemma map_of_details: "map_of (finding_details raw) k = (if k \<in> set FINDING_DETAIL_KEYS \<and> \<not> is_blank (dict_get raw k) then Some (dict_get raw k) else None)"
proof -
  have "map_of (map (\<lambda>k. (k, dict_get raw k)) ks) k = (if k \<in> set ks then Some (dict_get raw k) else None)" for ks by (induction ks) auto
  then show ?thesis by (auto simp: finding_details_def)
qed

lemma finding_details_cong:
  assumes "\<And>k. k \<in> set FINDING_DETAIL_KEYS \<Longrightarrow> dict_get f k = dict_get raw k \<or> is_blank (dict_get f k) \<and> is_blank (dict_get raw k)"
  shows "finding_details f = finding_details raw"
proof -
  have "map (\<lambda>k. (k, dict_get f k)) (filter (\<lambda>k. \<not> is_blank (dict_get f k)) ks)
      = map (\<lambda>k. (k, dict_get raw k)) (filter (\<lambda>k. \<not> is_blank (dict_get raw k)) ks)" if "set ks \<subseteq> set FINDING_DETAIL_KEYS" for ks
    using that
  proof (induction ks)
    case (Cons k ks)
    with assms [of k] show ?case by auto
  qed simp
  then show ?thesis by (simp add: finding_details_def)
qed

lemma normalize_finding_idem:
  assumes "normalize_finding raw i = (f, [])"
  shows "normalize_finding f j = (f, [])"
proof -
  obtain s n1 where s: "severity_of i raw = (s, n1)" by fastforce
  obtain c n2 where c: "text_or_note (first_present raw [''category'', ''type'', ''code'', ''id''] (JStr [])) (finding_note i ''category must be a string'') = (c, n2)" by fastforce
  obtain p0 n3 where p0: "text_or_note (first_present raw [''path'', ''file''] (JStr [])) (finding_note i ''path must be a string'') = (p0, n3)" by fastforce
  obtain p l where p: "path_and_line p0 (dict_get raw ''line'') = (p, l)" by fastforce
  obtain m n4 where m: "message_of i raw = (m, n4)" by fastforce
  obtain lf n5 where lf: "line_of i l = (lf, n5)" by fastforce
  have f: "f = [(''severity'', JStr s), (''category'', JStr c), (''path'', JStr p), (''message'', JStr m)] @ lf @ finding_details raw"
    and ok: "n1 = []" "n4 = []" "n5 = []"
    using assms by (simp_all add: normalize_finding_def s c p0 p m lf del: first_present.simps)
  have keys: "k \<in> set FINDING_DETAIL_KEYS \<Longrightarrow> k \<notin> {''severity'', ''category'', ''path'', ''message'', ''line'', ''file''}" for k
    by (auto simp: FINDING_DETAIL_KEYS_def)
  have lf_cases: "lf = [] \<and> missing l \<or> (\<exists>n. lf = [(''line'', JInt n)] \<and> 1 \<le> n)"
    using lf ok(3) by (auto simp: line_of_def Let_def split: if_splits option.splits)
  have sev: "s \<noteq> []" using s by (auto simp: severity_of_def Let_def REPORT_SEVERITIES_def split: if_splits)
  have msg: "strip m = m" "m \<noteq> []" using m ok(2) by (auto simp: message_of_def Let_def split: prod.splits if_splits)
  have get: "map_of f ''severity'' = Some (JStr s)" "map_of f ''category'' = Some (JStr c)" "map_of f ''path'' = Some (JStr p)"
      "map_of f ''message'' = Some (JStr m)" by (simp_all add: f)
  have line: "map_of f ''line'' = map_of lf ''line''"
    using keys [of "''line''"] by (auto simp: f map_add_def map_of_details split: option.splits)
  have "severity_of j f = (s, [])" by (rule severity_of_normal) (use s ok sev get in \<open>auto simp: sget_or_def dict_get_def\<close>)
  moreover have "path_and_line p (dict_get f ''line'') = (p, dict_get f ''line'') \<and> line_of j (dict_get f ''line'') = (lf, [])"
    using lf_cases
  proof (elim disjE conjE exE)
    assume "lf = []" "missing l"
    then have "dict_get f ''line'' = JNull" by (simp add: dict_get_def line)
    moreover have "\<not> (CHR '':'' \<in> set p \<and> is_digits (snd (rsplit_colon p)))"
      using p \<open>missing l\<close> by (auto simp: path_and_line_def missing_def is_digits_def split: if_splits)
    ultimately show ?thesis using \<open>lf = []\<close> by (auto simp: path_and_line_def line_of_def missing_def)
  next
    fix n assume "lf = [(''line'', JInt n)]" "1 \<le> n"
    then show ?thesis by (simp add: dict_get_def line path_and_line_def line_of_def missing_def)
  qed
  moreover have "message_of j f = (m, [])" using get msg by (simp add: message_of_def text_or_note_def Let_def)
  moreover have "finding_details f = finding_details raw"
  proof (rule finding_details_cong)
    fix k assume k: "k \<in> set FINDING_DETAIL_KEYS"
    with keys lf_cases have "map_of f k = map_of (finding_details raw) k" by (auto simp: f map_add_def split: option.splits)
    with k show "dict_get f k = dict_get raw k \<or> is_blank (dict_get f k) \<and> is_blank (dict_get raw k)"
      by (auto simp: dict_get_def map_of_details is_blank_def)
  qed
  ultimately show ?thesis using get by (simp add: normalize_finding_def text_or_note_def f)
qed

lemma read_findings_idem: "read_findings i vs = (fs, []) \<Longrightarrow> read_findings j (map JObj fs) = (fs, [])"
proof (induction vs arbitrary: i j fs)
  case (Cons v vs)
  obtain gs ns where rest: "read_findings (Suc i) vs = (gs, ns)" by fastforce
  with Cons.prems obtain raw where v: "v = JObj raw" "fs = fst (normalize_finding raw i) # gs" "snd (normalize_finding raw i) = []" "ns = []"
    by (cases v) auto
  have "normalize_finding raw i = (fst (normalize_finding raw i), [])" using v(3) by (metis prod.collapse)
  from normalize_finding_idem [OF this, of j] Cons.IH [of "Suc i" gs "Suc j"] rest v show ?case by simp
qed auto

lemma set_defaults_append:
  "distinct (map fst raw) \<Longrightarrow> set_defaults base raw = base @ filter (\<lambda>kv. \<not> has_key base (fst kv)) raw"
proof (induction raw arbitrary: base)
  case (Cons kv raw)
  have "filter (\<lambda>x. \<not> has_key (base @ [kv]) (fst x)) raw = filter (\<lambda>x. \<not> has_key base (fst x)) raw"
  proof (rule filter_cong [OF refl])
    fix x assume "x \<in> set raw"
    with Cons.prems have "fst x \<noteq> fst kv" by (metis distinct.simps(2) image_eqI list.simps(9) set_map)
    then show "(\<not> has_key (base @ [kv]) (fst x)) = (\<not> has_key base (fst x))" by (cases kv) (simp add: has_key_def map_add_def split: option.split)
  qed
  with Cons show ?case by (simp add: set_defaults_def)
qed (simp add: set_defaults_def)

lemma show_nat_ne: "show_nat n \<noteq> []"
  by (subst show_nat.simps) simp

lemma py_str_truthy: "truthy v \<Longrightarrow> py_str v \<noteq> []"
  by (cases v) (auto simp: show_int_def show_nat_ne)

lemma status_of_normal:
  assumes "snd (status_of raw ds) = []" and "map_of d ''status'' = Some (JStr (fst (status_of raw ds)))"
  shows "status_of d ds' = (fst (status_of raw ds), [])"
proof -
  have s: "fst (status_of raw ds) \<in> set REPORT_STATUSES" using assms(1) by (auto simp: status_of_def choice_or_note_ok)
  then have "sget_or d ''status'' ds' = fst (status_of raw ds)"
    using assms(2) by (auto simp: sget_or_def dict_get_def REPORT_STATUSES_def)
  with s show ?thesis by (simp add: status_of_def choice_or_note_def)
qed

lemma recommendation_of_normal:
  assumes "snd (recommendation_of raw dr) = []" and "map_of d ''recommendation'' = Some (JStr (fst (recommendation_of raw dr)))"
  shows "recommendation_of d dr' = (fst (recommendation_of raw dr), [])"
proof -
  have s: "fst (recommendation_of raw dr) \<in> set REPORT_RECOMMENDATIONS" using assms(1) by (auto simp: recommendation_of_def choice_or_note_ok)
  then have "sget_or d ''recommendation'' dr' = fst (recommendation_of raw dr)"
    using assms(2) by (auto simp: sget_or_def dict_get_def REPORT_RECOMMENDATIONS_def)
  with s show ?thesis by (simp add: recommendation_of_def choice_or_note_def)
qed

lemma findings_of_normal:
  assumes "snd (findings_of raw) = []" and "map_of d ''findings'' = Some (JList (map JObj (fst (findings_of raw))))"
  shows "findings_of d = (fst (findings_of raw), [])"
proof -
  obtain vs where "findings_of raw = read_findings 0 vs" using assms(1) by (auto simp: findings_of_def split: json.splits)
  then have "read_findings 0 vs = (fst (findings_of raw), [])" using assms(1) by (metis prod.collapse)
  from read_findings_idem [OF this, of 0] assms(2) show ?thesis by (simp add: findings_of_def)
qed

lemma child_id_normal: "map_of d ''child_id'' = Some (JStr (sget_or raw ''child_id'' c)) \<Longrightarrow> sget_or d ''child_id'' c = sget_or raw ''child_id'' c"
  by (auto simp: sget_or_def Let_def dict_get_def py_str_truthy split: if_splits)

text \<open>Validation is a normal form. A report that passed validation is its own normal form: validating it again, under any defaults,
  gives the same report and no diagnostic, so a report that was stored and is read back stays what it was.\<close>

lemma report_validation_idempotent:
  assumes dist: "distinct (map fst raw)" and valid: "rv_valid (validate_fanout_report (JObj raw) c ds dr dm)"
  shows "validate_fanout_report (JObj (rv_report (validate_fanout_report (JObj raw) c ds dr dm))) c ds' dr' dm'
    = validate_fanout_report (JObj raw) c ds dr dm"
proof -
  let ?base = "report_base raw c ds dr dm" and ?ext = "filter (\<lambda>kv. \<not> has_key (report_base raw c ds dr dm) (fst kv)) raw"
  let ?d = "?base @ ?ext"
  have none: "report_notes raw ds dr dm = []" using valid by (simp add: validate_object)
  then have ok: "snd (status_of raw ds) = []" "snd (summary_of raw dm) = []" "snd (findings_of raw) = []" "snd (recommendation_of raw dr) = []"
    by (simp_all add: report_notes_def)
  have report: "set_defaults ?base raw = ?d" using dist by (rule set_defaults_append)
  have get: "map_of ?d ''child_id'' = Some (JStr (sget_or raw ''child_id'' c))" "map_of ?d ''status'' = Some (JStr (fst (status_of raw ds)))"
      "map_of ?d ''summary'' = Some (JStr (fst (summary_of raw dm)))"
      "map_of ?d ''findings'' = Some (JList (map JObj (fst (findings_of raw))))"
      "map_of ?d ''recommendation'' = Some (JStr (fst (recommendation_of raw dr)))"
    by (simp_all add: report_base_def)
  note normal = status_of_normal [OF ok(1) get(2)] recommendation_of_normal [OF ok(4) get(5)] findings_of_normal [OF ok(3) get(4)]
  have summary: "summary_of ?d dm' = (fst (summary_of raw dm), [])" using get(3) by (simp add: summary_of_def text_or_note_def)
  have base: "report_base ?d c ds' dr' dm' = ?base"
    by (simp only: report_base_def [of ?d] normal summary child_id_normal [OF get(1)] fst_conv) (simp only: report_base_def)
  have "report_notes ?d ds' dr' dm' = []" by (simp only: report_notes_def normal summary snd_conv) simp
  moreover have "set_defaults ?base ?d = ?d"
  proof -
    have "distinct (map fst ?d)" using dist by (auto simp: report_base_def has_key_def distinct_map_filter)
    then have "set_defaults ?base ?d = ?base @ filter (\<lambda>kv. \<not> has_key ?base (fst kv)) ?d" by (rule set_defaults_append)
    moreover have "filter (\<lambda>kv. \<not> has_key ?base (fst kv)) ?base = []" by (auto simp: filter_empty_conv has_key_def report_base_def)
    ultimately show ?thesis by simp
  qed
  ultimately show ?thesis by (simp add: validate_object none report base)
qed

end
