(* ===== verification/Writer_Dependencies.thy ===== *)
theory Writer_Dependencies
  imports Task_Store Run_Scope "HOL-Library.Multiset"
begin

text \<open>
  \<open>runtime/writer_fanout_dependency_failure.py\<close>: which writer tasks of a fanout can never run because a task
  they depend on has failed, computed by sweeping over the queued children until nothing changes, and the
  failure events that close them. A child is the dictionary of its manifest row; the code removes a child from the
  queue by value, which here is equality of the rows.
\<close>

section \<open>Dependencies of a task\<close>

definition coerce_ids :: "json \<Rightarrow> string list" where
  "coerce_ids v =
     (case v of
        JList xs \<Rightarrow> filter (\<lambda>s. s \<noteq> []) (map (\<lambda>x. strip (py_str x)) xs)
      | JStr s \<Rightarrow> (if strip s = [] then [] else [strip s])
      | _ \<Rightarrow> [])"

definition task_envelopes :: "pydict \<Rightarrow> pydict list" where
  "task_envelopes item = item # map as_dict (filter is_dict [dict_get item ''payload'', dict_get item ''raw_task''])"

definition writer_task_dependency_ids :: "pydict \<Rightarrow> string list" where
  "writer_task_dependency_ids item =
     fromkeys (concat (map (\<lambda>src. coerce_ids (dict_get src ''blocked_by'') @ coerce_ids (dict_get src ''depends_on'')) (task_envelopes item)))"

fun dependencies_met :: "clock \<Rightarrow> board \<Rightarrow> string list \<Rightarrow> string list \<Rightarrow> bool res" where
  "dependencies_met ck s completed [] = Inr True"
| "dependencies_met ck s completed (d # ds) =
     (if d \<in> set completed then dependencies_met ck s completed ds
      else res_bind (get_task ck d s) (\<lambda>t.
        case t of
          None \<Rightarrow> Inr False
        | Some t \<Rightarrow> if sget t ''status'' \<in> {''done'', ''cancelled'', ''superseded''} then dependencies_met ck s completed ds else Inr False))"

definition writer_task_dependencies_satisfied :: "clock \<Rightarrow> board \<Rightarrow> pydict \<Rightarrow> string list \<Rightarrow> bool res" where
  "writer_task_dependencies_satisfied ck s item completed = dependencies_met ck s completed (writer_task_dependency_ids item)"

section \<open>Blocked children\<close>

record blocked_child =
  bc_child :: pydict
  bc_failed :: "string list"

definition failed_task_id :: "pydict \<Rightarrow> string" where
  "failed_task_id c = strip (sget c ''task_id'')"

definition failed_task_ids :: "pydict list \<Rightarrow> string list" where
  "failed_task_ids rows = filter (\<lambda>s. s \<noteq> []) (map failed_task_id (filter (\<lambda>c. sget c ''status'' = ''failed'') rows))"

definition is_queued :: "pydict \<Rightarrow> bool" where
  "is_queued c \<longleftrightarrow> sget c ''status'' \<in> {''pending'', ''queued''}"

definition child_task_text :: "pydict \<Rightarrow> string" where
  "child_task_text c = text_of (py_or (dict_get c ''task_id'') (dict_get (as_dict (dict_get c ''payload'')) ''task_id''))"

definition child_task_id :: "pydict \<Rightarrow> string" where
  "child_task_id c = strip (child_task_text c)"

record sweep_state =
  sw_blocked :: "blocked_child list"
  sw_failed :: "string list"
  sw_pending :: "pydict list"
  sw_progressed :: bool

definition block_child :: "pydict \<Rightarrow> sweep_state \<Rightarrow> sweep_state" where
  "block_child c st =
     (let hit = sort (filter (\<lambda>d. d \<in> set (sw_failed st)) (writer_task_dependency_ids c)) in
      if hit = [] then st
      else st\<lparr>sw_blocked := sw_blocked st @ [\<lparr>bc_child = c, bc_failed = hit\<rparr>],
              sw_failed := (if child_task_id c = [] then sw_failed st else child_task_id c # sw_failed st),
              sw_pending := remove1 c (sw_pending st), sw_progressed := True\<rparr>)"

text \<open>One round of the loop goes over a copy of the queue while it removes from the queue.\<close>

definition sweep :: "sweep_state \<Rightarrow> sweep_state" where
  "sweep st = fold block_child (sw_pending st) (st\<lparr>sw_progressed := False\<rparr>)"

lemma sweep_step:
  assumes "mset cs \<subseteq># mset (sw_pending st)"
  shows "\<exists>new. sw_blocked (fold block_child cs st) = sw_blocked st @ new
    \<and> mset (sw_pending st) = mset (sw_pending (fold block_child cs st)) + mset (map bc_child new)
    \<and> (sw_progressed (fold block_child cs st) \<longleftrightarrow> sw_progressed st \<or> new \<noteq> [])"
  using assms
proof (induction cs arbitrary: st)
  case Nil
  then show ?case by simp
next
  case (Cons c cs)
  have c: "c \<in> set (sw_pending st)" using Cons.prems by (auto dest: mset_subset_eqD)
  show ?case
  proof (cases "block_child c st = st")
    case True
    moreover have "mset cs \<subseteq># mset (sw_pending st)" by (rule subset_mset.order_trans [OF _ Cons.prems]) simp
    ultimately show ?thesis using Cons.IH [of st] by simp
  next
    case False
    then obtain hit where st': "sw_blocked (block_child c st) = sw_blocked st @ [\<lparr>bc_child = c, bc_failed = hit\<rparr>]"
        "sw_pending (block_child c st) = remove1 c (sw_pending st)" "sw_progressed (block_child c st)"
      by (auto simp: block_child_def Let_def split: if_splits)
    have "mset cs \<subseteq># mset (sw_pending (block_child c st))" using Cons.prems by (simp add: st' insert_subset_eq_iff)
    from Cons.IH [OF this] obtain new where
      new: "sw_blocked (fold block_child cs (block_child c st)) = sw_blocked (block_child c st) @ new"
        "mset (sw_pending (block_child c st)) = mset (sw_pending (fold block_child cs (block_child c st))) + mset (map bc_child new)"
        "sw_progressed (fold block_child cs (block_child c st))" using st'(3) by blast
    let ?new = "\<lparr>bc_child = c, bc_failed = hit\<rparr> # new"
    have "mset (sw_pending st) = add_mset c (mset (sw_pending (block_child c st)))" using c by (simp add: st'(2))
    also have "\<dots> = mset (sw_pending (fold block_child cs (block_child c st))) + mset (map bc_child ?new)" by (subst new(2)) simp
    finally have "mset (sw_pending st) = mset (sw_pending (fold block_child (c # cs) st)) + mset (map bc_child ?new)" by simp
    moreover have "sw_blocked (fold block_child (c # cs) st) = sw_blocked st @ ?new" using new(1) st'(1) by simp
    moreover have "sw_progressed (fold block_child (c # cs) st)" using new(3) by simp
    ultimately show ?thesis by blast
  qed
qed

lemma sweep_effect:
  obtains new where "sw_blocked (sweep st) = sw_blocked st @ new"
    and "mset (sw_pending st) = mset (sw_pending (sweep st)) + mset (map bc_child new)"
    and "sw_progressed (sweep st) \<longleftrightarrow> new \<noteq> []"
  using sweep_step [of "sw_pending st" "st\<lparr>sw_progressed := False\<rparr>"] by (auto simp: sweep_def)

lemma sweep_shrinks:
  assumes "sw_progressed (sweep st)"
  shows "length (sw_pending (sweep st)) < length (sw_pending st)"
proof (rule sweep_effect [of st])
  fix new
  assume new: "mset (sw_pending st) = mset (sw_pending (sweep st)) + mset (map bc_child new)" "sw_progressed (sweep st) \<longleftrightarrow> new \<noteq> []"
  from arg_cong [OF new(1), of size] new(2) assms show ?thesis by simp
qed

function block_loop :: "sweep_state \<Rightarrow> sweep_state" where
  "block_loop st =
     (if sw_pending st = [] then st
      else let st' = sweep st in if sw_progressed st' then block_loop st' else st')"
  by pat_completeness auto
termination
  by (relation "measure (\<lambda>st. length (sw_pending st))") (auto simp: sweep_shrinks)

declare block_loop.simps [simp del]

definition blocked_writer_children :: "pydict list \<Rightarrow> blocked_child list" where
  "blocked_writer_children rows =
     sw_blocked (block_loop
       \<lparr>sw_blocked = [], sw_failed = failed_task_ids rows, sw_pending = filter is_queued rows, sw_progressed = False\<rparr>)"

section \<open>Doomed tasks\<close>

text \<open>The specification: a task is doomed when it failed, or when it is queued and depends on a doomed task.\<close>

inductive doomed :: "pydict list \<Rightarrow> string \<Rightarrow> bool" for rows where
  failed: "c \<in> set rows \<Longrightarrow> sget c ''status'' = ''failed'' \<Longrightarrow> failed_task_id c \<noteq> [] \<Longrightarrow> doomed rows (failed_task_id c)"
| blocked: "c \<in> set rows \<Longrightarrow> is_queued c \<Longrightarrow> d \<in> set (writer_task_dependency_ids c) \<Longrightarrow> doomed rows d
    \<Longrightarrow> child_task_id c \<noteq> [] \<Longrightarrow> doomed rows (child_task_id c)"

lemma failed_doomed: "d \<in> set (failed_task_ids rows) \<Longrightarrow> doomed rows d"
  by (auto simp: failed_task_ids_def intro: doomed.failed)

text \<open>Every entry of the list names failed dependencies of its child that failed before the fanout was swept, or that
  an earlier entry of the list has closed.\<close>

fun justified :: "string set \<Rightarrow> blocked_child list \<Rightarrow> bool" where
  "justified F [] = True"
| "justified F (b # bs) =
     (bc_failed b \<noteq> [] \<and> set (bc_failed b) \<subseteq> set (writer_task_dependency_ids (bc_child b)) \<inter> F
      \<and> justified (insert (child_task_id (bc_child b)) F - {[]}) bs)"

definition closed_ids :: "blocked_child list \<Rightarrow> string set" where
  "closed_ids bs = (\<lambda>b. child_task_id (bc_child b)) ` set bs - {[]}"

lemma closed_ids_simps [simp]:
  "closed_ids [] = {}" "closed_ids (b # bs) = insert (child_task_id (bc_child b)) (closed_ids bs) - {[]}"
  "closed_ids (bs @ cs) = closed_ids bs \<union> closed_ids cs"
  by (auto simp: closed_ids_def)

lemma justified_append: "[] \<notin> F \<Longrightarrow> justified F (bs @ cs) \<longleftrightarrow> justified F bs \<and> justified (F \<union> closed_ids bs) cs"
proof (induction bs arbitrary: F)
  case (Cons b bs)
  have "insert (child_task_id (bc_child b)) F - {[]} \<union> closed_ids bs = F \<union> closed_ids (b # bs)"
    using Cons.prems by (auto simp: closed_ids_def)
  with Cons show ?case by simp
qed simp

definition sweep_inv :: "string set \<Rightarrow> pydict list \<Rightarrow> sweep_state \<Rightarrow> bool" where
  "sweep_inv F queue st \<longleftrightarrow>
     set (sw_failed st) = F \<union> closed_ids (sw_blocked st) \<and> justified F (sw_blocked st)
     \<and> mset queue = mset (sw_pending st) + mset (map bc_child (sw_blocked st))"

lemma block_child_inv:
  assumes "[] \<notin> F" and "sweep_inv F queue st" and "c \<in> set (sw_pending st)"
  shows "sweep_inv F queue (block_child c st)"
proof (cases "block_child c st = st")
  case False
  then show ?thesis
    using assms by (auto simp: sweep_inv_def block_child_def Let_def justified_append split: if_splits)
qed (use assms(2) in simp)

lemma fold_block_inv:
  assumes "[] \<notin> F"
  shows "sweep_inv F queue st \<Longrightarrow> mset cs \<subseteq># mset (sw_pending st) \<Longrightarrow> sweep_inv F queue (fold block_child cs st)"
proof (induction cs arbitrary: st)
  case (Cons c cs)
  have c: "c \<in> set (sw_pending st)" using Cons.prems(2) by (auto dest: mset_subset_eqD)
  have "mset cs \<subseteq># mset (sw_pending st) - {#c#}" using Cons.prems(2) by (simp add: insert_subset_eq_iff)
  moreover from this have "mset cs \<subseteq># mset (sw_pending st)" by (meson diff_subset_eq_self subset_mset.order_trans)
  ultimately have "mset cs \<subseteq># mset (sw_pending (block_child c st))" by (simp add: block_child_def Let_def)
  then show ?case using Cons.IH block_child_inv [OF assms Cons.prems(1) c] by simp
qed simp

lemma sweep_inv_sweep:
  assumes "[] \<notin> F" and "sweep_inv F queue st"
  shows "sweep_inv F queue (sweep st)"
  unfolding sweep_def by (rule fold_block_inv [OF assms(1)]) (use assms(2) in \<open>simp_all add: sweep_inv_def\<close>)

text \<open>A round that blocks nobody saw no failed dependency.\<close>

lemma sort_eq_Nil: "sort xs = [] \<longleftrightarrow> xs = []"
  by (metis length_0_conv length_sort)

lemma block_child_idle:
  "\<not> sw_progressed (block_child c st) \<Longrightarrow> block_child c st = st \<and> set (writer_task_dependency_ids c) \<inter> set (sw_failed st) = {}"
  by (auto simp: block_child_def Let_def sort_eq_Nil filter_empty_conv split: if_splits)

lemma fold_block_idle:
  assumes "\<not> sw_progressed (fold block_child cs st)" and "mset cs \<subseteq># mset (sw_pending st)"
  shows "fold block_child cs st = st \<and> (\<forall>c \<in> set cs. set (writer_task_dependency_ids c) \<inter> set (sw_failed st) = {})"
  using assms
proof (induction cs arbitrary: st)
  case (Cons c cs)
  have idle: "\<not> sw_progressed (fold block_child cs (block_child c st))" using Cons.prems(1) by simp
  have keeps: "sw_progressed st' \<Longrightarrow> sw_progressed (fold block_child cs st')" for st'
    by (induction cs arbitrary: st') (auto simp: block_child_def Let_def)
  have st: "block_child c st = st" "set (writer_task_dependency_ids c) \<inter> set (sw_failed st) = {}"
    using keeps [of "block_child c st"] idle block_child_idle by blast+
  moreover have "mset cs \<subseteq># mset (sw_pending st)" by (rule subset_mset.order_trans [OF _ Cons.prems(2)]) simp
  ultimately show ?case using Cons.IH [of st] idle by simp
qed simp

lemma block_loop_end:
  assumes "[] \<notin> F" and "sweep_inv F queue st"
  shows "sweep_inv F queue (block_loop st)
    \<and> (\<forall>c \<in> set (sw_pending (block_loop st)). set (writer_task_dependency_ids c) \<inter> set (sw_failed (block_loop st)) = {})"
  using assms(2)
proof (induction st rule: block_loop.induct)
  case (1 st)
  show ?case
  proof (cases "sw_pending st \<noteq> [] \<and> sw_progressed (sweep st)")
    case True
    then show ?thesis
      using "1.IH" sweep_inv_sweep [OF assms(1) "1.prems"] by (subst (1 2 3) block_loop.simps) (simp add: Let_def)
  next
    case False
    show ?thesis
    proof (cases "sw_pending st = []")
      case True
      then show ?thesis using "1.prems" by (simp add: block_loop.simps)
    next
      case ne: False
      with False have idle: "\<not> sw_progressed (sweep st)" by simp
      then have "sweep st = st\<lparr>sw_progressed := False\<rparr>
          \<and> (\<forall>c \<in> set (sw_pending st). set (writer_task_dependency_ids c) \<inter> set (sw_failed st) = {})"
        using fold_block_idle [of "sw_pending st" "st\<lparr>sw_progressed := False\<rparr>"] by (simp add: sweep_def)
      moreover have "block_loop st = sweep st" using ne idle by (subst block_loop.simps) (simp add: Let_def)
      ultimately show ?thesis using sweep_inv_sweep [OF assms(1) "1.prems"] by simp
    qed
  qed
qed

lemma justified_doomed:
  assumes "justified F bs" and "[] \<notin> F" and "\<And>d. d \<in> F \<Longrightarrow> doomed rows d"
    and "\<And>b. b \<in> set bs \<Longrightarrow> bc_child b \<in> set rows \<and> is_queued (bc_child b)"
  shows "(\<forall>d \<in> closed_ids bs. doomed rows d) \<and> (\<forall>b \<in> set bs. \<exists>d \<in> set (writer_task_dependency_ids (bc_child b)). doomed rows d)"
  using assms
proof (induction bs arbitrary: F)
  case (Cons b bs)
  let ?F = "insert (child_task_id (bc_child b)) F - {[]}"
  obtain d where d: "d \<in> set (writer_task_dependency_ids (bc_child b))" "doomed rows d"
    using Cons.prems(1,3) by (cases "bc_failed b") auto
  have own: "doomed rows (child_task_id (bc_child b))" if "child_task_id (bc_child b) \<noteq> []"
    using doomed.blocked [OF _ _ d that] Cons.prems(4) by simp
  have "(\<forall>d \<in> closed_ids bs. doomed rows d) \<and> (\<forall>b \<in> set bs. \<exists>d \<in> set (writer_task_dependency_ids (bc_child b)). doomed rows d)"
    by (rule Cons.IH [of ?F]) (use Cons.prems own in auto)
  with d own show ?case by auto
qed simp

lemma blocked_loop_facts:
  obtains st where "blocked_writer_children rows = sw_blocked st" and "sweep_inv (set (failed_task_ids rows)) (filter is_queued rows) st"
    and "\<forall>c \<in> set (sw_pending st). set (writer_task_dependency_ids c) \<inter> set (sw_failed st) = {}"
proof -
  have "[] \<notin> set (failed_task_ids rows)" by (simp add: failed_task_ids_def)
  from block_loop_end [OF this, of "filter is_queued rows"] that show thesis
    unfolding blocked_writer_children_def by (force simp: sweep_inv_def)
qed

text \<open>C18: The sweep closes exactly the doomed children. A queued child is reported blocked if and only if it depends, directly
  or through other queued children, on a task that failed, each child as often as it is queued; and every entry
  names only dependencies that failed before the sweep or were closed by an earlier entry, so the list can be
  processed in order.\<close>

theorem blocked_children_exact:
  "mset (map bc_child (blocked_writer_children rows))
     = mset (filter (\<lambda>c. is_queued c \<and> (\<exists>d \<in> set (writer_task_dependency_ids c). doomed rows d)) rows)
   \<and> justified (set (failed_task_ids rows)) (blocked_writer_children rows)"
proof (rule blocked_loop_facts [of rows])
  fix st
  let ?F = "set (failed_task_ids rows)" and ?bs = "blocked_writer_children rows"
  let ?Q = "\<lambda>c. \<exists>d \<in> set (writer_task_dependency_ids c). doomed rows d"
  assume bs: "?bs = sw_blocked st" and inv: "sweep_inv ?F (filter is_queued rows) st"
    and idle: "\<forall>c \<in> set (sw_pending st). set (writer_task_dependency_ids c) \<inter> set (sw_failed st) = {}"
  have split: "mset (filter is_queued rows) = mset (sw_pending st) + mset (map bc_child ?bs)"
    and just: "justified ?F ?bs" and failed: "set (sw_failed st) = ?F \<union> closed_ids ?bs"
    using inv by (simp_all add: sweep_inv_def bs)
  have queue: "set (filter is_queued rows) = set (sw_pending st) \<union> bc_child ` set ?bs"
    using arg_cong [OF split, of set_mset] by simp
  have sound: "\<forall>b \<in> set ?bs. ?Q (bc_child b)"
    using justified_doomed [OF just, of rows] failed_doomed queue by (fastforce simp: failed_task_ids_def)
  have reached: "d \<in> set (sw_failed st)" if "doomed rows d" for d
    using that
  proof induction
    case (failed c)
    then show ?case using \<open>set (sw_failed st) = ?F \<union> closed_ids ?bs\<close> by (auto simp: failed_task_ids_def)
  next
    case (blocked c d)
    then have "c \<notin> set (sw_pending st)" using idle by blast
    then have "c \<in> bc_child ` set ?bs" using queue blocked.hyps by auto
    then show ?case using blocked.hyps \<open>set (sw_failed st) = ?F \<union> closed_ids ?bs\<close> by (auto simp: closed_ids_def)
  qed
  have "mset (filter (\<lambda>c. is_queued c \<and> ?Q c) rows) = filter_mset ?Q (mset (filter is_queued rows))"
    by (simp add: filter_filter_mset conj_commute)
  also have "\<dots> = filter_mset ?Q (mset (sw_pending st)) + filter_mset ?Q (mset (map bc_child ?bs))" by (simp only: split filter_union_mset)
  also have "filter_mset ?Q (mset (sw_pending st)) = {#}"
    using idle reached by (auto simp: filter_mset_eq_conv)
  also have "filter_mset ?Q (mset (map bc_child ?bs)) = mset (map bc_child ?bs)"
    using sound by (auto simp: filter_mset_eq_conv)
  finally show ?thesis using just by simp
qed

definition demo_child :: "string \<Rightarrow> string \<Rightarrow> string list \<Rightarrow> pydict" where
  "demo_child task status deps =
     [(''task_id'', JStr task), (''status'', JStr status), (''blocked_by'', JList (map JStr deps)), (''last_event_id'', JStr (''e-'' @ task))]"

definition demo_children :: "pydict list" where
  "demo_children = [demo_child ''C'' ''queued'' [''B''], demo_child ''B'' ''pending'' [''A''], demo_child ''A'' ''failed'' [], demo_child ''D'' ''queued'' []]"

theorem blocked_children_exact_witness:
  "mset (map bc_child (blocked_writer_children demo_children))
     = mset (filter (\<lambda>c. is_queued c \<and> (\<exists>d \<in> set (writer_task_dependency_ids c). doomed demo_children d)) demo_children)
   \<and> justified (set (failed_task_ids demo_children)) (blocked_writer_children demo_children)"
  using blocked_children_exact [of demo_children] .

section \<open>Closing\<close>

definition manifest_children :: "pydict \<Rightarrow> pydict list" where
  "manifest_children m = map as_dict (filter is_dict (as_list (dict_get m ''children'')))"

type_synonym causes = "(string \<times> string) list"

definition failure_events :: "pydict list \<Rightarrow> causes" where
  "failure_events cs =
     fold (\<lambda>c m. AList.update (sget c ''task_id'') (sget c ''last_event_id'') m) (filter (\<lambda>c. sget c ''status'' = ''failed'') cs) []"

definition cause_ids :: "causes \<Rightarrow> string list \<Rightarrow> string list" where
  "cause_ids m ds = filter (\<lambda>s. s \<noteq> []) (List.map_filter (map_of m) ds)"

definition closing_event :: "fresh \<Rightarrow> string \<Rightarrow> pydict \<Rightarrow> causes \<Rightarrow> blocked_child \<Rightarrow> zf_event" where
  "closing_event fr fanout_id m causes b =
     (let c = bc_child b; ids = cause_ids causes (bc_failed b); task = child_task_text c in
      (new_event fr ''fanout.child.failed'')\<lparr>ev_actor := JStr ''orchestrator'', ev_origin := JStr ''kernel'',
        ev_task_id := (if task = [] then JNull else JStr task),
        ev_payload := JObj (dict_update (as_dict (dict_get c ''payload''))
          [(''fanout_id'', JStr fanout_id), (''trace_id'', JStr (sget m ''trace_id'')), (''stage_id'', JStr (sget m ''stage_id'')),
           (''child_id'', JStr (sget c ''child_id'')), (''run_id'', JStr (sget c ''run_id'')),
           (''role_instance'', JStr (sget c ''role_instance'')), (''task_id'', JStr task), (''status'', JStr ''failed''),
           (''reason'', JStr (''upstream dependency failed: '' @ join '', '' (bc_failed b))),
           (''failure_class'', JStr ''upstream_dependency_failed''), (''blocked_by_task_ids'', JList (map JStr (bc_failed b))),
           (''upstream_failure_event_ids'', JList (map JStr ids))]),
        ev_causation_id := (case ids of [] \<Rightarrow> JNull | i # _ \<Rightarrow> JStr i),
        ev_correlation_id := JStr (sget m ''trace_id'')\<rparr>)"

text \<open>The writer is an argument: it takes an event and its own state, and returns the event as written.\<close>

fun close_children ::
  "(zf_event \<Rightarrow> 'w \<Rightarrow> zf_event \<times> 'w) \<Rightarrow> (nat \<Rightarrow> fresh) \<Rightarrow> string \<Rightarrow> pydict \<Rightarrow> blocked_child list \<Rightarrow> causes \<Rightarrow> 'w \<Rightarrow> 'w" where
  "close_children put fr fanout_id m [] causes w = w"
| "close_children put fr fanout_id m (b # bs) causes w =
     (let (e, w') = put (closing_event (fr (length bs)) fanout_id m causes b) w; task = child_task_text (bc_child b) in
      close_children put fr fanout_id m bs (if task = [] then causes else AList.update task (py_str (ev_id e)) causes) w')"

definition close_blocked_writer_dependencies ::
  "(zf_event \<Rightarrow> 'w \<Rightarrow> zf_event \<times> 'w) \<Rightarrow> (nat \<Rightarrow> fresh) \<Rightarrow> string \<Rightarrow> pydict \<Rightarrow> 'w \<Rightarrow> bool \<times> 'w" where
  "close_blocked_writer_dependencies put fr fanout_id m w =
     (let cs = manifest_children m; bs = blocked_writer_children cs in
      if bs = [] then (False, w) else (True, close_children put fr fanout_id m bs (failure_events cs) w))"

section \<open>Failures are traceable\<close>

text \<open>A writer that logs what it gets.\<close>

definition log_append :: "zf_event \<Rightarrow> zf_event list \<Rightarrow> zf_event \<times> zf_event list" where
  "log_append e es = (e, es @ [e])"

text \<open>Every event names as its cause the failure of a failed child or an event before it in the list.\<close>

fun traceable :: "string set \<Rightarrow> zf_event list \<Rightarrow> bool" where
  "traceable known [] = True"
| "traceable known (e # es) = ((\<exists>i \<in> known. ev_causation_id e = JStr i) \<and> traceable (insert (py_str (ev_id e)) known) es)"

text \<open>Rows as the manifest writes them: task ids without blanks around them, failed rows with their event.\<close>

definition clean_row :: "pydict \<Rightarrow> bool" where
  "clean_row c \<longleftrightarrow> strip (child_task_text c) = child_task_text c
     \<and> (sget c ''status'' = ''failed'' \<longrightarrow> strip (sget c ''task_id'') = sget c ''task_id'' \<and> sget c ''last_event_id'' \<noteq> [])"

definition causes_ok :: "string set \<Rightarrow> string set \<Rightarrow> causes \<Rightarrow> bool" where
  "causes_ok F known m \<longleftrightarrow> (\<forall>d \<in> F. \<exists>i \<in> known. map_of m d = Some i) \<and> (\<forall>d i. map_of m d = Some i \<longrightarrow> i \<in> known) \<and> [] \<notin> known"

lemma closing_event_id [simp]: "ev_id (closing_event fr fanout_id m causes b) = JStr (fst fr)"
  by (simp add: closing_event_def new_event_def Let_def)

lemma closing_event_cause:
  assumes "causes_ok F known causes" and "bc_failed b \<noteq> []" and "set (bc_failed b) \<subseteq> F"
  shows "\<exists>i \<in> known. ev_causation_id (closing_event fr fanout_id m causes b) = JStr i"
proof -
  obtain d ds where d: "bc_failed b = d # ds" using assms(2) by (cases "bc_failed b") auto
  then obtain i where i: "map_of causes d = Some i" "i \<in> known" "i \<noteq> []"
    using assms(1,3) by (force simp: causes_ok_def)
  then have "cause_ids causes (bc_failed b) = i # cause_ids causes ds" by (simp add: cause_ids_def d map_filter_simps)
  with i(2) show ?thesis by (auto simp: closing_event_def Let_def)
qed

lemma close_children_traceable:
  assumes "justified F bs" and "[] \<notin> F" and "causes_ok F known causes" and "\<And>n. fst (fr n) \<noteq> []"
    and "\<And>b. b \<in> set bs \<Longrightarrow> strip (child_task_text (bc_child b)) = child_task_text (bc_child b)"
  shows "\<exists>es. close_children log_append fr fanout_id m bs causes w = w @ es \<and> length es = length bs \<and> traceable known es"
  using assms
proof (induction bs arbitrary: F known causes w)
  case (Cons b bs)
  let ?e = "closing_event (fr (length bs)) fanout_id m causes b" and ?t = "child_task_text (bc_child b)"
  let ?m = "if ?t = [] then causes else AList.update ?t (fst (fr (length bs))) causes"
  let ?F = "insert (child_task_id (bc_child b)) F - {[]}" and ?known = "insert (fst (fr (length bs))) known"
  have t: "child_task_id (bc_child b) = ?t" using Cons.prems(5) by (simp add: child_task_id_def)
  have "causes_ok ?F ?known ?m"
    using Cons.prems(3) Cons.prems(4) [of "length bs", symmetric] by (auto simp: causes_ok_def t update_conv')
  moreover have "justified ?F bs" using Cons.prems(1) by simp
  ultimately obtain es where es: "close_children log_append fr fanout_id m bs ?m (w @ [?e]) = (w @ [?e]) @ es"
      "length es = length bs" "traceable ?known es"
    using Cons.IH [of ?F ?known ?m "w @ [?e]"] Cons.prems(4,5) by auto
  have "\<exists>i \<in> known. ev_causation_id ?e = JStr i" using closing_event_cause [OF Cons.prems(3)] Cons.prems(1) by auto
  moreover have "log_append ?e w = (?e, w @ [?e])" by (simp add: log_append_def)
  ultimately show ?case using es by (intro exI [of _ "?e # es"]) (auto simp: Let_def split: if_splits)
qed simp

lemma map_of_failure_events:
  "map_of (fold (\<lambda>c m. AList.update (sget c ''task_id'') (sget c ''last_event_id'') m) cs m0) d =
     (case filter (\<lambda>c. sget c ''task_id'' = d) cs of [] \<Rightarrow> map_of m0 d | xs \<Rightarrow> Some (sget (last xs) ''last_event_id''))"
  by (induction cs arbitrary: m0) (auto simp: update_conv' split: list.splits)

definition failed_event_ids :: "pydict list \<Rightarrow> string set" where
  "failed_event_ids cs = {sget c ''last_event_id'' | c. c \<in> set cs \<and> sget c ''status'' = ''failed''}"

lemma failure_events_ok:
  assumes "\<And>c. c \<in> set cs \<Longrightarrow> clean_row c"
  shows "causes_ok (set (failed_task_ids cs)) (failed_event_ids cs) (failure_events cs)"
proof -
  let ?f = "filter (\<lambda>c. sget c ''status'' = ''failed'') cs"
  have known: "sget (last xs) ''last_event_id'' \<in> failed_event_ids cs" if "filter (\<lambda>c. sget c ''task_id'' = d) ?f = xs" "xs \<noteq> []" for d xs
    using last_in_set [OF that(2)] that(1) by (auto simp: failed_event_ids_def)
  have m: "map_of (failure_events cs) d = (case filter (\<lambda>c. sget c ''task_id'' = d) ?f of [] \<Rightarrow> None | xs \<Rightarrow> Some (sget (last xs) ''last_event_id''))" for d
    by (simp add: failure_events_def map_of_failure_events split: list.split)
  have "\<exists>i \<in> failed_event_ids cs. map_of (failure_events cs) d = Some i" if d: "d \<in> set (failed_task_ids cs)" for d
  proof -
    have "filter (\<lambda>c. sget c ''task_id'' = d) ?f \<noteq> []"
      using d assms by (force simp: failed_task_ids_def failed_task_id_def clean_row_def filter_empty_conv)
    with known [of d] show ?thesis by (auto simp: m split: list.splits)
  qed
  moreover have "i \<in> failed_event_ids cs" if "map_of (failure_events cs) d = Some i" for d i
    using that known [of d] by (auto simp: m split: list.splits)
  moreover have "[] \<notin> failed_event_ids cs" using assms by (force simp: failed_event_ids_def clean_row_def)
  ultimately show ?thesis by (auto simp: causes_ok_def)
qed

lemma blocked_children_facts:
  shows "justified (set (failed_task_ids rows)) (blocked_writer_children rows)"
    and "b \<in> set (blocked_writer_children rows) \<Longrightarrow> bc_child b \<in> set rows"
proof -
  obtain st where st: "blocked_writer_children rows = sw_blocked st" "sweep_inv (set (failed_task_ids rows)) (filter is_queued rows) st"
    by (rule blocked_loop_facts)
  then show "justified (set (failed_task_ids rows)) (blocked_writer_children rows)" by (simp add: sweep_inv_def)
  have "mset (map bc_child (blocked_writer_children rows)) \<subseteq># mset (filter is_queued rows)"
    using st by (simp add: sweep_inv_def)
  then show "bc_child b \<in> set rows" if "b \<in> set (blocked_writer_children rows)"
    using that by (force dest!: set_mset_mono)
qed

lemma blocked_children_sound:
  assumes "b \<in> set (blocked_writer_children rows)"
  shows "bc_child b \<in> set rows" and "is_queued (bc_child b)" and "\<exists>d \<in> set (writer_task_dependency_ids (bc_child b)). doomed rows d"
proof -
  let ?F = "set (failed_task_ids rows)" and ?bs = "blocked_writer_children rows"
  obtain st where st: "?bs = sw_blocked st" "sweep_inv ?F (filter is_queued rows) st"
    by (rule blocked_loop_facts)
  then have "mset (map bc_child ?bs) \<subseteq># mset (filter is_queued rows)" by (simp add: sweep_inv_def)
  then have rows: "bc_child b \<in> set rows \<and> is_queued (bc_child b)" if "b \<in> set ?bs" for b
    using that by (force dest!: set_mset_mono)
  with assms show "bc_child b \<in> set rows" and "is_queued (bc_child b)" by blast+
  show "\<exists>d \<in> set (writer_task_dependency_ids (bc_child b)). doomed rows d"
    using justified_doomed [OF blocked_children_facts(1), of rows rows] failed_doomed rows assms by (fastforce simp: failed_task_ids_def)
qed

lemma distinct_blocked_children:
  assumes "distinct (map f rows)"
  shows "distinct (map (\<lambda>b. f (bc_child b)) (blocked_writer_children rows))"
proof (rule blocked_loop_facts [of rows])
  fix st
  assume "blocked_writer_children rows = sw_blocked st" "sweep_inv (set (failed_task_ids rows)) (filter is_queued rows) st"
  then have "mset (filter is_queued rows) = mset (map bc_child (blocked_writer_children rows) @ sw_pending st)" by (simp add: sweep_inv_def)
  then have "mset (map f (filter is_queued rows)) = mset (map f (map bc_child (blocked_writer_children rows) @ sw_pending st))" by (metis mset_map)
  from mset_eq_imp_distinct_iff [OF this] distinct_map_filter [OF assms, of is_queued] show ?thesis by (simp add: comp_def)
qed

text \<open>Once the blocked rows count as failures, under their own task or none, another sweep blocks nothing.\<close>

definition row_closed :: "blocked_child list \<Rightarrow> pydict \<Rightarrow> pydict \<Rightarrow> bool" where
  "row_closed bs c c' \<longleftrightarrow>
     (if c \<in> bc_child ` set bs
      then \<not> is_queued c' \<and> failed_task_id c' \<in> {[], child_task_id c}
      else c' = c)"

lemma sweep_again:
  assumes rows': "\<And>c'. c' \<in> set rows' \<Longrightarrow> \<exists>c \<in> set rows. row_closed (blocked_writer_children rows) c c'"
  shows "blocked_writer_children rows' = []"
proof (rule blocked_loop_facts [of rows])
  fix st
  let ?F = "set (failed_task_ids rows)" and ?bs = "blocked_writer_children rows"
  assume bs: "?bs = sw_blocked st" and inv: "sweep_inv ?F (filter is_queued rows) st"
    and idle: "\<forall>c \<in> set (sw_pending st). set (writer_task_dependency_ids c) \<inter> set (sw_failed st) = {}"
  have failed: "set (sw_failed st) = ?F \<union> closed_ids ?bs" using inv by (simp add: sweep_inv_def bs)
  have "mset (filter is_queued rows) = mset (sw_pending st) + mset (map bc_child ?bs)" using inv by (simp add: sweep_inv_def bs)
  from arg_cong [OF this, of set_mset]
  have queue: "set (filter is_queued rows) = set (sw_pending st) \<union> bc_child ` set ?bs" by simp
  have clear: "set (writer_task_dependency_ids c) \<inter> set (sw_failed st) = {}" if c: "c \<in> set rows'" "is_queued c" for c
  proof -
    obtain c0 where "c0 \<in> set rows" "row_closed ?bs c0 c" using rows' [OF c(1)] by blast
    then have "c = c0 \<and> c0 \<notin> bc_child ` set ?bs" using c(2) by (auto simp: row_closed_def split: if_splits)
    then have "c \<in> set (sw_pending st)" using \<open>c0 \<in> set rows\<close> c(2) queue by auto
    with idle show ?thesis by blast
  qed
  have reached: "d \<in> set (sw_failed st)" if "doomed rows' d" for d
    using that
  proof induction
    case f: (failed c)
    obtain c0 where c0: "c0 \<in> set rows" "row_closed ?bs c0 c" using rows' [OF f(1)] by blast
    show ?case
    proof (cases "c0 \<in> bc_child ` set ?bs")
      case True
      then show ?thesis using c0 f(3) by (auto simp: row_closed_def failed closed_ids_def)
    next
      case False
      then show ?thesis using c0 f by (auto simp: row_closed_def failed failed_task_ids_def)
    qed
  next
    case (blocked c d)
    then show ?case using clear [of c] by blast
  qed
  have "b \<notin> set (blocked_writer_children rows')" for b
    using blocked_children_sound [of b rows'] clear [of "bc_child b"] reached by blast
  then show ?thesis by (metis list.set_intros(1) neq_Nil_conv)
qed

text \<open>Closing a fanout leaves no failure without a cause. Every event that closes a blocked child names as its cause the event of
  a child that failed by itself or the event that closed a child earlier in the same pass, one event for each blocked
  child and none when there is none.\<close>

lemma closing_traceable:
  assumes clean: "\<And>c. c \<in> set (manifest_children m) \<Longrightarrow> clean_row c" and ids: "\<And>n. fst (fr n) \<noteq> []"
  shows "\<exists>es. close_blocked_writer_dependencies log_append fr fanout_id m w = (es \<noteq> [], w @ es)
    \<and> length es = length (blocked_writer_children (manifest_children m)) \<and> traceable (failed_event_ids (manifest_children m)) es"
proof -
  let ?cs = "manifest_children m"
  have "[] \<notin> set (failed_task_ids ?cs)" by (simp add: failed_task_ids_def)
  moreover have tasks: "strip (child_task_text (bc_child b)) = child_task_text (bc_child b)" if "b \<in> set (blocked_writer_children ?cs)" for b
    using clean [OF blocked_children_facts(2) [OF that]] by (simp add: clean_row_def)
  ultimately obtain es where "close_children log_append fr fanout_id m (blocked_writer_children ?cs) (failure_events ?cs) w = w @ es"
      "length es = length (blocked_writer_children ?cs)" "traceable (failed_event_ids ?cs) es"
    using close_children_traceable [where F = "set (failed_task_ids ?cs)" and bs = "blocked_writer_children ?cs" and fr = fr
        and known = "failed_event_ids ?cs" and causes = "failure_events ?cs" and w = w and fanout_id = fanout_id and m = m]
      blocked_children_facts(1) [of ?cs] failure_events_ok [OF clean] ids tasks by blast
  then show ?thesis
    by (cases "blocked_writer_children ?cs = []") (auto simp: close_blocked_writer_dependencies_def Let_def)
qed

definition demo_manifest :: pydict where
  "demo_manifest = [(''children'', JList (map JObj demo_children))]"

end
