(* ===== verification/Fanout_Manifest.thy ===== *)
theory Fanout_Manifest
  imports Fanout_Report Fanout_Identity Writer_Dependencies
begin

text \<open>
  \<open>runtime/fanout.py\<close> and \<open>runtime/fanout_projection_metadata.py\<close>: a fanout and its manifest. The manifest is rebuilt from the events of the log: one
  dictionary for the fanout and one for each child, which later events update. The closing of blocked writer children
  (\<open>Writer_Dependencies\<close>) reads the manifest and appends events that the next rebuild reads; the last section composes the two.
\<close>

declare split_paired_Ex [simp del] split_paired_All [simp del]

section \<open>Identifiers\<close>

definition safe_char :: "char \<Rightarrow> bool" where
  "safe_char c \<longleftrightarrow>
     (let n = (of_char c :: nat) in
      48 \<le> n \<and> n \<le> 57 \<or> 65 \<le> n \<and> n \<le> 90 \<or> 97 \<le> n \<and> n \<le> 122 \<or> c = CHR ''.'' \<or> c = CHR ''_'' \<or> c = CHR ''-'')"

text \<open>\<open>_SAFE_RE.sub("-", s)\<close>: every run of other characters becomes one dash.\<close>

fun sub_unsafe :: "bool \<Rightarrow> string \<Rightarrow> string" where
  "sub_unsafe in_run [] = []"
| "sub_unsafe in_run (c # s) =
     (if safe_char c then c # sub_unsafe False s else if in_run then sub_unsafe True s else CHR ''-'' # sub_unsafe True s)"

definition strip_dashes :: "string \<Rightarrow> string" where
  "strip_dashes s = rev (dropWhile (\<lambda>c. c = CHR ''-'') (rev (dropWhile (\<lambda>c. c = CHR ''-'') s)))"

definition safe_id :: "string \<Rightarrow> string" where
  "safe_id s = str_or (strip_dashes (sub_unsafe False (strip s))) ''unknown''"

definition child_id_for :: "string \<Rightarrow> nat \<Rightarrow> string \<Rightarrow> string" where
  "child_id_for role ordinal scope =
     (let base = safe_id role; base = (if scope \<noteq> [] then base @ ''-'' @ safe_id scope else base)
      in if ordinal \<noteq> 0 then base @ ''-'' @ show_nat (ordinal + 1) else base)"

record fanout_child =
  fc_child_id :: string
  fc_role_instance :: string
  fc_target_ref :: string
  fc_payload :: pydict

record fanout_context =
  fx_fanout_id :: string
  fx_stage_id :: string
  fx_topology :: string
  fx_trace_id :: string
  fx_trigger_event_id :: string
  fx_target_ref :: string
  fx_expected_children :: "fanout_child list"

fun make_children :: "string \<Rightarrow> (string \<times> nat) list \<Rightarrow> string list \<Rightarrow> fanout_child list" where
  "make_children target seen [] = []"
| "make_children target seen (r # rs) =
     (let n = (case map_of seen r of Some n \<Rightarrow> n | None \<Rightarrow> 0) in
      \<lparr>fc_child_id = child_id_for r n [], fc_role_instance = r, fc_target_ref = target, fc_payload = []\<rparr>
        # make_children target (AList.update r (Suc n) seen) rs)"

definition create_context :: "string \<Rightarrow> string \<Rightarrow> string \<Rightarrow> string \<Rightarrow> string \<Rightarrow> string list \<Rightarrow> string \<Rightarrow> fanout_context" where
  "create_context stage_id topology trace_id trigger target roles scope =
     (let t0 = take 12 (safe_id trigger); t = (if scope \<noteq> [] then t0 @ ''-'' @ fanout_identity_scope_digest trigger scope else t0) in
      \<lparr>fx_fanout_id = ''fanout-'' @ safe_id stage_id @ ''-'' @ t, fx_stage_id = stage_id, fx_topology = topology, fx_trace_id = trace_id,
       fx_trigger_event_id = trigger, fx_target_ref = target, fx_expected_children = make_children target [] roles\<rparr>)"

definition child_dict :: "fanout_child \<Rightarrow> pydict" where
  "child_dict c =
     [(''child_id'', JStr (fc_child_id c)), (''role_instance'', JStr (fc_role_instance c)), (''target_ref'', JStr (fc_target_ref c)),
      (''payload'', JObj (fc_payload c))]"

definition context_event :: "fresh \<Rightarrow> string \<Rightarrow> string \<Rightarrow> fanout_context \<Rightarrow> pydict \<Rightarrow> zf_event" where
  "context_event fr type actor x payload =
     (new_event fr type)\<lparr>ev_actor := JStr actor, ev_payload := JObj payload, ev_causation_id := JStr (fx_trigger_event_id x),
        ev_correlation_id := JStr (fx_trace_id x)\<rparr>"

definition started_event :: "fresh \<Rightarrow> string \<Rightarrow> fanout_context \<Rightarrow> zf_event" where
  "started_event fr actor x =
     context_event fr ''fanout.started'' actor x
       [(''fanout_id'', JStr (fx_fanout_id x)), (''stage_id'', JStr (fx_stage_id x)), (''topology'', JStr (fx_topology x)),
        (''trace_id'', JStr (fx_trace_id x)), (''trigger_event_id'', JStr (fx_trigger_event_id x)), (''target_ref'', JStr (fx_target_ref x)),
        (''expected_children'', JList (map (JObj \<circ> child_dict) (fx_expected_children x)))]"

definition child_dispatched_event :: "fresh \<Rightarrow> string \<Rightarrow> fanout_context \<Rightarrow> fanout_child \<Rightarrow> string \<Rightarrow> zf_event" where
  "child_dispatched_event fr actor x c run_id =
     context_event fr ''fanout.child.dispatched'' actor x
       [(''fanout_id'', JStr (fx_fanout_id x)), (''trace_id'', JStr (fx_trace_id x)), (''stage_id'', JStr (fx_stage_id x)),
        (''child_id'', JStr (fc_child_id c)), (''run_id'', JStr run_id), (''role_instance'', JStr (fc_role_instance c)),
        (''target_ref'', JStr (str_or (fc_target_ref c) (fx_target_ref x)))]"

definition aggregate_started_event :: "fresh \<Rightarrow> string \<Rightarrow> fanout_context \<Rightarrow> string \<Rightarrow> zf_event" where
  "aggregate_started_event fr actor x mode =
     context_event fr ''fanout.aggregate.started'' actor x
       [(''fanout_id'', JStr (fx_fanout_id x)), (''trace_id'', JStr (fx_trace_id x)), (''stage_id'', JStr (fx_stage_id x)), (''mode'', JStr mode)]"

section \<open>Reading payloads\<close>

definition pstr :: "pydict \<Rightarrow> string \<Rightarrow> string" where
  "pstr d k = (let v = dict_get d k in if missing v then [] else py_str v)"

definition int_value :: "json \<Rightarrow> int" where
  "int_value v = (case py_int (py_or v (JInt 0)) of Some n \<Rightarrow> n | None \<Rightarrow> 0)"

text \<open>\<open>int(v or 0)\<close> where the code does not catch the exception.\<close>

definition int_strict :: "json \<Rightarrow> int res" where
  "int_strict v = (case py_int (py_or v (JInt 0)) of Some n \<Rightarrow> Inr n | None \<Rightarrow> Inl (ValueError ''invalid literal for int()''))"

text \<open>\<open>text or value or default\<close>\<close>

definition text_or :: "string \<Rightarrow> json \<Rightarrow> json" where
  "text_or s v = (if s \<noteq> [] then JStr s else v)"

definition raw_child_str :: "pydict \<Rightarrow> string \<Rightarrow> string" where
  "raw_child_str raw k = (if pstr raw k \<noteq> [] then pstr raw k else pstr (as_dict (dict_get raw ''payload'')) k)"

section \<open>Children\<close>

definition metadata_text_keys :: "string list" where
  "metadata_text_keys =
     [''task_id'', ''scope'', ''workdir'', ''source_branch'', ''source_commit'', ''task_ref'', ''pdd_id'', ''feature_id'', ''task_map_ref'',
      ''source_index_ref'', ''retry_of_run_id'', ''expected_output'', ''owner_claim'', ''risk'', ''assignment_strategy'', ''lane_profile'',
      ''lane_id'', ''stage_slot'', ''affinity_tag'', ''pipeline_id'', ''root_fanout_id'', ''upstream_root_fanout_id'', ''upstream_fanout_id'',
      ''upstream_child_id'', ''upstream_task_id'', ''upstream_stage_slot'', ''queue_order'', ''briefing_path'', ''contract_revision'',
      ''task_map_generation'', ''base_commit'', ''contract_snapshot_ref'', ''contract_snapshot_digest'', ''target_snapshot_ref'',
      ''target_commit'', ''target_snapshot_digest'', ''impl_self_check_ref'', ''impl_self_check_digest'', ''operation_id'',
      ''parent_operation_id'', ''request_hash'', ''attempt_id'', ''result_protocol_mode'', ''attempt_source_manifest_ref'',
      ''attempt_source_manifest_digest'', ''input_consumption_policy_digest'', ''admitted_call_result_digest'', ''semantic_verdict'']"

definition metadata_dict_keys :: "string list" where
  "metadata_dict_keys =
     [''attempt_source_manifest'', ''input_consumption_policy_ref'', ''input_consumption_policy'', ''admitted_call_result_ref'', ''control_result_ref'']"

definition metadata_flow_keys :: "string list" where
  "metadata_flow_keys =
     [''workflow_run_id'', ''workflow_input_manifest_ref'', ''workflow_prompt_ref'', ''prompt_kind'', ''channel_id'', ''thread_id'', ''pattern_id'',
      ''request_id'']"

definition copy_texts :: "string list \<Rightarrow> pydict \<Rightarrow> pydict \<Rightarrow> pydict" where
  "copy_texts ks p c = fold (\<lambda>k c. if pstr p k \<noteq> [] then dict_set c k (JStr (pstr p k)) else c) ks c"

definition copy_when :: "(json \<Rightarrow> bool) \<Rightarrow> string list \<Rightarrow> pydict \<Rightarrow> pydict \<Rightarrow> pydict" where
  "copy_when P ks p c = fold (\<lambda>k c. if P (dict_get p k) then dict_set c k (dict_get p k) else c) ks c"

definition apply_child_metadata :: "pydict \<Rightarrow> pydict \<Rightarrow> pydict" where
  "apply_child_metadata p c =
     (let c1 = copy_texts metadata_text_keys p c;
          c2 = (if has_key p ''attempt'' then dict_set c1 ''attempt'' (dict_get p ''attempt'') else c1);
          c3 = (case dict_get p ''skills'' of JList xs \<Rightarrow> dict_set c2 ''skills'' (JList (map (\<lambda>x. JStr (py_str x)) xs)) | _ \<Rightarrow> c2);
          c4 = copy_when is_list [''artifact_refs'', ''evidence_refs''] p c3;
          c5 = copy_when is_dict metadata_dict_keys p c4;
          c6 = copy_when is_list [''required_reads''] p c5;
          c7 = copy_when is_dict [''source_refs''] p c6;
          c8 = copy_texts metadata_flow_keys p c7;
          c9 = (if has_key p ''request_revision'' then dict_set c8 ''request_revision'' (JInt (int_value (dict_get p ''request_revision''))) else c8)
      in copy_when is_dict [''origin_binding'', ''verification_result''] p c9)"

definition apply_report_payload :: "pydict \<Rightarrow> pydict \<Rightarrow> pydict" where
  "apply_report_payload p c =
     (let c1 = (case dict_get p ''report'' of
                  JObj r \<Rightarrow> dict_set (dict_set (dict_set c ''report'' (JObj r)) ''report_status'' (JStr (sget r ''status''))) ''recommendation'' (JStr (sget r ''recommendation''))
                | _ \<Rightarrow> c);
          c2 = copy_texts [''report_path''] p c1
      in copy_when is_list [''report_diagnostics''] p c2)"

definition synth_text_keys :: "string list" where
  "synth_text_keys =
     [''workflow_run_id'', ''operation_id'', ''request_hash'', ''attempt_id'', ''result_protocol_mode'', ''output_profile_id'', ''output_profile_revision'',
      ''attempt_source_manifest_ref'', ''attempt_source_manifest_digest'', ''input_consumption_policy_digest'', ''plan_revision'',
      ''plan_synth_contract_ref'', ''plan_synth_contract_digest'', ''reviewed_plan_candidate_digest'', ''admitted_call_result_digest'']"

definition apply_synth_handoff_metadata :: "pydict \<Rightarrow> pydict \<Rightarrow> pydict" where
  "apply_synth_handoff_metadata p c =
     copy_when is_list [''required_reads''] p (copy_when is_dict metadata_dict_keys p (copy_texts synth_text_keys p c))"

type_synonym children = "(string \<times> pydict) list"

definition child_key :: "pydict \<Rightarrow> string" where
  "child_key p =
     (let i = str_or (pstr p ''child_id'') (pstr p ''child_run'');
          j = (if i = [] then str_or (pstr p ''role_instance'') (pstr p ''run_id'') else i) in str_or j ''unknown'')"

definition observed_child :: "pydict \<Rightarrow> pydict" where
  "observed_child p =
     [(''child_id'', JStr (child_key p)), (''role_instance'', JStr (pstr p ''role_instance'')), (''target_ref'', JStr (pstr p ''target_ref'')),
      (''status'', JStr ''observed''), (''run_id'', JStr (pstr p ''run_id''))]"

text \<open>\<open>child = _child(children, payload)\<close> followed by updates of \<open>child\<close>.\<close>

definition on_child :: "pydict \<Rightarrow> (pydict \<Rightarrow> pydict) \<Rightarrow> children \<Rightarrow> children" where
  "on_child p f cs =
     AList.update (child_key p) (f (case map_of cs (child_key p) of Some c \<Rightarrow> c | None \<Rightarrow> observed_child p)) cs"

definition expected_child :: "json \<Rightarrow> pydict \<Rightarrow> pydict" where
  "expected_child target raw =
     (let payload = as_dict (dict_get raw ''payload'') in
      apply_child_metadata payload
        [(''child_id'', JStr (sget raw ''child_id'')), (''role_instance'', JStr (sget raw ''role_instance'')),
         (''target_ref'', JStr (py_str (py_or (dict_get raw ''target_ref'') target))), (''payload'', JObj payload),
         (''expected_output'', JStr (raw_child_str raw ''expected_output'')), (''owner_claim'', JStr (raw_child_str raw ''owner_claim'')),
         (''status'', JStr ''pending''), (''run_id'', JStr [])])"

definition plan_child :: "json \<Rightarrow> pydict \<Rightarrow> children \<Rightarrow> children" where
  "plan_child target raw cs = AList.update (sget raw ''child_id'') (expected_child target raw) cs"

definition plan_children :: "json \<Rightarrow> json \<Rightarrow> children \<Rightarrow> children" where
  "plan_children target expected cs =
     fold (plan_child target)
       (filter (\<lambda>raw. sget raw ''child_id'' \<noteq> []) (map as_dict (filter is_dict (as_list expected)))) cs"

definition queued_child :: "zf_event \<Rightarrow> pydict \<Rightarrow> pydict \<Rightarrow> pydict" where
  "queued_child e p c =
     apply_child_metadata p
       (dict_update c
         [(''status'', JStr ''queued''), (''run_id'', JStr (pstr p ''run_id'')), (''role_instance'', JStr (pstr p ''role_instance'')),
          (''target_ref'', text_or (pstr p ''target_ref'') (first_present c [''target_ref''] (JStr []))), (''last_event_id'', ev_id e)])"

definition dispatched_child :: "zf_event \<Rightarrow> pydict \<Rightarrow> pydict \<Rightarrow> pydict" where
  "dispatched_child e p c =
     (let c1 = apply_child_metadata p
            (dict_update c
              [(''status'', JStr ''dispatched''), (''run_id'', JStr (pstr p ''run_id'')), (''role_instance'', JStr (pstr p ''role_instance'')),
               (''target_ref'', JStr (pstr p ''target_ref'')), (''last_event_id'', ev_id e)]) in
      (case dict_get p ''payload'' of
         JObj q \<Rightarrow> apply_child_metadata q (dict_set c1 ''payload'' (JObj (dict_update (as_dict (dict_get c1 ''payload'')) q)))
       | _ \<Rightarrow> c1))"

definition completed_child :: "zf_event \<Rightarrow> pydict \<Rightarrow> pydict \<Rightarrow> pydict" where
  "completed_child e p c =
     apply_report_payload p (apply_child_metadata p
       (dict_update c
         [(''status'', JStr (str_or (pstr p ''status'') ''completed'')), (''run_id'', JStr (pstr p ''run_id'')),
          (''result_event_id'', JStr (pstr p ''result_event_id'')), (''reason'', JStr []), (''evidence'', JObj []), (''last_event_id'', ev_id e)]))"

definition failed_child :: "zf_event \<Rightarrow> pydict \<Rightarrow> pydict \<Rightarrow> pydict" where
  "failed_child e p c =
     apply_report_payload p (apply_child_metadata p
       (dict_update c
         [(''status'', JStr ''failed''), (''run_id'', JStr (pstr p ''run_id'')), (''reason'', JStr (pstr p ''reason'')),
          (''evidence'', JObj (as_dict (dict_get p ''evidence''))), (''last_event_id'', ev_id e)]))"

section \<open>The manifest\<close>

definition empty_manifest :: "string \<Rightarrow> pydict" where
  "empty_manifest fanout_id =
     (''fanout_id'', JStr fanout_id)
     # map (\<lambda>k. (k, JStr []))
         [''trace_id'', ''stage_id'', ''topology'', ''trigger_event_id'', ''target_ref'', ''pdd_id'', ''feature_id'', ''task_map_ref'', ''source_index_ref'',
          ''task_id'', ''channel_id'', ''thread_id'', ''pattern_id'', ''workflow_run_id'', ''workflow_input_manifest_ref'', ''workflow_prompt_ref'',
          ''prompt_kind'', ''request_id'']
     @ [(''request_revision'', JInt 0), (''origin_binding'', JObj []), (''trigger_payload'', JObj []), (''source_refs'', JObj []),
        (''artifact_refs'', JList []), (''children'', JList []), (''aggregate_config'', JObj []), (''aggregate'', JObj [(''status'', JStr ''pending'')]),
        (''barrier'', JObj [(''status'', JStr ''pending''), (''required_children'', JList [])]), (''status'', JStr ''pending'')]"

definition text_fields :: "pydict \<Rightarrow> string list \<Rightarrow> pydict" where
  "text_fields p ks = map (\<lambda>k. (k, JStr (pstr p k))) ks"

text \<open>\<open>_payload_str(payload, key) or event.field or ""\<close>\<close>

definition payload_or_event :: "pydict \<Rightarrow> string \<Rightarrow> json \<Rightarrow> json" where
  "payload_or_event p k v = text_or (pstr p k) (py_or v (JStr []))"

definition requested_fields :: "zf_event \<Rightarrow> pydict \<Rightarrow> pydict" where
  "requested_fields e p =
     [(''trace_id'', payload_or_event p ''trace_id'' (ev_correlation_id e))]
     @ text_fields p [''stage_id'', ''topology'', ''trigger_event_id'', ''target_ref'', ''pdd_id'', ''feature_id'', ''task_map_ref'', ''source_index_ref'']
     @ [(''task_id'', payload_or_event p ''task_id'' (ev_task_id e))]
     @ text_fields p [''channel_id'', ''thread_id'', ''pattern_id'', ''workflow_run_id'', ''workflow_input_manifest_ref'', ''workflow_prompt_ref'',
          ''prompt_kind'', ''request_id'']
     @ [(''request_revision'', JInt (int_value (dict_get p ''request_revision''))), (''origin_binding'', JObj (as_dict (dict_get p ''origin_binding''))),
        (''source_refs'', JObj (as_dict (dict_get p ''source_refs''))), (''artifact_refs'', JList (as_list (dict_get p ''artifact_refs''))),
        (''request_event_id'', ev_id e), (''requested_by'', payload_or_event p ''requested_by'' (ev_actor e)),
        (''source_intent_event_id'',
          JStr (str_or (pstr p ''source_intent_event_id'') (str_or (pstr p ''workflow_invoke_event_id'') (pstr p ''source_event_id'')))),
        (''reason'', JStr (pstr p ''reason'')), (''expected_output'', JStr (pstr p ''expected_output'')), (''status'', JStr ''requested'')]"

text \<open>\<open>_payload_str(payload, key) or manifest.get(key, "")\<close>\<close>

definition kept_field :: "pydict \<Rightarrow> pydict \<Rightarrow> string \<Rightarrow> string \<times> json" where
  "kept_field p m k = (k, text_or (pstr p k) (first_present m [k] (JStr [])))"

definition started_fields :: "zf_event \<Rightarrow> pydict \<Rightarrow> pydict \<Rightarrow> pydict" where
  "started_fields e p m =
     [(''trace_id'', payload_or_event p ''trace_id'' (ev_correlation_id e))]
     @ text_fields p [''stage_id'', ''topology'', ''trigger_event_id'', ''target_ref'', ''pdd_id'', ''feature_id'', ''task_map_ref'', ''source_index_ref'']
     @ [(''task_id'', text_or (pstr p ''task_id'') (py_or (ev_task_id e) (first_present m [''task_id''] (JStr []))))]
     @ map (kept_field p m) [''channel_id'', ''thread_id'', ''pattern_id'', ''workflow_run_id'', ''workflow_input_manifest_ref'', ''workflow_prompt_ref'', ''prompt_kind'']
     @ [(''status'', JStr ''started'')]"

definition started_trigger :: "pydict \<Rightarrow> pydict \<Rightarrow> pydict" where
  "started_trigger p m =
     (case dict_get p ''trigger_payload'' of
        JObj t \<Rightarrow>
          (let m1 = dict_set m ''trigger_payload'' (JObj t);
               m2 = dict_set m1 ''request_id'' (text_or (pstr p ''request_id'') (text_or (pstr t ''request_id'') (first_present m1 [''request_id''] (JStr []))));
               m3 = dict_set m2 ''request_revision''
                      (JInt (int_value (py_or (dict_get p ''request_revision'') (py_or (dict_get t ''request_revision'') (dict_get m2 ''request_revision'')))));
               origin = (if is_dict (dict_get p ''origin_binding'') then dict_get p ''origin_binding'' else dict_get t ''origin_binding'')
           in if is_dict origin then dict_set m3 ''origin_binding'' origin else m3)
      | _ \<Rightarrow> m)"

definition aggregate_config :: "pydict \<Rightarrow> pydict res" where
  "aggregate_config a =
     res_bind (int_strict (dict_get a ''max_retries'')) (\<lambda>retries.
     res_bind (int_strict (dict_get a ''synth_timeout_seconds'')) (\<lambda>seconds.
       Inr [(''mode'', JStr (sget a ''mode'')), (''success_event'', JStr (sget a ''success_event'')), (''failure_event'', JStr (sget a ''failure_event'')),
            (''child_success_event'', JStr (sget_or a ''child_success_event'' ''workflow.child.completed'')),
            (''child_failure_event'', JStr (sget_or a ''child_failure_event'' ''workflow.child.failed'')), (''synth_role'', JStr (sget a ''synth_role'')),
            (''max_retries'', JInt retries), (''review_strategy'', JStr (sget a ''review_strategy'')), (''synth_timeout_seconds'', JInt seconds)]))"

definition slot_entry :: "string \<Rightarrow> zf_event \<Rightarrow> pydict \<Rightarrow> json" where
  "slot_entry status e p =
     JObj ([(''status'', JStr status)] @ text_fields p [''child_id'', ''role_instance'', ''lane_id'', ''stage_slot''] @ [(''event_id'', ev_id e)])"

definition append_to :: "string \<Rightarrow> json \<Rightarrow> pydict \<Rightarrow> pydict" where
  "append_to k v m = dict_set m k (JList (as_list (dict_get m k) @ [v]))"

definition aggregate_completed :: "zf_event \<Rightarrow> pydict \<Rightarrow> pydict" where
  "aggregate_completed e p =
     [(''status'', JStr (str_or (pstr p ''status'') ''completed''))]
     @ text_fields p [''reason'', ''success_event'', ''failure_event'', ''recommendation'', ''synth_event_id'', ''pdd_id'', ''feature_id'', ''task_map_ref'',
          ''source_index_ref'']
     @ map (\<lambda>k. (k, first_present p [k] (JList []))) [''completed_task_ids'', ''failed_children'', ''pending_children'']
     @ [(''timeout_seconds'', first_present p [''timeout_seconds''] (JInt 0))]
     @ text_fields p [''candidate_status'', ''candidate_ref'', ''recovered_from_aggregate_status'', ''recovered_from_aggregate_reason'']
     @ [(''last_event_id'', ev_id e)]"

text \<open>The fanout takes over what only its aggregate knows.\<close>

definition adopt_aggregate :: "pydict \<Rightarrow> pydict \<Rightarrow> pydict" where
  "adopt_aggregate a m =
     (let m1 = fold (\<lambda>k m. if truthy (dict_get a k) \<and> \<not> truthy (dict_get m k) then dict_set m k (dict_get a k) else m)
                 [''pdd_id'', ''feature_id'', ''task_map_ref'', ''source_index_ref''] (dict_set m ''aggregate'' (JObj a))
      in dict_set m1 ''status'' (dict_get a ''status''))"

definition synth_dispatched :: "zf_event \<Rightarrow> pydict \<Rightarrow> pydict" where
  "synth_dispatched e p =
     apply_synth_handoff_metadata p
       ([(''status'', JStr ''dispatched'')] @ text_fields p [''role_instance'', ''run_id'', ''briefing_path'']
        @ [(''report_paths'', first_present p [''report_paths''] (JList [])), (''last_event_id'', ev_id e)])"

definition synth_completed :: "zf_event \<Rightarrow> pydict \<Rightarrow> pydict" where
  "synth_completed e p =
     (let report = as_dict (dict_get p ''report'') in
      apply_synth_handoff_metadata p
        ([(''status'', JStr (str_or (pstr p ''status'') ''completed''))] @ text_fields p [''role_instance'', ''run_id'']
         @ [(''recommendation'', JStr (str_or (pstr p ''recommendation'') (sget report ''recommendation''))),
            (''summary'', JStr (str_or (pstr p ''summary'') (sget report ''summary''))), (''report'', JObj report), (''last_event_id'', ev_id e)]))"

record manifest_state =
  ms_manifest :: pydict
  ms_children :: children

text \<open>\<open>fanout.started\<close>: the whole branch.\<close>

definition started_manifest :: "zf_event \<Rightarrow> pydict \<Rightarrow> pydict \<Rightarrow> pydict res" where
  "started_manifest e p m =
     (let m1 = dict_update m (started_fields e p m);
          m2 = copy_when is_dict [''source_refs''] p m1;
          m3 = copy_when is_list [''artifact_refs''] p m2;
          m4 = started_trigger p m3 in
      (case dict_get p ''aggregate'' of
         JObj a \<Rightarrow> map_sum id (\<lambda>cfg. dict_set m4 ''aggregate_config'' (JObj cfg)) (aggregate_config a)
       | _ \<Rightarrow> Inr m4))"

definition with_plan :: "pydict \<Rightarrow> children \<Rightarrow> pydict \<Rightarrow> manifest_state" where
  "with_plan p cs m = \<lparr>ms_manifest = m, ms_children = plan_children (dict_get m ''target_ref'') (dict_get p ''expected_children'') cs\<rparr>"

definition manifest_step :: "zf_event \<Rightarrow> manifest_state \<Rightarrow> manifest_state res" where
  "manifest_step e st =
     (let p = payload_of e; m = ms_manifest st; cs = ms_children st; is = (\<lambda>t. ev_type e = JStr t) in
      if is ''fanout.requested'' then Inr (st\<lparr>ms_manifest := dict_update m (requested_fields e p)\<rparr>)
      else if is ''fanout.started'' then map_sum id (with_plan p cs) (started_manifest e p m)
      else if is ''fanout.child.queued'' then Inr (st\<lparr>ms_children := on_child p (queued_child e p) cs\<rparr>)
      else if is ''fanout.slot.assigned'' then Inr (st\<lparr>ms_manifest := append_to ''slot_events'' (slot_entry ''assigned'' e p) m\<rparr>)
      else if is ''fanout.slot.released'' then Inr (st\<lparr>ms_manifest := append_to ''slot_events'' (slot_entry ''released'' e p) m\<rparr>)
      else if is ''fanout.assignment.override'' then
        Inr (st\<lparr>ms_manifest := append_to ''assignment_overrides''
          (JObj (text_fields p [''child_id'', ''from_role_instance'', ''to_role_instance'', ''reason''] @ [(''event_id'', ev_id e)])) m\<rparr>)
      else if is ''fanout.child.dispatched'' then Inr (st\<lparr>ms_children := on_child p (dispatched_child e p) cs\<rparr>)
      else if is ''fanout.child.completed'' then Inr (st\<lparr>ms_children := on_child p (completed_child e p) cs\<rparr>)
      else if is ''fanout.child.failed'' then Inr (st\<lparr>ms_children := on_child p (failed_child e p) cs\<rparr>)
      else if is ''fanout.aggregate.started'' then
        Inr (st\<lparr>ms_manifest := dict_set m ''aggregate'' (JObj [(''status'', JStr ''started''), (''mode'', JStr (pstr p ''mode'')), (''last_event_id'', ev_id e)])\<rparr>)
      else if is ''fanout.aggregate.completed'' then Inr (st\<lparr>ms_manifest := adopt_aggregate (aggregate_completed e p) m\<rparr>)
      else if is ''fanout.synth.dispatched'' then
        Inr (st\<lparr>ms_manifest := dict_set (dict_set m ''synth'' (JObj (synth_dispatched e p))) ''status'' (JStr ''synth_dispatched'')\<rparr>)
      else if is ''fanout.synth.completed'' then Inr (st\<lparr>ms_manifest := dict_set m ''synth'' (JObj (synth_completed e p))\<rparr>)
      else if is ''fanout.timed_out'' then
        Inr (st\<lparr>ms_manifest := dict_set (dict_set m ''status'' (JStr ''timed_out'')) ''aggregate''
          (JObj [(''status'', JStr ''timed_out''), (''pending_children'', first_present p [''pending_children''] (JList [])),
                 (''timeout_seconds'', first_present p [''timeout_seconds''] (JInt 0)), (''last_event_id'', ev_id e)])\<rparr>)
      else if is ''fanout.cancelled'' then
        Inr (st\<lparr>ms_manifest := dict_set (dict_set m ''status'' (JStr ''cancelled'')) ''aggregate''
          (JObj [(''status'', JStr ''cancelled''), (''reason'', JStr (pstr p ''reason'')), (''last_event_id'', ev_id e)])\<rparr>)
      else Inr st)"

fun manifest_fold :: "string \<Rightarrow> zf_event list \<Rightarrow> manifest_state \<Rightarrow> manifest_state res" where
  "manifest_fold fanout_id [] st = Inr st"
| "manifest_fold fanout_id (e # es) st =
     (if pstr (payload_of e) ''fanout_id'' \<noteq> fanout_id then manifest_fold fanout_id es st
      else res_bind (manifest_step e st) (manifest_fold fanout_id es))"

section \<open>Terminal runs, slots and barrier\<close>

definition corrected_pass_event :: "zf_event list \<Rightarrow> string \<Rightarrow> zf_event option" where
  "corrected_pass_event es failed =
     find (\<lambda>e. type_in e [''judge.passed'', ''verify.passed'', ''test.passed'', ''review.approved''] \<and> sget (payload_of e) ''correction_of'' = failed) es"

fun run_completed_last :: "zf_event list \<Rightarrow> bool" where
  "run_completed_last [] = False"
| "run_completed_last (e # es) =
     (if type_in e [''task_map.ready'', ''task_map.amended'', ''fanout.started'', ''candidate.ready'', ''verify.failed'', ''judge.failed'', ''run.failed''] then False
      else if ev_type e = JStr ''run.completed'' then sget_or (payload_of e) ''status'' ''passed'' = ''passed''
      else run_completed_last es)"

definition has_terminal_run_completed :: "zf_event list \<Rightarrow> bool" where
  "has_terminal_run_completed es = run_completed_last (rev es)"

definition reconcile_fanout_manifest_terminal_state :: "pydict \<Rightarrow> zf_event list \<Rightarrow> pydict" where
  "reconcile_fanout_manifest_terminal_state m es =
     (let a = as_dict (dict_get m ''aggregate''); failed = sget a ''failure_event'';
          corrected = (if failed = [] then None else corrected_pass_event es failed);
          final = {''completed'', ''corrected_passed'', ''cancelled'', ''timed_out''} in
      (case corrected of
         Some e \<Rightarrow>
           dict_update m
             [(''aggregate'', JObj (dict_update a [(''status'', JStr ''corrected_passed''), (''corrected_by_event_id'', ev_id e), (''corrected_event_type'', ev_type e)])),
              (''status'', JStr ''corrected_passed''), (''non_blocking'', JBool True), (''reconciled_by'', JStr ''corrected_terminal'')]
       | None \<Rightarrow>
           if \<not> has_terminal_run_completed es \<or> sget m ''status'' \<in> final \<or> sget a ''status'' \<in> final then m
           else dict_update m
             [(''status'', JStr ''closed''), (''non_blocking'', JBool True), (''reconciled_by'', JStr ''run.completed''),
              (''aggregate'', JObj (dict_update a [(''status'', JStr ''closed''), (''reason'', JStr (sget_or a ''reason'' ''run completed''))]))]))"

definition slot_step :: "json \<Rightarrow> ((string \<times> string) \<times> pydict) list \<Rightarrow> ((string \<times> string) \<times> pydict) list" where
  "slot_step v active =
     (let d = as_dict v; key = (sget d ''stage_slot'', sget d ''lane_id'') in
      if \<not> is_dict v \<or> sget d ''lane_id'' = [] \<or> sget d ''stage_slot'' = [] then active
      else if sget d ''status'' = ''assigned'' then
        AList.update key
          [(''status'', JStr ''assigned''), (''lane_id'', JStr (sget d ''lane_id'')), (''stage_slot'', JStr (sget d ''stage_slot'')),
           (''child_id'', JStr (sget d ''child_id'')), (''role_instance'', JStr (sget d ''role_instance'')), (''event_id'', JStr (sget d ''event_id''))] active
      else if sget d ''status'' = ''released'' then AList.delete key active
      else active)"

definition slot_state_projection :: "pydict \<Rightarrow> json list" where
  "slot_state_projection m = map (JObj \<circ> snd) (sort_key fst (fold slot_step (as_list (dict_get m ''slot_events'')) []))"

definition ids_with_status :: "string list \<Rightarrow> pydict list \<Rightarrow> json" where
  "ids_with_status sts cs = JList (map (\<lambda>c. JStr (sget c ''child_id'')) (filter (\<lambda>c. sget c ''status'' \<in> set sts) cs))"

text \<open>\<open>failed or list(aggregate.get("failed_children", []) or [])\<close>\<close>

definition failed_children :: "pydict \<Rightarrow> pydict list \<Rightarrow> json list res" where
  "failed_children a cs =
     (let failed = as_list (ids_with_status [''failed''] cs); listed = dict_get a ''failed_children'' in
      if failed \<noteq> [] then Inr failed else if truthy listed then py_list listed else Inr [])"

definition barrier_fields :: "pydict \<Rightarrow> pydict \<Rightarrow> pydict \<Rightarrow> pydict list \<Rightarrow> json list \<Rightarrow> pydict" where
  "barrier_fields m cfg a cs failed =
     (let either = (\<lambda>k dflt. if truthy (dict_get a k) then py_str (dict_get a k) else sget_or cfg k dflt) in
      [(''status'', JStr (str_or (sget a ''status'') (sget_or m ''status'' ''pending''))), (''mode'', JStr (either ''mode'' ''wait_for_all'')),
       (''required_children'', JList (map (\<lambda>c. JStr (sget c ''child_id'')) (filter (\<lambda>c. truthy (dict_get c ''child_id'')) cs))),
       (''completed_children'', ids_with_status [''completed'', ''failed''] cs),
       (''failed_children'', JList failed),
       (''expected_output'', JStr (sget m ''expected_output'')), (''success_event'', JStr (either ''success_event'' [])),
       (''failure_event'', JStr (either ''failure_event'' [])), (''synth_role'', JStr (either ''synth_role'' [])),
       (''max_retries'', JInt (int_value (dict_get cfg ''max_retries''))), (''candidate_ref'', JStr (sget a ''candidate_ref'')),
       (''candidate_status'', JStr (sget a ''candidate_status''))])"

definition barrier_projection :: "pydict \<Rightarrow> pydict res" where
  "barrier_projection m =
     (let cfg = as_dict (dict_get m ''aggregate_config''); a = as_dict (dict_get m ''aggregate'');
          cs = map as_dict (filter is_dict (as_list (dict_get m ''children'')))
      in map_sum id (barrier_fields m cfg a cs) (failed_children a cs))"

definition sorted_children :: "children \<Rightarrow> pydict list" where
  "sorted_children cs = map snd (sort_dict cs)"

definition with_barrier :: "pydict \<Rightarrow> pydict \<Rightarrow> pydict" where
  "with_barrier m b = dict_set m ''barrier'' (JObj b)"

definition finish_manifest :: "zf_event list \<Rightarrow> manifest_state \<Rightarrow> pydict res" where
  "finish_manifest es st =
     (let cs = sorted_children (ms_children st);
          m1 = dict_update (ms_manifest st)
            [(''children'', JList (map JObj cs)),
             (''planned_children'', JList (map (\<lambda>c. JStr (sget c ''child_id'')) (filter (\<lambda>c. truthy (dict_get c ''child_id'')) cs))),
             (''queued_children'', ids_with_status [''queued''] cs), (''dispatched_children'', ids_with_status [''dispatched''] cs),
             (''terminal_children'', ids_with_status [''completed'', ''failed''] cs)];
          m2 = reconcile_fanout_manifest_terminal_state m1 es;
          m3 = dict_set m2 ''slot_state'' (JList (slot_state_projection m2))
      in map_sum id (with_barrier m3) (barrier_projection m3))"

definition rebuild_manifest :: "string \<Rightarrow> zf_event list \<Rightarrow> pydict res" where
  "rebuild_manifest fanout_id es =
     res_bind (manifest_fold fanout_id es \<lparr>ms_manifest = empty_manifest fanout_id, ms_children = []\<rparr>) (finish_manifest es)"

section \<open>What the events keep of a child\<close>

lemma dict_get_update_other: "k \<notin> fst ` set e \<Longrightarrow> dict_get (dict_update d e) k = dict_get d k"
  unfolding dict_update_def by (induction e arbitrary: d) auto

lemma dict_update_simps [simp]: "dict_update d [] = d" "dict_update d ((k, v) # e) = dict_update (dict_set d k v) e"
  by (simp_all add: dict_update_def)

lemma dict_get_copy_texts: "k \<notin> set ks \<Longrightarrow> dict_get (copy_texts ks p c) k = dict_get c k"
  unfolding copy_texts_def by (induction ks arbitrary: c) auto

lemma dict_get_copy_when: "k \<notin> set ks \<Longrightarrow> dict_get (copy_when P ks p c) k = dict_get c k"
  unfolding copy_when_def by (induction ks arbitrary: c) auto

definition metadata_keys :: "string list" where
  "metadata_keys =
     metadata_text_keys @ [''attempt'', ''skills'', ''artifact_refs'', ''evidence_refs''] @ metadata_dict_keys
     @ [''required_reads'', ''source_refs''] @ metadata_flow_keys @ [''request_revision'', ''origin_binding'', ''verification_result'']"

lemma apply_child_metadata_keeps: "k \<notin> set metadata_keys \<Longrightarrow> dict_get (apply_child_metadata p c) k = dict_get c k"
  by (simp add: apply_child_metadata_def metadata_keys_def dict_get_copy_texts dict_get_copy_when Let_def split: json.split)

lemma apply_report_payload_keeps:
  "k \<notin> {''report'', ''report_status'', ''recommendation'', ''report_path'', ''report_diagnostics''} \<Longrightarrow>
     dict_get (apply_report_payload p c) k = dict_get c k"
  by (simp add: apply_report_payload_def dict_get_copy_texts dict_get_copy_when Let_def split: json.split)

lemma kept_keys: "''child_id'' \<notin> set metadata_keys" "''status'' \<notin> set metadata_keys"
  by code_simp+

lemmas child_keeps = apply_child_metadata_keeps [OF kept_keys(1)] apply_child_metadata_keeps [OF kept_keys(2)] apply_report_payload_keeps

lemma sget_of_get: "dict_get c k = dict_get d k \<Longrightarrow> sget c k = sget d k"
  by (simp add: sget_def)

lemma sget_text: "dict_get c k = JStr x \<Longrightarrow> sget c k = x"
  by (simp add: sget_def)

text \<open>The update an event makes to the row of its child, and the status it gives.\<close>

definition row_update :: "zf_event \<Rightarrow> (pydict \<Rightarrow> pydict) option" where
  "row_update e =
     (let p = payload_of e; is = (\<lambda>t. ev_type e = JStr t) in
      if is ''fanout.child.queued'' then Some (queued_child e p)
      else if is ''fanout.child.dispatched'' then Some (dispatched_child e p)
      else if is ''fanout.child.completed'' then Some (completed_child e p)
      else if is ''fanout.child.failed'' then Some (failed_child e p)
      else None)"

definition child_status :: "zf_event \<Rightarrow> string option" where
  "child_status e =
     (let p = payload_of e; is = (\<lambda>t. ev_type e = JStr t) in
      if is ''fanout.child.queued'' then Some ''queued''
      else if is ''fanout.child.dispatched'' then Some ''dispatched''
      else if is ''fanout.child.completed'' then Some (str_or (pstr p ''status'') ''completed'')
      else if is ''fanout.child.failed'' then Some ''failed''
      else None)"

lemma row_update_status:
  "map_option (\<lambda>f. sget (f c) ''status'') (row_update e) = child_status e"
  by (auto simp: row_update_def child_status_def Let_def queued_child_def dispatched_child_def completed_child_def failed_child_def child_keeps
      sget_def str_or_def split: json.split)

lemma row_update_id: "row_update e = Some f \<Longrightarrow> dict_get (f c) ''child_id'' = dict_get c ''child_id''"
  by (auto simp: row_update_def Let_def queued_child_def dispatched_child_def completed_child_def failed_child_def child_keeps
      split: if_splits json.split)

definition planned_ids :: "zf_event \<Rightarrow> string list" where
  "planned_ids e =
     filter (\<lambda>i. i \<noteq> []) (map (\<lambda>v. sget (as_dict v) ''child_id'') (filter is_dict (as_list (dict_get (payload_of e) ''expected_children''))))"

lemma manifest_step_children:
  assumes "manifest_step e st = Inr st'"
  obtains target where "ms_children st' =
     (if ev_type e = JStr ''fanout.started'' then plan_children target (dict_get (payload_of e) ''expected_children'') (ms_children st)
      else case row_update e of None \<Rightarrow> ms_children st | Some f \<Rightarrow> on_child (payload_of e) f (ms_children st))"
proof (cases "ev_type e = JStr ''fanout.started''")
  case True
  then show ?thesis
    using assms that by (cases "started_manifest e (payload_of e) (ms_manifest st)") (auto simp: manifest_step_def with_plan_def Let_def)
next
  case False
  with assms have "ms_children st' = (case row_update e of None \<Rightarrow> ms_children st | Some f \<Rightarrow> on_child (payload_of e) f (ms_children st))"
    by (auto simp: manifest_step_def row_update_def Let_def split: if_splits)
  with False that show ?thesis by simp
qed

definition rows_ok :: "children \<Rightarrow> bool" where
  "rows_ok cs \<longleftrightarrow> distinct (map fst cs) \<and> (\<forall>i c. map_of cs i = Some c \<longrightarrow> i \<noteq> [] \<and> dict_get c ''child_id'' = JStr i)"

definition row_status :: "children \<Rightarrow> string \<Rightarrow> string option" where
  "row_status cs i = map_option (\<lambda>c. sget c ''status'') (map_of cs i)"

lemma expected_child_row [simp]:
  "dict_get (expected_child target raw) ''child_id'' = JStr (sget raw ''child_id'')" "sget (expected_child target raw) ''status'' = ''pending''"
  by (simp_all add: expected_child_def Let_def child_keeps sget_def)

lemma rows_ok_update: "rows_ok cs \<Longrightarrow> i \<noteq> [] \<Longrightarrow> dict_get c ''child_id'' = JStr i \<Longrightarrow> rows_ok (AList.update i c cs)"
  by (auto simp: rows_ok_def distinct_update update_conv')

lemma rows_ok_id: "rows_ok cs \<Longrightarrow> map_of cs i = Some c \<Longrightarrow> sget c ''child_id'' = i \<and> i \<noteq> [] \<and> dict_get c ''child_id'' = JStr i"
  by (auto simp: rows_ok_def sget_text)

lemma plan_children_rows:
  fixes target expected
  defines "raws \<equiv> filter (\<lambda>raw. sget raw ''child_id'' \<noteq> []) (map as_dict (filter is_dict (as_list expected)))"
  assumes "rows_ok cs"
  shows "rows_ok (plan_children target expected cs)"
    and "row_status (plan_children target expected cs) i =
      (if i \<in> (\<lambda>raw. sget raw ''child_id'') ` set raws then Some ''pending'' else row_status cs i)"
proof -
  have "\<forall>raw \<in> set raws. sget raw ''child_id'' \<noteq> [] \<Longrightarrow>
      rows_ok (fold (plan_child target) raws cs)
    \<and> row_status (fold (plan_child target) raws cs) i
        = (if i \<in> (\<lambda>raw. sget raw ''child_id'') ` set raws then Some ''pending'' else row_status cs i)" for raws
    using assms(2) by (induction raws arbitrary: cs) (auto simp: plan_child_def rows_ok_update row_status_def update_conv')
  from this [of raws] show "rows_ok (plan_children target expected cs)"
    and "row_status (plan_children target expected cs) i =
      (if i \<in> (\<lambda>raw. sget raw ''child_id'') ` set raws then Some ''pending'' else row_status cs i)"
    unfolding plan_children_def raws_def by auto
qed

lemma set_planned_ids:
  "set (planned_ids e) = (\<lambda>raw. sget raw ''child_id'') `
     set (filter (\<lambda>raw. sget raw ''child_id'' \<noteq> []) (map as_dict (filter is_dict (as_list (dict_get (payload_of e) ''expected_children'')))))"
  by (auto simp: planned_ids_def)

lemma on_child_rows:
  assumes "rows_ok cs" and "row_update e = Some f"
  shows "rows_ok (on_child p f cs)" and "row_status (on_child p f cs) i = (if i = child_key p then child_status e else row_status cs i)"
proof -
  have "dict_get (observed_child p) ''child_id'' = JStr (child_key p)" "child_key p \<noteq> []"
    by (simp_all add: observed_child_def child_key_def str_or_def Let_def)
  then show "rows_ok (on_child p f cs)"
    unfolding on_child_def using assms(1) row_update_id [OF assms(2)]
    by (intro rows_ok_update) (auto simp: rows_ok_def split: option.split)
  show "row_status (on_child p f cs) i = (if i = child_key p then child_status e else row_status cs i)"
    using row_update_status [of _ e] assms(2) by (simp add: row_status_def on_child_def update_conv')
qed

section \<open>The table of the children\<close>

text \<open>The reference: an event gives at most one status to a child, and the last one stands.\<close>

definition status_given :: "string \<Rightarrow> string \<Rightarrow> zf_event \<Rightarrow> string option" where
  "status_given fanout_id i e =
     (if pstr (payload_of e) ''fanout_id'' \<noteq> fanout_id then None
      else if ev_type e = JStr ''fanout.started'' then (if i \<in> set (planned_ids e) then Some ''pending'' else None)
      else if child_key (payload_of e) = i then child_status e
      else None)"

definition last_status :: "string \<Rightarrow> zf_event list \<Rightarrow> string \<Rightarrow> string option" where
  "last_status fanout_id es i = (let ss = List.map_filter (status_given fanout_id i) es in if ss = [] then None else Some (last ss))"

lemma last_status_simps [simp]:
  "last_status fanout_id [] i = None"
  "last_status fanout_id (es @ [e]) i = (case status_given fanout_id i e of None \<Rightarrow> last_status fanout_id es i | Some s \<Rightarrow> Some s)"
  by (simp_all add: last_status_def List.map_filter_def Let_def split: option.split)

lemma manifest_fold_append:
  "manifest_fold fanout_id (xs @ ys) st = res_bind (manifest_fold fanout_id xs st) (manifest_fold fanout_id ys)"
proof (induction xs arbitrary: st)
  case (Cons e xs)
  then show ?case by (cases "manifest_step e st") simp_all
qed simp

lemma manifest_step_rows:
  assumes "manifest_step e st = Inr st'" and "rows_ok (ms_children st)" and "pstr (payload_of e) ''fanout_id'' = fanout_id"
  shows "rows_ok (ms_children st')"
    and "row_status (ms_children st') i = (case status_given fanout_id i e of None \<Rightarrow> row_status (ms_children st) i | Some s \<Rightarrow> Some s)"
proof -
  obtain target where cs: "ms_children st' =
     (if ev_type e = JStr ''fanout.started'' then plan_children target (dict_get (payload_of e) ''expected_children'') (ms_children st)
      else case row_update e of None \<Rightarrow> ms_children st | Some f \<Rightarrow> on_child (payload_of e) f (ms_children st))"
    by (rule manifest_step_children [OF assms(1)])
  have none: "row_update e = None \<longleftrightarrow> child_status e = None" using row_update_status [of undefined e] by (metis option.map_disc_iff)
  show "rows_ok (ms_children st')"
    using assms(2) plan_children_rows(1) on_child_rows(1) by (auto simp: cs split: option.split)
  show "row_status (ms_children st') i = (case status_given fanout_id i e of None \<Rightarrow> row_status (ms_children st) i | Some s \<Rightarrow> Some s)"
    using assms(2,3) on_child_rows(2) none by (auto simp: cs status_given_def set_planned_ids plan_children_rows(2) split: option.split)
qed

lemma manifest_fold_rows:
  assumes "manifest_fold fanout_id es \<lparr>ms_manifest = m, ms_children = []\<rparr> = Inr st"
  shows "rows_ok (ms_children st)" and "row_status (ms_children st) i = last_status fanout_id es i"
proof -
  have "rows_ok (ms_children st) \<and> (\<forall>i. row_status (ms_children st) i = last_status fanout_id es i)"
    using assms
  proof (induction es arbitrary: st rule: rev_induct)
    case Nil
    then show ?case by (auto simp: rows_ok_def row_status_def)
  next
    case (snoc e es)
    then obtain st0 where st0: "manifest_fold fanout_id es \<lparr>ms_manifest = m, ms_children = []\<rparr> = Inr st0"
        "manifest_fold fanout_id [e] st0 = Inr st"
      by (auto simp: manifest_fold_append res_bind_Inr)
    have IH: "rows_ok (ms_children st0)" "\<And>i. row_status (ms_children st0) i = last_status fanout_id es i"
      using snoc.IH [OF st0(1)] by auto
    show ?case
    proof (cases "pstr (payload_of e) ''fanout_id'' = fanout_id")
      case True
      then have "manifest_step e st0 = Inr st" using st0(2) by (auto simp: res_bind_Inr)
      from manifest_step_rows [OF this IH(1) True] IH(2) show ?thesis by (simp split: option.split)
    next
      case False
      then show ?thesis using st0(2) IH by (simp add: status_given_def)
    qed
  qed
  then show "rows_ok (ms_children st)" and "row_status (ms_children st) i = last_status fanout_id es i" by auto
qed

lemma reconcile_keeps:
  "dict_get (reconcile_fanout_manifest_terminal_state m es) ''children'' = dict_get m ''children''"
  "dict_get (as_dict (dict_get (reconcile_fanout_manifest_terminal_state m es) ''aggregate'')) ''failed_children''
     = dict_get (as_dict (dict_get m ''aggregate'')) ''failed_children''"
  by (simp_all add: reconcile_fanout_manifest_terminal_state_def Let_def split: option.split)

lemma rows_of_children: "map as_dict (filter is_dict (as_list (JList (map JObj cs)))) = cs"
  by (induction cs) simp_all

lemma finish_manifest_cases:
  obtains m3 where "manifest_children m3 = sorted_children (ms_children st)"
    and "finish_manifest es st = map_sum id (with_barrier m3) (barrier_projection m3)"
    and "dict_get (as_dict (dict_get m3 ''aggregate'')) ''failed_children'' = dict_get (as_dict (dict_get (ms_manifest st) ''aggregate'')) ''failed_children''"
proof -
  define cs where "cs = sorted_children (ms_children st)"
  define m1 where "m1 = dict_update (ms_manifest st)
            [(''children'', JList (map JObj cs)),
             (''planned_children'', JList (map (\<lambda>c. JStr (sget c ''child_id'')) (filter (\<lambda>c. truthy (dict_get c ''child_id'')) cs))),
             (''queued_children'', ids_with_status [''queued''] cs), (''dispatched_children'', ids_with_status [''dispatched''] cs),
             (''terminal_children'', ids_with_status [''completed'', ''failed''] cs)]"
  define m2 where "m2 = reconcile_fanout_manifest_terminal_state m1 es"
  let ?m3 = "dict_set m2 ''slot_state'' (JList (slot_state_projection m2))"
  show thesis
  proof (rule that)
    show "manifest_children ?m3 = sorted_children (ms_children st)"
      by (simp add: manifest_children_def m2_def reconcile_keeps(1) m1_def rows_of_children [simplified] flip: cs_def)
    show "finish_manifest es st = map_sum id (with_barrier ?m3) (barrier_projection ?m3)"
      unfolding finish_manifest_def Let_def m2_def m1_def cs_def ..
    show "dict_get (as_dict (dict_get ?m3 ''aggregate'')) ''failed_children'' = dict_get (as_dict (dict_get (ms_manifest st) ''aggregate'')) ''failed_children''"
      by (simp add: m2_def reconcile_keeps(2)) (simp add: m1_def)
  qed
qed

lemma manifest_children_finish:
  assumes "finish_manifest es st = Inr m"
  shows "manifest_children m = sorted_children (ms_children st)"
proof (rule finish_manifest_cases [of st es])
  fix m3
  assume "manifest_children m3 = sorted_children (ms_children st)" "finish_manifest es st = map_sum id (with_barrier m3) (barrier_projection m3)"
  with assms show ?thesis by (cases "barrier_projection m3") (auto simp: with_barrier_def manifest_children_def)
qed

text \<open>The last step fails only on an aggregate whose list of failed children is no list, and only while no row has failed.\<close>

lemma finish_manifest_ok:
  "(\<exists>m. finish_manifest es st = Inr m) \<longleftrightarrow>
     (\<exists>m. failed_children (as_dict (dict_get (ms_manifest st) ''aggregate'')) (sorted_children (ms_children st)) = Inr m)"
proof (rule finish_manifest_cases [of st es])
  fix m3
  let ?a = "as_dict (dict_get m3 ''aggregate'')" and ?cs = "sorted_children (ms_children st)"
  assume m3: "manifest_children m3 = ?cs" "finish_manifest es st = map_sum id (with_barrier m3) (barrier_projection m3)"
    and "dict_get ?a ''failed_children'' = dict_get (as_dict (dict_get (ms_manifest st) ''aggregate'')) ''failed_children''"
  then have failed: "failed_children ?a ?cs = failed_children (as_dict (dict_get (ms_manifest st) ''aggregate'')) ?cs"
    by (simp add: failed_children_def)
  have "barrier_projection m3 = map_sum id (barrier_fields m3 (as_dict (dict_get m3 ''aggregate_config'')) ?a ?cs) (failed_children ?a ?cs)"
    unfolding barrier_projection_def Let_def manifest_children_def [symmetric] m3(1) ..
  then show ?thesis unfolding m3(2) by (cases "failed_children ?a ?cs") (simp_all flip: failed)
qed

lemma set_sorted_children: "distinct (map fst cs) \<Longrightarrow> c \<in> set (sorted_children cs) \<longleftrightarrow> (\<exists>i. map_of cs i = Some c)"
  by (force simp: sorted_children_def map_of_eq_Some_iff)

lemma sorted_children_ids:
  assumes "rows_ok cs"
  shows "map (\<lambda>c. sget c ''child_id'') (sorted_children cs) = sorted_list_of_set (dom (map_of cs))"
proof -
  have dist: "distinct (map fst (sort_dict cs))" and "sorted (map fst (sort_dict cs))"
    using assms by (auto simp: rows_ok_def) (simp add: sort_dict_def)
  have "sget (snd r) ''child_id'' = fst r" if "r \<in> set cs" for r
    using rows_ok_id [OF assms, of "fst r" "snd r"] that assms by (simp add: rows_ok_def)
  then have "map (\<lambda>c. sget c ''child_id'') (sorted_children cs) = map fst (sort_dict cs)" by (simp add: sorted_children_def)
  moreover have "sorted_list_of_set (set (map fst (sort_dict cs))) = map fst (sort_dict cs)"
    by (rule sorted_list_of_set.idem_if_sorted_distinct) fact+
  moreover have "set (map fst (sort_dict cs)) = dom (map_of cs)" by (simp add: dom_map_of_conv_image_fst)
  ultimately show ?thesis by simp
qed

lemma rebuild_manifest_fold:
  assumes "rebuild_manifest fanout_id es = Inr m"
  obtains st where "manifest_fold fanout_id es \<lparr>ms_manifest = empty_manifest fanout_id, ms_children = []\<rparr> = Inr st" and "finish_manifest es st = Inr m"
  using assms that by (auto simp: rebuild_manifest_def res_bind_Inr)

text \<open>C19: The manifest's table of children is the last-write-wins table of the log. The rows are listed in the order of their ids, one for
  each child some event of this fanout planned or reported, and the status of a row is the one the last such event gave
  it: events of other fanouts and events about other children do not change it.\<close>

theorem manifest_last_write_wins:
  assumes "rebuild_manifest fanout_id es = Inr m"
  shows "map (\<lambda>c. sget c ''child_id'') (manifest_children m) = sorted_list_of_set {i. last_status fanout_id es i \<noteq> None}
    \<and> (\<forall>c \<in> set (manifest_children m). last_status fanout_id es (sget c ''child_id'') = Some (sget c ''status''))"
proof (rule rebuild_manifest_fold [OF assms])
  fix st
  assume st: "manifest_fold fanout_id es \<lparr>ms_manifest = empty_manifest fanout_id, ms_children = []\<rparr> = Inr st" "finish_manifest es st = Inr m"
  note rows = manifest_fold_rows [OF st(1)]
  have "{i. last_status fanout_id es i \<noteq> None} = dom (map_of (ms_children st))"
    by (auto simp: rows(2) [symmetric] row_status_def)
  moreover have "last_status fanout_id es (sget c ''child_id'') = Some (sget c ''status'')" if "c \<in> set (sorted_children (ms_children st))" for c
  proof -
    have "distinct (map fst (ms_children st))" using rows(1) by (simp add: rows_ok_def)
    with that obtain i where i: "map_of (ms_children st) i = Some c" by (auto simp: set_sorted_children simp del: map_of_eq_Some_iff)
    with rows_ok_id [OF rows(1) i] show ?thesis by (simp add: rows(2) [symmetric] row_status_def)
  qed
  ultimately show ?thesis using sorted_children_ids [OF rows(1)] by (simp add: manifest_children_finish [OF st(2)])
qed

section \<open>Closing and rebuilding\<close>

lemma dict_get_copy_text:
  "dict_get (copy_texts ks p c) k = (if k \<in> set ks \<and> pstr p k \<noteq> [] then JStr (pstr p k) else dict_get c k)"
  unfolding copy_texts_def by (induction ks arbitrary: c) auto

lemma metadata_task_id:
  "dict_get (apply_child_metadata p c) ''task_id'' = (if pstr p ''task_id'' \<noteq> [] then JStr (pstr p ''task_id'') else dict_get c ''task_id'')"
proof -
  have "''task_id'' \<in> set metadata_text_keys" "''task_id'' \<notin> set metadata_flow_keys" "''task_id'' \<notin> set metadata_dict_keys" by code_simp+
  then show ?thesis
    by (simp add: apply_child_metadata_def dict_get_copy_text dict_get_copy_when Let_def split: json.split)
qed

lemma pstr_text [simp]: "dict_get p k = JStr x \<Longrightarrow> pstr p k = x"
  by (simp add: pstr_def missing_def)

lemma closing_event_fields:
  fixes fr fanout_id m causes b
  defines "p \<equiv> payload_of (closing_event fr fanout_id m causes b)"
  shows "ev_type (closing_event fr fanout_id m causes b) = JStr ''fanout.child.failed''"
    and "pstr p ''fanout_id'' = fanout_id" and "pstr p ''child_id'' = sget (bc_child b) ''child_id''"
    and "pstr p ''task_id'' = child_task_text (bc_child b)"
  unfolding p_def by (simp_all add: closing_event_def new_event_def payload_of_def Let_def)

lemma failed_child_closes:
  assumes "pstr p ''task_id'' = child_task_text c"
  shows "\<not> is_queued (failed_child e p c)" and "failed_task_id (failed_child e p c) \<in> {[], child_task_id c}"
    and "dict_get (failed_child e p c) ''child_id'' = dict_get c ''child_id''"
proof -
  show "\<not> is_queued (failed_child e p c)" and "dict_get (failed_child e p c) ''child_id'' = dict_get c ''child_id''"
    by (simp_all add: is_queued_def failed_child_def child_keeps sget_def)
  have "dict_get (failed_child e p c) ''task_id'' = (if child_task_text c \<noteq> [] then JStr (child_task_text c) else dict_get c ''task_id'')"
    by (simp add: failed_child_def apply_report_payload_keeps metadata_task_id assms)
  then have "sget (failed_child e p c) ''task_id'' = (if child_task_text c \<noteq> [] then child_task_text c else sget c ''task_id'')"
    by (simp add: sget_def)
  moreover have "child_task_text c = [] \<Longrightarrow> sget c ''task_id'' = []"
    by (auto simp: child_task_text_def text_of_def py_or_def sget_def split: if_splits)
  ultimately show "failed_task_id (failed_child e p c) \<in> {[], child_task_id c}"
    by (auto simp: failed_task_id_def child_task_id_def)
qed

text \<open>Every row of the new table is an old row that stayed, or a blocked one that is now closed.\<close>

definition rows_closed :: "blocked_child list \<Rightarrow> children \<Rightarrow> children \<Rightarrow> bool" where
  "rows_closed bs cs cs' \<longleftrightarrow> (\<forall>i c'. map_of cs' i = Some c' \<longrightarrow> (\<exists>c. map_of cs i = Some c \<and> row_closed bs c c'))"

lemma rows_closed_Cons:
  assumes cs: "rows_ok cs" "map_of cs i = Some (bc_child b)" and b': "\<forall>b' \<in> set bs. sget (bc_child b') ''child_id'' \<noteq> i"
    and c1: "\<not> is_queued c1" "failed_task_id c1 \<in> {[], child_task_id (bc_child b)}" "sget c1 ''child_id'' = i"
    and rest: "rows_closed bs (AList.update i c1 cs) cs'"
  shows "rows_closed (b # bs) cs cs'"
  unfolding rows_closed_def
proof (intro allI impI)
  fix j c'
  assume "map_of cs' j = Some c'"
  then obtain c where c: "map_of (AList.update i c1 cs) j = Some c" "row_closed bs c c'" using rest unfolding rows_closed_def by blast
  show "\<exists>c. map_of cs j = Some c \<and> row_closed (b # bs) c c'"
  proof (cases "j = i")
    case True
    then have "c = c1" using c(1) by (simp add: update_conv')
    moreover have "c1 \<notin> bc_child ` set bs" using b' c1(3) by auto
    ultimately have "c' = c1" using c(2) by (simp add: row_closed_def)
    then show ?thesis using True cs(2) c1 by (simp add: row_closed_def)
  next
    case False
    then have "map_of cs j = Some c" using c(1) by (simp add: update_conv')
    moreover from rows_ok_id [OF cs(1) this] rows_ok_id [OF cs] False have "c \<noteq> bc_child b" by auto
    ultimately show ?thesis using c(2) by (auto simp: row_closed_def)
  qed
qed

lemma closing_fold:
  assumes "rows_ok (ms_children st)" and "distinct (map (\<lambda>b. sget (bc_child b) ''child_id'') bs)"
    and "\<forall>b \<in> set bs. \<exists>i. map_of (ms_children st) i = Some (bc_child b)"
  shows "\<exists>es st'. close_children log_append fr fanout_id m bs causes w = w @ es \<and> manifest_fold fanout_id es st = Inr st'
    \<and> rows_closed bs (ms_children st) (ms_children st') \<and> ms_manifest st' = ms_manifest st
    \<and> (\<forall>e \<in> set es. ev_type e = JStr ''fanout.child.failed'')"
  using assms
proof (induction bs arbitrary: st causes w)
  case Nil
  then show ?case by (intro exI [of _ "[]"] exI [of _ st]) (simp add: rows_closed_def row_closed_def)
next
  case (Cons b bs)
  let ?e = "closing_event (fr (length bs)) fanout_id m causes b" and ?t = "child_task_text (bc_child b)" and ?c = "bc_child b"
  let ?p = "payload_of ?e" and ?causes = "if ?t = [] then causes else AList.update ?t (fst (fr (length bs))) causes"
  let ?c' = "failed_child ?e ?p ?c" and ?cs = "ms_children st"
  obtain i where i: "map_of ?cs i = Some ?c" using Cons.prems(3) by auto
  have id: "sget ?c ''child_id'' = i" "i \<noteq> []" "dict_get ?c ''child_id'' = JStr i"
    using rows_ok_id [OF Cons.prems(1) i] by auto
  have key: "child_key ?p = i" using id closing_event_fields(3) by (simp add: child_key_def str_or_def Let_def)
  let ?st = "st\<lparr>ms_children := AList.update i ?c' ?cs\<rparr>"
  have "manifest_step ?e st = Inr ?st"
    using i by (simp add: manifest_step_def closing_event_fields(1) on_child_def key Let_def)
  then have fold: "manifest_fold fanout_id (?e # es) st = manifest_fold fanout_id es ?st" for es
    by (simp add: closing_event_fields(2))
  note closed = failed_child_closes [where e = ?e, OF closing_event_fields(4) [of "fr (length bs)" fanout_id m causes b]]
  have rows: "rows_ok (AList.update i ?c' ?cs)" using closed(3) id by (intro rows_ok_update [OF Cons.prems(1)]) simp_all
  have other: "\<forall>b' \<in> set bs. sget (bc_child b') ''child_id'' \<noteq> i" using Cons.prems(2) id(1) by (metis (mono_tags, lifting) distinct.simps(2) image_eqI list.set_map list.simps(9))
  have "\<exists>j. map_of (AList.update i ?c' ?cs) j = Some (bc_child b')" if b': "b' \<in> set bs" for b'
  proof -
    obtain j where j: "map_of ?cs j = Some (bc_child b')" using Cons.prems(3) b' by auto
    with rows_ok_id [OF Cons.prems(1) j] other b' show ?thesis by (intro exI [of _ j]) (auto simp: update_conv')
  qed
  then obtain es st' where IH: "close_children log_append fr fanout_id m bs ?causes (w @ [?e]) = (w @ [?e]) @ es"
      "manifest_fold fanout_id es ?st = Inr st'" "rows_closed bs (AList.update i ?c' ?cs) (ms_children st')"
      "ms_manifest st' = ms_manifest st" "\<forall>e \<in> set es. ev_type e = JStr ''fanout.child.failed''"
    using Cons.IH [of ?st ?causes "w @ [?e]"] rows Cons.prems(2) by auto
  have "rows_closed (b # bs) ?cs (ms_children st')"
    using rows_closed_Cons [OF Cons.prems(1) i other closed(1,2) _ IH(3)] closed(3) id(3) by (simp add: sget_text)
  then show ?case
    using IH(1,2,4,5) fold [of es] closing_event_fields(1) [of "fr (length bs)" fanout_id m causes b]
    by (intro exI [of _ "?e # es"] exI [of _ st']) (simp add: log_append_def [of ?e w] Let_def del: manifest_fold.simps split: if_splits)
qed

text \<open>A failed child stays failed when further failures are appended, so that the last step of the rebuild succeeds again.\<close>

lemma last_status_failed:
  assumes "\<forall>e \<in> set es. ev_type e = JStr ''fanout.child.failed''" and "last_status fanout_id log i = Some ''failed''"
  shows "last_status fanout_id (log @ es) i = Some ''failed''"
  using assms(1)
proof (induction es rule: rev_induct)
  case (snoc e es)
  have "last_status fanout_id (log @ es @ [e]) i = (case status_given fanout_id i e of None \<Rightarrow> last_status fanout_id (log @ es) i | Some s \<Rightarrow> Some s)"
    using last_status_simps(2) [of fanout_id "log @ es" e i] by simp
  then show ?case using snoc by (simp add: status_given_def child_status_def Let_def)
qed (use assms(2) in simp)

lemma finish_after_failures:
  assumes fold: "manifest_fold fanout_id log \<lparr>ms_manifest = m0, ms_children = []\<rparr> = Inr st"
    "manifest_fold fanout_id (log @ es) \<lparr>ms_manifest = m0, ms_children = []\<rparr> = Inr st'"
    and es: "\<forall>e \<in> set es. ev_type e = JStr ''fanout.child.failed''" and same: "ms_manifest st' = ms_manifest st"
    and "finish_manifest log st = Inr m"
  shows "\<exists>m'. finish_manifest (log @ es) st' = Inr m'"
proof -
  let ?a = "as_dict (dict_get (ms_manifest st) ''aggregate'')"
  note rows = manifest_fold_rows [OF fold(1)] and rows' = manifest_fold_rows [OF fold(2)]
  have sorted: "c \<in> set (sorted_children (ms_children st)) \<longleftrightarrow> (\<exists>i. map_of (ms_children st) i = Some c)"
      "c \<in> set (sorted_children (ms_children st')) \<longleftrightarrow> (\<exists>i. map_of (ms_children st') i = Some c)" for c
    using rows(1) rows'(1) by (auto simp: rows_ok_def set_sorted_children simp del: map_of_eq_Some_iff)
  have "\<exists>c \<in> set (sorted_children (ms_children st')). sget c ''status'' = ''failed''"
    if c: "c \<in> set (sorted_children (ms_children st))" "sget c ''status'' = ''failed''" for c
  proof -
    from c obtain i where "row_status (ms_children st) i = Some ''failed''" by (auto simp: sorted row_status_def simp del: map_of_eq_Some_iff)
    then have "row_status (ms_children st') i = Some ''failed''" using last_status_failed [OF es] by (simp add: rows(2) rows'(2))
    then show ?thesis by (auto simp: row_status_def Bex_def sorted simp del: map_of_eq_Some_iff)
  qed
  moreover obtain fs where "failed_children ?a (sorted_children (ms_children st)) = Inr fs"
    using assms(5) finish_manifest_ok [of log st] by blast
  ultimately have "\<exists>fs. failed_children ?a (sorted_children (ms_children st')) = Inr fs"
    by (auto simp: failed_children_def ids_with_status_def filter_empty_conv Let_def split: if_splits)
  then show ?thesis using finish_manifest_ok [of "log @ es" st'] same by simp
qed

text \<open>C16: Closing converges. Rebuild the manifest from the log, append the events that close its blocked children, and rebuild: the second
  manifest exists and closing it finds nothing to do, so the orchestrator does not append failures for ever.\<close>

theorem closing_converges:
  assumes "rebuild_manifest fanout_id log = Inr m" and "close_blocked_writer_dependencies log_append fr fanout_id m log = (changed, log')"
  shows "\<exists>m'. rebuild_manifest fanout_id log' = Inr m' \<and> close_blocked_writer_dependencies log_append fr' fanout_id m' log' = (False, log')"
proof (rule rebuild_manifest_fold [OF assms(1)])
  fix st
  assume st: "manifest_fold fanout_id log \<lparr>ms_manifest = empty_manifest fanout_id, ms_children = []\<rparr> = Inr st" "finish_manifest log st = Inr m"
  let ?rows = "manifest_children m"
  let ?bs = "blocked_writer_children ?rows"
  have ok: "rows_ok (ms_children st)" and rows: "?rows = sorted_children (ms_children st)"
    using manifest_fold_rows(1) [OF st(1)] by (simp_all add: manifest_children_finish [OF st(2)])
  have keys: "distinct (map fst (ms_children st))" using ok by (simp add: rows_ok_def)
  have "distinct (map (\<lambda>c. sget c ''child_id'') ?rows)" by (simp add: rows sorted_children_ids [OF ok])
  from distinct_blocked_children [OF this] set_sorted_children [OF keys] blocked_children_sound(1)
  obtain es st' where es: "close_children log_append fr fanout_id m ?bs (failure_events ?rows) log = log @ es"
      "manifest_fold fanout_id es st = Inr st'" "rows_closed ?bs (ms_children st) (ms_children st')"
      "ms_manifest st' = ms_manifest st" "\<forall>e \<in> set es. ev_type e = JStr ''fanout.child.failed''"
    using closing_fold [OF ok, of ?bs] rows by metis
  have log': "log' = log @ es"
    using assms(2) es(1) by (auto simp: close_blocked_writer_dependencies_def Let_def split: if_splits)
  then have fold': "manifest_fold fanout_id log' \<lparr>ms_manifest = empty_manifest fanout_id, ms_children = []\<rparr> = Inr st'"
    using st(1) es(2) by (simp add: manifest_fold_append)
  then obtain m' where m': "finish_manifest log' st' = Inr m'"
    using finish_after_failures [OF st(1) _ es(5,4) st(2)] log' by blast
  have "distinct (map fst (ms_children st'))" using manifest_fold_rows(1) [OF fold'] by (simp add: rows_ok_def)
  note rows' = set_sorted_children [OF this, folded manifest_children_finish [OF m']]
  have "rebuild_manifest fanout_id log' = Inr m'" using fold' m' by (simp add: rebuild_manifest_def)
  moreover have "blocked_writer_children (manifest_children m') = []"
  proof (rule sweep_again [of _ ?rows])
    fix c'
    assume "c' \<in> set (manifest_children m')"
    then obtain i where "map_of (ms_children st') i = Some c'" using rows' by blast
    then show "\<exists>c \<in> set ?rows. row_closed ?bs c c'"
      using es(3) set_sorted_children [OF keys] rows unfolding rows_closed_def by metis
  qed
  ultimately show ?thesis by (simp add: close_blocked_writer_dependencies_def)
qed

definition demo_raw :: "string \<Rightarrow> string list \<Rightarrow> json" where
  "demo_raw task deps =
     JObj [(''child_id'', JStr (''c-'' @ task)), (''payload'', JObj [(''task_id'', JStr task), (''blocked_by'', JList (map JStr deps))])]"

definition demo_log :: "zf_event list" where
  "demo_log =
     [(new_event (''e0'', []) ''fanout.started'')\<lparr>ev_payload := JObj [(''fanout_id'', JStr ''f1''),
         (''expected_children'', JList [demo_raw ''A'' [], demo_raw ''B'' [''A''], demo_raw ''C'' [''B''], demo_raw ''D'' []])]\<rparr>,
      (new_event (''e1'', []) ''fanout.child.failed'')\<lparr>ev_payload := JObj [(''fanout_id'', JStr ''f1''), (''child_id'', JStr ''c-A''), (''task_id'', JStr ''A'')]\<rparr>]"

definition demo_rebuilt :: pydict where
  "demo_rebuilt = (case rebuild_manifest ''f1'' demo_log of Inr m \<Rightarrow> m | Inl _ \<Rightarrow> [])"

lemma demo_rebuilt_ok: "rebuild_manifest ''f1'' demo_log = Inr demo_rebuilt"
proof -
  have "\<not> isl (rebuild_manifest ''f1'' demo_log)" by code_simp
  then show ?thesis by (auto simp: demo_rebuilt_def split: sum.splits)
qed

theorem manifest_last_write_wins_witness:
  "map (\<lambda>c. sget c ''child_id'') (manifest_children demo_rebuilt) = sorted_list_of_set {i. last_status ''f1'' demo_log i \<noteq> None}
    \<and> list_all (\<lambda>c. last_status ''f1'' demo_log (sget c ''child_id'') = Some (sget c ''status'')) (manifest_children demo_rebuilt)
    \<and> map (\<lambda>c. sget c ''status'') (manifest_children demo_rebuilt) = [''failed'', ''pending'', ''pending'', ''pending'']"
proof -
  have "map (\<lambda>c. sget c ''status'') (manifest_children demo_rebuilt) = [''failed'', ''pending'', ''pending'', ''pending'']" by code_simp
  with manifest_last_write_wins [OF demo_rebuilt_ok] show ?thesis by (simp add: list_all_iff)
qed

definition demo_closed :: "bool \<times> zf_event list" where
  "demo_closed = close_blocked_writer_dependencies log_append (\<lambda>n. (''n'' @ show_nat n, [])) ''f1'' demo_rebuilt demo_log"

lemma demo_closed_changes: "fst demo_closed" "length (snd demo_closed) = 4"
  by code_simp+

theorem closing_converges_witness:
  "fst demo_closed \<and> (\<exists>m'. rebuild_manifest ''f1'' (snd demo_closed) = Inr m'
     \<and> close_blocked_writer_dependencies log_append (\<lambda>n. (''k'' @ show_nat n, [])) ''f1'' m' (snd demo_closed) = (False, snd demo_closed))"
  using closing_converges [OF demo_rebuilt_ok, of "\<lambda>n. (''n'' @ show_nat n, [])" "fst demo_closed" "snd demo_closed"] demo_closed_changes(1)
  by (auto simp: demo_closed_def)

section \<open>Two ids that meet\<close>

text \<open>The number that tells two children of the same role apart is written like a role's own name: the third role's child
  takes the id of the second one's, and the manifest keeps one row for both.\<close>

definition collision_context :: fanout_context where
  "collision_context = create_context ''review'' ''reader'' ''t'' ''evt-1'' ''ref'' [''dev'', ''dev'', ''dev-2''] []"

lemma child_ids_collide: "map fc_child_id (fx_expected_children collision_context) = [''dev'', ''dev-2'', ''dev-2'']"
  by code_simp

lemma manifest_loses_child:
  "map_sum id (map (\<lambda>c. sget c ''role_instance'') \<circ> manifest_children)
     (rebuild_manifest (fx_fanout_id collision_context) [started_event (''e0'', []) ''zf'' collision_context]) = Inr [''dev'', ''dev-2'']"
  by code_simp

end
