(* ===== verification/Dep_Graph.thy ===== *)
theory Dep_Graph
  imports Py_Base
begin

text \<open>
  Dependency graphs: what the walks over dependencies of the code have in common. A graph has a list of vertices and, for each
  vertex, the list of the vertices it depends on. The question graph of a channel and the task map of a
  workflow interpret the locale.
\<close>

section \<open>Orders\<close>

text \<open>A list of vertices, the last one first, in which every vertex comes after its dependencies.\<close>

fun settled_order :: "('a \<Rightarrow> 'a list) \<Rightarrow> 'a list \<Rightarrow> bool" where
  "settled_order deps [] = True"
| "settled_order deps (x # xs) = (x \<notin> set xs \<and> set (deps x) \<subseteq> set xs \<and> settled_order deps xs)"

lemma settled_order_closed: "settled_order deps xs \<Longrightarrow> x \<in> set xs \<Longrightarrow> set (deps x) \<subseteq> set xs"
  by (induction xs) auto

lemma settled_order_distinct: "settled_order deps xs \<Longrightarrow> distinct xs"
  by (induction xs) auto

lemma settled_order_position:
  assumes "settled_order deps xs" and "x \<in> set xs" and "y \<in> set (deps x)"
  shows "length (dropWhile (\<lambda>z. z \<noteq> y) xs) < length (dropWhile (\<lambda>z. z \<noteq> x) xs)"
  using assms
proof (induction xs)
  case (Cons z zs)
  have y: "y \<in> set zs"
    using Cons.prems settled_order_closed [of deps zs x] by (cases "x = z") auto
  then have "dropWhile (\<lambda>v. v \<noteq> y) (z # zs) = dropWhile (\<lambda>v. v \<noteq> y) zs" using Cons.prems(1) by auto
  moreover have "length (dropWhile (\<lambda>v. v \<noteq> y) zs) \<le> length zs" by (rule length_dropWhile_le)
  ultimately show ?case using Cons by (cases "x = z") auto
qed simp

section \<open>Graphs\<close>

definition dep_edges :: "'a list \<Rightarrow> ('a \<Rightarrow> 'a list) \<Rightarrow> ('a \<times> 'a) set" where
  "dep_edges vs deps = {(x, y). x \<in> set vs \<and> y \<in> set (deps x) \<and> y \<in> set vs}"

locale dependency_graph =
  fixes vertices :: "'g \<Rightarrow> 'a list" and deps :: "'g \<Rightarrow> 'a \<Rightarrow> 'a list"
  assumes distinct_deps: "distinct (deps g x)"
    and foreign_deps: "x \<notin> set (vertices g) \<Longrightarrow> deps g x = []"
begin

lemma edges_subset: "dep_edges (vertices g) (deps g) \<subseteq> set (vertices g) \<times> set (vertices g)"
  by (auto simp: dep_edges_def)

lemma finite_edges: "finite (dep_edges (vertices g) (deps g))"
  by (rule finite_subset [OF edges_subset]) simp

text \<open>In an acyclic graph some vertex of any set depends on nothing in the set.\<close>

lemma free_vertex:
  assumes "acyclic (dep_edges (vertices g) (deps g))" and "S \<subseteq> set (vertices g)" and "S \<noteq> {}"
  shows "\<exists>x \<in> S. set (deps g x) \<inter> S = {}"
proof -
  have "wf ((dep_edges (vertices g) (deps g))\<inverse>)" using finite_acyclic_wf_converse [OF finite_edges assms(1)] .
  moreover obtain s where "s \<in> S" using assms(3) by blast
  ultimately obtain x where x: "x \<in> S" "\<And>y. (y, x) \<in> (dep_edges (vertices g) (deps g))\<inverse> \<Longrightarrow> y \<notin> S" by (rule wfE_min) blast
  then have "y \<notin> S" if "y \<in> set (deps g x)" for y
    using that assms(2) by (auto simp: dep_edges_def)
  with x(1) show ?thesis by blast
qed

lemma ordered_acyclic:
  assumes "settled_order (deps g) xs" and "set (vertices g) \<subseteq> set xs"
  shows "acyclic (dep_edges (vertices g) (deps g))"
proof (rule acyclicI_order [where f = "\<lambda>x. length (dropWhile (\<lambda>z. z \<noteq> x) xs)"])
  fix x y assume "(x, y) \<in> dep_edges (vertices g) (deps g)"
  then show "length (dropWhile (\<lambda>z. z \<noteq> y) xs) < length (dropWhile (\<lambda>z. z \<noteq> x) xs)"
    using edges_subset assms by (intro settled_order_position) (auto simp: dep_edges_def)
qed

end

end
