(* ===== verification/Question_Graph.thy ===== *)
theory Question_Graph
  imports Dep_Graph Py_Json Py_Hash
begin

text \<open>
  \<open>runtime/channel_question_graph.py\<close>: the questions of a channel and their dependencies. Questions are normalised when they are asked, the
  graph of the whole channel is checked before it is accepted (\<open>runtime/channel_projection.py\<close>), and the frontier is the list of open questions of
  one thread that can be answered now.
  A missing channel is the empty dictionary.
\<close>

section \<open>Normalisation\<close>

definition QUESTION_KINDS :: "string list" where
  "QUESTION_KINDS = [''fact'', ''owner_decision'', ''tradeoff'', ''clarification'', ''revision_request'']"

definition QUESTION_PRIORITIES :: "string list" where
  "QUESTION_PRIORITIES = [''p0'', ''p1'', ''p2'', ''p3'']"

definition OWNER_QUESTION_KINDS :: "string list" where
  "OWNER_QUESTION_KINDS = [''owner_decision'', ''tradeoff'', ''clarification'']"

text \<open>\<open>s.split()\<close>: the words between white space.\<close>

function split_words :: "string \<Rightarrow> string list" where
  "split_words s =
     (let t = lstrip s in
      if t = [] then [] else takeWhile (\<lambda>c. \<not> is_space c) t # split_words (dropWhile (\<lambda>c. \<not> is_space c) t))"
  by pat_completeness auto
termination
proof (relation "measure length")
  fix s t :: string
  assume t: "t = lstrip s" "t \<noteq> []"
  then have "\<not> is_space (hd t)" using hd_dropWhile [of is_space s] by (simp add: lstrip_def)
  then have "length (dropWhile (\<lambda>c. \<not> is_space c) t) < length t"
    using t(2) by (cases t) (auto simp: le_imp_less_Suc length_dropWhile_le)
  moreover have "length t \<le> length s" by (simp add: t(1) lstrip_def length_dropWhile_le)
  ultimately show "(dropWhile (\<lambda>c. \<not> is_space c) t, s) \<in> measure length" by simp
qed simp

declare split_words.simps [simp del]

definition question_text_identity :: "json \<Rightarrow> string" where
  "question_text_identity v = lower (join '' '' (split_words (text_of v)))"

definition string_list :: "json \<Rightarrow> nat \<Rightarrow> string list" where
  "string_list v limit = take limit (fromkeys (filter (\<lambda>s. s \<noteq> []) (map (\<lambda>x. strip (py_str x)) (filter is_str (as_list v)))))"

definition question_option :: "nat \<Rightarrow> pydict \<Rightarrow> pydict" where
  "question_option i raw =
     (let label = strip (sget raw ''label'') in
      [(''id'', JStr (strip (sget_or raw ''id'' (''option-'' @ show_nat i)))), (''label'', JStr label),
       (''description'', JStr (strip (sget raw ''description''))),
       (''recommended'', JBool (truthy (dict_get raw ''recommended'') \<or> contains (lower label) ''(recommended)''
          \<or> contains label [CHR ''('', CHR 0xE6, CHR 0x8E, CHR 0xA8, CHR 0xE8, CHR 0x8D, CHR 0x90, CHR '')'']))])"

text \<open>The loop over the options, with the options so far.\<close>

fun read_options :: "nat \<Rightarrow> pydict list \<Rightarrow> json list \<Rightarrow> string + pydict list" where
  "read_options i done [] = Inr done"
| "read_options i done (v # vs) =
     (if \<not> is_dict v then Inl ''question_options_must_be_objects''
      else
        (let o' = question_option i (as_dict v); oid = sget o' ''id'' in
         if oid = [] \<or> sget o' ''label'' = [] then Inl ''question_options_require_id_and_label''
         else if oid = ''other'' \<or> oid \<in> set (map (\<lambda>p. sget p ''id'') done) then Inl (''invalid_question_option_id:'' @ oid)
         else read_options (Suc i) (done @ [o']) vs))"

definition is_recommended :: "pydict \<Rightarrow> bool" where
  "is_recommended p = truthy (dict_get p ''recommended'')"

definition recommend_first :: "pydict list \<Rightarrow> pydict list \<times> string" where
  "recommend_first ps =
     (case filter (\<lambda>i. is_recommended (ps ! i)) [0..<length ps] of
        [] \<Rightarrow> (case ps of [] \<Rightarrow> [] | p # qs \<Rightarrow> dict_set p ''recommended'' (JBool True) # qs, [])
      | [i] \<Rightarrow> ((if i = 0 then ps else ps ! i # take i ps @ drop (Suc i) ps), [])
      | _ \<Rightarrow> ([], ''question_options_allow_one_recommendation''))"

definition normalize_question_options :: "json \<Rightarrow> pydict list \<times> string" where
  "normalize_question_options v =
     (if v \<in> {JNull, JStr [], JList []} then ([], [])
      else if \<not> is_list v then ([], ''question_options_must_be_a_list'')
      else if \<not> (2 \<le> length (as_list v) \<and> length (as_list v) \<le> 3) then ([], ''question_options_require_two_or_three_items'')
      else (case read_options 1 [] (as_list v) of Inl e \<Rightarrow> ([], e) | Inr ps \<Rightarrow> recommend_first ps))"

definition question_target :: "string \<Rightarrow> pydict \<Rightarrow> string" where
  "question_target kind raw =
     (let t = strip (sget_or raw ''target_member_id'' ''owner'') in
      if kind \<in> set OWNER_QUESTION_KINDS \<and> t \<in> {''operator'', ''owner:operator''} then ''owner'' else t)"

definition raw_dependencies :: "pydict \<Rightarrow> json" where
  "raw_dependencies raw = (let v = dict_get raw ''depends_on'' in if v = JNull \<or> v = JStr [] then JList [] else v)"

definition normalized_question :: "pydict \<Rightarrow> string \<Rightarrow> string \<Rightarrow> string \<Rightarrow> string \<Rightarrow> string \<Rightarrow> string \<Rightarrow> pydict list \<Rightarrow> pydict" where
  "normalized_question raw question_id question asked_by kind priority target options =
     [(''question_id'', JStr (strip question_id)), (''question'', JStr (strip question)),
      (''category'', JStr (strip (sget_or raw ''category'' ''clarification''))), (''kind'', JStr kind),
      (''depends_on'', JList (map JStr (string_list (raw_dependencies raw) 16))), (''priority'', JStr priority),
      (''why_it_matters'', JStr (strip (sget raw ''why_it_matters''))),
      (''recommended_answer'', JStr (strip (sget raw ''recommended_answer''))), (''options'', JList (map JObj options)),
      (''allow_other'', JBool (truthy (case map_of raw ''allow_other'' of None \<Rightarrow> JBool True | Some v \<Rightarrow> v))),
      (''target_member_id'', JStr (str_or target ''owner'')), (''asked_by'', JStr (strip asked_by))]"

definition normalize_question_payload :: "pydict \<Rightarrow> string \<Rightarrow> string \<Rightarrow> string \<Rightarrow> string list \<Rightarrow> pydict \<times> string" where
  "normalize_question_payload raw question_id question asked_by members =
     (let kind = lower (strip (sget_or raw ''kind'' ''owner_decision''));
          priority = lower (strip (sget_or raw ''priority'' ''p1''));
          target = question_target kind raw;
          known = filter (\<lambda>s. s \<noteq> []) (map strip members);
          deps = raw_dependencies raw;
          (options, option_error) = normalize_question_options (dict_get raw ''options'') in
      if kind \<notin> set QUESTION_KINDS then ([], ''invalid_question_kind:'' @ kind)
      else if priority \<notin> set QUESTION_PRIORITIES then ([], ''invalid_question_priority:'' @ priority)
      else if target \<noteq> [] \<and> target \<noteq> ''owner'' \<and> known \<noteq> [] \<and> target \<notin> set known then ([], ''unknown_question_target:'' @ target)
      else if kind = ''fact'' \<and> target = ''owner'' then ([], ''fact_question_requires_member_target'')
      else if \<not> is_list deps then ([], ''question_dependencies_must_be_a_list'')
      else if length (string_list deps 16) \<noteq> length (as_list deps) then ([], ''question_dependencies_must_be_non_empty_strings'')
      else if option_error \<noteq> [] then ([], option_error)
      else if strip question_id = [] then ([], ''question_id_required'')
      else if strip question = [] then ([], ''question_text_required'')
      else (normalized_question raw question_id question asked_by kind priority target options, []))"

text \<open>Accepted options come as two or three with ids of their own, the recommended one first and alone.\<close>

lemma read_options_ok:
  assumes "read_options i done vs = Inr ps" and "distinct (map (\<lambda>p. sget p ''id'') done)" and "''other'' \<notin> set (map (\<lambda>p. sget p ''id'') done)"
  shows "length ps = length done + length vs \<and> distinct (map (\<lambda>p. sget p ''id'') ps) \<and> ''other'' \<notin> set (map (\<lambda>p. sget p ''id'') ps)"
  using assms
proof (induction i "done" vs rule: read_options.induct)
  case (2 i "done" v vs)
  let ?o = "question_option i (as_dict v)"
  have v: "is_dict v" "\<not> (sget ?o ''id'' = [] \<or> sget ?o ''label'' = [])"
      "\<not> (sget ?o ''id'' = ''other'' \<or> sget ?o ''id'' \<in> set (map (\<lambda>p. sget p ''id'') done))" "read_options (Suc i) (done @ [?o]) vs = Inr ps"
    using "2.prems"(1) by (auto simp: Let_def split: if_splits)
  have "''other'' \<noteq> sget ?o ''id''" using v(3) by auto
  with v show ?case using "2.IH" [OF _ refl refl v(2,3) v(4)] "2.prems"(2,3) by simp
qed simp

lemma recommended_index:
  assumes "filter (\<lambda>i. is_recommended (ps ! i)) [0..<length ps] = is"
  shows "set is = {i. i < length ps \<and> is_recommended (ps ! i)}"
  using arg_cong [OF assms, of set] by auto

lemma recommend_first_ok:
  assumes "recommend_first ps = (qs, [])" and "ps \<noteq> []"
  shows "mset (map (\<lambda>p. sget p ''id'') qs) = mset (map (\<lambda>p. sget p ''id'') ps) \<and> is_recommended (hd qs) \<and> (\<forall>q \<in> set (tl qs). \<not> is_recommended q)"
proof -
  let ?is = "filter (\<lambda>i. is_recommended (ps ! i)) [0..<length ps]"
  obtain p ps' where ps: "ps = p # ps'" using assms(2) by (cases ps) auto
  consider (none) "?is = []" | (one) i where "?is = [i]"
    using assms(1) by (auto simp: recommend_first_def split: list.splits)
  then show ?thesis
  proof cases
    case none
    then have "\<not> is_recommended q" if "q \<in> set ps" for q using recommended_index [OF none] that by (auto simp: in_set_conv_nth)
    moreover have "qs = dict_set p ''recommended'' (JBool True) # ps'" using assms(1) none by (simp add: recommend_first_def ps)
    ultimately show ?thesis by (simp add: ps is_recommended_def)
  next
    case one
    have i: "i < length ps" "is_recommended (ps ! i)" "\<And>j. j < length ps \<Longrightarrow> j \<noteq> i \<Longrightarrow> \<not> is_recommended (ps ! j)"
      using recommended_index [OF one] by auto
    have split: "ps = take i ps @ ps ! i # drop (Suc i) ps" using i(1) by (rule id_take_nth_drop)
    have qs: "qs = ps ! i # take i ps @ drop (Suc i) ps" using assms(1) one by (auto simp: recommend_first_def ps split: if_splits)
    have "mset ps = mset qs" by (subst split) (simp add: qs)
    moreover have "\<not> is_recommended q" if "q \<in> set (take i ps @ drop (Suc i) ps)" for q
      using that i(3) by (auto simp: in_set_conv_nth)
    ultimately show ?thesis using i(2) qs by (metis list.sel(1,3) mset_map)
  qed
qed

lemma question_options_ok:
  assumes "normalize_question_options v = (qs, [])" and "qs \<noteq> []"
  shows "2 \<le> length qs \<and> length qs \<le> 3 \<and> distinct (map (\<lambda>p. sget p ''id'') qs) \<and> ''other'' \<notin> set (map (\<lambda>p. sget p ''id'') qs)
    \<and> is_recommended (hd qs) \<and> (\<forall>q \<in> set (tl qs). \<not> is_recommended q)"
proof -
  obtain ps where ps: "read_options 1 [] (as_list v) = Inr ps" "recommend_first ps = (qs, [])" "2 \<le> length (as_list v)" "length (as_list v) \<le> 3"
    using assms by (auto simp: normalize_question_options_def split: if_splits sum.splits)
  note ok = read_options_ok [OF ps(1)]
  then have "ps \<noteq> []" using ps(3) by auto
  note first = recommend_first_ok [OF ps(2) this]
  have "distinct (map (\<lambda>p. sget p ''id'') qs) \<longleftrightarrow> distinct (map (\<lambda>p. sget p ''id'') ps)" using first mset_eq_imp_distinct_iff by blast
  moreover have "set (map (\<lambda>p. sget p ''id'') qs) = set (map (\<lambda>p. sget p ''id'') ps)" using first mset_eq_setD by blast
  moreover have "length qs = length ps" using first by (metis length_map mset_eq_length)
  ultimately show ?thesis using ok first ps(3,4) by simp
qed

section \<open>The graph\<close>

type_synonym by_id = "(string \<times> pydict) list"

definition question_id :: "pydict \<Rightarrow> string" where
  "question_id q = strip (sget q ''question_id'')"

definition question_deps :: "pydict \<Rightarrow> string list" where
  "question_deps q = string_list (dict_get q ''depends_on'') 16"

definition deps_of :: "by_id \<Rightarrow> string \<Rightarrow> string list" where
  "deps_of tab i = (case map_of tab i of None \<Rightarrow> [] | Some q \<Rightarrow> question_deps q)"

fun index_questions :: "by_id \<Rightarrow> pydict list \<Rightarrow> string + by_id" where
  "index_questions tab [] = Inr tab"
| "index_questions tab (q # qs) =
     (let i = question_id q in
      if i = [] then Inl ''question_id_required''
      else if i \<in> set (map fst tab) then Inl (''duplicate_question_id:'' @ i)
      else index_questions (tab @ [(i, q)]) qs)"

fun dependency_error :: "string list \<Rightarrow> string \<Rightarrow> string list \<Rightarrow> string option" where
  "dependency_error ids i [] = None"
| "dependency_error ids i (d # ds) =
     (if d = i then Some (''question_self_dependency:'' @ i)
      else if d \<notin> set ids then Some (''unknown_question_dependency:'' @ i @ '':'' @ d)
      else dependency_error ids i ds)"

fun dependency_errors :: "string list \<Rightarrow> by_id \<Rightarrow> string option" where
  "dependency_errors ids [] = None"
| "dependency_errors ids ((i, q) # rest) =
     (case dependency_error ids i (question_deps q) of Some e \<Rightarrow> Some e | None \<Rightarrow> dependency_errors ids rest)"

text \<open>\<open>visit\<close> and its loop. A vertex is in \<open>visiting\<close> from the call on it to the return from it, so \<open>visiting\<close> is an
  argument, and \<open>visited\<close> is threaded through. \<open>by_id[question_id]\<close> would raise on an unknown question; the checks before leave none.\<close>

function visit :: "by_id \<Rightarrow> string list \<Rightarrow> string list \<Rightarrow> string \<Rightarrow> string + string list"
  and visit_all :: "by_id \<Rightarrow> string list \<Rightarrow> string list \<Rightarrow> string list \<Rightarrow> string + string list" where
  "visit tab visiting visited i =
     (if i \<in> set visited then Inr visited
      else if i \<in> set visiting then Inl (''question_dependency_cycle:'' @ i)
      else if i \<notin> set (map fst tab) then Inl (''KeyError:'' @ i)
      else (case visit_all tab (i # visiting) visited (deps_of tab i) of
              Inl e \<Rightarrow> Inl e
            | Inr visited' \<Rightarrow> Inr (i # visited')))"
| "visit_all tab visiting visited [] = Inr visited"
| "visit_all tab visiting visited (d # ds) =
     (case visit tab visiting visited d of
        Inl e \<Rightarrow> Inl e
      | Inr visited' \<Rightarrow> visit_all tab visiting visited' ds)"
  by pat_completeness auto
termination
proof (relation "inv_image (less_than <*lex*> less_than) (\<lambda>x. case x of
    Inl (tab, visiting, visited, i) \<Rightarrow> (card (set (map fst tab) - set visiting), 0)
  | Inr (tab, visiting, visited, ds) \<Rightarrow> (card (set (map fst tab) - set visiting), Suc (length ds)))")
  fix tab :: by_id and visiting visited :: "string list" and i
  assume "i \<notin> set visiting" "\<not> i \<notin> set (map fst tab)"
  then have "card (set (map fst tab) - set (i # visiting)) < card (set (map fst tab) - set visiting)"
    by (intro psubset_card_mono) auto
  then show "(Inr (tab, i # visiting, visited, deps_of tab i), Inl (tab, visiting, visited, i)) \<in> inv_image (less_than <*lex*> less_than) (\<lambda>x. case x of
    Inl (tab, visiting, visited, i) \<Rightarrow> (card (set (map fst tab) - set visiting), 0)
  | Inr (tab, visiting, visited, ds) \<Rightarrow> (card (set (map fst tab) - set visiting), Suc (length ds)))" by simp
qed auto

declare visit.simps [simp del]

definition validate_question_graph :: "pydict list \<Rightarrow> string" where
  "validate_question_graph qs =
     (case index_questions [] qs of
        Inl e \<Rightarrow> e
      | Inr tab \<Rightarrow>
          (case dependency_errors (map fst tab) tab of
             Some e \<Rightarrow> e
           | None \<Rightarrow> (case visit_all tab [] [] (sort (map fst tab)) of Inl e \<Rightarrow> e | Inr _ \<Rightarrow> [])))"

section \<open>The graph check is exact\<close>

interpretation qg: dependency_graph "map fst" deps_of
proof
  fix tab x
  show "distinct (deps_of tab x)" by (simp add: deps_of_def question_deps_def string_list_def split: option.split)
  show "x \<notin> set (map fst tab) \<Longrightarrow> deps_of tab x = []"
    by (simp add: deps_of_def map_of_eq_None_iff [THEN iffD2])
qed

lemma visit_sound:
  "visit tab visiting visited i = Inr vs \<Longrightarrow> settled_order (deps_of tab) visited \<Longrightarrow> set visited \<inter> set visiting = {} \<Longrightarrow>
     settled_order (deps_of tab) vs \<and> set visited \<subseteq> set vs \<and> i \<in> set vs \<and> set vs \<inter> set visiting = {}"
  "visit_all tab visiting visited ds = Inr vs \<Longrightarrow> settled_order (deps_of tab) visited \<Longrightarrow> set visited \<inter> set visiting = {} \<Longrightarrow>
     settled_order (deps_of tab) vs \<and> set visited \<subseteq> set vs \<and> set ds \<subseteq> set vs \<and> set vs \<inter> set visiting = {}"
proof (induction tab visiting visited i and tab visiting visited ds arbitrary: vs and vs rule: visit_visit_all.induct)
  case (1 tab visiting visited i)
  show ?case
  proof (cases "i \<in> set visited")
    case True
    then show ?thesis using "1.prems" by (simp add: visit.simps)
  next
    case False
    then obtain vs' where vs': "i \<notin> set visiting" "i \<in> set (map fst tab)"
        "visit_all tab (i # visiting) visited (deps_of tab i) = Inr vs'" "vs = i # vs'"
      using "1.prems"(1) by (subst (asm) visit.simps) (auto split: if_splits sum.splits)
    have "settled_order (deps_of tab) vs' \<and> set visited \<subseteq> set vs' \<and> set (deps_of tab i) \<subseteq> set vs' \<and> set vs' \<inter> set (i # visiting) = {}"
      using "1.IH" [OF False vs'(1) _ vs'(3)] vs'(2) False "1.prems"(2,3) by auto
    then show ?thesis using vs'(1,4) by auto
  qed
next
  case (3 tab visiting visited d ds)
  then obtain vs' where vs': "visit tab visiting visited d = Inr vs'" "visit_all tab visiting vs' ds = Inr vs"
    by (auto split: sum.splits)
  have "settled_order (deps_of tab) vs' \<and> set visited \<subseteq> set vs' \<and> d \<in> set vs' \<and> set vs' \<inter> set visiting = {}"
    using "3.IH"(1) [OF vs'(1)] "3.prems"(2,3) by blast
  then show ?case using "3.IH"(2) [OF vs'(1) vs'(2)] by auto
qed simp

lemma visit_complete:
  fixes tab0
  defines "V \<equiv> set (map fst tab0)" and "E \<equiv> dep_edges (map fst tab0) (deps_of tab0)"
  assumes closed: "\<And>x. x \<in> V \<Longrightarrow> set (deps_of tab0 x) \<subseteq> V" and acyclic: "acyclic E"
  shows "tab = tab0 \<Longrightarrow> i \<in> V \<Longrightarrow> \<forall>v \<in> set visiting. (v, i) \<in> E\<^sup>+ \<Longrightarrow> \<exists>vs. visit tab visiting visited i = Inr vs"
    and "tab = tab0 \<Longrightarrow> set ds \<subseteq> V \<Longrightarrow> \<forall>d \<in> set ds. \<forall>v \<in> set visiting. (v, d) \<in> E\<^sup>+ \<Longrightarrow> \<exists>vs. visit_all tab visiting visited ds = Inr vs"
proof (induction tab visiting visited i and tab visiting visited ds rule: visit_visit_all.induct)
  case (1 tab visiting visited i)
  show ?case
  proof (cases "i \<in> set visited")
    case True
    then show ?thesis by (simp add: visit.simps)
  next
    case False
    have fresh: "i \<notin> set visiting" using "1.prems"(3) acyclic by (auto simp: acyclic_def)
    have step: "(i, d) \<in> E" if "d \<in> set (deps_of tab i)" for d
      using that closed "1.prems"(1,2) by (auto simp: E_def V_def dep_edges_def)
    have "\<exists>vs. visit_all tab (i # visiting) visited (deps_of tab i) = Inr vs"
    proof (rule "1.IH" [OF False fresh])
      show "\<not> i \<notin> set (map fst tab)" "set (deps_of tab i) \<subseteq> V" using "1.prems"(1,2) closed by (auto simp: V_def)
      show "\<forall>d \<in> set (deps_of tab i). \<forall>v \<in> set (i # visiting). (v, d) \<in> E\<^sup>+"
        using step "1.prems"(3) by (auto intro: trancl_into_trancl)
    qed fact
    then show ?thesis using False fresh "1.prems"(1,2) by (subst visit.simps) (auto simp: V_def)
  qed
next
  case (3 tab visiting visited d ds)
  then obtain vs where vs: "visit tab visiting visited d = Inr vs" by auto
  then show ?case using "3.IH"(2) [OF vs] "3.prems" by simp
qed simp

lemma visit_error:
  "visit tab visiting visited i = Inl e \<Longrightarrow> e \<noteq> []" "visit_all tab visiting visited ds = Inl e \<Longrightarrow> e \<noteq> []"
proof (induction tab visiting visited i and tab visiting visited ds arbitrary: e and e rule: visit_visit_all.induct)
  case (1 tab visiting visited i)
  then show ?case by (auto simp: visit.simps [of tab visiting visited i] split: if_splits sum.splits)
qed (auto split: sum.splits)

definition question_table :: "pydict list \<Rightarrow> by_id" where
  "question_table qs = map (\<lambda>q. (question_id q, q)) qs"

lemma index_questions_ok:
  "[] \<notin> set (map question_id qs) \<Longrightarrow> distinct (map question_id qs) \<Longrightarrow> set (map fst tab) \<inter> set (map question_id qs) = {} \<Longrightarrow>
     index_questions tab qs = Inr (tab @ question_table qs)"
  by (induction tab qs rule: index_questions.induct) (auto simp: question_table_def Let_def)

lemma index_questions_Inr: "index_questions tab qs = Inr t \<Longrightarrow>
     [] \<notin> set (map question_id qs) \<and> distinct (map question_id qs) \<and> set (map fst tab) \<inter> set (map question_id qs) = {}"
proof (induction tab qs rule: index_questions.induct)
  case (2 tab q qs)
  then show ?case by (simp add: Let_def split: if_splits)
qed simp

lemma index_questions_Inl: "index_questions tab qs = Inl e \<Longrightarrow> e \<noteq> []"
proof (induction tab qs rule: index_questions.induct)
  case (2 tab q qs)
  then show ?case by (auto simp: Let_def split: if_splits)
qed simp

lemma dependency_error_iff:
  "dependency_error ids i ds = None \<longleftrightarrow> i \<notin> set ds \<and> set ds \<subseteq> set ids"
  "dependency_error ids i ds = Some e \<Longrightarrow> e \<noteq> [] \<and> \<not> (i \<notin> set ds \<and> set ds \<subseteq> set ids)"
  by (induction ids i ds rule: dependency_error.induct) (auto split: if_splits)

lemma dependency_errors_iff:
  "dependency_errors ids tab = None \<longleftrightarrow> (\<forall>r \<in> set tab. fst r \<notin> set (question_deps (snd r)) \<and> set (question_deps (snd r)) \<subseteq> set ids)"
  "dependency_errors ids tab = Some e \<Longrightarrow> e \<noteq> []"
  by (induction ids tab rule: dependency_errors.induct) (auto simp: dependency_error_iff(1) dest: dependency_error_iff(2) split: option.splits)

lemma deps_of_table:
  assumes "distinct (map question_id qs)" and "q \<in> set qs"
  shows "deps_of (question_table qs) (question_id q) = question_deps q"
proof -
  have "map_of (question_table qs) (question_id q) = Some q"
    using assms by (intro map_of_is_SomeI) (auto simp: question_table_def comp_def)
  then show ?thesis by (simp add: deps_of_def)
qed

lemma question_edges:
  assumes "distinct (map question_id qs)" and "\<forall>q \<in> set qs. set (question_deps q) \<subseteq> set (map question_id qs)"
  shows "dep_edges (map fst (question_table qs)) (deps_of (question_table qs)) = {(question_id q, d) | q d. q \<in> set qs \<and> d \<in> set (question_deps q)}"
  using assms deps_of_table [OF assms(1)] by (fastforce simp: dep_edges_def question_table_def)

lemma visit_all_iff_acyclic:
  assumes "\<And>x. x \<in> set (map fst tab) \<Longrightarrow> set (deps_of tab x) \<subseteq> set (map fst tab)"
  shows "(\<exists>vs. visit_all tab [] [] (sort (map fst tab)) = Inr vs) \<longleftrightarrow> acyclic (dep_edges (map fst tab) (deps_of tab))"
proof
  assume "\<exists>vs. visit_all tab [] [] (sort (map fst tab)) = Inr vs"
  then obtain vs where "settled_order (deps_of tab) vs" "set (map fst tab) \<subseteq> set vs"
    using visit_sound(2) [of tab "[]" "[]"] by fastforce
  then show "acyclic (dep_edges (map fst tab) (deps_of tab))" by (rule qg.ordered_acyclic)
next
  assume "acyclic (dep_edges (map fst tab) (deps_of tab))"
  then show "\<exists>vs. visit_all tab [] [] (sort (map fst tab)) = Inr vs"
    using visit_complete(2) [OF assms _ refl, of "sort (map fst tab)" "[]" "[]"] by simp
qed

lemma question_graph_iff:
  "validate_question_graph qs = [] \<longleftrightarrow>
     [] \<notin> set (map question_id qs) \<and> distinct (map question_id qs)
     \<and> (\<forall>q \<in> set qs. set (question_deps q) \<subseteq> set (map question_id qs))
     \<and> acyclic {(question_id q, d) | q d. q \<in> set qs \<and> d \<in> set (question_deps q)}"
proof (cases "[] \<notin> set (map question_id qs) \<and> distinct (map question_id qs)")
  case ids: True
  let ?tab = "question_table qs" and ?E = "{(question_id q, d) | q d. q \<in> set qs \<and> d \<in> set (question_deps q)}"
  have index: "index_questions [] qs = Inr ?tab" using ids index_questions_ok [of qs "[]"] by simp
  have keys: "map fst ?tab = map question_id qs" by (simp add: question_table_def)
  show ?thesis
  proof (cases "dependency_errors (map fst ?tab) ?tab")
    case None
    then have closed: "\<forall>q \<in> set qs. set (question_deps q) \<subseteq> set (map question_id qs)"
      by (auto simp: dependency_errors_iff keys question_table_def)
    then have "x \<in> set (map fst ?tab) \<Longrightarrow> set (deps_of ?tab x) \<subseteq> set (map fst ?tab)" for x
      using ids deps_of_table [of qs] by (metis (no_types, lifting) imageE keys list.set_map)
    from visit_all_iff_acyclic [OF this] question_edges [OF _ closed] ids
    have "(\<exists>vs. visit_all ?tab [] [] (sort (map fst ?tab)) = Inr vs) \<longleftrightarrow> acyclic ?E" by simp
    moreover have "validate_question_graph qs = [] \<longleftrightarrow> (\<exists>vs. visit_all ?tab [] [] (sort (map fst ?tab)) = Inr vs)"
      using visit_error(2) [of ?tab "[]" "[]" "sort (map fst ?tab)"]
      by (cases "visit_all ?tab [] [] (sort (map fst ?tab))") (auto simp: validate_question_graph_def index None)
    ultimately show ?thesis using ids closed by simp
  next
    case (Some e)
    have "\<not> (acyclic ?E \<and> (\<forall>q \<in> set qs. set (question_deps q) \<subseteq> set (map question_id qs)))"
    proof
      assume *: "acyclic ?E \<and> (\<forall>q \<in> set qs. set (question_deps q) \<subseteq> set (map question_id qs))"
      then have "question_id q \<notin> set (question_deps q)" if "q \<in> set qs" for q
        using that by (auto simp: acyclic_def intro: r_into_trancl)
      with * have "dependency_errors (map fst ?tab) ?tab = None" by (auto simp: dependency_errors_iff keys question_table_def)
      with Some show False by simp
    qed
    then show ?thesis using Some dependency_errors_iff(2) [OF Some] by (auto simp: validate_question_graph_def index)
  qed
next
  case False
  then obtain e where "index_questions [] qs = Inl e" using index_questions_Inr [of "[]" qs] by (cases "index_questions [] qs") auto
  then show ?thesis using False index_questions_Inl by (auto simp: validate_question_graph_def)
qed

section \<open>The frontier\<close>

definition thread_questions :: "pydict \<Rightarrow> string \<Rightarrow> pydict list res" where
  "thread_questions channel thread =
     (let raw = py_or (dict_get channel ''open_questions'') (JList []) in
      map_sum id
        (\<lambda>vs. sort_key (\<lambda>q. sget q ''question_id'')
           (filter (\<lambda>q. sget_or q ''thread_id'' ''main'' = thread \<and> sget q ''question_id'' \<noteq> []) (map as_dict (filter is_dict vs))))
        (case raw of JObj d \<Rightarrow> Inr (map snd d) | _ \<Rightarrow> py_list raw))"

definition record_table :: "pydict list \<Rightarrow> by_id" where
  "record_table rs = fold (\<lambda>r tab. AList.update (sget r ''question_id'') r tab) (filter (\<lambda>r. sget r ''question_id'' \<noteq> []) rs) []"

function dependency_settled :: "by_id \<Rightarrow> string list \<Rightarrow> string \<Rightarrow> bool" where
  "dependency_settled tab seen i =
     (if i \<in> set seen then False
      else (case map_of tab i of
              None \<Rightarrow> False
            | Some q \<Rightarrow>
                if sget q ''status'' = ''resolved'' then True
                else if sget q ''status'' \<noteq> ''merged'' \<or> sget q ''merged_into'' = [] then False
                else dependency_settled tab (i # seen) (sget q ''merged_into'')))"
  by pat_completeness auto
termination
proof (relation "measure (\<lambda>(tab, seen, i). card (set (map fst tab) - set seen))")
  fix tab :: by_id and seen :: "string list" and i q
  assume "i \<notin> set seen" "map_of tab i = Some q"
  then have "i \<in> set (map fst tab) - set seen" by (auto dest: map_of_SomeD intro: rev_image_eqI)
  then have "set (map fst tab) - set (i # seen) \<subset> set (map fst tab) - set seen" by auto
  then show "((tab, i # seen, sget q ''merged_into''), tab, seen, i) \<in> measure (\<lambda>(tab, seen, i). card (set (map fst tab) - set seen))"
    by (simp add: psubset_card_mono)
qed simp

declare dependency_settled.simps [simp del]

definition priority_order :: "string \<Rightarrow> nat" where
  "priority_order p = (if p = ''p0'' then 0 else if p = ''p2'' then 2 else if p = ''p3'' then 3 else 1)"

definition question_sort_key :: "pydict \<Rightarrow> nat \<times> string" where
  "question_sort_key q = (priority_order (sget_or q ''priority'' ''p1''), sget q ''question_id'')"

definition is_open_question :: "pydict \<Rightarrow> bool" where
  "is_open_question q \<longleftrightarrow> sget q ''status'' = ''open''"

definition frontier_of :: "pydict list \<Rightarrow> pydict list" where
  "frontier_of rs =
     sort_key question_sort_key (filter (\<lambda>r. is_open_question r \<and> list_all (dependency_settled (record_table rs) []) (question_deps r)) rs)"

definition question_frontier :: "pydict \<Rightarrow> string \<Rightarrow> pydict list res" where
  "question_frontier channel thread = map_sum id frontier_of (thread_questions channel thread)"

definition owner_questionnaire :: "pydict \<Rightarrow> string \<Rightarrow> pydict list res" where
  "owner_questionnaire channel thread =
     map_sum id
       (filter (\<lambda>q. sget_or q ''kind'' ''owner_decision'' \<in> set OWNER_QUESTION_KINDS \<and> sget_or q ''target_member_id'' ''owner'' = ''owner''))
       (question_frontier channel thread)"

definition question_graph_digest :: "pydict \<Rightarrow> string \<Rightarrow> string res" where
  "question_graph_digest channel thread =
     map_sum id (\<lambda>rs. sha256_hex (json_dumps_ascii '','' '':'' True (JList (map JObj rs)))) (thread_questions channel thread)"

text \<open>A dependency is settled when the chain of merges from it ends in a resolved question.\<close>

inductive settles :: "by_id \<Rightarrow> string \<Rightarrow> bool" for tab where
  resolved: "map_of tab i = Some q \<Longrightarrow> sget q ''status'' = ''resolved'' \<Longrightarrow> settles tab i"
| merged: "map_of tab i = Some q \<Longrightarrow> sget q ''status'' = ''merged'' \<Longrightarrow> sget q ''merged_into'' = j \<Longrightarrow> j \<noteq> [] \<Longrightarrow> settles tab j \<Longrightarrow> settles tab i"

inductive_cases settlesE: "settles tab i"

text \<open>The chain from a question, without repetition, to a resolved one.\<close>

inductive chain :: "by_id \<Rightarrow> string \<Rightarrow> string list \<Rightarrow> bool" for tab where
  stop: "map_of tab i = Some q \<Longrightarrow> sget q ''status'' = ''resolved'' \<Longrightarrow> chain tab i [i]"
| step: "map_of tab i = Some q \<Longrightarrow> sget q ''status'' = ''merged'' \<Longrightarrow> sget q ''merged_into'' = j \<Longrightarrow> j \<noteq> [] \<Longrightarrow> chain tab j p
    \<Longrightarrow> chain tab i (i # p)"

lemma settles_chain: "settles tab i \<longleftrightarrow> (\<exists>p. chain tab i p)"
proof
  show "\<exists>p. chain tab i p" if "settles tab i" using that by induction (blast intro: chain.intros)+
  show "settles tab i" if "\<exists>p. chain tab i p"
  proof -
    from that obtain p where "chain tab i p" ..
    then show ?thesis by induction (blast intro: settles.intros)+
  qed
qed

text \<open>A chain is determined by its start, so it does not come back to it.\<close>

lemma chain_unique: "chain tab i p \<Longrightarrow> chain tab i p' \<Longrightarrow> p = p'"
proof (induction arbitrary: p' rule: chain.induct)
  case (stop i q)
  from stop.prems show ?case using stop.hyps by cases auto
next
  case (step i q j p)
  from step.prems show ?case
  proof cases
    case (stop q')
    then show ?thesis using step.hyps by simp
  next
    case (step q' j' p'')
    then show ?thesis using step.IH step.hyps \<open>map_of tab i = Some q\<close> \<open>sget q ''merged_into'' = j\<close> by simp
  qed
qed

lemma chain_suffix: "chain tab i p \<Longrightarrow> k \<in> set p \<Longrightarrow> \<exists>p'. chain tab k p' \<and> length p' \<le> length p"
proof (induction rule: chain.induct)
  case (step i q j p)
  then show ?case by (cases "k = i") (auto intro: chain.step le_SucI)
qed (auto intro: chain.stop)

lemma chain_distinct: "chain tab i p \<Longrightarrow> distinct p"
proof (induction rule: chain.induct)
  case (step i q j p)
  have "i \<notin> set p"
  proof
    assume "i \<in> set p"
    from chain_suffix [OF step.hyps(5) this] obtain p' where "chain tab i p'" "length p' \<le> length p" by blast
    with chain_unique [OF chain.step [OF step.hyps]] show False by fastforce
  qed
  with step.IH show ?case by simp
qed simp

lemma settled_iff: "dependency_settled tab seen i \<longleftrightarrow> (\<exists>p. chain tab i p \<and> set p \<inter> set seen = {})"
proof (induction tab seen i rule: dependency_settled.induct)
  case (1 tab seen i)
  show ?case
  proof
    assume "dependency_settled tab seen i"
    then obtain q where q: "i \<notin> set seen" "map_of tab i = Some q"
        "sget q ''status'' = ''resolved'' \<or> sget q ''status'' = ''merged'' \<and> sget q ''merged_into'' \<noteq> [] \<and> dependency_settled tab (i # seen) (sget q ''merged_into'')"
      by (subst (asm) dependency_settled.simps) (auto split: if_splits option.splits)
    show "\<exists>p. chain tab i p \<and> set p \<inter> set seen = {}"
    proof (cases "sget q ''status'' = ''resolved''")
      case True
      with q show ?thesis by (intro exI [of _ "[i]"]) (auto intro: chain.stop)
    next
      case False
      with q "1.IH" obtain p where "chain tab (sget q ''merged_into'') p" "set p \<inter> set (i # seen) = {}" by auto
      with q False show ?thesis by (intro exI [of _ "i # p"]) (auto intro: chain.step)
    qed
  next
    assume "\<exists>p. chain tab i p \<and> set p \<inter> set seen = {}"
    then obtain p where p: "chain tab i p" "set p \<inter> set seen = {}" by blast
    from p(1) show "dependency_settled tab seen i"
    proof cases
      case (stop q)
      with p(2) show ?thesis by (subst dependency_settled.simps) auto
    next
      case (step q j p')
      have "set p' \<inter> set (i # seen) = {}" using p(2) chain_distinct [OF p(1)] step(1) by auto
      then have "dependency_settled tab (i # seen) j" using "1.IH" [of q] step p(2) by auto
      with step p(2) show ?thesis by (subst dependency_settled.simps) auto
    qed
  qed
qed

lemma settled_exact: "dependency_settled tab [] i \<longleftrightarrow> settles tab i"
  by (simp add: settled_iff settles_chain)

lemma frontier_mem:
  "r \<in> set (frontier_of rs) \<longleftrightarrow> r \<in> set rs \<and> is_open_question r \<and> (\<forall>d \<in> set (question_deps r). settles (record_table rs) d)"
  by (simp add: frontier_of_def list_all_iff settled_exact)

lemma record_table_lookup:
  assumes "distinct (map (\<lambda>r. sget r ''question_id'') rs)" and "r \<in> set rs" and "sget r ''question_id'' \<noteq> []"
  shows "map_of (record_table rs) (sget r ''question_id'') = Some r"
proof -
  have "distinct (map (\<lambda>r. sget r ''question_id'') qs) \<Longrightarrow> r \<in> set qs \<Longrightarrow>
      map_of (fold (\<lambda>r tab. AList.update (sget r ''question_id'') r tab) qs tab) (sget r ''question_id'') = Some r" for qs tab
  proof (induction qs arbitrary: tab)
    case (Cons q qs)
    have other: "sget r ''question_id'' \<notin> set (map (\<lambda>r. sget r ''question_id'') qs) \<Longrightarrow>
        map_of (fold (\<lambda>r tab. AList.update (sget r ''question_id'') r tab) qs t) (sget r ''question_id'') = map_of t (sget r ''question_id'')" for t
      by (induction qs arbitrary: t) (auto simp: update_conv')
    show ?case using Cons other [of "AList.update (sget q ''question_id'') q tab"] by (cases "r = q") (auto simp: update_conv')
  qed simp
  then show ?thesis using assms unfolding record_table_def by (simp add: distinct_map_filter)
qed

text \<open>C22: A question graph is accepted exactly when it can be worked off. The check returns no error if and only if every question has
  an id of its own, every dependency names a question of the graph, and no question depends on itself, directly or
  through others. The dependencies of a question are the first sixteen of its list; normalisation refuses a longer one.\<close>

theorem question_graph_exact:
  "validate_question_graph qs = [] \<longleftrightarrow>
     [] \<notin> set (map question_id qs) \<and> distinct (map question_id qs)
     \<and> (\<forall>q \<in> set qs. set (question_deps q) \<subseteq> set (map question_id qs))
     \<and> acyclic {(question_id q, d) | q d. q \<in> set qs \<and> d \<in> set (question_deps q)}"
  by (rule question_graph_iff)

definition demo_question :: "string \<Rightarrow> string list \<Rightarrow> string \<Rightarrow> string \<Rightarrow> pydict" where
  "demo_question i deps status into =
     [(''question_id'', JStr i), (''depends_on'', JList (map JStr deps)), (''status'', JStr status), (''merged_into'', JStr into)]"

definition demo_questions :: "pydict list" where
  "demo_questions = [demo_question ''a'' [] ''resolved'' [], demo_question ''b'' [''a''] ''open'' [], demo_question ''c'' [''b''] ''open'' []]"

theorem question_graph_exact_witness:
  "validate_question_graph demo_questions = []
   \<and> acyclic {(question_id q, d) | q d. q \<in> set demo_questions \<and> d \<in> set (question_deps q)}"
proof -
  have "validate_question_graph demo_questions = []" by code_simp
  with question_graph_exact [of demo_questions] show ?thesis by blast
qed

text \<open>All questions of a channel, which the check is made on; those of a thread are some of them.\<close>

definition channel_questions :: "pydict \<Rightarrow> pydict list res" where
  "channel_questions channel =
     (let raw = py_or (dict_get channel ''open_questions'') (JList []) in
      map_sum id (\<lambda>vs. map as_dict (filter is_dict vs)) (case raw of JObj d \<Rightarrow> Inr (map snd d) | _ \<Rightarrow> py_list raw))"

lemma thread_of_channel:
  assumes "channel_questions channel = Inr qs"
  shows "thread_questions channel thread =
    Inr (sort_key (\<lambda>q. sget q ''question_id'') (filter (\<lambda>q. sget_or q ''thread_id'' ''main'' = thread \<and> sget q ''question_id'' \<noteq> []) qs))"
proof -
  let ?raw = "py_or (dict_get channel ''open_questions'') (JList [])"
  let ?vs = "case ?raw of JObj d \<Rightarrow> Inr (map snd d) | _ \<Rightarrow> py_list ?raw"
  obtain vs where "?vs = Inr vs" "qs = map as_dict (filter is_dict vs)"
    using assms unfolding channel_questions_def Let_def by (cases ?vs) simp_all
  then show ?thesis by (simp add: thread_questions_def Let_def)
qed

lemma record_table_Some: "map_of (record_table rs) d = Some q \<Longrightarrow> q \<in> set rs \<and> sget q ''question_id'' = d"
proof -
  have "map_of (fold (\<lambda>r tab. AList.update (sget r ''question_id'') r tab) qs tab) d = Some q \<Longrightarrow>
      (q \<in> set qs \<and> sget q ''question_id'' = d) \<or> map_of tab d = Some q" for qs tab
    by (induction qs arbitrary: tab) (fastforce simp: update_conv' split: if_splits)+
  then show "map_of (record_table rs) d = Some q \<Longrightarrow> q \<in> set rs \<and> sget q ''question_id'' = d" unfolding record_table_def by fastforce
qed

text \<open>The conditions of the theorem: the channel was accepted as a whole, and every question has an id without surrounding space and is open or resolved.\<close>

definition settled_channel :: "pydict \<Rightarrow> pydict list \<Rightarrow> bool" where
  "settled_channel channel qs \<longleftrightarrow>
     channel_questions channel = Inr qs \<and> validate_question_graph qs = []
     \<and> list_all (\<lambda>q. sget q ''question_id'' = question_id q \<and> sget q ''status'' \<in> {''open'', ''resolved''}) qs"

lemma frontier_sound:
  assumes "list_all (\<lambda>q. sget q ''question_id'' = question_id q \<and> sget q ''status'' \<in> {''open'', ''resolved''}) rs" "f \<in> set (frontier_of rs)"
    "d \<in> set (question_deps f)"
  shows "\<exists>r \<in> set rs. question_id r = d \<and> sget r ''status'' = ''resolved''"
proof -
  have "settles (record_table rs) d" using assms(2,3) by (simp add: frontier_mem)
  then show ?thesis
  proof (rule settlesE)
    fix q assume q: "map_of (record_table rs) d = Some q" "sget q ''status'' = ''resolved''"
    from record_table_Some [OF q(1)] assms(1) have "q \<in> set rs" "question_id q = d" by (auto simp: list_all_iff)
    with q(2) show ?thesis by blast
  next
    fix q assume q: "map_of (record_table rs) d = Some q" "sget q ''status'' = ''merged''"
    from record_table_Some [OF q(1)] assms(1) have "sget q ''status'' \<in> {''open'', ''resolved''}" by (simp add: list_all_iff)
    with q(2) show ?thesis by simp
  qed
qed

lemma frontier_free:
  assumes clean: "list_all (\<lambda>q. sget q ''question_id'' = question_id q \<and> sget q ''status'' \<in> {''open'', ''resolved''}) rs"
    and ids: "[] \<notin> set (map question_id rs)" "distinct (map question_id rs)"
    and acyclic: "acyclic {(question_id q, d) | q d. q \<in> set rs \<and> d \<in> set (question_deps q)}"
    and closed: "\<forall>q \<in> set rs. is_open_question q \<longrightarrow> set (question_deps q) \<subseteq> set (map question_id rs)"
    and some_open: "\<exists>r \<in> set rs. is_open_question r"
  shows "frontier_of rs \<noteq> []"
proof -
  let ?tab = "question_table rs" and ?S = "question_id ` {r \<in> set rs. is_open_question r}"
  have "dep_edges (map fst ?tab) (deps_of ?tab) \<subseteq> {(question_id q, d) | q d. q \<in> set rs \<and> d \<in> set (question_deps q)}"
    using deps_of_table [OF ids(2)] by (fastforce simp: dep_edges_def question_table_def)
  then have acyc: "acyclic (dep_edges (map fst ?tab) (deps_of ?tab))" by (rule acyclic_subset [OF acyclic])
  have found: "map_of (record_table rs) (question_id r) = Some r" if r: "r \<in> set rs" for r
  proof -
    have names: "map (\<lambda>r. sget r ''question_id'') rs = map question_id rs" using clean by (simp add: list_all_iff)
    have "sget r ''question_id'' = question_id r" "question_id r \<noteq> []" using clean ids(1) r by (force simp: list_all_iff)+
    with record_table_lookup [of rs r] ids(2) r names show ?thesis by simp
  qed
  have "?S \<subseteq> set (map fst ?tab)" "?S \<noteq> {}" using some_open by (auto simp: question_table_def)
  from qg.free_vertex [OF acyc this] obtain r where r: "r \<in> set rs" "is_open_question r" "set (deps_of ?tab (question_id r)) \<inter> ?S = {}" by blast
  have "settles (record_table rs) d" if d: "d \<in> set (question_deps r)" for d
  proof -
    obtain r' where r': "r' \<in> set rs" "question_id r' = d" using closed r(1,2) d by auto
    have "d \<notin> ?S" using r(3) d by (auto simp: deps_of_table [OF ids(2) r(1)])
    then have "sget r' ''status'' = ''resolved''" using clean r' by (auto simp: is_open_question_def list_all_iff)
    with found [OF r'(1)] r'(2) show ?thesis by (intro settles.resolved) auto
  qed
  with r have "r \<in> set (frontier_of rs)" by (simp add: frontier_mem)
  then show ?thesis by auto
qed

text \<open>C23: A discussion gets stuck only across threads. Take a channel whose questions were accepted together, are all open or resolved (none is merged), and have ids
  without surrounding space. Every question that the frontier of a thread offers is open and depends on resolved questions of that thread only; and as long as the
  thread has an open question, the frontier offers one or some open question of the thread depends on a question of
  another thread. The exception is real: cross_thread_stuck shows a thread that waits for ever for a question that is resolved.\<close>

theorem question_frontier_progress:
  assumes ok: "settled_channel channel qs" and rs: "thread_questions channel thread = Inr rs"
  shows "\<exists>fs. question_frontier channel thread = Inr fs
    \<and> (\<forall>f \<in> set fs. f \<in> set rs \<and> is_open_question f
         \<and> (\<forall>d \<in> set (question_deps f). \<exists>r \<in> set rs. question_id r = d \<and> sget r ''status'' = ''resolved''))
    \<and> ((\<exists>r \<in> set rs. is_open_question r) \<longrightarrow> fs \<noteq> []
         \<or> (\<exists>r \<in> set rs. is_open_question r \<and> (\<exists>d \<in> set (question_deps r). \<exists>q \<in> set qs - set rs. question_id q = d)))"
proof (intro exI conjI)
  show "question_frontier channel thread = Inr (frontier_of rs)" by (simp add: question_frontier_def rs)
  have qs: "channel_questions channel = Inr qs" "validate_question_graph qs = []"
    and clean: "list_all (\<lambda>q. sget q ''question_id'' = question_id q \<and> sget q ''status'' \<in> {''open'', ''resolved''}) qs"
    using ok by (simp_all add: settled_channel_def)
  define own where "own = (\<lambda>q. sget_or q ''thread_id'' ''main'' = thread \<and> sget q ''question_id'' \<noteq> [])"
  have rs': "rs = sort_key (\<lambda>q. sget q ''question_id'') (filter own qs)" using thread_of_channel [OF qs(1)] rs by (simp add: own_def)
  have sub: "set rs \<subseteq> set qs" by (auto simp: rs')
  have graph: "[] \<notin> set (map question_id qs)" "distinct (map question_id qs)"
      "\<forall>q \<in> set qs. set (question_deps q) \<subseteq> set (map question_id qs)" "acyclic {(question_id q, d) | q d. q \<in> set qs \<and> d \<in> set (question_deps q)}"
    using qs(2) by (simp_all add: question_graph_iff)
  have clean_rs: "list_all (\<lambda>q. sget q ''question_id'' = question_id q \<and> sget q ''status'' \<in> {''open'', ''resolved''}) rs"
    using clean sub by (auto simp: list_all_iff)
  have "mset (map question_id rs) = mset (map question_id (filter own qs))" by (simp add: rs')
  then have dist: "distinct (map question_id rs)" using distinct_map_filter [OF graph(2)] mset_eq_imp_distinct_iff by blast
  show "\<forall>f \<in> set (frontier_of rs). f \<in> set rs \<and> is_open_question f
      \<and> (\<forall>d \<in> set (question_deps f). \<exists>r \<in> set rs. question_id r = d \<and> sget r ''status'' = ''resolved'')"
    using frontier_sound [OF clean_rs] by (auto simp: frontier_mem)
  show "(\<exists>r \<in> set rs. is_open_question r) \<longrightarrow> frontier_of rs \<noteq> []
      \<or> (\<exists>r \<in> set rs. is_open_question r \<and> (\<exists>d \<in> set (question_deps r). \<exists>q \<in> set qs - set rs. question_id q = d))"
  proof (intro impI disjCI)
    assume some_open: "\<exists>r \<in> set rs. is_open_question r"
      and none: "\<not> (\<exists>r \<in> set rs. is_open_question r \<and> (\<exists>d \<in> set (question_deps r). \<exists>q \<in> set qs - set rs. question_id q = d))"
    have "set (question_deps r) \<subseteq> set (map question_id rs)" if "r \<in> set rs" "is_open_question r" for r
      using none that graph(3) sub by (fastforce simp: subset_iff)
    moreover have "acyclic {(question_id q, d) | q d. q \<in> set rs \<and> d \<in> set (question_deps q)}"
      by (rule acyclic_subset [OF graph(4)]) (use sub in blast)
    ultimately show "frontier_of rs \<noteq> []" using frontier_free [OF clean_rs _ dist _ _ some_open] graph(1) sub by auto
  qed
qed

definition demo_channel :: "pydict list \<Rightarrow> pydict" where
  "demo_channel qs = [(''open_questions'', JList (map JObj qs))]"

theorem question_frontier_progress_witness:
  "settled_channel (demo_channel demo_questions) demo_questions \<and> (\<exists>fs. question_frontier (demo_channel demo_questions) ''main'' = Inr fs \<and> fs \<noteq> [])"
proof -
  have rs: "thread_questions (demo_channel demo_questions) ''main'' = Inr demo_questions" by code_simp
  have ok: "settled_channel (demo_channel demo_questions) demo_questions" by code_simp
  have "\<exists>r \<in> set demo_questions. is_open_question r" by code_simp
  with question_frontier_progress [OF ok rs] ok show ?thesis by blast
qed

text \<open>The check is made on the whole channel and the frontier on one thread: a dependency on a question of another thread is accepted, and is never settled.\<close>

definition crossing_questions :: "pydict list" where
  "crossing_questions = [demo_question ''a'' [] ''resolved'' [], demo_question ''b'' [''a''] ''open'' [] @ [(''thread_id'', JStr ''t2'')]]"

lemma cross_thread_stuck:
  "settled_channel (demo_channel crossing_questions) crossing_questions" "question_frontier (demo_channel crossing_questions) ''t2'' = Inr []"
  by code_simp+

text \<open>With merges a discussion can get stuck: a question that was merged into one that depends on it blocks that one for ever, and the graph
  check, which looks at dependencies only, accepts the graph.\<close>

definition stuck_questions :: "pydict list" where
  "stuck_questions = [demo_question ''a'' [] ''merged'' ''b'', demo_question ''b'' [''a''] ''open'' []]"

lemma merge_blocks_target:
  "validate_question_graph stuck_questions = []" "question_frontier (demo_channel stuck_questions) ''main'' = Inr []"
  by code_simp+

end
