(* ===== verification/Task_Map_Evidence.thy ===== *)
theory Task_Map_Evidence
  imports Dep_Graph
begin

text \<open>
  \<open>runtime/task_map_evidence.py\<close>: the checks of a task map before it is admitted. The tasks are put in an order in which every task comes
  after the tasks that block it, cycles are reported, and every piece of evidence a task asks for must come
  from a task that has run before. A task map is a dictionary; patterns of paths are those of \<open>fnmatch\<close>.
\<close>

section \<open>Tasks\<close>

definition strings :: "json \<Rightarrow> string list" where
  "strings v =
     fromkeys (filter (\<lambda>s. s \<noteq> []) (map (\<lambda>x. strip (py_str x)) (if is_list v then as_list v else if truthy v then [v] else [])))"

definition task_key :: "pydict \<Rightarrow> string" where
  "task_key item = strip (text_of (py_or (dict_get item ''task_id'') (dict_get item ''id'')))"

definition task_items :: "pydict \<Rightarrow> pydict list res" where
  "task_items task_map =
     (case map_of task_map ''tasks'' of
        None \<Rightarrow> Inr []
      | Some v \<Rightarrow> map_sum id (\<lambda>xs. map as_dict (filter is_dict xs)) (py_list v))"

definition ordered_ids :: "pydict list \<Rightarrow> string list" where
  "ordered_ids items = filter (\<lambda>s. s \<noteq> []) (map task_key items)"

text \<open>\<open>{key: f(item) for item in items if key}\<close>: a repeated key keeps its place and takes the later value.\<close>

definition keyed :: "(pydict \<Rightarrow> 'a) \<Rightarrow> pydict list \<Rightarrow> (string \<times> 'a) list" where
  "keyed f items = fold (\<lambda>item tab. AList.update (task_key item) (f item) tab) (filter (\<lambda>item. task_key item \<noteq> []) items) []"

type_synonym dep_table = "(string \<times> string list) list"

definition dependency_table :: "pydict list \<Rightarrow> dep_table" where
  "dependency_table items = keyed (\<lambda>item. strings (dict_get item ''blocked_by'')) items"

definition blockers :: "dep_table \<Rightarrow> string \<Rightarrow> string list" where
  "blockers tab t = (case map_of tab t of None \<Rightarrow> [] | Some ds \<Rightarrow> ds)"

text \<open>The last position of an id.\<close>

definition position :: "string list \<Rightarrow> string \<Rightarrow> nat" where
  "position ids t = (case map_of (rev (zip ids [0..<length ids])) t of None \<Rightarrow> 0 | Some n \<Rightarrow> n)"

section \<open>The order\<close>

definition self_errors :: "dep_table \<Rightarrow> string list" where
  "self_errors tab = map (\<lambda>r. fst r @ ''.blocked_by contains a self-cycle'') (filter (\<lambda>r. fst r \<in> set (snd r)) tab)"

definition proper_blockers :: "dep_table \<Rightarrow> string \<Rightarrow> string list" where
  "proper_blockers tab t = filter (\<lambda>d. d \<in> set (map fst tab) \<and> d \<noteq> t) (blockers tab t)"

definition dependents :: "dep_table \<Rightarrow> string \<Rightarrow> string list" where
  "dependents tab t = map fst (filter (\<lambda>r. t \<in> set (snd r) \<and> t \<noteq> fst r) tab)"

record kahn_state =
  ks_indegree :: "(string \<times> int) list"
  ks_ready :: "string list"
  ks_result :: "string list"

definition indegree :: "(string \<times> int) list \<Rightarrow> string \<Rightarrow> int" where
  "indegree deg t = (case map_of deg t of None \<Rightarrow> 0 | Some n \<Rightarrow> n)"

definition release :: "(string \<Rightarrow> nat) \<Rightarrow> string \<Rightarrow> kahn_state \<Rightarrow> kahn_state" where
  "release index t st =
     (let n = indegree (ks_indegree st) t - 1; deg = AList.update t n (ks_indegree st) in
      if n = 0 then st\<lparr>ks_indegree := deg, ks_ready := sort_key index (ks_ready st @ [t])\<rparr> else st\<lparr>ks_indegree := deg\<rparr>)"

definition kahn_step :: "(string \<Rightarrow> nat) \<Rightarrow> dep_table \<Rightarrow> kahn_state \<Rightarrow> kahn_state" where
  "kahn_step index tab st =
     fold (release index) (sort_key index (dependents tab (hd (ks_ready st))))
       (st\<lparr>ks_ready := tl (ks_ready st), ks_result := ks_result st @ [hd (ks_ready st)]\<rparr>)"

definition open_edges :: "kahn_state \<Rightarrow> nat" where
  "open_edges st = (\<Sum>t \<in> set (map fst (ks_indegree st)). nat (indegree (ks_indegree st) t)) + length (ks_ready st)"

lemma indegree_update [simp]: "indegree (AList.update t n deg) u = (if u = t then n else indegree deg u)"
  by (simp add: indegree_def update_conv')

lemma release_open_edges: "open_edges (release index t st) \<le> open_edges st"
proof (cases "t \<in> set (map fst (ks_indegree st))")
  case True
  let ?K = "set (map fst (ks_indegree st))" and ?n = "indegree (ks_indegree st) t"
  have keys: "set (map fst (AList.update t k (ks_indegree st))) = ?K" for k
    using True by (simp add: AList.dom_update insert_absorb)
  have sum: "(\<Sum>u \<in> ?K. nat (if u = t then k else indegree (ks_indegree st) u))
      = nat k + (\<Sum>u \<in> ?K - {t}. nat (indegree (ks_indegree st) u))" for k
    using True by (subst sum.remove [of _ t]) (auto intro!: sum.cong)
  have "(\<Sum>u \<in> ?K. nat (indegree (ks_indegree st) u)) = nat ?n + (\<Sum>u \<in> ?K - {t}. nat (indegree (ks_indegree st) u))"
    using True by (subst sum.remove [of _ t]) auto
  moreover have "nat (?n - 1) \<le> nat ?n" by (rule nat_mono) simp
  ultimately show ?thesis by (simp add: open_edges_def release_def Let_def keys sum del: set_map)
next
  case False
  then have n: "indegree (ks_indegree st) t = 0"
    by (simp add: indegree_def map_of_eq_None_iff [THEN iffD2])
  have keys: "set (map fst (AList.update t k (ks_indegree st))) = insert t (set (map fst (ks_indegree st)))" for k
    by (simp add: AList.dom_update)
  show ?thesis using False
    by (simp add: open_edges_def release_def Let_def keys n del: set_map) (auto intro!: sum_mono)
qed

lemma fold_release_open_edges: "open_edges (fold (release index) ts st) \<le> open_edges st"
  by (induction ts arbitrary: st) (auto intro: order_trans [OF _ release_open_edges])

function kahn_loop :: "(string \<Rightarrow> nat) \<Rightarrow> dep_table \<Rightarrow> kahn_state \<Rightarrow> kahn_state" where
  "kahn_loop index tab st = (if ks_ready st = [] then st else kahn_loop index tab (kahn_step index tab st))"
  by pat_completeness auto
termination
proof (relation "measure (\<lambda>(index, tab, st). open_edges st)")
  fix index :: "string \<Rightarrow> nat" and tab :: dep_table and st :: kahn_state
  assume "ks_ready st \<noteq> []"
  then have "open_edges (st\<lparr>ks_ready := tl (ks_ready st), ks_result := ks_result st @ [hd (ks_ready st)]\<rparr>) < open_edges st"
    by (cases "ks_ready st") (simp_all add: open_edges_def)
  then show "((index, tab, kahn_step index tab st), index, tab, st) \<in> measure (\<lambda>(index, tab, st). open_edges st)"
    unfolding kahn_step_def using fold_release_open_edges by (auto intro: le_less_trans)
qed simp

declare kahn_loop.simps [simp del]

definition kahn_start :: "(string \<Rightarrow> nat) \<Rightarrow> dep_table \<Rightarrow> kahn_state" where
  "kahn_start index tab =
     (let deg = map (\<lambda>r. (fst r, int (length (proper_blockers tab (fst r))))) tab in
      \<lparr>ks_indegree = deg, ks_ready = sort_key index (map fst (filter (\<lambda>r. snd r = 0) deg)), ks_result = []\<rparr>)"

definition topological_result :: "pydict list \<Rightarrow> string list" where
  "topological_result items =
     (let tab = dependency_table items; index = position (ordered_ids items) in ks_result (kahn_loop index tab (kahn_start index tab)))"

definition cycle_errors :: "string list \<Rightarrow> string list \<Rightarrow> string list" where
  "cycle_errors ids result =
     (let cyclic = filter (\<lambda>t. t \<notin> set result) ids in if cyclic = [] then [] else [''task dependency cycle: '' @ join '' -> '' cyclic])"

definition order_of_items :: "pydict list \<Rightarrow> string list \<times> string list" where
  "order_of_items items =
     (let result = topological_result items in (result, self_errors (dependency_table items) @ cycle_errors (ordered_ids items) result))"

definition stable_topological_order :: "pydict \<Rightarrow> (string list \<times> string list) res" where
  "stable_topological_order task_map = map_sum id order_of_items (task_items task_map)"

section \<open>Patterns\<close>

text \<open>\<open>fnmatch.fnmatch\<close> on a case-sensitive file system.\<close>

datatype glob_item = Star | Any | Lit char | Class bool "(char \<times> char) list"

text \<open>The members of a bracket: single characters and ranges; a range whose ends are in the wrong order is empty.\<close>

fun class_items :: "string \<Rightarrow> (char \<times> char) list" where
  "class_items (a # d # b # s) =
     (if d = CHR ''-'' then (a, b) # class_items s else (a, a) # class_items (d # b # s))"
| "class_items (a # s) = (a, a) # class_items s"
| "class_items [] = []"

definition glob_class :: "string \<Rightarrow> glob_item" where
  "glob_class body = (if take 1 body = ''!'' then Class True (class_items (drop 1 body)) else Class False (class_items body))"

text \<open>The text of a bracket after its opening, and what follows its closing: the first closing bracket that is neither
  the first character nor the first after an exclamation mark.\<close>

definition bracket :: "string \<Rightarrow> (string \<times> string) option" where
  "bracket s =
     (let k = (if take 1 s = ''!'' then 1 else 0); k = (if take 1 (drop k s) = '']'' then Suc k else k);
          n = k + length (takeWhile (\<lambda>c. c \<noteq> CHR '']'') (drop k s))
      in if n < length s then Some (take n s, drop (Suc n) s) else None)"

lemma bracket_shorter: "bracket s = Some (body, rest) \<Longrightarrow> length rest < length s"
  by (auto simp: bracket_def Let_def split: if_splits)

function parse_glob :: "string \<Rightarrow> glob_item list" where
  "parse_glob [] = []"
| "parse_glob (c # s) =
     (if c = CHR ''*'' then Star # parse_glob s
      else if c = CHR ''?'' then Any # parse_glob s
      else if c = CHR ''['' then
        (case bracket s of None \<Rightarrow> Lit c # parse_glob s | Some (body, rest) \<Rightarrow> glob_class body # parse_glob rest)
      else Lit c # parse_glob s)"
  by pat_completeness auto
termination
  by (relation "measure length") (auto dest!: bracket_shorter)

fun item_matches :: "glob_item \<Rightarrow> char \<Rightarrow> bool" where
  "item_matches Star c = False"
| "item_matches Any c = True"
| "item_matches (Lit d) c = (c = d)"
| "item_matches (Class neg rs) c = (list_ex (\<lambda>r. (of_char (fst r) :: nat) \<le> of_char c \<and> of_char c \<le> (of_char (snd r) :: nat)) rs \<noteq> neg)"

fun glob_match :: "glob_item list \<Rightarrow> string \<Rightarrow> bool" where
  "glob_match [] s = (s = [])"
| "glob_match (Star # ps) [] = glob_match ps []"
| "glob_match (Star # ps) (c # s) = (glob_match ps (c # s) \<or> glob_match (Star # ps) s)"
| "glob_match (p # ps) [] = False"
| "glob_match (p # ps) (c # s) = (item_matches p c \<and> glob_match ps s)"

definition fnmatch :: "string \<Rightarrow> string \<Rightarrow> bool" where
  "fnmatch name pat = glob_match (parse_glob pat) name"

definition lstrip_chars :: "string \<Rightarrow> string \<Rightarrow> string" where
  "lstrip_chars cs s = dropWhile (\<lambda>c. c \<in> set cs) s"

definition rstrip_chars :: "string \<Rightarrow> string \<Rightarrow> string" where
  "rstrip_chars cs s = rev (dropWhile (\<lambda>c. c \<in> set cs) (rev s))"

definition path_owned :: "string \<Rightarrow> string \<Rightarrow> bool" where
  "path_owned path pattern =
     (let p = lstrip_chars ''./'' (strip path); q = lstrip_chars ''./'' (strip pattern) in
      if p = [] \<or> q = [] then False
      else fnmatch p q \<or> p = rstrip_chars ''/'' q \<or> startswith p (rstrip_chars ''/**'' q @ ''/''))"

section \<open>Evidence\<close>

text \<open>\<open>rows.extend(...)\<close> for one of the three places a task lists its commands in.\<close>

definition command_rows :: "json \<Rightarrow> json list res" where
  "command_rows v =
     (case v of
        JList xs \<Rightarrow> Inr xs
      | JObj d \<Rightarrow> (let c = dict_get d ''commands'' in if truthy c then py_list c else Inr [])
      | _ \<Rightarrow> Inr [])"

fun row_ids :: "nat \<Rightarrow> json list \<Rightarrow> string list" where
  "row_ids i [] = []"
| "row_ids i (JObj d # rows) = filter (\<lambda>s. s \<noteq> []) [sget_first d [''command_id'', ''id'']] @ row_ids (Suc i) rows"
| "row_ids i (row # rows) = (if strip (py_str row) \<noteq> [] then [''command-'' @ show_nat (Suc i)] else []) @ row_ids (Suc i) rows"

definition verification_command_ids :: "pydict \<Rightarrow> string list res" where
  "verification_command_ids task =
     map_sum id (\<lambda>rows. row_ids 0 (concat rows))
       (res_map command_rows
         [dict_get task ''verification_commands'', dict_get task ''verify_commands'', dict_get (as_dict (dict_get task ''validation'')) ''commands''])"

text \<open>The loop pops the last pending id.\<close>

function closure_loop :: "dep_table \<Rightarrow> string list \<Rightarrow> string list \<Rightarrow> string list" where
  "closure_loop tab result pending =
     (if pending = [] then result
      else (let current = last pending; rest = butlast pending in
            if current \<in> set result then closure_loop tab result rest
            else closure_loop tab (current # result) (rest @ blockers tab current)))"
  by pat_completeness auto
termination
proof (relation "inv_image (less_than <*lex*> less_than)
    (\<lambda>(tab :: dep_table, result, pending). (card ((set pending \<union> \<Union> (set ` snd ` set tab)) - set result), length pending))")
  show "wf (inv_image (less_than <*lex*> less_than)
    (\<lambda>(tab :: dep_table, result, pending). (card ((set pending \<union> \<Union> (set ` snd ` set tab)) - set result), length pending)))" by auto
next
  fix tab :: dep_table and result pending :: "string list" and current rest
  assume ne: "pending \<noteq> []" and cur: "current = last pending" and rest: "rest = butlast pending"
  let ?U = "\<lambda>p. set p \<union> \<Union> (set ` snd ` set tab)"
  have pend: "pending = rest @ [current]" using ne cur rest by simp
  show "((tab, result, rest), tab, result, pending) \<in> inv_image (less_than <*lex*> less_than)
    (\<lambda>(tab :: dep_table, result, pending). (card ((set pending \<union> \<Union> (set ` snd ` set tab)) - set result), length pending))"
    if "current \<in> set result"
  proof -
    have "?U rest - set result = ?U pending - set result" using that by (auto simp: pend)
    then show ?thesis by (simp add: pend)
  qed
  show "((tab, current # result, rest @ blockers tab current), tab, result, pending) \<in> inv_image (less_than <*lex*> less_than)
    (\<lambda>(tab :: dep_table, result, pending). (card ((set pending \<union> \<Union> (set ` snd ` set tab)) - set result), length pending))"
    if "current \<notin> set result"
  proof -
    have "set (blockers tab current) \<subseteq> \<Union> (set ` snd ` set tab)"
    proof (cases "map_of tab current")
      case (Some ds)
      then show ?thesis using map_of_SomeD [OF Some] by (force simp: blockers_def)
    qed (simp add: blockers_def)
    then have "?U (rest @ blockers tab current) - set (current # result) \<subset> ?U pending - set result"
      using that by (auto simp: pend)
    then have "card (?U (rest @ blockers tab current) - set (current # result)) < card (?U pending - set result)"
      by (rule psubset_card_mono [rotated]) simp
    then show ?thesis by simp
  qed
qed

declare closure_loop.simps [simp del]

definition dependency_closure :: "dep_table \<Rightarrow> string \<Rightarrow> string list" where
  "dependency_closure tab t = closure_loop tab [] (blockers tab t)"

text \<open>The errors of one piece of evidence of one criterion of one task.\<close>

definition evidence_errors :: "(string \<times> pydict) list \<Rightarrow> dep_table \<Rightarrow> string \<Rightarrow> string \<Rightarrow> pydict \<Rightarrow> pydict \<Rightarrow> pydict \<Rightarrow> string list" where
  "evidence_errors tasks tab label t task criterion evidence =
     (let p = sget evidence ''producer_task_id'' in
      (case map_of tasks p of
         None \<Rightarrow> [label @ '' evidence producer '' @ repr_str p @ '' does not exist'']
       | Some producer \<Rightarrow>
           (let owned = concat (map (\<lambda>k. strings (dict_get producer k)) [''allowed_paths'', ''exclusive_files'', ''shared_files'']);
                verifier = (if sget criterion ''verification_owner'' \<noteq> [] then sget criterion ''verification_owner''
                            else sget_first task [''verification_owner'', ''owner_role'']);
                owner = sget producer ''owner_role'' in
            map (\<lambda>path. label @ '' producer '' @ repr_str p @ '' does not own evidence path '' @ repr_str path)
              (filter (\<lambda>path. \<not> list_ex (path_owned path) owned) (strings (dict_get evidence ''producer_paths'')))
            @ (if truthy (dict_get evidence ''independence_required'') \<and> verifier \<noteq> [] \<and> owner \<noteq> [] \<and> verifier = owner
               then [label @ '' independent verifier collides with producer owner '' @ repr_str owner] else [])
            @ (if p \<noteq> t \<and> p \<notin> set (dependency_closure tab t)
               then [label @ '' does not depend on evidence producer '' @ repr_str p] else []))))"

definition criteria_of :: "pydict \<Rightarrow> json list" where
  "criteria_of task = (let c = dict_get task ''acceptance_criteria'' in as_list (if is_list c then c else dict_get task ''acceptance''))"

definition requirements_of :: "pydict \<Rightarrow> pydict list" where
  "requirements_of criterion = map as_dict (filter is_dict (as_list (dict_get criterion ''evidence_requirements'')))"

definition criterion_label :: "string \<Rightarrow> nat \<Rightarrow> pydict \<Rightarrow> string" where
  "criterion_label t i criterion =
     t @ ''.'' @ (let a = sget_first criterion [''acceptance_id'', ''id''] in if a \<noteq> [] then a else ''AC'' @ show_nat (Suc i))"

definition criterion_errors :: "(string \<times> pydict) list \<Rightarrow> dep_table \<Rightarrow> string list \<Rightarrow> string \<Rightarrow> pydict \<Rightarrow> nat \<Rightarrow> json \<Rightarrow> string list" where
  "criterion_errors tasks tab commands t task i v =
     (case v of
        JObj criterion \<Rightarrow>
          (let label = criterion_label t i criterion in
           map (\<lambda>c. label @ '' references unknown verification command '' @ repr_str c)
             (filter (\<lambda>c. c \<notin> set commands) (strings (dict_get criterion ''verification_command_ids'')))
           @ concat (map (evidence_errors tasks tab label t task criterion) (requirements_of criterion)))
      | _ \<Rightarrow> [])"

definition task_errors :: "(string \<times> pydict) list \<Rightarrow> dep_table \<Rightarrow> string list \<Rightarrow> string \<times> pydict \<Rightarrow> string list" where
  "task_errors tasks tab commands r =
     concat (map (\<lambda>iv. criterion_errors tasks tab commands (fst r) (snd r) (fst iv) (snd iv)) (enumerate 0 (criteria_of (snd r))))"

definition items_evidence_errors :: "pydict list \<Rightarrow> string list res" where
  "items_evidence_errors items =
     (let tasks = keyed id items; tab = dependency_table items in
      map_sum id (\<lambda>cs. concat (map (task_errors tasks tab (concat cs)) tasks)) (res_map (\<lambda>r. verification_command_ids (snd r)) tasks))"

definition evidence_producibility_errors :: "pydict \<Rightarrow> string list res" where
  "evidence_producibility_errors task_map = res_bind (task_items task_map) items_evidence_errors"

definition validate_task_map_evidence :: "pydict \<Rightarrow> (string list \<times> string list) res" where
  "validate_task_map_evidence task_map =
     res_bind (stable_topological_order task_map) (\<lambda>oe.
     res_bind (evidence_producibility_errors task_map) (\<lambda>more. Inr (fst oe, snd oe @ more)))"

section \<open>The order is right\<close>

definition table_ok :: "dep_table \<Rightarrow> bool" where
  "table_ok tab \<longleftrightarrow> distinct (map fst tab) \<and> (\<forall>r \<in> set tab. distinct (snd r))"

lemma keyed_facts:
  shows "distinct (map fst (keyed f items))" and "set (map fst (keyed f items)) = set (ordered_ids items)"
    and "r \<in> set (keyed f items) \<Longrightarrow> \<exists>item \<in> set items. r = (task_key item, f item)"
proof -
  let ?g = "\<lambda>item tab. AList.update (task_key item) (f item) tab"
  have "distinct (map fst tab) \<Longrightarrow> distinct (map fst (fold ?g xs tab)) \<and> set (map fst (fold ?g xs tab)) = set (map task_key xs) \<union> set (map fst tab)
      \<and> set (fold ?g xs tab) \<subseteq> (\<lambda>item. (task_key item, f item)) ` set xs \<union> set tab" for xs tab
  proof (induction xs arbitrary: tab)
    case (Cons x xs)
    have sub: "set (AList.update (task_key x) (f x) tab) \<subseteq> insert (task_key x, f x) (set tab)" by (induction tab) auto
    show ?case using Cons.IH [of "?g x tab"] Cons.prems sub by (auto simp: distinct_update AList.dom_update)
  qed auto
  from this [of "[]" "filter (\<lambda>item. task_key item \<noteq> []) items"]
  show "distinct (map fst (keyed f items))" "set (map fst (keyed f items)) = set (ordered_ids items)"
    "r \<in> set (keyed f items) \<Longrightarrow> \<exists>item \<in> set items. r = (task_key item, f item)"
    by (auto simp: keyed_def ordered_ids_def)
qed

lemma table_ok_dependency_table: "table_ok (dependency_table items)"
  unfolding table_ok_def dependency_table_def
proof (intro conjI ballI)
  fix r assume "r \<in> set (keyed (\<lambda>item. strings (dict_get item ''blocked_by'')) items)"
  from keyed_facts(3) [OF this] show "distinct (snd r)" by (auto simp: strings_def)
qed (rule keyed_facts(1))

lemma distinct_blockers: "table_ok tab \<Longrightarrow> distinct (blockers tab t)"
  by (auto simp: table_ok_def blockers_def split: option.splits dest: map_of_SomeD)

text \<open>The graph of a table, with repeated entries of a list left out.\<close>

definition graph_deps :: "dep_table \<Rightarrow> string \<Rightarrow> string list" where
  "graph_deps tab t = remdups (proper_blockers tab t)"

interpretation tg: dependency_graph "map fst" graph_deps
proof
  fix tab x
  show "distinct (graph_deps tab x)" by (simp add: graph_deps_def)
  show "x \<notin> set (map fst tab) \<Longrightarrow> graph_deps tab x = []"
    by (simp add: graph_deps_def proper_blockers_def blockers_def map_of_eq_None_iff [THEN iffD2])
qed

lemma graph_deps_eq: "table_ok tab \<Longrightarrow> graph_deps tab t = proper_blockers tab t"
  by (simp add: graph_deps_def proper_blockers_def distinct_blockers distinct_remdups_id)

lemma set_graph_deps: "set (graph_deps tab t) = {d \<in> set (blockers tab t). d \<in> set (map fst tab) \<and> d \<noteq> t}"
  by (auto simp: graph_deps_def proper_blockers_def)

lemma graph_deps_vertex: "t \<in> set (graph_deps tab u) \<Longrightarrow> u \<in> set (map fst tab)"
  using tg.foreign_deps [of u tab] by (cases "u \<in> set (map fst tab)") simp_all

lemma dependents_facts:
  assumes "table_ok tab"
  shows "distinct (dependents tab t)" and "t \<in> set (map fst tab) \<Longrightarrow> u \<in> set (dependents tab t) \<longleftrightarrow> t \<in> set (graph_deps tab u)"
proof -
  show "distinct (dependents tab t)" using assms by (simp add: dependents_def table_ok_def distinct_map_filter)
  have mem: "(u, ds) \<in> set tab \<longleftrightarrow> map_of tab u = Some ds" for ds using assms by (simp add: table_ok_def)
  show "u \<in> set (dependents tab t) \<longleftrightarrow> t \<in> set (graph_deps tab u)" if "t \<in> set (map fst tab)"
  proof -
    have "u \<in> set (dependents tab t) \<longleftrightarrow> (\<exists>ds. (u, ds) \<in> set tab \<and> t \<in> set ds \<and> t \<noteq> u)" by (force simp: dependents_def)
    also have "\<dots> \<longleftrightarrow> t \<in> set (graph_deps tab u)" using that by (cases "map_of tab u") (auto simp: mem set_graph_deps blockers_def)
    finally show ?thesis .
  qed
qed

definition kahn_inv :: "dep_table \<Rightarrow> kahn_state \<Rightarrow> bool" where
  "kahn_inv tab st \<longleftrightarrow>
     distinct (ks_ready st @ ks_result st) \<and> set (ks_ready st @ ks_result st) \<subseteq> set (map fst tab)
     \<and> (\<forall>t \<in> set (map fst tab). indegree (ks_indegree st) t = int (card (set (graph_deps tab t) - set (ks_result st))))
     \<and> (\<forall>t \<in> set (map fst tab). t \<in> set (ks_ready st @ ks_result st) \<longleftrightarrow> set (graph_deps tab t) \<subseteq> set (ks_result st))
     \<and> settled_order (graph_deps tab) (rev (ks_result st))"

lemma kahn_invD:
  assumes "kahn_inv tab st"
  shows "distinct (ks_ready st @ ks_result st)" and "set (ks_ready st @ ks_result st) \<subseteq> set (map fst tab)"
    and "t \<in> set (map fst tab) \<Longrightarrow> indegree (ks_indegree st) t = int (card (set (graph_deps tab t) - set (ks_result st)))"
    and "t \<in> set (map fst tab) \<Longrightarrow> t \<in> set (ks_ready st @ ks_result st) \<longleftrightarrow> set (graph_deps tab t) \<subseteq> set (ks_result st)"
    and "settled_order (graph_deps tab) (rev (ks_result st))"
  using assms unfolding kahn_inv_def by blast+

lemma release_fields:
  "indegree (ks_indegree (release index t st)) u = indegree (ks_indegree st) u - (if u = t then 1 else 0)"
  "mset (ks_ready (release index t st)) = mset (ks_ready st) + (if indegree (ks_indegree st) t = 1 then {#t#} else {#})"
  "ks_result (release index t st) = ks_result st"
  by (auto simp: release_def Let_def)

lemma fold_release:
  assumes "distinct ts"
  shows "indegree (ks_indegree (fold (release index) ts st)) u = indegree (ks_indegree st) u - (if u \<in> set ts then 1 else 0)"
    and "mset (ks_ready (fold (release index) ts st)) = mset (ks_ready st) + mset (filter (\<lambda>t. indegree (ks_indegree st) t = 1) ts)"
    and "ks_result (fold (release index) ts st) = ks_result st"
proof -
  have "indegree (ks_indegree (fold (release index) ts st)) u = indegree (ks_indegree st) u - (if u \<in> set ts then 1 else 0)
    \<and> mset (ks_ready (fold (release index) ts st)) = mset (ks_ready st) + mset (filter (\<lambda>t. indegree (ks_indegree st) t = 1) ts)
    \<and> ks_result (fold (release index) ts st) = ks_result st"
    using assms
  proof (induction ts arbitrary: st)
    case (Cons t ts)
    have "filter (\<lambda>u. indegree (ks_indegree (release index t st)) u = 1) ts = filter (\<lambda>u. indegree (ks_indegree st) u = 1) ts"
      using Cons.prems by (intro filter_cong) (auto simp: release_fields)
    with Cons show ?case by (simp add: release_fields del: mset_filter)
  qed simp
  then show "indegree (ks_indegree (fold (release index) ts st)) u = indegree (ks_indegree st) u - (if u \<in> set ts then 1 else 0)"
    and "mset (ks_ready (fold (release index) ts st)) = mset (ks_ready st) + mset (filter (\<lambda>t. indegree (ks_indegree st) t = 1) ts)"
    and "ks_result (fold (release index) ts st) = ks_result st" by auto
qed

lemma kahn_start_inv:
  assumes "table_ok tab"
  shows "kahn_inv tab (kahn_start index tab)"
proof -
  let ?st = "kahn_start index tab"
  have deg: "indegree (ks_indegree ?st) t = int (card (set (graph_deps tab t)))" if "t \<in> set (map fst tab)" for t
  proof -
    have "map_of (ks_indegree ?st) t = Some (int (length (proper_blockers tab t)))"
      using that assms by (intro map_of_is_SomeI) (auto simp: kahn_start_def Let_def comp_def table_ok_def)
    moreover have "card (set (proper_blockers tab t)) = length (proper_blockers tab t)"
      by (intro distinct_card) (simp add: proper_blockers_def distinct_blockers [OF assms])
    ultimately show ?thesis using assms by (simp add: indegree_def graph_deps_eq)
  qed
  have "ks_ready ?st = sort_key index (map fst (filter (\<lambda>r. proper_blockers tab (fst r) = []) tab))"
    by (simp add: kahn_start_def Let_def filter_map comp_def)
  moreover have "distinct (map fst (filter (\<lambda>r. proper_blockers tab (fst r) = []) tab))"
    using assms by (simp add: table_ok_def distinct_map_filter)
  moreover have "set (graph_deps tab t) \<subseteq> {} \<longleftrightarrow> proper_blockers tab t = []" for t by (simp add: graph_deps_def)
  moreover have "ks_result ?st = []" by (simp add: kahn_start_def Let_def)
  ultimately show ?thesis using deg by (auto simp: kahn_inv_def)
qed

lemma card_one_iff: "x \<in> A \<Longrightarrow> card A = 1 \<longleftrightarrow> A = {x}"
  by (metis card_1_singletonE is_singletonI is_singleton_altdef singletonD)

lemma kahn_step_inv:
  assumes tab: "table_ok tab" and inv: "kahn_inv tab st" and ne: "ks_ready st \<noteq> []"
  shows "kahn_inv tab (kahn_step index tab st)"
proof -
  obtain t rest where ready: "ks_ready st = t # rest" using ne by (cases "ks_ready st") auto
  let ?us = "sort_key index (dependents tab t)" and ?R = "set (ks_result st)"
  let ?st = "st\<lparr>ks_ready := rest, ks_result := ks_result st @ [t]\<rparr>" and ?st' = "kahn_step index tab st"
  have step: "?st' = fold (release index) ?us ?st" by (simp add: kahn_step_def ready)
  have t: "t \<in> set (map fst tab)" "t \<notin> ?R" "t \<notin> set rest" "set (graph_deps tab t) \<subseteq> ?R"
    using kahn_invD(1,2) [OF inv] kahn_invD(4) [OF inv, of t] by (auto simp: ready)
  have us: "distinct ?us" "u \<in> set ?us \<longleftrightarrow> t \<in> set (graph_deps tab u)" for u
    using dependents_facts [OF tab] t(1) by auto
  note eff = fold_release [where index = index and st = ?st, OF us(1), folded step]
  have deg0: "indegree (ks_indegree st) u = int (card (set (graph_deps tab u) - ?R))" if "u \<in> set (map fst tab)" for u
    using kahn_invD(3) [OF inv that] .
  have diff: "set (graph_deps tab u) - set (ks_result st @ [t]) = set (graph_deps tab u) - ?R - {t}" for u by auto
  have deg: "indegree (ks_indegree ?st') u = int (card (set (graph_deps tab u) - set (ks_result st @ [t])))" if u: "u \<in> set (map fst tab)" for u
  proof (cases "t \<in> set (graph_deps tab u)")
    case True
    then have "t \<in> set (graph_deps tab u) - ?R" using t(2) by simp
    then have "card (set (graph_deps tab u) - ?R) = Suc (card (set (graph_deps tab u) - set (ks_result st @ [t])))"
      unfolding diff by (intro card.remove) simp_all
    then show ?thesis using True deg0 [OF u] eff(1) [of u] us(2) by simp
  next
    case False
    then have "set (graph_deps tab u) - set (ks_result st @ [t]) = set (graph_deps tab u) - ?R" by auto
    then show ?thesis using False deg0 [OF u] eff(1) [of u] us(2) by simp
  qed
  have new: "u \<in> set ?us \<and> indegree (ks_indegree st) u = 1 \<longleftrightarrow> t \<in> set (graph_deps tab u) \<and> set (graph_deps tab u) - ?R = {t}" for u
  proof (cases "t \<in> set (graph_deps tab u)")
    case True
    then have u: "u \<in> set (map fst tab)" by (rule graph_deps_vertex)
    have "card (set (graph_deps tab u) - ?R) = 1 \<longleftrightarrow> set (graph_deps tab u) - ?R = {t}"
      by (rule card_one_iff) (use True t(2) in simp)
    then show ?thesis using True us(2) deg0 [OF u] by simp
  qed (use us(2) in blast)
  let ?new = "filter (\<lambda>u. indegree (ks_indegree st) u = 1) ?us"
  have ready': "mset (ks_ready ?st') = mset (rest @ ?new)" using eff(2) by simp
  have set_ready': "set (ks_ready ?st') = set rest \<union> {u. t \<in> set (graph_deps tab u) \<and> set (graph_deps tab u) - ?R = {t}}"
    using mset_eq_setD [OF ready'] new by auto
  have mem: "u \<in> set (ks_ready ?st' @ ks_result ?st') \<longleftrightarrow> set (graph_deps tab u) \<subseteq> set (ks_result ?st')" if u: "u \<in> set (map fst tab)" for u
  proof -
    have "u \<in> set (ks_ready st @ ks_result st) \<longleftrightarrow> set (graph_deps tab u) \<subseteq> ?R" using kahn_invD(4) [OF inv u] .
    then have "u = t \<or> u \<in> set rest \<or> u \<in> ?R \<longleftrightarrow> set (graph_deps tab u) \<subseteq> ?R" by (auto simp: ready)
    then show ?thesis using t(2) by (auto simp: set_ready' eff(3))
  qed
  have old: "u \<notin> set (rest @ t # ks_result st)" if "u \<in> set ?new" for u
  proof -
    have "t \<in> set (graph_deps tab u)" using that us(2) by simp
    moreover from this have "u \<in> set (map fst tab)" by (rule graph_deps_vertex)
    ultimately show ?thesis using kahn_invD(4) [OF inv, of u] t(2) by (auto simp: ready)
  qed
  have dist: "distinct (rest @ ks_result st)" using kahn_invD(1) [OF inv] by (auto simp: ready)
  have "distinct (rest @ ?new)" using old dist us(1) by auto
  then have "distinct (ks_ready ?st')" using mset_eq_imp_distinct_iff [OF ready'] by simp
  moreover have "set (ks_ready ?st') = set (rest @ ?new)" using mset_eq_setD [OF ready'] .
  ultimately have "distinct (ks_ready ?st' @ ks_result ?st')" using old dist t(2,3) by (auto simp: eff(3))
  moreover have "set (ks_ready ?st' @ ks_result ?st') \<subseteq> set (map fst tab)"
    using kahn_invD(2) [OF inv] t(1) graph_deps_vertex by (auto simp: ready eff(3) set_ready' simp del: set_map)
  moreover have "settled_order (graph_deps tab) (rev (ks_result ?st'))" using kahn_invD(5) [OF inv] t(2,4) by (simp add: eff(3))
  ultimately show ?thesis using deg mem unfolding kahn_inv_def by (simp add: eff(3))
qed

lemma kahn_loop_end:
  assumes "table_ok tab" and "kahn_inv tab st"
  shows "kahn_inv tab (kahn_loop index tab st) \<and> ks_ready (kahn_loop index tab st) = []"
  using assms
proof (induction index tab st rule: kahn_loop.induct)
  case (1 index tab st)
  show ?case
  proof (cases "ks_ready st = []")
    case True
    then show ?thesis using "1.prems" by (simp add: kahn_loop.simps)
  next
    case False
    have "kahn_loop index tab st = kahn_loop index tab (kahn_step index tab st)" using False by (subst kahn_loop.simps) simp
    with "1.IH" [OF False "1.prems"(1) kahn_step_inv [OF "1.prems" False]] show ?thesis by simp
  qed
qed

lemma topological_result_facts:
  fixes items
  defines "tab \<equiv> dependency_table items" and "result \<equiv> topological_result items"
  shows "settled_order (graph_deps tab) (rev result)" and "set result \<subseteq> set (map fst tab)"
    and "set result = set (map fst tab) \<longleftrightarrow> acyclic (dep_edges (map fst tab) (graph_deps tab))"
proof -
  let ?index = "position (ordered_ids items)"
  let ?st = "kahn_loop ?index tab (kahn_start ?index tab)"
  have tab: "table_ok tab" unfolding tab_def by (rule table_ok_dependency_table)
  have kahn: "kahn_inv tab ?st" and empty: "ks_ready ?st = []" using kahn_loop_end [OF tab kahn_start_inv [OF tab]] by auto
  have res: "result = ks_result ?st" by (simp add: result_def topological_result_def tab_def Let_def)
  have inv: "settled_order (graph_deps tab) (rev result)" "set result \<subseteq> set (map fst tab)"
      "\<And>t. t \<in> set (map fst tab) \<Longrightarrow> t \<in> set result \<longleftrightarrow> set (graph_deps tab t) \<subseteq> set result"
    using kahn_invD(2,4,5) [OF kahn] by (simp_all only: res empty append_Nil)
  then show "settled_order (graph_deps tab) (rev result)" "set result \<subseteq> set (map fst tab)" by simp_all
  show "set result = set (map fst tab) \<longleftrightarrow> acyclic (dep_edges (map fst tab) (graph_deps tab))"
  proof
    assume "set result = set (map fst tab)"
    then show "acyclic (dep_edges (map fst tab) (graph_deps tab))"
      using tg.ordered_acyclic [OF inv(1)] by simp
  next
    assume acyclic: "acyclic (dep_edges (map fst tab) (graph_deps tab))"
    show "set result = set (map fst tab)"
    proof (rule ccontr)
      assume "set result \<noteq> set (map fst tab)"
      then have "set (map fst tab) - set result \<noteq> {}" using inv(2) by blast
      from tg.free_vertex [OF acyclic _ this] obtain x where
        x: "x \<in> set (map fst tab)" "x \<notin> set result" "set (graph_deps tab x) \<inter> (set (map fst tab) - set result) = {}" by auto
      then have "set (graph_deps tab x) \<subseteq> set result" by (auto simp: set_graph_deps)
      with inv(3) [OF x(1)] x(2) show False by simp
    qed
  qed
qed

lemma settled_order_split: "settled_order deps (as @ t # bs) \<Longrightarrow> set (deps t) \<subseteq> set bs"
  by (induction as) auto

lemma self_errors_Nil: "self_errors tab = [] \<longleftrightarrow> (\<forall>r \<in> set tab. fst r \<notin> set (snd r))"
  by (auto simp: self_errors_def filter_empty_conv)

lemma cycle_errors_Nil: "cycle_errors ids result = [] \<longleftrightarrow> set ids \<subseteq> set result"
  by (auto simp: cycle_errors_def Let_def filter_empty_conv)

text \<open>The edges as the task map writes them, self-loops included.\<close>

lemma blocking_edges:
  assumes "table_ok tab" and "self_errors tab = []"
  shows "dep_edges (map fst tab) (blockers tab) = dep_edges (map fst tab) (graph_deps tab)"
proof -
  have "t \<notin> set (blockers tab t)" for t
    using assms(2) by (cases "map_of tab t") (auto simp: self_errors_Nil blockers_def dest!: map_of_SomeD)
  then have "y \<in> set (graph_deps tab x) \<longleftrightarrow> y \<in> set (blockers tab x)" if "y \<in> set (map fst tab)" for x y
    using that by (auto simp: set_graph_deps)
  then show ?thesis unfolding dep_edges_def by blast
qed

lemma no_order_errors:
  fixes items
  defines "tab \<equiv> dependency_table items"
  shows "snd (order_of_items items) = [] \<longleftrightarrow> acyclic (dep_edges (ordered_ids items) (blockers tab))"
    and "snd (order_of_items items) = [] \<Longrightarrow> set (fst (order_of_items items)) = set (ordered_ids items)"
proof -
  have tab: "table_ok tab" and keys: "set (map fst tab) = set (ordered_ids items)"
    unfolding tab_def by (rule table_ok_dependency_table, simp only: dependency_table_def keyed_facts(2))
  have errs: "snd (order_of_items items) = [] \<longleftrightarrow> self_errors tab = [] \<and> set (ordered_ids items) \<subseteq> set (topological_result items)"
    by (simp add: order_of_items_def tab_def cycle_errors_Nil Let_def)
  note facts = topological_result_facts [of items, folded tab_def]
  have E: "dep_edges (ordered_ids items) f = dep_edges (map fst tab) f" for f by (simp add: dep_edges_def flip: keys)
  have complete: "set (ordered_ids items) \<subseteq> set (topological_result items) \<longleftrightarrow> set (topological_result items) = set (map fst tab)"
    using facts(2) keys by blast
  show "set (fst (order_of_items items)) = set (ordered_ids items)" if "snd (order_of_items items) = []"
    using that errs complete keys by (simp add: order_of_items_def Let_def)
  show "snd (order_of_items items) = [] \<longleftrightarrow> acyclic (dep_edges (ordered_ids items) (blockers tab))"
  proof (cases "self_errors tab = []")
    case True
    then show ?thesis using errs complete facts(3) blocking_edges [OF tab True] by (simp add: E)
  next
    case False
    then obtain t ds where t: "(t, ds) \<in> set tab" "t \<in> set ds" by (auto simp: self_errors_Nil)
    then have "map_of tab t = Some ds" using tab by (simp add: table_ok_def)
    then have "(t, t) \<in> dep_edges (map fst tab) (blockers tab)" using t by (force simp: dep_edges_def blockers_def)
    then show ?thesis using False errs E by (auto simp: acyclic_def)
  qed
qed

text \<open>C21: The order of a task map is a topological order, and cycles are reported exactly. Every task of the order comes once and after
  each task of the map that blocks it, other than itself; there is no error if and only if the blocking relation of the map has
  no cycle, and then the order holds all tasks.\<close>

theorem task_order_exact:
  assumes "task_items task_map = Inr items" and "stable_topological_order task_map = Inr (order, errors)"
  shows "distinct order \<and> set order \<subseteq> set (ordered_ids items)
    \<and> (\<forall>before t after. order = before @ t # after \<longrightarrow>
         set (blockers (dependency_table items) t) \<inter> set (ordered_ids items) - {t} \<subseteq> set before)
    \<and> (errors = [] \<longleftrightarrow> acyclic (dep_edges (ordered_ids items) (blockers (dependency_table items))))
    \<and> (errors = [] \<longrightarrow> set order = set (ordered_ids items))"
proof -
  let ?tab = "dependency_table items"
  have out: "order = fst (order_of_items items)" "errors = snd (order_of_items items)" "order = topological_result items"
    using assms by (auto simp: stable_topological_order_def order_of_items_def Let_def)
  have keys: "set (map fst ?tab) = set (ordered_ids items)" by (simp only: dependency_table_def keyed_facts(2))
  note facts = topological_result_facts(1,2) [of items]
  have "distinct (rev order)" using settled_order_distinct [OF facts(1)] out(3) by simp
  moreover have "set (blockers ?tab t) \<inter> set (ordered_ids items) - {t} \<subseteq> set before" if "order = before @ t # after" for before t after
  proof -
    have "rev (topological_result items) = rev after @ t # rev before" by (simp flip: out(3) add: that)
    then have "set (graph_deps ?tab t) \<subseteq> set (rev before)" using settled_order_split facts(1) by metis
    then show ?thesis using keys by (auto simp: set_graph_deps)
  qed
  ultimately show ?thesis using facts(2) keys no_order_errors [of items] out by (simp del: set_map)
qed

definition demo_task :: "string \<Rightarrow> string list \<Rightarrow> json" where
  "demo_task t deps = JObj [(''task_id'', JStr t), (''blocked_by'', JList (map JStr deps))]"

definition demo_task_map :: pydict where
  "demo_task_map = [(''tasks'', JList [demo_task ''C'' [''B''], demo_task ''A'' [], demo_task ''B'' [''A''], demo_task ''D'' []])]"

lemma demo_order: "stable_topological_order demo_task_map = Inr ([''A'', ''B'', ''C'', ''D''], [])"
  by code_simp

theorem task_order_exact_witness:
  "stable_topological_order demo_task_map = Inr ([''A'', ''B'', ''C'', ''D''], [])
   \<and> (\<exists>items. task_items demo_task_map = Inr items \<and> acyclic (dep_edges (ordered_ids items) (blockers (dependency_table items))))"
proof -
  have "\<not> isl (task_items demo_task_map)" by code_simp
  then obtain items where "task_items demo_task_map = Inr items" by (cases "task_items demo_task_map") auto
  with task_order_exact [OF this demo_order] demo_order show ?thesis by blast
qed

section \<open>Evidence comes first\<close>

definition blocks :: "dep_table \<Rightarrow> (string \<times> string) set" where
  "blocks tab = {(x, y). y \<in> set (blockers tab x)}"

lemma closure_loop_sound:
  "set result \<union> set pending \<subseteq> S \<Longrightarrow> (\<And>x. x \<in> S \<Longrightarrow> set (blockers tab x) \<subseteq> S) \<Longrightarrow> set (closure_loop tab result pending) \<subseteq> S"
proof (induction tab result pending rule: closure_loop.induct)
  case (1 tab result pending)
  show ?case
  proof (cases "pending = []")
    case True
    then show ?thesis using "1.prems" by (simp add: closure_loop.simps)
  next
    case False
    then have pend: "last pending \<in> S" "set (butlast pending) \<subseteq> S" using "1.prems"(1) by (auto dest: in_set_butlastD)
    show ?thesis
    proof (cases "last pending \<in> set result")
      case True
      then show ?thesis
        using "1.IH"(1) [OF False refl refl True _ "1.prems"(2)] "1.prems"(1) pend False by (subst closure_loop.simps) simp
    next
      case new: False
      then show ?thesis
        using "1.IH"(2) [OF False refl refl new _ "1.prems"(2)] "1.prems" pend False by (subst closure_loop.simps) (simp add: Let_def)
    qed
  qed
qed

lemma closure_loop_complete:
  "(\<And>x. x \<in> set result \<Longrightarrow> set (blockers tab x) \<subseteq> set result \<union> set pending) \<Longrightarrow>
     set result \<union> set pending \<subseteq> set (closure_loop tab result pending)
     \<and> (\<forall>x \<in> set (closure_loop tab result pending). set (blockers tab x) \<subseteq> set (closure_loop tab result pending))"
proof (induction tab result pending rule: closure_loop.induct)
  case (1 tab result pending)
  show ?case
  proof (cases "pending = []")
    case True
    then show ?thesis using "1.prems" by (simp add: closure_loop.simps)
  next
    case False
    then have pend: "set pending = insert (last pending) (set (butlast pending))"
      by (metis append_butlast_last_id list.simps(15) rotate1.simps(2) set_rotate1)
    show ?thesis
    proof (cases "last pending \<in> set result")
      case True
      have "closure_loop tab result pending = closure_loop tab result (butlast pending)"
        using False True by (subst closure_loop.simps) simp
      moreover have "set result \<union> set pending = set result \<union> set (butlast pending)" using True pend by auto
      ultimately show ?thesis using "1.IH"(1) [OF False refl refl True] "1.prems" by simp
    next
      case new: False
      let ?r = "last pending # result" and ?p = "butlast pending @ blockers tab (last pending)"
      have "closure_loop tab result pending = closure_loop tab ?r ?p" using False new by (subst closure_loop.simps) (simp add: Let_def)
      moreover have "set (blockers tab x) \<subseteq> set ?r \<union> set ?p" if "x \<in> set ?r" for x
        using that "1.prems" [of x] pend by auto
      ultimately show ?thesis using "1.IH"(2) [OF False refl refl new] pend by auto
    qed
  qed
qed

lemma dependency_closure_exact: "p \<in> set (dependency_closure tab t) \<longleftrightarrow> (t, p) \<in> (blocks tab)\<^sup>+"
proof
  show "(t, p) \<in> (blocks tab)\<^sup>+" if "p \<in> set (dependency_closure tab t)"
    using closure_loop_sound [of "[]" "blockers tab t" "{y. (t, y) \<in> (blocks tab)\<^sup>+}" tab] that
    by (auto simp: dependency_closure_def blocks_def intro: trancl_into_trancl)
  show "p \<in> set (dependency_closure tab t)" if "(t, p) \<in> (blocks tab)\<^sup>+"
    using that
  proof induction
    case (base y)
    then show ?case using closure_loop_complete [of "[]" tab "blockers tab t"] by (auto simp: dependency_closure_def blocks_def)
  next
    case (step y z)
    then show ?case using closure_loop_complete [of "[]" tab "blockers tab t"] by (auto simp: dependency_closure_def blocks_def)
  qed
qed

definition before :: "'a list \<Rightarrow> 'a \<Rightarrow> 'a \<Rightarrow> bool" where
  "before xs d t \<longleftrightarrow> (\<exists>as bs. xs = as @ t # bs \<and> d \<in> set as)"

lemma before_trans: "distinct xs \<Longrightarrow> before xs z y \<Longrightarrow> before xs y x \<Longrightarrow> before xs z x"
proof -
  assume dist: "distinct xs" and "before xs z y" "before xs y x"
  then obtain as bs cs ds where z: "xs = as @ y # bs" "z \<in> set as" and y: "xs = cs @ x # ds" "y \<in> set cs"
    unfolding before_def by blast
  from y(2) obtain us vs where cs: "cs = us @ y # vs" by (auto simp: in_set_conv_decomp)
  have eq: "us @ y # vs @ x # ds = as @ y # bs" using z(1) y(1) cs by simp
  have "distinct (as @ y # bs)" "distinct (us @ y # vs @ x # ds)" using dist z(1) y(1) cs by simp_all
  then have "y \<notin> set us" "y \<notin> set (vs @ x # ds)" by auto
  from append_Cons_eq_iff [OF this, THEN iffD1, OF eq] have "us = as" ..
  then have "xs = (as @ y # vs) @ x # ds" "z \<in> set (as @ y # vs)" using y(1) cs z(2) by simp_all
  then show ?thesis unfolding before_def by blast
qed

lemma blocks_known: "(x, y) \<in> blocks tab \<Longrightarrow> x \<in> set (map fst tab)"
  by (cases "map_of tab x") (auto simp: blocks_def blockers_def dest: map_of_SomeD intro: rev_image_eqI)

lemma known_path:
  assumes "(t, p) \<in> (blocks tab)\<^sup>+" and "p \<in> set (map fst tab)"
  shows "(t, p) \<in> (dep_edges (map fst tab) (blockers tab))\<^sup>+"
  using assms
proof induction
  case (base y)
  then show ?case using blocks_known [OF base(1)] by (intro r_into_trancl) (simp add: dep_edges_def blocks_def)
next
  case (step y z)
  then have "(y, z) \<in> dep_edges (map fst tab) (blockers tab)" using blocks_known [OF step(2)] by (simp add: dep_edges_def blocks_def)
  then show ?case using step.IH blocks_known [OF step(2)] by (auto intro: trancl_into_trancl)
qed

lemma ordered_path:
  fixes items
  defines "tab \<equiv> dependency_table items"
  assumes ok: "snd (order_of_items items) = []" and "(t, p) \<in> (dep_edges (map fst tab) (blockers tab))\<^sup>+"
  shows "before (fst (order_of_items items)) p t"
proof -
  let ?order = "topological_result items"
  note facts = topological_result_facts [of items, folded tab_def]
  have out: "fst (order_of_items items) = ?order" "self_errors tab = []" "set ?order = set (map fst tab)"
    using ok no_order_errors(2) [OF ok] keyed_facts(2) [of "\<lambda>item. strings (dict_get item ''blocked_by'')" items]
    by (auto simp: order_of_items_def Let_def tab_def dependency_table_def)
  have dist: "distinct ?order" using settled_order_distinct [OF facts(1)] by simp
  have E: "dep_edges (map fst tab) (blockers tab) = dep_edges (map fst tab) (graph_deps tab)"
    using blocking_edges [OF _ out(2)] table_ok_dependency_table by (simp add: tab_def)
  have step: "before ?order y x" if "(x, y) \<in> dep_edges (map fst tab) (graph_deps tab)" for x y
  proof -
    have "x \<in> set ?order" "y \<in> set (graph_deps tab x)" using that out(3) by (auto simp: dep_edges_def)
    then obtain as bs where order: "?order = as @ x # bs" by (auto simp: in_set_conv_decomp)
    then have "set (graph_deps tab x) \<subseteq> set (rev as)" using facts(1) settled_order_split [of "graph_deps tab" "rev bs" x "rev as"] by simp
    with order \<open>y \<in> set (graph_deps tab x)\<close> show ?thesis by (auto simp: before_def)
  qed
  from assms(3) [unfolded E] have "before ?order p t"
    by induction (blast intro: step before_trans [OF dist])+
  then show ?thesis by (simp add: out(1))
qed

text \<open>What it means to own a path: to name it, to match it, or to name a directory that it lies in.\<close>

inductive owns :: "string \<Rightarrow> string \<Rightarrow> bool" where
  matched: "fnmatch path q \<Longrightarrow> owns path q"
| named: "set slashes \<subseteq> {CHR ''/''} \<Longrightarrow> owns path (path @ slashes)"
| inside: "set tail \<subseteq> {CHR ''/'', CHR ''*''} \<Longrightarrow> owns (dir @ ''/'' @ rest) (dir @ tail)"

text \<open>A path that starts neither with a dot nor with a slash is compared as it is.\<close>

definition plain_path :: "string \<Rightarrow> bool" where
  "plain_path s \<longleftrightarrow> (case s of [] \<Rightarrow> True | c # _ \<Rightarrow> c \<noteq> CHR ''.'' \<and> c \<noteq> CHR ''/'')"

lemma plain_lstrip: "plain_path s \<Longrightarrow> lstrip_chars ''./'' s = s"
  by (cases s) (auto simp: plain_path_def lstrip_chars_def)

lemma rstrip_split: "\<exists>tail. s = rstrip_chars cs s @ tail \<and> set tail \<subseteq> set cs"
proof -
  have "s = rev (dropWhile (\<lambda>c. c \<in> set cs) (rev s)) @ rev (takeWhile (\<lambda>c. c \<in> set cs) (rev s))"
    by (metis rev_append rev_rev_ident takeWhile_dropWhile_id)
  moreover have "set (rev (takeWhile (\<lambda>c. c \<in> set cs) (rev s))) \<subseteq> set cs" by (auto dest: set_takeWhileD)
  ultimately show ?thesis unfolding rstrip_chars_def by blast
qed

lemma path_owned_owns:
  assumes "path_owned path q" "plain_path (strip path)" "plain_path (strip q)"
  shows "owns (strip path) (strip q)"
proof -
  let ?p = "strip path" and ?q = "strip q"
  have "fnmatch ?p ?q \<or> ?p = rstrip_chars ''/'' ?q \<or> startswith ?p (rstrip_chars ''/**'' ?q @ ''/'')"
    using assms by (auto simp: path_owned_def plain_lstrip Let_def split: if_splits)
  then consider (matched) "fnmatch ?p ?q" | (named) "?p = rstrip_chars ''/'' ?q" | (inside) rest where "?p = rstrip_chars ''/**'' ?q @ ''/'' @ rest"
    unfolding startswith_def by (metis append.assoc append_take_drop_id)
  then show ?thesis
  proof cases
    case matched
    then show ?thesis by (rule owns.matched)
  next
    case named
    obtain slashes where "?q = ?p @ slashes" "set slashes \<subseteq> {CHR ''/''}" using rstrip_split [of ?q "''/''"] named by auto
    then show ?thesis using owns.named [of slashes ?p] by simp
  next
    case inside
    obtain tail where "?q = rstrip_chars ''/**'' ?q @ tail" "set tail \<subseteq> {CHR ''/'', CHR ''*''}" using rstrip_split [of ?q "''/**''"] by auto
    then show ?thesis using inside owns.inside [of tail "rstrip_chars ''/**'' ?q" rest] by (metis (no_types))
  qed
qed

lemma strings_stripped: "x \<in> set (strings v) \<Longrightarrow> strip x = x"
  by (auto simp: strings_def)

text \<open>C20: An admitted task map can produce its evidence. When the checks report no error, every piece of evidence a criterion of a
  task asks for names a task of the map as its producer; that producer is the task itself or stands before it in the order in which the tasks
  run; and each path named passes the test of ownership for one of the producer's patterns. For a path and a pattern that start neither with a dot nor with a slash this
  means that the pattern matches the path, is the path up to slashes at its end, or names a directory that the path lies in. Of any other path or pattern
  the test first drops the leading dots and slashes, so that it says less there: hidden_directory_owned.\<close>

theorem evidence_comes_first:
  assumes items: "task_items task_map = Inr items" and ok: "validate_task_map_evidence task_map = Inr (order, [])"
    and task: "(t, task) \<in> set (keyed id items)" and crit: "JObj criterion \<in> set (criteria_of task)"
    and ev: "evidence \<in> set (requirements_of criterion)"
  shows "\<exists>producer. map_of (keyed id items) (sget evidence ''producer_task_id'') = Some producer
    \<and> (\<forall>path \<in> set (strings (dict_get evidence ''producer_paths'')).
         \<exists>k \<in> {''allowed_paths'', ''exclusive_files'', ''shared_files''}. \<exists>q \<in> set (strings (dict_get producer k)).
           path_owned path q \<and> (plain_path path \<and> plain_path q \<longrightarrow> owns path q))
    \<and> (sget evidence ''producer_task_id'' = t \<or> before order (sget evidence ''producer_task_id'') t)"
proof -
  let ?tab = "dependency_table items" and ?tasks = "keyed id items" and ?p = "sget evidence ''producer_task_id''"
  have errs: "snd (order_of_items items) = []" "order = fst (order_of_items items)" "items_evidence_errors items = Inr []"
    using ok items by (auto simp: validate_task_map_evidence_def stable_topological_order_def evidence_producibility_errors_def res_bind_Inr)
  then obtain cs where "concat (map (task_errors ?tasks ?tab (concat cs)) ?tasks) = []"
    by (cases "res_map (\<lambda>r. verification_command_ids (snd r)) ?tasks") (auto simp: items_evidence_errors_def Let_def)
  then have "task_errors ?tasks ?tab (concat cs) (t, task) = []" using task by fastforce
  moreover obtain i where "(i, JObj criterion) \<in> set (enumerate 0 (criteria_of task))"
  proof -
    from crit obtain i where "i < length (criteria_of task)" "criteria_of task ! i = JObj criterion" by (auto simp: in_set_conv_nth)
    then show thesis by (intro that [of i]) (simp add: in_set_enumerate_eq)
  qed
  ultimately have "criterion_errors ?tasks ?tab (concat cs) t task i (JObj criterion) = []" by (fastforce simp: task_errors_def)
  then have none: "evidence_errors ?tasks ?tab (criterion_label t i criterion) t task criterion evidence = []"
    using ev by (auto simp: criterion_errors_def Let_def)
  then obtain producer where producer: "map_of ?tasks ?p = Some producer" by (auto simp: evidence_errors_def Let_def split: option.splits)
  have "?p = t \<or> before order ?p t"
  proof (cases "?p = t")
    case False
    then have "?p \<in> set (dependency_closure ?tab t)" using none producer by (auto simp: evidence_errors_def Let_def split: if_splits)
    then have "(t, ?p) \<in> (blocks ?tab)\<^sup>+" by (simp add: dependency_closure_exact)
    moreover have "?p \<in> set (map fst ?tasks)" using map_of_SomeD [OF producer] by (force intro: rev_image_eqI)
    then have "?p \<in> set (map fst ?tab)" by (simp only: dependency_table_def keyed_facts(2))
    ultimately show ?thesis using ordered_path [OF errs(1) known_path] errs(2) by simp
  qed simp
  moreover have "\<exists>k \<in> {''allowed_paths'', ''exclusive_files'', ''shared_files''}. \<exists>q \<in> set (strings (dict_get producer k)).
      path_owned path q \<and> (plain_path path \<and> plain_path q \<longrightarrow> owns path q)"
    if path: "path \<in> set (strings (dict_get evidence ''producer_paths''))" for path
  proof -
    have "\<exists>k \<in> {''allowed_paths'', ''exclusive_files'', ''shared_files''}. \<exists>q \<in> set (strings (dict_get producer k)). path_owned path q"
      using none producer path by (auto simp: evidence_errors_def Let_def filter_empty_conv list_ex_iff split: if_splits)
    then show ?thesis using path_owned_owns [of path] strings_stripped path by metis
  qed
  ultimately show ?thesis using producer by blast
qed

definition demo_evidence :: pydict where
  "demo_evidence = [(''producer_task_id'', JStr ''A''), (''producer_paths'', JList [JStr ''src/a.py''])]"

definition demo_criterion :: pydict where
  "demo_criterion = [(''id'', JStr ''AC1''), (''evidence_requirements'', JList [JObj demo_evidence])]"

definition demo_producer :: pydict where
  "demo_producer = [(''task_id'', JStr ''A''), (''allowed_paths'', JList [JStr ''src/**''])]"

definition demo_consumer :: pydict where
  "demo_consumer = [(''task_id'', JStr ''B''), (''blocked_by'', JList [JStr ''A'']), (''acceptance_criteria'', JList [JObj demo_criterion])]"

definition demo_evidence_map :: pydict where
  "demo_evidence_map = [(''tasks'', JList [JObj demo_consumer, JObj demo_producer])]"

lemma demo_evidence_facts:
  "task_items demo_evidence_map = Inr [demo_consumer, demo_producer]"
  "validate_task_map_evidence demo_evidence_map = Inr ([''A'', ''B''], [])"
  "keyed id [demo_consumer, demo_producer] = [(''B'', demo_consumer), (''A'', demo_producer)]"
  "criteria_of demo_consumer = [JObj demo_criterion]" "requirements_of demo_criterion = [demo_evidence]"
  "sget demo_evidence ''producer_task_id'' = ''A''"
  by code_simp+

theorem evidence_comes_first_witness:
  "validate_task_map_evidence demo_evidence_map = Inr ([''A'', ''B''], []) \<and> before [''A'', ''B''] ''A'' ''B''
   \<and> requirements_of demo_criterion = [demo_evidence] \<and> owns ''src/a.py'' ''src/**''"
proof -
  have "strings (dict_get demo_evidence ''producer_paths'') = [''src/a.py'']" "strings (dict_get demo_producer ''allowed_paths'') = [''src/**'']"
    "strings (dict_get demo_producer ''exclusive_files'') = []" "strings (dict_get demo_producer ''shared_files'') = []"
    "plain_path ''src/a.py''" "plain_path ''src/**''" by code_simp+
  then have "(sget demo_evidence ''producer_task_id'' = ''B'' \<or> before [''A'', ''B''] (sget demo_evidence ''producer_task_id'') ''B'') \<and> owns ''src/a.py'' ''src/**''"
    using evidence_comes_first [OF demo_evidence_facts(1,2), of "''B''" demo_consumer demo_criterion demo_evidence]
    by (auto simp: demo_evidence_facts(3-6))
  then show ?thesis by (simp add: demo_evidence_facts)
qed

text \<open>The prefix that \<open>lstrip("./")\<close> takes away is any run of dots and slashes, so a directory and its hidden namesake are the same
  owner.\<close>

lemma hidden_directory_owned: "path_owned ''.github/ci.yml'' ''github/**''" "path_owned ''../secret'' ''secret''"
  by code_simp+

end
