(* ===== verification/Run_Isolation.thy ===== *)
theory Run_Isolation
  imports Run_Scope "HOL-Library.Sublist"
begin

text \<open>
  \<open>runtime/run_isolation.py\<close>: whether a further run may start beside the active ones. The check reads the
  scopes, task ids and digests of the active runs from the log and answers with the reason to wait, or with
  the empty string. The configuration of work directories and the function that tells the run of an event
  are arguments.
\<close>

section \<open>Scope paths\<close>

text \<open>\<open>posixpath.normpath\<close>\<close>

definition norm_component :: "bool \<Rightarrow> string \<Rightarrow> string list \<Rightarrow> string list" where
  "norm_component rooted c comps =
     (if c = [] \<or> c = ''.'' then comps
      else if c \<noteq> ''..'' \<or> (\<not> rooted \<and> comps = []) \<or> (comps \<noteq> [] \<and> last comps = ''..'') then comps @ [c]
      else butlast comps)"

definition leading_slashes :: "string \<Rightarrow> string" where
  "leading_slashes p =
     (if startswith p ''//'' \<and> \<not> startswith p ''///'' then ''//'' else if startswith p ''/'' then ''/'' else [])"

definition normpath :: "string \<Rightarrow> string" where
  "normpath p =
     (if p = [] then ''.''
      else str_or (leading_slashes p @ join ''/'' (fold (norm_component (leading_slashes p \<noteq> [])) (split_on CHR ''/'' p) [])) ''.'')"

definition strip_slashes :: "string \<Rightarrow> string" where
  "strip_slashes s = rev (dropWhile (\<lambda>c. c = CHR ''/'') (rev (dropWhile (\<lambda>c. c = CHR ''/'') s)))"

definition rstrip_slashes :: "string \<Rightarrow> string" where
  "rstrip_slashes s = rev (dropWhile (\<lambda>c. c = CHR ''/'') (rev s))"

definition rejected_raw_scope :: "string \<Rightarrow> bool" where
  "rejected_raw_scope raw \<longleftrightarrow>
     raw = [] \<or> CHR 0x00 \<in> set raw \<or> CHR ''*'' \<in> set raw \<or> CHR ''?'' \<in> set raw \<or> CHR ''['' \<in> set raw
     \<or> startswith raw ''/'' \<or> startswith raw ''~'' \<or> (2 \<le> length raw \<and> raw ! 1 = CHR '':'')"

definition normalize_scope_path :: "string \<Rightarrow> string" where
  "normalize_scope_path value =
     (let raw = map (\<lambda>c. if c = CHR 92 then CHR ''/'' else c) (strip value) in
      if rejected_raw_scope raw then []
      else
        (let n = normpath raw in
         if n \<in> {[], ''.'', ''/'', ''..''} \<or> startswith n ''../'' then [] else rstrip_slashes n))"

definition scope_field :: "json \<Rightarrow> string list" where
  "scope_field raw =
     (case raw of
        JStr s \<Rightarrow> map strip (split_on CHR '','' s)
      | JList xs \<Rightarrow> map (\<lambda>v. strip (py_str v)) xs
      | _ \<Rightarrow> [])"

definition scope_values :: "pydict \<Rightarrow> string list" where
  "scope_values p =
     filter (\<lambda>v. v \<noteq> [])
       (scope_field (dict_get p ''scope'') @ scope_field (dict_get p ''paths'') @
        (case dict_get p ''source_refs'' of JObj refs \<Rightarrow> [strip (sget refs ''target_root'')] | _ \<Rightarrow> []))"

definition invalid_scope_values :: "pydict \<Rightarrow> string list" where
  "invalid_scope_values p = filter (\<lambda>v. normalize_scope_path v = []) (scope_values p)"

definition scope_paths :: "pydict \<Rightarrow> string list" where
  "scope_paths p = fromkeys (filter (\<lambda>v. v \<noteq> []) (map normalize_scope_path (scope_values p)))"

definition path_overlap :: "string \<Rightarrow> string \<Rightarrow> bool" where
  "path_overlap a b \<longleftrightarrow> a = b \<or> startswith a (b @ ''/'') \<or> startswith b (a @ ''/'')"

definition paths_overlap :: "string list \<Rightarrow> string list \<Rightarrow> bool" where
  "paths_overlap left right \<longleftrightarrow>
     (let clean = (\<lambda>ps. filter (\<lambda>p. p \<noteq> []) (map strip_slashes ps)) in
      list_ex (\<lambda>a. list_ex (path_overlap a) (clean right)) (clean left))"

section \<open>The check\<close>

record isolation_state =
  is_tasks :: "string list"
  is_digests :: "(string \<times> string list) list"
  is_contracts :: "(string \<times> string list) list"
  is_scopes :: "(string \<times> string list) list"

definition scoped_task_id :: "zf_event \<Rightarrow> string" where
  "scoped_task_id e = strip (text_of (py_or (ev_task_id e) (dict_get (payload_of e) ''task_id'')))"

definition add_to :: "string \<Rightarrow> string list \<Rightarrow> (string \<times> string list) list \<Rightarrow> (string \<times> string list) list" where
  "add_to r xs tab = AList.map_entry r (\<lambda>ys. ys @ xs) tab"

definition add_text :: "string \<Rightarrow> string \<Rightarrow> (string \<times> string list) list \<Rightarrow> (string \<times> string list) list" where
  "add_text r x tab = (if x = [] then tab else AList.map_entry r (List.insert x) tab)"

definition isolation_start :: "string list \<Rightarrow> isolation_state" where
  "isolation_start active =
     (let empty = map (\<lambda>r. (r, [])) active in \<lparr>is_tasks = [], is_digests = empty, is_contracts = empty, is_scopes = empty\<rparr>)"

text \<open>One event of an active run. Its scope is not read when a value of it is invalid: that ends the check.\<close>

definition note_event :: "string \<Rightarrow> zf_event \<Rightarrow> isolation_state \<Rightarrow> isolation_state" where
  "note_event r e st =
     (let p = payload_of e; t = scoped_task_id e in
      st\<lparr>is_tasks := (if t = [] then is_tasks st else List.insert t (is_tasks st)),
         is_digests := add_text r (strip (sget p ''effective_config_digest'')) (is_digests st),
         is_contracts := add_text r (strip (sget p ''run_contract_digest'')) (is_contracts st),
         is_scopes := add_to r (scope_paths p) (is_scopes st)\<rparr>)"

fun scan_active :: "(zf_event \<Rightarrow> string) \<Rightarrow> string list \<Rightarrow> zf_event list \<Rightarrow> isolation_state \<Rightarrow> string + isolation_state" where
  "scan_active run_of active [] st = Inr st"
| "scan_active run_of active (e # es) st =
     (if run_of e \<notin> set active then scan_active run_of active es st
      else if invalid_scope_values (payload_of e) \<noteq> []
        then Inl (''concurrent isolation has invalid work scope for active Run '' @ run_of e)
      else scan_active run_of active es (note_event (run_of e) e st))"

definition first_run :: "(string list \<Rightarrow> bool) \<Rightarrow> (string \<times> string list) list \<Rightarrow> string" where
  "first_run P tab = (case filter (\<lambda>r. P (snd r)) tab of [] \<Rightarrow> [] | r # _ \<Rightarrow> fst r)"

definition required_fields :: "string list" where
  "required_fields = [''workflow_run_id'', ''request_id'', ''effective_config_digest'', ''run_contract_digest'']"

definition missing_fields :: "pydict \<Rightarrow> string list" where
  "missing_fields p = filter (\<lambda>k. strip (sget p k) = []) required_fields"

text \<open>The checks after the scan, in their order; each is a condition with the answer given when it holds.\<close>

definition isolation_checks :: "zf_event \<Rightarrow> isolation_state \<Rightarrow> (bool \<times> string) list" where
  "isolation_checks e st =
     (let p = payload_of e;
          none_config = first_run (\<lambda>ds. ds = []) (is_digests st); two_configs = first_run (\<lambda>ds. length ds \<noteq> 1) (is_digests st);
          none_contract = first_run (\<lambda>ds. ds = []) (is_contracts st); two_contracts = first_run (\<lambda>ds. length ds \<noteq> 1) (is_contracts st);
          none_scope = first_run (\<lambda>ss. ss = []) (is_scopes st);
          digests = concat (map snd (is_digests st)) in
      [(scoped_task_id e \<in> set (is_tasks st), ''concurrent task_id collision: '' @ scoped_task_id e),
       (none_config \<noteq> [], ''concurrent isolation requires pinned config for active Run '' @ none_config),
       (two_configs \<noteq> [], ''concurrent isolation found config identity divergence for active Run '' @ two_configs),
       (none_contract \<noteq> [], ''concurrent isolation requires run contract for active Run '' @ none_contract),
       (two_contracts \<noteq> [], ''concurrent isolation found run contract identity divergence for active Run '' @ two_contracts),
       (digests \<noteq> [] \<and> strip (sget p ''effective_config_digest'') \<notin> set digests, ''concurrent effective config digest mismatch''),
       (none_scope \<noteq> [], ''concurrent isolation requires explicit work scope for active Run '' @ none_scope),
       (invalid_scope_values p \<noteq> [], ''concurrent isolation has invalid work scope''),
       (scope_paths p = [], ''concurrent isolation requires explicit work scope''),
       (paths_overlap (concat (map snd (is_scopes st))) (scope_paths p), ''concurrent workdir scope overlaps an active Run'')])"

fun first_reason :: "(bool \<times> string) list \<Rightarrow> string" where
  "first_reason [] = []"
| "first_reason ((b, msg) # cs) = (if b then msg else first_reason cs)"

record workdir_policy =
  wp_enabled :: bool
  wp_mode :: string

definition concurrent_isolation_blocker ::
  "workdir_policy \<Rightarrow> (zf_event \<Rightarrow> string) \<Rightarrow> zf_event \<Rightarrow> string list \<Rightarrow> zf_event list \<Rightarrow> string" where
  "concurrent_isolation_blocker wp run_of e active events =
     (let p = payload_of e in
      if missing_fields p \<noteq> [] then ''concurrent isolation missing '' @ join '', '' (missing_fields p)
      else if \<not> (wp_enabled wp \<and> wp_mode wp = ''worktree'') then ''concurrent isolation requires runtime.workdirs worktree mode''
      else if scoped_task_id e = [] then ''concurrent isolation requires a scoped task_id''
      else
        (case scan_active run_of active events (isolation_start active) of
           Inl msg \<Rightarrow> msg
         | Inr st \<Rightarrow> first_reason (isolation_checks e st)))"

section \<open>Isolated runs share no file\<close>

text \<open>A scope is a directory or a file, named by its components from the root of the project; what lies under it are the paths that
  extend them.\<close>

definition components :: "string \<Rightarrow> string list" where
  "components p = split_on CHR ''/'' p"

definition lies_under :: "string list \<Rightarrow> string \<Rightarrow> bool" where
  "lies_under path p \<longleftrightarrow> prefix (components p) path"

definition proper_component :: "string \<Rightarrow> bool" where
  "proper_component c \<longleftrightarrow> c \<noteq> [] \<and> CHR ''/'' \<notin> set c"

lemma split_on_no_sep: "x \<in> set (split_on c s) \<Longrightarrow> c \<notin> set x"
proof (induction s arbitrary: x)
  case (Cons a s)
  then show ?case by (cases "split_on c s") (auto split: if_splits)
qed simp

lemma split_on_join: "xs \<noteq> [] \<Longrightarrow> \<forall>x \<in> set xs. c \<notin> set x \<Longrightarrow> split_on c (join [c] xs) = xs"
  by (induction "[c]" xs rule: join.induct) (auto simp: split_on_free split_on_append)

lemma join_append: "xs \<noteq> [] \<Longrightarrow> ys \<noteq> [] \<Longrightarrow> join sep (xs @ ys) = join sep xs @ sep @ join sep ys"
proof (induction sep xs rule: join.induct)
  case (2 sep x)
  then show ?case by (cases ys) auto
qed auto

lemma norm_component_proper:
  "\<forall>x \<in> set comps. proper_component x \<Longrightarrow> CHR ''/'' \<notin> set c \<Longrightarrow> \<forall>x \<in> set (norm_component rooted c comps). proper_component x"
  by (auto simp: norm_component_def proper_component_def dest: in_set_butlastD)

lemma norm_components_proper:
  "\<forall>x \<in> set cs. CHR ''/'' \<notin> set x \<Longrightarrow> \<forall>x \<in> set comps. proper_component x \<Longrightarrow>
     \<forall>x \<in> set (fold (norm_component rooted) cs comps). proper_component x"
proof (induction cs arbitrary: comps)
  case (Cons c cs)
  then have "\<forall>x \<in> set (norm_component rooted c comps). proper_component x" by (intro norm_component_proper) simp_all
  with Cons.IH [of "norm_component rooted c comps"] Cons.prems(1) show ?case by simp
qed simp

lemma ends_without: "x \<noteq> [] \<Longrightarrow> c \<notin> set x \<Longrightarrow> hd x \<noteq> c \<and> last x \<noteq> c"
  by (metis hd_in_set last_in_set)

lemma join_ends_proper:
  assumes "xs \<noteq> []" and "\<forall>x \<in> set xs. proper_component x"
  shows "join ''/'' xs \<noteq> [] \<and> hd (join ''/'' xs) \<noteq> CHR ''/'' \<and> last (join ''/'' xs) \<noteq> CHR ''/''"
  using assms
proof (induction "''/''" xs rule: join.induct)
  case (2 x)
  then show ?case by (simp add: proper_component_def ends_without)
next
  case (3 x y ys)
  then show ?case by (simp add: proper_component_def ends_without)
qed simp

lemma rstrip_slashes_id: "s \<noteq> [] \<Longrightarrow> last s \<noteq> CHR ''/'' \<Longrightarrow> rstrip_slashes s = s"
  by (cases s rule: rev_cases) (auto simp: rstrip_slashes_def)

lemma strip_slashes_id:
  assumes "s \<noteq> []" "hd s \<noteq> CHR ''/''" "last s \<noteq> CHR ''/''"
  shows "strip_slashes s = s"
proof -
  have "dropWhile (\<lambda>c. c = CHR ''/'') s = s" using assms(1,2) by (cases s) auto
  then show ?thesis using rstrip_slashes_id [OF assms(1,3)] by (simp add: strip_slashes_def rstrip_slashes_def)
qed

text \<open>A normalised scope is the join of its components.\<close>

lemma normalized_scope:
  assumes "normalize_scope_path v = p" and "p \<noteq> []"
  shows "p = join ''/'' (components p)" and "\<forall>c \<in> set (components p). proper_component c" and "strip_slashes p = p"
proof -
  define raw where "raw = map (\<lambda>c. if c = CHR 92 then CHR ''/'' else c) (strip v)"
  define cs where "cs = fold (norm_component False) (split_on CHR ''/'' raw) []"
  have ok: "\<not> rejected_raw_scope raw" and n: "normpath raw \<notin> {[], ''.'', ''/'', ''..''}" and p: "p = rstrip_slashes (normpath raw)"
    using assms by (auto simp: normalize_scope_path_def Let_def raw_def split: if_splits)
  have "raw \<noteq> []" using ok by (simp add: rejected_raw_scope_def)
  moreover from this have "leading_slashes raw = []" using ok
    by (cases raw) (auto simp: rejected_raw_scope_def leading_slashes_def startswith_def)
  ultimately have path: "normpath raw = str_or (join ''/'' cs) ''.''" by (simp add: normpath_def cs_def)
  then have cs: "cs \<noteq> []" using n by (auto simp: str_or_def)
  have proper: "\<forall>c \<in> set cs. proper_component c"
    unfolding cs_def by (rule norm_components_proper) (auto dest: split_on_no_sep)
  note ends = join_ends_proper [OF cs proper]
  have "p = join ''/'' cs" using p path ends by (simp add: str_or_def rstrip_slashes_id)
  moreover from this have "components p = cs" using split_on_join [OF cs] proper by (auto simp: components_def proper_component_def)
  ultimately show "p = join ''/'' (components p)" "\<forall>c \<in> set (components p). proper_component c" "strip_slashes p = p"
    using proper ends strip_slashes_id by auto
qed

lemma scope_path_normalized: "p \<in> set (scope_paths d) \<Longrightarrow> \<exists>v. normalize_scope_path v = p \<and> p \<noteq> []"
  by (auto simp: scope_paths_def)

lemma prefix_overlap:
  assumes a: "normalize_scope_path u = a" "a \<noteq> []" and b: "normalize_scope_path v = b" "b \<noteq> []" and pre: "prefix (components a) (components b)"
  shows "a = b \<or> startswith b (a @ ''/'')"
proof -
  obtain zs where zs: "components b = components a @ zs" using pre by (auto elim: prefixE)
  show ?thesis
  proof (cases "zs = []")
    case True
    then show ?thesis using zs normalized_scope(1) [OF a] normalized_scope(1) [OF b] by simp
  next
    case False
    have "components a \<noteq> []" by (simp add: components_def)
    then have "b = a @ ''/'' @ join ''/'' zs"
      using False zs normalized_scope(1) [OF a] normalized_scope(1) [OF b] by (metis join_append)
    then show ?thesis by (simp add: startswith_def)
  qed
qed

lemma no_overlap_disjoint:
  assumes "\<not> paths_overlap as bs" and "a \<in> set as" "b \<in> set bs"
    and "\<exists>v. normalize_scope_path v = a \<and> a \<noteq> []" "\<exists>v. normalize_scope_path v = b \<and> b \<noteq> []"
  shows "\<not> (lies_under path a \<and> lies_under path b)"
proof
  assume under: "lies_under path a \<and> lies_under path b"
  from assms(4,5) obtain u v where uv: "normalize_scope_path u = a" "a \<noteq> []" "normalize_scope_path v = b" "b \<noteq> []" by blast
  from under have "prefix (components a) (components b) \<or> prefix (components b) (components a)"
    by (auto simp: lies_under_def dest: prefix_same_cases)
  then have "path_overlap a b"
    using prefix_overlap [OF uv] prefix_overlap [OF uv(3,4,1,2)] unfolding path_overlap_def by blast
  moreover have "strip_slashes a = a" "strip_slashes b = b" using normalized_scope(3) uv by blast+
  ultimately show False using assms(1-3) uv by (force simp: paths_overlap_def Let_def list_ex_iff)
qed

lemma first_reason_none: "first_reason cs = [] \<Longrightarrow> \<forall>c \<in> set cs. snd c \<noteq> [] \<Longrightarrow> \<forall>c \<in> set cs. \<not> fst c"
  by (induction cs rule: first_reason.induct) (auto split: if_splits)

lemma map_of_map_entry: "map_of (AList.map_entry k f al) r = (if r = k then map_option f (map_of al k) else map_of al r)"
  by (induction al) auto

lemma note_event_simps:
  "map_of (is_scopes (note_event r e st)) q =
     (if q = r then map_option (\<lambda>ys. ys @ scope_paths (payload_of e)) (map_of (is_scopes st) r) else map_of (is_scopes st) q)"
  "set (is_tasks (note_event r e st)) = (if scoped_task_id e = [] then {} else {scoped_task_id e}) \<union> set (is_tasks st)"
  by (simp_all add: note_event_def Let_def add_to_def map_of_map_entry)

lemma scan_keeps:
  "scan_active run_of active es st = Inr st' \<Longrightarrow>
     set (is_tasks st) \<subseteq> set (is_tasks st')
     \<and> (\<forall>r xs. map_of (is_scopes st) r = Some xs \<longrightarrow> (\<exists>ys. map_of (is_scopes st') r = Some ys \<and> set xs \<subseteq> set ys))"
proof (induction es arbitrary: st)
  case (Cons e es)
  show ?case
  proof (cases "run_of e \<in> set active")
    case True
    then have rest: "scan_active run_of active es (note_event (run_of e) e st) = Inr st'" using Cons.prems by (simp split: if_splits)
    note IH = Cons.IH [OF rest, unfolded note_event_simps]
    have "\<exists>ys. map_of (is_scopes st') r = Some ys \<and> set xs \<subseteq> set ys" if "map_of (is_scopes st) r = Some xs" for r xs
      using conjunct2 [OF IH, rule_format, of r] that by (cases "r = run_of e") auto
    then show ?thesis using IH by blast
  qed (use Cons in simp)
qed auto

text \<open>What the scan has collected of the events of the active runs.\<close>

lemma scan_collects:
  assumes "scan_active run_of active es st = Inr st'" and "e \<in> set es" and "run_of e \<in> set active"
    and "map_of (is_scopes st) (run_of e) \<noteq> None"
  shows "(\<exists>ys. map_of (is_scopes st') (run_of e) = Some ys \<and> set (scope_paths (payload_of e)) \<subseteq> set ys)
    \<and> (scoped_task_id e \<noteq> [] \<longrightarrow> scoped_task_id e \<in> set (is_tasks st'))"
  using assms
proof (induction es arbitrary: st)
  case (Cons x es)
  show ?case
  proof (cases "run_of x \<in> set active")
    case False
    then show ?thesis using Cons by auto
  next
    case True
    let ?st = "note_event (run_of x) x st"
    have rest: "scan_active run_of active es ?st = Inr st'" using True Cons.prems(1) by (simp split: if_splits)
    have known: "map_of (is_scopes ?st) (run_of e) \<noteq> None" using Cons.prems(4) by (auto simp: note_event_simps)
    show ?thesis
    proof (cases "e \<in> set es")
      case True
      then show ?thesis using Cons.IH [OF rest _ Cons.prems(3) known] by blast
    next
      case False
      then have "e = x" using Cons.prems(2) by simp
      then obtain zs where "map_of (is_scopes ?st) (run_of e) = Some zs" "set (scope_paths (payload_of e)) \<subseteq> set zs"
        using Cons.prems(4) by (auto simp: note_event_simps)
      moreover have "scoped_task_id e \<noteq> [] \<Longrightarrow> scoped_task_id e \<in> set (is_tasks ?st)" using \<open>e = x\<close> by (simp add: note_event_simps)
      ultimately show ?thesis using scan_keeps [OF rest] by blast
    qed
  qed
qed simp

lemma scan_message: "scan_active run_of active es st = Inl msg \<Longrightarrow> msg \<noteq> []"
  by (induction es arbitrary: st) (auto split: if_splits)

lemma start_scopes: "r \<in> set active \<Longrightarrow> map_of (is_scopes (isolation_start active)) r \<noteq> None"
  by (auto simp: isolation_start_def Let_def map_of_eq_None_iff image_image)

text \<open>C13: Runs that are active together do not touch the same files. When the check lets a run start beside the active ones, no path lies
  both under a scope it declares and under a scope any event of an active run declares, and its task is not the task of an event of an active
  run.\<close>

theorem concurrent_runs_isolated:
  assumes clear: "concurrent_isolation_blocker wp run_of e active events = []"
    and event: "c \<in> set events" "run_of c \<in> set active"
  shows "(\<forall>path. \<forall>a \<in> set (scope_paths (payload_of c)). \<forall>b \<in> set (scope_paths (payload_of e)). \<not> (lies_under path a \<and> lies_under path b))
    \<and> scope_paths (payload_of e) \<noteq> [] \<and> invalid_scope_values (payload_of e) = [] \<and> scoped_task_id c \<noteq> scoped_task_id e"
proof -
  obtain st where scan: "scan_active run_of active events (isolation_start active) = Inr st" and "first_reason (isolation_checks e st) = []"
    and task: "scoped_task_id e \<noteq> []"
    using clear by (auto simp: concurrent_isolation_blocker_def Let_def split: if_splits sum.splits dest: scan_message)
  moreover have "\<forall>c \<in> set (isolation_checks e st). snd c \<noteq> []" by (simp add: isolation_checks_def Let_def)
  ultimately have "\<forall>c \<in> set (isolation_checks e st). \<not> fst c" by (blast dest: first_reason_none)
  then have checks: "scoped_task_id e \<notin> set (is_tasks st)" "invalid_scope_values (payload_of e) = []" "scope_paths (payload_of e) \<noteq> []"
    "\<not> paths_overlap (concat (map snd (is_scopes st))) (scope_paths (payload_of e))"
    by (simp_all add: isolation_checks_def Let_def)
  obtain ys where ys: "map_of (is_scopes st) (run_of c) = Some ys" "set (scope_paths (payload_of c)) \<subseteq> set ys"
    and tasks: "scoped_task_id c \<noteq> [] \<longrightarrow> scoped_task_id c \<in> set (is_tasks st)"
    using scan_collects [OF scan event start_scopes [OF event(2)]] by blast
  have "set ys \<subseteq> set (concat (map snd (is_scopes st)))" using map_of_SomeD [OF ys(1)] by force
  then have "\<not> (lies_under path a \<and> lies_under path b)" if "a \<in> set (scope_paths (payload_of c))" "b \<in> set (scope_paths (payload_of e))" for path a b
    using no_overlap_disjoint [OF checks(4) _ that(2) scope_path_normalized scope_path_normalized, OF _ that] ys(2) that(1) by blast
  then show ?thesis using checks tasks task by auto
qed

definition demo_scoped :: "string \<Rightarrow> string \<Rightarrow> string \<Rightarrow> string \<Rightarrow> zf_event" where
  "demo_scoped i r t s =
     (new_event (i, []) ''workflow.invoke.requested'')\<lparr>ev_task_id := JStr t,
        ev_payload := JObj [(''workflow_run_id'', JStr r), (''request_id'', JStr r), (''effective_config_digest'', JStr ''cfg''),
          (''run_contract_digest'', JStr ''ctr''), (''scope'', JStr s)]\<rparr>"

definition demo_run_of :: "zf_event \<Rightarrow> string" where
  "demo_run_of e = sget (payload_of e) ''workflow_run_id''"

theorem concurrent_runs_isolated_witness:
  "concurrent_isolation_blocker \<lparr>wp_enabled = True, wp_mode = ''worktree''\<rparr> demo_run_of (demo_scoped ''e2'' ''B'' ''t2'' ''src/web, docs'') [''A'']
     [demo_scoped ''e1'' ''A'' ''t1'' ''src/core/./x/..''] = []
   \<and> scope_paths (payload_of (demo_scoped ''e1'' ''A'' ''t1'' ''src/core/./x/..'')) = [''src/core'']
   \<and> scoped_task_id (demo_scoped ''e1'' ''A'' ''t1'' ''src/core/./x/..'') \<noteq> scoped_task_id (demo_scoped ''e2'' ''B'' ''t2'' ''src/web, docs'')"
proof -
  let ?a = "demo_scoped ''e1'' ''A'' ''t1'' ''src/core/./x/..''" and ?b = "demo_scoped ''e2'' ''B'' ''t2'' ''src/web, docs''"
  have clear: "concurrent_isolation_blocker \<lparr>wp_enabled = True, wp_mode = ''worktree''\<rparr> demo_run_of ?b [''A''] [?a] = []" by code_simp
  have "scope_paths (payload_of ?a) = [''src/core'']" by code_simp
  moreover have "demo_run_of ?a = ''A''" by code_simp
  ultimately show ?thesis using concurrent_runs_isolated [OF clear, of ?a] clear by simp
qed

end
