(* ===== verification/Run_Admission.thy ===== *)
theory Run_Admission
  imports Run_Isolation
begin

text \<open>
  \<open>runtime/run_admission.py\<close> with the controls of \<open>runtime/control_actions_run.py\<close>: which runs of a project are active, queued,
  paused or over, and the admission of further ones. All of it is derived from the event log; the operations append
  events and return the log. What is not the module's own is a field of the record \<open>admission_runtime\<close>: the configured policy, the
  ids and times of new events, the writer (a function from the log and an event to the event as written), and the values of the budget meter
  and of the run limits.
\<close>

section \<open>Event types and run ids\<close>

definition RUN_ADMISSION_SCHEMA_VERSION :: string where
  "RUN_ADMISSION_SCHEMA_VERSION = ''run-admission.v1''"

definition RUN_ADMISSION_EVENT_TYPES :: "string list" where
  "RUN_ADMISSION_EVENT_TYPES =
     [''run.admission.requested'', ''run.admission.admitted'', ''run.admission.queued'', ''run.admission.released'', ''run.admission.rejected'']"

definition ADMISSION_TERMINAL_EVENT_TYPES :: "string list" where
  "ADMISSION_TERMINAL_EVENT_TYPES =
     [''run.goal.completed'', ''run.goal.blocked'', ''run.completed'', ''run.failed'', ''run.cancelled'', ''run.abandoned'',
      ''workflow.result.available'']"

definition RUN_ADMISSION_RECONCILE_EVENT_TYPES :: "string list" where
  "RUN_ADMISSION_RECONCILE_EVENT_TYPES = [''workflow.invoke.requested'', ''run.admission.rejected''] @ ADMISSION_TERMINAL_EVENT_TYPES"

definition SUCCESS_EVENT_TYPES :: "string list" where
  "SUCCESS_EVENT_TYPES =
     [''dev.build.done'', ''review.approved'', ''verify.passed'', ''test.passed'', ''judge.passed'', ''arch.proposal.done'',
      ''design.critique.done'']"

definition COMPLETED_RUN_DUPLICATE_EVENT_TYPES :: "string list" where
  "COMPLETED_RUN_DUPLICATE_EVENT_TYPES =
     SUCCESS_EVENT_TYPES @
     [''fanout.child.completed'', ''impl.child.completed'', ''review.child.completed'', ''task.done.evidence'', ''verify.child.completed'']"

definition LEGACY_RUNNING_EVENTS :: "string list" where
  "LEGACY_RUNNING_EVENTS = [''run.started'', ''run.goal.started'', ''workflow.invoke.accepted'']"

definition OUTCOME_EVENTS :: "string list" where
  "OUTCOME_EVENTS = [''workflow.invoke.accepted'', ''workflow.invoke.rejected'']"

definition run_id_of :: "zf_event \<Rightarrow> string" where
  "run_id_of e =
     (let p = payload_of e; c = strip (sget_first p [''workflow_run_id'', ''run_id'']) in
      if c \<noteq> [] then c
      else if type_in e [''workflow.invoke.requested''] then strip (text_of (py_or (dict_get p ''request_id'') (ev_id e)))
      else if type_in e (RUN_ADMISSION_EVENT_TYPES @ ADMISSION_TERMINAL_EVENT_TYPES @ LEGACY_RUNNING_EVENTS @ [''run.paused'', ''run.resumed''])
        then strip (text_of (ev_correlation_id e))
      else [])"

text \<open>The runs that were asked for and have no outcome yet. The dict is keyed by the id of the request.\<close>

definition add_invoke :: "zf_event \<Rightarrow> (json \<times> string) list \<Rightarrow> (json \<times> string) list" where
  "add_invoke e tab =
     (if type_in e [''workflow.invoke.requested''] \<and> run_id_of e \<noteq> [] then AList.update (ev_id e) (run_id_of e) tab else tab)"

definition invoke_by_id :: "zf_event list \<Rightarrow> (json \<times> string) list" where
  "invoke_by_id rows = fold add_invoke rows []"

definition settles_invoke :: "(json \<times> string) list \<Rightarrow> zf_event \<Rightarrow> string \<Rightarrow> bool" where
  "settles_invoke tab e r \<longleftrightarrow>
     type_in e OUTCOME_EVENTS \<and> (map_of tab (JStr (sget (payload_of e) ''source_event_id'')) = Some r \<or> run_id_of e = r)"

definition pending_invoke_run_ids :: "zf_event list \<Rightarrow> string list" where
  "pending_invoke_run_ids rows =
     (let tab = invoke_by_id rows in filter (\<lambda>r. \<not> list_ex (\<lambda>e. settles_invoke tab e r) rows) (fromkeys (map snd tab)))"

section \<open>The projection\<close>

record run_entry =
  re_run_id :: string
  re_request_id :: string
  re_status :: string
  re_source_event_id :: string
  re_task_id :: string
  re_first_seen_index :: nat
  re_queued_index :: "nat option"
  re_admitted_event_id :: json
  re_terminal_event_id :: json
  re_terminal_type :: string
  re_blocker :: string
  re_event_ids :: "json list"

definition is_active :: "run_entry \<Rightarrow> bool" where
  "is_active en \<longleftrightarrow> re_status en \<in> {''running'', ''paused''}"

definition run_over :: "run_entry \<Rightarrow> bool" where
  "run_over en \<longleftrightarrow> re_status en \<in> {''completed'', ''blocked'', ''cancelled'', ''failed'', ''rejected'', ''abandoned''}"

definition new_run_entry :: "string \<Rightarrow> nat \<Rightarrow> run_entry" where
  "new_run_entry r i =
     \<lparr>re_run_id = r, re_request_id = [], re_status = ''requested'', re_source_event_id = [], re_task_id = [], re_first_seen_index = i,
      re_queued_index = None, re_admitted_event_id = JStr [], re_terminal_event_id = JStr [], re_terminal_type = [], re_blocker = [],
      re_event_ids = []\<rparr>"

definition relevant_event :: "zf_event \<Rightarrow> bool" where
  "relevant_event e \<longleftrightarrow>
     type_in e (RUN_ADMISSION_EVENT_TYPES @ ADMISSION_TERMINAL_EVENT_TYPES @ LEGACY_RUNNING_EVENTS @ [''run.paused'', ''run.resumed'', ''run.goal.updated''])"

definition note_identity :: "zf_event \<Rightarrow> run_entry \<Rightarrow> run_entry" where
  "note_identity e en =
     (let p = payload_of e; req = strip (sget p ''request_id''); src = strip (sget p ''source_event_id'');
          t = strip (text_of (py_or (ev_task_id e) (dict_get p ''task_id''))) in
      en\<lparr>re_request_id := (if req \<noteq> [] then req else if re_request_id en = [] \<and> type_in e RUN_ADMISSION_EVENT_TYPES then re_run_id en else re_request_id en),
         re_source_event_id := (if src \<noteq> [] then src else re_source_event_id en),
         re_task_id := (if t \<noteq> [] then t else re_task_id en),
         re_event_ids := (if truthy (ev_id e) then re_event_ids en @ [ev_id e] else re_event_ids en)\<rparr>)"

definition has_dedicated_admission :: "run_entry \<Rightarrow> bool" where
  "has_dedicated_admission en \<longleftrightarrow> truthy (re_admitted_event_id en) \<or> re_queued_index en \<noteq> None \<or> re_source_event_id en \<noteq> []"

definition terminal_status :: "zf_event \<Rightarrow> string" where
  "terminal_status e =
     (let p = payload_of e; status = lower (strip (sget p ''status'')) in
      if type_in e [''run.goal.completed''] then ''completed''
      else if type_in e [''workflow.result.available'']
        then (if sget p ''result_kind'' = ''research_report'' \<and> sget p ''status'' = ''available'' then ''completed'' else ''failed'')
      else if type_in e [''run.goal.blocked''] then ''blocked''
      else if type_in e [''run.cancelled''] then ''cancelled''
      else if type_in e [''run.abandoned''] then ''abandoned''
      else if type_in e [''run.failed''] then ''failed''
      else if status \<in> {''passed'', ''completed'', ''success'', ''succeeded''} then ''completed''
      else if status \<in> {''cancelled'', ''canceled''} then ''cancelled''
      else if status = ''blocked'' then ''blocked''
      else ''failed'')"

definition reopens_goal :: "zf_event \<Rightarrow> bool" where
  "reopens_goal e \<longleftrightarrow> strip (sget (payload_of e) ''status'') \<in> {''active'', ''running''}"

text \<open>The branches of the loop. \<open>pending\<close> says whether the run is among the pending ones.\<close>

definition advance :: "bool \<Rightarrow> nat \<Rightarrow> zf_event \<Rightarrow> run_entry \<Rightarrow> run_entry" where
  "advance pending i e en =
     (if type_in e [''run.admission.requested''] then (if run_over en then en else en\<lparr>re_status := ''requested''\<rparr>)
      else if type_in e [''run.admission.queued''] then
        (if run_over en then en
         else en\<lparr>re_status := ''queued'', re_blocker := sget (payload_of e) ''reason'',
                 re_queued_index := (if re_queued_index en = None then Some i else re_queued_index en)\<rparr>)
      else if type_in e [''run.admission.admitted'', ''run.admission.released''] then
        (if run_over en then en
         else en\<lparr>re_status := ''running'', re_blocker := [],
                 re_admitted_event_id := (if type_in e [''run.admission.admitted''] then ev_id e else re_admitted_event_id en)\<rparr>)
      else if type_in e [''run.admission.rejected''] then
        en\<lparr>re_status := ''rejected'', re_blocker := sget (payload_of e) ''reason'', re_terminal_event_id := ev_id e,
           re_terminal_type := ''run.admission.rejected''\<rparr>
      else if type_in e [''run.paused''] then (if run_over en then en else en\<lparr>re_status := ''paused''\<rparr>)
      else if type_in e [''run.resumed''] then (if run_over en then en else en\<lparr>re_status := ''running''\<rparr>)
      else if type_in e [''run.goal.updated''] then
        (if reopens_goal e \<and> (\<not> run_over en \<or> re_terminal_type en = ''run.goal.blocked'')
         then en\<lparr>re_status := ''running'', re_blocker := [], re_terminal_event_id := JStr [], re_terminal_type := []\<rparr> else en)
      else if type_in e LEGACY_RUNNING_EVENTS then
        (if \<not> run_over en \<and> \<not> has_dedicated_admission en \<and> \<not> pending then en\<lparr>re_status := ''running''\<rparr> else en)
      else en\<lparr>re_status := terminal_status e, re_terminal_event_id := ev_id e, re_terminal_type := py_str (ev_type e)\<rparr>)"

type_synonym run_table = "(string \<times> run_entry) list"

definition admission_step :: "string list \<Rightarrow> nat \<times> zf_event \<Rightarrow> run_table \<Rightarrow> run_table" where
  "admission_step pending ie runs =
     (let e = snd ie; r = run_id_of e in
      if r = [] \<or> \<not> relevant_event e then runs
      else
        (let en = (case map_of runs r of Some en \<Rightarrow> en | None \<Rightarrow> new_run_entry r (fst ie)) in
         AList.update r (advance (r \<in> set pending) (fst ie) e (note_identity e en)) runs))"

definition admission_runs :: "zf_event list \<Rightarrow> run_table" where
  "admission_runs rows = fold (admission_step (pending_invoke_run_ids rows)) (enumerate 0 rows) []"

record admission_projection =
  ap_runs :: run_table
  ap_active :: "string list"
  ap_queued :: "string list"

definition is_waiting :: "run_entry \<Rightarrow> bool" where
  "is_waiting en \<longleftrightarrow> re_status en = ''queued'' \<and> re_queued_index en \<noteq> None"

definition queue_key :: "run_entry \<Rightarrow> nat \<times> nat" where
  "queue_key en = (the (re_queued_index en), re_first_seen_index en)"

definition build_run_admission_projection :: "zf_event list \<Rightarrow> admission_projection" where
  "build_run_admission_projection rows =
     (let runs = admission_runs rows; entries = map snd runs in
      \<lparr>ap_runs = runs,
       ap_active = map re_run_id (sort_key re_first_seen_index (filter is_active entries)),
       ap_queued = map re_run_id (sort_key queue_key (filter is_waiting entries))\<rparr>)"

fun position_in :: "string \<Rightarrow> string list \<Rightarrow> nat" where
  "position_in r [] = 0"
| "position_in r (x # xs) = (if x = r then 1 else (case position_in r xs of 0 \<Rightarrow> 0 | Suc n \<Rightarrow> Suc (Suc n)))"

definition queue_position :: "admission_projection \<Rightarrow> string \<Rightarrow> nat" where
  "queue_position proj r = position_in r (ap_queued proj)"

definition entry_for_request :: "admission_projection \<Rightarrow> string \<Rightarrow> run_entry option" where
  "entry_for_request proj request_id = find (\<lambda>en. re_request_id en = strip request_id) (map snd (ap_runs proj))"

text \<open>The runs that are over, by their canonical names.\<close>

definition terminal_scope_step :: "aliases \<Rightarrow> string \<Rightarrow> zf_event \<Rightarrow> (string \<times> string) list \<Rightarrow> (string \<times> string) list" where
  "terminal_scope_step al single e tab =
     (let r = str_or (event_run_id al e) single in
      if r = [] then tab
      else if type_in e ADMISSION_TERMINAL_EVENT_TYPES then AList.update r (py_str (ev_type e)) tab
      else if type_in e [''run.goal.updated''] \<and> reopens_goal e \<and> map_of tab r = Some ''run.goal.blocked'' then AList.delete r tab
      else tab)"

definition fold_terminal_run_scope :: "zf_event list \<Rightarrow> aliases \<times> string list" where
  "fold_terminal_run_scope rows =
     (let al = run_aliases rows; single = (case fromkeys (map snd al) of [r] \<Rightarrow> r | _ \<Rightarrow> []) in
      (al, map fst (fold (terminal_scope_step al single) rows [])))"

section \<open>Admission\<close>

record admission_runtime =
  rn_mode :: string
  rn_max_active_runs :: int
  rn_workdirs :: workdir_policy
  rn_budget :: json
  rn_run_limits :: json
  rn_actor :: string
  rn_surface :: string
  rn_fresh :: "nat \<Rightarrow> fresh"
  rn_write :: "zf_event list \<Rightarrow> zf_event \<Rightarrow> zf_event"

definition policy_mode :: "admission_runtime \<Rightarrow> string" where
  "policy_mode rt = str_or (rn_mode rt) ''serial''"

definition policy_max_active_runs :: "admission_runtime \<Rightarrow> nat" where
  "policy_max_active_runs rt =
     (let limit = (if rn_max_active_runs rt = 0 then 1 else rn_max_active_runs rt) in
      if policy_mode rt = ''serial'' then 1 else nat (max 2 (min limit 8)))"

text \<open>An event is built with the next free id and given to the writer.\<close>

definition append_built :: "admission_runtime \<Rightarrow> string \<Rightarrow> (zf_event \<Rightarrow> zf_event) \<Rightarrow> zf_event list \<Rightarrow> zf_event list" where
  "append_built rt type fill log = log @ [rn_write rt log (fill (new_event (rn_fresh rt (length log)) type))]"

definition admission_payload :: "zf_event \<Rightarrow> string \<Rightarrow> string \<Rightarrow> pydict" where
  "admission_payload e r request =
     [(''schema_version'', JStr RUN_ADMISSION_SCHEMA_VERSION), (''run_id'', JStr r), (''workflow_run_id'', JStr r), (''request_id'', JStr request),
      (''task_id'', JStr (text_of (py_or (ev_task_id e) (dict_get (payload_of e) ''task_id'')))), (''source_event_id'', ev_id e),
      (''effective_config_digest'', JStr (sget (payload_of e) ''effective_config_digest'')),
      (''run_contract_digest'', JStr (sget (payload_of e) ''run_contract_digest''))]"

definition admission_event_for_source :: "zf_event list \<Rightarrow> string \<Rightarrow> json \<Rightarrow> bool" where
  "admission_event_for_source log type source \<longleftrightarrow>
     list_ex (\<lambda>e. type_in e [type] \<and> JStr (sget (payload_of e) ''source_event_id'') = source) log"

definition fill_admission :: "zf_event \<Rightarrow> string \<Rightarrow> pydict \<Rightarrow> zf_event \<Rightarrow> zf_event" where
  "fill_admission e r p x =
     x\<lparr>ev_actor := JStr ''orchestrator'', ev_task_id := ev_task_id e, ev_payload := JObj p, ev_causation_id := ev_id e,
       ev_correlation_id := py_or (ev_correlation_id e) (JStr r)\<rparr>"

text \<open>Record an admission event for the source event, unless the log has one.\<close>

definition record_once :: "admission_runtime \<Rightarrow> string \<Rightarrow> zf_event \<Rightarrow> string \<Rightarrow> pydict \<Rightarrow> zf_event list \<Rightarrow> zf_event list" where
  "record_once rt type e r p log =
     (if admission_event_for_source log type (ev_id e) then log else append_built rt type (fill_admission e r p) log)"

record admission_decision =
  ad_status :: string
  ad_run_id :: string
  ad_request_id :: string
  ad_source_event_id :: json
  ad_queue_position :: nat
  ad_reason :: string
  ad_replayed :: bool

definition may_dispatch :: "admission_decision \<Rightarrow> bool" where
  "may_dispatch d \<longleftrightarrow> ad_status d = ''admitted''"

definition decision :: "run_entry \<Rightarrow> admission_projection \<Rightarrow> bool \<Rightarrow> admission_decision" where
  "decision en proj replayed =
     \<lparr>ad_status = (if re_status en = ''running'' then ''admitted'' else re_status en), ad_run_id = re_run_id en, ad_request_id = re_request_id en,
      ad_source_event_id = JStr (re_source_event_id en), ad_queue_position = queue_position proj (re_run_id en), ad_reason = re_blocker en,
      ad_replayed = replayed\<rparr>"

definition set_default :: "string \<Rightarrow> json \<Rightarrow> pydict \<Rightarrow> pydict" where
  "set_default k v d = (if has_key d k then d else dict_set d k v)"

text \<open>\<open>payload.setdefault\<close> writes to the event itself when its payload is a dict.\<close>

definition with_identity :: "zf_event \<Rightarrow> string \<Rightarrow> string \<Rightarrow> zf_event" where
  "with_identity e r request =
     (case ev_payload e of
        JObj d \<Rightarrow> e\<lparr>ev_payload := JObj (set_default ''request_id'' (JStr request) (set_default ''run_id'' (JStr r) (set_default ''workflow_run_id'' (JStr r) d)))\<rparr>
      | _ \<Rightarrow> e)"

definition request_id_of :: "zf_event \<Rightarrow> string" where
  "request_id_of e = strip (text_of (py_or (dict_get (payload_of e) ''request_id'') (JStr (run_id_of e))))"

text \<open>A known run that is over, paused or admitted is answered as it stands.\<close>

definition replay_answer :: "admission_projection \<Rightarrow> zf_event \<Rightarrow> run_entry \<Rightarrow> admission_decision option" where
  "replay_answer proj e en =
     (if run_over en \<or> re_status en = ''paused'' then Some (decision en proj True)
      else if re_status en = ''running'' \<and> truthy (re_admitted_event_id en) then
        Some \<lparr>ad_status = ''admitted'', ad_run_id = run_id_of e, ad_request_id = str_or (re_request_id en) (request_id_of e),
              ad_source_event_id = (if re_source_event_id en \<noteq> [] then JStr (re_source_event_id en) else ev_id e),
              ad_queue_position = 0, ad_reason = [], ad_replayed = True\<rparr>
      else None)"

definition admission_blocker :: "admission_runtime \<Rightarrow> zf_event \<Rightarrow> string \<Rightarrow> zf_event list \<Rightarrow> string" where
  "admission_blocker rt e r log =
     (let others = filter (\<lambda>a. a \<noteq> r) (ap_active (build_run_admission_projection log)) in
      if policy_max_active_runs rt \<le> length others then ''project active Run capacity reached''
      else if policy_mode rt = ''concurrent'' \<and> others \<noteq> []
        then concurrent_isolation_blocker (rn_workdirs rt) run_id_of e others log
      else [])"

definition plain_decision :: "string \<Rightarrow> zf_event \<Rightarrow> string \<Rightarrow> string \<Rightarrow> nat \<Rightarrow> string \<Rightarrow> bool \<Rightarrow> admission_decision" where
  "plain_decision status e r request pos reason replayed =
     \<lparr>ad_status = status, ad_run_id = r, ad_request_id = request, ad_source_event_id = ev_id e, ad_queue_position = pos, ad_reason = reason,
      ad_replayed = replayed\<rparr>"

definition enqueue :: "admission_runtime \<Rightarrow> zf_event \<Rightarrow> string \<Rightarrow> string \<Rightarrow> string \<Rightarrow> zf_event list \<Rightarrow> zf_event list" where
  "enqueue rt e r request blocker log =
     (let others = filter (\<lambda>a. a \<noteq> r) (ap_active (build_run_admission_projection log)) in
      record_once rt ''run.admission.queued'' e r
        (admission_payload e r request @ [(''reason'', JStr blocker), (''active_run_ids'', JList (map JStr others))]) log)"

definition release_run :: "admission_runtime \<Rightarrow> zf_event \<Rightarrow> string \<Rightarrow> string \<Rightarrow> zf_event list \<Rightarrow> zf_event list" where
  "release_run rt e r request log =
     record_once rt ''run.admission.released'' e r (admission_payload e r request @ [(''reason'', JStr ''Run capacity released'')]) log"

definition admit_run :: "admission_runtime \<Rightarrow> zf_event \<Rightarrow> string \<Rightarrow> string \<Rightarrow> zf_event list \<Rightarrow> zf_event list" where
  "admit_run rt e r request log =
     record_once rt ''run.admission.admitted'' e r
       (admission_payload e r request @
        [(''policy_mode'', JStr (policy_mode rt)), (''max_active_runs'', JInt (int (policy_max_active_runs rt))),
         (''budget_snapshot'', rn_budget rt), (''run_limits'', rn_run_limits rt)]) log"

definition request_run :: "admission_runtime \<Rightarrow> zf_event \<Rightarrow> string \<Rightarrow> string \<Rightarrow> zf_event list \<Rightarrow> zf_event list" where
  "request_run rt e r request log = record_once rt ''run.admission.requested'' e r (admission_payload e r request) log"

text \<open>Admission proper, for a run that is not answered as it stands; \<open>existing\<close> is its entry before.\<close>

definition admit_or_queue :: "admission_runtime \<Rightarrow> zf_event \<Rightarrow> string \<Rightarrow> string \<Rightarrow> run_entry option \<Rightarrow> zf_event list \<Rightarrow> admission_decision \<times> zf_event list" where
  "admit_or_queue rt e r request existing log =
     (let log1 = request_run rt e r request log; blocker = admission_blocker rt e r log1; known = existing \<noteq> None in
      if blocker \<noteq> [] then
        (let log2 = enqueue rt e r request blocker log1 in
         (plain_decision ''queued'' e r request (queue_position (build_run_admission_projection log2) r) blocker known, log2))
      else
        (let was_queued = (case existing of Some en \<Rightarrow> re_status en = ''queued'' | None \<Rightarrow> False);
             log2 = (if was_queued then release_run rt e r request log1 else log1) in
         (plain_decision ''admitted'' e r request 0 [] known, admit_run rt e r request log2)))"

definition admit_workflow_invoke :: "admission_runtime \<Rightarrow> zf_event \<Rightarrow> zf_event list \<Rightarrow> admission_decision \<times> zf_event list" where
  "admit_workflow_invoke rt e log =
     (let r = run_id_of e; request = request_id_of e in
      if r = [] then (plain_decision ''rejected'' e [] request 0 ''workflow invoke requires workflow_run_id or run_id'' False, log)
      else
        (let proj = build_run_admission_projection log; existing = map_of (ap_runs proj) r;
             e' = with_identity e r request in
         (case (case existing of None \<Rightarrow> None | Some en \<Rightarrow> replay_answer proj e en) of
            Some d \<Rightarrow> (d, log)
          | None \<Rightarrow> admit_or_queue rt e' r request existing log)))"

definition reject_workflow_invoke_admission :: "admission_runtime \<Rightarrow> zf_event \<Rightarrow> string \<Rightarrow> zf_event list \<Rightarrow> zf_event list" where
  "reject_workflow_invoke_admission rt e reason log =
     (let r = run_id_of e; request = request_id_of e; nested =
            (case map_of (ap_runs (build_run_admission_projection log)) r of
               None \<Rightarrow> False
             | Some en \<Rightarrow> is_active en \<and> truthy (re_admitted_event_id en) \<and> JStr (re_source_event_id en) \<noteq> ev_id e) in
      if r = [] \<or> nested then log
      else
        record_once rt ''run.admission.rejected'' e r
          (admission_payload e r request @ [(''reason'', JStr (str_or reason ''workflow invoke rejected''))])
          (request_run rt e r request log))"

section \<open>Reconciliation\<close>

definition source_has_outcome :: "zf_event list \<Rightarrow> string \<Rightarrow> bool" where
  "source_has_outcome log source \<longleftrightarrow> list_ex (\<lambda>e. type_in e OUTCOME_EVENTS \<and> sget (payload_of e) ''source_event_id'' = source) log"

definition unanswered :: "zf_event list \<Rightarrow> run_entry \<Rightarrow> bool" where
  "unanswered log en \<longleftrightarrow>
     re_status en = ''running'' \<and> truthy (re_admitted_event_id en) \<and> \<not> source_has_outcome log (re_source_event_id en)"

definition candidates :: "admission_runtime \<Rightarrow> zf_event list \<Rightarrow> string list" where
  "candidates rt log =
     (let proj = build_run_admission_projection log in
      filter (\<lambda>r. case map_of (ap_runs proj) r of None \<Rightarrow> False | Some en \<Rightarrow> unanswered log en) (ap_active proj)
      @ (if length (ap_active proj) < policy_max_active_runs rt then ap_queued proj else []))"

definition invoke_with_id :: "string \<Rightarrow> zf_event list \<Rightarrow> zf_event option" where
  "invoke_with_id i log = find (\<lambda>e. ev_id e = JStr i \<and> type_in e [''workflow.invoke.requested'']) log"

fun first_source :: "run_table \<Rightarrow> string list \<Rightarrow> zf_event list \<Rightarrow> string list \<Rightarrow> zf_event option" where
  "first_source runs attempted log [] = None"
| "first_source runs attempted log (r # rs) =
     (case map_of runs r of
        None \<Rightarrow> first_source runs attempted log rs
      | Some en \<Rightarrow>
          if re_source_event_id en = [] \<or> re_source_event_id en \<in> set attempted then first_source runs attempted log rs
          else
            (case invoke_with_id (re_source_event_id en) log of
               Some e \<Rightarrow> Some e
             | None \<Rightarrow> first_source runs attempted log rs))"

definition next_source :: "admission_runtime \<Rightarrow> string list \<Rightarrow> zf_event list \<Rightarrow> zf_event option" where
  "next_source rt attempted log =
     first_source (ap_runs (build_run_admission_projection log)) attempted log (fromkeys (candidates rt log))"

text \<open>The loop. The handler of an invocation is an argument; the fuel bounds the number of rounds.\<close>

fun reconcile_loop ::
  "admission_runtime \<Rightarrow> (zf_event \<Rightarrow> zf_event list \<Rightarrow> zf_event list) \<Rightarrow> nat \<Rightarrow> string list \<Rightarrow> nat \<Rightarrow> zf_event list \<Rightarrow> (nat \<times> zf_event list) option" where
  "reconcile_loop rt handle 0 attempted replayed log = None"
| "reconcile_loop rt handle (Suc fuel) attempted replayed log =
     (case next_source rt attempted log of
        None \<Rightarrow> Some (replayed, log)
      | Some e \<Rightarrow>
          (let log' = handle e log in
           if policy_mode rt = ''serial'' then Some (Suc replayed, log')
           else reconcile_loop rt handle fuel (py_str (ev_id e) # attempted) (Suc replayed) log'))"

definition reconcile_run_admission ::
  "admission_runtime \<Rightarrow> (zf_event \<Rightarrow> zf_event list \<Rightarrow> zf_event list) \<Rightarrow> nat \<Rightarrow> zf_event list \<Rightarrow> (nat \<times> zf_event list) option" where
  "reconcile_run_admission rt handle fuel log = reconcile_loop rt handle fuel [] 0 log"

section \<open>Fences\<close>

text \<open>The run of a task: from its contract, else from the last event about it that names one.\<close>

definition task_workflow_run_id :: "pydict \<Rightarrow> zf_event list \<Rightarrow> string" where
  "task_workflow_run_id task log =
     (let evidence = as_dict (dict_get (as_dict (dict_get task ''contract'')) ''evidence_contract'');
          named = strip (sget_first evidence [''workflow_run_id'', ''run_id'', ''request_id'']); t = strip (sget task ''id'');
          run = (\<lambda>e. strip (sget_first (payload_of e) [''workflow_run_id'', ''project_run_id''])) in
      if named \<noteq> [] then named
      else if t = [] then []
      else
        (case find (\<lambda>e. text_of (py_or (ev_task_id e) (dict_get (payload_of e) ''task_id'')) = t \<and> run e \<noteq> []) (rev log) of
           None \<Rightarrow> []
         | Some e \<Rightarrow> run e))"

definition candidate_run :: "string \<Rightarrow> zf_event option \<Rightarrow> pydict option \<Rightarrow> zf_event list \<Rightarrow> string" where
  "candidate_run run event task log =
     (let by_event = (case event of None \<Rightarrow> [] | Some e \<Rightarrow> run_id_of e) in
      if strip run \<noteq> [] then strip run
      else if by_event \<noteq> [] then by_event
      else (case task of None \<Rightarrow> [] | Some t \<Rightarrow> task_workflow_run_id t log))"

definition run_dispatch_block_reason :: "string \<Rightarrow> zf_event option \<Rightarrow> pydict option \<Rightarrow> zf_event list \<Rightarrow> string" where
  "run_dispatch_block_reason run event task log =
     (case map_of (ap_runs (build_run_admission_projection log)) (candidate_run run event task log) of
        None \<Rightarrow> []
      | Some en \<Rightarrow>
          if re_status en = ''paused'' then ''run_paused''
          else if run_over en then ''run_terminal:'' @ re_status en
          else if re_status en \<noteq> ''running'' then ''run_not_admitted:'' @ re_status en
          else [])"

definition blocked_before :: "string \<Rightarrow> string \<Rightarrow> string \<Rightarrow> string \<Rightarrow> zf_event \<Rightarrow> bool" where
  "blocked_before run source task reason x \<longleftrightarrow>
     (let p = payload_of x in
      type_in x [''run.dispatch.blocked''] \<and> sget p ''run_id'' = run \<and> sget p ''source_event_id'' = source
      \<and> text_of (py_or (ev_task_id x) (dict_get p ''task_id'')) = task \<and> sget p ''reason'' = reason)"

definition record_run_dispatch_blocked ::
  "admission_runtime \<Rightarrow> string \<Rightarrow> string \<Rightarrow> zf_event option \<Rightarrow> pydict option \<Rightarrow> zf_event list \<Rightarrow> zf_event list" where
  "record_run_dispatch_blocked rt reason run event task log =
     (let r = candidate_run run event task log; source = (case event of None \<Rightarrow> [] | Some e \<Rightarrow> py_str (ev_id e));
          t = str_or (case task of None \<Rightarrow> [] | Some d \<Rightarrow> sget d ''id'') (case event of None \<Rightarrow> [] | Some e \<Rightarrow> text_of (ev_task_id e)) in
      if reason = [] \<or> (case event of None \<Rightarrow> False | Some e \<Rightarrow> type_in e [''run.dispatch.blocked'']) \<or> r = []
         \<or> list_ex (blocked_before r source t reason) log then log
      else
        append_built rt ''run.dispatch.blocked'' (\<lambda>x. x\<lparr>ev_actor := JStr ''orchestrator'', ev_task_id := (if t = [] then JNull else JStr t),
          ev_payload := JObj [(''schema_version'', JStr RUN_ADMISSION_SCHEMA_VERSION), (''run_id'', JStr r), (''workflow_run_id'', JStr r),
            (''task_id'', JStr t), (''source_event_id'', JStr source), (''reason'', JStr reason)],
          ev_causation_id := (if source = [] then JNull else JStr source), ev_correlation_id := JStr r\<rparr>) log)"

text \<open>The run of a result: named in its payload, else in the manifest of its fanout, else the run of its task. The manifest and the task are
  arguments.\<close>

definition result_run :: "(string \<Rightarrow> pydict) \<Rightarrow> (json \<Rightarrow> pydict option) \<Rightarrow> zf_event \<Rightarrow> zf_event list \<Rightarrow> string" where
  "result_run manifest_of task_of e log =
     (let p = payload_of e; named = strip (sget p ''workflow_run_id''); fanout = strip (sget p ''fanout_id''); m = manifest_of fanout;
          trigger = as_dict (dict_get m ''trigger_payload'');
          by_fanout = (if fanout = [] then [] else
            strip (text_of (py_or (dict_get trigger ''workflow_run_id'') (dict_get m ''workflow_run_id'')))) in
      if named \<noteq> [] then named
      else if by_fanout \<noteq> [] then by_fanout
      else if truthy (ev_task_id e) then (case task_of (ev_task_id e) of None \<Rightarrow> [] | Some t \<Rightarrow> task_workflow_run_id t log)
      else [])"

definition late_result_reason :: "run_entry \<Rightarrow> string" where
  "late_result_reason en =
     (if run_over en then ''run_terminal:'' @ re_status en
      else if re_status en \<in> {''requested'', ''queued''} then ''run_not_admitted:'' @ re_status en
      else [])"

definition audit_type :: "run_entry \<Rightarrow> zf_event \<Rightarrow> string" where
  "audit_type en e =
     (if re_status en = ''completed'' \<and> type_in e COMPLETED_RUN_DUPLICATE_EVENT_TYPES then ''run.result.duplicate_suppressed'' else ''run.result.rejected'')"

definition record_late_result :: "admission_runtime \<Rightarrow> zf_event \<Rightarrow> string \<Rightarrow> run_entry \<Rightarrow> zf_event list \<Rightarrow> zf_event list" where
  "record_late_result rt e r en log =
     (if list_ex (\<lambda>x. type_in x [audit_type en e] \<and> JStr (sget (payload_of x) ''source_event_id'') = ev_id e \<and> sget (payload_of x) ''run_id'' = r) log
      then log
      else
        append_built rt (audit_type en e) (\<lambda>x. x\<lparr>ev_actor := JStr ''orchestrator'', ev_task_id := ev_task_id e,
          ev_payload := JObj [(''schema_version'', JStr RUN_ADMISSION_SCHEMA_VERSION), (''run_id'', JStr r), (''workflow_run_id'', JStr r),
            (''request_id'', JStr (re_request_id en)), (''source_event_id'', ev_id e), (''source_event_type'', ev_type e),
            (''reason'', JStr (late_result_reason en)), (''terminal_event_id'', re_terminal_event_id en),
            (''terminal_type'', JStr (re_terminal_type en)),
            (''duplicate_terminal_success'', JBool (audit_type en e = ''run.result.duplicate_suppressed''))],
          ev_causation_id := ev_id e, ev_correlation_id := JStr r\<rparr>) log)"

definition reject_late_run_result ::
  "admission_runtime \<Rightarrow> (string \<Rightarrow> pydict) \<Rightarrow> (json \<Rightarrow> pydict option) \<Rightarrow> zf_event \<Rightarrow> zf_event list \<Rightarrow> string \<times> zf_event list" where
  "reject_late_run_result rt manifest_of task_of e log =
     (let r = result_run manifest_of task_of e log in
      (case map_of (ap_runs (build_run_admission_projection log)) r of
         None \<Rightarrow> ([], log)
       | Some en \<Rightarrow>
           if late_result_reason en = [] then ([], log) else (late_result_reason en, record_late_result rt e r en log)))"

definition request_admission_view :: "zf_event list \<Rightarrow> string \<Rightarrow> string \<Rightarrow> pydict" where
  "request_admission_view log request run =
     (let proj = build_run_admission_projection log; by_run = (if run = [] then None else map_of (ap_runs proj) (strip run)) in
      (case (case by_run of None \<Rightarrow> entry_for_request proj request | Some en \<Rightarrow> Some en) of
         None \<Rightarrow>
           [(''status'', JStr []), (''run_id'', JStr run), (''queue_position'', JInt 0), (''active'', JBool False), (''terminal'', JBool False)]
       | Some en \<Rightarrow>
           [(''schema_version'', JStr RUN_ADMISSION_SCHEMA_VERSION), (''status'', JStr (re_status en)), (''run_id'', JStr (re_run_id en)),
            (''request_id'', JStr (re_request_id en)), (''queue_position'', JInt (int (queue_position proj (re_run_id en)))),
            (''active'', JBool (is_active en)), (''terminal'', JBool (run_over en)), (''blocker'', JStr (re_blocker en)),
            (''terminal_type'', JStr (re_terminal_type en)), (''terminal_event_id'', re_terminal_event_id en)]))"

section \<open>Pause, resume and cancel\<close>

datatype run_action = Pause | Resume | Cancel

fun action_name :: "run_action \<Rightarrow> string" where
  "action_name Pause = ''run-pause''"
| "action_name Resume = ''run-resume''"
| "action_name Cancel = ''run-cancel''"

fun action_event :: "run_action \<Rightarrow> string" where
  "action_event Pause = ''run.paused''"
| "action_event Resume = ''run.resumed''"
| "action_event Cancel = ''run.cancelled''"

fun action_status :: "run_action \<Rightarrow> string" where
  "action_status Pause = ''paused''"
| "action_status Resume = ''running''"
| "action_status Cancel = ''cancelled''"

text \<open>Whether the action is done already, not allowed, or to be carried out.\<close>

datatype control_verdict = Already | Invalid | Allowed

fun control_check :: "run_action \<Rightarrow> run_entry \<Rightarrow> control_verdict" where
  "control_check Pause en = (if re_status en = ''paused'' then Already else if re_status en \<noteq> ''running'' then Invalid else Allowed)"
| "control_check Resume en = (if re_status en = ''running'' then Already else if re_status en \<noteq> ''paused'' then Invalid else Allowed)"
| "control_check Cancel en = (if re_status en = ''cancelled'' then Already else if run_over en then Invalid else Allowed)"

definition latest_event_id :: "zf_event list \<Rightarrow> string \<Rightarrow> string \<Rightarrow> json" where
  "latest_event_id log type r =
     (case find (\<lambda>e. type_in e [type] \<and>
        text_of (py_or (dict_get (payload_of e) ''workflow_run_id'') (py_or (dict_get (payload_of e) ''run_id'') (ev_correlation_id e))) = r) (rev log) of
        None \<Rightarrow> JStr []
      | Some e \<Rightarrow> ev_id e)"

definition failed_action :: "admission_runtime \<Rightarrow> zf_event \<Rightarrow> string \<Rightarrow> string \<Rightarrow> string \<Rightarrow> zf_event list \<Rightarrow> zf_event list" where
  "failed_action rt requested action requested_action reason log =
     (let p = [(''action'', JStr action), (''requested_action'', JStr requested_action), (''reason'', JStr reason)];
          log1 = append_built rt ''runtime.action.failed'' (\<lambda>x. x\<lparr>ev_actor := JStr (rn_actor rt), ev_payload := JObj p, ev_causation_id := ev_id requested,
            ev_correlation_id := ev_correlation_id requested\<rparr>) log; first = last log1 in
      append_built rt (rn_surface rt @ ''.action.failed'') (\<lambda>x. x\<lparr>ev_actor := JStr (rn_actor rt), ev_payload := JObj p, ev_causation_id := ev_id first,
        ev_correlation_id := ev_correlation_id first\<rparr>) log1)"

definition completed_action :: "admission_runtime \<Rightarrow> zf_event \<Rightarrow> zf_event \<Rightarrow> string \<Rightarrow> pydict \<Rightarrow> zf_event list \<Rightarrow> zf_event list" where
  "completed_action rt requested event task p log =
     (let fill = (\<lambda>x. x\<lparr>ev_actor := JStr (rn_actor rt), ev_task_id := (if task = [] then JNull else JStr task), ev_payload := JObj p,
            ev_causation_id := ev_id event, ev_correlation_id := py_or (ev_correlation_id event) (ev_correlation_id requested)\<rparr>) in
      append_built rt (rn_surface rt @ ''.action.completed'') fill (append_built rt ''runtime.action.completed'' fill log))"

definition control_payload :: "run_action \<Rightarrow> zf_event \<Rightarrow> pydict \<Rightarrow> run_entry \<Rightarrow> string \<Rightarrow> zf_event list \<Rightarrow> pydict" where
  "control_payload act requested p en r log =
     [(''schema_version'', JStr RUN_ADMISSION_SCHEMA_VERSION), (''run_id'', JStr r), (''workflow_run_id'', JStr r),
      (''request_id'', JStr (sget_or p ''request_id'' (str_or (re_request_id en) r))), (''reason'', JStr (strip (sget_or p ''reason'' (action_name act)))),
      (''source_event_id'', ev_id requested)]
     @ (if act = Resume then [(''paused_event_id'', latest_event_id log ''run.paused'' r)] else [])"

text \<open>The answer is the status code with the status reported.\<close>

definition run_control_action ::
  "admission_runtime \<Rightarrow> run_action \<Rightarrow> zf_event \<Rightarrow> string \<Rightarrow> pydict \<Rightarrow> zf_event list \<Rightarrow> (nat \<times> string) \<times> zf_event list" where
  "run_control_action rt act requested requested_action p log =
     (let r = strip (sget_first p [''run_id'', ''workflow_run_id'']) in
      (case map_of (ap_runs (build_run_admission_projection log)) r of
         None \<Rightarrow> ((404, ''not_found''), failed_action rt requested (action_name act) requested_action (''Run not found: '' @ r) log)
       | Some en \<Rightarrow>
           (case control_check act en of
              Already \<Rightarrow> ((200, action_status act), log)
            | Invalid \<Rightarrow>
                ((409, ''invalid_transition''),
                 failed_action rt requested (action_name act) requested_action
                   (''invalid Run transition: '' @ re_status en @ '' -> '' @ action_name act) log)
            | Allowed \<Rightarrow>
                (let log1 = append_built rt (action_event act) (\<lambda>x. x\<lparr>ev_actor := JStr (rn_actor rt),
                       ev_task_id := (if re_task_id en = [] then JNull else JStr (re_task_id en)),
                       ev_payload := JObj (control_payload act requested p en r log), ev_causation_id := ev_id requested,
                       ev_correlation_id := JStr r\<rparr>) log in
                 ((200, action_status act),
                  completed_action rt requested (last log1) (re_task_id en)
                    [(''action'', JStr (action_name act)), (''requested_action'', JStr requested_action), (''status'', JStr (action_status act)),
                     (''run_id'', JStr r), (''request_id'', JStr (sget_or p ''request_id'' (str_or (re_request_id en) r)))] log1)))))"

section \<open>The entry of one run\<close>

text \<open>The table is the events of each run taken on their own.\<close>

definition concerns :: "string \<Rightarrow> zf_event \<Rightarrow> bool" where
  "concerns r e \<longleftrightarrow> run_id_of e = r \<and> r \<noteq> [] \<and> relevant_event e"

definition entry_step :: "bool \<Rightarrow> string \<Rightarrow> nat \<times> zf_event \<Rightarrow> run_entry option \<Rightarrow> run_entry option" where
  "entry_step pending r ie en =
     (if concerns r (snd ie)
      then Some (advance pending (fst ie) (snd ie) (note_identity (snd ie) (case en of Some x \<Rightarrow> x | None \<Rightarrow> new_run_entry r (fst ie))))
      else en)"

definition track :: "bool \<Rightarrow> string \<Rightarrow> zf_event list \<Rightarrow> run_entry option" where
  "track pending r rows = fold (entry_step pending r) (enumerate 0 rows) None"

definition is_pending :: "zf_event list \<Rightarrow> string \<Rightarrow> bool" where
  "is_pending rows r \<longleftrightarrow> r \<in> set (pending_invoke_run_ids rows)"

definition active_run :: "zf_event list \<Rightarrow> string \<Rightarrow> bool" where
  "active_run rows r \<longleftrightarrow> (\<exists>en. track (is_pending rows r) r rows = Some en \<and> is_active en)"

lemma map_of_admission_step: "map_of (admission_step pend ie runs) r = entry_step (r \<in> set pend) r ie (map_of runs r)"
  by (cases ie) (auto simp: admission_step_def entry_step_def concerns_def Let_def update_conv')

lemma map_of_admission_runs: "map_of (admission_runs rows) r = track (is_pending rows r) r rows"
proof -
  have "map_of (fold (admission_step pend) ies runs) r = fold (entry_step (r \<in> set pend) r) ies (map_of runs r)" for pend ies runs
    by (induction ies arbitrary: runs) (simp_all add: map_of_admission_step)
  then show ?thesis by (simp add: admission_runs_def track_def is_pending_def)
qed

lemma track_Nil [simp]: "track f r [] = None"
  by (simp add: track_def)

lemma track_snoc: "track f r (rows @ [e]) = entry_step f r (length rows, e) (track f r rows)"
  by (simp add: track_def enumerate_append_eq)

lemma type_in_single: "type_in e [t] \<longleftrightarrow> ev_type e = JStr t"
  by (simp add: type_in_def)

lemma type_in_str: "ev_type e = JStr t \<Longrightarrow> type_in e ts \<longleftrightarrow> t \<in> set ts"
  by (auto simp: type_in_def)

text \<open>The branches of \<^const>\<open>advance\<close> by the type of the event.\<close>

lemma advance_eqs:
  "ev_type e = JStr ''run.admission.requested'' \<Longrightarrow> advance f i e en = (if run_over en then en else en\<lparr>re_status := ''requested''\<rparr>)"
  "ev_type e = JStr ''run.admission.queued'' \<Longrightarrow> advance f i e en = (if run_over en then en
     else en\<lparr>re_status := ''queued'', re_blocker := sget (payload_of e) ''reason'',
             re_queued_index := (if re_queued_index en = None then Some i else re_queued_index en)\<rparr>)"
  "ev_type e = JStr ''run.admission.admitted'' \<Longrightarrow> advance f i e en = (if run_over en then en
     else en\<lparr>re_status := ''running'', re_blocker := [], re_admitted_event_id := ev_id e\<rparr>)"
  "ev_type e = JStr ''run.admission.released'' \<Longrightarrow> advance f i e en = (if run_over en then en
     else en\<lparr>re_status := ''running'', re_blocker := []\<rparr>)"
  "ev_type e = JStr ''run.admission.rejected'' \<Longrightarrow> advance f i e en =
     en\<lparr>re_status := ''rejected'', re_blocker := sget (payload_of e) ''reason'', re_terminal_event_id := ev_id e, re_terminal_type := ''run.admission.rejected''\<rparr>"
  "ev_type e = JStr ''run.paused'' \<Longrightarrow> advance f i e en = (if run_over en then en else en\<lparr>re_status := ''paused''\<rparr>)"
  "ev_type e = JStr ''run.resumed'' \<Longrightarrow> advance f i e en = (if run_over en then en else en\<lparr>re_status := ''running''\<rparr>)"
  "ev_type e = JStr ''run.goal.updated'' \<Longrightarrow> advance f i e en =
     (if reopens_goal e \<and> (\<not> run_over en \<or> re_terminal_type en = ''run.goal.blocked'')
      then en\<lparr>re_status := ''running'', re_blocker := [], re_terminal_event_id := JStr [], re_terminal_type := []\<rparr> else en)"
  by (simp_all add: advance_def type_in_def LEGACY_RUNNING_EVENTS_def)

lemma advance_legacy:
  "type_in e LEGACY_RUNNING_EVENTS \<Longrightarrow> advance f i e en =
     (if \<not> run_over en \<and> \<not> has_dedicated_admission en \<and> \<not> f then en\<lparr>re_status := ''running''\<rparr> else en)"
proof -
  assume "type_in e LEGACY_RUNNING_EVENTS"
  then obtain t where "ev_type e = JStr t" "t = ''run.started'' \<or> t = ''run.goal.started'' \<or> t = ''workflow.invoke.accepted''"
    by (auto simp: type_in_def LEGACY_RUNNING_EVENTS_def)
  then show ?thesis by (elim disjE) (simp_all add: advance_def type_in_def LEGACY_RUNNING_EVENTS_def)
qed

lemma advance_terminal:
  "type_in e ADMISSION_TERMINAL_EVENT_TYPES \<Longrightarrow> advance f i e en =
     en\<lparr>re_status := terminal_status e, re_terminal_event_id := ev_id e, re_terminal_type := py_str (ev_type e)\<rparr>"
proof -
  assume "type_in e ADMISSION_TERMINAL_EVENT_TYPES"
  then obtain t where "ev_type e = JStr t" "t \<in> set ADMISSION_TERMINAL_EVENT_TYPES" by (auto simp: type_in_def)
  then show ?thesis unfolding ADMISSION_TERMINAL_EVENT_TYPES_def
    by (simp only: set_simps insert_iff empty_iff, elim disjE) (simp_all add: advance_def type_in_def LEGACY_RUNNING_EVENTS_def)
qed

definition kind_of :: "zf_event \<Rightarrow> bool" where
  "kind_of e \<longleftrightarrow> ev_type e = JStr ''run.admission.requested'' \<or> ev_type e = JStr ''run.admission.queued'' \<or> ev_type e = JStr ''run.admission.admitted''
     \<or> ev_type e = JStr ''run.admission.released'' \<or> ev_type e = JStr ''run.admission.rejected'' \<or> ev_type e = JStr ''run.paused''
     \<or> ev_type e = JStr ''run.resumed'' \<or> ev_type e = JStr ''run.goal.updated'' \<or> type_in e LEGACY_RUNNING_EVENTS
     \<or> type_in e ADMISSION_TERMINAL_EVENT_TYPES"

lemma relevant_kinds: "relevant_event e = kind_of e"
  by (auto simp: relevant_event_def kind_of_def type_in_def RUN_ADMISSION_EVENT_TYPES_def)

lemma advance_run_id [simp]: "re_run_id (advance f i e en) = re_run_id en"
  by (simp add: advance_def)

lemma note_identity_simps [simp]:
  "re_run_id (note_identity e en) = re_run_id en" "re_status (note_identity e en) = re_status en"
  "run_over (note_identity e en) = run_over en" "is_active (note_identity e en) = is_active en"
  "re_terminal_type (note_identity e en) = re_terminal_type en"
  by (simp_all add: note_identity_def Let_def run_over_def is_active_def)

lemma track_run_id: "track f r rows = Some en \<Longrightarrow> re_run_id en = r \<and> r \<noteq> []"
proof (induction rows arbitrary: en rule: rev_induct)
  case (snoc e rows)
  then show ?case by (cases "track f r rows") (auto simp: track_snoc entry_step_def concerns_def new_run_entry_def split: if_splits)
qed simp

lemma distinct_admission_runs: "distinct (map fst (admission_runs rows))"
proof -
  have "distinct (map fst runs) \<Longrightarrow> distinct (map fst (fold (admission_step pend) ies runs))" for pend ies runs
    by (induction ies arbitrary: runs) (simp_all add: admission_step_def Let_def distinct_update)
  then show ?thesis by (simp add: admission_runs_def)
qed

lemma admission_runs_entry: "(k, en) \<in> set (admission_runs rows) \<Longrightarrow> re_run_id en = k"
  using track_run_id by (metis distinct_admission_runs map_of_admission_runs map_of_is_SomeI)

lemma selected_runs:
  fixes key :: "run_entry \<Rightarrow> 'k::linorder" and P rows
  defines "xs \<equiv> map re_run_id (sort_key key (filter P (map snd (admission_runs rows))))"
  shows "set xs = {r. \<exists>en. map_of (admission_runs rows) r = Some en \<and> P en}" and "distinct xs"
proof -
  show "set xs = {r. \<exists>en. map_of (admission_runs rows) r = Some en \<and> P en}"
    using admission_runs_entry by (force simp: xs_def map_of_eq_Some_iff [OF distinct_admission_runs])
  have "map re_run_id (map snd (admission_runs rows)) = map fst (admission_runs rows)"
    using admission_runs_entry by auto
  then have "distinct (map re_run_id (map snd (admission_runs rows)))" by (simp only: distinct_admission_runs)
  from distinct_map_filter [OF this] have "distinct (map re_run_id (filter P (map snd (admission_runs rows))))" .
  then show "distinct xs" by (auto simp: xs_def distinct_map distinct_sort)
qed

lemma ap_active_facts:
  shows "set (ap_active (build_run_admission_projection rows)) = {r. active_run rows r}"
    and "distinct (ap_active (build_run_admission_projection rows))"
  using selected_runs [of re_first_seen_index is_active rows]
  by (simp_all add: build_run_admission_projection_def Let_def active_run_def map_of_admission_runs)

lemma finite_active: "finite {r. active_run rows r}"
  by (simp flip: ap_active_facts(1))

section \<open>Pending requests and late outcomes\<close>

text \<open>Whether a run is pending is read off the whole log, so an event can change what earlier events of the run meant. A run that was asked for
  admission by a request with a source is not affected: both readings agree from there on.\<close>

definition lag :: "run_entry \<Rightarrow> run_entry \<Rightarrow> bool" where
  "lag a b \<longleftrightarrow> a = b \<or> (\<not> run_over b \<and> a = b\<lparr>re_status := ''running''\<rparr>)"

lemma note_identity_status: "note_identity e (en\<lparr>re_status := s\<rparr>) = (note_identity e en)\<lparr>re_status := s\<rparr>"
  by (simp add: note_identity_def Let_def)

lemma running_not_terminal [simp]: "\<not> run_over (en\<lparr>re_status := ''running''\<rparr>)" "is_active (en\<lparr>re_status := ''running''\<rparr>)"
  by (simp_all add: run_over_def is_active_def)

lemma lag_note: "lag a b \<Longrightarrow> lag (note_identity e a) (note_identity e b)"
  by (auto simp: lag_def note_identity_status)

lemma dedicated_status [simp]: "has_dedicated_admission (en\<lparr>re_status := s\<rparr>) = has_dedicated_admission en"
  by (simp add: has_dedicated_admission_def)

lemma lag_refl [simp]: "lag a a"
  by (simp add: lag_def)

lemma lag_cases:
  assumes "lag a b"
  obtains "a = b" | "\<not> run_over b" "a = b\<lparr>re_status := ''running''\<rparr>"
  using assms by (auto simp: lag_def)

lemma lag_legacy: "type_in e LEGACY_RUNNING_EVENTS \<Longrightarrow> lag a b \<Longrightarrow> lag (advance False i e a) (advance True i e b)"
  by (erule lag_cases) (auto simp: advance_legacy lag_def)

lemma lag_advance:
  assumes "relevant_event e" and "lag a b"
  shows "lag (advance False i e a) (advance True i e b)"
  using assms(2)
proof (cases rule: lag_cases)
  case 1
  then show ?thesis using assms(1)
    by (auto simp: relevant_kinds kind_of_def advance_eqs advance_terminal intro: lag_legacy)
next
  case 2
  then show ?thesis using assms(1)
    by (auto simp: relevant_kinds kind_of_def advance_eqs advance_terminal lag_def [of "b\<lparr>re_status := ''running''\<rparr>"] intro: lag_legacy [OF _ assms(2), unfolded 2])
qed

lemma lag_step: "rel_option lag a b \<Longrightarrow> rel_option lag (entry_step False r ie a) (entry_step True r ie b)"
  by (cases a; cases b) (auto simp: entry_step_def concerns_def intro: lag_advance lag_note)

lemma lag_track: "rel_option lag (track False r rows) (track True r rows)"
  by (induction rows rule: rev_induct) (simp_all add: track_snoc lag_step)

lemma lag_active: "lag a b \<Longrightarrow> is_active b \<Longrightarrow> is_active a"
  by (auto simp: lag_def)

definition admission_requested :: "zf_event list \<Rightarrow> string \<Rightarrow> bool" where
  "admission_requested rows r \<longleftrightarrow>
     list_ex (\<lambda>e. type_in e [''run.admission.requested''] \<and> concerns r e \<and> strip (sget (payload_of e) ''source_event_id'') \<noteq> []) rows"

lemma advance_source [simp]: "re_source_event_id (advance f i e en) = re_source_event_id en"
  by (simp add: advance_def)

lemma note_source:
  "re_source_event_id (note_identity e en) =
     (let src = strip (sget (payload_of e) ''source_event_id'') in if src \<noteq> [] then src else re_source_event_id en)"
  by (simp add: note_identity_def Let_def)

lemma advance_dedicated: "has_dedicated_admission en \<Longrightarrow> advance f i e en = advance g i e en"
  by (simp add: advance_def)

lemma lag_requested:
  assumes "ev_type e = JStr ''run.admission.requested''" "lag a b"
  shows "advance False i e a = advance True i e b"
  using assms(2) by (cases rule: lag_cases) (simp_all add: advance_eqs(1) [OF assms(1)])

lemma track_settled:
  "admission_requested rows r \<Longrightarrow> \<exists>en. track False r rows = Some en \<and> track True r rows = Some en \<and> re_source_event_id en \<noteq> []"
proof (induction rows rule: rev_induct)
  case (snoc e rows)
  show ?case
  proof (cases "admission_requested rows r")
    case True
    from snoc.IH [OF this] obtain en where en: "track False r rows = Some en" "track True r rows = Some en" "re_source_event_id en \<noteq> []" by blast
    have "has_dedicated_admission (note_identity e en)" using en(3) by (simp add: has_dedicated_admission_def note_source Let_def)
    from advance_dedicated [OF this, of False _ _ True] en show ?thesis by (simp add: track_snoc entry_step_def note_source Let_def)
  next
    case False
    then have now: "ev_type e = JStr ''run.admission.requested''" "concerns r e" "strip (sget (payload_of e) ''source_event_id'') \<noteq> []"
      using snoc.prems by (auto simp: admission_requested_def type_in_single)
    let ?old = "\<lambda>a. case a of Some x \<Rightarrow> x | None \<Rightarrow> new_run_entry r (length rows)"
    have "lag (?old (track False r rows)) (?old (track True r rows))"
      using lag_track [of r rows] by (auto simp: rel_option_iff split: option.splits)
    from lag_requested [OF now(1) lag_note [OF this]] now(2) show ?thesis
      using now(3) by (simp add: track_snoc entry_step_def note_source Let_def cong: option.case_cong)
  qed
qed (simp add: admission_requested_def)

lemma track_requested: "admission_requested rows r \<Longrightarrow> track f r rows = track g r rows"
  using track_settled by (cases f; cases g) fastforce+

end
