(* ===== verification/Run_Capacity.thy ===== *)
theory Run_Capacity
  imports Run_Admission Event_Writer
begin

text \<open>
  What the admission of runs guarantees: apart from the runs touched by events from outside of admission, the number of active runs stays within
  the configured capacity under any interleaving of admissions, rejections, controls and other events; a run that is over stays over; the head of the queue is admitted when the project is idle; and the
  reconciliation of the queue ends.
\<close>

section \<open>Pending requests and late outcomes\<close>

lemma invoke_by_id_snoc: "invoke_by_id (rows @ [e]) = add_invoke e (invoke_by_id rows)"
  by (simp add: invoke_by_id_def)

lemma is_pending_iff:
  "is_pending rows r \<longleftrightarrow> r \<in> snd ` set (invoke_by_id rows) \<and> (\<forall>e \<in> set rows. \<not> settles_invoke (invoke_by_id rows) e r)"
  by (auto simp: is_pending_def pending_invoke_run_ids_def Let_def list_ex_iff)

text \<open>An event that is neither a request nor an outcome leaves the pending runs as they are; an outcome settles some; a request under a new id
  takes none away.\<close>

lemma pending_other:
  assumes "\<not> type_in e [''workflow.invoke.requested'']" "\<not> type_in e OUTCOME_EVENTS"
  shows "is_pending (rows @ [e]) r = is_pending rows r"
  using assms by (simp add: is_pending_iff invoke_by_id_snoc add_invoke_def settles_invoke_def)

lemma pending_outcome:
  assumes "type_in e OUTCOME_EVENTS"
  shows "is_pending (rows @ [e]) r \<longleftrightarrow> is_pending rows r \<and> \<not> settles_invoke (invoke_by_id rows) e r"
proof -
  have "\<not> type_in e [''workflow.invoke.requested'']" using assms by (auto simp: type_in_def OUTCOME_EVENTS_def)
  then show ?thesis by (auto simp: is_pending_iff invoke_by_id_snoc add_invoke_def)
qed

definition fresh_request :: "zf_event list \<Rightarrow> zf_event \<Rightarrow> bool" where
  "fresh_request rows e \<longleftrightarrow> list_all (\<lambda>x. ev_id x \<noteq> ev_id e \<and> JStr (sget (payload_of x) ''source_event_id'') \<noteq> ev_id e) rows"

lemma invoke_ids: "k \<in> fst ` set (invoke_by_id rows) \<Longrightarrow> \<exists>x \<in> set rows. ev_id x = k"
proof (induction rows rule: rev_induct)
  case (snoc e rows)
  then show ?case by (auto simp: invoke_by_id_snoc add_invoke_def AList.dom_update split: if_splits)
qed (simp add: invoke_by_id_def)

lemma distinct_invokes: "distinct (map fst (invoke_by_id rows))"
  by (induction rows rule: rev_induct) (simp_all add: invoke_by_id_snoc add_invoke_def distinct_update, simp add: invoke_by_id_def)

lemma pending_request:
  assumes req: "type_in e [''workflow.invoke.requested'']" and new: "fresh_request rows e" and "is_pending rows r"
  shows "is_pending (rows @ [e]) r"
proof -
  let ?tab = "invoke_by_id rows"
  have out: "\<not> type_in e OUTCOME_EVENTS" using req by (auto simp: type_in_def OUTCOME_EVENTS_def)
  have "ev_id e \<notin> fst ` set ?tab" using invoke_ids [of "ev_id e" rows] new by (auto simp: fresh_request_def list_all_iff)
  then have tab: "add_invoke e ?tab = (if run_id_of e \<noteq> [] then ?tab @ [(ev_id e, run_id_of e)] else ?tab)"
    using req by (simp add: add_invoke_def update_fresh)
  have same: "settles_invoke (add_invoke e ?tab) x r = settles_invoke ?tab x r" if "x \<in> set rows" for x
    using new that by (auto simp: tab settles_invoke_def fresh_request_def list_all_iff map_of_append map_add_def split: option.splits)
  have "snd ` set ?tab \<subseteq> snd ` set (add_invoke e ?tab)" by (auto simp: tab)
  moreover have "\<not> settles_invoke (add_invoke e ?tab) e r" using out by (simp add: settles_invoke_def)
  ultimately show ?thesis using assms(3) same by (auto simp: is_pending_iff invoke_by_id_snoc)
qed


section \<open>What an event does to the active runs\<close>

definition activating_types :: "string list" where
  "activating_types =
     [''run.admission.admitted'', ''run.admission.released'', ''run.paused'', ''run.resumed'', ''run.goal.updated'']
     @ LEGACY_RUNNING_EVENTS @ OUTCOME_EVENTS @ [''workflow.invoke.requested'']"

lemma active_runE: "active_run rows r \<Longrightarrow> (\<And>en. track (is_pending rows r) r rows = Some en \<Longrightarrow> is_active en \<Longrightarrow> P) \<Longrightarrow> P"
  by (auto simp: active_run_def)

lemma active_run_other: "\<not> concerns r e \<Longrightarrow> is_pending (rows @ [e]) r = is_pending rows r \<Longrightarrow> active_run (rows @ [e]) r = active_run rows r"
  by (simp add: active_run_def track_snoc entry_step_def)

lemma terminal_status_cases: "terminal_status e \<in> {''completed'', ''blocked'', ''cancelled'', ''failed'', ''abandoned''}"
  by (simp add: terminal_status_def Let_def)

lemma terminal_not_active: "run_over en \<Longrightarrow> \<not> is_active en"
  by (auto simp: run_over_def is_active_def)

lemma advance_quiet:
  assumes "relevant_event e" "\<not> type_in e activating_types"
  shows "\<not> is_active (advance f i e en)"
proof -
  have "ev_type e = JStr ''run.admission.requested'' \<or> ev_type e = JStr ''run.admission.queued'' \<or> ev_type e = JStr ''run.admission.rejected''
     \<or> type_in e ADMISSION_TERMINAL_EVENT_TYPES"
    using assms by (auto simp: relevant_kinds kind_of_def activating_types_def type_in_def)
  then show ?thesis using terminal_status_cases [of e] terminal_not_active [of en]
    by (elim disjE) (auto simp: advance_eqs advance_terminal is_active_def)
qed

text \<open>Every other event leaves the active runs as they are or ends one.\<close>

lemma quiet_event:
  assumes "\<not> type_in e activating_types" "active_run (rows @ [e]) r"
  shows "active_run rows r"
proof -
  have pend: "is_pending (rows @ [e]) r = is_pending rows r"
    using assms(1) by (intro pending_other) (auto simp: activating_types_def type_in_def)
  have "\<not> concerns r e"
    using assms advance_quiet by (auto simp: active_run_def track_snoc entry_step_def concerns_def)
  then show ?thesis using active_run_other pend assms(2) by blast
qed

text \<open>A request takes the standing of a legacy start away and gives none.\<close>

lemma request_event:
  assumes req: "type_in e [''workflow.invoke.requested'']" and new: "fresh_request rows e" and act: "active_run (rows @ [e]) r"
  shows "active_run rows r"
proof -
  have "\<not> concerns r e"
    using req by (auto simp: concerns_def relevant_event_def type_in_def RUN_ADMISSION_EVENT_TYPES_def ADMISSION_TERMINAL_EVENT_TYPES_def LEGACY_RUNNING_EVENTS_def)
  then have "\<exists>en. track (is_pending (rows @ [e]) r) r rows = Some en \<and> is_active en"
    using act by (simp add: active_run_def track_snoc entry_step_def)
  moreover have "is_pending rows r \<Longrightarrow> is_pending (rows @ [e]) r" using pending_request [OF req new] .
  ultimately show ?thesis using lag_track [of r rows] lag_active
    by (cases "is_pending rows r"; cases "is_pending (rows @ [e]) r") (auto simp: active_run_def rel_option_iff split: option.splits)
qed

lemma dedicated_legacy:
  assumes "type_in e LEGACY_RUNNING_EVENTS" and "f \<or> has_dedicated_admission en"
  shows "is_active (advance f i e (note_identity e en)) = is_active en"
proof -
  have "f \<or> has_dedicated_admission (note_identity e en)"
    using assms(2) by (auto simp: has_dedicated_admission_def note_identity_def Let_def)
  then show ?thesis using advance_legacy [OF assms(1)] by auto
qed

lemma new_entry_not_active [simp]: "\<not> is_active (new_run_entry r i)"
  by (simp add: is_active_def new_run_entry_def)

text \<open>The start of a run that is pending, or was asked for admission, changes nothing.\<close>

lemma anchor_event:
  assumes leg: "type_in e [''run.started'', ''run.goal.started'']" and known: "is_pending rows (run_id_of e) \<or> admission_requested rows (run_id_of e)"
    and act: "active_run (rows @ [e]) r"
  shows "active_run rows r"
proof -
  have leg': "type_in e LEGACY_RUNNING_EVENTS" using leg by (auto simp: type_in_def LEGACY_RUNNING_EVENTS_def)
  have pend: "is_pending (rows @ [e]) r = is_pending rows r"
    using leg by (intro pending_other) (auto simp: type_in_def OUTCOME_EVENTS_def)
  show ?thesis
  proof (cases "concerns r e")
    case False
    then show ?thesis using active_run_other pend act by blast
  next
    case True
    let ?f = "is_pending rows r"
    let ?old = "case track ?f r rows of Some x \<Rightarrow> x | None \<Rightarrow> new_run_entry r (length rows)"
    have "?f \<or> has_dedicated_admission ?old"
      using True known track_settled [of rows r] by (cases ?f) (auto simp: concerns_def has_dedicated_admission_def)
    from dedicated_legacy [OF leg' this, of "length rows"] have "is_active ?old"
      using act True pend by (simp add: active_run_def track_snoc entry_step_def cong: option.case_cong)
    then show ?thesis by (cases "track ?f r rows") (auto simp: active_run_def)
  qed
qed

definition outcome_known :: "zf_event list \<Rightarrow> zf_event \<Rightarrow> bool" where
  "outcome_known rows e \<longleftrightarrow>
     (run_id_of e = [] \<or> admission_requested rows (run_id_of e))
     \<and> (case map_of (invoke_by_id rows) (JStr (sget (payload_of e) ''source_event_id'')) of None \<Rightarrow> True | Some r \<Rightarrow> admission_requested rows r)"

text \<open>The outcome of a request whose run was asked for admission changes nothing.\<close>

lemma outcome_event:
  assumes out: "type_in e OUTCOME_EVENTS" and known: "outcome_known rows e" and act: "active_run (rows @ [e]) r"
  shows "active_run rows r"
proof (cases "admission_requested rows r")
  case True
  from track_settled [OF this] obtain en where en: "\<And>f. track f r rows = Some en" "re_source_event_id en \<noteq> []" by (metis (full_types))
  have "relevant_event e \<Longrightarrow> type_in e LEGACY_RUNNING_EVENTS"
    using out by (auto simp: relevant_event_def type_in_def OUTCOME_EVENTS_def LEGACY_RUNNING_EVENTS_def RUN_ADMISSION_EVENT_TYPES_def ADMISSION_TERMINAL_EVENT_TYPES_def)
  then show ?thesis using act en dedicated_legacy [of e _ en]
    by (auto simp: active_run_def track_snoc entry_step_def concerns_def has_dedicated_admission_def split: if_splits)
next
  case False
  then have "\<not> settles_invoke (invoke_by_id rows) e r \<or> r = []" using known by (auto simp: outcome_known_def settles_invoke_def)
  moreover have "r \<noteq> []" using act track_run_id by (auto simp: active_run_def)
  ultimately have pend: "is_pending (rows @ [e]) r = is_pending rows r" using pending_outcome [OF out] by blast
  have "run_id_of e \<noteq> r" using False known \<open>r \<noteq> []\<close> by (auto simp: outcome_known_def)
  then show ?thesis using active_run_other pend act by (auto simp: concerns_def)
qed

section \<open>What the operations do to the active runs\<close>

text \<open>The writer may add to an event but keeps its type, id and payload, and new ids are not empty.\<close>

definition faithful_writer :: "admission_runtime \<Rightarrow> bool" where
  "faithful_writer rt \<longleftrightarrow>
     (\<forall>log e. ev_type (rn_write rt log e) = ev_type e \<and> ev_id (rn_write rt log e) = ev_id e \<and> ev_payload (rn_write rt log e) = ev_payload e)
     \<and> (\<forall>n. fst (rn_fresh rt n) \<noteq> [])"

text \<open>The event writer of the project is one: what it adds to an event is its cause and its correlation.\<close>

lemma enriching_writer_faithful:
  "(\<And>log e. rn_write rt log e = enrich_with w trace (parent log e) e) \<Longrightarrow> (\<And>n. fst (rn_fresh rt n) \<noteq> []) \<Longrightarrow> faithful_writer rt"
  by (simp add: faithful_writer_def enrich_with_def Let_def split: option.split)

abbreviation active_runs :: "zf_event list \<Rightarrow> string set" where
  "active_runs rows \<equiv> {r. active_run rows r}"

lemma run_id_of_strip [simp]: "strip (run_id_of e) = run_id_of e"
  by (simp add: run_id_of_def Let_def)

lemma run_id_of_payload: "ev_payload x = JObj p \<Longrightarrow> dict_get p ''workflow_run_id'' = JStr r \<Longrightarrow> r \<noteq> [] \<Longrightarrow> strip r = r \<Longrightarrow> run_id_of x = r"
  by (simp add: run_id_of_def payload_of_def Let_def)

lemma payload_run [simp]: "dict_get (admission_payload e r request @ rest) ''workflow_run_id'' = JStr r"
  "dict_get (admission_payload e r request) ''workflow_run_id'' = JStr r"
  by (simp_all add: admission_payload_def)

lemma emitE:
  assumes "faithful_writer rt"
  obtains x where "append_built rt t fill log = log @ [x]" "ev_type x = ev_type (fill (new_event (rn_fresh rt (length log)) t))"
    "ev_id x = ev_id (fill (new_event (rn_fresh rt (length log)) t))" "ev_payload x = ev_payload (fill (new_event (rn_fresh rt (length log)) t))"
  using assms that by (auto simp: append_built_def faithful_writer_def)

lemma record_onceE:
  assumes "faithful_writer rt" and "dict_get p ''workflow_run_id'' = JStr r" "r \<noteq> []" "strip r = r"
  obtains "admission_event_for_source log t (ev_id e)" "record_once rt t e r p log = log"
  | x where "\<not> admission_event_for_source log t (ev_id e)" "record_once rt t e r p log = log @ [x]" "ev_type x = JStr t" "ev_payload x = JObj p"
      "run_id_of x = r" "truthy (ev_id x)"
proof (cases "admission_event_for_source log t (ev_id e)")
  case False
  obtain x where x: "append_built rt t (fill_admission e r p) log = log @ [x]" "ev_type x = JStr t" "ev_id x = JStr (fst (rn_fresh rt (length log)))" "ev_payload x = JObj p"
    by (rule emitE [OF assms(1), of t "fill_admission e r p" log]) (simp add: fill_admission_def new_event_def)
  moreover have "run_id_of x = r" using run_id_of_payload [OF x(4)] assms(2-4) .
  moreover have "truthy (ev_id x)" using x(3) assms(1) by (simp add: faithful_writer_def)
  ultimately show thesis using False that(2) by (simp add: record_once_def)
qed (simp add: that(1) record_once_def)

lemma record_once_cases:
  assumes "faithful_writer rt" "dict_get p ''workflow_run_id'' = JStr r" "r \<noteq> []" "strip r = r"
  shows "record_once rt t e r p log = log \<or> (\<exists>x. record_once rt t e r p log = log @ [x] \<and> ev_type x = JStr t \<and> run_id_of x = r)"
  by (rule record_onceE [OF assms, of log t e]) blast+

text \<open>Events of one run do not touch the others.\<close>

lemma own_event:
  assumes "ev_type x = JStr t" "t \<notin> {''workflow.invoke.requested'', ''workflow.invoke.accepted'', ''workflow.invoke.rejected''}" "active_run (log @ [x]) a"
  shows "a = run_id_of x \<or> active_run log a"
proof -
  have "is_pending (log @ [x]) a = is_pending log a"
    using assms(1,2) by (intro pending_other) (auto simp: type_in_def OUTCOME_EVENTS_def)
  then show ?thesis using assms(3) active_run_other [of a x log] by (auto simp: concerns_def)
qed

lemma record_quiet:
  assumes "faithful_writer rt" "dict_get p ''workflow_run_id'' = JStr r" "r \<noteq> []" "strip r = r" and "t \<notin> set activating_types"
  shows "active_runs (record_once rt t e r p log) \<subseteq> active_runs log"
proof (rule record_onceE [OF assms(1-4), of log t e])
  fix x assume "record_once rt t e r p log = log @ [x]" "ev_type x = JStr t"
  then show ?thesis using quiet_event [of x log] assms(5) by (auto simp: type_in_str)
qed auto

lemma record_own:
  assumes "faithful_writer rt" "dict_get p ''workflow_run_id'' = JStr r" "r \<noteq> []" "strip r = r"
    and "t \<notin> {''workflow.invoke.requested'', ''workflow.invoke.accepted'', ''workflow.invoke.rejected''}"
  shows "active_runs (record_once rt t e r p log) \<subseteq> insert r (active_runs log)"
proof (rule record_onceE [OF assms(1-4), of log t e])
  fix x assume "record_once rt t e r p log = log @ [x]" "ev_type x = JStr t" "run_id_of x = r"
  then show ?thesis using own_event [OF _ assms(5)] by auto
qed auto

lemma request_run_quiet:
  "faithful_writer rt \<Longrightarrow> r \<noteq> [] \<Longrightarrow> strip r = r \<Longrightarrow> active_runs (request_run rt e r request log) \<subseteq> active_runs log"
  unfolding request_run_def
  by (rule record_quiet) (simp_all add: activating_types_def LEGACY_RUNNING_EVENTS_def OUTCOME_EVENTS_def)

lemma enqueue_quiet:
  "faithful_writer rt \<Longrightarrow> r \<noteq> [] \<Longrightarrow> strip r = r \<Longrightarrow> active_runs (enqueue rt e r request blocker log) \<subseteq> active_runs log"
  unfolding enqueue_def Let_def
  by (rule record_quiet) (simp_all add: activating_types_def LEGACY_RUNNING_EVENTS_def OUTCOME_EVENTS_def)

lemma release_run_own: "faithful_writer rt \<Longrightarrow> r \<noteq> [] \<Longrightarrow> strip r = r \<Longrightarrow> active_runs (release_run rt e r request log) \<subseteq> insert r (active_runs log)"
  unfolding release_run_def by (rule record_own) simp_all

lemma admit_run_own: "faithful_writer rt \<Longrightarrow> r \<noteq> [] \<Longrightarrow> strip r = r \<Longrightarrow> active_runs (admit_run rt e r request log) \<subseteq> insert r (active_runs log)"
  unfolding admit_run_def by (rule record_own) simp_all

lemma no_blocker:
  assumes "admission_blocker rt e r log = []"
  shows "card (active_runs log - {r}) < policy_max_active_runs rt"
proof -
  let ?active = "ap_active (build_run_admission_projection log)"
  have "length (filter (\<lambda>a. a \<noteq> r) ?active) < policy_max_active_runs rt"
    using assms by (auto simp: admission_blocker_def Let_def split: if_splits)
  moreover have "length (filter (\<lambda>a. a \<noteq> r) ?active) = card (set (filter (\<lambda>a. a \<noteq> r) ?active))"
    using ap_active_facts(2) by (metis distinct_card distinct_filter)
  moreover have "set (filter (\<lambda>a. a \<noteq> r) ?active) = active_runs log - {r}" by (auto simp: ap_active_facts(1))
  ultimately show ?thesis by simp
qed

lemma admit_or_queue_capacity:
  assumes "faithful_writer rt" "r \<noteq> []" "strip r = r" and cap: "card (active_runs log - B) \<le> policy_max_active_runs rt"
  shows "card (active_runs (snd (admit_or_queue rt e r request existing log)) - B) \<le> policy_max_active_runs rt"
proof -
  let ?log1 = "request_run rt e r request log"
  have sub: "active_runs ?log1 \<subseteq> active_runs log" by (rule request_run_quiet [OF assms(1-3)])
  show ?thesis
  proof (cases "admission_blocker rt e r ?log1 = []")
    case False
    then have "active_runs (snd (admit_or_queue rt e r request existing log)) \<subseteq> active_runs log"
      using enqueue_quiet [OF assms(1-3)] sub by (fastforce simp: admit_or_queue_def Let_def)
    then have "active_runs (snd (admit_or_queue rt e r request existing log)) - B \<subseteq> active_runs log - B" by blast
    from card_mono [OF finite_Diff [OF finite_active] this] cap show ?thesis by (rule le_trans)
  next
    case True
    define log2 where "log2 = (if (case existing of Some en \<Rightarrow> re_status en = ''queued'' | None \<Rightarrow> False) then release_run rt e r request ?log1 else ?log1)"
    have "snd (admit_or_queue rt e r request existing log) = admit_run rt e r request log2"
      using True by (simp add: admit_or_queue_def Let_def log2_def)
    moreover have "active_runs log2 \<subseteq> insert r (active_runs ?log1)" using release_run_own [OF assms(1-3)] by (auto simp: log2_def)
    ultimately have "active_runs (snd (admit_or_queue rt e r request existing log)) - B \<subseteq> insert r (active_runs ?log1 - {r})"
      using admit_run_own [OF assms(1-3), of e request log2] by auto
    then have "card (active_runs (snd (admit_or_queue rt e r request existing log)) - B) \<le> card (insert r (active_runs ?log1 - {r}))"
      by (intro card_mono) (simp_all add: finite_active)
    also have "\<dots> = Suc (card (active_runs ?log1 - {r}))" by (rule card_insert_disjoint) (simp_all add: finite_active)
    finally show ?thesis using no_blocker [OF True] by simp
  qed
qed

lemma admit_capacity:
  assumes "faithful_writer rt" and "card (active_runs log - B) \<le> policy_max_active_runs rt"
  shows "card (active_runs (snd (admit_workflow_invoke rt e log)) - B) \<le> policy_max_active_runs rt"
  using admit_or_queue_capacity [OF assms(1) _ _ assms(2)] assms(2)
  by (auto simp: admit_workflow_invoke_def Let_def split: option.splits)

lemma reject_quiet:
  assumes "faithful_writer rt"
  shows "active_runs (reject_workflow_invoke_admission rt e reason log) \<subseteq> active_runs log"
proof (cases "reject_workflow_invoke_admission rt e reason log = log")
  case False
  then have r: "run_id_of e \<noteq> []" by (auto simp: reject_workflow_invoke_admission_def Let_def)
  let ?log1 = "request_run rt e (run_id_of e) (request_id_of e) log"
  let ?p = "admission_payload e (run_id_of e) (request_id_of e) @ [(''reason'', JStr (str_or reason ''workflow invoke rejected''))]"
  have "reject_workflow_invoke_admission rt e reason log = record_once rt ''run.admission.rejected'' e (run_id_of e) ?p ?log1"
    using False by (auto simp: reject_workflow_invoke_admission_def Let_def)
  moreover have "''run.admission.rejected'' \<notin> set activating_types" by (simp add: activating_types_def LEGACY_RUNNING_EVENTS_def OUTCOME_EVENTS_def)
  ultimately have "active_runs (reject_workflow_invoke_admission rt e reason log) \<subseteq> active_runs ?log1"
    using record_quiet [OF assms payload_run(1) r run_id_of_strip] by simp
  then show ?thesis using request_run_quiet [OF assms r run_id_of_strip] by blast
qed simp

text \<open>The audit events of the controls are of no consequence: no type the projection looks at ends as theirs do.\<close>

lemma suffix_differs: "\<not> endswith t x \<Longrightarrow> s @ x \<noteq> t"
  by (auto simp: endswith_def)

lemma audit_types:
  "''runtime.action.failed'' \<notin> set activating_types" "''runtime.action.completed'' \<notin> set activating_types"
  "s @ ''.action.failed'' \<notin> set activating_types" "s @ ''.action.completed'' \<notin> set activating_types"
proof -
  have "\<not> list_ex (\<lambda>t. endswith t ''.action.failed'' \<or> endswith t ''.action.completed'') activating_types" by code_simp
  then show "s @ ''.action.failed'' \<notin> set activating_types" "s @ ''.action.completed'' \<notin> set activating_types"
    using suffix_differs by (force simp: list_ex_iff)+
qed (simp_all add: activating_types_def LEGACY_RUNNING_EVENTS_def OUTCOME_EVENTS_def)

lemma emit_quiet:
  assumes "faithful_writer rt" "t \<notin> set activating_types" "\<And>x. ev_type (fill x) = ev_type x"
  shows "active_runs (append_built rt t fill log) \<subseteq> active_runs log"
proof (rule emitE [OF assms(1), of t fill log])
  fix x assume "append_built rt t fill log = log @ [x]" "ev_type x = ev_type (fill (new_event (rn_fresh rt (length log)) t))"
  then show ?thesis using quiet_event [of x log] assms(2,3) by (auto simp: type_in_str new_event_def)
qed

lemma failed_action_quiet: "faithful_writer rt \<Longrightarrow> active_runs (failed_action rt requested action name reason log) \<subseteq> active_runs log"
  unfolding failed_action_def Let_def
  by (rule subset_trans [OF emit_quiet emit_quiet]) (simp_all add: audit_types)

lemma completed_action_quiet: "faithful_writer rt \<Longrightarrow> active_runs (completed_action rt requested event task p log) \<subseteq> active_runs log"
  unfolding completed_action_def Let_def
  by (rule subset_trans [OF emit_quiet emit_quiet]) (simp_all add: audit_types)

text \<open>Pausing and resuming are allowed for active runs only.\<close>

lemma control_quiet:
  assumes "faithful_writer rt"
  shows "active_runs (snd (run_control_action rt act requested name p log)) \<subseteq> active_runs log"
proof (cases "map_of (ap_runs (build_run_admission_projection log)) (strip (sget_first p [''run_id'', ''workflow_run_id'']))")
  case None
  then show ?thesis using failed_action_quiet [OF assms] by (simp add: run_control_action_def Let_def)
next
  case (Some en)
  define r where "r = strip (sget_first p [''run_id'', ''workflow_run_id''])"
  have entry: "track (is_pending log r) r log = Some en" using Some by (simp add: r_def build_run_admission_projection_def Let_def map_of_admission_runs)
  then have r: "r \<noteq> []" "strip r = r" "re_run_id en = r" using track_run_id by (auto simp: r_def)
  show ?thesis
  proof (cases "control_check act en")
    case Allowed
    let ?fill = "\<lambda>x. x\<lparr>ev_actor := JStr (rn_actor rt), ev_task_id := (if re_task_id en = [] then JNull else JStr (re_task_id en)),
       ev_payload := JObj (control_payload act requested p en r log), ev_causation_id := ev_id requested, ev_correlation_id := JStr r\<rparr>"
    obtain x where x: "append_built rt (action_event act) ?fill log = log @ [x]" "ev_type x = JStr (action_event act)"
      "ev_payload x = JObj (control_payload act requested p en r log)"
      by (rule emitE [OF assms, of "action_event act" ?fill log]) (simp add: new_event_def)
    have "run_id_of x = r" using run_id_of_payload [OF x(3)] r by (simp add: control_payload_def)
    moreover have "active_run log r" if "act \<noteq> Cancel"
      using Allowed that entry by (cases act) (auto simp: active_run_def is_active_def split: if_splits)
    moreover have "active_runs (log @ [x]) \<subseteq> active_runs log" if "act = Cancel"
      using quiet_event [of x log] x(2) that by (auto simp: type_in_str activating_types_def LEGACY_RUNNING_EVENTS_def OUTCOME_EVENTS_def)
    moreover have "action_event act \<notin> {''workflow.invoke.requested'', ''workflow.invoke.accepted'', ''workflow.invoke.rejected''}" by (cases act) simp_all
    ultimately have "active_runs (log @ [x]) \<subseteq> active_runs log" using own_event [OF x(2), of log] by (cases "act = Cancel") auto
    moreover have "active_runs (snd (run_control_action rt act requested name p log)) \<subseteq> active_runs (log @ [x])"
      using Some Allowed completed_action_quiet [OF assms] x(1) by (simp add: run_control_action_def Let_def r_def)
    ultimately show ?thesis by blast
  qed (use Some failed_action_quiet [OF assms] in \<open>simp_all add: run_control_action_def Let_def\<close>)
qed

section \<open>Events from outside of admission\<close>

text \<open>The runs whose standing an event can change: the run it names and, for a request or the outcome of one, the run known under the id of
  the request.\<close>

definition touched_runs :: "zf_event list \<Rightarrow> zf_event \<Rightarrow> string set" where
  "touched_runs rows e =
     insert (run_id_of e) (set_option (map_of (invoke_by_id rows) (ev_id e)) \<union>
       set_option (map_of (invoke_by_id rows) (JStr (sget (payload_of e) ''source_event_id''))))"

lemma updated_runs:
  assumes "r \<noteq> v" "map_of tab k \<noteq> Some r" "distinct (map fst tab)"
  shows "r \<in> snd ` set (AList.update k v tab) \<longleftrightarrow> r \<in> snd ` set tab"
proof -
  have ran: "r \<in> snd ` set t \<longleftrightarrow> (\<exists>x. map_of t x = Some r)" if "distinct (map fst t)" for t
    using that by (force dest: map_of_SomeD)
  have "map_of (AList.update k v tab) x = Some r \<longleftrightarrow> map_of tab x = Some r" for x using assms by (simp add: update_conv')
  then show ?thesis unfolding ran [OF assms(3)] ran [OF distinct_update [OF assms(3)]] by blast
qed

lemma untouched_pending:
  assumes "r \<notin> touched_runs rows e"
  shows "is_pending (rows @ [e]) r = is_pending rows r"
proof (cases "type_in e [''workflow.invoke.requested'']")
  case True
  let ?tab = "invoke_by_id rows"
  have out: "\<not> type_in e OUTCOME_EVENTS" using True by (auto simp: type_in_def OUTCOME_EVENTS_def)
  have other: "r \<noteq> run_id_of e" "map_of ?tab (ev_id e) \<noteq> Some r" using assms by (auto simp: touched_runs_def elem_set)
  then have "settles_invoke (add_invoke e ?tab) x r = settles_invoke ?tab x r" for x
    by (auto simp: settles_invoke_def add_invoke_def update_conv')
  moreover have "r \<in> snd ` set (add_invoke e ?tab) \<longleftrightarrow> r \<in> snd ` set ?tab"
    using updated_runs [OF other distinct_invokes] by (simp add: add_invoke_def)
  moreover have "\<not> settles_invoke ?tab e r" using out by (simp add: settles_invoke_def)
  ultimately show ?thesis by (simp add: is_pending_iff invoke_by_id_snoc)
next
  case False
  have "\<not> settles_invoke (invoke_by_id rows) e r" using assms by (auto simp: settles_invoke_def touched_runs_def elem_set)
  then show ?thesis using False pending_other pending_outcome by (cases "type_in e OUTCOME_EVENTS") blast+
qed

lemma untouched_run: "r \<notin> touched_runs rows e \<Longrightarrow> active_run (rows @ [e]) r = active_run rows r"
  using untouched_pending by (intro active_run_other) (auto simp: touched_runs_def concerns_def)

section \<open>Capacity\<close>

text \<open>The histories of a project: admissions, rejections and controls in any order, and between them any events at all. The set collects the runs
  that got around admission: whatever no other rule covers - a start that nobody asked admission for, the outcome of such a request, a goal
  that is reopened, a pause that the kernel writes for a run that is not active, a request under an id that is taken - is an event from outside, and the runs whose
  standing it can change are put into the set.\<close>

inductive admission_reach :: "admission_runtime \<Rightarrow> string set \<Rightarrow> zf_event list \<Rightarrow> bool" for rt where
  start: "admission_reach rt {} []"
| admit: "admission_reach rt B log \<Longrightarrow> admission_reach rt B (snd (admit_workflow_invoke rt e log))"
| reject: "admission_reach rt B log \<Longrightarrow> admission_reach rt B (reject_workflow_invoke_admission rt e reason log)"
| control: "admission_reach rt B log \<Longrightarrow> admission_reach rt B (snd (run_control_action rt act requested name p log))"
| request: "admission_reach rt B log \<Longrightarrow> type_in e [''workflow.invoke.requested''] \<Longrightarrow> fresh_request log e \<Longrightarrow> admission_reach rt B (log @ [e])"
| outcome: "admission_reach rt B log \<Longrightarrow> type_in e OUTCOME_EVENTS \<Longrightarrow> outcome_known log e \<Longrightarrow> admission_reach rt B (log @ [e])"
| anchor: "admission_reach rt B log \<Longrightarrow> type_in e [''run.started'', ''run.goal.started''] \<Longrightarrow>
    is_pending log (run_id_of e) \<or> admission_requested log (run_id_of e) \<Longrightarrow> admission_reach rt B (log @ [e])"
| running: "admission_reach rt B log \<Longrightarrow> touched_runs log e \<subseteq> active_runs log \<Longrightarrow> admission_reach rt B (log @ [e])"
| other: "admission_reach rt B log \<Longrightarrow> \<not> type_in e activating_types \<Longrightarrow> admission_reach rt B (log @ [e])"
| outside: "admission_reach rt B log \<Longrightarrow> admission_reach rt (B \<union> touched_runs log e) (log @ [e])"

lemma admission_reach_all: "\<exists>B. admission_reach rt B log"
proof (induction log rule: rev_induct)
  case Nil
  then show ?case using admission_reach.start by blast
next
  case (snoc e log)
  then show ?case using admission_reach.outside by blast
qed

abbreviation within_capacity :: "admission_runtime \<Rightarrow> string set \<Rightarrow> zf_event list \<Rightarrow> bool" where
  "within_capacity rt B log \<equiv> card (active_runs log - B) \<le> policy_max_active_runs rt"

lemma capacity_subset:
  assumes "active_runs log' - B' \<subseteq> active_runs log - B" "within_capacity rt B log"
  shows "within_capacity rt B' log'"
  using card_mono [OF finite_Diff [OF finite_active] assms(1)] assms(2) by (rule le_trans)

lemma admitted_counts: "length (filter (\<lambda>r. r \<notin> B) (ap_active (build_run_admission_projection log))) = card (active_runs log - B)"
proof -
  let ?active = "ap_active (build_run_admission_projection log)"
  have "length (filter (\<lambda>r. r \<notin> B) ?active) = card (set (filter (\<lambda>r. r \<notin> B) ?active))"
    using ap_active_facts(2) by (metis distinct_card distinct_filter)
  then show ?thesis by (simp add: ap_active_facts(1) set_diff_eq)
qed


definition keep_event :: "zf_event list \<Rightarrow> zf_event \<Rightarrow> zf_event" where
  "keep_event log e = e"

definition numbered :: "nat \<Rightarrow> fresh" where
  "numbered n = (CHR ''n'' # show_nat n, [])"

definition demo_runtime :: "string \<Rightarrow> admission_runtime" where
  "demo_runtime mode =
     \<lparr>rn_mode = mode, rn_max_active_runs = 2, rn_workdirs = \<lparr>wp_enabled = True, wp_mode = ''worktree''\<rparr>, rn_budget = JNull, rn_run_limits = JNull,
      rn_actor = ''op'', rn_surface = ''cli'', rn_fresh = numbered, rn_write = keep_event\<rparr>"

definition demo_invoke :: "string \<Rightarrow> string \<Rightarrow> zf_event" where
  "demo_invoke i r = (new_event (i, []) ''workflow.invoke.requested'')\<lparr>ev_payload := JObj [(''workflow_run_id'', JStr r)]\<rparr>"

definition demo_end :: "string \<Rightarrow> string \<Rightarrow> string \<Rightarrow> zf_event" where
  "demo_end i t r = (new_event (i, []) t)\<lparr>ev_payload := JObj [(''run_id'', JStr r)]\<rparr>"

text \<open>Two runs are asked for; the first is admitted, the second has to wait.\<close>

definition demo_admission :: "string \<Rightarrow> string \<Rightarrow> string \<Rightarrow> string \<Rightarrow> pydict \<Rightarrow> zf_event" where
  "demo_admission n t i r rest = fill_admission (demo_invoke i r) r (admission_payload (demo_invoke i r) r r @ rest) (new_event (n, []) t)"

definition demo_admitted :: pydict where
  "demo_admitted = [(''policy_mode'', JStr ''serial''), (''max_active_runs'', JInt 1), (''budget_snapshot'', JNull), (''run_limits'', JNull)]"

definition demo_log1 :: "zf_event list" where
  "demo_log1 = [demo_invoke ''i1'' ''A'', demo_admission ''n1'' ''run.admission.requested'' ''i1'' ''A'' [],
     demo_admission ''n2'' ''run.admission.admitted'' ''i1'' ''A'' demo_admitted]"

definition demo_log2 :: "zf_event list" where
  "demo_log2 = demo_log1 @ [demo_invoke ''i2'' ''B'', demo_admission ''n4'' ''run.admission.requested'' ''i2'' ''B'' [],
     demo_admission ''n5'' ''run.admission.queued'' ''i2'' ''B''
       [(''reason'', JStr ''project active Run capacity reached''), (''active_run_ids'', JList [JStr ''A''])]]"

lemma demo_admissions:
  "admit_workflow_invoke (demo_runtime ''serial'') (demo_invoke ''i1'' ''A'') [demo_invoke ''i1'' ''A'']
   = (plain_decision ''admitted'' (demo_invoke ''i1'' ''A'') ''A'' ''A'' 0 [] False, demo_log1)"
  "admit_workflow_invoke (demo_runtime ''serial'') (demo_invoke ''i2'' ''B'') (demo_log1 @ [demo_invoke ''i2'' ''B''])
   = (plain_decision ''queued'' (demo_invoke ''i2'' ''B'') ''B'' ''B'' 1 ''project active Run capacity reached'' False, demo_log2)"
  by code_simp+

lemma demo_faithful: "faithful_writer (demo_runtime mode)"
  by (simp add: faithful_writer_def demo_runtime_def keep_event_def numbered_def)

lemma demo_reach: "admission_reach (demo_runtime ''serial'') {} demo_log2"
proof -
  have "admission_reach (demo_runtime ''serial'') {} ([] @ [demo_invoke ''i1'' ''A''])"
    by (rule admission_reach.request) (auto intro: admission_reach.start simp: fresh_request_def demo_invoke_def new_event_def type_in_def)
  from admission_reach.admit [OF this, of "demo_invoke ''i1'' ''A''"] have one: "admission_reach (demo_runtime ''serial'') {} demo_log1"
    by (simp add: demo_admissions)
  have "fresh_request demo_log1 (demo_invoke ''i2'' ''B'')" by code_simp
  moreover have "type_in (demo_invoke ''i2'' ''B'') [''workflow.invoke.requested'']" by code_simp
  ultimately have "admission_reach (demo_runtime ''serial'') {} (demo_log1 @ [demo_invoke ''i2'' ''B''])"
    using admission_reach.request [OF one] by blast
  from admission_reach.admit [OF this, of "demo_invoke ''i2'' ''B''"] show ?thesis by (simp add: demo_admissions)
qed


text \<open>Two ways around admission. Reopening the goal of a blocked run makes it active again although another run has its place; a run that is
  paused by the kernel while it waits counts as active.\<close>

lemma reopening_exceeds_capacity:
  "ap_active (build_run_admission_projection
     (demo_log1 @ [demo_end ''x'' ''run.goal.blocked'' ''A'', demo_invoke ''i2'' ''B'',
        demo_admission ''n4'' ''run.admission.requested'' ''i2'' ''B'' [], demo_admission ''n5'' ''run.admission.admitted'' ''i2'' ''B'' demo_admitted]
      @ [(demo_end ''y'' ''run.goal.updated'' ''A'')\<lparr>ev_payload := JObj [(''run_id'', JStr ''A''), (''status'', JStr ''active'')]\<rparr>]))
   = [''A'', ''B'']"
  by code_simp

lemma pause_exceeds_capacity:
  "ap_active (build_run_admission_projection (demo_log2 @ [demo_end ''y'' ''run.paused'' ''B''])) = [''A'', ''B'']"
  by code_simp

text \<open>A request that comes between the end of a run and the release of the queue is admitted before the runs that wait.\<close>

lemma newcomer_overtakes:
  "ad_status (fst (admit_workflow_invoke (demo_runtime ''serial'') (demo_invoke ''i3'' ''C'')
      (demo_log2 @ [demo_end ''x'' ''run.completed'' ''A'', demo_invoke ''i3'' ''C'']))) = ''admitted''"
  "ap_queued (build_run_admission_projection (demo_log2 @ [demo_end ''x'' ''run.completed'' ''A'', demo_invoke ''i3'' ''C''])) = [''B'']"
  by code_simp+

text \<open>The events of a control name the control as their source, and the entry of the run takes that over: an admitted run whose invocation was not
  answered yet is found by the reconciliation before it was paused and resumed, and not after.\<close>

definition demo_control :: "string \<Rightarrow> run_action \<Rightarrow> string \<Rightarrow> string \<Rightarrow> zf_event" where
  "demo_control i act c r =
     (new_event (i, []) (action_event act))\<lparr>ev_payload := JObj (control_payload act (new_event (c, []) ''op'') [] (new_run_entry r 0) r [])\<rparr>"

lemma control_hides_source:
  "next_source (demo_runtime ''serial'') [] demo_log1 = Some (demo_invoke ''i1'' ''A'')"
  "next_source (demo_runtime ''serial'') [] (demo_log1 @ [demo_control ''p'' Pause ''c1'' ''A'', demo_control ''q'' Resume ''c2'' ''A'']) = None"
  by code_simp+

section \<open>A run that is over\<close>

lemma advance_final:
  assumes "relevant_event e" "run_over en" "re_terminal_type en \<noteq> ''run.goal.blocked''" "\<not> type_in e [''run.goal.blocked'']"
  shows "run_over (advance f i e en) \<and> re_terminal_type (advance f i e en) \<noteq> ''run.goal.blocked''"
proof (cases "type_in e ADMISSION_TERMINAL_EVENT_TYPES")
  case True
  then obtain t where t: "ev_type e = JStr t" by (auto simp: type_in_def)
  have "t \<noteq> ''run.goal.blocked''" using assms(4) t by (auto simp: type_in_def)
  then show ?thesis using terminal_status_cases [of e] t by (auto simp: advance_terminal [OF True] run_over_def)
next
  case False
  then show ?thesis using assms
    by (auto simp: relevant_kinds kind_of_def advance_eqs advance_legacy) (auto simp: run_over_def)
qed

lemma terminal_track: "track f r log = Some en \<Longrightarrow> run_over en \<Longrightarrow> track g r log = Some en"
  using lag_track [of r log] by (cases f; cases g) (auto simp: rel_option_iff lag_def run_over_def split: option.splits)

lemma track_final:
  assumes "track f r log = Some en" "run_over en" "re_terminal_type en \<noteq> ''run.goal.blocked''"
    and "\<forall>e \<in> set later. \<not> (type_in e [''run.goal.blocked''] \<and> run_id_of e = r)"
  shows "\<exists>en'. track f r (log @ later) = Some en' \<and> run_over en' \<and> re_terminal_type en' \<noteq> ''run.goal.blocked''"
  using assms(4)
proof (induction later rule: rev_induct)
  case Nil
  then show ?case using assms by auto
next
  case (snoc e later)
  then obtain en' where en': "track f r (log @ later) = Some en'" "run_over en'" "re_terminal_type en' \<noteq> ''run.goal.blocked''" by auto
  have "run_over (note_identity e en')" "re_terminal_type (note_identity e en') \<noteq> ''run.goal.blocked''" using en' by simp_all
  from advance_final [OF _ this] snoc.prems en' show ?case
    unfolding append_assoc [symmetric] track_snoc by (auto simp: entry_step_def concerns_def)
qed

lemma track_strip: "track f r rows = Some en \<Longrightarrow> strip r = r"
proof (induction rows arbitrary: en rule: rev_induct)
  case (snoc e rows)
  then show ?case by (cases "concerns r e") (auto simp: track_snoc entry_step_def concerns_def)
qed simp

lemma ap_runs_track: "map_of (ap_runs (build_run_admission_projection log)) r = track (is_pending log r) r log"
  by (simp add: build_run_admission_projection_def Let_def map_of_admission_runs)

text \<open>The run of a task, as the documentation has it: the first identity its evidence contract names, or the run of the most recent event about
  the task that names one.\<close>

inductive task_of_run :: "string \<Rightarrow> pydict \<Rightarrow> zf_event list \<Rightarrow> bool" for r task log where
  contract: "strip (sget_first (as_dict (dict_get (as_dict (dict_get task ''contract'')) ''evidence_contract'')) [''workflow_run_id'', ''run_id'', ''request_id'']) = r
    \<Longrightarrow> r \<noteq> [] \<Longrightarrow> task_of_run r task log"
| event: "strip (sget_first (as_dict (dict_get (as_dict (dict_get task ''contract'')) ''evidence_contract'')) [''workflow_run_id'', ''run_id'', ''request_id'']) = []
    \<Longrightarrow> log = before @ [e] @ after \<Longrightarrow> strip (sget task ''id'') = t \<Longrightarrow> t \<noteq> []
    \<Longrightarrow> text_of (py_or (ev_task_id e) (dict_get (payload_of e) ''task_id'')) = t
    \<Longrightarrow> strip (sget_first (payload_of e) [''workflow_run_id'', ''project_run_id'']) = r \<Longrightarrow> r \<noteq> []
    \<Longrightarrow> list_all (\<lambda>x. text_of (py_or (ev_task_id x) (dict_get (payload_of x) ''task_id'')) \<noteq> t
          \<or> strip (sget_first (payload_of x) [''workflow_run_id'', ''project_run_id'']) = []) after
    \<Longrightarrow> task_of_run r task log"

lemma find_skipped: "\<forall>x \<in> set xs. \<not> P x \<Longrightarrow> P y \<Longrightarrow> find P (xs @ y # ys) = Some y"
  by (induction xs) auto

lemma task_of_run_id: "task_of_run r task log \<Longrightarrow> task_workflow_run_id task log = r"
proof (induction rule: task_of_run.induct)
  case (event before e after t)
  let ?P = "\<lambda>e. text_of (py_or (ev_task_id e) (dict_get (payload_of e) ''task_id'')) = t \<and> strip (sget_first (payload_of e) [''workflow_run_id'', ''project_run_id'']) \<noteq> []"
  have "find ?P (rev after @ e # rev before) = Some e"
    using event by (intro find_skipped) (auto simp: list_all_iff)
  then show ?case using event by (simp add: task_workflow_run_id_def Let_def)
qed (simp add: task_workflow_run_id_def Let_def)

text \<open>How a dispatch and a result come to belong to a run.\<close>

inductive attributed_dispatch :: "string \<Rightarrow> zf_event list \<Rightarrow> string \<Rightarrow> zf_event option \<Rightarrow> pydict option \<Rightarrow> bool" for r log where
  by_name: "strip run = r \<Longrightarrow> r \<noteq> [] \<Longrightarrow> attributed_dispatch r log run event task"
| by_event: "strip run = [] \<Longrightarrow> run_id_of e = r \<Longrightarrow> r \<noteq> [] \<Longrightarrow> attributed_dispatch r log run (Some e) task"
| by_task: "strip run = [] \<Longrightarrow> event = None \<or> (\<exists>e. event = Some e \<and> run_id_of e = []) \<Longrightarrow> task_of_run r t log
    \<Longrightarrow> attributed_dispatch r log run event (Some t)"

lemma attributed_candidate: "attributed_dispatch r log run event task \<Longrightarrow> candidate_run run event task log = r"
  by (induction rule: attributed_dispatch.induct) (auto simp: candidate_run_def task_of_run_id)

inductive attributed_result :: "string \<Rightarrow> (string \<Rightarrow> pydict) \<Rightarrow> (json \<Rightarrow> pydict option) \<Rightarrow> zf_event \<Rightarrow> zf_event list \<Rightarrow> bool" for r manifest_of task_of e log where
  by_payload: "strip (sget (payload_of e) ''workflow_run_id'') = r \<Longrightarrow> r \<noteq> [] \<Longrightarrow> attributed_result r manifest_of task_of e log"
| by_fanout: "strip (sget (payload_of e) ''workflow_run_id'') = [] \<Longrightarrow> strip (sget (payload_of e) ''fanout_id'') = f \<Longrightarrow> f \<noteq> []
    \<Longrightarrow> strip (text_of (py_or (dict_get (as_dict (dict_get (manifest_of f) ''trigger_payload'')) ''workflow_run_id'') (dict_get (manifest_of f) ''workflow_run_id''))) = r
    \<Longrightarrow> r \<noteq> [] \<Longrightarrow> attributed_result r manifest_of task_of e log"
| by_task_id: "strip (sget (payload_of e) ''workflow_run_id'') = [] \<Longrightarrow> strip (sget (payload_of e) ''fanout_id'') = f
    \<Longrightarrow> f = [] \<or> strip (text_of (py_or (dict_get (as_dict (dict_get (manifest_of f) ''trigger_payload'')) ''workflow_run_id'') (dict_get (manifest_of f) ''workflow_run_id''))) = []
    \<Longrightarrow> truthy (ev_task_id e)
    \<Longrightarrow> task_of (ev_task_id e) = Some t \<Longrightarrow> task_of_run r t log \<Longrightarrow> attributed_result r manifest_of task_of e log"

lemma attributed_result_run: "attributed_result r manifest_of task_of e log \<Longrightarrow> result_run manifest_of task_of e log = r"
  by (induction rule: attributed_result.induct) (auto simp: result_run_def Let_def task_of_run_id)

text \<open>C8: A run that is over stays over. Once a run has ended other than by a blocked goal, then whatever is appended to the log, short of an event that
  blocks its goal, every dispatch that the fence attributes to the run is blocked, be it by the name of the run, by the event that triggers the dispatch or by
  the task that is to be dispatched, whose run is the one its contract names or else the one named by the last event about it; every result
  that is attributed to it, by its own payload, by the manifest of its fanout or by its task, is turned away; and a repeated invocation is answered with its final status and
  changes nothing.\<close>

theorem run_terminal_final:
  assumes over: "map_of (ap_runs (build_run_admission_projection log)) r = Some en" "run_over en" "re_terminal_type en \<noteq> ''run.goal.blocked''"
    and later: "list_all (\<lambda>e. \<not> (type_in e [''run.goal.blocked''] \<and> run_id_of e = r)) later"
  shows "\<exists>status \<in> {''completed'', ''blocked'', ''cancelled'', ''failed'', ''rejected'', ''abandoned''}.
    (\<forall>run event task. attributed_dispatch r (log @ later) run event task \<longrightarrow>
         run_dispatch_block_reason run event task (log @ later) = ''run_terminal:'' @ status)
    \<and> (\<forall>e manifest_of task_of. attributed_result r manifest_of task_of e (log @ later) \<longrightarrow>
         fst (reject_late_run_result rt manifest_of task_of e (log @ later)) = ''run_terminal:'' @ status)
    \<and> (\<forall>e. run_id_of e = r \<longrightarrow>
         ad_status (fst (admit_workflow_invoke rt e (log @ later))) = status \<and> snd (admit_workflow_invoke rt e (log @ later)) = log @ later)"
proof -
  let ?later = "log @ later"
  have now: "track (is_pending log r) r log = Some en" using over(1) by (simp add: ap_runs_track)
  from track_final [OF terminal_track [OF now over(2)] over(2,3), of later "is_pending ?later r"] later
  obtain en' where en': "map_of (ap_runs (build_run_admission_projection ?later)) r = Some en'" "run_over en'"
    by (auto simp: ap_runs_track list_all_iff)
  have r: "r \<noteq> []" "strip r = r" using track_run_id [OF now] track_strip [OF now] by blast+
  have "re_status en' \<in> {''completed'', ''blocked'', ''cancelled'', ''failed'', ''rejected'', ''abandoned''}" using en'(2) by (simp add: run_over_def)
  moreover have "run_dispatch_block_reason run event task ?later = ''run_terminal:'' @ re_status en'"
    if "attributed_dispatch r ?later run event task" for run event task
    using en' attributed_candidate [OF that] by (auto simp: run_dispatch_block_reason_def run_over_def)
  moreover have "fst (reject_late_run_result rt manifest_of task_of e ?later) = ''run_terminal:'' @ re_status en'"
    if "attributed_result r manifest_of task_of e ?later" for e manifest_of task_of
    using en' attributed_result_run [OF that] by (simp add: reject_late_run_result_def late_result_reason_def)
  moreover have "admit_workflow_invoke rt e ?later = (decision en' (build_run_admission_projection ?later) True, ?later)" if "run_id_of e = r" for e
    using en' r that by (simp add: admit_workflow_invoke_def replay_answer_def)
  moreover have "ad_status (decision en' proj True) = re_status en'" for proj using en'(2) by (auto simp: decision_def run_over_def)
  ultimately show ?thesis by (intro bexI [of _ "re_status en'"]) auto
qed

definition over_log :: "zf_event list" where
  "over_log = demo_log2 @ [demo_end ''x'' ''run.cancelled'' ''A'']"

definition late_events :: "zf_event list" where
  "late_events = [demo_end ''y'' ''run.resumed'' ''A'',
     (demo_end ''z'' ''run.goal.updated'' ''A'')\<lparr>ev_payload := JObj [(''run_id'', JStr ''A''), (''status'', JStr ''active'')]\<rparr>]"

definition over_task :: pydict where
  "over_task = [(''id'', JStr ''T1''), (''contract'', JObj [(''evidence_contract'', JObj [(''workflow_run_id'', JStr ''A'')])])]"

theorem run_terminal_final_witness:
  "\<exists>status. run_dispatch_block_reason ''A'' None None (over_log @ late_events) = ''run_terminal:'' @ status
     \<and> run_dispatch_block_reason [] (Some (demo_end ''d'' ''task.ready'' ''A'')) None (over_log @ late_events) = ''run_terminal:'' @ status
     \<and> run_dispatch_block_reason [] None (Some over_task) (over_log @ late_events) = ''run_terminal:'' @ status
     \<and> snd (admit_workflow_invoke (demo_runtime ''serial'') (demo_invoke ''i9'' ''A'') (over_log @ late_events)) = over_log @ late_events"
proof -
  obtain en where en: "map_of (ap_runs (build_run_admission_projection over_log)) ''A'' = Some en" "run_over en" "re_terminal_type en = ''run.cancelled''"
  proof -
    have "case map_of (ap_runs (build_run_admission_projection over_log)) ''A'' of None \<Rightarrow> False
      | Some en \<Rightarrow> run_over en \<and> re_terminal_type en = ''run.cancelled''" by code_simp
    then show thesis using that by (auto split: option.splits)
  qed
  have "list_all (\<lambda>e. \<not> (type_in e [''run.goal.blocked''] \<and> run_id_of e = ''A'')) late_events" by code_simp
  moreover have "run_id_of (demo_invoke ''i9'' ''A'') = ''A''" by code_simp
  moreover have "attributed_dispatch ''A'' log ''A'' None None" for log by (rule attributed_dispatch.by_name) code_simp+
  moreover have "attributed_dispatch ''A'' log [] (Some (demo_end ''d'' ''task.ready'' ''A'')) None" for log
    by (rule attributed_dispatch.by_event) code_simp+
  moreover have "task_of_run ''A'' over_task log" for log by (rule task_of_run.contract) code_simp+
  then have "attributed_dispatch ''A'' log [] None (Some over_task)" for log by (intro attributed_dispatch.by_task) simp_all
  ultimately show ?thesis using run_terminal_final [OF en(1,2), of late_events "demo_runtime ''serial''"] en(3) by auto
qed

text \<open>A blocked goal is the way back: a run that was completed and then reported as blocked can be reopened, by the entry of the run as by the
  names of the runs that are over.\<close>

definition reopened_log :: "zf_event list" where
  "reopened_log = [demo_invoke ''i1'' ''A'', demo_end ''x'' ''run.completed'' ''A'', demo_end ''y'' ''run.goal.blocked'' ''A'',
     (demo_end ''z'' ''run.goal.updated'' ''A'')\<lparr>ev_payload := JObj [(''run_id'', JStr ''A''), (''status'', JStr ''active'')]\<rparr>]"

lemma completed_run_reopened:
  "ap_active (build_run_admission_projection reopened_log) = [''A'']" "snd (fold_terminal_run_scope reopened_log) = []"
  "snd (fold_terminal_run_scope (take 2 reopened_log)) = [''A'']"
  by code_simp+


section \<open>The queue\<close>

lemma policy_positive: "0 < policy_max_active_runs rt"
  by (simp add: policy_max_active_runs_def Let_def less_max_iff_disj)

definition alive :: "zf_event list \<Rightarrow> string \<Rightarrow> bool" where
  "alive log r \<longleftrightarrow> (\<forall>en. track (is_pending log r) r log = Some en \<longrightarrow> \<not> run_over en)"

lemma admission_pending:
  "ev_type x = JStr t \<Longrightarrow> t \<in> set RUN_ADMISSION_EVENT_TYPES \<Longrightarrow> is_pending (log @ [x]) r = is_pending log r"
  by (rule pending_other) (auto simp: type_in_def OUTCOME_EVENTS_def RUN_ADMISSION_EVENT_TYPES_def)

lemma new_entry_alive [simp]: "\<not> run_over (new_run_entry r i)"
  by (simp add: run_over_def new_run_entry_def)

lemma admission_relevant: "ev_type x = JStr t \<Longrightarrow> t \<in> set RUN_ADMISSION_EVENT_TYPES \<Longrightarrow> relevant_event x"
  by (auto simp: relevant_event_def type_in_def)

text \<open>Asking for a run and releasing it keep it alive; admitting a run that is alive makes it active.\<close>

lemma alive_event:
  assumes "ev_type x = JStr t" "t \<in> {''run.admission.requested'', ''run.admission.released''}" and "alive log r"
  shows "alive (log @ [x]) r"
proof -
  have "t \<in> set RUN_ADMISSION_EVENT_TYPES" using assms(2) by (auto simp: RUN_ADMISSION_EVENT_TYPES_def)
  from admission_pending [OF assms(1) this] have pend: "is_pending (log @ [x]) r = is_pending log r" .
  let ?old = "case track (is_pending log r) r log of Some y \<Rightarrow> y | None \<Rightarrow> new_run_entry r (length log)"
  have "\<not> run_over ?old" using assms(3) by (auto simp: alive_def split: option.splits)
  then have "\<not> run_over (note_identity x ?old)" by simp
  then have "\<not> run_over (advance f i x (note_identity x ?old))" for f i
    using assms(1,2) by (auto simp: advance_eqs) (simp_all add: run_over_def)
  then show ?thesis using assms(3) pend by (auto simp: alive_def track_snoc entry_step_def cong: option.case_cong split: if_splits)
qed

lemma admitted_event:
  assumes "ev_type x = JStr ''run.admission.admitted''" "run_id_of x = r" "r \<noteq> []" and "alive log r"
  shows "active_run (log @ [x]) r"
proof -
  have t: "''run.admission.admitted'' \<in> set RUN_ADMISSION_EVENT_TYPES" by (simp add: RUN_ADMISSION_EVENT_TYPES_def)
  let ?old = "case track (is_pending log r) r log of Some y \<Rightarrow> y | None \<Rightarrow> new_run_entry r (length log)"
  have "\<not> run_over (note_identity x ?old)" using assms(4) by (auto simp: alive_def split: option.splits)
  then have "is_active (advance f i x (note_identity x ?old))" for f i using assms(1) by (simp add: advance_eqs is_active_def)
  then show ?thesis
    using assms(2,3) admission_pending [OF assms(1) t] admission_relevant [OF assms(1) t]
    by (auto simp: active_run_def track_snoc entry_step_def concerns_def cong: option.case_cong)
qed

lemma record_alive:
  assumes "faithful_writer rt" "dict_get p ''workflow_run_id'' = JStr r" "r \<noteq> []" "strip r = r"
    and "t \<in> {''run.admission.requested'', ''run.admission.released''}" "alive log r"
  shows "alive (record_once rt t e r p log) r"
    "admission_event_for_source (record_once rt t e r p log) ''run.admission.admitted'' i = admission_event_for_source log ''run.admission.admitted'' i"
proof -
  show "alive (record_once rt t e r p log) r"
    by (rule record_onceE [OF assms(1-4), of log t e]) (use alive_event [OF _ assms(5,6)] assms(6) in auto)
  show "admission_event_for_source (record_once rt t e r p log) ''run.admission.admitted'' i = admission_event_for_source log ''run.admission.admitted'' i"
    by (rule record_onceE [OF assms(1-4), of log t e]) (use assms(5) in \<open>auto simp: admission_event_for_source_def type_in_single\<close>)
qed

lemma record_admitted:
  assumes "faithful_writer rt" "dict_get p ''workflow_run_id'' = JStr r" "r \<noteq> []" "strip r = r"
    and "alive log r" "\<not> admission_event_for_source log ''run.admission.admitted'' (ev_id e)"
  shows "active_run (record_once rt ''run.admission.admitted'' e r p log) r"
  by (rule record_onceE [OF assms(1-4), of log "''run.admission.admitted''" e]) (use admitted_event assms in auto)

lemma with_identity_id [simp]: "ev_id (with_identity e r request) = ev_id e"
  by (simp add: with_identity_def split: json.split)

text \<open>When no other run is active, an invocation that was not admitted before is admitted.\<close>

lemma idle_admission:
  assumes w: "faithful_writer rt" and r: "r \<noteq> []" "strip r = r" and idle: "active_runs log \<subseteq> {r}" and "alive log r"
    and fresh: "\<not> admission_event_for_source log ''run.admission.admitted'' (ev_id e)"
  shows "ad_status (fst (admit_or_queue rt e r request existing log)) = ''admitted'' \<and> active_run (snd (admit_or_queue rt e r request existing log)) r"
proof -
  let ?log1 = "request_run rt e r request log"
  define log2 where "log2 = (if (case existing of Some en \<Rightarrow> re_status en = ''queued'' | None \<Rightarrow> False) then release_run rt e r request ?log1 else ?log1)"
  have one: "alive ?log1 r" "\<not> admission_event_for_source ?log1 ''run.admission.admitted'' (ev_id e)"
    using record_alive [OF w payload_run(2) r _ assms(5), of "''run.admission.requested''"] fresh by (simp_all add: request_run_def)
  have two: "alive log2 r" "\<not> admission_event_for_source log2 ''run.admission.admitted'' (ev_id e)"
    using record_alive [OF w payload_run(1) r _ one(1), of "''run.admission.released''"] one by (simp_all add: log2_def release_run_def)
  have "active_runs ?log1 \<subseteq> {r}" using request_run_quiet [OF w r] idle by blast
  then have "filter (\<lambda>a. a \<noteq> r) (ap_active (build_run_admission_projection ?log1)) = []"
    using ap_active_facts(1) [of ?log1] by (auto simp: filter_empty_conv)
  then have "admission_blocker rt e r ?log1 = []" using policy_positive [of rt] by (simp add: admission_blocker_def)
  then show ?thesis using record_admitted [OF w payload_run(1) r two]
    by (simp add: admit_or_queue_def Let_def plain_decision_def admit_run_def flip: log2_def)
qed

lemma ap_queued_facts:
  shows "set (ap_queued (build_run_admission_projection log)) = {r. \<exists>en. map_of (ap_runs (build_run_admission_projection log)) r = Some en \<and> is_waiting en}"
    and "distinct (ap_queued (build_run_admission_projection log))"
  using selected_runs [of queue_key is_waiting log] by (simp_all add: build_run_admission_projection_def Let_def)

text \<open>C7: A waiting run is not forgotten. When no run is active and a run waits whose invocation was not admitted before, the reconciliation picks the
  invocation of the first run of the queue, and the admission of it succeeds and makes the run active; no run of the queue has waited
  longer.\<close>

theorem queue_head_admitted:
  assumes w: "faithful_writer rt" and idle: "ap_active (build_run_admission_projection log) = []" and queue: "ap_queued (build_run_admission_projection log) = r # rs"
    and entry: "map_of (ap_runs (build_run_admission_projection log)) r = Some en" "re_source_event_id en \<noteq> []"
    and source: "invoke_with_id (re_source_event_id en) log = Some e" "run_id_of e = r" "\<not> admission_event_for_source log ''run.admission.admitted'' (ev_id e)"
  shows "next_source rt [] log = Some e \<and> ad_status (fst (admit_workflow_invoke rt e log)) = ''admitted''
    \<and> r \<in> set (ap_active (build_run_admission_projection (snd (admit_workflow_invoke rt e log))))
    \<and> (\<forall>q \<in> set rs. \<forall>en'. map_of (ap_runs (build_run_admission_projection log)) q = Some en' \<longrightarrow> queue_key en \<le> queue_key en')"
proof -
  have "r \<in> set (ap_queued (build_run_admission_projection log))" using queue by simp
  then have queued: "is_waiting en" using entry(1) by (auto simp: ap_queued_facts(1))
  have track: "track (is_pending log r) r log = Some en" using entry(1) by (simp add: ap_runs_track)
  then have r: "r \<noteq> []" "strip r = r" using track_run_id track_strip by blast+
  have "fromkeys (candidates rt log) = r # rs"
    using policy_positive [of rt] idle queue ap_queued_facts(2) [of log] by (simp add: candidates_def Let_def)
  then have picked: "next_source rt [] log = Some e" using entry source(1) by (simp add: next_source_def)
  have "alive log r" using track queued by (auto simp: alive_def is_waiting_def run_over_def)
  moreover have "active_runs log \<subseteq> {r}" using ap_active_facts(1) [of log] idle by auto
  ultimately have "ad_status (fst (admit_workflow_invoke rt e log)) = ''admitted'' \<and> active_run (snd (admit_workflow_invoke rt e log)) r"
    using idle_admission [OF w r, of log "with_identity e r (request_id_of e)"] source(2,3) entry(1) r queued
    by (auto simp: admit_workflow_invoke_def Let_def replay_answer_def is_waiting_def run_over_def)
  moreover have "queue_key en \<le> queue_key en'" if "q \<in> set rs" "map_of (ap_runs (build_run_admission_projection log)) q = Some en'" for q en'
  proof -
    let ?es = "sort_key queue_key (filter is_waiting (map snd (ap_runs (build_run_admission_projection log))))"
    have ids: "map re_run_id ?es = r # rs" using queue by (simp add: build_run_admission_projection_def Let_def)
    then obtain x xs where es: "?es = x # xs" "re_run_id x = r" "map re_run_id xs = rs" by (cases ?es) auto
    have known: "map_of (ap_runs (build_run_admission_projection log)) (re_run_id y) = Some y" if "y \<in> set ?es" for y
      using that admission_runs_entry by (fastforce simp: build_run_admission_projection_def Let_def map_of_eq_Some_iff [OF distinct_admission_runs])
    have "x = en" using known [of x] es entry(1) by simp
    moreover have "en' \<in> set xs" using that es(3) known es(1) by fastforce
    moreover have "sorted (map queue_key (x # xs))" using sorted_sort_key [of queue_key] es(1) by metis
    ultimately show ?thesis by auto
  qed
  ultimately show ?thesis using picked ap_active_facts(1) by auto
qed

definition idle_log :: "zf_event list" where
  "idle_log = demo_log2 @ [demo_end ''x'' ''run.completed'' ''A'']"

lemma idle_facts:
  "ap_active (build_run_admission_projection idle_log) = []" "ap_queued (build_run_admission_projection idle_log) = [''B'']"
  "map_option re_source_event_id (map_of (ap_runs (build_run_admission_projection idle_log)) ''B'') = Some ''i2''"
  "invoke_with_id ''i2'' idle_log = Some (demo_invoke ''i2'' ''B'')" "run_id_of (demo_invoke ''i2'' ''B'') = ''B''"
  "\<not> admission_event_for_source idle_log ''run.admission.admitted'' (ev_id (demo_invoke ''i2'' ''B''))"
  by code_simp+

theorem queue_head_admitted_witness:
  "ap_active (build_run_admission_projection idle_log) = [] \<and> ap_queued (build_run_admission_projection idle_log) = [''B'']
   \<and> next_source (demo_runtime ''serial'') [] idle_log = Some (demo_invoke ''i2'' ''B'')
   \<and> ''B'' \<in> set (ap_active (build_run_admission_projection (snd (admit_workflow_invoke (demo_runtime ''serial'') (demo_invoke ''i2'' ''B'') idle_log))))"
proof -
  obtain en where en: "map_of (ap_runs (build_run_admission_projection idle_log)) ''B'' = Some en" "re_source_event_id en = ''i2''"
    using idle_facts(3) by auto
  from queue_head_admitted [OF demo_faithful idle_facts(1,2) en(1) _ _ idle_facts(5,6)] en(2) idle_facts show ?thesis by simp
qed

text \<open>C39: A crash can wedge the queue. The admission of a waiting run writes that it is released and then that it is admitted; a log that ends between the
  two counts the run as active. In serial mode the reconciliation then finds nothing to do, whatever handler it has, and every further run
  is made to wait.\<close>

theorem released_run_wedges:
  assumes w: "faithful_writer rt" and serial: "policy_mode rt = ''serial''" and gap: "ap_active (build_run_admission_projection log) = [r]"
    "map_of (ap_runs (build_run_admission_projection log)) r = Some en" "\<not> truthy (re_admitted_event_id en)"
  shows "reconcile_run_admission rt handle (Suc fuel) log = Some (0, log)
    \<and> (\<forall>e. run_id_of e \<notin> {[], r} \<and> map_of (ap_runs (build_run_admission_projection log)) (run_id_of e) = None \<longrightarrow>
         ad_status (fst (admit_workflow_invoke rt e log)) = ''queued'')"
proof -
  have one: "policy_max_active_runs rt = 1" using serial by (simp add: policy_max_active_runs_def)
  have "candidates rt log = []" using gap one by (simp add: candidates_def Let_def unanswered_def)
  then have "next_source rt [] log = None" by (simp add: next_source_def fromkeys_def)
  moreover have "ad_status (fst (admit_workflow_invoke rt e log)) = ''queued''"
    if "run_id_of e \<notin> {[], r}" "map_of (ap_runs (build_run_admission_projection log)) (run_id_of e) = None" for e
  proof -
    define e' where "e' = with_identity e (run_id_of e) (request_id_of e)"
    let ?log1 = "request_run rt e' (run_id_of e) (request_id_of e) log"
    have "active_run log r" using ap_active_facts(1) [of log] gap(1) by auto
    moreover have "active_run (log @ [x]) r = active_run log r" if "ev_type x = JStr ''run.admission.requested''" "run_id_of x = run_id_of e" for x
      using that \<open>run_id_of e \<notin> {[], r}\<close> admission_pending [OF that(1)]
      by (intro active_run_other) (auto simp: concerns_def RUN_ADMISSION_EVENT_TYPES_def)
    moreover have "?log1 = log \<or> (\<exists>x. ?log1 = log @ [x] \<and> ev_type x = JStr ''run.admission.requested'' \<and> run_id_of x = run_id_of e)"
      using that(1) unfolding request_run_def by (intro record_once_cases [OF w payload_run(2)]) simp_all
    ultimately have "active_run ?log1 r" by auto
    then have "r \<in> set (filter (\<lambda>a. a \<noteq> run_id_of e) (ap_active (build_run_admission_projection ?log1)))"
      using that(1) by (auto simp: ap_active_facts(1))
    then have "1 \<le> length (filter (\<lambda>a. a \<noteq> run_id_of e) (ap_active (build_run_admission_projection ?log1)))"
      by (cases "filter (\<lambda>a. a \<noteq> run_id_of e) (ap_active (build_run_admission_projection ?log1))") auto
    then have "admission_blocker rt e' (run_id_of e) ?log1 \<noteq> []" using one by (simp add: admission_blocker_def Let_def)
    then show ?thesis using that by (simp add: admit_workflow_invoke_def Let_def admit_or_queue_def plain_decision_def e'_def)
  qed
  ultimately show ?thesis by (simp add: reconcile_run_admission_def)
qed

definition crash_log :: "zf_event list" where
  "crash_log = idle_log @ [demo_admission ''n7'' ''run.admission.released'' ''i2'' ''B'' [(''reason'', JStr ''Run capacity released'')]]"

text \<open>That log is what the admission of the waiting run has written when only its last event is missing.\<close>

lemma crash_facts:
  "admit_workflow_invoke (demo_runtime ''serial'') (demo_invoke ''i2'' ''B'') idle_log
   = (plain_decision ''admitted'' (demo_invoke ''i2'' ''B'') ''B'' ''B'' 0 [] True,
      crash_log @ [demo_admission ''n8'' ''run.admission.admitted'' ''i2'' ''B'' demo_admitted])"
  "map_option (\<lambda>en. truthy (re_admitted_event_id en)) (map_of (ap_runs (build_run_admission_projection crash_log)) ''B'') = Some False"
  "policy_mode (demo_runtime ''serial'') = ''serial''" "ap_active (build_run_admission_projection crash_log) = [''B'']"
  "run_id_of (demo_invoke ''i3'' ''C'') = ''C''" "map_of (ap_runs (build_run_admission_projection crash_log)) ''C'' = None"
  by code_simp+

theorem released_run_wedges_witness:
  "butlast (snd (admit_workflow_invoke (demo_runtime ''serial'') (demo_invoke ''i2'' ''B'') idle_log)) = crash_log
   \<and> reconcile_run_admission (demo_runtime ''serial'') (\<lambda>e log. snd (admit_workflow_invoke (demo_runtime ''serial'') e log)) 1 crash_log = Some (0, crash_log)
   \<and> ad_status (fst (admit_workflow_invoke (demo_runtime ''serial'') (demo_invoke ''i3'' ''C'') crash_log)) = ''queued''"
proof -
  obtain en where en: "map_of (ap_runs (build_run_admission_projection crash_log)) ''B'' = Some en" "\<not> truthy (re_admitted_event_id en)"
    using crash_facts(2) by auto
  from released_run_wedges [OF demo_faithful crash_facts(3,4) en, of _ 0] crash_facts show ?thesis by simp
qed

section \<open>The reconciliation ends\<close>

definition request_ids :: "zf_event list \<Rightarrow> string set" where
  "request_ids log = {i. \<exists>e \<in> set log. ev_id e = JStr i \<and> type_in e [''workflow.invoke.requested'']}"

lemma finite_request_ids: "finite (request_ids log)"
  by (rule finite_subset [of _ "py_str ` ev_id ` set log"]) (force simp: request_ids_def)+

lemma first_source_new:
  "first_source runs attempted log rs = Some e \<Longrightarrow> \<exists>i. ev_id e = JStr i \<and> i \<in> request_ids log \<and> i \<notin> set attempted"
proof (induction runs attempted log rs rule: first_source.induct)
  case (2 runs attempted log r rs)
  then show ?case
    by (auto simp: invoke_with_id_def request_ids_def find_Some_iff split: option.splits if_splits)
qed simp

lemma reconcile_loop_ends:
  assumes "\<And>e log. request_ids (handle e log) \<subseteq> request_ids log"
  shows "card (request_ids log - set attempted) < fuel \<Longrightarrow>
    \<exists>n log'. reconcile_loop rt handle fuel attempted replayed log = Some (n, log') \<and> n \<le> replayed + card (request_ids log - set attempted)"
proof (induction fuel arbitrary: attempted replayed log)
  case (Suc fuel)
  show ?case
  proof (cases "next_source rt attempted log")
    case (Some e)
    let ?log = "handle e log" and ?tried = "py_str (ev_id e) # attempted"
    obtain i where i: "ev_id e = JStr i" "i \<in> request_ids log - set attempted" using first_source_new Some by (force simp: next_source_def)
    have "request_ids ?log - set ?tried \<subseteq> request_ids log - set attempted - {i}" using assms i(1) by auto
    then have "card (request_ids ?log - set ?tried) \<le> card (request_ids log - set attempted - {i})"
      by (intro card_mono) (simp_all add: finite_request_ids)
    moreover have "Suc (card (request_ids log - set attempted - {i})) = card (request_ids log - set attempted)"
      using i(2) by (intro card_Suc_Diff1) (simp_all add: finite_request_ids)
    ultimately have less: "Suc (card (request_ids ?log - set ?tried)) \<le> card (request_ids log - set attempted)" by linarith
    then show ?thesis using Suc.IH [of ?log ?tried "Suc replayed"] Suc.prems Some by (fastforce simp: Let_def)
  qed simp
qed simp

text \<open>C17: The reconciliation ends. With a handler that records no further requests, a pass replays every request at most once and returns after as many rounds
  as the log has requests.\<close>

theorem reconciliation_ends:
  assumes "\<And>e log. request_ids (handle e log) \<subseteq> request_ids log" and "card (request_ids log) < fuel"
  shows "\<exists>n log'. reconcile_run_admission rt handle fuel log = Some (n, log') \<and> n \<le> card (request_ids log)"
  using reconcile_loop_ends [where handle = handle and attempted = "[]" and replayed = 0, OF assms(1)] assms(2) by (simp add: reconcile_run_admission_def)

lemma request_ids_record:
  assumes "faithful_writer rt" "dict_get p ''workflow_run_id'' = JStr r" "r \<noteq> []" "strip r = r" "t \<noteq> ''workflow.invoke.requested''"
  shows "request_ids (record_once rt t e r p log) = request_ids log"
  by (rule record_onceE [OF assms(1-4), of log t e]) (use assms(5) in \<open>auto simp: request_ids_def type_in_single\<close>)

text \<open>The admission itself is such a handler.\<close>

lemma admit_requests: "faithful_writer rt \<Longrightarrow> request_ids (snd (admit_workflow_invoke rt e log)) = request_ids log"
  by (auto simp: admit_workflow_invoke_def Let_def admit_or_queue_def request_run_def enqueue_def release_run_def admit_run_def request_ids_record
      split: option.splits)

theorem reconciliation_ends_witness:
  "\<exists>n log'. reconcile_run_admission (demo_runtime ''concurrent'') (\<lambda>e log. snd (admit_workflow_invoke (demo_runtime ''concurrent'') e log))
     (Suc (card (request_ids idle_log))) idle_log = Some (n, log') \<and> n \<le> card (request_ids idle_log)"
  by (rule reconciliation_ends) (simp_all add: admit_requests [OF demo_faithful])

end
