(* ===== verification/Attestation.thy ===== *)
theory Attestation
  imports Py_Json Py_Hash
begin

text \<open>
  \<open>core/security/attestation.py\<close> with the digests of \<open>core/security/hash.py\<close>: frozen artifacts are recorded with their SHA-256, one file per
  artifact under \<open>.zf/attestations/\<close>, and checked against it before they are used. The state is the content of the attested files by path and the
  attestation files by name; an attestation file is what \<open>json.loads\<close> makes of it, \<open>None\<close> when that fails. The time is an argument.
\<close>

section \<open>Digests\<close>

definition sha256_text :: "string \<Rightarrow> string" where
  "sha256_text s = sha256_hex s"

text \<open>Hashing in chunks is hashing the content.\<close>

definition sha256_json :: "json \<Rightarrow> string" where
  "sha256_json v = sha256_text (json_dumps '', '' '': '' True v)"

section \<open>Attestations\<close>

definition ATTESTATION_SCHEMA_VERSION :: string where
  "ATTESTATION_SCHEMA_VERSION = ''1.0''"

definition KNOWN_ATTESTATION_KINDS :: "string list" where
  "KNOWN_ATTESTATION_KINDS =
     [''context_manifest'', ''research_index'', ''role_briefing'', ''skills_manifest'', ''state_packet'', ''task_contract'']"

record attestation =
  at_artifact_path :: string
  at_kind :: string
  at_sha256 :: string
  at_schema_version :: string
  at_source_events :: "string list"
  at_task_id :: string
  at_dispatch_id :: string
  at_attested_at :: string

definition is_hex_lower :: "char \<Rightarrow> bool" where
  "is_hex_lower c \<longleftrightarrow> (let n = (of_char c :: nat) in (48 \<le> n \<and> n \<le> 57) \<or> (97 \<le> n \<and> n \<le> 102))"

text \<open>\<open>__post_init__\<close>\<close>

definition check_attestation :: "attestation \<Rightarrow> attestation res" where
  "check_attestation a =
     (if at_kind a \<notin> set KNOWN_ATTESTATION_KINDS then
        Inl (ValueError (''Attestation.kind '' @ repr_str (at_kind a) @ '' not in '' @ py_repr (JList (map JStr KNOWN_ATTESTATION_KINDS))))
      else if length (at_sha256 a) \<noteq> 64 \<or> \<not> list_all is_hex_lower (at_sha256 a) then
        Inl (ValueError (''Attestation.sha256 must be 64-hex; got '' @ repr_str (at_sha256 a)))
      else Inr a)"

definition strip_left :: "char \<Rightarrow> string \<Rightarrow> string" where
  "strip_left c s = dropWhile (\<lambda>x. x = c) s"

definition safe_path_part :: "string \<Rightarrow> string" where
  "safe_path_part p = concat (map (\<lambda>c. if c = CHR ''/'' then ''__'' else [c]) (strip_left CHR ''/'' (strip_left CHR ''.'' p)))"

definition attestation_path_for :: "string \<Rightarrow> string" where
  "attestation_path_for p = safe_path_part p @ ''.attest.json''"

record attestation_store =
  as_artifacts :: "(string \<times> string) list"
  as_files :: "(string \<times> json option) list"

definition attestation_dict :: "attestation \<Rightarrow> pydict" where
  "attestation_dict a =
     [(''artifact_path'', JStr (at_artifact_path a)), (''kind'', JStr (at_kind a)), (''sha256'', JStr (at_sha256 a)),
      (''schema_version'', JStr (at_schema_version a)), (''source_events'', JList (map JStr (at_source_events a))),
      (''task_id'', JStr (at_task_id a)), (''dispatch_id'', JStr (at_dispatch_id a)), (''attested_at'', JStr (at_attested_at a))]"

definition write_attestation :: "attestation \<Rightarrow> attestation_store \<Rightarrow> attestation_store" where
  "write_attestation a st =
     st\<lparr>as_files := AList.update (attestation_path_for (at_artifact_path a)) (Some (JObj (sort_dict (attestation_dict a)))) (as_files st)\<rparr>"

text \<open>The fields are read one by one; a \<open>ValueError\<close> or \<open>TypeError\<close> of the constructor gives \<open>None\<close>, a value without \<open>get\<close> raises.\<close>

definition attestation_of :: "pydict \<Rightarrow> attestation res" where
  "attestation_of d =
     res_bind (if truthy (dict_get d ''source_events'') then py_list (dict_get d ''source_events'') else Inr [])
       (\<lambda>events. check_attestation
          \<lparr>at_artifact_path = sget d ''artifact_path'', at_kind = sget d ''kind'', at_sha256 = sget d ''sha256'',
           at_schema_version = sget_or d ''schema_version'' ATTESTATION_SCHEMA_VERSION, at_source_events = map py_str events,
           at_task_id = sget d ''task_id'', at_dispatch_id = sget d ''dispatch_id'', at_attested_at = sget d ''attested_at''\<rparr>)"

definition read_attestation :: "string \<Rightarrow> attestation_store \<Rightarrow> attestation option res" where
  "read_attestation p st =
     (case map_of (as_files st) (attestation_path_for p) of
        None \<Rightarrow> Inr None
      | Some None \<Rightarrow> Inr None
      | Some (Some (JObj d)) \<Rightarrow> (case attestation_of d of Inl _ \<Rightarrow> Inr None | Inr a \<Rightarrow> Inr (Some a))
      | Some (Some _) \<Rightarrow> Inl (AttributeError ''get''))"

record attestation_request =
  rq_kind :: string
  rq_source_events :: "string list"
  rq_task_id :: string
  rq_dispatch_id :: string
  rq_now :: string

definition build_attestation :: "attestation_request \<Rightarrow> string \<Rightarrow> string \<Rightarrow> attestation res" where
  "build_attestation rq p digest =
     check_attestation
       \<lparr>at_artifact_path = p, at_kind = rq_kind rq, at_sha256 = digest, at_schema_version = ATTESTATION_SCHEMA_VERSION,
        at_source_events = rq_source_events rq, at_task_id = rq_task_id rq, at_dispatch_id = rq_dispatch_id rq, at_attested_at = rq_now rq\<rparr>"

definition attest_file_artifact :: "attestation_request \<Rightarrow> string \<Rightarrow> attestation_store \<Rightarrow> (attestation \<times> attestation_store) res" where
  "attest_file_artifact rq p st =
     (case map_of (as_artifacts st) p of
        None \<Rightarrow> Inl (OSError ''No such file or directory'')
      | Some content \<Rightarrow> map_sum id (\<lambda>a. (a, write_attestation a st)) (build_attestation rq p (sha256_text content)))"

definition attest_object_artifact :: "attestation_request \<Rightarrow> json \<Rightarrow> string \<Rightarrow> attestation_store \<Rightarrow> (attestation \<times> attestation_store) res" where
  "attest_object_artifact rq obj p st = map_sum id (\<lambda>a. (a, write_attestation a st)) (build_attestation rq p (sha256_json obj))"

record verification_result =
  vr_matched :: bool
  vr_expected_sha256 :: string
  vr_actual_sha256 :: string
  vr_reason :: string

definition tampered :: "verification_result \<Rightarrow> bool" where
  "tampered v \<longleftrightarrow> \<not> vr_matched v \<and> vr_reason v = ''hash_mismatch''"

definition no_attestation :: verification_result where
  "no_attestation = \<lparr>vr_matched = False, vr_expected_sha256 = [], vr_actual_sha256 = [], vr_reason = ''no_attestation''\<rparr>"

definition compare_digest :: "string \<Rightarrow> string \<Rightarrow> verification_result" where
  "compare_digest expected actual =
     \<lparr>vr_matched = (actual = expected), vr_expected_sha256 = expected, vr_actual_sha256 = actual,
      vr_reason = (if actual = expected then [] else ''hash_mismatch'')\<rparr>"

definition verify_file_artifact :: "string \<Rightarrow> attestation_store \<Rightarrow> verification_result res" where
  "verify_file_artifact p st =
     res_bind (read_attestation p st) (\<lambda>r. case r of
        None \<Rightarrow> Inr no_attestation
      | Some a \<Rightarrow>
          (case map_of (as_artifacts st) p of
             None \<Rightarrow> Inr \<lparr>vr_matched = False, vr_expected_sha256 = at_sha256 a, vr_actual_sha256 = [], vr_reason = ''missing_artifact''\<rparr>
           | Some content \<Rightarrow> Inr (compare_digest (at_sha256 a) (sha256_text content))))"

definition verify_object_artifact :: "json \<Rightarrow> string \<Rightarrow> attestation_store \<Rightarrow> verification_result res" where
  "verify_object_artifact obj p st =
     res_bind (read_attestation p st) (\<lambda>r. case r of
        None \<Rightarrow> Inr no_attestation
      | Some a \<Rightarrow> Inr (compare_digest (at_sha256 a) (sha256_json obj)))"

section \<open>What is attested is what is read\<close>

lemma attestation_of_cong:
  assumes "map_of d = map_of d'"
  shows "attestation_of d = attestation_of d'"
proof -
  have "dict_get d = dict_get d'" using assms by (simp add: dict_get_def fun_eq_iff)
  then show ?thesis by (simp add: attestation_of_def sget_def sget_or_def)
qed

lemma sget_JStr: "map_of d k = Some (JStr s) \<Longrightarrow> sget d k = s"
  by (simp add: sget_def dict_get_def)

lemma attestation_of_dict:
  assumes "at_schema_version a \<noteq> []"
  shows "attestation_of (attestation_dict a) = check_attestation a"
proof -
  have "sget (attestation_dict a) ''artifact_path'' = at_artifact_path a" "sget (attestation_dict a) ''kind'' = at_kind a"
    "sget (attestation_dict a) ''sha256'' = at_sha256 a" "sget (attestation_dict a) ''task_id'' = at_task_id a"
    "sget (attestation_dict a) ''dispatch_id'' = at_dispatch_id a" "sget (attestation_dict a) ''attested_at'' = at_attested_at a"
    by (rule sget_JStr, simp add: attestation_dict_def)+
  moreover have "sget_or (attestation_dict a) ''schema_version'' v = at_schema_version a" for v
    using assms by (simp add: sget_or_def dict_get_def attestation_dict_def)
  moreover have "dict_get (attestation_dict a) ''source_events'' = JList (map JStr (at_source_events a))"
    by (simp add: dict_get_def attestation_dict_def)
  ultimately show ?thesis by (cases a, cases "at_source_events a") (simp_all add: attestation_of_def py_list_def comp_def)
qed

lemma attestation_round_trip:
  "at_schema_version a \<noteq> [] \<Longrightarrow> attestation_of (sort_dict (attestation_dict a)) = check_attestation a"
proof -
  have "distinct (map fst (attestation_dict a))" by (simp add: attestation_dict_def)
  then show "at_schema_version a \<noteq> [] \<Longrightarrow> ?thesis"
    using attestation_of_cong [OF map_of_sort_dict, of "attestation_dict a"] attestation_of_dict [of a] by simp
qed

lemma check_id: "check_attestation a = Inr b \<Longrightarrow> a = b"
  by (auto simp: check_attestation_def split: if_splits)

lemma build_facts:
  assumes "build_attestation rq p digest = Inr a"
  shows "check_attestation a = Inr a" "at_artifact_path a = p" "at_sha256 a = digest" "at_schema_version a \<noteq> []"
proof -
  note built = check_id [OF assms [unfolded build_attestation_def]]
  with assms show "check_attestation a = Inr a" "at_artifact_path a = p" "at_sha256 a = digest" "at_schema_version a \<noteq> []"
    by (auto simp: build_attestation_def ATTESTATION_SCHEMA_VERSION_def)
qed

lemma read_written:
  assumes "build_attestation rq p digest = Inr a"
  shows "read_attestation q (write_attestation a st) =
    (if attestation_path_for q = attestation_path_for p then Inr (Some a) else read_attestation q st)"
  using build_facts [OF assms] attestation_round_trip [of a]
  by (simp add: read_attestation_def write_attestation_def update_conv')

text \<open>The digest of an object does not depend on the order of its keys.\<close>

lemma sort_dict_unique:
  assumes "mset d = mset d'" "distinct (map fst d)"
  shows "sort_dict d = sort_dict d'"
proof (rule map_sorted_distinct_set_unique [where f = fst])
  have perm: "distinct (map fst d')" using assms by (metis mset_eq_imp_distinct_iff mset_map)
  show "inj_on fst (set (sort_dict d) \<union> set (sort_dict d'))"
    using assms mset_eq_setD [OF assms(1)] by (simp add: distinct_map)
  show "sorted (map fst (sort_dict d))" "sorted (map fst (sort_dict d'))" by (simp_all add: sort_dict_def)
  show "distinct (map fst (sort_dict d))" "distinct (map fst (sort_dict d'))" using assms(2) perm by simp_all
  show "set (sort_dict d) = set (sort_dict d')" using mset_eq_setD [OF assms(1)] by simp
qed

text \<open>The same value, with the keys of its objects in another order, at any depth. The keys of an object are distinct, as those of a Python dict are.\<close>

inductive reordered :: "json \<Rightarrow> json \<Rightarrow> bool" where
  same: "reordered v v"
| inside_list: "list_all2 reordered xs ys \<Longrightarrow> reordered (JList xs) (JList ys)"
| inside_dict: "list_all2 (\<lambda>a b. fst a = fst b \<and> reordered (snd a) (snd b)) d d' \<Longrightarrow> distinct (map fst d) \<Longrightarrow> mset d' = mset d''
    \<Longrightarrow> reordered (JObj d) (JObj d'')"

lemma reordered_dumps: "reordered v w \<Longrightarrow> json_dumps isep ksep True v = json_dumps isep ksep True w"
proof (induction rule: reordered.induct)
  case (inside_list xs ys)
  then have "map (json_dumps isep ksep True) xs = map (json_dumps isep ksep True) ys"
    by (auto simp: list_all2_conv_all_nth intro: nth_equalityI)
  then show ?case by simp
next
  case (inside_dict d d' d'')
  let ?g = "\<lambda>kv. (fst kv, json_string (fst kv) @ ksep @ json_dumps isep ksep True (snd kv))"
  have "map ?g d = map ?g d'" using inside_dict(1) by (auto simp: list_all2_conv_all_nth intro: nth_equalityI)
  moreover have "map fst d' = map fst d" using inside_dict(1) by (auto simp: list_all2_conv_all_nth intro: nth_equalityI)
  moreover have "sort_dict (map ?g d') = sort_dict (map ?g d'')"
    using inside_dict(2,3) calculation(2) by (intro sort_dict_unique) (simp_all add: comp_def mset_map)
  ultimately show ?case by simp
qed simp

lemma sha256_json_order: "reordered v w \<Longrightarrow> sha256_json v = sha256_json w"
  by (simp add: sha256_json_def reordered_dumps)

section \<open>Every digest is accepted\<close>

lemma hex_char_lower: "n < 16 \<Longrightarrow> is_hex_lower (hex_char n)"
  by (auto simp: is_hex_lower_def hex_char_def Let_def of_char_of)

lemma hex_byte_lower: "list_all is_hex_lower (hex_byte b)"
  by (simp add: hex_byte_def hex_char_lower nibble)

lemma sha256_hex_lower: "list_all is_hex_lower (sha256_hex s)"
  using hex_byte_lower by (auto simp: sha256_hex_def hexdigest_words_def list_all_iff)

lemma build_succeeds:
  assumes "rq_kind rq \<in> set KNOWN_ATTESTATION_KINDS"
  shows "\<exists>a. build_attestation rq p (sha256_hex s) = Inr a"
  using assms by (simp add: build_attestation_def check_attestation_def sha256_hex_lower)

text \<open>Both ways to attest build a record and write it.\<close>

lemma attest_written:
  assumes "map_sum id (\<lambda>a. (a, write_attestation a st)) (build_attestation rq p digest) = Inr (a, st')"
  shows "at_sha256 a = digest" "as_artifacts st' = as_artifacts st"
    "read_attestation q st' = (if attestation_path_for q = attestation_path_for p then Inr (Some a) else read_attestation q st)"
proof -
  have "build_attestation rq p digest = Inr a" "st' = write_attestation a st"
    using assms by (auto simp: map_sum_def split: sum.splits)
  then show "at_sha256 a = digest" "as_artifacts st' = as_artifacts st"
    "read_attestation q st' = (if attestation_path_for q = attestation_path_for p then Inr (Some a) else read_attestation q st)"
    using build_facts(3) read_written by (simp_all add: write_attestation_def)
qed

section \<open>Verification\<close>

text \<open>What happens to the files after an artifact was attested: further attestations and edits of the attested files. An attestation that fails
  changes nothing.\<close>

datatype attestation_op =
    AttestFile attestation_request string
  | AttestObject attestation_request json string
  | EditFile string "string option"

definition edit_file :: "string \<Rightarrow> string option \<Rightarrow> attestation_store \<Rightarrow> attestation_store" where
  "edit_file p content st =
     st\<lparr>as_artifacts := (case content of None \<Rightarrow> AList.delete p (as_artifacts st) | Some c \<Rightarrow> AList.update p c (as_artifacts st))\<rparr>"

fun attestation_step :: "attestation_op \<Rightarrow> attestation_store \<Rightarrow> attestation_store" where
  "attestation_step (AttestFile rq p) st = (case attest_file_artifact rq p st of Inl _ \<Rightarrow> st | Inr (a, st') \<Rightarrow> st')"
| "attestation_step (AttestObject rq obj p) st = (case attest_object_artifact rq obj p st of Inl _ \<Rightarrow> st | Inr (a, st') \<Rightarrow> st')"
| "attestation_step (EditFile p content) st = edit_file p content st"

definition attestation_steps :: "attestation_op list \<Rightarrow> attestation_store \<Rightarrow> attestation_store" where
  "attestation_steps ops st = fold attestation_step ops st"

fun attests_slot :: "string \<Rightarrow> attestation_op \<Rightarrow> bool" where
  "attests_slot slot (AttestFile rq p) \<longleftrightarrow> attestation_path_for p = slot"
| "attests_slot slot (AttestObject rq obj p) \<longleftrightarrow> attestation_path_for p = slot"
| "attests_slot slot (EditFile p content) \<longleftrightarrow> False"

lemma step_keeps_slot:
  "\<not> attests_slot (attestation_path_for p) x \<Longrightarrow> read_attestation p (attestation_step x st) = read_attestation p st"
  by (cases x)
    (auto simp: attest_file_artifact_def attest_object_artifact_def edit_file_def read_attestation_def
       dest: attest_written(3) [of _ _ _ _ _ _ p, unfolded read_attestation_def] split: option.splits sum.splits)

lemma steps_keep_slot:
  "list_all (\<lambda>x. \<not> attests_slot (attestation_path_for p) x) ops \<Longrightarrow> read_attestation p (attestation_steps ops st) = read_attestation p st"
  by (induction ops arbitrary: st) (simp_all add: attestation_steps_def step_keeps_slot)

lemma verify_file_compares:
  "read_attestation p st = Inr (Some a) \<Longrightarrow> verify_file_artifact p st = Inr (case map_of (as_artifacts st) p of
      None \<Rightarrow> \<lparr>vr_matched = False, vr_expected_sha256 = at_sha256 a, vr_actual_sha256 = [], vr_reason = ''missing_artifact''\<rparr>
    | Some c \<Rightarrow> compare_digest (at_sha256 a) (sha256_text c))"
  by (simp add: verify_file_artifact_def split: option.split)

lemma verify_object_compares:
  "read_attestation p st = Inr (Some a) \<Longrightarrow> verify_object_artifact obj p st = Inr (compare_digest (at_sha256 a) (sha256_json obj))"
  by (simp add: verify_object_artifact_def)

lemma compare_digest_simps [simp]:
  "vr_matched (compare_digest e c) \<longleftrightarrow> c = e" "tampered (compare_digest e c) \<longleftrightarrow> c \<noteq> e"
  by (simp_all add: compare_digest_def tampered_def)


definition demo_attest_request :: attestation_request where
  "demo_attest_request = \<lparr>rq_kind = ''state_packet'', rq_source_events = [''evt-1''], rq_task_id = ''T-1'', rq_dispatch_id = ''d-1'', rq_now = ''t''\<rparr>"

definition demo_attest_store :: attestation_store where
  "demo_attest_store = \<lparr>as_artifacts = [(''.zf/a.json'', ''{}'')], as_files = []\<rparr>"

definition demo_attest_ops :: "attestation_op list" where
  "demo_attest_ops = [EditFile ''.zf/b.json'' (Some ''x''), AttestFile demo_attest_request ''.zf/b.json'']"

lemma demo_attest_kept:
  "attest_file_artifact demo_attest_request ''.zf/a.json'' demo_attest_store = Inr (a, st) \<Longrightarrow>
   map_of (as_artifacts (attestation_steps demo_attest_ops st)) ''.zf/a.json'' = Some ''{}''"
  by (auto simp: attest_file_artifact_def demo_attest_store_def demo_attest_ops_def attestation_steps_def edit_file_def update_conv'
      dest!: attest_written(2) split: option.splits sum.splits)


section \<open>Shared files\<close>

text \<open>The name of an attestation file forgets leading dots and writes a slash as two underscores, and the record that is read is not compared with the
  path it was asked for: attesting one artifact replaces the attestation of another, whose file is then called tampered although it did not change.\<close>

lemma attestation_slots_collide:
  "attestation_path_for ''.zf/x'' = attestation_path_for ''zf/x''" "attestation_path_for ''a/b'' = attestation_path_for ''a__b''"
  by code_simp+

lemma slots_differ:
  assumes "attestation_path_for p = attestation_path_for q"
    and "CHR ''_'' \<notin> set p \<union> set q" "take 1 p \<notin> {''.'', ''/''}" "take 1 q \<notin> {''.'', ''/''}"
  shows "p = q"
proof -
  let ?f = "\<lambda>c. if c = CHR ''/'' then ''__'' else [c]"
  have start: "strip_left CHR ''/'' (strip_left CHR ''.'' s) = s" if "take 1 s \<notin> {''.'', ''/''}" for s
    using that by (cases s) (auto simp: strip_left_def)
  have "concat (map ?f s) = concat (map ?f t) \<Longrightarrow> CHR ''_'' \<notin> set s \<union> set t \<Longrightarrow> s = t" for s t
  proof (induction s arbitrary: t)
    case Nil
    then show ?case by (cases t) (auto split: if_splits)
  next
    case (Cons c s)
    then obtain d t' where t: "t = d # t'" by (cases t) (auto split: if_splits)
    with Cons.prems have "c = d" "concat (map ?f s) = concat (map ?f t')" by (auto split: if_splits)
    with Cons t show ?case by auto
  qed
  then show ?thesis using assms by (simp add: attestation_path_for_def safe_path_part_def start)
qed

lemma attestation_replaced:
  assumes "attestation_path_for q = attestation_path_for p" "map_of (as_artifacts st) p = Some c" "map_of (as_artifacts st) q = Some c'"
    and "attest_file_artifact rq p st = Inr (a, st')" "attest_file_artifact rq' q st' = Inr (a', st'')" "sha256_text c \<noteq> sha256_text c'"
  shows "map_of (as_artifacts st'') p = Some c" "map_sum id tampered (verify_file_artifact p st'') = Inr True"
proof -
  have "map_sum id (\<lambda>a. (a, write_attestation a st)) (build_attestation rq p (sha256_text c)) = Inr (a, st')"
    using assms(2,4) by (simp add: attest_file_artifact_def)
  note first = attest_written(2) [OF this]
  have second: "map_sum id (\<lambda>a. (a, write_attestation a st')) (build_attestation rq' q (sha256_text c')) = Inr (a', st'')"
    using assms(3,5) first by (simp add: attest_file_artifact_def)
  show kept: "map_of (as_artifacts st'') p = Some c" using assms(2) first attest_written(2) [OF second] by simp
  have "read_attestation p st'' = Inr (Some a')" using attest_written(3) [OF second, of p] assms(1) by simp
  from verify_file_compares [OF this] kept assms(6) attest_written(1) [OF second]
  show "map_sum id tampered (verify_file_artifact p st'') = Inr True" by simp
qed

text \<open>A file that holds JSON other than an object is malformed, and reading it raises.\<close>

lemma read_attestation_raises:
  "read_attestation p \<lparr>as_artifacts = [], as_files = [(attestation_path_for p, Some (JList []))]\<rparr> = Inl (AttributeError ''get'')"
  by (simp add: read_attestation_def)

end
