(* ===== verification/Role_Sessions.thy ===== *)
theory Role_Sessions
  imports State_File Py_Hash
begin

text \<open>
  \<open>core/state/role_sessions.py\<close>: which provider session each worker resumes. The registry keeps a session id per instance, free-form
  metadata per instance, and the bindings of task stages to sessions, in one YAML file that every method reads, changes and rewrites under a lock.
  YAML is a library of its own: the file is the value that was dumped, and \<open>yaml\<close> is what \<open>safe_load\<close> makes of it. An object whose file does
  not exist holds nothing. The time is an argument; looking for session files on disk is reduced to what was found.
\<close>

section \<open>UUIDs\<close>

text \<open>\<open>uuid.uuid5(uuid.NAMESPACE_DNS, name)\<close> as text: the first sixteen bytes of the SHA-1 of name space and name, with version and variant set.\<close>

definition NAMESPACE_DNS :: "byte list" where
  "NAMESPACE_DNS = [0x6b, 0xa7, 0xb8, 0x10, 0x9d, 0xad, 0x11, 0xd1, 0x80, 0xb4, 0x00, 0xc0, 0x4f, 0xd4, 0x30, 0xc8]"

definition uuid_text :: "string \<Rightarrow> string" where
  "uuid_text hex =
     take 8 hex @ ''-'' @ take 4 (drop 8 hex) @ ''-'' @ take 4 (drop 12 hex) @ ''-'' @ take 4 (drop 16 hex) @ ''-'' @ drop 20 hex"

definition uuid5 :: "string \<Rightarrow> string" where
  "uuid5 name =
     (let bs = concat (map be_bytes32 (sha1_words (NAMESPACE_DNS @ bytes_of name)))
      in uuid_text (concat (map hex_byte (take 6 bs @ [(bs ! 6 AND 0x0f) OR 0x50, bs ! 7, (bs ! 8 AND 0x3f) OR 0x80] @ take 7 (drop 9 bs)))))"

text \<open>\<open>str(uuid.UUID(s))\<close>: prefixes, braces and dashes are dropped, and the rest has to be 32 characters that \<open>int(_, 16)\<close> reads.\<close>

function remove_all :: "string \<Rightarrow> string \<Rightarrow> string" where
  "remove_all p [] = []"
| "remove_all p (c # s) = (if startswith (c # s) p then remove_all p (drop (length p - 1) s) else c # remove_all p s)"
  by pat_completeness auto
termination
  by (relation "measure (\<lambda>(p, s). length s)") auto

definition hex_digit_val :: "char \<Rightarrow> nat option" where
  "hex_digit_val c =
     (let n = (of_char c :: nat) in
      if 48 \<le> n \<and> n \<le> 57 then Some (n - 48) else if 97 \<le> n \<and> n \<le> 102 then Some (n - 87)
      else if 65 \<le> n \<and> n \<le> 70 then Some (n - 55) else None)"

fun hex_digits :: "bool \<Rightarrow> int \<Rightarrow> string \<Rightarrow> int option" where
  "hex_digits seen acc [] = (if seen then Some acc else None)"
| "hex_digits seen acc (c # s) =
     (if c = CHR ''_'' then (if seen then hex_digits False acc s else None)
      else (case hex_digit_val c of None \<Rightarrow> None | Some v \<Rightarrow> hex_digits True (16 * acc + int v) s))"

definition hex_unsigned :: "string \<Rightarrow> int option" where
  "hex_unsigned s =
     (if take 2 s \<in> {''0x'', ''0X''} then hex_digits False 0 (if take 1 (drop 2 s) = ''_'' then drop 3 s else drop 2 s)
      else hex_digits False 0 s)"

definition hex_int :: "string \<Rightarrow> int option" where
  "hex_int s =
     (case strip s of
        [] \<Rightarrow> None
      | c # t \<Rightarrow> if c = CHR ''-'' then map_option uminus (hex_unsigned t)
          else if c = CHR ''+'' then hex_unsigned t else hex_unsigned (c # t))"

text \<open>\<open>'%032x' % n\<close>\<close>

fun hex_pad :: "nat \<Rightarrow> int \<Rightarrow> string" where
  "hex_pad 0 n = []"
| "hex_pad (Suc k) n = hex_pad k (n div 16) @ [hex_char (nat (n mod 16))]"

definition uuid_braces :: "string \<Rightarrow> string" where
  "uuid_braces s =
     (let brace = (\<lambda>c. c \<in> {CHR ''{'', CHR ''}''}) in rev (dropWhile brace (rev (dropWhile brace s))))"

definition parse_uuid :: "string \<Rightarrow> string res" where
  "parse_uuid s =
     (let hex = filter (\<lambda>c. c \<noteq> CHR ''-'') (uuid_braces (remove_all ''uuid:'' (remove_all ''urn:'' s))) in
      if length hex \<noteq> 32 then Inl (ValueError ''badly formed hexadecimal UUID string'')
      else (case hex_int hex of
         None \<Rightarrow> Inl (ValueError ''invalid literal for int() with base 16'')
       | Some n \<Rightarrow> if n < 0 then Inl (ValueError ''int is out of range (need a 128-bit value)'')
           else Inr (uuid_text (hex_pad 32 n))))"

text \<open>The suffix of the seed for a rotation counter, which is compared with zero as it is stored.\<close>

fun rot_suffix :: "json \<Rightarrow> string res" where
  "rot_suffix (JInt n) = Inr (if 0 < n then '':rot-'' @ show_int n else [])"
| "rot_suffix (JBool b) = Inr (if b then '':rot-True'' else [])"
| "rot_suffix _ = Inl (TypeError ''not supported between instances'')"

definition uuid5_seed :: "string \<Rightarrow> string \<Rightarrow> json \<Rightarrow> string \<Rightarrow> string res" where
  "uuid5_seed root instance_id rotation backend =
     map_sum id (\<lambda>suffix. root @ '':'' @ instance_id @ (if backend \<noteq> [] then '':'' @ backend else []) @ suffix) (rot_suffix rotation)"

section \<open>The file\<close>

record role_registry =
  rr_entries :: "(string \<times> string) list"
  rr_meta :: "(string \<times> pydict) list"
  rr_bindings :: "(string \<times> pydict) list"

definition empty_registry :: role_registry where
  "empty_registry = \<lparr>rr_entries = [], rr_meta = [], rr_bindings = []\<rparr>"

definition on_val :: "('a \<Rightarrow> 'b) \<Rightarrow> string \<times> 'a \<Rightarrow> string \<times> 'b" where
  "on_val f kv = (fst kv, f (snd kv))"

definition load_registry :: "json option \<Rightarrow> role_registry res" where
  "load_registry f =
     (case f of
        Some (JObj d) \<Rightarrow>
          (case py_or (dict_get d ''roles'') (JObj []) of
             JObj roles \<Rightarrow> Inr \<lparr>rr_entries = map (on_val py_str) roles,
               rr_meta = (case dict_get d ''instance_meta'' of JObj m \<Rightarrow> map (on_val as_dict) m | _ \<Rightarrow> []),
               rr_bindings = (case dict_get d ''task_stage_bindings'' of
                  JObj b \<Rightarrow> map (on_val as_dict) (filter (\<lambda>kv. is_dict (snd kv)) b) | _ \<Rightarrow> [])\<rparr>
           | _ \<Rightarrow> Inl (AttributeError ''items''))
      | _ \<Rightarrow> Inr empty_registry)"

definition registry_doc :: "string \<Rightarrow> role_registry \<Rightarrow> json" where
  "registry_doc root reg =
     JObj [(''project_root'', JStr root), (''roles'', JObj (map (on_val JStr) (rr_entries reg))),
           (''instance_meta'', JObj (map (on_val JObj) (rr_meta reg))),
           (''task_stage_bindings'', JObj (map (on_val JObj) (rr_bindings reg)))]"

definition save_registry :: "(json \<Rightarrow> json) \<Rightarrow> string \<Rightarrow> role_registry \<Rightarrow> json option" where
  "save_registry yaml root reg = Some (yaml (registry_doc root reg))"

definition meta_of :: "role_registry \<Rightarrow> string \<Rightarrow> pydict" where
  "meta_of reg i = (case map_of (rr_meta reg) i of None \<Rightarrow> [] | Some m \<Rightarrow> m)"

definition set_meta :: "string \<Rightarrow> pydict \<Rightarrow> role_registry \<Rightarrow> role_registry" where
  "set_meta i m reg = reg\<lparr>rr_meta := AList.update i m (rr_meta reg)\<rparr>"

definition set_entry :: "string \<Rightarrow> string \<Rightarrow> role_registry \<Rightarrow> role_registry" where
  "set_entry i u reg = reg\<lparr>rr_entries := AList.update i u (rr_entries reg)\<rparr>"

definition pop_entry :: "string \<Rightarrow> role_registry \<Rightarrow> role_registry" where
  "pop_entry i reg = reg\<lparr>rr_entries := filter (\<lambda>kv. fst kv \<noteq> i) (rr_entries reg)\<rparr>"

definition set_binding :: "string \<Rightarrow> pydict \<Rightarrow> role_registry \<Rightarrow> role_registry" where
  "set_binding k b reg = reg\<lparr>rr_bindings := AList.update k b (rr_bindings reg)\<rparr>"

text \<open>\<open>d.get(k, default)\<close> and \<open>int(v)\<close>\<close>

definition get_default :: "pydict \<Rightarrow> string \<Rightarrow> json \<Rightarrow> json" where
  "get_default d k v = (case map_of d k of None \<Rightarrow> v | Some w \<Rightarrow> w)"

definition int_of_json :: "json \<Rightarrow> int res" where
  "int_of_json v =
     (case py_int v of
        Some n \<Rightarrow> Inr n
      | None \<Rightarrow> Inl (if is_str v then ValueError ''invalid literal for int()'' else TypeError ''int() argument''))"

section \<open>Sessions of instances\<close>

text \<open>A new session. When the backend of the instance has changed, its counter is raised first, so that the seed differs from the stale one.\<close>

definition rotation_for :: "bool \<Rightarrow> pydict \<Rightarrow> json res" where
  "rotation_for changed meta =
     (let rotation = get_default meta ''rotation_counter'' (JInt 0) in
      if changed then map_sum id (\<lambda>n. JInt (n + 1)) (int_of_json rotation) else Inr rotation)"

definition rotated_meta :: "bool \<Rightarrow> json \<Rightarrow> json \<Rightarrow> string \<Rightarrow> pydict \<Rightarrow> pydict" where
  "rotated_meta changed stored rotation now meta =
     (if changed then dict_set (dict_set (dict_set meta ''rotation_counter'' rotation) ''backend_rotated_from'' stored) ''backend_rotated_at'' (JStr now)
      else meta)"

definition session_seed :: "string \<Rightarrow> string \<Rightarrow> string \<Rightarrow> bool \<Rightarrow> role_registry \<Rightarrow> (json \<times> string) res" where
  "session_seed root i backend changed reg =
     res_bind (rotation_for changed (meta_of reg i)) (\<lambda>rotation. map_sum id (Pair rotation) (uuid5_seed root i rotation backend))"

definition create_session ::
  "string \<Rightarrow> string \<Rightarrow> string \<Rightarrow> string \<Rightarrow> json \<Rightarrow> bool \<Rightarrow> role_registry \<Rightarrow> (string res \<times> role_registry option) res" where
  "create_session root i backend now stored changed reg =
     res_bind (session_seed root i backend changed reg) (\<lambda>(rotation, name).
       let meta = rotated_meta changed stored rotation now (meta_of reg i);
           meta' = (if backend \<noteq> [] then dict_set meta ''backend'' (JStr backend) else meta)
       in Inr (Inr (uuid5 name), Some (set_meta i meta' (set_entry i (uuid5 name) reg))))"

definition stored_backend :: "role_registry \<Rightarrow> string \<Rightarrow> json" where
  "stored_backend reg i = get_default (meta_of reg i) ''backend'' (JStr [])"

definition backend_changed :: "string \<Rightarrow> string \<Rightarrow> role_registry \<Rightarrow> bool" where
  "backend_changed i backend reg \<longleftrightarrow> backend \<noteq> [] \<and> truthy (stored_backend reg i) \<and> stored_backend reg i \<noteq> JStr backend"

text \<open>For a known session the file is saved before the id is parsed, so the answer is a result of its own.\<close>

definition get_or_create_body :: "string \<Rightarrow> string \<Rightarrow> string \<Rightarrow> string \<Rightarrow> role_registry \<Rightarrow> (string res \<times> role_registry option) res" where
  "get_or_create_body root i backend now reg =
     (let stored = stored_backend reg i; changed = backend_changed i backend reg
      in case map_of (rr_entries reg) i of
           None \<Rightarrow> create_session root i backend now stored changed reg
         | Some u \<Rightarrow>
             (if changed then create_session root i backend now stored changed reg
              else Inr (parse_uuid u,
                if backend \<noteq> [] \<and> \<not> truthy stored then Some (set_meta i (dict_set (meta_of reg i) ''backend'' (JStr backend)) reg) else None)))"

definition get_session :: "role_registry \<Rightarrow> string \<Rightarrow> string option res" where
  "get_session reg i =
     (case map_of (rr_entries reg) i of None \<Rightarrow> Inr None | Some u \<Rightarrow> if u = [] then Inr None else map_sum id Some (parse_uuid u))"

definition mark_backend_body :: "string \<Rightarrow> string \<Rightarrow> string \<Rightarrow> role_registry \<Rightarrow> (bool \<times> role_registry option) res" where
  "mark_backend_body i backend now reg =
     (let meta = meta_of reg i; stored = stored_backend reg i in
      if truthy stored \<and> stored \<noteq> JStr backend then
        res_bind (int_of_json (get_default meta ''rotation_counter'' (JInt 0))) (\<lambda>n.
          Inr (True, Some (set_meta i (dict_set (dict_set (rotated_meta True stored (JInt (n + 1)) now meta) ''session_path'' JNull) ''backend'' (JStr backend))
            (pop_entry i reg))))
      else Inr (False, if stored \<noteq> JStr backend then Some (set_meta i (dict_set meta ''backend'' (JStr backend)) reg) else None))"

definition all_sessions :: "role_registry \<Rightarrow> (string \<times> string) list res" where
  "all_sessions reg = res_map (\<lambda>kv. map_sum id (Pair (fst kv)) (parse_uuid (snd kv))) (rr_entries reg)"

definition update_instance_meta_body :: "string \<Rightarrow> pydict \<Rightarrow> role_registry \<Rightarrow> (pydict \<times> role_registry option) res" where
  "update_instance_meta_body i values reg =
     (let meta = dict_update (meta_of reg i) values in Inr (meta, Some (set_meta i meta reg)))"

definition instance_meta :: "role_registry \<Rightarrow> (string \<times> pydict) list" where
  "instance_meta reg = rr_meta reg"

text \<open>A frozen provider configuration: a session that was started under another one, or may have been, is recycled.\<close>

definition recycle_reason :: "pydict \<Rightarrow> string \<Rightarrow> bool \<Rightarrow> string" where
  "recycle_reason meta digest explicit =
     (let previous = sget meta ''provider_session_config_digest'' in
      if previous \<noteq> [] \<and> previous \<noteq> digest then ''provider_session_config_changed''
      else if previous = [] \<and> explicit \<and> truthy (dict_get meta ''spawned_at'') then ''provider_session_config_currentness_unproven''
      else [])"

definition recycled_meta :: "string \<Rightarrow> string \<Rightarrow> int \<Rightarrow> pydict \<Rightarrow> pydict" where
  "recycled_meta reason now n meta =
     (let previous = sget meta ''provider_session_config_digest''; previous_ref = sget meta ''provider_session_config_ref'' in
      dict_update (dict_pop (dict_set (dict_set meta ''rotation_counter'' (JInt n)) ''session_path'' JNull) ''spawned_at'')
        [(''provider_session_config_recycled_at'', JStr now), (''provider_session_config_recycle_reason'', JStr reason),
         (''provider_session_config_previous_digest'', JStr previous), (''provider_session_config_previous_ref'', JStr previous_ref)])"

definition config_status :: "pydict \<Rightarrow> string \<Rightarrow> string \<Rightarrow> string" where
  "config_status meta digest reason =
     (let previous = sget meta ''provider_session_config_digest'' in
      if reason \<noteq> [] then ''recycled''
      else if previous = digest then ''current''
      else if previous \<noteq> [] then ''rebound''
      else if truthy (dict_get meta ''spawned_at'') then ''legacy_bound''
      else ''bound'')"

definition bind_provider_session_config_body ::
  "string \<Rightarrow> string \<Rightarrow> string \<Rightarrow> bool \<Rightarrow> string \<Rightarrow> role_registry \<Rightarrow> (pydict \<times> role_registry option) res" where
  "bind_provider_session_config_body i digest ref explicit now reg =
     (let meta = meta_of reg i; reason = recycle_reason meta digest explicit;
          answer = [(''status'', JStr (config_status meta digest reason)), (''recycled'', JBool (reason \<noteq> [])), (''reason'', JStr reason),
            (''previous_digest'', JStr (sget meta ''provider_session_config_digest'')),
            (''previous_ref'', JStr (sget meta ''provider_session_config_ref'')), (''digest'', JStr digest), (''ref'', JStr ref)];
          bound = (\<lambda>m. dict_update m
            [(''provider_session_config_digest'', JStr digest), (''provider_session_config_ref'', JStr ref),
             (''provider_session_config_explicit'', JBool explicit), (''provider_session_config_bound_at'', JStr now)])
      in if digest = [] \<or> ref = [] then Inl (ValueError ''provider session config requires digest and ref'')
         else if reason = [] then Inr (answer, Some (set_meta i (bound meta) reg))
         else res_bind (int_of_json (get_default meta ''rotation_counter'' (JInt 0))) (\<lambda>n.
           Inr (answer, Some (set_meta i (bound (recycled_meta reason now (n + 1) meta)) (pop_entry i reg)))))"

definition mark_spawned_body :: "string \<Rightarrow> string \<Rightarrow> role_registry \<Rightarrow> (bool \<times> role_registry option) res" where
  "mark_spawned_body i now reg =
     (let meta = meta_of reg i in
      if truthy (dict_get meta ''spawned_at'') then Inr (True, None)
      else Inr (False, Some (set_meta i (dict_set meta ''spawned_at'' (JStr now)) reg)))"

definition get_path :: "role_registry \<Rightarrow> string \<Rightarrow> string option" where
  "get_path reg i = (let raw = dict_get (meta_of reg i) ''session_path'' in if truthy raw then Some (py_str raw) else None)"

definition get_instance_by_uuid :: "role_registry \<Rightarrow> string \<Rightarrow> string option" where
  "get_instance_by_uuid reg u = map_option fst (find (\<lambda>kv. snd kv = u) (rr_entries reg))"

definition clear_session_body :: "string \<Rightarrow> string \<Rightarrow> role_registry \<Rightarrow> (unit \<times> role_registry option) res" where
  "clear_session_body i now reg =
     Inr ((), Some (pop_entry i (set_meta i (dict_set (dict_set (meta_of reg i) ''session_path'' JNull) ''cleared_at'' (JStr now)) reg)))"

definition record_heartbeat_body :: "string \<Rightarrow> pydict \<Rightarrow> string \<Rightarrow> role_registry \<Rightarrow> (unit \<times> role_registry option) res" where
  "record_heartbeat_body i payload now reg =
     (if i = [] then Inr ((), None)
      else Inr ((), Some (set_meta i
        (dict_set (dict_set (meta_of reg i) ''last_heartbeat_at'' (JStr now)) ''last_heartbeat_payload'' (JObj payload)) reg)))"

definition get_last_heartbeat :: "role_registry \<Rightarrow> string \<Rightarrow> json option \<times> pydict option" where
  "get_last_heartbeat reg i =
     (let meta = meta_of reg i; ts = dict_get meta ''last_heartbeat_at'' in
      (if truthy ts then Some ts else None, case dict_get meta ''last_heartbeat_payload'' of JObj p \<Rightarrow> Some p | _ \<Rightarrow> None))"

definition rotate_session_body :: "string \<Rightarrow> string \<Rightarrow> string \<Rightarrow> role_registry \<Rightarrow> (string \<times> role_registry option) res" where
  "rotate_session_body root i now reg =
     (let meta = meta_of reg i in
      res_bind (int_of_json (get_default meta ''rotation_counter'' (JInt 0))) (\<lambda>n.
      res_bind (uuid5_seed root i (JInt (n + 1)) []) (\<lambda>name.
        Inr (uuid5 name, Some (set_entry i (uuid5 name) (set_meta i
          (dict_set (dict_set (dict_set meta ''rotation_counter'' (JInt (n + 1))) ''session_path'' JNull) ''rotated_at'' (JStr now)) reg))))))"

section \<open>Sessions of task stages\<close>

record stage_identity =
  sg_workflow_run_id :: string
  sg_task_id :: string
  sg_stage :: string
  sg_rework_affinity_id :: string

definition stage_values :: "stage_identity \<Rightarrow> string list" where
  "stage_values g = map strip [sg_workflow_run_id g, sg_task_id g, sg_stage g, sg_rework_affinity_id g]"

definition task_stage_binding_key :: "stage_identity \<Rightarrow> string res" where
  "task_stage_binding_key g =
     (if [] \<in> set (stage_values g) then Inl (ValueError ''task-stage binding identity is incomplete'')
      else Inr (''task-stage-'' @ take 24 (sha256_hex (join ''|'' (stage_values g)))))"

text \<open>The copy is made after the file was saved, so the answers of the methods on bindings are results of their own.\<close>

definition copy_binding :: "pydict \<Rightarrow> pydict res" where
  "copy_binding b =
     map_sum id (\<lambda>items. dict_set b ''placement_history'' (JList (filter is_dict items))) (py_list (get_default b ''placement_history'' (JList [])))"

record stage_placement =
  pl_role_instance :: string
  pl_role_config_digest :: string
  pl_workspace_generation :: int
  pl_placement_epoch :: int
  pl_backend :: string

definition missing_fields_of :: "stage_identity \<Rightarrow> stage_placement \<Rightarrow> string list" where
  "missing_fields_of g pl =
     map fst (filter (\<lambda>kv. strip (snd kv) = [])
       [(''workflow_run_id'', sg_workflow_run_id g), (''task_id'', sg_task_id g), (''stage'', sg_stage g),
        (''rework_affinity_id'', sg_rework_affinity_id g), (''role_instance'', pl_role_instance pl), (''role_config_digest'', pl_role_config_digest pl)])"

definition stage_name :: "string \<Rightarrow> string \<Rightarrow> string \<Rightarrow> string" where
  "stage_name root key backend = root @ '':task-stage:'' @ key @ '':'' @ backend"

definition new_binding :: "string \<Rightarrow> string \<Rightarrow> stage_identity \<Rightarrow> stage_placement \<Rightarrow> string \<Rightarrow> pydict" where
  "new_binding root key g pl now =
     [(''schema_version'', JStr ''task-stage-session-binding.v1''), (''binding_key'', JStr key), (''workflow_run_id'', JStr (strip (sg_workflow_run_id g))),
      (''task_id'', JStr (strip (sg_task_id g))), (''stage'', JStr (strip (sg_stage g))), (''rework_affinity_id'', JStr (strip (sg_rework_affinity_id g))),
      (''session_id'', JStr (uuid5 (stage_name root key (pl_backend pl)))), (''backend'', JStr (pl_backend pl)),
      (''role_config_digest'', JStr (strip (pl_role_config_digest pl))), (''workspace_generation'', JInt (pl_workspace_generation pl)),
      (''rotation_counter'', JInt 0), (''status'', JStr ''active''), (''placement_history'', JList []), (''created_at'', JStr now)]"

definition int_or_zero :: "pydict \<Rightarrow> string \<Rightarrow> int res" where
  "int_or_zero d k = int_of_json (py_or (dict_get d k) (JInt 0))"

text \<open>What a binding that exists is checked for before it is placed again.\<close>

definition check_binding :: "stage_placement \<Rightarrow> pydict \<Rightarrow> unit res" where
  "check_binding pl b =
     (if dict_get b ''status'' = JStr ''archived'' then Inl (ValueError ''task-stage session binding is archived'')
      else if sget b ''role_config_digest'' \<noteq> strip (pl_role_config_digest pl) then Inl (ValueError ''task-stage role config digest changed'')
      else res_bind (int_or_zero b ''workspace_generation'') (\<lambda>n.
        if n \<noteq> pl_workspace_generation pl then Inl (ValueError ''task-stage workspace generation changed'') else Inr ()))"

text \<open>Whether the placement is a new one: it is not when the epoch is the last one and was given to the same instance.\<close>

definition check_epoch :: "stage_placement \<Rightarrow> json list \<Rightarrow> bool res" where
  "check_epoch pl history =
     (case rev history of
        [] \<Rightarrow> Inr True
      | JObj previous # _ \<Rightarrow>
          res_bind (int_or_zero previous ''placement_epoch'') (\<lambda>n.
            if pl_placement_epoch pl < n then Inl (ValueError ''task-stage placement epoch regressed'')
            else if pl_placement_epoch pl = n then
              (if sget previous ''role_instance'' \<noteq> strip (pl_role_instance pl) then Inl (ValueError ''task-stage placement epoch is already bound'')
               else Inr False)
            else Inr True)
      | _ \<Rightarrow> Inl (AttributeError ''get''))"

definition placement_row :: "stage_placement \<Rightarrow> string \<Rightarrow> json" where
  "placement_row pl now =
     JObj [(''placement_epoch'', JInt (pl_placement_epoch pl)), (''role_instance'', JStr (strip (pl_role_instance pl))),
           (''workspace_generation'', JInt (pl_workspace_generation pl)), (''bound_at'', JStr now)]"

definition place_binding :: "stage_placement \<Rightarrow> string \<Rightarrow> json list \<Rightarrow> pydict \<Rightarrow> pydict" where
  "place_binding pl now history b =
     dict_update b
       [(''placement_history'', JList (history @ [placement_row pl now])), (''current_role_instance'', JStr (strip (pl_role_instance pl))),
        (''current_placement_epoch'', JInt (pl_placement_epoch pl)), (''status'', JStr ''active''), (''updated_at'', JStr now)]"

definition bind_task_stage_session_body ::
  "string \<Rightarrow> stage_identity \<Rightarrow> stage_placement \<Rightarrow> string \<Rightarrow> role_registry \<Rightarrow> (pydict res \<times> role_registry option) res" where
  "bind_task_stage_session_body root g pl now reg =
     (if missing_fields_of g pl \<noteq> [] then Inl (ValueError (''task-stage session binding missing: '' @ join '', '' (missing_fields_of g pl)))
      else if pl_workspace_generation pl < 1 then Inl (ValueError ''workspace_generation must be >= 1'')
      else if pl_placement_epoch pl < 1 then Inl (ValueError ''placement_epoch must be >= 1'')
      else res_bind (task_stage_binding_key g) (\<lambda>key.
        res_bind (case map_of (rr_bindings reg) key of
            None \<Rightarrow> Inr (new_binding root key g pl now)
          | Some b \<Rightarrow> map_sum id (\<lambda>_. b) (check_binding pl b)) (\<lambda>b.
        res_bind (py_list (py_or (dict_get b ''placement_history'') (JList []))) (\<lambda>history.
        res_bind (check_epoch pl history) (\<lambda>fresh.
          let placed = (if fresh then place_binding pl now history b else b) in
          Inr (copy_binding placed, if fresh then Some (set_binding key placed reg) else None))))))"

definition task_stage_binding :: "stage_identity \<Rightarrow> role_registry \<Rightarrow> pydict option res" where
  "task_stage_binding g reg =
     res_bind (task_stage_binding_key g) (\<lambda>key. case map_of (rr_bindings reg) key of None \<Rightarrow> Inr None | Some b \<Rightarrow> map_sum id Some (copy_binding b))"

definition task_stage_bindings :: "role_registry \<Rightarrow> (string \<times> pydict) list res" where
  "task_stage_bindings reg = res_map (\<lambda>kv. map_sum id (Pair (fst kv)) (copy_binding (snd kv))) (rr_bindings reg)"

text \<open>A session belongs to one instance: whoever else has it loses it.\<close>

definition unbind_one :: "string \<Rightarrow> string \<Rightarrow> string \<Rightarrow> role_registry \<Rightarrow> role_registry" where
  "unbind_one now reason j reg =
     set_meta j (dict_set (dict_set (dict_set (meta_of reg j) ''session_path'' JNull) ''unbound_at'' (JStr now)) ''unbound_reason'' (JStr reason))
       (pop_entry j reg)"

definition unbind_others :: "string \<Rightarrow> string \<Rightarrow> string \<Rightarrow> string \<Rightarrow> role_registry \<Rightarrow> role_registry" where
  "unbind_others now reason i u reg =
     fold (\<lambda>kv. if fst kv \<noteq> i \<and> snd kv = u then unbind_one now reason (fst kv) else id) (rr_entries reg) reg"

definition activated_meta :: "string \<Rightarrow> string \<Rightarrow> string \<Rightarrow> pydict \<Rightarrow> pydict" where
  "activated_meta key backend now meta =
     dict_update meta
       [(''active_task_stage_binding_key'', JStr key), (''task_stage_binding_activated_at'', JStr now),
        (''task_stage_binding_previous_key'', JStr (sget meta ''active_task_stage_binding_key'')),
        (''backend'', JStr (if backend \<noteq> [] then backend else sget meta ''backend''))]"

definition project_session :: "string \<Rightarrow> string \<Rightarrow> pydict \<Rightarrow> role_registry \<Rightarrow> role_registry" where
  "project_session i now b reg =
     (let session_id = sget b ''session_id''; path = sget b ''session_path'' in
      if sget b ''backend'' = ''codex'' \<and> \<not> truthy (dict_get b ''provider_session_observed'') then
        set_meta i (dict_set (meta_of reg i) ''session_path'' JNull) (pop_entry i reg)
      else if session_id \<noteq> [] then
        (let reg' = set_entry i session_id (unbind_others now ''task_stage_session_relocated'' i session_id reg) in
         if path \<noteq> [] then set_meta i (dict_set (meta_of reg' i) ''session_path'' (JStr path)) reg' else reg')
      else reg)"

definition activate_task_stage_session_body :: "string \<Rightarrow> string \<Rightarrow> string \<Rightarrow> role_registry \<Rightarrow> (pydict res \<times> role_registry option) res" where
  "activate_task_stage_session_body binding_key role_instance now reg =
     (let key = strip binding_key; i = strip role_instance in
      if key = [] \<or> i = [] then Inl (ValueError ''task-stage activation requires binding and role'')
      else (case map_of (rr_bindings reg) key of
         None \<Rightarrow> Inl (ValueError ''task-stage session binding does not exist'')
       | Some b \<Rightarrow>
           if sget b ''status'' = ''archived'' then Inl (ValueError ''task-stage session binding is archived'')
           else if sget b ''current_role_instance'' \<noteq> i then Inl (ValueError ''task-stage session placement is not current'')
           else
             (let b' = dict_set (dict_set b ''status'' (JStr ''active'')) ''activated_at'' (JStr now);
                  reg' = set_meta i (activated_meta key (sget b ''backend'') now (meta_of reg i)) reg
              in Inr (copy_binding b', Some (set_binding key b' (project_session i now b reg'))))))"

definition seal_task_stage_session_body :: "stage_identity \<Rightarrow> string \<Rightarrow> role_registry \<Rightarrow> (pydict option res \<times> role_registry option) res" where
  "seal_task_stage_session_body g now reg =
     res_bind (task_stage_binding_key g) (\<lambda>key.
       case map_of (rr_bindings reg) key of
         None \<Rightarrow> Inr (Inr None, None)
       | Some b \<Rightarrow>
           (let b' = dict_set (dict_set b ''status'' (JStr ''sealed'')) ''sealed_at'' (JStr now)
            in Inr (map_sum id Some (copy_binding b'), Some (set_binding key b' reg))))"

definition archive_task_stage_session_body :: "stage_identity \<Rightarrow> string \<Rightarrow> role_registry \<Rightarrow> (pydict option res \<times> role_registry option) res" where
  "archive_task_stage_session_body g now reg =
     res_bind (task_stage_binding_key g) (\<lambda>key.
       case map_of (rr_bindings reg) key of
         None \<Rightarrow> Inr (Inr None, None)
       | Some b \<Rightarrow>
           (if dict_get b ''status'' \<noteq> JStr ''sealed'' then Inl (ValueError ''task-stage session must be sealed before archive'')
            else
              (let b' = dict_set (dict_set b ''status'' (JStr ''archived'')) ''archived_at'' (JStr now)
               in Inr (map_sum id Some (copy_binding b'), Some (set_binding key b' reg)))))"

text \<open>A session that was observed replaces the one of the instance, and of the task stage the instance is marked with.\<close>

definition observed_binding :: "string \<Rightarrow> string \<Rightarrow> string option \<Rightarrow> string \<Rightarrow> pydict \<Rightarrow> pydict" where
  "observed_binding i u path now b =
     (let b' = dict_update b [(''session_id'', JStr u), (''provider_session_observed'', JBool True), (''provider_session_observed_at'', JStr now),
        (''provider_session_role_instance'', JStr i)]
      in case path of None \<Rightarrow> b' | Some s \<Rightarrow> dict_set b' ''session_path'' (JStr s))"

definition bind_codex_session_body :: "string \<Rightarrow> string \<Rightarrow> string option \<Rightarrow> string \<Rightarrow> string \<Rightarrow> role_registry \<Rightarrow> (bool \<times> role_registry option) res" where
  "bind_codex_session_body i session_id path observed_from now reg =
     (case parse_uuid session_id of
        Inl _ \<Rightarrow> Inr (False, None)
      | Inr u \<Rightarrow>
          (let meta = dict_update (meta_of reg i)
                 ([(''backend'', JStr ''codex''), (''observed_at'', JStr now), (''observed_from'', JStr observed_from)]
                  @ (case path of None \<Rightarrow> [] | Some s \<Rightarrow> [(''session_path'', JStr s)]));
               key = sget meta ''active_task_stage_binding_key'';
               reg1 = set_meta i meta reg;
               reg2 = (case map_of (rr_bindings reg) key of None \<Rightarrow> reg1 | Some b \<Rightarrow> set_binding key (observed_binding i u path now b) reg1)
           in Inr (True, Some (set_entry i u (unbind_others now ''codex_session_rebound'' i u reg2)))))"

definition observe_codex_session_body ::
  "string \<Rightarrow> (string \<times> string) option \<Rightarrow> string \<Rightarrow> role_registry \<Rightarrow> ((string \<times> string) option \<times> role_registry option) res" where
  "observe_codex_session_body i found now reg =
     (case found of
        None \<Rightarrow> Inr (None, None)
      | Some (u, path) \<Rightarrow> map_sum id (map_prod (\<lambda>_. Some (u, path)) id) (bind_codex_session_body i u (Some path) ''observer'' now reg))"

section \<open>Histories\<close>

datatype session_op =
    GetOrCreate string string string
  | MarkBackend string string string
  | UpdateMeta string pydict
  | BindConfig string string string bool string
  | MarkSpawned string string
  | ClearSession string string
  | Heartbeat string pydict string
  | RotateSession string string
  | BindStage stage_identity stage_placement string
  | ActivateStage string string string
  | SealStage stage_identity string
  | ArchiveStage stage_identity string
  | BindCodex string string "string option" string string
  | ObserveCodex string "(string \<times> string) option" string

definition unanswer :: "('r \<times> role_registry option) res \<Rightarrow> (unit \<times> role_registry option) res" where
  "unanswer = map_sum id (map_prod (\<lambda>_. ()) id)"

fun session_body :: "string \<Rightarrow> session_op \<Rightarrow> role_registry \<Rightarrow> (unit \<times> role_registry option) res" where
  "session_body root (GetOrCreate i backend now) = unanswer \<circ> get_or_create_body root i backend now"
| "session_body root (MarkBackend i backend now) = unanswer \<circ> mark_backend_body i backend now"
| "session_body root (UpdateMeta i values) = unanswer \<circ> update_instance_meta_body i values"
| "session_body root (BindConfig i digest ref explicit now) = unanswer \<circ> bind_provider_session_config_body i digest ref explicit now"
| "session_body root (MarkSpawned i now) = unanswer \<circ> mark_spawned_body i now"
| "session_body root (ClearSession i now) = unanswer \<circ> clear_session_body i now"
| "session_body root (Heartbeat i payload now) = unanswer \<circ> record_heartbeat_body i payload now"
| "session_body root (RotateSession i now) = unanswer \<circ> rotate_session_body root i now"
| "session_body root (BindStage g pl now) = unanswer \<circ> bind_task_stage_session_body root g pl now"
| "session_body root (ActivateStage key i now) = unanswer \<circ> activate_task_stage_session_body key i now"
| "session_body root (SealStage g now) = unanswer \<circ> seal_task_stage_session_body g now"
| "session_body root (ArchiveStage g now) = unanswer \<circ> archive_task_stage_session_body g now"
| "session_body root (BindCodex i session_id path from now) = unanswer \<circ> bind_codex_session_body i session_id path from now"
| "session_body root (ObserveCodex i found now) = unanswer \<circ> observe_codex_session_body i found now"

definition session_exec :: "(json \<Rightarrow> json) \<Rightarrow> string \<Rightarrow> session_op \<Rightarrow> json option \<Rightarrow> (unit \<times> json option) res" where
  "session_exec yaml root x = locked_rmw load_registry (save_registry yaml root) (session_body root x)"

definition session_run :: "(json \<Rightarrow> json) \<Rightarrow> string \<Rightarrow> session_op list \<Rightarrow> json option \<Rightarrow> json option" where
  "session_run yaml root ops f = snd (run_steps (session_exec yaml root) ops f)"

text \<open>What \<open>safe_load\<close> makes of \<open>dump(v, sort_keys=True)\<close> by the documentation of the library: the same value, its mappings in the order of
  their keys.\<close>

fun sorted_json :: "json \<Rightarrow> json" where
  "sorted_json (JObj d) = JObj (sort_dict (map (\<lambda>kv. (fst kv, sorted_json (snd kv))) d))"
| "sorted_json (JList xs) = JList (map sorted_json xs)"
| "sorted_json v = v"

section \<open>The file keeps what was saved\<close>

lemma map_of_filter_key: "map_of d k = map_of (filter (\<lambda>kv. fst kv = k) d) k"
  by (induction d) auto

lemma map_of_sorted: "map_of (sort_dict d) = map_of d"
proof
  fix k
  have "filter (\<lambda>kv. fst kv = k) (sort_dict d) = filter (\<lambda>kv. fst kv = k) d"
    unfolding sort_dict_def by (rule sort_key_stable)
  then show "map_of (sort_dict d) k = map_of d k" by (metis map_of_filter_key)
qed

lemma on_val_simps [simp]: "fst (on_val f kv) = fst kv" "snd (on_val f kv) = f (snd kv)"
  by (simp_all add: on_val_def)

lemma on_val_twice [simp]: "on_val f (on_val g kv) = on_val (f \<circ> g) kv"
  by (simp add: on_val_def)

lemma on_val_comp [simp]: "on_val f \<circ> on_val g = on_val (f \<circ> g)"
  by (rule ext) simp

lemma map_of_on_val: "map_of (map (on_val f) d) k = map_option f (map_of d k)"
  by (induction d) (auto simp: on_val_def)

lemma sort_dict_on_val: "sort_dict (map (on_val f) d) = map (on_val f) (sort_dict d)"
proof -
  have ins: "insort_key fst (on_val f x) (map (on_val f) xs) = map (on_val f) (insort_key fst x xs)" for x xs
    by (induction xs) auto
  show ?thesis unfolding sort_dict_def by (induction d) (simp_all add: ins)
qed

lemma sort_dict_idem [simp]: "sort_dict (sort_dict d) = sort_dict d"
  unfolding sort_dict_def by (rule sort_key_id_if_sorted) simp

lemma sorted_json_obj: "sorted_json (JObj d) = JObj (sort_dict (map (on_val sorted_json) d))"
  by (simp add: on_val_def [abs_def])

lemma sorted_json_idem [simp]: "sorted_json (sorted_json v) = sorted_json v"
proof (induction v)
  case (JObj d)
  have "map (on_val sorted_json) (sort_dict (map (on_val sorted_json) d)) = sort_dict (map (on_val sorted_json) d)"
    using JObj by (intro map_idI) (auto simp: on_val_def)
  then show ?case by (simp only: sorted_json_obj sort_dict_idem)
qed auto

text \<open>What a rewrite keeps: the sessions, and the fields of each binding up to the order of keys.\<close>

definition fields_view :: "pydict \<Rightarrow> string \<Rightarrow> json option" where
  "fields_view b k = map_option sorted_json (map_of b k)"

type_synonym session_view = "(string \<Rightarrow> string option) \<times> (string \<Rightarrow> (string \<Rightarrow> json option) option)"

definition registry_view :: "role_registry \<Rightarrow> session_view" where
  "registry_view reg = (map_of (rr_entries reg), \<lambda>k. map_option fields_view (map_of (rr_bindings reg) k))"

definition wf_registry :: "role_registry \<Rightarrow> bool" where
  "wf_registry reg \<longleftrightarrow> distinct (map fst (rr_entries reg))"

lemma fields_view_sorted: "fields_view (as_dict (sorted_json (JObj b))) = fields_view b"
  by (rule ext) (simp add: fields_view_def sorted_json_obj map_of_sorted map_of_on_val option.map_comp comp_def del: sorted_json.simps(1))

locale session_file =
  fixes yaml :: "json \<Rightarrow> json" and root :: string
  assumes yaml_law: "yaml v = sorted_json v"
begin

lemma reload:
  "load_registry (save_registry yaml root reg) = Inr
     \<lparr>rr_entries = sort_dict (rr_entries reg), rr_meta = map (on_val (as_dict \<circ> sorted_json \<circ> JObj)) (sort_dict (rr_meta reg)),
      rr_bindings = map (on_val (as_dict \<circ> sorted_json \<circ> JObj)) (sort_dict (rr_bindings reg))\<rparr>"
proof -
  define field where "field = (\<lambda>k. dict_get (as_dict (sorted_json (registry_doc root reg))) k)"
  have strings: "sorted_json \<circ> JStr = JStr" by (simp add: fun_eq_iff)
  have field: "field ''roles'' = JObj (sort_dict (map (on_val JStr) (rr_entries reg)))"
    "field ''instance_meta'' = JObj (sort_dict (map (on_val (sorted_json \<circ> JObj)) (rr_meta reg)))"
    "field ''task_stage_bindings'' = JObj (sort_dict (map (on_val (sorted_json \<circ> JObj)) (rr_bindings reg)))"
    by (simp_all add: field_def registry_doc_def sorted_json_obj dict_get_def map_of_sorted map_of_on_val strings del: sorted_json.simps(1))
  obtain d where d: "sorted_json (registry_doc root reg) = JObj d" by (simp add: registry_doc_def)
  have again: "map (on_val (py_str \<circ> JStr)) es = es" for es by (rule map_idI) (simp add: on_val_def)
  have got: "dict_get d k = field k" for k by (simp add: field_def d)
  have kept: "filter (\<lambda>kv. is_dict (snd kv)) (map (on_val (sorted_json \<circ> JObj)) bs) = map (on_val (sorted_json \<circ> JObj)) bs" for bs
    by (rule filter_True) auto
  have whole: "py_or (JObj xs) (JObj []) = JObj xs" for xs by (simp add: py_or_def)
  show ?thesis
    by (simp add: load_registry_def save_registry_def yaml_law d got field sort_dict_on_val kept again whole o_assoc)
qed

end

sublocale session_file \<subseteq> locked_store load_registry "save_registry yaml root" wf_registry registry_view
proof
  fix reg
  assume "wf_registry reg"
  moreover have "fields_view \<circ> (as_dict \<circ> sorted_json \<circ> JObj) = fields_view" using fields_view_sorted by (simp add: fun_eq_iff)
  ultimately show "\<exists>reg'. load_registry (save_registry yaml root reg) = Inr reg' \<and> wf_registry reg' \<and> registry_view reg' = registry_view reg"
    by (simp add: reload wf_registry_def registry_view_def map_of_sorted map_of_on_val option.map_comp)
qed

section \<open>Who a name belongs to\<close>

text \<open>The names that are hashed start with the project and an instance, or \<open>task-stage\<close>, which ends at a colon.\<close>

definition instance_name :: "string \<Rightarrow> string \<Rightarrow> string \<Rightarrow> bool" where
  "instance_name root i n \<longleftrightarrow> (\<exists>rest. n = root @ '':'' @ i @ rest \<and> (rest = [] \<or> hd rest = CHR '':''))"

definition plain_instance :: "string \<Rightarrow> bool" where
  "plain_instance i \<longleftrightarrow> CHR '':'' \<notin> set i \<and> i \<noteq> ''task-stage''"

lemma seed_instance_name: "uuid5_seed root i rotation backend = Inr n \<Longrightarrow> instance_name root i n"
  by (cases rotation) (auto simp: uuid5_seed_def instance_name_def)

lemma stage_instance_name: "instance_name root ''task-stage'' (stage_name root key backend)"
  by (simp add: instance_name_def stage_name_def)

lemma takeWhile_colon: "CHR '':'' \<notin> set i \<Longrightarrow> rest = [] \<or> hd rest = CHR '':'' \<Longrightarrow> takeWhile (\<lambda>c. c \<noteq> CHR '':'') (i @ rest) = i"
  by (cases rest) (auto simp: takeWhile_append takeWhile_eq_all_conv)

lemma instance_name_unique:
  assumes "instance_name root i n" "instance_name root j n" "CHR '':'' \<notin> set i" "CHR '':'' \<notin> set j"
  shows "i = j"
proof -
  from assms(1,2) obtain r r' where "i @ r = j @ r'" "r = [] \<or> hd r = CHR '':''" "r' = [] \<or> hd r' = CHR '':''"
    by (auto simp: instance_name_def)
  then show ?thesis using takeWhile_colon assms(3,4) by metis
qed

text \<open>The version digit of a derived id is five.\<close>

lemma length_sha1_round: "length (sha1_round tw st) = length st"
  by (induction tw st rule: sha1_round.induct) (auto split: prod.splits)

lemma length_sha1_words: "length (sha1_words bs) = 5"
proof -
  have "length (fold sha1_round kws st) = length st" for kws st
    by (induction kws arbitrary: st) (simp_all add: length_sha1_round)
  then have "length (sha1_block blk h) = length h" for blk h by (simp add: sha1_block_def)
  then have "length (fold sha1_block blks h) = length h" for blks h by (induction blks arbitrary: h) simp_all
  then show ?thesis by (simp add: sha1_words_def)
qed

lemma version_nibble: "drop_bit 4 ((b AND 0x0f) OR 0x50 :: byte) = 5"
proof -
  have "drop_bit 4 (b AND 0x0f) = 0" by (simp add: drop_bit_and)
  then show ?thesis by (simp add: drop_bit_or)
qed

lemma uuid_text_version:
  assumes "length bs = 16"
  shows "uuid_text (concat (map hex_byte bs)) ! 14 = hex_char (unat (drop_bit 4 (bs ! 6)))"
proof -
  from assms obtain b0 b1 b2 b3 b4 b5 b6 rest where "bs = [b0, b1, b2, b3, b4, b5, b6] @ rest" "length rest = 9"
    by (auto simp: numeral_eq_Suc length_Suc_conv)
  then show ?thesis by (simp add: uuid_text_def hex_byte_def numeral_eq_Suc)
qed

lemma uuid5_version: "uuid5 n ! 14 = CHR ''5''"
proof -
  define bs where "bs = concat (map be_bytes32 (sha1_words (NAMESPACE_DNS @ bytes_of n)))"
  have "length (concat (map be_bytes32 ws)) = 4 * length ws" for ws by (induction ws) (simp_all add: be_bytes32_def)
  then have twenty: "length bs = 20" by (simp add: bs_def length_sha1_words)
  define vs where "vs = take 6 bs @ [(bs ! 6 AND 0x0f) OR 0x50, bs ! 7, (bs ! 8 AND 0x3f) OR 0x80] @ take 7 (drop 9 bs)"
  have "uuid5 n = uuid_text (concat (map hex_byte vs))" by (simp add: uuid5_def Let_def bs_def vs_def)
  moreover have "length vs = 16" "vs ! 6 = (bs ! 6 AND 0x0f) OR 0x50" using twenty by (simp_all add: vs_def nth_append)
  moreover have "char_of (53 :: nat) = CHR ''5''" by code_simp
  ultimately show ?thesis by (simp add: uuid_text_version version_nibble hex_char_def)
qed

section \<open>A session belongs to one instance\<close>

text \<open>The name an operation hashes in a registry.\<close>

fun op_names :: "string \<Rightarrow> session_op \<Rightarrow> role_registry \<Rightarrow> string list" where
  "op_names root (GetOrCreate i backend now) reg =
     (case session_seed root i backend (backend_changed i backend reg) reg of Inl _ \<Rightarrow> [] | Inr (_, n) \<Rightarrow> [n])"
| "op_names root (RotateSession i now) reg =
     (case res_bind (int_of_json (get_default (meta_of reg i) ''rotation_counter'' (JInt 0))) (\<lambda>n. uuid5_seed root i (JInt (n + 1)) []) of
        Inl _ \<Rightarrow> [] | Inr n \<Rightarrow> [n])"
| "op_names root (BindStage g pl now) reg =
     (case task_stage_binding_key g of Inl _ \<Rightarrow> [] | Inr key \<Rightarrow> [stage_name root key (pl_backend pl)])"
| "op_names root _ reg = []"

fun run_names :: "(json \<Rightarrow> json) \<Rightarrow> string \<Rightarrow> session_op list \<Rightarrow> json option \<Rightarrow> string list" where
  "run_names yaml root [] f = []"
| "run_names yaml root (x # xs) f =
     (case load_registry f of Inl _ \<Rightarrow> [] | Inr reg \<Rightarrow> op_names root x reg)
     @ run_names yaml root xs (snd (attempt_step (session_exec yaml root x) f))"

text \<open>Instances have plain names, and providers do not choose ids of version five.\<close>

definition foreign_id :: "string \<Rightarrow> bool" where
  "foreign_id session_id \<longleftrightarrow> (case parse_uuid session_id of Inl _ \<Rightarrow> True | Inr u \<Rightarrow> u ! 14 \<noteq> CHR ''5'')"

fun plain_op :: "session_op \<Rightarrow> bool" where
  "plain_op (GetOrCreate i backend now) \<longleftrightarrow> plain_instance i"
| "plain_op (RotateSession i now) \<longleftrightarrow> plain_instance i"
| "plain_op (BindCodex i session_id path from now) \<longleftrightarrow> foreign_id session_id"
| "plain_op (ObserveCodex i found now) \<longleftrightarrow> (case found of None \<Rightarrow> True | Some (u, path) \<Rightarrow> foreign_id u)"
| "plain_op _ \<longleftrightarrow> True"

definition shared_id :: "string \<Rightarrow> string set \<Rightarrow> string \<Rightarrow> bool" where
  "shared_id root N u \<longleftrightarrow> u ! 14 \<noteq> CHR ''5'' \<or> (\<exists>n \<in> N. u = uuid5 n \<and> instance_name root ''task-stage'' n)"

definition owned_id :: "string \<Rightarrow> string set \<Rightarrow> string \<Rightarrow> string \<Rightarrow> bool" where
  "owned_id root N i u \<longleftrightarrow> shared_id root N u \<or> plain_instance i \<and> (\<exists>n \<in> N. u = uuid5 n \<and> instance_name root i n)"

definition sessions_ok :: "string \<Rightarrow> string set \<Rightarrow> session_view \<Rightarrow> bool" where
  "sessions_ok root N v \<longleftrightarrow>
     (\<forall>i j u. fst v i = Some u \<and> fst v j = Some u \<longrightarrow> i = j) \<and> (\<forall>i u. fst v i = Some u \<longrightarrow> owned_id root N i u)
     \<and> (\<forall>k b. snd v k = Some b \<longrightarrow> (\<exists>u. b ''session_id'' = Some (JStr u) \<and> shared_id root N u))"

abbreviation good_registry :: "string \<Rightarrow> string set \<Rightarrow> role_registry \<Rightarrow> bool" where
  "good_registry root N reg \<equiv> wf_registry reg \<and> sessions_ok root N (registry_view reg)"

lemma registry_view_simps [simp]:
  "registry_view (set_meta i m reg) = registry_view reg"
  "registry_view (set_entry i u reg) = ((fst (registry_view reg))(i \<mapsto> u), snd (registry_view reg))"
  "registry_view (pop_entry i reg) = ((fst (registry_view reg))(i := None), snd (registry_view reg))"
  "registry_view (set_binding k b reg) = (fst (registry_view reg), (snd (registry_view reg))(k \<mapsto> fields_view b))"
proof -
  have "map_of (filter (\<lambda>kv. fst kv \<noteq> i) d) = (map_of d)(i := None)" for d :: "(string \<times> string) list"
    by (induction d) auto
  then show "registry_view (pop_entry i reg) = ((fst (registry_view reg))(i := None), snd (registry_view reg))"
    by (simp add: registry_view_def pop_entry_def)
qed (auto simp: registry_view_def set_meta_def set_entry_def set_binding_def update_conv' fun_eq_iff)

lemma wf_registry_simps [simp]:
  "wf_registry (set_meta i m reg) = wf_registry reg"
  "wf_registry (set_binding k b reg) = wf_registry reg"
  "wf_registry reg \<Longrightarrow> wf_registry (set_entry i u reg)"
  "wf_registry reg \<Longrightarrow> wf_registry (pop_entry i reg)"
  by (simp_all add: wf_registry_def set_meta_def set_entry_def pop_entry_def set_binding_def distinct_update distinct_map_filter)

lemma rr_entries_simps [simp]:
  "rr_entries (set_meta i m reg) = rr_entries reg" "rr_entries (set_binding k b reg) = rr_entries reg"
  "rr_bindings (set_meta i m reg) = rr_bindings reg" "rr_bindings (set_entry k u reg) = rr_bindings reg" "rr_bindings (pop_entry k reg) = rr_bindings reg"
  by (simp_all add: set_meta_def set_entry_def pop_entry_def set_binding_def)

lemma unbind_one_simps [simp]:
  "registry_view (unbind_one now reason j reg) = ((fst (registry_view reg))(j := None), snd (registry_view reg))"
  "wf_registry reg \<Longrightarrow> wf_registry (unbind_one now reason j reg)"
  by (simp_all add: unbind_one_def)

lemma unbind_others_view:
  assumes "wf_registry reg"
  shows "wf_registry (unbind_others now reason i u reg)"
    "registry_view (unbind_others now reason i u reg) =
      (\<lambda>j. if j \<noteq> i \<and> fst (registry_view reg) j = Some u then None else fst (registry_view reg) j, snd (registry_view reg))"
proof -
  define f where "f = (\<lambda>kv. if fst kv \<noteq> i \<and> snd kv = u then unbind_one now reason (fst kv) else id)"
  have "wf_registry (fold f es reg') \<and> registry_view (fold f es reg') =
      (\<lambda>j. if j \<noteq> i \<and> (j, u) \<in> set es then None else fst (registry_view reg') j, snd (registry_view reg'))"
    if "wf_registry reg'" for es reg'
    using that by (induction es arbitrary: reg') (auto simp: f_def fun_eq_iff)
  from this [OF assms, of "rr_entries reg"]
  show "wf_registry (unbind_others now reason i u reg)"
    "registry_view (unbind_others now reason i u reg) =
      (\<lambda>j. if j \<noteq> i \<and> fst (registry_view reg) j = Some u then None else fst (registry_view reg) j, snd (registry_view reg))"
    using assms by (auto simp: unbind_others_def f_def registry_view_def wf_registry_def fun_eq_iff)
qed

text \<open>The three ways an entry is written.\<close>

lemma own_entry:
  assumes "sessions_ok root N (E, B)" "inj_on uuid5 N" "n \<in> N" "instance_name root i n" "plain_instance i"
  shows "sessions_ok root N (E(i \<mapsto> uuid5 n), B)"
proof -
  have "E j \<noteq> Some (uuid5 n)" if "j \<noteq> i" for j
  proof
    assume "E j = Some (uuid5 n)"
    with assms(1) have "owned_id root N j (uuid5 n)" by (simp add: sessions_ok_def)
    then obtain m k where m: "m \<in> N" "uuid5 n = uuid5 m" "instance_name root k m" "k = ''task-stage'' \<or> k = j \<and> plain_instance j"
      by (auto simp: owned_id_def shared_id_def uuid5_version)
    then have "instance_name root k n" using assms(2,3) by (metis inj_onD)
    then have "k = i" using instance_name_unique assms(4,5) m(4) by (auto simp: plain_instance_def)
    then show False using m(4) that assms(5) by (auto simp: plain_instance_def)
  qed
  moreover have "owned_id root N i (uuid5 n)" using assms by (auto simp: owned_id_def)
  ultimately show ?thesis using assms(1) by (fastforce simp: sessions_ok_def)
qed

lemma pop_ok: "sessions_ok root N (E, B) \<Longrightarrow> sessions_ok root N (E(i := None), B)"
  by (auto simp: sessions_ok_def)

lemma moved_entry:
  assumes "sessions_ok root N (E, B)" "shared_id root N u"
  shows "sessions_ok root N ((\<lambda>j. if j \<noteq> i \<and> E j = Some u then None else E j)(i \<mapsto> u), B)"
  using assms by (auto simp: sessions_ok_def owned_id_def split: if_splits)

lemma binding_ok:
  assumes "sessions_ok root N (E, B)" "map_of b ''session_id'' = Some (JStr u)" "shared_id root N u"
  shows "sessions_ok root N (E, B(k \<mapsto> fields_view b))"
  using assms by (auto simp: sessions_ok_def fields_view_def)

lemma stored_binding:
  assumes "sessions_ok root N (registry_view reg)" "map_of (rr_bindings reg) k = Some b"
  obtains u where "map_of b ''session_id'' = Some (JStr u)" "shared_id root N u"
proof -
  have "snd (registry_view reg) k = Some (fields_view b)" using assms(2) by (simp add: registry_view_def)
  moreover have "\<exists>u. v ''session_id'' = Some (JStr u) \<and> shared_id root N u" if "snd (registry_view reg) k = Some v" for v
    using assms(1) that by (simp add: sessions_ok_def)
  ultimately obtain u where "fields_view b ''session_id'' = Some (JStr u)" "shared_id root N u" by blast
  moreover have "v = JStr u" if "sorted_json v = JStr u" for v u using that by (cases v) simp_all
  ultimately show ?thesis using that by (auto simp: fields_view_def)
qed

lemma sget_string: "map_of b k = Some (JStr u) \<Longrightarrow> sget b k = u"
  by (simp add: sget_def dict_get_def)

lemma map_sum_Inr: "map_sum id f x = Inr z \<longleftrightarrow> (\<exists>y. x = Inr y \<and> z = f y)"
  by (cases x) auto

lemma unanswer_Inr: "unanswer x = Inr ((), r) \<longleftrightarrow> (\<exists>y. x = Inr (y, r))"
  by (cases x) (auto simp: unanswer_def)

lemma map_of_dict_update: "map_of (dict_update d e) k = (case map_of (rev e) k of None \<Rightarrow> map_of d k | Some v \<Rightarrow> Some v)"
proof -
  have "map_of (fold (\<lambda>kv acc. dict_set acc (fst kv) (snd kv)) e d) = map_of d ++ map_of (rev e)"
    by (induction e arbitrary: d) (auto simp: map_add_def fun_eq_iff split: option.splits)
  then show ?thesis by (simp add: dict_update_def map_add_def)
qed

lemma create_session_ok:
  assumes "good_registry root N reg" "inj_on uuid5 N" "plain_instance i"
    and "\<And>r n. session_seed root i backend changed reg = Inr (r, n) \<Longrightarrow> n \<in> N"
    and "create_session root i backend now stored changed reg = Inr (answer, Some reg')"
  shows "good_registry root N reg'"
proof -
  from assms(5) obtain r n m where n: "session_seed root i backend changed reg = Inr (r, n)" "reg' = set_meta i m (set_entry i (uuid5 n) reg)"
    by (auto simp: create_session_def res_bind_Inr Let_def)
  then have "instance_name root i n" by (auto simp: session_seed_def res_bind_Inr map_sum_Inr intro: seed_instance_name)
  with n assms(1-4) show ?thesis using own_entry [of root N "fst (registry_view reg)" "snd (registry_view reg)" n i] by simp
qed

lemma rotate_ok:
  assumes "good_registry root N reg" "inj_on uuid5 N" "plain_instance i" "set (op_names root (RotateSession i now) reg) \<subseteq> N"
    and "rotate_session_body root i now reg = Inr (answer, Some reg')"
  shows "good_registry root N reg'"
proof -
  from assms(5) obtain n k m where n: "int_of_json (get_default (meta_of reg i) ''rotation_counter'' (JInt 0)) = Inr k"
    "uuid5_seed root i (JInt (k + 1)) [] = Inr n" "reg' = set_entry i (uuid5 n) (set_meta i m reg)"
    by (auto simp: rotate_session_body_def res_bind_Inr Let_def)
  with assms(4) have "n \<in> N" by simp
  with n assms(1-3) seed_instance_name [OF n(2)] show ?thesis
    using own_entry [of root N "fst (registry_view reg)" "snd (registry_view reg)" n i] by simp
qed

lemma observed_ok:
  assumes "good_registry root N reg" "foreign_id session_id"
    and "bind_codex_session_body i session_id path from now reg = Inr (answer, Some reg')"
  shows "good_registry root N reg'"
proof -
  from assms(3) obtain u where u: "parse_uuid session_id = Inr u" by (auto simp: bind_codex_session_body_def split: sum.splits)
  with assms(2) have shared: "shared_id root N u" by (simp add: foreign_id_def shared_id_def)
  have observed: "map_of (observed_binding i u path now b) ''session_id'' = Some (JStr u)" for b
    by (simp add: observed_binding_def map_of_dict_update Let_def split: option.split)
  from assms(3) u obtain m key where reg': "reg' = set_entry i u (unbind_others now ''codex_session_rebound'' i u
      (case map_of (rr_bindings reg) key of None \<Rightarrow> set_meta i m reg | Some b \<Rightarrow> set_binding key (observed_binding i u path now b) (set_meta i m reg)))"
    by (auto simp: bind_codex_session_body_def Let_def)
  define mid where "mid = (case map_of (rr_bindings reg) key of None \<Rightarrow> set_meta i m reg
    | Some b \<Rightarrow> set_binding key (observed_binding i u path now b) (set_meta i m reg))"
  have "good_registry root N mid"
    using assms(1) binding_ok [OF _ observed shared, of "fst (registry_view reg)" "snd (registry_view reg)"] by (simp add: mid_def split: option.split)
  then show ?thesis
    using moved_entry [OF _ shared, of "fst (registry_view mid)" "snd (registry_view mid)" i] unbind_others_view [of mid]
    by (simp add: reg' mid_def [symmetric])
qed

lemma projected_ok:
  assumes "good_registry root N reg" "map_of b ''session_id'' = Some (JStr u)" "shared_id root N u"
  shows "good_registry root N (project_session i now b reg)"
  using assms moved_entry [OF _ assms(3), of "fst (registry_view reg)" "snd (registry_view reg)" i] unbind_others_view [of reg]
    pop_ok [of root N "fst (registry_view reg)" "snd (registry_view reg)" i]
  by (auto simp: project_session_def Let_def sget_string)

lemma activate_ok:
  assumes "good_registry root N reg" "activate_task_stage_session_body key i now reg = Inr (answer, Some reg')"
  shows "good_registry root N reg'"
proof -
  from assms(2) obtain b m where b: "map_of (rr_bindings reg) (strip key) = Some b"
    "reg' = set_binding (strip key) (dict_set (dict_set b ''status'' (JStr ''active'')) ''activated_at'' (JStr now))
      (project_session (strip i) now b (set_meta (strip i) m reg))"
    by (auto simp: activate_task_stage_session_body_def Let_def split: option.splits if_splits)
  obtain u where u: "map_of b ''session_id'' = Some (JStr u)" "shared_id root N u" using stored_binding assms(1) b(1) by metis
  define mid where "mid = project_session (strip i) now b (set_meta (strip i) m reg)"
  have "good_registry root N mid" unfolding mid_def using projected_ok [OF _ u] assms(1) by simp
  then show ?thesis using binding_ok [OF _ _ u(2), of "fst (registry_view mid)" "snd (registry_view mid)"] u(1) by (simp add: b(2) mid_def [symmetric])
qed

lemma stamped_ok:
  assumes "good_registry root N reg" "map_of (rr_bindings reg) k = Some b" "map_of b' ''session_id'' = map_of b ''session_id''"
  shows "good_registry root N (set_binding k b' reg)"
proof -
  obtain u where "map_of b ''session_id'' = Some (JStr u)" "shared_id root N u" using stored_binding assms(1,2) by metis
  then show ?thesis using assms(1,3) binding_ok [of root N "fst (registry_view reg)" "snd (registry_view reg)" b' u k] by simp
qed

lemma bind_stage_ok:
  assumes "good_registry root N reg" "set (op_names root (BindStage g pl now) reg) \<subseteq> N"
    and "bind_task_stage_session_body root g pl now reg = Inr (answer, Some reg')"
  shows "good_registry root N reg'"
proof -
  from assms(3) obtain key b history where b: "task_stage_binding_key g = Inr key" "reg' = set_binding key (place_binding pl now history b) reg"
    "map_of (rr_bindings reg) key = None \<and> b = new_binding root key g pl now \<or> map_of (rr_bindings reg) key = Some b"
    by (auto simp: bind_task_stage_session_body_def res_bind_Inr Let_def map_sum_def split: if_splits option.splits sum.splits)
  have same: "map_of (place_binding pl now history b) ''session_id'' = map_of b ''session_id''"
    by (simp add: place_binding_def map_of_dict_update)
  from b(3) show ?thesis
  proof
    assume new: "map_of (rr_bindings reg) key = None \<and> b = new_binding root key g pl now"
    have "stage_name root key (pl_backend pl) \<in> N" using assms(2) b(1) by simp
    then have "shared_id root N (uuid5 (stage_name root key (pl_backend pl)))" using stage_instance_name by (auto simp: shared_id_def)
    with new same show ?thesis using assms(1) binding_ok [of root N "fst (registry_view reg)" "snd (registry_view reg)"]
      by (simp add: b(2) new_binding_def)
  qed (use stamped_ok [OF assms(1)] same in \<open>simp add: b(2)\<close>)
qed

lemma body_ok:
  assumes "good_registry root N reg" "inj_on uuid5 N" "plain_op x" "set (op_names root x reg) \<subseteq> N"
    and "session_body root x reg = Inr ((), Some reg')"
  shows "good_registry root N reg'"
proof (cases x)
  case (GetOrCreate i backend now)
  have "(\<exists>answer. create_session root i backend now (stored_backend reg i) (backend_changed i backend reg) reg = Inr (answer, Some reg'))
    \<or> (\<exists>m. reg' = set_meta i m reg)"
    using assms(5) GetOrCreate by (auto simp: get_or_create_body_def unanswer_Inr Let_def split: option.splits if_splits)
  then show ?thesis
  proof
    assume "\<exists>answer. create_session root i backend now (stored_backend reg i) (backend_changed i backend reg) reg = Inr (answer, Some reg')"
    then obtain answer where "create_session root i backend now (stored_backend reg i) (backend_changed i backend reg) reg = Inr (answer, Some reg')" ..
    then show ?thesis by (rule create_session_ok [OF assms(1,2), rotated 2]) (use assms(3,4) GetOrCreate in auto)
  qed (use assms(1) in auto)
next
  case (RotateSession i now)
  then show ?thesis using rotate_ok [OF assms(1,2)] assms(3-5) by (auto simp: unanswer_Inr simp del: op_names.simps)
next
  case (BindStage g pl now)
  then show ?thesis using bind_stage_ok [OF assms(1)] assms(4,5) by (auto simp: unanswer_Inr simp del: op_names.simps)
next
  case (ActivateStage key i now)
  then show ?thesis using activate_ok [OF assms(1)] assms(5) by (auto simp: unanswer_Inr)
next
  case (BindCodex i session_id path "from" now)
  then show ?thesis using observed_ok [OF assms(1)] assms(3,5) by (auto simp: unanswer_Inr)
next
  case (ObserveCodex i found now)
  then show ?thesis using observed_ok [OF assms(1)] assms(3,5)
    by (auto simp: unanswer_Inr observe_codex_session_body_def map_sum_Inr split: option.splits)
next
  case (SealStage g now)
  with assms(5) obtain k b where "map_of (rr_bindings reg) k = Some b"
    "reg' = set_binding k (dict_set (dict_set b ''status'' (JStr ''sealed'')) ''sealed_at'' (JStr now)) reg"
    by (auto simp: unanswer_Inr seal_task_stage_session_body_def res_bind_Inr Let_def split: option.splits)
  then show ?thesis using stamped_ok [OF assms(1)] by simp
next
  case (ArchiveStage g now)
  with assms(5) obtain k b where "map_of (rr_bindings reg) k = Some b"
    "reg' = set_binding k (dict_set (dict_set b ''status'' (JStr ''archived'')) ''archived_at'' (JStr now)) reg"
    by (auto simp: unanswer_Inr archive_task_stage_session_body_def res_bind_Inr Let_def split: option.splits if_splits)
  then show ?thesis using stamped_ok [OF assms(1)] by simp
qed (use assms(1,5) pop_ok [of root N "fst (registry_view reg)" "snd (registry_view reg)"] in
    \<open>auto simp: unanswer_Inr mark_backend_body_def update_instance_meta_body_def bind_provider_session_config_body_def mark_spawned_body_def
      clear_session_body_def record_heartbeat_body_def res_bind_Inr Let_def split: if_splits\<close>)

lemma session_run_Cons:
  "session_run yaml root (x # xs) f = session_run yaml root xs (snd (attempt_step (session_exec yaml root x) f))"
  by (simp add: session_run_def Let_def case_prod_beta)

lemma session_run_append: "session_run yaml root (xs @ ys) f = session_run yaml root ys (session_run yaml root xs f)"
  by (induction xs arbitrary: f) (simp_all add: session_run_Cons, simp add: session_run_def)

context session_file
begin

lemma exec_ok:
  assumes "holds (sessions_ok root N) f" "inj_on uuid5 N" "plain_op x" "\<And>reg. load_registry f = Inr reg \<Longrightarrow> set (op_names root x reg) \<subseteq> N"
    and "session_exec yaml root x f = Inr (r, f')"
  shows "holds (sessions_ok root N) f'"
proof -
  obtain reg where reg: "load_registry f = Inr reg" "good_registry root N reg" using assms(1) by (auto simp: holds_def)
  from assms(5) consider "f' = f" | reg' where "session_body root x reg = Inr ((), Some reg')" "f' = save_registry yaml root reg'"
    using reg(1) by (auto simp: session_exec_def locked_rmw_Inr)
  then show ?thesis
  proof cases
    case 2
    then have "good_registry root N reg'" using body_ok reg(2) assms(2-4) reg(1) by blast
    then show ?thesis using load_save [of reg'] 2(2) by (auto simp: holds_def)
  qed (use assms(1) in simp)
qed

lemma run_ok:
  "holds (sessions_ok root N) f \<Longrightarrow> inj_on uuid5 N \<Longrightarrow> list_all plain_op ops \<Longrightarrow> set (run_names yaml root ops f) \<subseteq> N \<Longrightarrow>
   holds (sessions_ok root N) (session_run yaml root ops f)"
proof (induction ops arbitrary: f)
  case (Cons x xs)
  let ?f = "snd (attempt_step (session_exec yaml root x) f)"
  have "set (op_names root x reg) \<subseteq> N" if "load_registry f = Inr reg" for reg using Cons.prems(4) that by simp
  note names = this
  have "holds (sessions_ok root N) f'" if "session_exec yaml root x f = Inr (r, f')" for r f'
    by (rule exec_ok [OF Cons.prems(1,2) _ names that]) (use Cons.prems(3) in simp_all)
  then have "holds (sessions_ok root N) ?f" using Cons.prems(1) by (auto simp: attempt_step_def split: sum.split)
  then show ?case using Cons by (simp add: session_run_Cons)
qed (simp add: session_run_def)

lemma run_good:
  assumes "inj_on uuid5 (set (run_names yaml root ops None))" "list_all plain_op ops"
  shows "\<exists>reg. load_registry (session_run yaml root ops None) = Inr reg \<and> good_registry root (set (run_names yaml root ops None)) reg"
proof -
  have "holds (sessions_ok root N) None" for N
    by (simp add: holds_def load_registry_def empty_registry_def wf_registry_def sessions_ok_def registry_view_def)
  then show ?thesis using run_ok [OF _ assms subset_refl] by (simp add: holds_def)
qed

end

lemma lookup_owner:
  assumes "good_registry root N reg" "map_of (rr_entries reg) i = Some u"
  shows "get_instance_by_uuid reg u = Some i"
proof -
  have "(i, u) \<in> set (rr_entries reg)" using assms(2) by (rule map_of_SomeD)
  then obtain kv where kv: "find (\<lambda>kv. snd kv = u) (rr_entries reg) = Some kv" by (cases "find (\<lambda>kv. snd kv = u) (rr_entries reg)") (auto simp: find_None_iff)
  then have "(fst kv, u) \<in> set (rr_entries reg)" by (auto simp: find_Some_iff)
  then have "map_of (rr_entries reg) (fst kv) = Some u" using assms(1) by (simp add: wf_registry_def)
  then have "fst kv = i" using assms by (auto simp: sessions_ok_def registry_view_def)
  then show ?thesis by (simp add: get_instance_by_uuid_def kv)
qed

text \<open>C11: A session belongs to one worker. Whatever the registry did since it was created, in any order, a session id is held by at most one instance, so that
  the reverse lookup, by which events of a provider are attributed to a worker, names exactly its holder; provided that the names that were
  hashed have different ids, that instances have plain names, and that providers do not report ids of version five.\<close>

theorem session_bound_once:
  assumes "\<forall>v. yaml v = sorted_json v" and "list_all plain_op ops" and "inj_on uuid5 (set (run_names yaml root ops None))"
  shows "\<exists>reg. load_registry (session_run yaml root ops None) = Inr reg
    \<and> (\<forall>i u. map_of (rr_entries reg) i = Some u \<longrightarrow> get_instance_by_uuid reg u = Some i)"
proof -
  have yf: "session_file yaml" using assms(1) by (simp add: session_file_def)
  from session_file.run_good [OF yf assms(3,2)] show ?thesis using lookup_owner by blast
qed

definition demo_session :: string where
  "demo_session = ''01990000-0000-7000-8000-000000000001''"

definition demo_session_ops :: "session_op list" where
  "demo_session_ops =
     [MarkSpawned ''dev-2'' ''t1'', BindCodex ''dev-2'' demo_session None ''hook'' ''t2'', BindCodex ''dev-3'' demo_session None ''hook'' ''t3'']"

interpretation yaml_file: session_file sorted_json root for root
  by unfold_locales simp

theorem session_bound_once_witness:
  "list_all plain_op demo_session_ops
   \<and> (\<exists>reg. load_registry (session_run sorted_json ''/p'' demo_session_ops None) = Inr reg \<and> get_instance_by_uuid reg demo_session = Some ''dev-3'')"
proof -
  have quiet: "(case r of Inl e \<Rightarrow> [] | Inr reg \<Rightarrow> op_names ''/p'' x reg) = []" if "\<And>reg. op_names ''/p'' x reg = []" for x and r :: "role_registry res"
    using that by (cases r) simp_all
  have "run_names sorted_json ''/p'' demo_session_ops None = []" by (simp add: demo_session_ops_def quiet)
  then have "inj_on uuid5 (set (run_names sorted_json ''/p'' demo_session_ops None))" by simp
  moreover have "list_all plain_op demo_session_ops" by code_simp
  moreover have "map_sum id (\<lambda>reg. map_of (rr_entries reg) ''dev-3'') (load_registry (session_run sorted_json ''/p'' demo_session_ops None))
    = Inr (Some demo_session)" by code_simp
  ultimately show ?thesis using session_bound_once [of sorted_json demo_session_ops "''/p''"] by (auto simp: map_sum_Inr)
qed

section \<open>Placements only advance\<close>

text \<open>The placements of a binding: the epoch and the instance of each row of its history.\<close>

definition row_placement :: "json \<Rightarrow> (int \<times> string) option" where
  "row_placement row =
     (case (dict_get (as_dict row) ''placement_epoch'', dict_get (as_dict row) ''role_instance'') of (JInt n, JStr i) \<Rightarrow> Some (n, i) | _ \<Rightarrow> None)"

definition history_placements :: "json option \<Rightarrow> (int \<times> string) list option" where
  "history_placements h = (case h of Some (JList rows) \<Rightarrow> those (map row_placement rows) | _ \<Rightarrow> None)"

definition placements :: "pydict \<Rightarrow> (int \<times> string) list option" where
  "placements b = history_placements (map_of b ''placement_history'')"

definition placed_binding :: "(string \<Rightarrow> json option) \<Rightarrow> bool" where
  "placed_binding v \<longleftrightarrow>
     (\<exists>ps digest generation. history_placements (v ''placement_history'') = Some ps \<and> ps \<noteq> [] \<and> sorted_wrt (<) (map fst ps)
        \<and> v ''current_role_instance'' = Some (JStr (snd (last ps)))
        \<and> v ''role_config_digest'' = Some (JStr digest) \<and> v ''workspace_generation'' = Some (JInt generation))"

definition advances :: "(string \<Rightarrow> json option) \<Rightarrow> (string \<Rightarrow> json option) \<Rightarrow> bool" where
  "advances v v' \<longleftrightarrow>
     v' ''role_config_digest'' = v ''role_config_digest'' \<and> v' ''workspace_generation'' = v ''workspace_generation''
     \<and> (\<exists>ps ps'. history_placements (v ''placement_history'') = Some ps \<and> history_placements (v' ''placement_history'') = Some (ps @ ps'))"

definition all_placed :: "session_view \<Rightarrow> bool" where
  "all_placed w \<longleftrightarrow> (\<forall>k v. snd w k = Some v \<longrightarrow> placed_binding v)"

definition all_advance :: "session_view \<Rightarrow> session_view \<Rightarrow> bool" where
  "all_advance w w' \<longleftrightarrow> (\<forall>k v. snd w k = Some v \<longrightarrow> (\<exists>v'. snd w' k = Some v' \<and> advances v v'))"

lemma advances_refl: "placed_binding v \<Longrightarrow> advances v v"
  by (auto simp: placed_binding_def advances_def)

lemma advances_trans: "advances u v \<Longrightarrow> advances v w \<Longrightarrow> advances u w"
  by (auto simp: advances_def)

lemma all_advance_trans: "all_advance u v \<Longrightarrow> all_advance v w \<Longrightarrow> all_advance u w"
  unfolding all_advance_def by (meson advances_trans)

lemma sorted_scalar [simp]: "sorted_json v = JInt n \<longleftrightarrow> v = JInt n" "sorted_json v = JStr s \<longleftrightarrow> v = JStr s"
  by (cases v; simp)+

lemma dict_get_sorted: "dict_get (as_dict (sorted_json row)) k = sorted_json (dict_get (as_dict row) k)"
  by (cases row) (simp_all add: dict_get_def sorted_json_obj map_of_sorted map_of_on_val split: option.split del: sorted_json.simps(1))

lemma row_placement_Some:
  "row_placement row = Some (n, i) \<longleftrightarrow> dict_get (as_dict row) ''placement_epoch'' = JInt n \<and> dict_get (as_dict row) ''role_instance'' = JStr i"
  by (auto simp: row_placement_def split: json.splits)

lemma row_placement_sorted: "row_placement (sorted_json row) = row_placement row"
proof -
  have "row_placement (sorted_json row) = Some p \<longleftrightarrow> row_placement row = Some p" for p
    by (cases p) (simp add: row_placement_Some dict_get_sorted)
  then show ?thesis by (metis not_Some_eq)
qed

lemma placements_view: "history_placements (fields_view b ''placement_history'') = placements b"
  by (auto simp: placements_def history_placements_def fields_view_def row_placement_sorted comp_def split: option.splits json.splits)

lemma fields_scalar:
  "fields_view b k = Some (JStr s) \<longleftrightarrow> map_of b k = Some (JStr s)" "fields_view b k = Some (JInt n) \<longleftrightarrow> map_of b k = Some (JInt n)"
  by (auto simp: fields_view_def)

lemmas placed_fields = placed_binding_def placements_view fields_scalar

text \<open>A binding that is stored again keeps its placements unless it is placed.\<close>

definition same_placement :: "pydict \<Rightarrow> pydict \<Rightarrow> bool" where
  "same_placement b b' \<longleftrightarrow>
     (\<forall>k \<in> {''placement_history'', ''current_role_instance'', ''role_config_digest'', ''workspace_generation''}. map_of b' k = map_of b k)"

lemma same_placement_step:
  assumes "all_placed (E, B)" "B k = Some (fields_view b)" "same_placement b b'"
  shows "all_placed (E', B(k \<mapsto> fields_view b')) \<and> all_advance (E, B) (E', B(k \<mapsto> fields_view b'))"
proof -
  have "placed_binding (fields_view b)" using assms(1,2) by (simp add: all_placed_def)
  moreover have "placed_binding (fields_view b') = placed_binding (fields_view b)" "advances (fields_view b) (fields_view b') = advances (fields_view b) (fields_view b)"
    using assms(3) by (simp_all add: same_placement_def placed_binding_def advances_def fields_view_def)
  ultimately show ?thesis using assms(1,2) advances_refl by (auto simp: all_placed_def all_advance_def)
qed

lemma those_Some: "those xs = Some ys \<longleftrightarrow> xs = map Some ys"
  by (induction xs arbitrary: ys) (auto split: option.splits simp: Cons_eq_map_conv)

lemma check_epoch_True:
  assumes "check_epoch pl rows = Inr True" "those (map row_placement rows) = Some ps"
  shows "ps = [] \<or> fst (last ps) < pl_placement_epoch pl"
proof (cases rows rule: rev_cases)
  case (snoc before row)
  obtain n i qs where ps: "ps = qs @ [(n, i)]" "row_placement row = Some (n, i)"
    using assms(2) snoc by (cases ps rule: rev_cases) (auto simp: those_Some)
  then obtain r where "row = JObj r" "dict_get r ''placement_epoch'' = JInt n" by (cases row) (auto simp: row_placement_Some)
  then have "int_or_zero r ''placement_epoch'' = Inr n" by (simp add: int_or_zero_def int_of_json_def py_or_def)
  then show ?thesis using assms(1) snoc ps \<open>row = JObj r\<close> by (auto simp: check_epoch_def split: if_splits)
qed (use assms(2) in simp)

lemma place_step:
  assumes "those (map row_placement rows) = Some ps" "ps = [] \<or> sorted_wrt (<) (map fst ps) \<and> fst (last ps) < pl_placement_epoch pl"
    "map_of b ''role_config_digest'' = Some (JStr digest)" "map_of b ''workspace_generation'' = Some (JInt generation)"
    "map_of b ''placement_history'' = Some (JList rows)"
  shows "placed_binding (fields_view (place_binding pl now rows b)) \<and> advances (fields_view b) (fields_view (place_binding pl now rows b))"
proof -
  let ?p = "(pl_placement_epoch pl, strip (pl_role_instance pl))"
  have "row_placement (placement_row pl now) = Some ?p" by (simp add: row_placement_def placement_row_def)
  then have "those (map row_placement (rows @ [placement_row pl now])) = Some (ps @ [?p])"
    using assms(1) by (simp add: those_Some)
  then have new: "placements (place_binding pl now rows b) = Some (ps @ [?p])"
    by (simp add: placements_def history_placements_def place_binding_def map_of_dict_update)
  have old: "placements b = Some ps" using assms(1,5) by (simp add: placements_def history_placements_def)
  have "sorted_wrt (<) (map fst (ps @ [?p]))"
    using assms(2) by (cases ps rule: rev_cases) (force simp: sorted_wrt_append)+
  moreover have "map_of (place_binding pl now rows b) k = map_of b k" if "k \<in> {''role_config_digest'', ''workspace_generation''}" for k
    using that by (auto simp: place_binding_def map_of_dict_update)
  moreover have "map_of (place_binding pl now rows b) ''current_role_instance'' = Some (JStr (snd ?p))"
    by (simp add: place_binding_def map_of_dict_update)
  ultimately show ?thesis using new old assms(3,4) by (simp add: placed_fields advances_def) (simp add: fields_view_def)
qed

lemma unchanged_step: "snd w' = snd w \<Longrightarrow> all_placed w \<Longrightarrow> all_placed w' \<and> all_advance w w'"
  using advances_refl by (simp add: all_placed_def all_advance_def)

lemma stamped_step:
  assumes "all_placed (registry_view reg)" "map_of (rr_bindings reg) k = Some b" "same_placement b b'" "snd (registry_view mid) = snd (registry_view reg)"
  shows "all_placed (registry_view (set_binding k b' mid)) \<and> all_advance (registry_view reg) (registry_view (set_binding k b' mid))"
proof -
  have "snd (registry_view reg) k = Some (fields_view b)" using assms(2) by (simp add: registry_view_def)
  then show ?thesis
    using same_placement_step [of "fst (registry_view reg)" "snd (registry_view reg)" k b b' "fst (registry_view mid)"] assms(1,3,4) by simp
qed

lemma project_session_bindings: "wf_registry reg \<Longrightarrow> snd (registry_view (project_session i now b reg)) = snd (registry_view reg)"
  by (simp add: project_session_def Let_def unbind_others_view)

lemma same_placement_simps [simp]:
  "same_placement b (dict_set (dict_set b ''status'' v) ''activated_at'' w)" "same_placement b (dict_set (dict_set b ''status'' v) ''sealed_at'' w)"
  "same_placement b (dict_set (dict_set b ''status'' v) ''archived_at'' w)" "same_placement b (observed_binding i u path now b)"
  by (auto simp: same_placement_def observed_binding_def map_of_dict_update Let_def split: option.split)

lemma bind_stage_step:
  assumes "all_placed (registry_view reg)" "bind_task_stage_session_body root g pl now reg = Inr (answer, Some reg')"
  shows "all_placed (registry_view reg') \<and> all_advance (registry_view reg) (registry_view reg')"
proof -
  from assms(2) obtain key b rows where b: "reg' = set_binding key (place_binding pl now rows b) reg" "check_epoch pl rows = Inr True"
    "py_list (py_or (dict_get b ''placement_history'') (JList [])) = Inr rows"
    "map_of (rr_bindings reg) key = None \<and> b = new_binding root key g pl now \<or> map_of (rr_bindings reg) key = Some b"
    by (auto simp: bind_task_stage_session_body_def res_bind_Inr Let_def map_sum_Inr split: if_splits option.splits)
  have step: "all_placed (registry_view reg') \<and> all_advance (registry_view reg) (registry_view reg')"
    if "placed_binding (fields_view (place_binding pl now rows b))"
      "\<And>v. snd (registry_view reg) key = Some v \<Longrightarrow> advances v (fields_view (place_binding pl now rows b))"
    using that assms(1) advances_refl by (auto simp: b(1) all_placed_def all_advance_def)
  from b(4) show ?thesis
  proof
    assume new: "map_of (rr_bindings reg) key = None \<and> b = new_binding root key g pl now"
    then have "rows = []" using b(3) by (simp add: new_binding_def py_or_def py_list_def)
    with new show ?thesis using place_step [of rows "[]" pl b] by (intro step) (auto simp: new_binding_def registry_view_def)
  next
    assume old: "map_of (rr_bindings reg) key = Some b"
    then have view: "snd (registry_view reg) key = Some (fields_view b)" by (simp add: registry_view_def)
    with assms(1) have "placed_binding (fields_view b)" by (simp add: all_placed_def)
    then obtain ps digest generation where ps: "placements b = Some ps" "ps \<noteq> []" "sorted_wrt (<) (map fst ps)"
      "map_of b ''role_config_digest'' = Some (JStr digest)" "map_of b ''workspace_generation'' = Some (JInt generation)"
      by (auto simp: placed_fields)
    then have "map_of b ''placement_history'' = Some (JList rows)" "those (map row_placement rows) = Some ps"
      using b(3) by (auto simp: placements_def history_placements_def dict_get_def py_or_def py_list_def split: option.splits json.splits if_splits)
    with ps view show ?thesis using place_step [of rows ps pl b digest generation now] check_epoch_True [OF b(2)] by (intro step) auto
  qed
qed

lemma codex_step:
  assumes "wf_registry reg" "all_placed (registry_view reg)" "bind_codex_session_body i session_id path from now reg = Inr (answer, Some reg')"
  shows "all_placed (registry_view reg') \<and> all_advance (registry_view reg) (registry_view reg')"
proof -
  from assms(3) obtain u m key where reg': "reg' = set_entry i u (unbind_others now ''codex_session_rebound'' i u
      (case map_of (rr_bindings reg) key of None \<Rightarrow> set_meta i m reg | Some b \<Rightarrow> set_binding key (observed_binding i u path now b) (set_meta i m reg)))"
    by (auto simp: bind_codex_session_body_def Let_def split: sum.splits)
  show ?thesis
  proof (cases "map_of (rr_bindings reg) key")
    case None
    then show ?thesis using assms(1,2) by (intro unchanged_step) (simp_all add: reg' unbind_others_view)
  next
    case (Some b)
    let ?mid = "set_binding key (observed_binding i u path now b) reg"
    have "all_placed (registry_view ?mid) \<and> all_advance (registry_view reg) (registry_view ?mid)"
      by (rule stamped_step [OF assms(2) Some]) simp_all
    moreover have "snd (registry_view reg') = snd (registry_view ?mid)" using assms(1) Some by (simp add: reg' unbind_others_view)
    ultimately show ?thesis by (simp add: all_placed_def all_advance_def)
  qed
qed

lemma body_step:
  assumes "wf_registry reg" "all_placed (registry_view reg)" "session_body root x reg = Inr ((), Some reg')"
  shows "all_placed (registry_view reg') \<and> all_advance (registry_view reg) (registry_view reg')"
proof (cases x)
  case (BindStage g pl now)
  then show ?thesis using bind_stage_step [OF assms(2)] assms(3) by (auto simp: unanswer_Inr)
next
  case (ActivateStage key i now)
  with assms(3) obtain b m where b: "map_of (rr_bindings reg) (strip key) = Some b"
    "reg' = set_binding (strip key) (dict_set (dict_set b ''status'' (JStr ''active'')) ''activated_at'' (JStr now))
      (project_session (strip i) now b (set_meta (strip i) m reg))"
    by (auto simp: unanswer_Inr activate_task_stage_session_body_def Let_def split: option.splits if_splits)
  show ?thesis unfolding b(2) by (rule stamped_step [OF assms(2) b(1)]) (simp_all add: project_session_bindings assms(1))
next
  case (SealStage g now)
  with assms(3) obtain k b where b: "map_of (rr_bindings reg) k = Some b"
    "reg' = set_binding k (dict_set (dict_set b ''status'' (JStr ''sealed'')) ''sealed_at'' (JStr now)) reg"
    by (auto simp: unanswer_Inr seal_task_stage_session_body_def res_bind_Inr Let_def split: option.splits)
  show ?thesis unfolding b(2) by (rule stamped_step [OF assms(2) b(1)]) simp_all
next
  case (ArchiveStage g now)
  with assms(3) obtain k b where b: "map_of (rr_bindings reg) k = Some b"
    "reg' = set_binding k (dict_set (dict_set b ''status'' (JStr ''archived'')) ''archived_at'' (JStr now)) reg"
    by (auto simp: unanswer_Inr archive_task_stage_session_body_def res_bind_Inr Let_def split: option.splits if_splits)
  show ?thesis unfolding b(2) by (rule stamped_step [OF assms(2) b(1)]) simp_all
next
  case (BindCodex i session_id path "from" now)
  then show ?thesis using codex_step [OF assms(1,2)] assms(3) by (auto simp: unanswer_Inr)
next
  case (ObserveCodex i found now)
  then show ?thesis using codex_step [OF assms(1,2)] assms(3)
    by (auto simp: unanswer_Inr observe_codex_session_body_def map_sum_Inr split: option.splits)
qed (use assms(2,3) in \<open>auto intro!: unchanged_step simp: unanswer_Inr get_or_create_body_def create_session_def mark_backend_body_def
      update_instance_meta_body_def bind_provider_session_config_body_def mark_spawned_body_def clear_session_body_def record_heartbeat_body_def
      rotate_session_body_def res_bind_Inr Let_def split: option.splits if_splits\<close>)

lemma project_session_wf: "wf_registry reg \<Longrightarrow> wf_registry (project_session i now b reg)"
  by (simp add: project_session_def Let_def unbind_others_view)

lemma body_wf: "wf_registry reg \<Longrightarrow> session_body root x reg = Inr ((), Some reg') \<Longrightarrow> wf_registry reg'"
proof -
  assume wf: "wf_registry reg" and body: "session_body root x reg = Inr ((), Some reg')"
  have codex: "bind_codex_session_body i session_id path from now reg = Inr (answer, Some reg') \<Longrightarrow> wf_registry reg'" for i session_id path "from" now answer
    using wf by (auto simp: bind_codex_session_body_def Let_def unbind_others_view split: sum.splits option.splits)
  show ?thesis
    using body wf by (cases x) (auto dest: codex simp: unanswer_Inr get_or_create_body_def create_session_def mark_backend_body_def
      update_instance_meta_body_def bind_provider_session_config_body_def mark_spawned_body_def clear_session_body_def record_heartbeat_body_def
      rotate_session_body_def bind_task_stage_session_body_def activate_task_stage_session_body_def seal_task_stage_session_body_def
      archive_task_stage_session_body_def observe_codex_session_body_def project_session_wf res_bind_Inr map_sum_Inr Let_def
      split: option.splits if_splits)
qed

context session_file
begin

lemma run_advances:
  assumes "load_registry f = Inr reg" "wf_registry reg" "all_placed (registry_view reg)"
  shows "\<exists>reg'. load_registry (session_run yaml root ops f) = Inr reg' \<and> wf_registry reg' \<and> all_placed (registry_view reg')
    \<and> all_advance (registry_view reg) (registry_view reg')"
proof -
  let ?P = "\<lambda>w. all_placed w \<and> all_advance (registry_view reg) w"
  have "holds ?P f" using assms unchanged_step [of "registry_view reg" "registry_view reg"] by (simp add: holds_def)
  then have "holds ?P (snd (run_steps (session_exec yaml root) ops f))"
  proof (rule run_holds [rotated])
    fix x f r f'
    assume start: "holds ?P f" and run: "session_exec yaml root x f = Inr (r, f')"
    show "holds ?P f'"
    proof (rule rmw_holds [OF start run [unfolded session_exec_def]])
      fix d d'
      assume d: "wf_registry d" "?P (registry_view d)" "session_body root x d = Inr (r, Some d')"
      then have body: "session_body root x d = Inr ((), Some d')" by simp
      show "wf_registry d' \<and> ?P (registry_view d')"
        using body_wf [OF d(1) body] body_step [OF d(1) _ body] d(2) all_advance_trans by blast
    qed
  qed
  then show ?thesis by (auto simp: holds_def session_run_def)
qed

end

text \<open>C12: A binding of a task stage only moves forward. Whatever happens to the registry after a binding was made, the binding stays, its history of
  placements is extended and never rewritten, with strictly increasing epochs, so that an epoch never has two instances; its role configuration
  and workspace generation stay the same; and only the instance of the last placement can activate it.\<close>

theorem placements_only_advance:
  assumes "\<forall>v. yaml v = sorted_json v" "load_registry (session_run yaml root ops None) = Inr reg" "map_of (rr_bindings reg) key = Some b"
  shows "\<exists>reg' b' ps ps'. load_registry (session_run yaml root (ops @ later) None) = Inr reg' \<and> map_of (rr_bindings reg') key = Some b'
    \<and> placements b = Some ps \<and> ps \<noteq> [] \<and> placements b' = Some (ps @ ps') \<and> sorted_wrt (<) (map fst (ps @ ps'))
    \<and> sget b' ''role_config_digest'' = sget b ''role_config_digest'' \<and> dict_get b' ''workspace_generation'' = dict_get b ''workspace_generation''
    \<and> (\<forall>i now r. strip key = key \<and> activate_task_stage_session_body key i now reg' = Inr r \<longrightarrow> strip i = snd (last (ps @ ps')))"
proof -
  have yf: "session_file yaml" using assms(1) by (simp add: session_file_def)
  have empty: "load_registry None = Inr empty_registry" "wf_registry empty_registry" "all_placed (registry_view empty_registry)"
    by (simp_all add: load_registry_def empty_registry_def wf_registry_def all_placed_def registry_view_def)
  have reg: "wf_registry reg" "all_placed (registry_view reg)" using session_file.run_advances [OF yf empty, of root ops] assms(2) by auto
  from session_file.run_advances [OF yf assms(2) reg, of root later]
  obtain reg' where reg': "load_registry (session_run yaml root (ops @ later) None) = Inr reg'" "all_placed (registry_view reg')"
    "all_advance (registry_view reg) (registry_view reg')" by (auto simp: session_run_append)
  have view: "snd (registry_view reg) key = Some (fields_view b)" using assms(3) by (simp add: registry_view_def)
  with reg'(3) obtain b' where b': "map_of (rr_bindings reg') key = Some b'" "advances (fields_view b) (fields_view b')"
    unfolding all_advance_def by (fastforce simp: registry_view_def)
  then have "snd (registry_view reg') key = Some (fields_view b')" by (simp add: registry_view_def)
  with reg'(2) reg(2) view have placed: "placed_binding (fields_view b)" "placed_binding (fields_view b')" by (simp_all add: all_placed_def)
  obtain d g where "fields_view b ''role_config_digest'' = Some (JStr d)" "fields_view b ''workspace_generation'' = Some (JInt g)"
    using placed(1) by (auto simp: placed_binding_def)
  then have frozen: "map_of b ''role_config_digest'' = Some (JStr d)" "map_of b' ''role_config_digest'' = Some (JStr d)"
    "map_of b ''workspace_generation'' = Some (JInt g)" "map_of b' ''workspace_generation'' = Some (JInt g)"
    using b'(2) by (simp_all add: advances_def flip: fields_scalar)
  obtain ps ps' where ps: "placements b = Some ps" "placements b' = Some (ps @ ps')" using b'(2) by (auto simp: advances_def placements_view)
  have current: "sget b' ''current_role_instance'' = snd (last (ps @ ps'))" using placed(2) ps(2) by (auto simp: placed_fields sget_string)
  have "strip i = snd (last (ps @ ps'))" if "strip key = key" "activate_task_stage_session_body key i now reg' = Inr r" for i now r
    using that b'(1) current by (auto simp: activate_task_stage_session_body_def Let_def split: if_splits)
  moreover have "ps \<noteq> []" "sorted_wrt (<) (map fst (ps @ ps'))" using placed ps by (auto simp: placed_fields)
  moreover have "sget b' ''role_config_digest'' = sget b ''role_config_digest''" "dict_get b' ''workspace_generation'' = dict_get b ''workspace_generation''"
    using frozen by (simp_all add: sget_string dict_get_def)
  ultimately show ?thesis using reg'(1) b'(1) ps by blast
qed

definition demo_stage_id :: stage_identity where
  "demo_stage_id = \<lparr>sg_workflow_run_id = ''R'', sg_task_id = ''T'', sg_stage = ''impl'', sg_rework_affinity_id = ''A''\<rparr>"

definition demo_placement :: "int \<Rightarrow> string \<Rightarrow> stage_placement" where
  "demo_placement n i = \<lparr>pl_role_instance = i, pl_role_config_digest = ''d'', pl_workspace_generation = 1, pl_placement_epoch = n, pl_backend = ''codex''\<rparr>"

definition demo_stage_key :: string where
  "demo_stage_key = ''task-stage-'' @ take 24 (sha256_hex ''R|T|impl|A'')"

lemma demo_stage_bound:
  "\<exists>reg b. load_registry (session_run sorted_json ''/p'' [BindStage demo_stage_id (demo_placement 1 ''dev-1'') ''t1''] None) = Inr reg
     \<and> map_of (rr_bindings reg) demo_stage_key = Some b"
proof -
  let ?reg = "set_binding demo_stage_key (place_binding (demo_placement 1 ''dev-1'') ''t1'' []
    (new_binding ''/p'' demo_stage_key demo_stage_id (demo_placement 1 ''dev-1'') ''t1'')) empty_registry"
  have "map strip [''R'', ''T'', ''impl'', ''A''] = [''R'', ''T'', ''impl'', ''A'']" "map strip [''dev-1'', ''d''] = [''dev-1'', ''d'']" by code_simp+
  then have "session_exec sorted_json ''/p'' (BindStage demo_stage_id (demo_placement 1 ''dev-1'') ''t1'') None = Inr ((), save_registry sorted_json ''/p'' ?reg)"
    by (simp add: session_exec_def locked_rmw_def load_registry_def unanswer_def bind_task_stage_session_body_def missing_fields_of_def demo_stage_id_def
        demo_placement_def task_stage_binding_key_def stage_values_def demo_stage_key_def empty_registry_def new_binding_def py_or_def py_list_def
        check_epoch_def Let_def)
  then show ?thesis
    by (simp add: session_run_def attempt_step_def yaml_file.reload set_binding_def empty_registry_def map_of_on_val map_of_sorted)
qed

theorem placements_only_advance_witness:
  "\<exists>reg reg' b b' ps ps'.
     load_registry (session_run sorted_json ''/p'' [BindStage demo_stage_id (demo_placement 1 ''dev-1'') ''t1''] None) = Inr reg
     \<and> map_of (rr_bindings reg) demo_stage_key = Some b
     \<and> load_registry (session_run sorted_json ''/p'' ([BindStage demo_stage_id (demo_placement 1 ''dev-1'') ''t1'']
          @ [BindStage demo_stage_id (demo_placement 2 ''dev-2'') ''t2'', SealStage demo_stage_id ''t3'']) None) = Inr reg'
     \<and> map_of (rr_bindings reg') demo_stage_key = Some b' \<and> placements b = Some ps \<and> placements b' = Some (ps @ ps')"
proof -
  obtain reg b where start: "load_registry (session_run sorted_json ''/p'' [BindStage demo_stage_id (demo_placement 1 ''dev-1'') ''t1''] None) = Inr reg"
    "map_of (rr_bindings reg) demo_stage_key = Some b" using demo_stage_bound by blast
  show ?thesis using placements_only_advance [OF _ start, of "[BindStage demo_stage_id (demo_placement 2 ''dev-2'') ''t2'', SealStage demo_stage_id ''t3'']"] start
    by blast
qed

section \<open>What the methods do not check\<close>

text \<open>An archived binding cannot be bound or activated, but it can be sealed again, and then it can.\<close>

lemma archived_binding_revived:
  assumes "task_stage_binding_key g = Inr key" "map_of (rr_bindings reg) key = Some b" "dict_get b ''status'' = JStr ''archived''"
    "sget b ''role_config_digest'' = strip (pl_role_config_digest pl)" "int_or_zero b ''workspace_generation'' = Inr (pl_workspace_generation pl)"
  shows "\<exists>answer b'. seal_task_stage_session_body g now reg = Inr (answer, Some (set_binding key b' reg))
    \<and> check_binding pl b = Inl (ValueError ''task-stage session binding is archived'') \<and> check_binding pl b' = Inr ()"
  by (intro exI [of _ "map_sum id Some (copy_binding (dict_set (dict_set b ''status'' (JStr ''sealed'')) ''sealed_at'' (JStr now)))"]
      exI [of _ "dict_set (dict_set b ''status'' (JStr ''sealed'')) ''sealed_at'' (JStr now)"])
    (use assms in \<open>simp add: seal_task_stage_session_body_def check_binding_def Let_def int_or_zero_def\<close>)

text \<open>An instance keeps the mark of the binding it activated last, also when the binding was placed elsewhere. A session it is observed with
  later replaces the session of the binding.\<close>

lemma unbind_others_bindings: "rr_bindings (unbind_others now reason i u reg) = rr_bindings reg"
proof -
  have "rr_bindings (fold (\<lambda>kv. if fst kv \<noteq> i \<and> snd kv = u then unbind_one now reason (fst kv) else id) es reg) = rr_bindings reg" for es
    by (induction es arbitrary: reg) (simp_all add: unbind_one_def)
  then show ?thesis by (simp add: unbind_others_def)
qed

lemma late_observation_takes_binding:
  assumes "parse_uuid session_id = Inr u" "sget (meta_of reg i) ''active_task_stage_binding_key'' = key" "map_of (rr_bindings reg) key = Some b"
    "sget b ''current_role_instance'' \<noteq> i"
  shows "\<exists>reg' b'. bind_codex_session_body i session_id None from now reg = Inr (True, Some reg') \<and> map_of (rr_bindings reg') key = Some b'
    \<and> sget b' ''session_id'' = u \<and> sget b' ''provider_session_role_instance'' = i \<and> sget b' ''current_role_instance'' \<noteq> i"
proof -
  have "sget (dict_update (meta_of reg i) [(''backend'', JStr ''codex''), (''observed_at'', JStr now), (''observed_from'', JStr from)])
      ''active_task_stage_binding_key'' = key"
    using assms(2) by (simp add: sget_def dict_get_def map_of_dict_update)
  then obtain m where "bind_codex_session_body i session_id None from now reg = Inr (True, Some (set_entry i u
      (unbind_others now ''codex_session_rebound'' i u (set_binding key (observed_binding i u None now b) (set_meta i m reg)))))"
    using assms(1,3) by (simp add: bind_codex_session_body_def Let_def)
  moreover have "sget (observed_binding i u None now b) ''session_id'' = u" "sget (observed_binding i u None now b) ''provider_session_role_instance'' = i"
    by (rule sget_string, simp add: observed_binding_def map_of_dict_update)+
  moreover have "sget (observed_binding i u None now b) ''current_role_instance'' = sget b ''current_role_instance''"
    by (simp add: observed_binding_def sget_def dict_get_def map_of_dict_update)
  ultimately show ?thesis using assms(4) by (simp add: unbind_others_bindings) (simp add: set_binding_def update_conv')
qed

text \<open>A changed provider configuration ends the session of the instance: it has no session afterwards, and the counter is raised, so that the next one
  is derived from another name.\<close>

lemma changed_config_recycles:
  assumes "bind_provider_session_config_body i digest ref explicit now reg = Inr (answer, Some reg')"
    "sget (meta_of reg i) ''provider_session_config_digest'' \<notin> {[], digest}"
  shows "map_of (rr_entries reg') i = None"
    "\<exists>n. int_of_json (get_default (meta_of reg i) ''rotation_counter'' (JInt 0)) = Inr n
       \<and> get_default (meta_of reg' i) ''rotation_counter'' (JInt 0) = JInt (n + 1)"
proof -
  have reason: "recycle_reason (meta_of reg i) digest explicit = ''provider_session_config_changed''" using assms(2) by (auto simp: recycle_reason_def Let_def)
  with assms(1) obtain n m where n: "int_of_json (get_default (meta_of reg i) ''rotation_counter'' (JInt 0)) = Inr n"
    "reg' = set_meta i m (pop_entry i reg)" "map_of m ''rotation_counter'' = Some (JInt (n + 1))"
    by (auto simp: bind_provider_session_config_body_def res_bind_Inr Let_def map_of_dict_update recycled_meta_def split: if_splits)
  then show "map_of (rr_entries reg') i = None" using map_of_filter_key [of "filter (\<lambda>kv. fst kv \<noteq> i) (rr_entries reg)" i] by (simp add: pop_entry_def)
  show "\<exists>n. int_of_json (get_default (meta_of reg i) ''rotation_counter'' (JInt 0)) = Inr n
       \<and> get_default (meta_of reg' i) ''rotation_counter'' (JInt 0) = JInt (n + 1)"
    using n by (simp add: get_default_def meta_of_def set_meta_def update_conv')
qed

end
