(* ===== verification/Worker_State.thy ===== *)
theory Worker_State
  imports Run_Scope Role_Sessions
begin

text \<open>
  \<open>runtime/worker_state_runtime.py\<close> with the window of \<open>runtime/event_window.py\<close> and the mirror of worker states in \<open>runtime/housekeeping.py\<close>: whether
  a worker is free. The orchestrator keeps the state and the current task of each worker in memory, records every change as an event, and rebuilds
  both from the log when it starts. A change that belongs to an older task does not release a worker that has a newer one. Worker states are
  also written at the start of the orchestrator (\<open>runtime/orchestrator.py\<close>), by the reactor (\<open>runtime/orchestrator_reactor.py\<close>) and by two
  commands (\<open>cli/agents.py\<close>, \<open>cli/start.py\<close>), which do not keep to this order. The writer of events is an
  argument that gives the event as written, or nothing when it raises; the day of a timestamp is an argument, and \<open>None\<close> when it cannot be read.
\<close>

section \<open>The window of a recovery\<close>

definition runtime_event_window_days :: "int option \<Rightarrow> int \<Rightarrow> int" where
  "runtime_event_window_days started today =
     (let days = (case started of None \<Rightarrow> 2 | Some d \<Rightarrow> today - d + 1) in max 2 (min 14 days))"

definition in_window :: "(json \<Rightarrow> int option) \<Rightarrow> int option \<Rightarrow> int \<Rightarrow> zf_event \<Rightarrow> bool" where
  "in_window day_of started today e \<longleftrightarrow>
     (case day_of (ev_ts e) of None \<Rightarrow> True | Some d \<Rightarrow> today - (runtime_event_window_days started today - 1) \<le> d)"

definition read_runtime_events :: "(json \<Rightarrow> int option) \<Rightarrow> int option \<Rightarrow> int \<Rightarrow> zf_event list \<Rightarrow> zf_event list" where
  "read_runtime_events day_of started today events = filter (in_window day_of started today) events"

section \<open>Worker states\<close>

definition TASK_GENERATION_GUARDED_STATES :: "string list" where
  "TASK_GENERATION_GUARDED_STATES = [''idle'', ''awaiting_review'', ''completion_pending'', ''blocked_human'']"

definition TASK_GENERATION_RELEASE_STATES :: "string list" where
  "TASK_GENERATION_RELEASE_STATES = [''idle'', ''awaiting_review'']"

definition events_after_latest_graceful_stop :: "zf_event list \<Rightarrow> zf_event list" where
  "events_after_latest_graceful_stop events = rev (takeWhile (\<lambda>e. ev_type e \<noteq> JStr ''loop.stopped'') (rev events))"

record worker_tracking =
  wt_states :: "(string \<times> string) list"
  wt_task_ids :: "(string \<times> string) list"

definition current_task :: "worker_tracking \<Rightarrow> string \<Rightarrow> string" where
  "current_task ws i = (case map_of (wt_task_ids ws) i of None \<Rightarrow> [] | Some t \<Rightarrow> t)"

record state_change =
  tr_instance_id :: string
  tr_state :: string
  tr_task_id :: string
  tr_override :: bool

definition guarded :: "state_change \<Rightarrow> worker_tracking \<Rightarrow> bool" where
  "guarded tr ws \<longleftrightarrow>
     (let current = current_task ws (tr_instance_id tr) in
      current \<noteq> [] \<and> tr_state tr \<in> set TASK_GENERATION_GUARDED_STATES \<and> tr_task_id tr \<noteq> current \<and> \<not> tr_override tr)"

definition fold_worker_transition :: "state_change \<Rightarrow> worker_tracking \<Rightarrow> worker_tracking" where
  "fold_worker_transition tr ws =
     (let i = tr_instance_id tr; current = current_task ws i in
      if guarded tr ws then ws
      else \<lparr>wt_states = AList.update i (tr_state tr) (wt_states ws),
            wt_task_ids =
              (if tr_task_id tr \<noteq> [] \<and> tr_state tr \<notin> set TASK_GENERATION_RELEASE_STATES then AList.update i (tr_task_id tr) (wt_task_ids ws)
               else if tr_state tr \<in> set TASK_GENERATION_RELEASE_STATES \<and> (tr_override tr \<or> current = [] \<or> tr_task_id tr = current) then
                 filter (\<lambda>kv. fst kv \<noteq> i) (wt_task_ids ws)
               else wt_task_ids ws)\<rparr>)"

definition event_transition :: "zf_event \<Rightarrow> state_change" where
  "event_transition e =
     (let p = payload_of e in
      \<lparr>tr_instance_id = text_of (ev_actor e), tr_state = sget_or p ''to'' ''idle'',
       tr_task_id = text_of (py_or (ev_task_id e) (dict_get p ''task_id'')), tr_override = truthy (dict_get p ''generation_override'')\<rparr>)"

text \<open>The loop of the constructor reads the payload without the check it made for it, so a payload that is not a dict raises.\<close>

fun track_events :: "zf_event list \<Rightarrow> worker_tracking \<Rightarrow> worker_tracking res" where
  "track_events [] ws = Inr ws"
| "track_events (e # es) ws =
     (if ev_type e \<noteq> JStr ''worker.state.changed'' \<or> \<not> truthy (ev_actor e) then track_events es ws
      else if \<not> is_dict (ev_payload e) then Inl (AttributeError ''get'')
      else track_events es (fold_worker_transition (event_transition e) ws))"

definition init_worker_state_tracking :: "zf_event list \<Rightarrow> worker_tracking res" where
  "init_worker_state_tracking events = track_events (events_after_latest_graceful_stop events) \<lparr>wt_states = [], wt_task_ids = []\<rparr>"

section \<open>The mirror in the session registry\<close>

definition previous_heartbeat :: "string \<Rightarrow> string \<Rightarrow> string \<Rightarrow> role_registry \<Rightarrow> pydict" where
  "previous_heartbeat i new_state task reg =
     (if task = [] \<and> lower new_state \<notin> {''idle'', ''awaiting_review''} then
        (case snd (get_last_heartbeat reg i) of None \<Rightarrow> [] | Some p \<Rightarrow> p)
      else [])"

definition mirrored_task :: "string \<Rightarrow> pydict \<Rightarrow> string" where
  "mirrored_task task previous =
     (if task = [] \<and> strip (sget previous ''source'') \<in> {''task.dispatched'', ''fanout.child.dispatched''} then
        strip (sget_first previous [''current_task_id'', ''task_id''])
      else task)"

definition copy_truthy :: "pydict \<Rightarrow> string list \<Rightarrow> pydict \<Rightarrow> pydict" where
  "copy_truthy source ks d =
     fold (\<lambda>k acc. if truthy (dict_get source k) \<and> \<not> has_key acc k then dict_set acc k (dict_get source k) else acc) ks d"

definition heartbeat_payload :: "zf_event \<Rightarrow> string \<Rightarrow> string \<Rightarrow> string \<Rightarrow> pydict \<Rightarrow> pydict" where
  "heartbeat_payload e i new_state task previous =
     (let base = copy_truthy (payload_of e) [''from'', ''reason'']
            [(''instance_id'', JStr i), (''current_task_id'', JStr task), (''state'', JStr new_state), (''last_action_ts'', ev_ts e),
             (''source'', JStr ''worker.state.changed'')]
      in if task \<noteq> [] \<and> previous \<noteq> [] then
           copy_truthy previous [''dispatch_id'', ''run_id'', ''role'', ''role_instance'', ''fanout_id'', ''child_id'', ''stage_id''] base
         else base)"

definition mirror_instance :: "zf_event \<Rightarrow> string" where
  "mirror_instance e = strip (text_of (py_or (dict_get (payload_of e) ''instance_id'') (ev_actor e)))"

definition mirror_state :: "zf_event \<Rightarrow> string" where
  "mirror_state e = strip (sget_first (payload_of e) [''to'', ''state''])"

text \<open>Any failure of the registry is ignored.\<close>

definition apply_worker_state_changed_event :: "(json \<Rightarrow> json) \<Rightarrow> string \<Rightarrow> string \<Rightarrow> zf_event \<Rightarrow> json option \<Rightarrow> json option" where
  "apply_worker_state_changed_event yaml root now e f =
     (let i = mirror_instance e; new_state = mirror_state e;
          task = strip (text_of (py_or (ev_task_id e) (dict_get (payload_of e) ''task_id'')))
      in if ev_type e \<noteq> JStr ''worker.state.changed'' \<or> i = [] \<or> new_state = [] then f
         else (case load_registry f of
            Inl _ \<Rightarrow> f
          | Inr reg \<Rightarrow>
              (let previous = previous_heartbeat i new_state task reg;
                   payload = heartbeat_payload e i new_state (mirrored_task task previous) previous
               in case session_exec yaml root (Heartbeat i payload now) f of Inl _ \<Rightarrow> f | Inr (_, f') \<Rightarrow> f')))"

section \<open>Changes\<close>

record worker_env =
  we_yaml :: "json \<Rightarrow> json"
  we_root :: string
  we_now :: "nat \<Rightarrow> string"
  we_fresh :: "nat \<Rightarrow> fresh"
  we_write :: "zf_event list \<Rightarrow> zf_event \<Rightarrow> zf_event option"

record worker_runtime =
  wr_tracking :: worker_tracking
  wr_log :: "zf_event list"
  wr_registry :: "json option"

record state_request =
  sr_instance_id :: string
  sr_state :: string
  sr_reason :: string
  sr_task_id :: string
  sr_force :: bool
  sr_extra :: pydict

definition request_transition :: "state_request \<Rightarrow> state_change" where
  "request_transition r =
     \<lparr>tr_instance_id = sr_instance_id r, tr_state = sr_state r, tr_task_id = sr_task_id r, tr_override = sr_force r\<rparr>"

definition tracked_state :: "worker_tracking \<Rightarrow> string \<Rightarrow> string" where
  "tracked_state ws i = (case map_of (wt_states ws) i of None \<Rightarrow> ''idle'' | Some s \<Rightarrow> s)"

text \<open>Nothing is recorded when the state stays and no other task is named.\<close>

definition no_change :: "state_request \<Rightarrow> worker_tracking \<Rightarrow> bool" where
  "no_change r ws \<longleftrightarrow>
     (let current = current_task ws (sr_instance_id r) in
      tracked_state ws (sr_instance_id r) = sr_state r \<and> \<not> sr_force r
      \<and> (sr_task_id r = [] \<or> current = sr_task_id r \<or> current = [] \<and> sr_state r \<in> set TASK_GENERATION_RELEASE_STATES))"

definition with_defaults :: "pydict \<Rightarrow> pydict \<Rightarrow> pydict" where
  "with_defaults extra d = fold (\<lambda>kv acc. if has_key acc (fst kv) then acc else acc @ [kv]) extra d"

definition state_payload :: "state_request \<Rightarrow> worker_tracking \<Rightarrow> pydict" where
  "state_payload r ws =
     with_defaults (sr_extra r)
       ([(''instance_id'', JStr (sr_instance_id r)), (''from'', JStr (tracked_state ws (sr_instance_id r))), (''to'', JStr (sr_state r)),
         (''reason'', JStr (sr_reason r))]
        @ (if sr_task_id r \<noteq> [] then [(''task_id'', JStr (sr_task_id r))] else [])
        @ (if sr_force r then [(''generation_override'', JBool True)] else []))"

definition state_event :: "worker_env \<Rightarrow> state_request \<Rightarrow> worker_runtime \<Rightarrow> zf_event" where
  "state_event env r st =
     (new_event (we_fresh env (length (wr_log st))) ''worker.state.changed'')
       \<lparr>ev_actor := JStr (sr_instance_id r), ev_task_id := (if sr_task_id r = [] then JNull else JStr (sr_task_id r)),
        ev_payload := JObj (state_payload r (wr_tracking st))\<rparr>"

definition set_worker_state :: "worker_env \<Rightarrow> state_request \<Rightarrow> worker_runtime \<Rightarrow> worker_runtime" where
  "set_worker_state env r st =
     (if guarded (request_transition r) (wr_tracking st) \<or> no_change r (wr_tracking st) then st
      else
        (let st' = st\<lparr>wr_tracking := fold_worker_transition (request_transition r) (wr_tracking st)\<rparr> in
         case we_write env (wr_log st) (state_event env r st) of
           None \<Rightarrow> st'
         | Some emitted \<Rightarrow>
             st'\<lparr>wr_log := wr_log st @ [emitted],
                 wr_registry := apply_worker_state_changed_event (we_yaml env) (we_root env) (we_now env (length (wr_log st))) emitted (wr_registry st)\<rparr>))"

text \<open>The view of the operator: the fold over the roles of the configuration.\<close>

definition health_step :: "zf_event \<Rightarrow> worker_tracking \<Rightarrow> worker_tracking" where
  "health_step e ws =
     (if ev_type e = JStr ''worker.state.changed'' \<and> text_of (ev_actor e) \<in> fst ` set (wt_states ws) then fold_worker_transition (event_transition e) ws
      else ws)"

definition worker_health :: "string list \<Rightarrow> zf_event list \<Rightarrow> (string \<times> string) list" where
  "worker_health instances events =
     wt_states (fold health_step (events_after_latest_graceful_stop events)
       \<lparr>wt_states = map (\<lambda>i. (i, ''idle'')) (fromkeys instances), wt_task_ids = []\<rparr>)"

text \<open>A stage event releases the worker that sent it, unless the worker has another task by now.\<close>

definition release_target :: "zf_event \<Rightarrow> string" where
  "release_target e =
     (if strip (sget (payload_of e) ''task_pipeline_stage'') \<noteq> [] then ''idle''
      else if ev_type e = JStr ''dev.blocked'' then ''blocked_human''
      else if ev_type e \<in> {JStr ''dev.build.done'', JStr ''arch.proposal.done''} then ''awaiting_review''
      else ''idle'')"

definition release_stage_actor_liveness :: "worker_env \<Rightarrow> zf_event \<Rightarrow> worker_runtime \<Rightarrow> worker_runtime" where
  "release_stage_actor_liveness env e st =
     (let actor = strip (text_of (ev_actor e)); current = current_task (wr_tracking st) actor; completed = text_of (ev_task_id e) in
      if actor = [] \<or> actor \<in> {''zf-cli'', ''orchestrator''} then st
      else if current \<noteq> [] \<and> current \<noteq> completed then st
      else set_worker_state env
        \<lparr>sr_instance_id = actor, sr_state = release_target e,
         sr_reason = py_str (ev_type e) @ '' for task '' @ py_str (ev_task_id e), sr_task_id = completed, sr_force = True, sr_extra = []\<rparr> st)"

section \<open>The other writers of worker states\<close>

text \<open>A start of the orchestrator frees the workers that wait for the operator: it writes an event for each, which names no task, and changes the
  state in memory, also when the event cannot be written.\<close>

definition change_event :: "fresh \<Rightarrow> string \<Rightarrow> pydict \<Rightarrow> zf_event" where
  "change_event fresh actor payload = (new_event fresh ''worker.state.changed'')\<lparr>ev_actor := JStr actor, ev_payload := JObj payload\<rparr>"

definition clear_payload :: "string \<Rightarrow> pydict" where
  "clear_payload i =
     [(''instance_id'', JStr i), (''from'', JStr ''blocked_human''), (''to'', JStr ''idle''),
      (''reason'', JStr ''blocked_human cleared on fresh Orchestrator init (zf start = operator intervention)'')]"

definition written :: "worker_env \<Rightarrow> zf_event \<Rightarrow> worker_runtime \<Rightarrow> worker_runtime" where
  "written env e st = (case we_write env (wr_log st) e of None \<Rightarrow> st | Some emitted \<Rightarrow> st\<lparr>wr_log := wr_log st @ [emitted]\<rparr>)"

definition remember_state :: "string \<Rightarrow> string \<Rightarrow> worker_runtime \<Rightarrow> worker_runtime" where
  "remember_state i s st = st\<lparr>wr_tracking := (wr_tracking st)\<lparr>wt_states := AList.update i s (wt_states (wr_tracking st))\<rparr>\<rparr>"

definition clear_instance :: "worker_env \<Rightarrow> string \<Rightarrow> worker_runtime \<Rightarrow> worker_runtime" where
  "clear_instance env i st =
     remember_state i ''idle'' (written env (change_event (we_fresh env (length (wr_log st))) i (clear_payload i)) st)"

definition blocked_instances :: "worker_tracking \<Rightarrow> string list" where
  "blocked_instances ws = map fst (filter (\<lambda>kv. snd kv = ''blocked_human'') (wt_states ws))"

definition clear_blocked_human :: "worker_env \<Rightarrow> worker_runtime \<Rightarrow> worker_runtime" where
  "clear_blocked_human env st = fold (clear_instance env) (blocked_instances (wr_tracking st)) st"

text \<open>The reactor takes over the state of every event it is given, without the guard; the worker is the one the payload names. Its bookkeeping for
  recycling and for the circuit of respawns is not modelled.\<close>

definition handled_instance :: "zf_event \<Rightarrow> string" where
  "handled_instance e = strip (sget_first (payload_of e) [''instance_id'', ''role''])"

definition handled_state :: "zf_event \<Rightarrow> string" where
  "handled_state e = strip (sget (payload_of e) ''to'')"

definition on_worker_state_changed_event :: "zf_event \<Rightarrow> worker_runtime \<Rightarrow> worker_runtime" where
  "on_worker_state_changed_event e st =
     (if handled_instance e \<noteq> [] \<and> handled_state e \<noteq> [] then remember_state (handled_instance e) (handled_state e) st else st)"

text \<open>The command \<open>zf agents unblock\<close> and the start of a pane write to the log beside the orchestrator.\<close>

definition unblock_event :: "fresh \<Rightarrow> string \<Rightarrow> string \<Rightarrow> zf_event" where
  "unblock_event fresh i reason =
     change_event fresh ''operator''
       [(''instance_id'', JStr i), (''role'', JStr i), (''from'', JStr ''blocked_human''), (''to'', JStr ''idle''), (''reason'', JStr reason),
        (''source'', JStr ''zf_agents_unblock'')]"

definition ready_event :: "fresh \<Rightarrow> string \<Rightarrow> string \<Rightarrow> zf_event" where
  "ready_event fresh i previous =
     change_event fresh i
       [(''instance_id'', JStr i), (''from'', JStr previous), (''to'', JStr ''idle''), (''reason'', JStr ''worker pane ready on zf start'')]"

definition ready_heartbeat :: "fresh \<Rightarrow> string \<Rightarrow> bool \<Rightarrow> pydict" where
  "ready_heartbeat fresh i changed =
     [(''instance_id'', JStr i), (''state'', JStr ''idle''), (''current_task_id'', JStr []), (''last_action_ts'', JStr (snd fresh)),
      (''source'', JStr (if changed then ''worker.state.changed'' else ''zf.start.ready'')), (''reason'', JStr ''worker pane ready on zf start'')]"

text \<open>The argument is the log and the registry file. The event is written before the heartbeat: it stays when the registry then cannot be written.\<close>

definition record_ready_worker_state :: "worker_env \<Rightarrow> string \<Rightarrow> zf_event list \<times> json option \<Rightarrow> (zf_event list \<times> json option) \<times> unit res" where
  "record_ready_worker_state env i lf =
     (if i = [] then (lf, Inr ())
      else
        (case load_registry (snd lf) of
           Inl e \<Rightarrow> (lf, Inl e)
         | Inr reg \<Rightarrow>
             let previous = (case snd (get_last_heartbeat reg i) of None \<Rightarrow> [] | Some p \<Rightarrow> sget p ''state'');
                 fresh = we_fresh env (length (fst lf));
                 log = (if previous \<noteq> ''idle'' then fst lf @ [ready_event fresh i previous] else fst lf) in
             if previous \<noteq> [] \<and> previous \<noteq> ''idle'' \<and> previous \<notin> {''respawning'', ''blocked_human'', ''pending_recycle'', ''recycling'', ''stuck''}
             then (lf, Inr ())
             else
               (case session_exec (we_yaml env) (we_root env) (Heartbeat i (ready_heartbeat fresh i (previous \<noteq> ''idle'')) (we_now env (length (fst lf)))) (snd lf) of
                  Inl e \<Rightarrow> ((log, snd lf), Inl e)
                | Inr (_, f') \<Rightarrow> ((log, f'), Inr ()))))"

section \<open>Histories\<close>

text \<open>Everything that can happen to the states of the workers between two starts: changes through the runtime, stage events, the clearing at the start, an
  event that is handed to the reactor, and any event that anybody else appends to the log.\<close>

datatype worker_op =
    SetState state_request
  | StageEvent zf_event
  | OtherEvent zf_event
  | ClearBlocked
  | Delivered zf_event

fun worker_step :: "worker_env \<Rightarrow> worker_op \<Rightarrow> worker_runtime \<Rightarrow> worker_runtime" where
  "worker_step env (SetState r) st = set_worker_state env r st"
| "worker_step env (StageEvent e) st = release_stage_actor_liveness env e st"
| "worker_step env (OtherEvent e) st = st\<lparr>wr_log := wr_log st @ [e]\<rparr>"
| "worker_step env ClearBlocked st = clear_blocked_human env st"
| "worker_step env (Delivered e) st = on_worker_state_changed_event e st"

definition worker_run :: "worker_env \<Rightarrow> worker_op list \<Rightarrow> worker_runtime \<Rightarrow> worker_runtime" where
  "worker_run env ops st = fold (worker_step env) ops st"

text \<open>An event that is written keeps its type, its actor, its task and its payload; it may also not be written at all.\<close>

definition faithful_append :: "worker_env \<Rightarrow> bool" where
  "faithful_append env \<longleftrightarrow>
     (\<forall>log e e'. we_write env log e = Some e' \<longrightarrow> ev_type e' = ev_type e \<and> ev_actor e' = ev_actor e \<and> ev_task_id e' = ev_task_id e
        \<and> ev_payload e' = ev_payload e)"

definition plain_request :: "state_request \<Rightarrow> bool" where
  "plain_request r \<longleftrightarrow> sr_instance_id r \<noteq> [] \<and> sr_state r \<noteq> [] \<and> \<not> has_key (sr_extra r) ''task_id'' \<and> \<not> has_key (sr_extra r) ''generation_override''"

text \<open>What must not be appended: the mark of a graceful stop, which starts the workers anew, and a change of state whose payload is not a dict, see
  \<open>start_fails_on_payload\<close>.\<close>

fun recoverable_op :: "worker_op \<Rightarrow> bool" where
  "recoverable_op (OtherEvent e) \<longleftrightarrow>
     ev_type e \<noteq> JStr ''loop.stopped'' \<and> (ev_type e = JStr ''worker.state.changed'' \<and> truthy (ev_actor e) \<longrightarrow> is_dict (ev_payload e))"
| "recoverable_op _ \<longleftrightarrow> True"

text \<open>The workers whose state an operation sets aside from the log: a change that is not written or whose extra payload changes its meaning, an event that somebody else writes, an
  event that brings the reactor to another state than the one it has, a cleared block of a worker that still has a task.\<close>

definition unrecorded :: "worker_env \<Rightarrow> state_request \<Rightarrow> worker_runtime \<Rightarrow> string set" where
  "unrecorded env r st =
     (if plain_request r \<and> we_write env (wr_log st) (state_event env r st) \<noteq> None then {} else {sr_instance_id r})"

definition stage_request :: "zf_event \<Rightarrow> state_request" where
  "stage_request e =
     \<lparr>sr_instance_id = strip (text_of (ev_actor e)), sr_state = release_target e,
      sr_reason = py_str (ev_type e) @ '' for task '' @ py_str (ev_task_id e), sr_task_id = text_of (ev_task_id e), sr_force = True, sr_extra = []\<rparr>"

definition clear_written :: "worker_env \<Rightarrow> string \<Rightarrow> zf_event list \<Rightarrow> bool" where
  "clear_written env i log \<longleftrightarrow> we_write env log (change_event (we_fresh env (length log)) i (clear_payload i)) \<noteq> None"

fun unclear :: "worker_env \<Rightarrow> string list \<Rightarrow> worker_runtime \<Rightarrow> string set" where
  "unclear env [] st = {}"
| "unclear env (i # is) st =
     (if i \<noteq> [] \<and> current_task (wr_tracking st) i = [] \<and> clear_written env i (wr_log st) then {} else {i}) \<union> unclear env is (clear_instance env i st)"

fun set_aside :: "worker_env \<Rightarrow> worker_op \<Rightarrow> worker_runtime \<Rightarrow> string set" where
  "set_aside env (SetState r) st = unrecorded env r st"
| "set_aside env (StageEvent e) st = unrecorded env (stage_request e) st"
| "set_aside env (OtherEvent e) st = (if ev_type e = JStr ''worker.state.changed'' then {text_of (ev_actor e)} else {})"
| "set_aside env ClearBlocked st = unclear env (blocked_instances (wr_tracking st)) st"
| "set_aside env (Delivered e) st = (if tracked_state (wr_tracking st) (handled_instance e) = handled_state e then {} else {handled_instance e})"

fun all_set_aside :: "worker_env \<Rightarrow> worker_op list \<Rightarrow> worker_runtime \<Rightarrow> string set" where
  "all_set_aside env [] st = {}"
| "all_set_aside env (x # ops) st = set_aside env x st \<union> all_set_aside env ops (worker_step env x st)"

section \<open>A restart finds the workers as they were\<close>

lemma after_stop_snoc:
  "ev_type e \<noteq> JStr ''loop.stopped'' \<Longrightarrow> events_after_latest_graceful_stop (log @ [e]) = events_after_latest_graceful_stop log @ [e]"
  by (simp add: events_after_latest_graceful_stop_def)

lemma track_events_append: "track_events (es @ es') ws = res_bind (track_events es ws) (track_events es')"
  by (induction es arbitrary: ws) simp_all

lemma init_snoc:
  "ev_type e \<noteq> JStr ''loop.stopped'' \<Longrightarrow>
   init_worker_state_tracking (log @ [e]) = res_bind (init_worker_state_tracking log) (track_events [e])"
  by (simp add: init_worker_state_tracking_def after_stop_snoc track_events_append)

lemma map_of_with_defaults: "map_of (with_defaults extra d) k = (case map_of d k of None \<Rightarrow> map_of extra k | Some v \<Rightarrow> Some v)"
proof -
  have "map_of (fold (\<lambda>kv acc. if has_key acc (fst kv) then acc else acc @ [kv]) extra d) k = (case map_of d k of None \<Rightarrow> map_of extra k | Some v \<Rightarrow> Some v)"
    by (induction extra arbitrary: d) (auto simp: has_key_def map_add_def split: option.splits)
  then show ?thesis by (simp add: with_defaults_def)
qed

lemma state_event_transition:
  assumes "plain_request r" "ev_actor e = JStr (sr_instance_id r)" "ev_task_id e = (if sr_task_id r = [] then JNull else JStr (sr_task_id r))"
    "ev_payload e = JObj (state_payload r ws)"
  shows "event_transition e = request_transition r"
proof -
  have to: "dict_get (state_payload r ws) ''to'' = JStr (sr_state r)"
    by (simp add: state_payload_def dict_get_def map_of_with_defaults)
  have task: "dict_get (state_payload r ws) ''task_id'' = (if sr_task_id r = [] then JNull else JStr (sr_task_id r))"
    using assms(1) by (auto simp: state_payload_def dict_get_def map_of_with_defaults plain_request_def has_key_def)
  have override: "truthy (dict_get (state_payload r ws) ''generation_override'') = sr_force r"
    using assms(1) by (auto simp: state_payload_def dict_get_def map_of_with_defaults plain_request_def has_key_def split: if_splits)
  show ?thesis using assms to task override
    by (auto simp: event_transition_def request_transition_def payload_of_def sget_or_def text_of_def py_or_def plain_request_def Let_def)
qed

text \<open>What is known of one worker, and how one event changes it.\<close>

definition worker_of :: "worker_tracking \<Rightarrow> string \<Rightarrow> string \<times> string" where
  "worker_of ws i = (tracked_state ws i, current_task ws i)"

definition next_worker :: "state_change \<Rightarrow> string \<times> string \<Rightarrow> string \<times> string" where
  "next_worker tr w =
     (if snd w \<noteq> [] \<and> tr_state tr \<in> set TASK_GENERATION_GUARDED_STATES \<and> tr_task_id tr \<noteq> snd w \<and> \<not> tr_override tr then w
      else (tr_state tr,
        if tr_task_id tr \<noteq> [] \<and> tr_state tr \<notin> set TASK_GENERATION_RELEASE_STATES then tr_task_id tr
        else if tr_state tr \<in> set TASK_GENERATION_RELEASE_STATES \<and> (tr_override tr \<or> snd w = [] \<or> tr_task_id tr = snd w) then []
        else snd w))"

lemma map_of_drop: "map_of (filter (\<lambda>kv. fst kv \<noteq> i) d) = (map_of d)(i := None)"
  by (induction d) auto

lemma worker_of_fold:
  "worker_of (fold_worker_transition tr ws) i = (if i = tr_instance_id tr then next_worker tr (worker_of ws i) else worker_of ws i)"
  by (auto simp: worker_of_def fold_worker_transition_def next_worker_def guarded_def tracked_state_def current_task_def Let_def update_conv' map_of_drop)

text \<open>The log tells of every worker, apart from some, what memory knows of it.\<close>

definition agrees :: "string set \<Rightarrow> worker_runtime \<Rightarrow> bool" where
  "agrees B st \<longleftrightarrow> (\<exists>ws. init_worker_state_tracking (wr_log st) = Inr ws \<and> (\<forall>i. i \<notin> B \<longrightarrow> worker_of ws i = worker_of (wr_tracking st) i))"

lemma agrees_append:
  assumes "agrees B st" "ev_type e = JStr ''worker.state.changed''" "ev_actor e = JStr i" "i \<noteq> []" "is_dict (ev_payload e)"
    and "\<And>j. j \<noteq> i \<Longrightarrow> worker_of ws' j = worker_of (wr_tracking st) j"
    and "i \<notin> B' \<Longrightarrow> worker_of ws' i = next_worker (event_transition e) (worker_of (wr_tracking st) i)" "B \<subseteq> B'"
  shows "agrees B' (st\<lparr>wr_tracking := ws', wr_log := wr_log st @ [e], wr_registry := f\<rparr>)"
proof -
  from assms(1) obtain ws where ws: "init_worker_state_tracking (wr_log st) = Inr ws" "\<And>j. j \<notin> B \<Longrightarrow> worker_of ws j = worker_of (wr_tracking st) j"
    by (auto simp: agrees_def)
  have inst: "tr_instance_id (event_transition e) = i" using assms(3) by (simp add: event_transition_def Let_def text_of_def)
  have "init_worker_state_tracking (wr_log st @ [e]) = Inr (fold_worker_transition (event_transition e) ws)"
    using assms(2-5) ws(1) by (simp add: init_snoc)
  moreover have "worker_of (fold_worker_transition (event_transition e) ws) j = worker_of ws' j" if "j \<notin> B'" for j
  proof -
    have "worker_of ws j = worker_of (wr_tracking st) j" using that assms(8) by (intro ws(2)) blast
    then show ?thesis using that assms(6,7) by (auto simp: worker_of_fold inst)
  qed
  ultimately show ?thesis by (auto simp: agrees_def)
qed

lemma agrees_memory:
  assumes "agrees B st" "\<And>j. j \<notin> B' \<Longrightarrow> worker_of (wr_tracking st') j = worker_of (wr_tracking st) j" "wr_log st' = wr_log st" "B \<subseteq> B'"
  shows "agrees B' st'"
  using assms by (auto simp: agrees_def)

lemma worker_of_set:
  "worker_of (wr_tracking (set_worker_state env r st)) i =
     (if guarded (request_transition r) (wr_tracking st) \<or> no_change r (wr_tracking st) \<or> i \<noteq> sr_instance_id r then worker_of (wr_tracking st) i
      else next_worker (request_transition r) (worker_of (wr_tracking st) i))"
  by (auto simp: set_worker_state_def worker_of_fold request_transition_def Let_def split: option.split)

lemma set_worker_state_agrees:
  assumes "faithful_append env" "agrees B st" "sr_instance_id r \<noteq> []"
  shows "agrees (B \<union> unrecorded env r st) (set_worker_state env r st)"
proof (cases "guarded (request_transition r) (wr_tracking st) \<or> no_change r (wr_tracking st)")
  case True
  then show ?thesis using assms(2) by (intro agrees_memory [OF assms(2)]) (auto simp: set_worker_state_def)
next
  case False
  let ?e = "state_event env r st" and ?ws = "fold_worker_transition (request_transition r) (wr_tracking st)"
  have inst: "tr_instance_id (request_transition r) = sr_instance_id r" by (simp add: request_transition_def)
  show ?thesis
  proof (cases "we_write env (wr_log st) ?e")
    case None
    then show ?thesis using False assms(2) inst
      by (intro agrees_memory [OF assms(2)]) (auto simp: set_worker_state_def unrecorded_def worker_of_fold Let_def)
  next
    case (Some e)
    then have e: "ev_type e = JStr ''worker.state.changed''" "ev_actor e = JStr (sr_instance_id r)"
      "ev_task_id e = (if sr_task_id r = [] then JNull else JStr (sr_task_id r))" "ev_payload e = JObj (state_payload r (wr_tracking st))"
      using assms(1) by (auto simp: faithful_append_def state_event_def new_event_def)
    have "event_transition e = request_transition r" if "sr_instance_id r \<notin> B \<union> unrecorded env r st"
      using that state_event_transition [OF _ e(2-4)] by (auto simp: unrecorded_def split: if_splits)
    then have "agrees (B \<union> unrecorded env r st) (st\<lparr>wr_tracking := ?ws, wr_log := wr_log st @ [e], wr_registry := f\<rparr>)" for f
      using e assms(3) by (intro agrees_append [OF assms(2) e(1,2)]) (auto simp: worker_of_fold inst)
    then show ?thesis using False Some by (simp add: set_worker_state_def Let_def)
  qed
qed

lemma worker_of_remember:
  "worker_of (wr_tracking (remember_state i s st)) j = (if j = i then (s, snd (worker_of (wr_tracking st) j)) else worker_of (wr_tracking st) j)"
  by (simp add: worker_of_def remember_state_def tracked_state_def current_task_def update_conv')

lemma log_remember [simp]: "wr_log (remember_state i s st) = wr_log st"
  by (simp add: remember_state_def)

lemma clear_instance_agrees:
  assumes "faithful_append env" "agrees B st"
  shows "agrees (B \<union> (if i \<noteq> [] \<and> current_task (wr_tracking st) i = [] \<and> clear_written env i (wr_log st) then {} else {i})) (clear_instance env i st)"
    (is "agrees ?B _")
proof -
  let ?e = "change_event (we_fresh env (length (wr_log st))) i (clear_payload i)"
  let ?ws = "(wr_tracking st)\<lparr>wt_states := AList.update i ''idle'' (wt_states (wr_tracking st))\<rparr>"
  have ws: "worker_of ?ws j = (if j = i then (''idle'', current_task (wr_tracking st) i) else worker_of (wr_tracking st) j)" for j
    using worker_of_remember [of i "''idle''" st j] by (simp add: remember_state_def worker_of_def)
  show ?thesis
  proof (cases "we_write env (wr_log st) ?e")
    case None
    then show ?thesis
      by (intro agrees_memory [OF assms(2)]) (auto simp: clear_instance_def written_def worker_of_remember clear_written_def)
  next
    case (Some e)
    then have e: "ev_type e = JStr ''worker.state.changed''" "ev_actor e = JStr i" "ev_task_id e = JNull" "ev_payload e = JObj (clear_payload i)"
      using assms(1) by (auto simp: faithful_append_def change_event_def new_event_def)
    have tr: "event_transition e = \<lparr>tr_instance_id = i, tr_state = ''idle'', tr_task_id = [], tr_override = False\<rparr>"
      using e by (simp add: event_transition_def payload_of_def clear_payload_def sget_or_def text_of_def py_or_def Let_def)
    have clear: "clear_instance env i st = st\<lparr>wr_tracking := ?ws, wr_log := wr_log st @ [e], wr_registry := wr_registry st\<rparr>"
      using Some by (simp add: clear_instance_def written_def remember_state_def)
    show ?thesis
    proof (cases "i = []")
      case True
      have "agrees ?B (st\<lparr>wr_tracking := ?ws, wr_log := wr_log st @ [e], wr_registry := wr_registry st\<rparr>)"
        using assms(2) e True ws by (auto simp: agrees_def init_snoc)
      then show ?thesis by (simp add: clear)
    next
      case False
      have "worker_of ?ws i = next_worker (event_transition e) (worker_of (wr_tracking st) i)" if "i \<notin> ?B"
        using that ws [of i] by (auto simp: next_worker_def tr worker_of_def TASK_GENERATION_RELEASE_STATES_def split: if_splits)
      then show ?thesis unfolding clear using e False ws by (intro agrees_append [OF assms(2) e(1,2)]) auto
    qed
  qed
qed

lemma clear_instances_agree:
  assumes "faithful_append env"
  shows "agrees B st \<Longrightarrow> agrees (B \<union> unclear env is st) (fold (clear_instance env) is st)"
proof (induction "is" arbitrary: B st)
  case (Cons i "is")
  from Cons.IH [OF clear_instance_agrees [OF assms Cons.prems]] show ?case by (simp only: unclear.simps fold_simps Un_assoc)
qed simp

lemma worker_step_agrees:
  assumes "faithful_append env" "recoverable_op x" "agrees B st"
  shows "agrees (B \<union> set_aside env x st) (worker_step env x st)"
proof (cases x)
  case (SetState r)
  show ?thesis
  proof (cases "sr_instance_id r = []")
    case False
    then show ?thesis using SetState set_worker_state_agrees assms by simp
  next
    case True
    from assms(3) obtain ws where "init_worker_state_tracking (wr_log st) = Inr ws" "\<forall>i. i \<notin> B \<longrightarrow> worker_of ws i = worker_of (wr_tracking st) i"
      by (auto simp: agrees_def)
    moreover have "worker_of (wr_tracking (set_worker_state env r st)) i = worker_of (wr_tracking st) i" if "i \<noteq> []" for i
      using that True by (simp add: worker_of_set)
    moreover have "init_worker_state_tracking (wr_log (set_worker_state env r st)) = Inr ws"
    proof (cases "we_write env (wr_log st) (state_event env r st)")
      case (Some e)
      then have "ev_type e = JStr ''worker.state.changed''" "ev_actor e = JStr []"
        using assms(1) True by (auto simp: faithful_append_def state_event_def new_event_def)
      then show ?thesis using Some calculation(1) by (simp add: set_worker_state_def init_snoc Let_def)
    qed (use calculation(1) in \<open>simp add: set_worker_state_def Let_def\<close>)
    ultimately show ?thesis using SetState True by (auto simp: agrees_def unrecorded_def plain_request_def)
  qed
next
  case (StageEvent e)
  then show ?thesis
    using set_worker_state_agrees [OF assms(1,3), of "stage_request e"] agrees_memory [OF assms(3), of "B \<union> unrecorded env (stage_request e) st" st]
    by (auto simp: release_stage_actor_liveness_def stage_request_def Let_def)
next
  case (OtherEvent e)
  from assms(3) obtain ws where "init_worker_state_tracking (wr_log st) = Inr ws" "\<forall>i. i \<notin> B \<longrightarrow> worker_of ws i = worker_of (wr_tracking st) i"
    by (auto simp: agrees_def)
  moreover have "tr_instance_id (event_transition e) = text_of (ev_actor e)" by (simp add: event_transition_def Let_def)
  ultimately show ?thesis using OtherEvent assms(2) by (auto simp: agrees_def init_snoc worker_of_fold)
next
  case ClearBlocked
  then show ?thesis using clear_instances_agree [OF assms(1,3)] by (simp add: clear_blocked_human_def)
next
  case (Delivered e)
  have "fst (worker_of (wr_tracking st) j) = tracked_state (wr_tracking st) j" for j by (simp add: worker_of_def)
  then show ?thesis using Delivered
    by (intro agrees_memory [OF assms(3)])
      (auto simp: on_worker_state_changed_event_def worker_of_remember prod_eq_iff split: if_splits)
qed

lemma worker_run_agrees:
  assumes "faithful_append env"
  shows "list_all recoverable_op ops \<Longrightarrow> agrees B st \<Longrightarrow> agrees (B \<union> all_set_aside env ops st) (worker_run env ops st)"
proof (induction ops arbitrary: B st)
  case (Cons x ops)
  then have "agrees (B \<union> set_aside env x st) (worker_step env x st)" using worker_step_agrees [OF assms] by simp
  from Cons.IH [OF _ this] Cons.prems(1) show ?case by (simp add: worker_run_def Un_assoc)
qed (simp add: worker_run_def)

definition health_ok :: "string list \<Rightarrow> worker_tracking \<Rightarrow> worker_tracking \<Rightarrow> bool" where
  "health_ok instances ws hs \<longleftrightarrow> fst ` set (wt_states hs) = set instances \<and> (\<forall>i \<in> set instances. worker_of hs i = worker_of ws i)"

lemma fold_states_keys: "tr_instance_id tr \<in> fst ` set (wt_states ws) \<Longrightarrow> fst ` set (wt_states (fold_worker_transition tr ws)) = fst ` set (wt_states ws)"
  by (auto simp: fold_worker_transition_def Let_def dom_update)

lemma health_step_ok:
  assumes "health_ok instances ws hs" "[] \<notin> set instances" "track_events [e] ws = Inr ws'"
  shows "health_ok instances ws' (health_step e hs)"
proof (cases "ev_type e = JStr ''worker.state.changed'' \<and> truthy (ev_actor e)")
  case True
  then have ws': "ws' = fold_worker_transition (event_transition e) ws" using assms(3) by (auto split: if_splits)
  have inst: "tr_instance_id (event_transition e) = text_of (ev_actor e)" by (simp add: event_transition_def Let_def)
  show ?thesis
  proof (cases "text_of (ev_actor e) \<in> set instances")
    case True
    then show ?thesis using assms(1) \<open>ev_type e = _ \<and> _\<close> ws' inst fold_states_keys [of "event_transition e" hs]
      by (simp add: health_ok_def health_step_def worker_of_fold)
  next
    case False
    then show ?thesis using assms(1) ws' inst by (auto simp: health_ok_def health_step_def worker_of_fold)
  qed
next
  case False
  then have "ws' = ws" using assms(3) by (auto split: if_splits)
  moreover have "health_step e hs = hs"
    using False assms(1,2) by (auto simp: health_step_def health_ok_def text_of_def)
  ultimately show ?thesis using assms(1) by simp
qed

lemma health_fold_ok:
  "health_ok instances ws hs \<Longrightarrow> [] \<notin> set instances \<Longrightarrow> track_events es ws = Inr ws' \<Longrightarrow> health_ok instances ws' (fold health_step es hs)"
proof (induction es arbitrary: ws hs)
  case (Cons e es)
  have "res_bind (track_events [e] ws) (track_events es) = Inr ws'"
    using Cons.prems(3) track_events_append [of "[e]" es ws] by (simp del: track_events.simps)
  then obtain mid where "track_events [e] ws = Inr mid" "track_events es mid = Inr ws'" by (auto simp: res_bind_Inr simp del: track_events.simps)
  then show ?case using Cons health_step_ok by (metis fold_simps(2))
qed simp

lemma health_tracks:
  assumes "init_worker_state_tracking log = Inr ws" "[] \<notin> set instances" "i \<in> set instances"
  shows "map_of (worker_health instances log) i = Some (tracked_state ws i)"
proof -
  let ?hs = "\<lparr>wt_states = map (\<lambda>i. (i, ''idle'')) (fromkeys instances), wt_task_ids = []\<rparr>"
  have "map_of (map (\<lambda>i. (i, ''idle'')) xs) j = (if j \<in> set xs then Some ''idle'' else None)" for xs and j :: string by (induction xs) auto
  then have "health_ok instances \<lparr>wt_states = [], wt_task_ids = []\<rparr> ?hs"
    by (auto simp: health_ok_def worker_of_def tracked_state_def current_task_def image_comp)
  then have "health_ok instances ws (fold health_step (events_after_latest_graceful_stop log) ?hs)"
    using health_fold_ok assms(1,2) unfolding init_worker_state_tracking_def by blast
  then have "worker_of (fold health_step (events_after_latest_graceful_stop log) ?hs) i = worker_of ws i"
    "i \<in> fst ` set (worker_health instances log)" using assms(3) by (auto simp: health_ok_def worker_health_def)
  then show ?thesis by (auto simp: worker_of_def tracked_state_def worker_health_def split: option.splits dest!: map_of_eq_None_iff [THEN iffD1])
qed

text \<open>C9: A restart finds every worker as it was, except where a change bypassed the log. The orchestrator starts with the states that it folds from the log.
  Then come, in any order, changes through the runtime, stage events, the clearing of blocked workers, events handed to the reactor, and
  events that anybody appends. A later start folds the log again, and gets the state and the current task that were in memory for
  every worker but those set aside on the way: a worker whose change could not be written, or whose extra payload overrides the task or
  the generation; a worker named as actor by a change of state that somebody else appended; a worker that an event handed to the reactor puts into
  another state than the one it has in memory; a worker that was cleared of a block while it had a task. The view of the operator shows the same state for these roles.
  Assumed: the writer keeps type, actor, task and payload of what it writes, all events lie in the window that is read, no graceful stop
  is recorded in between, and the changes of state that others append have a dict as payload.\<close>

theorem restart_restores_workers:
  assumes "faithful_append env" "list_all recoverable_op ops" "init_worker_state_tracking (wr_log st) = Inr (wr_tracking st)"
    and "[] \<notin> set instances" "list_all (in_window day_of started today) (wr_log (worker_run env ops st))"
  shows "\<exists>ws. init_worker_state_tracking (read_runtime_events day_of started today (wr_log (worker_run env ops st))) = Inr ws
    \<and> (\<forall>i. i \<notin> all_set_aside env ops st \<longrightarrow>
         tracked_state ws i = tracked_state (wr_tracking (worker_run env ops st)) i
         \<and> current_task ws i = current_task (wr_tracking (worker_run env ops st)) i
         \<and> (i \<in> set instances \<longrightarrow>
              map_of (worker_health instances (read_runtime_events day_of started today (wr_log (worker_run env ops st)))) i
              = Some (tracked_state (wr_tracking (worker_run env ops st)) i)))"
proof -
  have window: "read_runtime_events day_of started today (wr_log (worker_run env ops st)) = wr_log (worker_run env ops st)"
    using assms(5) by (simp add: read_runtime_events_def list_all_iff)
  have "agrees {} st" using assms(3) by (simp add: agrees_def)
  from worker_run_agrees [OF assms(1,2) this] obtain ws where ws: "init_worker_state_tracking (wr_log (worker_run env ops st)) = Inr ws"
    "\<And>i. i \<notin> all_set_aside env ops st \<Longrightarrow> worker_of ws i = worker_of (wr_tracking (worker_run env ops st)) i"
    by (auto simp: agrees_def)
  from ws(2) health_tracks [OF ws(1) assms(4)] show ?thesis
    unfolding window using ws(1) by (intro exI [of _ ws]) (auto simp: worker_of_def)
qed

definition demo_worker_env :: worker_env where
  "demo_worker_env =
     \<lparr>we_yaml = sorted_json, we_root = ''/p'', we_now = (\<lambda>_. ''t''), we_fresh = (\<lambda>n. (''e'' @ show_nat n, ''t'')), we_write = (\<lambda>_ e. Some e)\<rparr>"

definition demo_state_request :: "string \<Rightarrow> string \<Rightarrow> state_request" where
  "demo_state_request s t = \<lparr>sr_instance_id = ''dev-1'', sr_state = s, sr_reason = [], sr_task_id = t, sr_force = False, sr_extra = []\<rparr>"

definition demo_stage_event :: "string \<Rightarrow> string \<Rightarrow> zf_event" where
  "demo_stage_event type t = (new_event (''s'', ''t'') type)\<lparr>ev_actor := JStr ''dev-1'', ev_task_id := JStr t\<rparr>"

definition demo_idle :: worker_runtime where
  "demo_idle = \<lparr>wr_tracking = \<lparr>wt_states = [], wt_task_ids = []\<rparr>, wr_log = [], wr_registry = None\<rparr>"

definition demo_worker_ops :: "worker_op list" where
  "demo_worker_ops =
     [SetState (demo_state_request ''busy'' ''T1''), OtherEvent (demo_stage_event ''dev.build.done'' ''T0''), StageEvent (demo_stage_event ''dev.build.done'' ''T0''),
      SetState (demo_state_request ''idle'' ''T0''), OtherEvent (ready_event (''r'', ''t'') ''qa-1'' ''stuck''), Delivered (ready_event (''r'', ''t'') ''qa-1'' ''stuck'')]"

theorem restart_restores_workers_witness:
  "all_set_aside demo_worker_env demo_worker_ops demo_idle = {''qa-1''}
   \<and> (\<exists>ws. init_worker_state_tracking (read_runtime_events (\<lambda>_. None) None 0 (wr_log (worker_run demo_worker_env demo_worker_ops demo_idle))) = Inr ws
     \<and> tracked_state ws ''dev-1'' = tracked_state (wr_tracking (worker_run demo_worker_env demo_worker_ops demo_idle)) ''dev-1''
     \<and> current_task ws ''dev-1'' = ''T1'')"
proof -
  have faithful: "faithful_append demo_worker_env" by (simp add: faithful_append_def demo_worker_env_def)
  have ok: "list_all recoverable_op demo_worker_ops" by code_simp
  have init: "init_worker_state_tracking (wr_log demo_idle) = Inr (wr_tracking demo_idle)" by code_simp
  have window: "list_all (in_window (\<lambda>_. None) None 0) (wr_log (worker_run demo_worker_env demo_worker_ops demo_idle))"
    unfolding list_all_iff in_window_def by simp
  have aside: "all_set_aside demo_worker_env demo_worker_ops demo_idle = {''qa-1''}" by code_simp
  have task: "current_task (wr_tracking (worker_run demo_worker_env demo_worker_ops demo_idle)) ''dev-1'' = ''T1''" by code_simp
  have other: "''dev-1'' \<notin> all_set_aside demo_worker_env demo_worker_ops demo_idle" unfolding aside by simp
  have named: "[] \<notin> set [''dev-1'']" by simp
  note found = restart_restores_workers [OF faithful ok init named window]
  then obtain ws where ws: "init_worker_state_tracking (read_runtime_events (\<lambda>_. None) None 0 (wr_log (worker_run demo_worker_env demo_worker_ops demo_idle))) = Inr ws"
    "tracked_state ws ''dev-1'' = tracked_state (wr_tracking (worker_run demo_worker_env demo_worker_ops demo_idle)) ''dev-1''"
    "current_task ws ''dev-1'' = current_task (wr_tracking (worker_run demo_worker_env demo_worker_ops demo_idle)) ''dev-1''"
    using other by (elim exE conjE) blast
  show ?thesis by (rule conjI [OF aside], rule exI [of _ ws], rule conjI [OF ws(1)], rule conjI [OF ws(2)], rule trans [OF ws(3) task])
qed

section \<open>An old result does not release a worker\<close>

text \<open>The operations that concern a worker but not its current task: completions and reports of other tasks.\<close>

fun stale_op :: "string \<Rightarrow> string \<Rightarrow> worker_op \<Rightarrow> bool" where
  "stale_op i t (SetState r) \<longleftrightarrow>
     (sr_instance_id r = i \<longrightarrow> sr_state r \<in> set TASK_GENERATION_GUARDED_STATES \<and> sr_task_id r \<noteq> t \<and> \<not> sr_force r)"
| "stale_op i t (StageEvent e) \<longleftrightarrow> (strip (text_of (ev_actor e)) = i \<longrightarrow> text_of (ev_task_id e) \<noteq> t)"
| "stale_op i t (OtherEvent e) \<longleftrightarrow> True"
| "stale_op i t ClearBlocked \<longleftrightarrow> False"
| "stale_op i t (Delivered e) \<longleftrightarrow> handled_instance e \<noteq> i"

lemma stale_step:
  assumes "current_task (wr_tracking st) i = t" "t \<noteq> []" "stale_op i t x"
  shows "worker_of (wr_tracking (worker_step env x st)) i = worker_of (wr_tracking st) i"
  using assms by (cases x) (auto simp: worker_of_set release_stage_actor_liveness_def guarded_def request_transition_def on_worker_state_changed_event_def
      worker_of_remember Let_def)

lemma stale_run:
  assumes "t \<noteq> []" "list_all (stale_op i t) ops"
  shows "current_task (wr_tracking st) i = t \<Longrightarrow> worker_of (wr_tracking (worker_run env ops st)) i = worker_of (wr_tracking st) i"
  using assms(2)
proof (induction ops arbitrary: st)
  case (Cons x xs)
  then have same: "worker_of (wr_tracking (worker_step env x st)) i = worker_of (wr_tracking st) i" using stale_step [OF _ assms(1)] by simp
  then have "current_task (wr_tracking (worker_step env x st)) i = t" using Cons.prems(1) by (simp add: worker_of_def)
  then show ?case using Cons same by (simp add: worker_run_def)
qed (simp add: worker_run_def)

text \<open>C10: A late completion does not free a worker that is busy with something newer. As long as only reports and stage events of other tasks
  arrive, and changes of other workers (the reactor is handed no event about this worker, and no start clears it), the worker keeps its state and its task; the stage event of its own task then releases it.\<close>

theorem late_completion_harmless:
  assumes "current_task (wr_tracking st) i = t" "t \<noteq> []" "list_all (stale_op i t) ops"
  shows "worker_of (wr_tracking (worker_run env ops st)) i = worker_of (wr_tracking st) i
    \<and> (\<forall>e. strip (text_of (ev_actor e)) = i \<and> i \<notin> {[], ''zf-cli'', ''orchestrator''} \<and> text_of (ev_task_id e) = t \<longrightarrow>
         worker_of (wr_tracking (worker_run env (ops @ [StageEvent e]) st)) i
         = (release_target e, if release_target e = ''blocked_human'' then t else []))"
proof -
  note kept = stale_run [OF assms(2,3,1), of env]
  then have current: "current_task (wr_tracking (worker_run env ops st)) i = t" using assms(1) by (simp add: worker_of_def)
  have target: "release_target e \<in> {''idle'', ''blocked_human'', ''awaiting_review''}" for e by (simp add: release_target_def)
  have "worker_of (wr_tracking (worker_run env (ops @ [StageEvent e]) st)) i = (release_target e, if release_target e = ''blocked_human'' then t else [])"
    if "strip (text_of (ev_actor e)) = i" "i \<notin> {[], ''zf-cli'', ''orchestrator''}" "text_of (ev_task_id e) = t" for e
  proof -
    have "snd (worker_of (wr_tracking (worker_run env ops st)) i) = t" using current by (simp add: worker_of_def)
    then show ?thesis using that current assms(2) target [of e]
      by (auto simp: worker_run_def release_stage_actor_liveness_def Let_def worker_of_set guarded_def no_change_def request_transition_def next_worker_def
          TASK_GENERATION_RELEASE_STATES_def)
  qed
  with kept show ?thesis by blast
qed

definition demo_busy :: worker_runtime where
  "demo_busy = demo_idle\<lparr>wr_tracking := \<lparr>wt_states = [(''dev-1'', ''busy'')], wt_task_ids = [(''dev-1'', ''T1'')]\<rparr>\<rparr>"

theorem late_completion_harmless_witness:
  "current_task (wr_tracking demo_busy) ''dev-1'' = ''T1''
   \<and> worker_of (wr_tracking (worker_run demo_worker_env [StageEvent (demo_stage_event ''dev.build.done'' ''T0''), SetState (demo_state_request ''idle'' ''T0'')] demo_busy))
       ''dev-1'' = worker_of (wr_tracking demo_busy) ''dev-1''"
proof -
  have busy: "current_task (wr_tracking demo_busy) ''dev-1'' = ''T1''" by code_simp
  have "list_all (stale_op ''dev-1'' ''T1'') [StageEvent (demo_stage_event ''dev.build.done'' ''T0''), SetState (demo_state_request ''idle'' ''T0'')]" by code_simp
  then show ?thesis using late_completion_harmless [OF busy, of _ demo_worker_env] busy by blast
qed

section \<open>Where a restart does not find them\<close>

text \<open>A row whose payload is not a dict stops the start of the orchestrator, while the view of the operator reads it as empty.\<close>

lemma start_fails_on_payload:
  "init_worker_state_tracking [(demo_stage_event ''worker.state.changed'' ''T1'')\<lparr>ev_payload := JList []\<rparr>] = Inl (AttributeError ''get'')"
  "worker_health [''dev-1''] [(demo_stage_event ''worker.state.changed'' ''T1'')\<lparr>ev_payload := JList []\<rparr>] = [(''dev-1'', ''idle'')]"
  by code_simp+

text \<open>When the event cannot be written, the change is kept in memory all the same.\<close>

lemma unwritten_change_kept:
  assumes "we_write env (wr_log st) (state_event env r st) = None" "\<not> guarded (request_transition r) (wr_tracking st)" "\<not> no_change r (wr_tracking st)"
  shows "wr_log (set_worker_state env r st) = wr_log st"
    "wr_tracking (set_worker_state env r st) = fold_worker_transition (request_transition r) (wr_tracking st)"
  using assms by (simp_all add: set_worker_state_def Let_def)

text \<open>What the start of a pane writes to the log is an event of the kind the theorem allows: it sets aside the worker of the pane and no other.\<close>

lemma ready_is_other_event:
  assumes "record_ready_worker_state env i (log, f) = ((log', f'), r)" "log' \<noteq> log"
  obtains e where "log' = log @ [e]" "recoverable_op (OtherEvent e)" "set_aside env (OtherEvent e) st = {i}"
proof -
  have "\<exists>previous. log' = log @ [ready_event (we_fresh env (length log)) i previous]"
    using assms by (auto simp: record_ready_worker_state_def Let_def split: if_splits sum.splits prod.splits)
  then obtain previous where "log' = log @ [ready_event (we_fresh env (length log)) i previous]" by blast
  then show thesis by (rule that) (simp_all add: ready_event_def change_event_def new_event_def text_of_def)
qed

text \<open>The event that clears a block names no task, so the fold ignores it for a worker that still has one: the next start finds the block again,
  and so does the view of the operator, while the worker is idle in memory.\<close>

definition blocked_log :: "zf_event list" where
  "blocked_log = wr_log (worker_run demo_worker_env [StageEvent (demo_stage_event ''dev.blocked'' ''T1'')] demo_idle)"

definition restarted :: worker_runtime where
  "restarted = (case init_worker_state_tracking blocked_log of Inl _ \<Rightarrow> demo_idle
     | Inr ws \<Rightarrow> clear_blocked_human demo_worker_env \<lparr>wr_tracking = ws, wr_log = blocked_log, wr_registry = None\<rparr>)"

lemma blocked_human_replayed:
  "tracked_state (wr_tracking restarted) ''dev-1'' = ''idle'' \<and> length (wr_log restarted) = 2
   \<and> map_sum id (\<lambda>ws. tracked_state ws ''dev-1'') (init_worker_state_tracking (wr_log restarted)) = Inr ''blocked_human''
   \<and> worker_health [''dev-1''] (wr_log restarted) = [(''dev-1'', ''blocked_human'')]"
  by code_simp

text \<open>The operator who unblocks a worker is the actor of the event: the reactor frees the worker that the payload names, the fold frees one by the name
  of \<open>operator\<close>.\<close>

lemma unblock_names_operator:
  "handled_instance (unblock_event fresh i reason) = strip i" "tr_instance_id (event_transition (unblock_event fresh i reason)) = ''operator''"
  by (auto simp: handled_instance_def unblock_event_def change_event_def new_event_def payload_of_def event_transition_def text_of_def Let_def)

text \<open>The reactor has no guard: an event about an older task releases a worker that the fold keeps busy.\<close>

lemma delivery_unguarded:
  "map_prod id id (worker_of (wr_tracking (worker_run demo_worker_env [OtherEvent (ready_event (''r'', ''t'') ''dev-1'' ''stuck''), Delivered (ready_event (''r'', ''t'') ''dev-1'' ''stuck'')]
      (worker_run demo_worker_env [SetState (demo_state_request ''busy'' ''T1'')] demo_idle))) ''dev-1'') = (''idle'', ''T1'')"
  "map_sum id (\<lambda>ws. worker_of ws ''dev-1'') (init_worker_state_tracking (wr_log (worker_run demo_worker_env [OtherEvent (ready_event (''r'', ''t'') ''dev-1'' ''stuck'')]
      (worker_run demo_worker_env [SetState (demo_state_request ''busy'' ''T1'')] demo_idle)))) = Inr (''busy'', ''T1'')"
  by code_simp+

text \<open>The mirror shows the state that was set.\<close>

lemma copy_truthy_keeps: "map_of d k = Some v \<Longrightarrow> map_of (copy_truthy source ks d) k = Some v"
  unfolding copy_truthy_def
proof (induction ks arbitrary: d)
  case (Cons a ks)
  then have "map_of (if truthy (dict_get source a) \<and> \<not> has_key d a then dict_set d a (dict_get source a) else d) k = Some v"
    by (auto simp: has_key_def)
  from Cons.IH [OF this] show ?case by simp
qed simp

lemma heartbeat_state: "dict_get (heartbeat_payload e i new_state task previous) ''state'' = JStr new_state"
  by (simp add: heartbeat_payload_def Let_def dict_get_def copy_truthy_keeps)

lemma mirror_shows_state:
  assumes "\<forall>v. yaml v = sorted_json v" "ev_type e = JStr ''worker.state.changed''" "mirror_instance e \<noteq> []" "mirror_state e \<noteq> []" "load_registry f = Inr reg"
  shows "\<exists>reg' p. load_registry (apply_worker_state_changed_event yaml root now e f) = Inr reg'
    \<and> snd (get_last_heartbeat reg' (mirror_instance e)) = Some p \<and> dict_get p ''state'' = JStr (mirror_state e)"
proof -
  have yf: "session_file yaml" using assms(1) by (simp add: session_file_def)
  let ?i = "mirror_instance e"
  obtain task previous m where m: "m = dict_set (dict_set (meta_of reg ?i) ''last_heartbeat_at'' (JStr now)) ''last_heartbeat_payload''
      (JObj (heartbeat_payload e ?i (mirror_state e) task previous))"
    "apply_worker_state_changed_event yaml root now e f = save_registry yaml root (set_meta ?i m reg)"
    using assms(2-5) by (simp add: apply_worker_state_changed_event_def session_exec_def locked_rmw_def unanswer_def record_heartbeat_body_def Let_def)
  define reg' where "reg' = \<lparr>rr_entries = sort_dict (rr_entries (set_meta ?i m reg)),
    rr_meta = map (on_val (as_dict \<circ> sorted_json \<circ> JObj)) (sort_dict (rr_meta (set_meta ?i m reg))),
    rr_bindings = map (on_val (as_dict \<circ> sorted_json \<circ> JObj)) (sort_dict (rr_bindings (set_meta ?i m reg)))\<rparr>"
  have load: "load_registry (apply_worker_state_changed_event yaml root now e f) = Inr reg'"
    unfolding m(2) reg'_def by (rule session_file.reload [OF yf])
  have "meta_of reg' ?i = as_dict (sorted_json (JObj m))"
    by (simp add: meta_of_def reg'_def map_of_on_val map_of_sorted set_meta_def update_conv' del: sorted_json.simps)
  then have "dict_get (meta_of reg' ?i) ''last_heartbeat_payload'' = sorted_json (JObj (heartbeat_payload e ?i (mirror_state e) task previous))"
    by (simp add: dict_get_sorted m(1) del: sorted_json.simps)
  moreover have "dict_get (as_dict (sorted_json (JObj (heartbeat_payload e ?i (mirror_state e) task previous)))) ''state'' = JStr (mirror_state e)"
    by (simp add: dict_get_sorted heartbeat_state del: sorted_json.simps(1))
  ultimately show ?thesis using load by (simp add: get_last_heartbeat_def Let_def)
qed

end
