(* ===== verification/Spec2Isabelle.thy ===== *)
theory Spec2Isabelle
  imports Task_Attempts Task_Store Event_Segments Event_Writer State_Machine Failure_Handling Stage_Reachability Nonce Locks
    Dependency_Barrier Integration_Queue Terminal_Ledger Attempt_Ledger Fanout_Manifest
    Question_Graph Task_Map_Evidence Run_Capacity Attestation Worker_State
begin

text \<open>
  ZaoFu runs coding agents as workers on a task board. Its harness keeps everything it knows in files
  under \<open>.zf/\<close>, and this development models the core under \<open>src/src/zf/core/\<close> that reads and writes
  them: the task board, the attempts to deliver tasks to workers, the append-only event log with its
  readers, index, schema gate and writer, and the checks and policies the scheduler consults; and, from
  \<open>src/src/zf/runtime/\<close>, the modules that derive what to do next from the log.

  \<^bold>\<open>Parts and how they interact.\<close> A scheduler reads \<open>ready\<close> tasks from the board
  (\<open>core/task/store.py\<close>), opens an attempt for each dispatch (\<open>core/state/task_attempts.py\<close>), and
  records what happens as events. Every event goes through \<open>EventWriter.append\<close>
  (\<open>core/events/writer.py\<close>), which links it to its cause with the help of the index
  (\<open>core/events/index.py\<close>), checks its payload against the schema registry
  (\<open>core/verification/event_schema.py\<close>), and appends it to the log (\<open>core/events/log.py\<close>), signed when
  the project has a secret (\<open>core/security/signing.py\<close>). Readers poll the log, fold over it, or read
  numbered rows across archived segments (\<open>core/events/segments.py\<close>). The runtime decides from the events alone: which
  run an event belongs to (\<open>runtime/run_scope.py\<close>), whether the dependencies of a stage are met
  (\<open>runtime/workflow_dependency_barrier.py\<close>), which instance of a fanout is the current one
  (\<open>runtime/fanout_identity.py\<close>), and what waits for integration (\<open>runtime/integration_queue.py\<close>); a ledger tells a
  first terminal success from its replays (\<open>runtime/terminal_ledger.py\<close>). A fanout is planned from a task map, which is
  admitted only when its order exists and its evidence can be produced (\<open>runtime/task_map_evidence.py\<close>); its manifest is
  rebuilt from the events of its children (\<open>runtime/fanout.py\<close>), whose reports are validated first
  (\<open>runtime/fanout_report_failure.py\<close>); children that wait for a failed one are closed
  (\<open>runtime/writer_fanout_dependency_failure.py\<close>); failures and rework rounds are counted from the log
  (\<open>runtime/attempt_ledger.py\<close>, \<open>runtime/housekeeping.py\<close>), and a run that has ended is told from one that was reopened
  (\<open>runtime/terminal_events.py\<close>). The questions of a discussion form a graph whose frontier is asked next
  (\<open>runtime/channel_question_graph.py\<close>). Before any of this a run has to be admitted: requests to start a workflow wait in a queue that is itself a
  fold of the log (\<open>runtime/run_admission.py\<close>), at most a configured number of runs is active at a time, and the worktrees, branches and files
  of each active run are its own (\<open>runtime/run_isolation.py\<close>). An operator pauses, resumes and cancels runs
  (\<open>runtime/control_actions_run.py\<close>). The orchestrator knows from the log which worker is free
  (\<open>runtime/worker_state_runtime.py\<close>, with further writers in \<open>runtime/orchestrator.py\<close>, \<open>runtime/orchestrator_reactor.py\<close>,
  \<open>cli/agents.py\<close> and \<open>cli/start.py\<close>), and a registry keeps which provider session each worker and each stage of a task resumes
  (\<open>core/state/role_sessions.py\<close>). What is handed from one agent to the next is attested by its digest and checked before it is used
  (\<open>core/security/attestation.py\<close>).

  \<^bold>\<open>Theories.\<close>
  \<^item> \<open>Py_Base\<close>: Python values as the data type \<^typ>\<open>json\<close>, dicts as association lists in insertion
    order (\<^typ>\<open>pydict\<close>), exceptions as the left summand of \<open>'a res\<close>, and the lemmas on them that all
    components share. \<open>Py_Hash\<close>: SHA-256 and HMAC as computable functions on byte lists. \<open>Py_Json\<close>:
    \<open>json.dumps\<close> and \<open>json.loads\<close> with their round trip.
  \<^item> \<open>Locks\<close>: the lock protocols of \<open>core/state/locks.py\<close> and \<open>runtime/session_mutex.py\<close>, as step relations of
    interleaved processes. \<open>State_File\<close>: the locked read-modify-write of a JSON file, as a locale that every
    store interprets; that it is one step is what the exclusion proved in \<open>Locks\<close> allows.
  \<^item> \<open>Task_Schema\<close>: the dataclasses of \<open>core/task/schema.py\<close> as tables of fields and defaults, contract
    normalisation, and the authority revision of \<open>core/task/authority.py\<close>.
  \<^item> \<open>Task_Store\<close>: \<open>TaskStore\<close>. The state is the active board, the day archives and the terminal index;
    an operation is the list of file writes it makes in order, so that a crash is a prefix of it.
  \<^item> \<open>Task_Attempts\<close>: \<open>TaskAttemptStore\<close>. The state is the stored JSON; every public method is a
    definition, composed of the loader with all its checks, a body and the save.
  \<^item> \<open>Event_Log\<close>: events, signer, \<open>EventLog\<close> and archive rotation on the bytes of the files.
    \<open>Event_Segments\<close>: the readers over segments, rows and cursors. \<open>Event_Index\<close>: the index, its projection
    file, and the log with its index. \<open>Event_Schema\<close>: rules, registry, validation and canonical
    tables. \<open>Event_Writer\<close>: enrichment, schema gate, projectors and the bounded id set.
  \<^item> \<open>State_Machine\<close>: the four transition tables of \<open>core/statemachine/\<close>, each an interpretation of one
    locale. \<open>Failure_Handling\<close>: taxonomy, retry policy, back-off and circuit breaker of \<open>core/errors/\<close>.
    \<open>Stage_Reachability\<close>: the producibility fixpoint of \<open>core/workflow/reachability.py\<close>.
    \<open>Nonce\<close>: the single-use nonces of \<open>core/security/nonce.py\<close>. \<open>Attestation\<close>: the attestation files of \<open>core/security/attestation.py\<close>.
  \<^item> \<open>Run_Scope\<close>, \<open>Dependency_Barrier\<close>, \<open>Fanout_Identity\<close>, \<open>Integration_Queue\<close>: the modules of \<open>runtime/\<close> named above,
    each a fold over the events with the state its loop keeps. \<open>Terminal_Ledger\<close>: the ledger, a further
    interpretation of the locale of state files.
  \<^item> \<open>Terminal_Events\<close>: which events end or reopen a run. \<open>Attempt_Ledger\<close>: the attempts of a task and its counted failures,
    with the rework counter. \<open>Fanout_Report\<close>: normalisation and validation of reports. \<open>Writer_Dependencies\<close>: the closure of
    blocked children and the events that close them. \<open>Fanout_Manifest\<close>: the fanout context and the rebuild of the manifest.
  \<^item> \<open>Dep_Graph\<close>: a locale of dependency graphs and when a settled order shows them acyclic; \<open>Question_Graph\<close> (a search in depth)
    and \<open>Task_Map_Evidence\<close> (the removal of sources) interpret it.
  \<^item> \<open>Run_Isolation\<close>: the names and prefixes of a run and their overlap. \<open>Run_Admission\<close>: the fold that tells the state of each request,
    admission, release, reconciliation and the controls, each an operation on the log. \<open>Run_Capacity\<close>: the logs that these operations and
    any other events can reach in any order, as an inductive predicate that keeps the runs touched from outside of admission, and what holds of them.
  \<^item> \<open>Role_Sessions\<close>: the session registry, with the laws of its YAML file as a locale that extends the one of state files. \<open>Worker_State\<close>: the states of
    workers in memory, in the log and in the registry.

  \<^bold>\<open>What is shown.\<close>
  \<^item> Board: no task is lost by any sequence of operations, the rebuild of the index included, each of them stopped by a crash between two file
    writes or not, as long as the archive holds what the index names; a stale compare-and-update
    changes nothing; completing a task makes exactly its dependents ready that had no other open blocker;
    stamps are frozen; a batch is added whole and closed under references, or not at all; a completed task is
    read back from its archive; the contract of a task that is read back has the types its class annotates.
  \<^item> Attempts: over all operations in any order that name their operation and set known statuses, at most one attempt per lane is active, the
    retry budget holds, the file stays loadable, and a repeated dispatch is answered with the same attempt; an attempt is delivered once, and once
    more for each update that makes it prepared again.
  \<^item> Log: appended events are all read back in order across rotations; with signing on only signed
    lines are believed; polling from offsets misses and repeats nothing; the fold cache is exact; rows,
    cursors and locators of segments agree with the log.
  \<^item> Index, schema and writer: the index gives the answers of a scan as long as it saw all events and
    its limits are not reached, and never a wrong event; in blocking mode only admitted events reach the log; enrichment does not depend on
    the index.
  \<^item> Policies: a done task went through review and testing; every machine can be stopped; the breaker is open
    exactly when the window holds enough failures; the reachability report is exact for the inductive
    definition of producible events when a role publishes the entry event; a nonce is consumed at most once under any interleaving; an attested artifact is accepted
    exactly while it has the attested digest, as long as nothing else is attested in the same attestation file.
  \<^item> Runtime: the views of different runs share no event that belongs to one of them; a barrier opens exactly when all its dependencies have succeeded
    last, and once; the current instance of a fanout is the one started last; an entry of the integration queue
    moves only along the transition table, a redelivered event changes nothing, and a superseded fanout
    integrates nothing; the first acceptance of a terminal success is the one the ledger answers with; a run is quiescent exactly when its last terminal event
    has no effective reopening after it, and late results are fenced off exactly after a success; a failure of a fanout that is
    replayed uses up no round of rework; the verdict of a report is characterised on every input, the fallback for a child that sent nothing included, and validating a
    report again changes nothing.
  \<^item> Fanouts and planning: the blocked children are exactly those that reach a failed task through dependencies; closing them is one round, after
    which nothing is left to close; a child of the manifest is the fold of its own events; an admitted task map has an order that respects
    every blocker, its absence means a cycle, and evidence is produced by the task itself or by an earlier one, which owns its plain paths; the question graph is
    accepted exactly when it is closed and acyclic, and without merges an open question of a thread always leaves one to ask unless one waits for a question
    of another thread.
  \<^item> Runs: whatever the order of admissions, rejections, controls and other events, no more runs are active than the capacity allows, not counting
    the runs that an event from outside of admission started, paused, resumed or reopened, and a run that is over stays over unless its goal is blocked afterwards; when nothing is active, a reconciliation admits the head of the queue; active runs share no file;
    a reconciliation ends. A crash between the event that releases a run and the event that admits its successor is shown to stop the queue.
  \<^item> Workers: what a restart rebuilds from the log is what was in memory, for each worker whose state only the operations of its module wrote; the completion of an older task does not free a worker that has a newer one;
    a provider session belongs to at most one worker, and the placements of a task stage only advance.
  \<^item> Locks: at most one process is in the locked section of a state file under any interleaving, timeouts and
    crashes included.
  \<^item> Properties of kind \<open>error\<close> show what the code does where it departs from its documentation.

  \<^bold>\<open>Bounds, fuel and termination.\<close> The JSON reader takes the length of the text as fuel, which its round trip
  shows to be enough, and the search for a free archive name one step more than there are archives.
  \<open>saturate\<close>, \<open>rule_from_dict\<close>, \<open>walk_causation\<close>, \<open>block_loop\<close>, \<open>kahn_loop\<close>, \<open>closure_loop\<close>, \<open>visit\<close> and \<open>dependency_settled\<close> are
  proved to terminate by measures. \<open>reconcile_loop\<close> takes one step more than there are requests as fuel, which \<open>reconciliation_ends\<close> shows to be enough. The limits of the index and of the id set are fields of the state, with the
  code's defaults in \<open>new_index\<close>. Time, random names and trace ids are arguments.

  \<^bold>\<open>Not modelled.\<close> Fractional numbers in JSON values (times of the breaker are reals, times of nonces whole
  seconds); file-system failures other than the ones a component handles itself; the module-level caches,
  which are transparent except for the fold cache, which is modelled. The configuration loader, the rest of
  \<open>src/src/zf/runtime/\<close> (worker processes, terminals, the drivers of fanouts, the run manager, the arbiter that is attached to the
  integration queue), the web server, the command line and the chat integrations
  are outside: they drive the stores modelled here through the operations modelled here. The handlers of
  the default projectors live there and are parameters of \<open>default_projectors\<close>. Of the fanout, writing \<open>manifest.json\<close> and the
  projection of failed reports into further events are left out; of the runs, the meter of the budget and the limits of a run are values of the
  state, the handler that an admitted invocation calls is an argument, and the answer of a control is its status code and its status; of the
  sessions, YAML is a parameter that is assumed to give back what was dumped, with its keys sorted, the search for session files is what it found, and
  different names are assumed to have different UUIDs where a property says so; the registry of event problems is an argument of the rework counter;
  of the reactor, its bookkeeping for recycling and respawns is left out, and the registration of a dormant worker at start is one of the events that others append. Of
  Python's \<open>dict(...)\<close> on a list of pairs the keys are strings.
\<close>

end
